(* ===== verification/Prelude.thy ===== *)
theory Prelude
  imports Main "HOL-Library.Word"
begin

unbundle bit_operations_syntax

text \<open>
  What every component shares: the machine types, byte strings and text, fallible results, the
  byte orders of integers and the splitting of slices.  Everything here models the Rust language and
  its standard library, as far as the crate uses them; nothing here is code of the crate.

  A Rust \<open>char\<close> is a Unicode scalar value and is modelled by its number (\<open>uchar\<close>), a
  \<open>String\<close> by the list of its characters (\<open>ustr\<close>); \<open>scalar\<close> and \<open>valid_str\<close>
  (\<open>Text_Codecs\<close>) say which numbers and lists are values of the Rust types.  A \<open>Result\<close> is a sum with the error on the
  left.
\<close>

named_theorems wire_simps \<open>lengths and round trips of the byte-level encodings\<close>

section \<open>Types\<close>

type_synonym u8 = "8 word"
type_synonym u16 = "16 word"
type_synonym u32 = "32 word"
type_synonym u64 = "64 word"
type_synonym bytes = "u8 list"
type_synonym uchar = nat
type_synonym ustr = "uchar list"

definition lit :: "string \<Rightarrow> ustr" where
  "lit s = map of_char s"

lemma lit_inject [simp]: "lit s = lit t \<longleftrightarrow> s = t"
proof -
  have "inj (of_char :: char \<Rightarrow> nat)" by (simp add: inj_on_def)
  then show ?thesis by (simp add: lit_def inj_map_eq_map)
qed

lemma lit_eq_Nil [simp]: "lit s = [] \<longleftrightarrow> s = []" "[] = lit s \<longleftrightarrow> s = []"
  by (auto simp: lit_def)

lemma lit_append: "lit (s @ t) = lit s @ lit t"
  by (simp add: lit_def)

lemma length_lit [simp]: "length (lit s) = length s"
  by (simp add: lit_def)

section \<open>Results\<close>

definition rbind :: "'e + 'a \<Rightarrow> ('a \<Rightarrow> 'e + 'b) \<Rightarrow> 'e + 'b" where
  "rbind r f = (case r of Inl e \<Rightarrow> Inl e | Inr x \<Rightarrow> f x)"

lemma rbind_simps [simp]: "rbind (Inl e) f = Inl e" "rbind (Inr x) f = f x"
  by (simp_all add: rbind_def)

lemma rbind_Inr_iff: "rbind r f = Inr y \<longleftrightarrow> (\<exists>x. r = Inr x \<and> f x = Inr y)"
  by (cases r) auto

lemma rbind_Inl_iff: "rbind r f = Inl e \<longleftrightarrow> r = Inl e \<or> (\<exists>x. r = Inr x \<and> f x = Inl e)"
  by (cases r) auto

lemma map_sum_Inr_iff: "map_sum id f y = Inr z \<longleftrightarrow> (\<exists>x. y = Inr x \<and> z = f x)"
  by (cases y) auto

lemma rbind_cong [fundef_cong]:
  "r = r' \<Longrightarrow> (\<And>x. r' = Inr x \<Longrightarrow> f x = f' x) \<Longrightarrow> rbind r f = rbind r' f'"
  by (cases r') auto

fun option_of :: "'e + 'a \<Rightarrow> 'a option" where
  "option_of (Inl e) = None"
| "option_of (Inr x) = Some x"

definition ok_or :: "'a option \<Rightarrow> 'e \<Rightarrow> 'e + 'a" where
  "ok_or m e = (case m of None \<Rightarrow> Inl e | Some x \<Rightarrow> Inr x)"

lemma ok_or_simps [simp]: "ok_or None e = Inl e" "ok_or (Some x) e = Inr x"
  by (simp_all add: ok_or_def)

fun filter_map :: "('a \<Rightarrow> 'b option) \<Rightarrow> 'a list \<Rightarrow> 'b list" where
  "filter_map f [] = []"
| "filter_map f (x # xs) = (case f x of None \<Rightarrow> filter_map f xs | Some y \<Rightarrow> y # filter_map f xs)"

fun find_map :: "('a \<Rightarrow> 'b option) \<Rightarrow> 'a list \<Rightarrow> 'b option" where
  "find_map f [] = None"
| "find_map f (x # xs) = (case f x of None \<Rightarrow> find_map f xs | Some y \<Rightarrow> Some y)"

section \<open>Integers as bytes\<close>

text \<open>\<open>to_le_bytes\<close> and \<open>from_le_bytes\<close> of the unsigned integers, over their values.\<close>

fun nat_to_le :: "nat \<Rightarrow> nat \<Rightarrow> bytes" where
  "nat_to_le 0 n = []"
| "nat_to_le (Suc k) n = of_nat (n mod 256) # nat_to_le k (n div 256)"

fun le_to_nat :: "bytes \<Rightarrow> nat" where
  "le_to_nat [] = 0"
| "le_to_nat (b # bs) = unat b + 256 * le_to_nat bs"

lemma unat_less_pow: "unat (w :: 'a::len word) < 2 ^ LENGTH('a)"
  by (rule unsigned_less)

lemma unat_of_nat_byte [simp]: "n < 256 \<Longrightarrow> unat (of_nat n :: u8) = n"
  by (simp add: unat_of_nat)

lemma unat_byte_less [simp]: "unat (b :: u8) < 256"
  using unat_less_pow [of b] by simp

lemma length_nat_to_le [simp, wire_simps]: "length (nat_to_le k n) = k"
  by (induction k arbitrary: n) auto

lemma le_to_nat_less: "le_to_nat bs < 256 ^ length bs"
proof (induction bs)
  case (Cons b bs)
  have "unat b \<le> 255" using unat_byte_less [of b] by linarith
  moreover have "le_to_nat bs + 1 \<le> 256 ^ length bs" using Cons by simp
  then have "256 * (le_to_nat bs + 1) \<le> 256 * 256 ^ length bs" by (rule mult_le_mono2)
  ultimately show ?case by simp
qed simp

lemma le_to_nat_nat_to_le: "le_to_nat (nat_to_le k n) = n mod 256 ^ k"
  by (induction k arbitrary: n) (auto simp: mod_mult2_eq unat_of_nat)

lemma nat_to_le_le_to_nat: "nat_to_le (length bs) (le_to_nat bs) = bs"
proof (induction bs)
  case (Cons b bs)
  have "(unat b + 256 * le_to_nat bs) mod 256 = unat b"
    using unat_byte_less [of b] by (simp add: mod_mult_self2)
  moreover have "(unat b + 256 * le_to_nat bs) div 256 = le_to_nat bs"
    using unat_byte_less [of b] by simp
  ultimately show ?case using Cons by simp
qed simp

definition u32_to_le :: "u32 \<Rightarrow> bytes" where "u32_to_le w = nat_to_le 4 (unat w)"
definition u32_of_le :: "bytes \<Rightarrow> u32" where "u32_of_le bs = of_nat (le_to_nat bs)"
definition u32_to_be :: "u32 \<Rightarrow> bytes" where "u32_to_be w = rev (nat_to_le 4 (unat w))"
definition u32_of_be :: "bytes \<Rightarrow> u32" where "u32_of_be bs = of_nat (le_to_nat (rev bs))"
definition u64_to_be :: "u64 \<Rightarrow> bytes" where "u64_to_be w = rev (nat_to_le 8 (unat w))"
definition u64_of_be :: "bytes \<Rightarrow> u64" where "u64_of_be bs = of_nat (le_to_nat (rev bs))"
definition u16_to_le :: "u16 \<Rightarrow> bytes" where "u16_to_le w = nat_to_le 2 (unat w)"
definition u16_of_le :: "bytes \<Rightarrow> u16" where "u16_of_le bs = of_nat (le_to_nat bs)"

lemma unat_mod_self: "unat (w :: 'a::len word) mod 2 ^ LENGTH('a) = unat w"
  using unat_less_pow [of w] by simp

lemma int_codec_lengths [simp, wire_simps]:
  "length (u32_to_le w) = 4" "length (u32_to_be w) = 4" "length (u64_to_be q) = 8"
  "length (u16_to_le h) = 2"
  by (simp_all add: u32_to_le_def u32_to_be_def u64_to_be_def u16_to_le_def)

lemma u32_le_roundtrip [simp, wire_simps]: "u32_of_le (u32_to_le w) = w"
  using unat_mod_self [of w] by (simp add: u32_of_le_def u32_to_le_def le_to_nat_nat_to_le)

lemma u32_be_roundtrip [simp, wire_simps]: "u32_of_be (u32_to_be w) = w"
  using unat_mod_self [of w] by (simp add: u32_of_be_def u32_to_be_def le_to_nat_nat_to_le)

lemma u64_be_roundtrip [simp, wire_simps]: "u64_of_be (u64_to_be w) = w"
  using unat_mod_self [of w] by (simp add: u64_of_be_def u64_to_be_def le_to_nat_nat_to_le)

lemma u16_le_roundtrip [simp, wire_simps]: "u16_of_le (u16_to_le w) = w"
  using unat_mod_self [of w] by (simp add: u16_of_le_def u16_to_le_def le_to_nat_nat_to_le)

lemma u32_of_le_inverse: "length bs = 4 \<Longrightarrow> u32_to_le (u32_of_le bs) = bs"
  using le_to_nat_less [of bs] nat_to_le_le_to_nat [of bs]
  by (simp add: u32_of_le_def u32_to_le_def unat_of_nat)

lemma unat_u32_of_be_less: "unat (u32_of_be bs) < 2 ^ 32"
  using unat_less_pow [of "u32_of_be bs"] by simp

section \<open>Splitting byte strings\<close>

text \<open>\<open>slice::split_first_chunk::<n>\<close>, \<open>strip_prefix\<close> and \<open>chunks\<close>.\<close>

definition split_first_chunk :: "nat \<Rightarrow> 'a list \<Rightarrow> ('a list \<times> 'a list) option" where
  "split_first_chunk n xs = (if n \<le> length xs then Some (take n xs, drop n xs) else None)"

definition strip_prefix :: "'a list \<Rightarrow> 'a list \<Rightarrow> 'a list option" where
  "strip_prefix p xs =
     (if length p \<le> length xs \<and> take (length p) xs = p then Some (drop (length p) xs) else None)"

function chunks :: "nat \<Rightarrow> 'a list \<Rightarrow> 'a list list" where
  "chunks n xs = (if n = 0 \<or> xs = [] then [] else take n xs # chunks n (drop n xs))"
  by pat_completeness auto
termination
  by (relation "measure (\<lambda>(n, xs). length xs)") auto

declare chunks.simps [simp del]

lemma split_first_chunk_append [simp, wire_simps]:
  "length xs = n \<Longrightarrow> split_first_chunk n (xs @ ys) = Some (xs, ys)"
  by (simp add: split_first_chunk_def)

lemma split_first_chunk_SomeD:
  "split_first_chunk n xs = Some (a, b) \<Longrightarrow> xs = a @ b \<and> length a = n"
  by (auto simp: split_first_chunk_def split: if_splits)

lemma split_first_chunk_None_iff: "split_first_chunk n xs = None \<longleftrightarrow> length xs < n"
  by (auto simp: split_first_chunk_def)

lemma strip_prefix_append [simp]: "strip_prefix p (p @ xs) = Some xs"
  by (simp add: strip_prefix_def)

lemma strip_prefix_SomeD: "strip_prefix p xs = Some ys \<Longrightarrow> xs = p @ ys"
  by (auto simp: strip_prefix_def split: if_splits) (metis append_take_drop_id)

lemma chunks_Nil [simp]: "chunks n [] = []"
  by (simp add: chunks.simps)

lemma concat_chunks: "0 < n \<Longrightarrow> concat (chunks n xs) = xs"
proof (induction n xs rule: chunks.induct)
  case (1 n xs)
  then show ?case by (cases "xs = []") (auto simp: chunks.simps [of n xs])
qed

lemma chunks_bounds: "c \<in> set (chunks n xs) \<Longrightarrow> 0 < length c \<and> length c \<le> n"
proof (induction n xs rule: chunks.induct)
  case (1 n xs)
  show ?case
  proof (cases "n = 0 \<or> xs = []")
    case True
    with "1.prems" show ?thesis by (simp add: chunks.simps [of n xs])
  next
    case False
    with "1.prems" consider "c = take n xs" | "c \<in> set (chunks n (drop n xs))"
      by (auto simp: chunks.simps [of n xs])
    then show ?thesis using False "1.IH" by cases auto
  qed
qed

lemma chunks_eq_Nil_iff: "0 < n \<Longrightarrow> chunks n xs = [] \<longleftrightarrow> xs = []"
  by (simp add: chunks.simps [of n xs])

lemma length_chunks_le: "0 < n \<Longrightarrow> length (chunks n xs) \<le> length xs"
proof (induction n xs rule: chunks.induct)
  case (1 n xs)
  show ?case
  proof (cases "xs = []")
    case False
    with 1 have "length (chunks n (drop n xs)) \<le> length xs - n" by simp
    moreover have "length xs - n < length xs" using False "1.prems" by simp
    ultimately have "Suc (length (chunks n (drop n xs))) \<le> length xs" by linarith
    then show ?thesis using False "1.prems" by (simp add: chunks.simps [of n xs])
  qed simp
qed

end
