(* ===== verification/Text_Codecs.thy ===== *)
theory Text_Codecs
  imports Prelude
begin

text \<open>
  Text of the standard library: printing and parsing of integers, white space and letter case,
  and the two encodings the crate moves text through, UTF-8 (message bodies, lines) and UTF-16
  (secure strings and the \<open>_xHHHH_\<close> escapes).  The decoders follow the standard library's
  validation, with its error positions, so that error messages can be written out.
\<close>

section \<open>Scalar values\<close>

definition scalar :: "uchar \<Rightarrow> bool" where
  "scalar c \<longleftrightarrow> c < 0xD800 \<or> (0xE000 \<le> c \<and> c < 0x110000)"

abbreviation valid_str :: "ustr \<Rightarrow> bool" where
  "valid_str s \<equiv> list_all scalar s"

lemma valid_str_lit [simp]: "valid_str (lit s)"
proof -
  have "of_char c < (256 :: nat)" for c :: char by (rule nat_of_char_less_256)
  then show ?thesis by (auto simp: lit_def list_all_iff scalar_def less_imp_le
        intro: less_trans [of _ 256])
qed

definition REPLACEMENT :: uchar where "REPLACEMENT = 0xFFFD"
definition BOM_CHAR :: uchar where "BOM_CHAR = 0xFEFF"

definition char_from_u32 :: "nat \<Rightarrow> uchar option" where
  "char_from_u32 n = (if scalar n then Some n else None)"

section \<open>Printing integers\<close>

fun show_nat :: "nat \<Rightarrow> ustr" where
  "show_nat n = (if n < 10 then [48 + n] else show_nat (n div 10) @ [48 + n mod 10])"

declare show_nat.simps [simp del]

definition show_int :: "int \<Rightarrow> ustr" where
  "show_int i = (if i < 0 then 45 # show_nat (nat (- i)) else show_nat (nat i))"

abbreviation show_word :: "'a::len word \<Rightarrow> ustr" where
  "show_word w \<equiv> show_nat (unat w)"

abbreviation show_sword :: "'a::len word \<Rightarrow> ustr" where
  "show_sword w \<equiv> show_int (sint w)"

lemma show_nat_neq_Nil [simp]: "show_nat n \<noteq> []"
  by (subst show_nat.simps) simp

lemma show_nat_digits: "c \<in> set (show_nat n) \<Longrightarrow> 48 \<le> c \<and> c \<le> 57"
proof (induction n rule: show_nat.induct)
  case (1 n)
  show ?case
  proof (cases "n < 10")
    case True
    with "1.prems" show ?thesis by (simp add: show_nat.simps [of n])
  next
    case False
    with "1.prems" have "c \<in> set (show_nat (n div 10)) \<or> c = 48 + n mod 10"
      by (auto simp: show_nat.simps [of n])
    moreover have "n mod 10 < 10" by simp
    ultimately show ?thesis using "1.IH" [OF False] by auto
  qed
qed

lemma show_int_chars: "c \<in> set (show_int i) \<Longrightarrow> c = 45 \<or> (48 \<le> c \<and> c \<le> 57)"
  by (auto simp: show_int_def dest: show_nat_digits split: if_splits)

text \<open>Hexadecimal, as \<open>{:04X}\<close> and \<open>{:x}\<close> print it.\<close>

definition hex_digit_upper :: "nat \<Rightarrow> uchar" where
  "hex_digit_upper d = (if d < 10 then 48 + d else 55 + d)"

definition hex_digit_lower :: "nat \<Rightarrow> uchar" where
  "hex_digit_lower d = (if d < 10 then 48 + d else 87 + d)"

definition hex4 :: "nat \<Rightarrow> ustr" where
  "hex4 n = map hex_digit_upper [n div 4096 mod 16, n div 256 mod 16, n div 16 mod 16, n mod 16]"

fun show_hex :: "nat \<Rightarrow> ustr" where
  "show_hex n = (if n < 16 then [hex_digit_lower n]
                 else show_hex (n div 16) @ [hex_digit_lower (n mod 16)])"

declare show_hex.simps [simp del]

section \<open>Parsing integers\<close>

text \<open>
  \<open>from_str_radix\<close>: an optional sign (a \<open>-\<close> is a digit error for an unsigned type), then
  digits accumulated with overflow checks; the range of the type is \<open>[lo, hi]\<close>.  In each step
  the digit is examined before the overflow of the multiplication is reported.
\<close>

datatype int_error = IE_Empty | IE_InvalidDigit | IE_PosOverflow | IE_NegOverflow

fun int_error_text :: "int_error \<Rightarrow> ustr" where
  "int_error_text IE_Empty = lit ''cannot parse integer from empty string''"
| "int_error_text IE_InvalidDigit = lit ''invalid digit found in string''"
| "int_error_text IE_PosOverflow = lit ''number too large to fit in target type''"
| "int_error_text IE_NegOverflow = lit ''number too small to fit in target type''"

definition to_digit :: "nat \<Rightarrow> uchar \<Rightarrow> nat option" where
  "to_digit radix c =
     (let v = (if 48 \<le> c \<and> c \<le> 57 then c - 48
               else if 65 \<le> c \<and> c \<le> 90 then c - 55
               else if 97 \<le> c \<and> c \<le> 122 then c - 87
               else radix)
      in if v < radix then Some v else None)"

fun parse_pos :: "nat \<Rightarrow> int \<Rightarrow> int \<Rightarrow> ustr \<Rightarrow> int_error + int" where
  "parse_pos radix hi acc [] = Inr acc"
| "parse_pos radix hi acc (c # cs) =
     (case to_digit radix c of
        None \<Rightarrow> Inl IE_InvalidDigit
      | Some d \<Rightarrow>
          if acc * int radix > hi then Inl IE_PosOverflow
          else if acc * int radix + int d > hi then Inl IE_PosOverflow
          else parse_pos radix hi (acc * int radix + int d) cs)"

fun parse_neg :: "nat \<Rightarrow> int \<Rightarrow> int \<Rightarrow> ustr \<Rightarrow> int_error + int" where
  "parse_neg radix lo acc [] = Inr acc"
| "parse_neg radix lo acc (c # cs) =
     (case to_digit radix c of
        None \<Rightarrow> Inl IE_InvalidDigit
      | Some d \<Rightarrow>
          if acc * int radix < lo then Inl IE_NegOverflow
          else if acc * int radix - int d < lo then Inl IE_NegOverflow
          else parse_neg radix lo (acc * int radix - int d) cs)"

definition from_str_radix :: "nat \<Rightarrow> int \<Rightarrow> int \<Rightarrow> ustr \<Rightarrow> int_error + int" where
  "from_str_radix radix lo hi s =
     (if s = [] then Inl IE_Empty
      else if s = [43] \<or> s = [45] then Inl IE_InvalidDigit
      else if hd s = 43 then parse_pos radix hi 0 (tl s)
      else if hd s = 45 \<and> lo < 0 then parse_neg radix lo 0 (tl s)
      else parse_pos radix hi 0 s)"

lemma parse_pos_append:
  "parse_pos r hi a (xs @ ys) = rbind (parse_pos r hi a xs) (\<lambda>b. parse_pos r hi b ys)"
  by (induction xs arbitrary: a) (auto split: option.splits)

lemma parse_neg_append:
  "parse_neg r lo a (xs @ ys) = rbind (parse_neg r lo a xs) (\<lambda>b. parse_neg r lo b ys)"
  by (induction xs arbitrary: a) (auto split: option.splits)

lemma to_digit_dec: "d < 10 \<Longrightarrow> to_digit 10 (48 + d) = Some d"
  by (simp add: to_digit_def)

lemma parse_pos_show_nat: "int n \<le> hi \<Longrightarrow> parse_pos 10 hi 0 (show_nat n) = Inr (int n)"
proof (induction n rule: show_nat.induct)
  case (1 n)
  show ?case
  proof (cases "n < 10")
    case True
    with "1.prems" show ?thesis by (simp add: show_nat.simps [of n] to_digit_dec)
  next
    case False
    have "int (n div 10) \<le> hi" using "1.prems" by linarith
    then have "parse_pos 10 hi 0 (show_nat (n div 10)) = Inr (int (n div 10))"
      using "1.IH" [OF False] by blast
    moreover have "int (n div 10) * 10 + int (n mod 10) = int n" by (simp add: zdiv_int zmod_int)
    ultimately show ?thesis using False "1.prems"
      by (simp add: show_nat.simps [of n] parse_pos_append to_digit_dec)
  qed
qed

lemma parse_neg_show_nat: "lo \<le> - int n \<Longrightarrow> parse_neg 10 lo 0 (show_nat n) = Inr (- int n)"
proof (induction n rule: show_nat.induct)
  case (1 n)
  show ?case
  proof (cases "n < 10")
    case True
    with "1.prems" show ?thesis by (simp add: show_nat.simps [of n] to_digit_dec)
  next
    case False
    have "lo \<le> - int (n div 10)" using "1.prems" by linarith
    then have "parse_neg 10 lo 0 (show_nat (n div 10)) = Inr (- int (n div 10))"
      using "1.IH" [OF False] by blast
    moreover have "int (n div 10) * 10 + int (n mod 10) = int n" by (simp add: zdiv_int zmod_int)
    then have "- int (n div 10) * 10 - int (n mod 10) = - int n" by linarith
    ultimately show ?thesis using False "1.prems"
      by (simp add: show_nat.simps [of n] parse_neg_append to_digit_dec)
  qed
qed

lemma from_str_radix_show_nat:
  assumes "int n \<le> hi"
  shows "from_str_radix 10 lo hi (show_nat n) = Inr (int n)"
proof -
  obtain c cs where s: "show_nat n = c # cs" by (cases "show_nat n") auto
  then have "48 \<le> c" using show_nat_digits [of c n] by simp
  then show ?thesis using parse_pos_show_nat [OF assms] by (simp add: from_str_radix_def s)
qed

lemma from_str_radix_show_int:
  assumes "lo \<le> i" "i \<le> hi"
  shows "from_str_radix 10 lo hi (show_int i) = Inr i"
proof (cases "i < 0")
  case True
  then have i: "i = - int (nat (- i))" by simp
  then have "parse_neg 10 lo 0 (show_nat (nat (- i))) = Inr i"
    using parse_neg_show_nat [of lo "nat (- i)"] assms(1) by simp
  then show ?thesis using True assms(1)
    by (simp add: from_str_radix_def show_int_def)
next
  case False
  then show ?thesis using from_str_radix_show_nat [of "nat i" hi lo] assms(2)
    by (simp add: show_int_def)
qed

section \<open>White space and case\<close>

definition is_whitespace :: "uchar \<Rightarrow> bool" where
  "is_whitespace c \<longleftrightarrow>
     (9 \<le> c \<and> c \<le> 13) \<or> c = 32 \<or> c = 0x85 \<or> c = 0xA0 \<or> c = 0x1680 \<or>
     (0x2000 \<le> c \<and> c \<le> 0x200A) \<or> c = 0x2028 \<or> c = 0x2029 \<or> c = 0x202F \<or> c = 0x205F \<or>
     c = 0x3000"

definition is_control :: "uchar \<Rightarrow> bool" where
  "is_control c \<longleftrightarrow> c < 0x20 \<or> (0x7F \<le> c \<and> c < 0xA0)"

definition trim_start :: "ustr \<Rightarrow> ustr" where
  "trim_start s = dropWhile is_whitespace s"

definition trim :: "ustr \<Rightarrow> ustr" where
  "trim s = rev (dropWhile is_whitespace (rev (dropWhile is_whitespace s)))"

lemma dropWhile_none: "(\<And>x. x \<in> set xs \<Longrightarrow> \<not> P x) \<Longrightarrow> dropWhile P xs = xs"
  by (cases xs) auto

lemma trim_no_ws: "(\<And>c. c \<in> set s \<Longrightarrow> \<not> is_whitespace c) \<Longrightarrow> trim s = s"
  using dropWhile_none [of s is_whitespace] dropWhile_none [of "rev s" is_whitespace]
  by (simp add: trim_def)

lemma trim_show_nat [simp]: "trim (show_nat n) = show_nat n"
  by (rule trim_no_ws) (auto dest!: show_nat_digits simp: is_whitespace_def)

lemma trim_show_int [simp]: "trim (show_int n) = show_int n"
  by (rule trim_no_ws) (auto dest!: show_int_chars simp: is_whitespace_def)

definition ascii_lower :: "uchar \<Rightarrow> uchar" where
  "ascii_lower c = (if 65 \<le> c \<and> c \<le> 90 then c + 32 else c)"

abbreviation to_ascii_lowercase :: "ustr \<Rightarrow> ustr" where
  "to_ascii_lowercase s \<equiv> map ascii_lower s"

definition eq_ignore_ascii_case :: "ustr \<Rightarrow> ustr \<Rightarrow> bool" where
  "eq_ignore_ascii_case s t \<longleftrightarrow> map ascii_lower s = map ascii_lower t"

fun join_str :: "ustr \<Rightarrow> ustr list \<Rightarrow> ustr" where
  "join_str sep [] = []"
| "join_str sep [s] = s"
| "join_str sep (s # t # ss) = s @ sep @ join_str sep (t # ss)"

end
