(* ===== verification/Unicode.thy ===== *)
theory Unicode
  imports Text_Codecs
begin

text \<open>
  UTF-8 and UTF-16 as the standard library encodes and validates them.  \<open>utf8_char\<close> reads one
  character and follows \<open>run_utf8_validation\<close>: its error is the standard library's
  \<open>error_len\<close> (\<open>None\<close> for input that ends inside a character).  The round trips proved here
  carry every theorem about text on the wire.
\<close>

section \<open>UTF-8\<close>

definition utf8_enc_char :: "uchar \<Rightarrow> nat list" where
  "utf8_enc_char c =
     (if c < 0x80 then [c]
      else if c < 0x800 then [0xC0 + c div 64, 0x80 + c mod 64]
      else if c < 0x10000 then [0xE0 + c div 4096, 0x80 + c div 64 mod 64, 0x80 + c mod 64]
      else [0xF0 + c div 262144, 0x80 + c div 4096 mod 64, 0x80 + c div 64 mod 64,
            0x80 + c mod 64])"

definition as_bytes :: "ustr \<Rightarrow> bytes" where
  "as_bytes s = concat (map (\<lambda>c. map of_nat (utf8_enc_char c)) s)"

definition utf8_len :: "ustr \<Rightarrow> nat" where
  "utf8_len s = length (as_bytes s)"

abbreviation utf8_cont :: "nat \<Rightarrow> bool" where
  "utf8_cont b \<equiv> 0x80 \<le> b \<and> b \<le> 0xBF"

definition utf8_second3 :: "nat \<Rightarrow> nat \<Rightarrow> bool" where
  "utf8_second3 b c \<longleftrightarrow>
     (if b = 0xE0 then 0xA0 \<le> c \<and> c \<le> 0xBF
      else if b = 0xED then 0x80 \<le> c \<and> c \<le> 0x9F
      else utf8_cont c)"

definition utf8_second4 :: "nat \<Rightarrow> nat \<Rightarrow> bool" where
  "utf8_second4 b c \<longleftrightarrow>
     (if b = 0xF0 then 0x90 \<le> c \<and> c \<le> 0xBF
      else if b = 0xF4 then 0x80 \<le> c \<and> c \<le> 0x8F
      else utf8_cont c)"

fun utf8_char :: "nat list \<Rightarrow> nat option + uchar \<times> nat" where
  "utf8_char [] = Inl None"
| "utf8_char (b # bs) =
     (if b < 0x80 then Inr (b, 1)
      else if 0xC2 \<le> b \<and> b \<le> 0xDF then
        (case bs of [] \<Rightarrow> Inl None
         | c # _ \<Rightarrow> if utf8_cont c then Inr ((b - 0xC0) * 64 + (c - 0x80), 2) else Inl (Some 1))
      else if 0xE0 \<le> b \<and> b \<le> 0xEF then
        (case bs of [] \<Rightarrow> Inl None
         | c # bs' \<Rightarrow>
             if \<not> utf8_second3 b c then Inl (Some 1)
             else (case bs' of [] \<Rightarrow> Inl None
                   | d # _ \<Rightarrow>
                       if utf8_cont d
                       then Inr ((b - 0xE0) * 4096 + (c - 0x80) * 64 + (d - 0x80), 3)
                       else Inl (Some 2)))
      else if 0xF0 \<le> b \<and> b \<le> 0xF4 then
        (case bs of [] \<Rightarrow> Inl None
         | c # bs' \<Rightarrow>
             if \<not> utf8_second4 b c then Inl (Some 1)
             else (case bs' of [] \<Rightarrow> Inl None
                   | d # bs'' \<Rightarrow>
                       if \<not> utf8_cont d then Inl (Some 2)
                       else (case bs'' of [] \<Rightarrow> Inl None
                             | e # _ \<Rightarrow>
                                 if utf8_cont e
                                 then Inr ((b - 0xF0) * 262144 + (c - 0x80) * 4096
                                           + (d - 0x80) * 64 + (e - 0x80), 4)
                                 else Inl (Some 3))))
      else Inl (Some 1))"

lemma utf8_char_width: "utf8_char bs = Inr (c, n) \<Longrightarrow> 0 < n \<and> n \<le> length bs"
  by (cases bs) (auto split: if_splits list.splits)

text \<open>\<open>str::from_utf8\<close>: the text, or the index of the first bad byte and its \<open>error_len\<close>.\<close>

function utf8_at :: "nat \<Rightarrow> nat list \<Rightarrow> (nat \<times> nat option) + ustr" where
  "utf8_at i bs =
     (if bs = [] then Inr []
      else case utf8_char bs of
             Inl e \<Rightarrow> Inl (i, e)
           | Inr (c, n) \<Rightarrow> rbind (utf8_at (i + n) (drop n bs)) (\<lambda>cs. Inr (c # cs)))"
  by pat_completeness auto
termination
  by (relation "measure (\<lambda>(i, bs). length bs)") (use utf8_char_width in fastforce)+

declare utf8_at.simps [simp del]

definition from_utf8 :: "bytes \<Rightarrow> (nat \<times> nat option) + ustr" where
  "from_utf8 bs = utf8_at 0 (map unat bs)"

fun utf8_error_text :: "nat \<times> nat option \<Rightarrow> ustr" where
  "utf8_error_text (i, Some n) =
     lit ''invalid utf-8 sequence of '' @ show_nat n @ lit '' bytes from index '' @ show_nat i"
| "utf8_error_text (i, None) = lit ''incomplete utf-8 byte sequence from index '' @ show_nat i"

text \<open>\<open>String::from_utf8_lossy\<close>: each bad sequence becomes one U+FFFD.\<close>

function utf8_lossy :: "nat list \<Rightarrow> ustr" where
  "utf8_lossy bs =
     (if bs = [] then []
      else case utf8_char bs of
             Inr (c, n) \<Rightarrow> c # utf8_lossy (drop n bs)
           | Inl None \<Rightarrow> [REPLACEMENT]
           | Inl (Some n) \<Rightarrow> REPLACEMENT # utf8_lossy (drop (max 1 n) bs))"
  by pat_completeness auto
termination
  by (relation "measure length") (use utf8_char_width in fastforce)+

declare utf8_lossy.simps [simp del]

definition from_utf8_lossy :: "bytes \<Rightarrow> ustr" where
  "from_utf8_lossy bs = utf8_lossy (map unat bs)"

lemma utf8_enc_char_bytes: "scalar c \<Longrightarrow> b \<in> set (utf8_enc_char c) \<Longrightarrow> b < 256"
  by (auto simp: utf8_enc_char_def scalar_def split: if_splits)

lemma utf8_enc_char_neq_Nil [simp]: "utf8_enc_char c \<noteq> []"
  by (simp add: utf8_enc_char_def)

text \<open>A number in base 64, with the facts about its digits that linear arithmetic needs.\<close>

lemma base64_digits:
  fixes c :: nat
  shows "c = 64 * (c div 64) + c mod 64" "c mod 64 < 64"
    "c div 64 = 64 * (c div 4096) + c div 64 mod 64" "c div 64 mod 64 < 64"
    "c div 4096 = 64 * (c div 262144) + c div 4096 mod 64" "c div 4096 mod 64 < 64"
proof -
  have "c div 4096 = c div 64 div 64" "c div 262144 = c div 4096 div 64"
    by (simp_all add: div_mult2_eq [symmetric])
  then show "c div 64 = 64 * (c div 4096) + c div 64 mod 64"
    "c div 4096 = 64 * (c div 262144) + c div 4096 mod 64" by simp_all
qed simp_all

lemma mod64_le [simp]: "(n :: nat) mod 64 \<le> 63"
  using mod_less_divisor [of 64 n] by linarith

lemma utf8_second4I:
  "(q = 0 \<Longrightarrow> 16 \<le> d) \<Longrightarrow> (q = 4 \<Longrightarrow> d \<le> 15) \<Longrightarrow> d \<le> 63 \<Longrightarrow> utf8_second4 (240 + q) (128 + d)"
  by (auto simp: utf8_second4_def)

lemma utf8_char_enc:
  assumes "scalar c"
  shows "utf8_char (utf8_enc_char c @ rest) = Inr (c, length (utf8_enc_char c))"
proof -
  consider "c < 0x80" | "0x80 \<le> c" "c < 0x800" | "0x800 \<le> c" "c < 0x10000"
    | "0x10000 \<le> c" "c < 0x110000"
    using assms by (auto simp: scalar_def) linarith+
  then show ?thesis
  proof cases
    case 1
    then show ?thesis by (simp add: utf8_enc_char_def)
  next
    case 2
    then have "2 \<le> c div 64" "c div 64 \<le> 31" by auto
    then show ?thesis using 2 by (simp add: utf8_enc_char_def)
  next
    case 3
    note digits = base64_digits [of c]
    have *: "c div 4096 \<le> 15" using 3 digits by linarith
    have "utf8_second3 (224 + c div 4096) (128 + c div 64 mod 64)"
      using 3 assms digits unfolding utf8_second3_def scalar_def by auto
    moreover have "c div 4096 * 4096 + c div 64 mod 64 * 64 + c mod 64 = c"
      using digits by linarith
    ultimately show ?thesis using 3 * by (simp add: utf8_enc_char_def)
  next
    case 4
    note digits = base64_digits [of c]
    have *: "c div 262144 \<le> 4" using 4 digits by linarith
    have "utf8_second4 (240 + c div 262144) (128 + c div 4096 mod 64)"
      by (rule utf8_second4I) (use 4 digits in linarith)+
    moreover have "c div 262144 * 262144 + c div 4096 mod 64 * 4096 + c div 64 mod 64 * 64
      + c mod 64 = c"
      using digits by linarith
    ultimately show ?thesis using 4 * by (simp add: utf8_enc_char_def)
  qed
qed

lemma utf8_at_enc:
  assumes "valid_str s"
  shows "utf8_at i (concat (map utf8_enc_char s)) = Inr s"
  using assms
proof (induction s arbitrary: i)
  case Nil
  show ?case by (simp add: utf8_at.simps)
next
  case (Cons c s)
  then show ?case
    by (subst utf8_at.simps) (simp add: utf8_char_enc)
qed

lemma map_unat_as_bytes:
  assumes "valid_str s"
  shows "map unat (as_bytes s) = concat (map utf8_enc_char s)"
proof -
  have "map (\<lambda>b. unat (of_nat b :: u8)) (utf8_enc_char c) = utf8_enc_char c"
    if "scalar c" for c
    using utf8_enc_char_bytes [OF that] by (intro map_idI) simp
  with assms show ?thesis
    by (auto simp: as_bytes_def map_concat list_all_iff comp_def intro!: arg_cong [where f = concat])
qed

lemma from_utf8_as_bytes [simp]: "valid_str s \<Longrightarrow> from_utf8 (as_bytes s) = Inr s"
  by (simp add: from_utf8_def map_unat_as_bytes utf8_at_enc)

lemma as_bytes_append [simp]: "as_bytes (s @ t) = as_bytes s @ as_bytes t"
  by (simp add: as_bytes_def)

lemma as_bytes_Nil [simp]: "as_bytes [] = []"
  by (simp add: as_bytes_def)

lemma as_bytes_ascii: "(\<And>c. c \<in> set s \<Longrightarrow> c < 128) \<Longrightarrow> as_bytes s = map of_nat s"
  by (induction s) (auto simp: as_bytes_def utf8_enc_char_def)

lemma scalar_ascii: "c < 0x80 \<Longrightarrow> scalar c"
  by (simp add: scalar_def)

lemma utf8_two: "0xC2 \<le> b \<Longrightarrow> b \<le> 0xDF \<Longrightarrow> utf8_cont c \<Longrightarrow> scalar ((b - 0xC0) * 64 + c - 0x80)"
  unfolding scalar_def by linarith

lemma utf8_three:
  "0xE0 \<le> b \<Longrightarrow> b \<le> 0xEF \<Longrightarrow> utf8_second3 b c \<Longrightarrow> utf8_cont d \<Longrightarrow>
   scalar ((b - 0xE0) * 4096 + (c - 0x80) * 64 + d - 0x80)"
  unfolding scalar_def utf8_second3_def by (cases "b \<le> 0xEC"; cases "b = 0xED") (simp split: if_splits; linarith)+

lemma utf8_four:
  "0xF0 \<le> b \<Longrightarrow> b \<le> 0xF4 \<Longrightarrow> utf8_second4 b c \<Longrightarrow> utf8_cont d \<Longrightarrow> utf8_cont e \<Longrightarrow>
   scalar ((b - 0xF0) * 262144 + (c - 0x80) * 4096 + (d - 0x80) * 64 + e - 0x80)"
  unfolding scalar_def utf8_second4_def by (cases "b = 0xF4"; cases "b = 0xF0") (simp; linarith)+

lemma utf8_char_scalar: "utf8_char bs = Inr (c, n) \<Longrightarrow> scalar c"
  by (cases bs)
     (auto intro: scalar_ascii utf8_two utf8_three utf8_four split: if_splits list.splits)

lemma utf8_at_valid: "utf8_at i bs = Inr s \<Longrightarrow> valid_str s"
proof (induction i bs arbitrary: s rule: utf8_at.induct)
  case (1 i bs)
  then show ?case
    by (auto simp: utf8_at.simps [of i bs] rbind_Inr_iff dest: utf8_char_scalar
        split: if_splits sum.splits prod.splits)
qed

lemma from_utf8_valid: "from_utf8 bs = Inr s \<Longrightarrow> valid_str s"
  by (simp add: from_utf8_def utf8_at_valid)

text \<open>The decoder accepts only encodings: the text it returns encodes to the bytes it read.\<close>

lemma base64_compose1:
  fixes w z :: nat
  assumes "z < 64"
  shows "(w * 64 + z) div 64 = w" "(w * 64 + z) mod 64 = z"
  using assms by simp_all

lemma base64_compose2:
  fixes w y z :: nat
  assumes "y < 64" "z < 64"
  shows "(w * 4096 + y * 64 + z) div 4096 = w" "(w * 4096 + y * 64 + z) div 64 mod 64 = y"
    "(w * 4096 + y * 64 + z) mod 64 = z"
proof -
  have eq: "w * 4096 + y * 64 + z = (w * 64 + y) * 64 + z" by simp
  have "(w * 4096 + y * 64 + z) div 4096 = (w * 4096 + y * 64 + z) div 64 div 64"
    by (simp add: div_mult2_eq [symmetric])
  then show "(w * 4096 + y * 64 + z) div 4096 = w" "(w * 4096 + y * 64 + z) div 64 mod 64 = y"
    "(w * 4096 + y * 64 + z) mod 64 = z"
    unfolding eq base64_compose1 [OF assms(2)] base64_compose1 [OF assms(1)] by blast+
qed

lemma base64_compose3:
  fixes w x y z :: nat
  assumes "x < 64" "y < 64" "z < 64"
  shows "(w * 262144 + x * 4096 + y * 64 + z) div 262144 = w"
    "(w * 262144 + x * 4096 + y * 64 + z) div 4096 mod 64 = x"
    "(w * 262144 + x * 4096 + y * 64 + z) div 64 mod 64 = y"
    "(w * 262144 + x * 4096 + y * 64 + z) mod 64 = z"
proof -
  have eq: "w * 262144 + x * 4096 + y * 64 + z = (w * 64 + x) * 4096 + y * 64 + z" by simp
  have "(w * 262144 + x * 4096 + y * 64 + z) div 262144
      = (w * 262144 + x * 4096 + y * 64 + z) div 4096 div 64"
    by (simp add: div_mult2_eq [symmetric])
  then show "(w * 262144 + x * 4096 + y * 64 + z) div 262144 = w"
    "(w * 262144 + x * 4096 + y * 64 + z) div 4096 mod 64 = x"
    "(w * 262144 + x * 4096 + y * 64 + z) div 64 mod 64 = y"
    "(w * 262144 + x * 4096 + y * 64 + z) mod 64 = z"
    unfolding eq base64_compose2 [OF assms(2,3)] base64_compose1 [OF assms(1)] by blast+
qed

lemma utf8_two_inverse:
  assumes "0xC2 \<le> b" "b \<le> 0xDF" "utf8_cont c"
  shows "utf8_enc_char ((b - 0xC0) * 64 + (c - 0x80)) = [b, c]"
proof -
  define w z where "w = b - 0xC0" and "z = c - 0x80"
  have bc: "b = 0xC0 + w" "c = 0x80 + z" "2 \<le> w" "w \<le> 31" "z < 64"
    using assms by (auto simp: w_def z_def)
  then show ?thesis using base64_compose1 [of z w]
    by (simp add: utf8_enc_char_def)
qed

lemma utf8_three_inverse:
  assumes "0xE0 \<le> b" "b \<le> 0xEF" "utf8_second3 b c" "utf8_cont d"
  shows "utf8_enc_char ((b - 0xE0) * 4096 + (c - 0x80) * 64 + (d - 0x80)) = [b, c, d]"
proof -
  define w y z where "w = b - 0xE0" and "y = c - 0x80" and "z = d - 0x80"
  have bc: "b = 0xE0 + w" "c = 0x80 + y" "d = 0x80 + z" "w \<le> 15" "y < 64" "z < 64"
    "w = 0 \<Longrightarrow> 32 \<le> y"
    using assms by (auto simp: w_def y_def z_def utf8_second3_def split: if_splits)
  then show ?thesis using base64_compose2 [of y z w]
    by (cases "w = 0") (simp_all add: utf8_enc_char_def)
qed

lemma utf8_four_inverse:
  assumes "0xF0 \<le> b" "b \<le> 0xF4" "utf8_second4 b c" "utf8_cont d" "utf8_cont e"
  shows "utf8_enc_char ((b - 0xF0) * 262144 + (c - 0x80) * 4096 + (d - 0x80) * 64 + (e - 0x80))
    = [b, c, d, e]"
proof -
  define w x y z where "w = b - 0xF0" and "x = c - 0x80" and "y = d - 0x80" and "z = e - 0x80"
  have bc: "b = 0xF0 + w" "c = 0x80 + x" "d = 0x80 + y" "e = 0x80 + z" "w \<le> 4" "x < 64" "y < 64"
    "z < 64" "w = 0 \<Longrightarrow> 16 \<le> x"
    using assms by (auto simp: w_def x_def y_def z_def utf8_second4_def split: if_splits)
  then show ?thesis using base64_compose3 [of x y z w]
    by (cases "w = 0") (simp_all add: utf8_enc_char_def)
qed

lemma trans_sym: "a = c \<Longrightarrow> b = c \<Longrightarrow> b = a"
  by simp

lemma utf8_char_cases:
  assumes "utf8_char bs = Inr (c, n)"
  obtains (1) b t where "bs = b # t" "b < 0x80" "c = b" "n = 1"
  | (2) b d t where "bs = b # d # t" "0xC2 \<le> b" "b \<le> 0xDF" "utf8_cont d"
      "c = (b - 0xC0) * 64 + (d - 0x80)" "n = 2"
  | (3) b d e t where "bs = b # d # e # t" "0xE0 \<le> b" "b \<le> 0xEF" "utf8_second3 b d" "utf8_cont e"
      "c = (b - 0xE0) * 4096 + (d - 0x80) * 64 + (e - 0x80)" "n = 3"
  | (4) b d e f t where "bs = b # d # e # f # t" "0xF0 \<le> b" "b \<le> 0xF4" "utf8_second4 b d"
      "utf8_cont e" "utf8_cont f"
      "c = (b - 0xF0) * 262144 + (d - 0x80) * 4096 + (e - 0x80) * 64 + (f - 0x80)" "n = 4"
proof (cases bs)
  case Nil
  then show ?thesis using assms by simp
next
  case (Cons b t)
  note read = assms [unfolded Cons utf8_char.simps]
  consider "b < 0x80" | "\<not> b < 0x80" "0xC2 \<le> b \<and> b \<le> 0xDF"
    | "\<not> b < 0x80" "\<not> (0xC2 \<le> b \<and> b \<le> 0xDF)" "0xE0 \<le> b \<and> b \<le> 0xEF"
    | "\<not> b < 0x80" "\<not> (0xC2 \<le> b \<and> b \<le> 0xDF)" "\<not> (0xE0 \<le> b \<and> b \<le> 0xEF)" "0xF0 \<le> b \<and> b \<le> 0xF4"
    using read by (simp split: if_splits)
  then show ?thesis
  proof cases
    case 1
    then show ?thesis using read that(1) Cons by simp
  next
    case 2
    then show ?thesis
      using read that(2) Cons by (simp only: if_True if_False) (simp split: list.splits if_splits)
  next
    case 3
    then show ?thesis
      using read that(3) Cons by (simp only: if_True if_False) (simp split: list.splits if_splits)
  next
    case 4
    then show ?thesis
      using read that(4) Cons by (simp only: if_True if_False) (simp split: list.splits if_splits)
  qed
qed

lemma utf8_char_inverse: 
  assumes "utf8_char bs = Inr (c, n)"
  shows "utf8_enc_char c = take n bs"
  using assms
proof (cases rule: utf8_char_cases)
  case 1
  then show ?thesis by (simp add: utf8_enc_char_def)
next
  case (2 b d t)
  have "take 2 (b # d # t) = [b, d]" by simp
  then show ?thesis unfolding 2(1,5,6) using utf8_two_inverse [OF 2(2-4)] by (rule trans_sym)
next
  case (3 b d e t)
  have "take 3 (b # d # e # t) = [b, d, e]" by simp
  then show ?thesis unfolding 3(1,6,7) using utf8_three_inverse [OF 3(2-5)] by (rule trans_sym)
next
  case (4 b d e f t)
  have "take 4 (b # d # e # f # t) = [b, d, e, f]" by simp
  then show ?thesis unfolding 4(1,7,8) using utf8_four_inverse [OF 4(2-6)] by (rule trans_sym)
qed

lemma utf8_at_inverse: "utf8_at i bs = Inr s \<Longrightarrow> concat (map utf8_enc_char s) = bs"
proof (induction i bs arbitrary: s rule: utf8_at.induct)
  case (1 i bs)
  then show ?case
    by (auto simp: utf8_at.simps [of i bs] rbind_Inr_iff dest: utf8_char_inverse
        split: if_splits sum.splits prod.splits)
qed

lemma as_bytes_from_utf8: 
  assumes "from_utf8 bs = Inr s" 
  shows "as_bytes s = bs"
proof -
  have "map unat (as_bytes s) = map unat bs"
    using assms utf8_at_inverse map_unat_as_bytes [OF from_utf8_valid [OF assms]]
    by (simp add: from_utf8_def)
  then show ?thesis by (simp add: inj_map_eq_map [OF injI])
qed
section \<open>UTF-16\<close>

definition utf16_enc_char :: "uchar \<Rightarrow> nat list" where
  "utf16_enc_char c =
     (if c < 0x10000 then [c]
      else [0xD800 + (c - 0x10000) div 1024, 0xDC00 + (c - 0x10000) mod 1024])"

definition encode_utf16 :: "ustr \<Rightarrow> nat list" where
  "encode_utf16 s = concat (map utf16_enc_char s)"

text \<open>\<open>char::decode_utf16\<close>: \<open>None\<close> stands for an unpaired surrogate.\<close>

fun decode_utf16 :: "nat list \<Rightarrow> uchar option list" where
  "decode_utf16 [] = []"
| "decode_utf16 (u # us) =
     (if u < 0xD800 \<or> 0xDFFF < u then Some u # decode_utf16 us
      else if 0xDC00 \<le> u then None # decode_utf16 us
      else (case us of
              [] \<Rightarrow> [None]
            | v # vs \<Rightarrow>
                if v < 0xDC00 \<or> 0xDFFF < v then None # decode_utf16 us
                else Some (0x10000 + (u - 0xD800) * 1024 + (v - 0xDC00)) # decode_utf16 vs))"

text \<open>\<open>String::from_utf16\<close> and the lossy decoding with U+FFFD.\<close>

definition from_utf16 :: "nat list \<Rightarrow> ustr option" where
  "from_utf16 us = (let cs = decode_utf16 us in if None \<in> set cs then None else Some (map the cs))"

definition utf16_lossy :: "nat list \<Rightarrow> ustr" where
  "utf16_lossy us = map (case_option REPLACEMENT id) (decode_utf16 us)"

lemma decode_utf16_enc_char:
  "scalar c \<Longrightarrow> decode_utf16 (utf16_enc_char c @ us) = Some c # decode_utf16 us"
  using div_mult_mod_eq [of "c - 65536" 1024]
  by (auto simp: utf16_enc_char_def scalar_def)

lemma decode_encode_utf16: "valid_str s \<Longrightarrow> decode_utf16 (encode_utf16 s) = map Some s"
  by (induction s) (auto simp: encode_utf16_def decode_utf16_enc_char)

lemma from_utf16_encode [simp]: "valid_str s \<Longrightarrow> from_utf16 (encode_utf16 s) = Some s"
  by (auto simp: from_utf16_def decode_encode_utf16 comp_def)

lemma utf16_lossy_encode: "valid_str s \<Longrightarrow> utf16_lossy (encode_utf16 s) = s"
  by (simp add: utf16_lossy_def decode_encode_utf16 comp_def)

lemma encode_utf16_units: "valid_str s \<Longrightarrow> u \<in> set (encode_utf16 s) \<Longrightarrow> u < 65536"
  by (auto simp: encode_utf16_def list_all_iff scalar_def utf16_enc_char_def split: if_splits)

lemma utf16_char_valid:
  "\<forall>u\<in>set us. u < 65536 \<Longrightarrow> Some c \<in> set (decode_utf16 us) \<Longrightarrow> scalar c"
  by (induction us rule: decode_utf16.induct)
     (auto simp: scalar_def split: if_splits list.splits)

end
