(* ===== verification/Errors.thy ===== *)
theory Errors
  imports Unicode
begin

text \<open>
  The crate's error type and the quoting of remote text (\<open>src/src/error.rs\<close>).  The variants of
  \<open>winrm_rs\<close>' error are those the crate tells apart: a client-side timeout, a SOAP fault with
  its code and reason, and everything else with its text.
\<close>

section \<open>The error type\<close>

datatype winrm_error =
    WinrmTimeout ustr
  | SoapFault (soap_code: ustr) (soap_reason: ustr)
  | WinrmOther ustr

datatype psrp_error =
    Winrm winrm_error
  | Protocol ustr
  | Clixml ustr
  | Fragment_Error ustr
  | BadState (expected: ustr) (actual: ustr)
  | Stopped
  | PipelineFailed ustr
  | Cancelled

type_synonym 'a res = "psrp_error + 'a"

section \<open>Quoting remote text\<close>

definition MAX_SERVER_MESSAGE_CHARS :: nat where
  "MAX_SERVER_MESSAGE_CHARS = 1024"

definition rewrites_output :: "uchar \<Rightarrow> bool" where
  "rewrites_output c \<longleftrightarrow>
     is_control c \<or> c = 0x00AD \<or> c = 0x061C \<or> c = 0x180E \<or>
     (0x200B \<le> c \<and> c \<le> 0x200F) \<or> (0x2028 \<le> c \<and> c \<le> 0x202E) \<or>
     (0x2060 \<le> c \<and> c \<le> 0x206F) \<or> c = 0xFEFF \<or> (0xFFF9 \<le> c \<and> c \<le> 0xFFFB) \<or>
     (0xE0000 \<le> c \<and> c \<le> 0xE007F)"

text \<open>
  \<open>char::escape_debug\<close> on the characters of \<open>rewrites_output\<close>, none of which the standard
  library takes for printable: the four short escapes, else \<open>\u{...}\<close>.
\<close>

definition escape_debug_unprintable :: "uchar \<Rightarrow> ustr" where
  "escape_debug_unprintable c =
     (if c = 0 then lit [CHR 0x5C, CHR ''0'']
      else if c = 9 then lit [CHR 0x5C, CHR ''t'']
      else if c = 10 then lit [CHR 0x5C, CHR ''n'']
      else if c = 13 then lit [CHR 0x5C, CHR ''r'']
      else lit [CHR 0x5C, CHR ''u'', CHR ''{''] @ show_hex c @ lit ''}'')"

definition ELLIPSIS :: uchar where "ELLIPSIS = 0x2026"

definition escape_remote_text :: "ustr \<Rightarrow> nat \<Rightarrow> ustr" where
  "escape_remote_text s max_chars =
     concat (map (\<lambda>c. if rewrites_output c then escape_debug_unprintable c else [c])
                 (take max_chars s))
     @ (if max_chars < length s then [ELLIPSIS] else [])"

section \<open>Constructors\<close>

definition protocol :: "ustr \<Rightarrow> psrp_error" where
  "protocol msg = Protocol msg"

definition clixml :: "ustr \<Rightarrow> psrp_error" where
  "clixml msg = Clixml (escape_remote_text msg MAX_SERVER_MESSAGE_CHARS)"

definition fragment_error :: "ustr \<Rightarrow> psrp_error" where
  "fragment_error msg = Fragment_Error msg"

text \<open>The \<open>Display\<close> texts the \<open>thiserror\<close> attributes give.\<close>

fun winrm_display :: "winrm_error \<Rightarrow> ustr" where
  "winrm_display (WinrmTimeout t) = t"
| "winrm_display (SoapFault code reason) = code @ lit '': '' @ reason"
| "winrm_display (WinrmOther t) = t"

fun display :: "(winrm_error \<Rightarrow> ustr) \<Rightarrow> psrp_error \<Rightarrow> ustr" where
  "display w (Winrm e) = w e"
| "display w (Protocol m) = lit ''PSRP protocol: '' @ m"
| "display w (Clixml m) = lit ''CLIXML: '' @ m"
| "display w (Fragment_Error m) = lit ''fragment reassembly: '' @ m"
| "display w (BadState ex ac) =
     lit ''runspace pool not in state '' @ ex @ lit '', got '' @ ac"
| "display w Stopped = lit ''pipeline stopped''"
| "display w (PipelineFailed m) = lit ''pipeline failed: '' @ m"
| "display w Cancelled = lit ''operation cancelled''"

section \<open>Quoted text is safe to print\<close>

lemma show_hex_chars: "c \<in> set (show_hex n) \<Longrightarrow> (48 \<le> c \<and> c \<le> 57) \<or> (97 \<le> c \<and> c \<le> 102)"
proof (induction n rule: show_hex.induct)
  case (1 n)
  have digit: "(48 \<le> hex_digit_lower d \<and> hex_digit_lower d \<le> 57)
      \<or> (97 \<le> hex_digit_lower d \<and> hex_digit_lower d \<le> 102)" if "d < 16" for d
    using that by (auto simp: hex_digit_lower_def)
  show ?case
  proof (cases "n < 16")
    case True
    with "1.prems" digit [of n] show ?thesis by (simp add: show_hex.simps [of n])
  next
    case False
    with "1.prems" consider "c \<in> set (show_hex (n div 16))" | "c = hex_digit_lower (n mod 16)"
      by (auto simp: show_hex.simps [of n])
    then show ?thesis using "1.IH" [OF False] digit [of "n mod 16"] by cases auto
  qed
qed

lemma ascii_printable_safe [simp]: "32 \<le> c \<Longrightarrow> c < 127 \<Longrightarrow> \<not> rewrites_output c"
  by (simp add: rewrites_output_def is_control_def)

lemma escape_debug_safe: "c \<in> set (escape_debug_unprintable d) \<Longrightarrow> \<not> rewrites_output c"
  by (auto simp: escape_debug_unprintable_def lit_def dest!: show_hex_chars
      split: if_splits)

lemma escape_remote_text_printable:
  "c \<in> set (escape_remote_text s n) \<Longrightarrow> \<not> rewrites_output c"
  by (auto simp: escape_remote_text_def ELLIPSIS_def rewrites_output_def [of 8230]
      is_control_def [of 8230] dest: escape_debug_safe split: if_splits)

lemma escape_remote_text_id:
  "\<forall>c\<in>set s. \<not> rewrites_output c \<Longrightarrow> length s \<le> n \<Longrightarrow> escape_remote_text s n = s"
  by (induction s arbitrary: n) (auto simp: escape_remote_text_def)

end
