(* ===== verification/Fragments.thy ===== *)
theory Fragments
  imports Errors
begin

text \<open>
  The fragment layer (\<open>src/src/fragment.rs\<close>): the 21-byte big-endian fragment header, the
  splitter that cuts a message into fragments of at most 32 KiB, and the stateful reassembler.
  The reassembler's \<open>HashMap\<close> is a map from object ids; every operation takes the state and
  returns the new one, on the error paths too, where the code has already changed it.
\<close>

section \<open>Fragments and their wire form\<close>

definition MAX_FRAGMENT_PAYLOAD :: nat where "MAX_FRAGMENT_PAYLOAD = 32 * 1024"
definition FRAGMENT_HEADER_LEN :: nat where "FRAGMENT_HEADER_LEN = 21"
definition FLAG_START :: u8 where "FLAG_START = 0x01"
definition FLAG_END :: u8 where "FLAG_END = 0x02"

text \<open>The address space of the supported 64-bit targets.\<close>

definition USIZE_MAX :: nat where "USIZE_MAX = 2 ^ 64 - 1"

record fragment =
  object_id :: u64
  fragment_id :: u64
  frag_start :: bool
  frag_end :: bool
  blob :: bytes

definition flags :: "fragment \<Rightarrow> u8" where
  "flags f =
     (let f0 = 0;
          f1 = (if frag_start f then f0 OR FLAG_START else f0)
      in if frag_end f then f1 OR FLAG_END else f1)"

definition blob_len_field :: "bytes \<Rightarrow> u32" where
  "blob_len_field b = (if length b < 2 ^ 32 then of_nat (length b) else 0xFFFFFFFF)"

definition encode_fragment :: "fragment \<Rightarrow> bytes" where
  "encode_fragment f =
     u64_to_be (object_id f) @ u64_to_be (fragment_id f) @ [flags f]
     @ u32_to_be (blob_len_field (blob f)) @ blob f"

section \<open>Splitting a message\<close>

fun split_loop :: "u64 \<Rightarrow> u64 \<Rightarrow> bytes list \<Rightarrow> fragment list" where
  "split_loop oid fid [] = []"
| "split_loop oid fid (chunk # rest) =
     \<lparr>object_id = oid, fragment_id = fid, frag_start = (fid = 0), frag_end = (rest = []),
      blob = chunk\<rparr> # split_loop oid (fid + 1) rest"

definition split_message :: "u64 \<Rightarrow> bytes \<Rightarrow> fragment list" where
  "split_message oid payload =
     (if payload = []
      then [\<lparr>object_id = oid, fragment_id = 0, frag_start = True, frag_end = True, blob = []\<rparr>]
      else split_loop oid 0 (chunks MAX_FRAGMENT_PAYLOAD payload))"

definition encode_message :: "u64 \<Rightarrow> bytes \<Rightarrow> bytes" where
  "encode_message oid payload = concat (map encode_fragment (split_message oid payload))"

section \<open>Decoding one fragment\<close>

definition decode_one :: "bytes \<Rightarrow> (fragment \<times> nat) option res" where
  "decode_one buf =
     (case split_first_chunk 8 buf of None \<Rightarrow> Inr None | Some (oid, rest) \<Rightarrow>
      case split_first_chunk 8 rest of None \<Rightarrow> Inr None | Some (fid, rest) \<Rightarrow>
      case split_first_chunk 1 rest of None \<Rightarrow> Inr None | Some (fl, rest) \<Rightarrow>
      case split_first_chunk 4 rest of None \<Rightarrow> Inr None | Some (len, rest) \<Rightarrow>
        let blob_len = unat (u32_of_be len) in
        if USIZE_MAX < blob_len
        then Inl (fragment_error (lit ''fragment length exceeds the address space''))
        else if length rest < blob_len then Inr None
        else Inr (Some
               (\<lparr>object_id = u64_of_be oid, fragment_id = u64_of_be fid,
                 frag_start = (hd fl AND FLAG_START \<noteq> 0), frag_end = (hd fl AND FLAG_END \<noteq> 0),
                 blob = take blob_len rest\<rparr>,
                FRAGMENT_HEADER_LEN + blob_len)))"

section \<open>The reassembler\<close>

record in_flight =
  buf :: bytes
  next_fragment_id :: u64
  started :: bool

definition in_flight_default :: in_flight where
  "in_flight_default = \<lparr>buf = [], next_fragment_id = 0, started = False\<rparr>"

record reassembler =
  buffer :: bytes
  in_flight_of :: "u64 \<rightharpoonup> in_flight"
  completed_order :: "u64 list"

definition reassembler_new :: reassembler where
  "reassembler_new = \<lparr>buffer = [], in_flight_of = Map.empty, completed_order = []\<rparr>"

definition checked_add_u64 :: "u64 \<Rightarrow> u64 \<Rightarrow> u64 option" where
  "checked_add_u64 a b = (if unat a + unat b < 2 ^ 64 then Some (a + b) else None)"

definition put_entry :: "u64 \<Rightarrow> in_flight \<Rightarrow> reassembler \<Rightarrow> reassembler" where
  "put_entry oid e r = r\<lparr>in_flight_of := (in_flight_of r)(oid \<mapsto> e)\<rparr>"

text \<open>The second half of the loop body: the order check, the append, the completion.\<close>

definition accept_in_order :: "fragment \<Rightarrow> in_flight \<Rightarrow> reassembler \<Rightarrow> reassembler \<times> bytes option res" where
  "accept_in_order f e r =
     (let oid = object_id f; fid = fragment_id f in
      if fid \<noteq> next_fragment_id e then
        (put_entry oid e r,
         Inl (fragment_error (lit ''out-of-order fragment for object '' @ show_word oid
               @ lit '': expected '' @ show_word (next_fragment_id e) @ lit '', got ''
               @ show_word fid)))
      else case checked_add_u64 fid 1 of
        None \<Rightarrow>
          (put_entry oid e r,
           Inl (fragment_error (lit ''fragment id overflow for object '' @ show_word oid)))
      | Some n \<Rightarrow>
          let e' = e\<lparr>next_fragment_id := n, buf := buf e @ blob f\<rparr> in
          if frag_end f then
            (r\<lparr>in_flight_of := (in_flight_of r)(oid := None),
               completed_order := completed_order r @ [oid]\<rparr>,
             Inr (Some (buf e')))
          else (put_entry oid e' r, Inr None))"

text \<open>One turn of the loop of \<open>Reassembler::feed\<close>, on a decoded fragment.\<close>

definition accept :: "fragment \<Rightarrow> reassembler \<Rightarrow> reassembler \<times> bytes option res" where
  "accept f r =
     (let oid = object_id f; fid = fragment_id f;
          e = (case in_flight_of r oid of None \<Rightarrow> in_flight_default | Some e \<Rightarrow> e) in
      if frag_start f then
        if started e then
          (put_entry oid e r,
           Inl (fragment_error (lit ''duplicate start fragment for object '' @ show_word oid)))
        else if fid \<noteq> 0 then
          (put_entry oid e r,
           Inl (fragment_error (lit ''start fragment for object '' @ show_word oid
                 @ lit '' has non-zero fragment id '' @ show_word fid)))
        else accept_in_order f (e\<lparr>started := True, next_fragment_id := 0\<rparr>) r
      else if \<not> started e then
        (put_entry oid e r,
         Inl (fragment_error (lit ''continuation fragment before start for object '' @ show_word oid)))
      else accept_in_order f e r)"

lemma decode_one_consumed:
  "decode_one b = Inr (Some (f, n)) \<Longrightarrow> 0 < n \<and> n \<le> length b"
  by (auto simp: decode_one_def Let_def FRAGMENT_HEADER_LEN_def
      dest!: split_first_chunk_SomeD split: option.splits if_splits)

function feed_loop :: "reassembler \<Rightarrow> bytes list \<Rightarrow> reassembler \<times> bytes list res" where
  "feed_loop r completed =
     (case decode_one (buffer r) of
        Inl e \<Rightarrow> (r, Inl e)
      | Inr None \<Rightarrow> (r, Inr completed)
      | Inr (Some (f, consumed)) \<Rightarrow>
          (case accept f (r\<lparr>buffer := drop consumed (buffer r)\<rparr>) of
             (r', Inl e) \<Rightarrow> (r', Inl e)
           | (r', Inr None) \<Rightarrow> feed_loop r' completed
           | (r', Inr (Some done)) \<Rightarrow> feed_loop r' (completed @ [done])))"
  by pat_completeness auto

lemma accept_buffer [simp]: "buffer (fst (accept f r)) = buffer r"
  by (auto simp: accept_def accept_in_order_def put_entry_def Let_def split: option.splits)

lemma accept_bufferD: "accept f r = (r', x) \<Longrightarrow> buffer r' = buffer r"
  by (metis accept_buffer fst_conv)

termination feed_loop
  by (relation "measure (\<lambda>(r, c). length (buffer r))")
     (use decode_one_consumed in \<open>fastforce dest: accept_bufferD [OF sym]\<close>)+

declare feed_loop.simps [simp del]

definition feed :: "reassembler \<Rightarrow> bytes \<Rightarrow> reassembler \<times> bytes list res" where
  "feed r bs = feed_loop (r\<lparr>buffer := buffer r @ bs\<rparr>) []"

text \<open>\<open>HashMap::is_empty\<close>, with the map's domain as its set of keys.\<close>

definition is_idle :: "reassembler \<Rightarrow> bool" where
  "is_idle r \<longleftrightarrow> buffer r = [] \<and> in_flight_of r = Map.empty"

section \<open>Wire form: round trip and prefix stability\<close>

lemma unat_blob_len_field:
  "length b < 2 ^ 32 \<Longrightarrow> unat (u32_of_be (u32_to_be (blob_len_field b))) = length b"
  by (simp add: blob_len_field_def unat_of_nat)

lemma flag_bits [simp]:
  "flags f AND FLAG_START \<noteq> 0 \<longleftrightarrow> frag_start f"
  "flags f AND FLAG_END \<noteq> 0 \<longleftrightarrow> frag_end f"
  by (simp_all add: flags_def FLAG_START_def FLAG_END_def)

lemma length_encode_fragment: "length (encode_fragment f) = FRAGMENT_HEADER_LEN + length (blob f)"
  by (simp add: encode_fragment_def FRAGMENT_HEADER_LEN_def)

definition fragment_of :: "bytes \<Rightarrow> bytes \<Rightarrow> u8 \<Rightarrow> bytes \<Rightarrow> bytes \<Rightarrow> fragment" where
  "fragment_of oid fid fl len rest =
     \<lparr>object_id = u64_of_be oid, fragment_id = u64_of_be fid,
      frag_start = (fl AND FLAG_START \<noteq> 0), frag_end = (fl AND FLAG_END \<noteq> 0),
      blob = take (unat (u32_of_be len)) rest\<rparr>"

lemma no_usize_overflow [simp]: "\<not> USIZE_MAX < unat (u32_of_be len)"
  using unat_u32_of_be_less [of len] by (simp add: USIZE_MAX_def)

lemma decode_one_parts:
  assumes "length oid = 8" "length fid = 8" "length len = 4"
  shows "decode_one (oid @ fid @ [fl] @ len @ rest) =
    (if length rest < unat (u32_of_be len) then Inr None
     else Inr (Some (fragment_of oid fid fl len rest,
                     FRAGMENT_HEADER_LEN + unat (u32_of_be len))))"
proof -
  have "split_first_chunk 1 (fl # xs) = Some ([fl], xs)" for xs
    by (simp add: split_first_chunk_def)
  with assms show ?thesis by (simp add: decode_one_def fragment_of_def Let_def)
qed

lemma decode_one_SomeE:
  assumes "decode_one b = Inr (Some (f, n))"
  obtains oid fid fl len rest where
    "b = oid @ fid @ [fl] @ len @ rest" "length oid = 8" "length fid = 8" "length len = 4"
    "unat (u32_of_be len) \<le> length rest" "f = fragment_of oid fid fl len rest"
    "n = FRAGMENT_HEADER_LEN + unat (u32_of_be len)"
proof -
  from assms obtain oid r1 fid r2 fl r3 len rest where
    1: "split_first_chunk 8 b = Some (oid, r1)" and 2: "split_first_chunk 8 r1 = Some (fid, r2)"
    and 3: "split_first_chunk 1 r2 = Some (fl, r3)" and 4: "split_first_chunk 4 r3 = Some (len, rest)"
    by (auto simp: decode_one_def split: option.splits)
  note parts = this [THEN split_first_chunk_SomeD]
  from parts(3) obtain x where fl: "fl = [x]" by (cases fl) auto
  have b: "b = oid @ fid @ [x] @ len @ rest" using parts fl by simp
  moreover have l: "length oid = 8" "length fid = 8" "length len = 4" using parts by auto
  ultimately show ?thesis using that assms decode_one_parts [OF l] by (auto split: if_splits)
qed

text \<open>A complete fragment reads the same whatever follows it.\<close>

lemma decode_one_more_Some:
  assumes "decode_one b = Inr (Some (f, n))"
  shows "decode_one (b @ c) = Inr (Some (f, n))"
proof -
  from assms obtain oid fid fl len rest where
    b: "b = oid @ fid @ [fl] @ len @ rest" and l: "length oid = 8" "length fid = 8" "length len = 4"
    and *: "unat (u32_of_be len) \<le> length rest" "f = fragment_of oid fid fl len rest"
      "n = FRAGMENT_HEADER_LEN + unat (u32_of_be len)"
    by (rule decode_one_SomeE)
  show ?thesis
    using decode_one_parts [OF l, of fl "rest @ c"] * by (simp add: b fragment_of_def)
qed

lemma decode_one_no_error: "decode_one b \<noteq> Inl e"
  by (auto simp: decode_one_def Let_def split: option.splits)

lemma decode_one_encode:
  assumes "length (blob f) < 2 ^ 32"
  shows "decode_one (encode_fragment f @ rest) = Inr (Some (f, length (encode_fragment f)))"
proof -
  have len: "unat (blob_len_field (blob f)) = length (blob f)"
    using unat_blob_len_field [OF assms] by simp
  have *: "encode_fragment f @ rest = u64_to_be (object_id f) @ u64_to_be (fragment_id f) @ [flags f]
      @ u32_to_be (blob_len_field (blob f)) @ (blob f @ rest)"
    by (simp add: encode_fragment_def)
  show ?thesis
    unfolding * by (subst decode_one_parts) (simp_all add: fragment_of_def length_encode_fragment len)
qed

section \<open>Feeding in pieces\<close>

lemma accept_set_buffer:
  "accept f (r\<lparr>buffer := b\<rparr>) = (let (r', x) = accept f r in (r'\<lparr>buffer := b\<rparr>, x))"
  by (simp add: accept_def accept_in_order_def put_entry_def Let_def split: option.splits)

lemma accept_buffer_Pair: "accept f r = (r', x) \<Longrightarrow> accept f (r\<lparr>buffer := b\<rparr>) = (r'\<lparr>buffer := b\<rparr>, x)"
  by (simp add: accept_set_buffer)

lemma feed_loop_append:
  "feed_loop (r\<lparr>buffer := buffer r @ c\<rparr>) acc =
     (case feed_loop r acc of
        (r', Inl e) \<Rightarrow> (r'\<lparr>buffer := buffer r' @ c\<rparr>, Inl e)
      | (r', Inr ys) \<Rightarrow> feed_loop (r'\<lparr>buffer := buffer r' @ c\<rparr>) ys)"
proof (induction r acc rule: feed_loop.induct)
  case (1 r acc)
  show ?case
  proof (cases "decode_one (buffer r)")
    case (Inl e)
    then show ?thesis using decode_one_no_error by blast
  next
    case (Inr m)
    show ?thesis
    proof (cases m)
      case None
      then show ?thesis using Inr by (simp add: feed_loop.simps [of r acc])
    next
      case (Some p)
      obtain f n where p: "p = (f, n)" by (cases p)
      have d: "decode_one (buffer r) = Inr (Some (f, n))" using Inr Some p by simp
      note n = decode_one_consumed [OF d]
      obtain r' x where a: "accept f (r\<lparr>buffer := drop n (buffer r)\<rparr>) = (r', x)"
        by (cases "accept f (r\<lparr>buffer := drop n (buffer r)\<rparr>)")
      have b: "buffer r' = drop n (buffer r)" using accept_bufferD [OF a] by simp
      have a': "accept f (r\<lparr>buffer := drop n (buffer r) @ c\<rparr>) = (r'\<lparr>buffer := buffer r' @ c\<rparr>, x)"
        using accept_buffer_Pair [OF a, of "drop n (buffer r) @ c"] b by simp
      show ?thesis
        using n d a a' b decode_one_more_Some [OF d, of c]
          "1.IH"(1) [OF d refl refl a [symmetric]] "1.IH"(2) [OF d refl refl a [symmetric]]
        by (simp add: feed_loop.simps [of r acc] feed_loop.simps [of "r\<lparr>buffer := buffer r @ c\<rparr>" acc]
            split: sum.splits option.splits)
    qed
  qed
qed

lemma feed_loop_acc:
  "feed_loop r (pre @ acc) = (case feed_loop r acc of (r', x) \<Rightarrow> (r', map_sum id ((@) pre) x))"
proof (induction r acc rule: feed_loop.induct)
  case (1 r acc)
  then show ?case
    by (simp add: feed_loop.simps [of r acc] feed_loop.simps [of r "pre @ acc"]
        split: sum.splits option.splits prod.splits)
qed

lemma feed_append:
  "feed r (a @ b) =
     (case feed r a of
        (r', Inl e) \<Rightarrow> (r'\<lparr>buffer := buffer r' @ b\<rparr>, Inl e)
      | (r', Inr xs) \<Rightarrow> (case feed r' b of (r'', y) \<Rightarrow> (r'', map_sum id ((@) xs) y)))"
proof (cases "feed r a")
  case (Pair r' y)
  then have "feed_loop (r\<lparr>buffer := buffer r @ a\<rparr>) [] = (r', y)" by (simp add: feed_def)
  then have *: "feed r (a @ b) = (case y of Inl e \<Rightarrow> (r'\<lparr>buffer := buffer r' @ b\<rparr>, Inl e)
      | Inr ys \<Rightarrow> feed_loop (r'\<lparr>buffer := buffer r' @ b\<rparr>) ys)"
    using feed_loop_append [of "r\<lparr>buffer := buffer r @ a\<rparr>" b "[]"] by (simp add: feed_def)
  show ?thesis
  proof (cases y)
    case (Inr xs)
    have "feed_loop (r'\<lparr>buffer := buffer r' @ b\<rparr>) (xs @ []) =
        (case feed r' b of (r'', y) \<Rightarrow> (r'', map_sum id ((@) xs) y))"
      unfolding feed_def by (rule feed_loop_acc)
    then show ?thesis using * Inr Pair by simp
  qed (use * Pair in simp)
qed

text \<open>
  What a caller sees that hands over one chunk after another and stops at the first error: the
  payloads of all calls, in order.
\<close>

fun feed_chunks :: "reassembler \<Rightarrow> bytes list \<Rightarrow> reassembler \<times> bytes list res" where
  "feed_chunks r [] = (r, Inr [])"
| "feed_chunks r (c # cs) =
     (case feed r c of
        (r', Inl e) \<Rightarrow> (r', Inl e)
      | (r', Inr xs) \<Rightarrow> (case feed_chunks r' cs of (r'', y) \<Rightarrow> (r'', map_sum id ((@) xs) y)))"

lemma map_sum_append: "map_sum id ((@) []) y = y" "map_sum id ((@) xs) (map_sum id ((@) ys) y)
    = map_sum id ((@) (xs @ ys)) y"
  by (cases y; simp)+

lemma feed_chunks_concat:
  assumes "cs \<noteq> []"
  shows "snd (feed_chunks r cs) = snd (feed r (concat cs))"
    and "snd (feed r (concat cs)) = Inr xs \<Longrightarrow> feed_chunks r cs = feed r (concat cs)"
proof -
  have "snd (feed_chunks r cs) = snd (feed r (concat cs)) \<and>
    (\<forall>xs. snd (feed r (concat cs)) = Inr xs \<longrightarrow> feed_chunks r cs = feed r (concat cs))"
    using assms
  proof (induction cs arbitrary: r rule: list_nonempty_induct)
    case (single c)
    then show ?case by (auto simp: map_sum_append split: prod.splits sum.splits)
  next
    case (cons c cs)
    show ?case
    proof (cases "feed r c")
      case (Pair r' y)
      show ?thesis
        using cons.IH [of r'] by (cases y) (auto simp: Pair feed_append map_sum_Inr_iff split: prod.splits)
    qed
  qed
  then show "snd (feed_chunks r cs) = snd (feed r (concat cs))"
    "snd (feed r (concat cs)) = Inr xs \<Longrightarrow> feed_chunks r cs = feed r (concat cs)" by auto
qed

section \<open>Whole fragments\<close>

fun accept_all :: "reassembler \<Rightarrow> fragment list \<Rightarrow> reassembler \<times> bytes list res" where
  "accept_all r [] = (r, Inr [])"
| "accept_all r (f # fs) =
     (case accept f r of
        (r', Inl e) \<Rightarrow> (r', Inl e)
      | (r', Inr None) \<Rightarrow> accept_all r' fs
      | (r', Inr (Some d)) \<Rightarrow> (case accept_all r' fs of (r'', y) \<Rightarrow> (r'', map_sum id ((@) [d]) y)))"

lemma feed_loop_fragments:
  assumes "\<forall>f\<in>set fs. length (blob f) < 2 ^ 32" "accept_all r fs = (r', Inr outs)"
  shows "feed_loop (r\<lparr>buffer := concat (map encode_fragment fs) @ rest\<rparr>) acc
       = feed_loop (r'\<lparr>buffer := rest\<rparr>) (acc @ outs)"
  using assms
proof (induction fs arbitrary: r acc outs)
  case (Cons f fs)
  let ?bs = "concat (map encode_fragment fs) @ rest"
  obtain r1 x where a: "accept f r = (r1, x)" by (cases "accept f r")
  have d: "decode_one (encode_fragment f @ ?bs) = Inr (Some (f, length (encode_fragment f)))"
    using Cons.prems(1) by (intro decode_one_encode) simp
  have a': "accept f (r\<lparr>buffer := ?bs\<rparr>) = (r1\<lparr>buffer := ?bs\<rparr>, x)"
    using a by (rule accept_buffer_Pair)
  have ih: "accept_all r1 fs = (r', Inr os) \<Longrightarrow>
    feed_loop (r1\<lparr>buffer := ?bs\<rparr>) ac = feed_loop (r'\<lparr>buffer := rest\<rparr>) (ac @ os)" for os ac
    using Cons by simp
  show ?case
  proof (cases x)
    case (Inl e)
    then show ?thesis using Cons.prems(2) a by simp
  next
    case (Inr m)
    show ?thesis
    proof (cases m)
      case None
      then show ?thesis using Cons.prems(2) a a' d Inr ih
        by (simp add: feed_loop.simps [of "r\<lparr>buffer := encode_fragment f @ ?bs\<rparr>"])
    next
      case (Some p)
      then obtain os where "accept_all r1 fs = (r', Inr os)" "outs = p # os"
        using Cons.prems(2) a Inr by (auto simp: map_sum_Inr_iff split: prod.splits)
      then show ?thesis using a a' d Inr Some ih
        by (simp add: feed_loop.simps [of "r\<lparr>buffer := encode_fragment f @ ?bs\<rparr>"])
    qed
  qed
qed simp

section \<open>What the reassembler promises\<close>

text \<open>
  The abstract machine keeps, for every object, the fragments of the message in progress.  A
  fragment is taken when it is the next one: it starts a message exactly when none is in
  progress, and its id is the number of fragments before it.
\<close>

type_synonym abs_state = "u64 \<Rightarrow> fragment list"

definition next_in_order :: "fragment \<Rightarrow> abs_state \<Rightarrow> bool" where
  "next_in_order f A \<longleftrightarrow>
     frag_start f = (A (object_id f) = []) \<and>
     unat (fragment_id f) = length (A (object_id f)) \<and>
     unat (fragment_id f) + 1 < 2 ^ 64"

definition abs_accept :: "fragment \<Rightarrow> abs_state \<Rightarrow> (abs_state \<times> bytes option) option" where
  "abs_accept f A =
     (let oid = object_id f; fs = A oid @ [f] in
      if \<not> next_in_order f A then None
      else if frag_end f then Some (A(oid := []), Some (concat (map blob fs)))
      else Some (A(oid := fs), None))"

fun entry_rel :: "in_flight option \<Rightarrow> fragment list \<Rightarrow> bool" where
  "entry_rel None fs \<longleftrightarrow> fs = []"
| "entry_rel (Some e) fs \<longleftrightarrow>
     (if started e
      then fs \<noteq> [] \<and> buf e = concat (map blob fs) \<and> unat (next_fragment_id e) = length fs
      else fs = [] \<and> buf e = [])"

definition reassembles :: "reassembler \<Rightarrow> abs_state \<Rightarrow> bool" where
  "reassembles r A \<longleftrightarrow> (\<forall>oid. entry_rel (in_flight_of r oid) (A oid))"

lemma checked_add_u64_SomeD: "checked_add_u64 a 1 = Some n \<Longrightarrow> unat n = Suc (unat a)"
  by (auto simp: checked_add_u64_def unat_word_ariths split: if_splits)

lemma reassembles_put:
  "reassembles r A \<Longrightarrow> entry_rel (Some e) fs \<Longrightarrow> reassembles (put_entry oid e r) (A(oid := fs))"
  by (simp add: reassembles_def put_entry_def)

lemma reassembles_put_same:
  "reassembles r A \<Longrightarrow> entry_rel (Some e) (A oid) \<Longrightarrow> reassembles (put_entry oid e r) A"
  using reassembles_put [of r A e "A oid" oid] by simp

lemma accept_in_order_refines:
  assumes "reassembles r A" "started e" "buf e = concat (map blob (A (object_id f)))"
    "unat (next_fragment_id e) = length (A (object_id f))"
    "frag_start f = (A (object_id f) = [])"
    "unat (fragment_id f) \<noteq> unat (next_fragment_id e) \<Longrightarrow> A (object_id f) \<noteq> []"
  shows "case accept_in_order f e r of
      (r', Inl err) \<Rightarrow> abs_accept f A = None \<and> reassembles r' A
    | (r', Inr out) \<Rightarrow> \<exists>A'. abs_accept f A = Some (A', out) \<and> reassembles r' A'"
proof (cases "fragment_id f = next_fragment_id e")
  case False
  then have ne: "unat (fragment_id f) \<noteq> unat (next_fragment_id e)" by (simp add: word_unat_eq_iff)
  then have "A (object_id f) \<noteq> []" by (rule assms(6))
  then show ?thesis
    using False assms ne
    by (simp add: accept_in_order_def abs_accept_def next_in_order_def reassembles_put_same Let_def)
next
  case True
  show ?thesis
  proof (cases "checked_add_u64 (fragment_id f) 1")
    case None
    then have *: "\<not> unat (fragment_id f) + 1 < 2 ^ 64"
      by (simp add: checked_add_u64_def split: if_splits)
    then have "A (object_id f) \<noteq> []" using True assms(4) by auto
    then show ?thesis using None True assms *
      by (simp add: accept_in_order_def abs_accept_def next_in_order_def reassembles_put_same Let_def)
  next
    case (Some n)
    then have *: "unat (fragment_id f) + 1 < 2 ^ 64" "unat n = Suc (length (A (object_id f)))"
      using checked_add_u64_SomeD [OF Some] True assms(4)
      by (simp_all add: checked_add_u64_def split: if_splits)
    have "reassembles (put_entry (object_id f) (e\<lparr>next_fragment_id := n, buf := buf e @ blob f\<rparr>) r)
        (A(object_id f := A (object_id f) @ [f]))"
      using assms * by (intro reassembles_put) simp_all
    moreover have "reassembles (r\<lparr>in_flight_of := (in_flight_of r)(object_id f := None),
        completed_order := completed_order r @ [object_id f]\<rparr>) (A(object_id f := []))"
      using assms(1) by (simp add: reassembles_def)
    ultimately show ?thesis using Some True assms *
      by (simp add: accept_in_order_def abs_accept_def next_in_order_def Let_def)
  qed
qed

text \<open>A fragment the code refuses is one the abstract machine refuses, and leaves it unchanged.\<close>

lemma accept_refines:
  assumes "reassembles r A"
  shows "case accept f r of
      (r', Inl err) \<Rightarrow> abs_accept f A = None \<and> reassembles r' A
    | (r', Inr out) \<Rightarrow> \<exists>A'. abs_accept f A = Some (A', out) \<and> reassembles r' A'"
proof -
  let ?o = "object_id f"
  define e where "e = (case in_flight_of r ?o of None \<Rightarrow> in_flight_default | Some e \<Rightarrow> e)"
  have rel: "entry_rel (Some e) (A ?o)"
    using assms unfolding reassembles_def e_def
    by (cases "in_flight_of r ?o") (auto simp: in_flight_default_def dest: spec [of _ ?o] split: if_splits)
  have put: "reassembles (put_entry ?o e r) A" using assms rel by (rule reassembles_put_same)
  consider (dup) "frag_start f" "started e" | (nonzero) "frag_start f" "\<not> started e" "fragment_id f \<noteq> 0"
    | (start) "frag_start f" "\<not> started e" "fragment_id f = 0"
    | (early) "\<not> frag_start f" "\<not> started e" | (cont) "\<not> frag_start f" "started e" by blast
  then show ?thesis
  proof cases
    case start
    then have "accept f r = accept_in_order f (e\<lparr>started := True, next_fragment_id := 0\<rparr>) r"
      by (simp add: accept_def e_def [symmetric] Let_def)
    then show ?thesis
      using start rel assms accept_in_order_refines
        [of r A "e\<lparr>started := True, next_fragment_id := 0\<rparr>" f]
      by simp
  next
    case cont
    then have "accept f r = accept_in_order f e r"
      by (simp add: accept_def e_def [symmetric] Let_def)
    then show ?thesis using cont rel assms accept_in_order_refines [of r A e f] by simp
  qed (use rel put in \<open>auto simp: accept_def e_def [symmetric] abs_accept_def next_in_order_def Let_def
        word_unat_eq_iff\<close>)
qed

section \<open>The fragments of a message\<close>

definition well_split :: "u64 \<Rightarrow> bytes \<Rightarrow> fragment list \<Rightarrow> bool" where
  "well_split oid payload fs \<longleftrightarrow>
     fs \<noteq> [] \<and> length fs < 2 ^ 64 \<and> concat (map blob fs) = payload \<and>
     (\<forall>i < length fs. object_id (fs ! i) = oid \<and> unat (fragment_id (fs ! i)) = i
        \<and> frag_start (fs ! i) = (i = 0) \<and> frag_end (fs ! i) = (Suc i = length fs)
        \<and> length (blob (fs ! i)) \<le> MAX_FRAGMENT_PAYLOAD)"

lemma length_split_loop [simp]: "length (split_loop oid fid cs) = length cs"
  by (induction cs arbitrary: fid) auto

lemma split_loop_nth:
  "i < length cs \<Longrightarrow> split_loop oid fid cs ! i =
     \<lparr>object_id = oid, fragment_id = fid + of_nat i, frag_start = (fid + of_nat i = 0),
      frag_end = (Suc i = length cs), blob = cs ! i\<rparr>"
proof (induction cs arbitrary: fid i)
  case (Cons c cs)
  then show ?case by (cases i) (auto simp: algebra_simps)
qed simp

lemma split_loop_blobs: "map blob (split_loop oid fid cs) = cs"
  by (induction cs arbitrary: fid) auto

lemma split_message_well_split:
  assumes "length payload < 2 ^ 64"
  shows "well_split oid payload (split_message oid payload)"
proof (cases "payload = []")
  case True
  then show ?thesis by (simp add: well_split_def split_message_def)
next
  case False
  let ?cs = "chunks MAX_FRAGMENT_PAYLOAD payload"
  have M: "0 < MAX_FRAGMENT_PAYLOAD" by (simp add: MAX_FRAGMENT_PAYLOAD_def)
  have n: "length ?cs < 2 ^ 64" using length_chunks_le [OF M, of payload] assms by simp
  have i: "unat (of_nat i :: u64) = i" if "i < length ?cs" for i
  proof -
    have "i < 2 ^ 64" using that n by linarith
    then show ?thesis by (simp add: unat_of_nat)
  qed
  have nth: "split_loop oid 0 ?cs ! i = \<lparr>object_id = oid, fragment_id = of_nat i,
      frag_start = (i = 0), frag_end = (Suc i = length ?cs), blob = ?cs ! i\<rparr>" if "i < length ?cs" for i
  proof -
    have "(of_nat i :: u64) = 0 \<longleftrightarrow> i = 0"
      using i [OF that] by (auto simp: unat_0_iff [symmetric])
    then show ?thesis using split_loop_nth [OF that, of oid 0] by simp
  qed
  have len: "length (?cs ! i) \<le> MAX_FRAGMENT_PAYLOAD" if "i < length ?cs" for i
    using chunks_bounds [of "?cs ! i" MAX_FRAGMENT_PAYLOAD payload] that by simp
  have "split_loop oid 0 ?cs \<noteq> []"
    using False M by (metis chunks_eq_Nil_iff length_0_conv length_split_loop)
  moreover have "concat (map blob (split_loop oid 0 ?cs)) = payload"
    using M by (simp add: split_loop_blobs concat_chunks)
  moreover have "\<forall>j < length ?cs. object_id (split_loop oid 0 ?cs ! j) = oid
        \<and> unat (fragment_id (split_loop oid 0 ?cs ! j)) = j
        \<and> frag_start (split_loop oid 0 ?cs ! j) = (j = 0)
        \<and> frag_end (split_loop oid 0 ?cs ! j) = (Suc j = length ?cs)
        \<and> length (blob (split_loop oid 0 ?cs ! j)) \<le> MAX_FRAGMENT_PAYLOAD"
    using nth i len by simp
  ultimately show ?thesis
    using False n unfolding well_split_def split_message_def by simp
qed

section \<open>Any interleaving of messages is put back together\<close>

fun abs_run :: "abs_state \<Rightarrow> fragment list \<Rightarrow> (abs_state \<times> bytes list) option" where
  "abs_run A [] = Some (A, [])"
| "abs_run A (f # fs) =
     (case abs_accept f A of
        None \<Rightarrow> None
      | Some (A', out) \<Rightarrow>
          map_option (\<lambda>(A'', outs). (A'', case out of None \<Rightarrow> outs | Some d \<Rightarrow> d # outs))
            (abs_run A' fs))"

abbreviation of_object :: "u64 \<Rightarrow> fragment list \<Rightarrow> fragment list" where
  "of_object oid fs \<equiv> filter (\<lambda>f. object_id f = oid) fs"

text \<open>What is in progress, together with what is still to come, are the messages of \<open>p\<close>.\<close>

definition on_the_way :: "(u64 \<rightharpoonup> bytes) \<Rightarrow> abs_state \<Rightarrow> fragment list \<Rightarrow> bool" where
  "on_the_way p A fs \<longleftrightarrow> (\<forall>oid. if of_object oid fs = [] then A oid = []
     else \<exists>payload. p oid = Some payload \<and> well_split oid payload (A oid @ of_object oid fs))"

lemma well_split_next:
  assumes "well_split oid payload (A oid @ f # fs)" "object_id f = oid"
  shows "next_in_order f A" "frag_end f = (fs = [])"
    "fs = [] \<Longrightarrow> concat (map blob (A oid)) @ blob f = payload"
proof -
  let ?n = "length (A oid)"
  have *: "(A oid @ f # fs) ! ?n = f" by simp
  let ?xs = "A oid @ f # fs"
  have "?n < length ?xs" by simp
  then have f: "unat (fragment_id f) = ?n \<and> frag_start f = (?n = 0) \<and> frag_end f = (Suc ?n = length ?xs)"
    using assms(1) * unfolding well_split_def by metis
  moreover have "length ?xs < 2 ^ 64" using assms(1) unfolding well_split_def by blast
  ultimately show "next_in_order f A" "frag_end f = (fs = [])"
    using assms(2) by (simp_all add: next_in_order_def)
  show "fs = [] \<Longrightarrow> concat (map blob (A oid)) @ blob f = payload"
    using assms by (simp add: well_split_def)
qed

lemma on_the_way_step:
  assumes "on_the_way p A (f # fs)"
  shows "\<exists>A'. abs_accept f A =
      Some (A', if frag_end f then p (object_id f) else None) \<and> on_the_way p A' fs"
proof -
  let ?o = "object_id f"
  from assms obtain pl where pl: "p ?o = Some pl" and w: "well_split ?o pl (A ?o @ f # of_object ?o fs)"
    unfolding on_the_way_def by (auto dest!: spec [of _ ?o])
  note nx = well_split_next [where A = A and f = f and oid = ?o, OF w refl]
  have other: "if of_object oid fs = [] then A oid = []
      else \<exists>payload. p oid = Some payload \<and> well_split oid payload (A oid @ of_object oid fs)"
    if "oid \<noteq> ?o" for oid
    using assms that unfolding on_the_way_def by (auto dest!: spec [of _ oid])
  show ?thesis
  proof (cases "frag_end f")
    case True
    with nx have "of_object ?o fs = []" "concat (map blob (A ?o)) @ blob f = pl" by auto
    then have "on_the_way p (A(?o := [])) fs"
      using other unfolding on_the_way_def by auto
    with True nx pl \<open>concat (map blob (A ?o)) @ blob f = pl\<close> show ?thesis
      by (simp add: abs_accept_def Let_def)
  next
    case False
    with nx have "of_object ?o fs \<noteq> []" by auto
    then have "on_the_way p (A(?o := A ?o @ [f])) fs"
      using other pl w unfolding on_the_way_def by auto
    with False nx show ?thesis by (simp add: abs_accept_def Let_def)
  qed
qed

lemma abs_run_on_the_way:
  "on_the_way p A fs \<Longrightarrow>
     abs_run A fs = Some (\<lambda>_. [], map (\<lambda>f. the (p (object_id f))) (filter frag_end fs))"
proof (induction fs arbitrary: A)
  case Nil
  then show ?case by (auto simp: on_the_way_def)
next
  case (Cons f fs)
  from on_the_way_step [OF Cons.prems] obtain A' where
    A': "abs_accept f A = Some (A', if frag_end f then p (object_id f) else None)"
      "on_the_way p A' fs" by blast
  have "p (object_id f) \<noteq> None"
    using Cons.prems unfolding on_the_way_def by (auto dest!: spec [of _ "object_id f"])
  with A' Cons.IH [OF A'(2)] show ?case by (auto split: option.splits)
qed

definition all_started :: "reassembler \<Rightarrow> bool" where
  "all_started r \<longleftrightarrow> (\<forall>oid e. in_flight_of r oid = Some e \<longrightarrow> started e)"

lemma accept_all_started: "all_started r \<Longrightarrow> accept f r = (r', Inr out) \<Longrightarrow> all_started r'"
  by (auto simp: all_started_def accept_def accept_in_order_def put_entry_def Let_def
      split: if_splits option.splits)

lemma accept_all_refines:
  assumes "reassembles r A" "all_started r" "abs_run A fs = Some (A', outs)"
  shows "\<exists>r'. accept_all r fs = (r', Inr outs) \<and> reassembles r' A' \<and> all_started r'
    \<and> buffer r' = buffer r"
  using assms
proof (induction fs arbitrary: r A outs)
  case (Cons f fs)
  from Cons.prems(3) obtain A1 out os where a: "abs_accept f A = Some (A1, out)"
    and run: "abs_run A1 fs = Some (A', os)"
    and outs: "outs = (case out of None \<Rightarrow> os | Some d \<Rightarrow> d # os)"
    by (auto split: option.splits)
  obtain r1 x where r1: "accept f r = (r1, x)" by (cases "accept f r")
  with accept_refines [OF Cons.prems(1), of f] a have x: "x = Inr out" and rel: "reassembles r1 A1"
    by (auto split: sum.splits)
  have st: "all_started r1" using accept_all_started Cons.prems(2) r1 x by blast
  have "buffer r1 = buffer r" using accept_bufferD [OF r1] .
  with Cons.IH [OF rel st run] r1 x outs show ?case by (auto split: option.splits)
qed auto

lemma new_is_idle: "is_idle reassembler_new"
  by (simp add: is_idle_def reassembler_new_def)

text \<open>
  The fragments of several messages, interleaved in any way that keeps each message's own order
  and cut into arbitrary chunks, come out as the payloads, each when its last fragment is in.
\<close>

lemma feed_interleaved:
  assumes "is_idle r0"
    and "\<forall>oid. of_object oid fs = (case p oid of None \<Rightarrow> [] | Some pl \<Rightarrow> split_message oid pl)"
    and "\<forall>oid pl. p oid = Some pl \<longrightarrow> length pl < 2 ^ 64"
    and "concat cs = concat (map encode_fragment fs)" "cs \<noteq> []"
  shows "\<exists>r. feed_chunks r0 cs
      = (r, Inr (map (\<lambda>f. the (p (object_id f))) (filter frag_end fs))) \<and> is_idle r"
proof -
  let ?outs = "map (\<lambda>f. the (p (object_id f))) (filter frag_end fs)"
  have ws: "well_split oid pl (split_message oid pl)" if "p oid = Some pl" for oid pl
    using assms(3) that split_message_well_split by blast
  have "on_the_way p (\<lambda>_. []) fs"
    using assms(2) ws unfolding on_the_way_def by (auto split: option.splits)
  then have run: "abs_run (\<lambda>_. []) fs = Some (\<lambda>_. [], ?outs)" by (rule abs_run_on_the_way)
  have empty: "buffer r0 = []" "in_flight_of r0 = Map.empty" using assms(1) by (simp_all add: is_idle_def)
  then have "reassembles r0 (\<lambda>_. [])" "all_started r0"
    by (simp_all add: reassembles_def all_started_def)
  from accept_all_refines [OF this run] obtain r where
    r: "accept_all r0 fs = (r, Inr ?outs)" "reassembles r (\<lambda>_. [])" "all_started r"
       "buffer r = []" by (auto simp: empty)
  have small: "length (blob f) < 2 ^ 32" if "f \<in> set fs" for f
  proof -
    from that have "f \<in> set (of_object (object_id f) fs)" by simp
    then obtain pl where "p (object_id f) = Some pl" "f \<in> set (split_message (object_id f) pl)"
      using assms(2) by (cases "p (object_id f)") (auto simp del: filter_set)
    then have "length (blob f) \<le> MAX_FRAGMENT_PAYLOAD"
      using ws unfolding well_split_def by (metis in_set_conv_nth)
    then show ?thesis by (simp add: MAX_FRAGMENT_PAYLOAD_def)
  qed
  have new: "r0\<lparr>buffer := b\<rparr> = r0\<lparr>buffer := buffer r0 @ b\<rparr>" for b
    by (simp add: empty)
  have "in_flight_of r = Map.empty"
  proof
    fix oid
    show "in_flight_of r oid = None"
      using r(2,3) unfolding reassembles_def all_started_def
      by (cases "in_flight_of r oid") (auto dest!: spec [of _ oid] split: if_splits)
  qed
  then have idle: "is_idle r" using r(4) by (simp add: is_idle_def)
  have "feed r0 (concat cs) = feed_loop (r\<lparr>buffer := []\<rparr>) ?outs"
    using feed_loop_fragments [of fs r0 r ?outs "[]" "[]"] small r(1) assms(4)
    by (simp add: feed_def flip: new)
  also have "\<dots> = (r, Inr ?outs)"
    using r(4) by (simp add: feed_loop.simps [of "r\<lparr>buffer := []\<rparr>"] decode_one_def split_first_chunk_def)
  finally have "feed r0 (concat cs) = (r, Inr ?outs)" .
  then show ?thesis using feed_chunks_concat(2) [OF assms(5), of r0 ?outs] idle by simp
qed

section \<open>Properties\<close>

text \<open>
  C1: the fragments of any set of messages, interleaved in any way that keeps each message's own
  order and delivered in chunks cut at arbitrary byte positions, are reassembled into exactly
  these messages: every payload is returned once, in the order of the last fragments, and
  afterwards nothing is left buffered or in flight.
\<close>

theorem reassembler_restores_messages:
  assumes "\<forall>oid. filter (\<lambda>f. object_id f = oid) fs
      = (case p oid of None \<Rightarrow> [] | Some payload \<Rightarrow> split_message oid payload)"
    and "\<forall>oid payload. p oid = Some payload \<longrightarrow> length payload < 2 ^ 64"
    and "concat cs = concat (map encode_fragment fs)" "cs \<noteq> []"
  shows "\<exists>r. feed_chunks reassembler_new cs
      = (r, Inr (map (\<lambda>f. the (p (object_id f))) (filter frag_end fs))) \<and> is_idle r"
  using new_is_idle assms by (rule feed_interleaved)

definition long_payload :: "u8 \<Rightarrow> bytes" where
  "long_payload b = replicate 32769 b"

lemma length_long_payload: "length (long_payload b) = 32769"
  by (simp add: long_payload_def)

lemma split_long_payload:
  "split_message oid (long_payload b) =
     [\<lparr>object_id = oid, fragment_id = 0, frag_start = True, frag_end = False, blob = replicate 32768 b\<rparr>,
      \<lparr>object_id = oid, fragment_id = 1, frag_start = False, frag_end = True, blob = [b]\<rparr>]"
proof -
  have "chunks 32768 (replicate 32769 b) = [replicate 32768 b, replicate 1 b]"
    by (simp add: chunks.simps [of 32768 "replicate 32769 b"] chunks.simps [of 32768 "[b]"])
  then show ?thesis
    by (simp add: split_message_def long_payload_def MAX_FRAGMENT_PAYLOAD_def)
qed

theorem reassembler_restores_messages_witness:
  "\<exists>r. feed_chunks reassembler_new
      [encode_fragment (split_message 7 (long_payload 1) ! 0)
         @ encode_fragment (split_message 9 (long_payload 2) ! 0),
       encode_fragment (split_message 9 (long_payload 2) ! 1)
         @ encode_fragment (split_message 7 (long_payload 1) ! 1)]
    = (r, Inr [long_payload 2, long_payload 1]) \<and> is_idle r"
  using reassembler_restores_messages
    [of "[split_message 7 (long_payload 1) ! 0, split_message 9 (long_payload 2) ! 0,
          split_message 9 (long_payload 2) ! 1, split_message 7 (long_payload 1) ! 1]"
        "[7 \<mapsto> long_payload 1, 9 \<mapsto> long_payload 2]"
        "[encode_fragment (split_message 7 (long_payload 1) ! 0)
            @ encode_fragment (split_message 9 (long_payload 2) ! 0),
          encode_fragment (split_message 9 (long_payload 2) ! 1)
            @ encode_fragment (split_message 7 (long_payload 1) ! 1)]"]
  by (simp add: split_long_payload length_long_payload del: feed_chunks.simps)

text \<open>
  How the transport cuts the byte stream into chunks does not matter: feeding the chunks one
  after another gives the same payloads, or the same error, as feeding all the bytes at once,
  from any state.
\<close>

lemma feed_ignores_chunk_boundaries:
  assumes "cs \<noteq> []"
  shows "snd (feed_chunks r cs) = snd (feed r (concat cs))"
  using assms by (rule feed_chunks_concat(1))

lemma feed_ignores_chunk_boundaries_witness:
  "snd (feed_chunks reassembler_new [[1, 2], [3], []]) = snd (feed reassembler_new [1, 2, 3])"
  using feed_ignores_chunk_boundaries [of "[[1, 2], [3], []]" reassembler_new] by simp

text \<open>
  C2: one turn of the reassembler's loop refines the abstract machine that keeps the list of
  fragments received for every object: a fragment is accepted exactly when it is the next one of
  its message, a completed payload is the concatenation of its fragments in order, and a refused
  fragment (duplicate start, start with a non-zero id, continuation without a start, wrong id, id
  overflow) leaves what is in progress as it was.
\<close>

theorem accept_refines_in_order_machine:
  assumes "reassembles r A"
  shows "case accept f r of
      (r', Inl err) \<Rightarrow> abs_accept f A = None \<and> reassembles r' A
    | (r', Inr out) \<Rightarrow> \<exists>A'. abs_accept f A = Some (A', out) \<and> reassembles r' A'"
  using assms by (rule accept_refines)

theorem accept_refines_in_order_machine_witness:
  "case accept \<lparr>object_id = 5, fragment_id = 1, frag_start = False, frag_end = True, blob = [4]\<rparr>
      reassembler_new of
      (r', Inl err) \<Rightarrow> abs_accept \<lparr>object_id = 5, fragment_id = 1, frag_start = False,
          frag_end = True, blob = [4]\<rparr> (\<lambda>_. []) = None \<and> reassembles r' (\<lambda>_. [])
    | (r', Inr out) \<Rightarrow> \<exists>A'. abs_accept \<lparr>object_id = 5, fragment_id = 1, frag_start = False,
          frag_end = True, blob = [4]\<rparr> (\<lambda>_. []) = Some (A', out) \<and> reassembles r' A'"
  by (rule accept_refines_in_order_machine) (simp add: reassembles_def reassembler_new_def)

text \<open>
  The splitter cuts a message into a non-empty list of fragments that carries it: the blobs
  concatenate to the payload, none exceeds 32 KiB, the ids count from 0, exactly the first is
  marked as the start and exactly the last as the end.
\<close>

lemma split_message_shape:
  assumes "length payload < 2 ^ 64" "i < length (split_message oid payload)"
  shows "concat (map blob (split_message oid payload)) = payload
     \<and> object_id (split_message oid payload ! i) = oid
     \<and> unat (fragment_id (split_message oid payload ! i)) = i
     \<and> frag_start (split_message oid payload ! i) = (i = 0)
     \<and> frag_end (split_message oid payload ! i) = (Suc i = length (split_message oid payload))
     \<and> length (blob (split_message oid payload ! i)) \<le> MAX_FRAGMENT_PAYLOAD"
  using split_message_well_split [OF assms(1), of oid] assms(2) unfolding well_split_def by blast

lemma split_message_shape_witness:
  "concat (map blob (split_message 3 (long_payload 6))) = long_payload 6
   \<and> frag_end (split_message 3 (long_payload 6) ! 1)"
  using split_message_shape [of "long_payload 6" 1 3]
  by (simp add: split_long_payload length_long_payload)

text \<open>
  The wire form of a fragment is decoded to the same fragment, whatever bytes follow it, and
  consumes exactly its own bytes.
\<close>

lemma fragment_wire_roundtrip:
  assumes "length (blob f) < 2 ^ 32"
  shows "decode_one (encode_fragment f @ rest) = Inr (Some (f, length (encode_fragment f)))"
  using assms by (rule decode_one_encode)

lemma fragment_wire_roundtrip_witness:
  "decode_one (encode_fragment \<lparr>object_id = 1, fragment_id = 2, frag_start = True,
       frag_end = False, blob = [7, 8]\<rparr> @ [9])
   = Inr (Some (\<lparr>object_id = 1, fragment_id = 2, frag_start = True, frag_end = False,
       blob = [7, 8]\<rparr>, 23))"
  using fragment_wire_roundtrip [of "\<lparr>object_id = 1, fragment_id = 2, frag_start = True,
       frag_end = False, blob = [7, 8]\<rparr>" "[9]"]
  by (simp add: length_encode_fragment FRAGMENT_HEADER_LEN_def)

end
