(* ===== verification/Uuids.thy ===== *)
theory Uuids
  imports Unicode
begin

text \<open>
  The interface of the third-party \<open>uuid\<close> crate, as far as this crate calls it.  A
  \<open>Uuid\<close> is a 128-bit value (\<open>Uuid::nil\<close> is zero); its mixed-endian byte form and its
  hyphenated text are functions of the interface (\<open>parse_str\<close> returns the text of its error), and the locale \<open>uuid_laws\<close> states what the
  crate relies on.  The mixed-endian layout of RFC 4122 \<section>4.1.2 (as Microsoft's GUID uses
  it) is the instance that the locale is interpreted on.
\<close>

type_synonym uuid = "128 word"

abbreviation nil_uuid :: uuid where
  "nil_uuid \<equiv> 0"

record uuid_api =
  to_bytes_le :: "uuid \<Rightarrow> bytes"
  from_bytes_le :: "bytes \<Rightarrow> uuid"
  hyphenated :: "uuid \<Rightarrow> ustr"
  parse_str :: "ustr \<Rightarrow> ustr + uuid"

definition uuid_char :: "uchar \<Rightarrow> bool" where
  "uuid_char c \<longleftrightarrow> c = 45 \<or> (48 \<le> c \<and> c \<le> 57) \<or> (97 \<le> c \<and> c \<le> 102)"

locale uuid_laws =
  fixes U :: uuid_api
  assumes length_to_bytes_le: "length (to_bytes_le U u) = 16"
    and from_to_bytes_le: "from_bytes_le U (to_bytes_le U u) = u"
    and to_from_bytes_le: "length b = 16 \<Longrightarrow> to_bytes_le U (from_bytes_le U b) = b"
    and parse_hyphenated: "parse_str U (hyphenated U u) = Inr u"
    and hyphenated_chars: "c \<in> set (hyphenated U u) \<Longrightarrow> uuid_char c"
    and length_hyphenated: "length (hyphenated U u) = 36"

section \<open>The RFC 4122 layout\<close>

definition swap_fields :: "'a list \<Rightarrow> 'a list" where
  "swap_fields b =
     rev (take 4 b) @ rev (take 2 (drop 4 b)) @ rev (take 2 (drop 6 b)) @ drop 8 b"

lemma swap_fields_length: "length b = 16 \<Longrightarrow> length (swap_fields b) = 16"
  by (simp add: swap_fields_def)

lemma swap_fields_swap_fields: "length b = 16 \<Longrightarrow> swap_fields (swap_fields b) = b"
  by (auto simp: swap_fields_def numeral_eq_Suc length_Suc_conv)

definition rfc_to_bytes_le :: "uuid \<Rightarrow> bytes" where
  "rfc_to_bytes_le u = swap_fields (rev (nat_to_le 16 (unat u)))"

definition rfc_from_bytes_le :: "bytes \<Rightarrow> uuid" where
  "rfc_from_bytes_le b = of_nat (le_to_nat (rev (swap_fields b)))"

lemma length_rfc_to_bytes_le [simp]: "length (rfc_to_bytes_le u) = 16"
  by (simp add: rfc_to_bytes_le_def swap_fields_length)

lemma rfc_from_to: "rfc_from_bytes_le (rfc_to_bytes_le u) = u"
proof -
  have "le_to_nat (nat_to_le 16 (unat u)) = unat u"
    using unat_less_pow [of u] by (simp add: le_to_nat_nat_to_le)
  then show ?thesis
    by (simp add: rfc_from_bytes_le_def rfc_to_bytes_le_def swap_fields_swap_fields)
qed

lemma rfc_to_from:
  assumes "length b = 16"
  shows "rfc_to_bytes_le (rfc_from_bytes_le b) = b"
proof -
  let ?bs = "rev (swap_fields b)"
  have len: "length ?bs = 16" using assms by (simp add: swap_fields_length)
  have "le_to_nat ?bs < 2 ^ 128" using le_to_nat_less [of ?bs] len by simp
  then have "unat (of_nat (le_to_nat ?bs) :: uuid) = le_to_nat ?bs" by (simp add: unat_of_nat)
  then have "rev (nat_to_le 16 (unat (rfc_from_bytes_le b))) = swap_fields b"
    using nat_to_le_le_to_nat [of ?bs] len by (simp add: rfc_from_bytes_le_def)
  then show ?thesis using assms by (simp add: rfc_to_bytes_le_def swap_fields_swap_fields)
qed

text \<open>The text form: 32 lower-case digits in groups of 8, 4, 4, 4 and 12.\<close>

fun nat_to_hex :: "nat \<Rightarrow> nat \<Rightarrow> ustr" where
  "nat_to_hex 0 n = []"
| "nat_to_hex (Suc k) n = nat_to_hex k (n div 16) @ [hex_digit_lower (n mod 16)]"

fun hex_to_nat :: "nat \<Rightarrow> ustr \<Rightarrow> nat option" where
  "hex_to_nat acc [] = Some acc"
| "hex_to_nat acc (c # cs) =
     (case to_digit 16 c of None \<Rightarrow> None | Some d \<Rightarrow> hex_to_nat (16 * acc + d) cs)"

definition hyphenate :: "ustr \<Rightarrow> ustr" where
  "hyphenate s = take 8 s @ [45] @ take 4 (drop 8 s) @ [45] @ take 4 (drop 12 s) @ [45]
                 @ take 4 (drop 16 s) @ [45] @ drop 20 s"

definition rfc_hyphenated :: "uuid \<Rightarrow> ustr" where
  "rfc_hyphenated u = hyphenate (nat_to_hex 32 (unat u))"

definition rfc_parse :: "ustr \<Rightarrow> ustr + uuid" where
  "rfc_parse s =
     (let t = filter (\<lambda>c. c \<noteq> 45) s
      in ok_or (if length t = 32 \<and> s = hyphenate t then map_option of_nat (hex_to_nat 0 t) else None)
           (lit ''invalid UUID''))"

lemma length_nat_to_hex [simp]: "length (nat_to_hex k n) = k"
  by (induction k arbitrary: n) auto

lemma hex_digit_lower_chars: "d < 16 \<Longrightarrow> uuid_char (hex_digit_lower d) \<and> hex_digit_lower d \<noteq> 45"
  by (auto simp: hex_digit_lower_def uuid_char_def)

lemma nat_to_hex_chars: "c \<in> set (nat_to_hex k n) \<Longrightarrow> uuid_char c \<and> c \<noteq> 45"
  by (induction k arbitrary: n) (auto simp: hex_digit_lower_chars)

lemma to_digit_hex: "d < 16 \<Longrightarrow> to_digit 16 (hex_digit_lower d) = Some d"
  by (auto simp: to_digit_def hex_digit_lower_def)

lemma hex_to_nat_append:
  "hex_to_nat acc (xs @ ys) = (case hex_to_nat acc xs of None \<Rightarrow> None | Some a \<Rightarrow> hex_to_nat a ys)"
  by (induction xs arbitrary: acc) (auto split: option.splits)

lemma hex_to_nat_to_hex: "hex_to_nat 0 (nat_to_hex k n) = Some (n mod 16 ^ k)"
  by (induction k arbitrary: n)
    (auto simp: hex_to_nat_append to_digit_hex mod_mult2_eq)

lemma rfc_parse_hyphenated: "rfc_parse (rfc_hyphenated u) = Inr u"
proof -
  let ?t = "nat_to_hex 32 (unat u)"
  have keep: "filter (\<lambda>c. c \<noteq> 45) ?t = ?t" using nat_to_hex_chars by (auto intro: filter_True)
  have "filter (\<lambda>c. c \<noteq> 45) xs = xs" if "set xs \<subseteq> set ?t" for xs
    using that nat_to_hex_chars by (intro filter_True) blast
  then have parts: "filter (\<lambda>c. c \<noteq> 45) (take i (drop j ?t)) = take i (drop j ?t)"
    "filter (\<lambda>c. c \<noteq> 45) (take i ?t) = take i ?t" "filter (\<lambda>c. c \<noteq> 45) (drop j ?t) = drop j ?t"
    for i j by (meson order_trans set_take_subset set_drop_subset)+
  have "take 8 ?t @ take 4 (drop 8 ?t) @ take 4 (drop 12 ?t) @ take 4 (drop 16 ?t) @ drop 20 ?t = ?t"
    using append_take_drop_id [of 8 ?t] append_take_drop_id [of 4 "drop 8 ?t"]
      append_take_drop_id [of 4 "drop 12 ?t"] append_take_drop_id [of 4 "drop 16 ?t"]
    by (simp del: append_take_drop_id nat_to_hex.simps) 
  then have "filter (\<lambda>c. c \<noteq> 45) (hyphenate ?t) = ?t" by (simp add: hyphenate_def parts)
  moreover have "hex_to_nat 0 ?t = Some (unat u)"
    using unat_less_pow [of u] hex_to_nat_to_hex [of 32 "unat u"] by (simp del: nat_to_hex.simps)
  ultimately show ?thesis
    by (simp add: rfc_parse_def rfc_hyphenated_def Let_def del: nat_to_hex.simps)
qed

lemma rfc_hyphenated_chars: "c \<in> set (rfc_hyphenated u) \<Longrightarrow> uuid_char c"
  unfolding rfc_hyphenated_def hyphenate_def
  by (auto dest!: in_set_takeD in_set_dropD nat_to_hex_chars simp: uuid_char_def [of 45])

lemma length_rfc_hyphenated: "length (rfc_hyphenated u) = 36"
  by (simp add: rfc_hyphenated_def hyphenate_def del: nat_to_hex.simps)

definition rfc_uuid :: uuid_api where
  "rfc_uuid = \<lparr>to_bytes_le = rfc_to_bytes_le, from_bytes_le = rfc_from_bytes_le,
     hyphenated = rfc_hyphenated, parse_str = rfc_parse\<rparr>"

interpretation rfc: uuid_laws rfc_uuid
  by unfold_locales
    (auto simp: rfc_uuid_def rfc_from_to rfc_to_from rfc_parse_hyphenated length_rfc_to_bytes_le
      length_rfc_hyphenated
      dest: rfc_hyphenated_chars)

end
