(* ===== verification/Messages.thy ===== *)
theory Messages
  imports Errors Uuids
begin

text \<open>
  The message layer (\<open>src/src/message.rs\<close>): a 40-byte header (destination, message type, pool
  id and pipeline id) followed by the UTF-8 body.  \<open>mt_to_u32\<close>/\<open>mt_from_u32\<close> are the two
  tables of message codes, \<open>msg_encode\<close> and \<open>msg_decode\<close> the two directions of the codec.
\<close>

section \<open>Destinations and message types\<close>

datatype destination = Client | Server

fun dest_to_u32 :: "destination \<Rightarrow> u32" where
  "dest_to_u32 Client = 1"
| "dest_to_u32 Server = 2"

definition dest_from_u32 :: "u32 \<Rightarrow> destination res" where
  "dest_from_u32 v =
     (if v = 1 then Inr Client
      else if v = 2 then Inr Server
      else Inl (protocol (lit ''unknown destination '' @ show_word v)))"

datatype message_type =
    SessionCapability | InitRunspacePool | PublicKey | EncryptedSessionKey | PublicKeyRequest
  | SetMaxRunspaces | SetMinRunspaces | RunspaceAvailability | RunspacePoolState | CreatePipeline
  | GetAvailableRunspaces | UserEvent | ApplicationPrivateData | GetCommandMetadata
  | RunspacePoolHostCall | RunspacePoolHostResponse | PipelineInput | EndOfPipelineInput
  | PipelineOutput | ErrorRecord | PipelineState | DebugRecord | VerboseRecord | WarningRecord
  | ProgressRecord | InformationRecord | PipelineHostCall | PipelineHostResponse
  | ConnectRunspacePool | RunspacePoolInitData | ResetRunspaceState | CloseRunspacePool
  | Unknown u32

fun mt_to_u32 :: "message_type \<Rightarrow> u32" where
  "mt_to_u32 SessionCapability = 0x00010002"
| "mt_to_u32 InitRunspacePool = 0x00010004"
| "mt_to_u32 PublicKey = 0x00010005"
| "mt_to_u32 EncryptedSessionKey = 0x00010006"
| "mt_to_u32 PublicKeyRequest = 0x00010007"
| "mt_to_u32 ConnectRunspacePool = 0x0002100B"
| "mt_to_u32 SetMaxRunspaces = 0x00021002"
| "mt_to_u32 SetMinRunspaces = 0x00021003"
| "mt_to_u32 RunspaceAvailability = 0x00021004"
| "mt_to_u32 RunspacePoolState = 0x00021005"
| "mt_to_u32 CreatePipeline = 0x00021006"
| "mt_to_u32 GetAvailableRunspaces = 0x00021007"
| "mt_to_u32 UserEvent = 0x00021008"
| "mt_to_u32 ApplicationPrivateData = 0x00021009"
| "mt_to_u32 GetCommandMetadata = 0x0002100A"
| "mt_to_u32 RunspacePoolInitData = 0x0002100C"
| "mt_to_u32 ResetRunspaceState = 0x0002100D"
| "mt_to_u32 RunspacePoolHostCall = 0x00021100"
| "mt_to_u32 RunspacePoolHostResponse = 0x00021101"
| "mt_to_u32 PipelineInput = 0x00041002"
| "mt_to_u32 EndOfPipelineInput = 0x00041003"
| "mt_to_u32 PipelineOutput = 0x00041004"
| "mt_to_u32 ErrorRecord = 0x00041005"
| "mt_to_u32 PipelineState = 0x00041006"
| "mt_to_u32 DebugRecord = 0x00041007"
| "mt_to_u32 VerboseRecord = 0x00041008"
| "mt_to_u32 WarningRecord = 0x00041009"
| "mt_to_u32 ProgressRecord = 0x00041010"
| "mt_to_u32 InformationRecord = 0x00041011"
| "mt_to_u32 PipelineHostCall = 0x00041100"
| "mt_to_u32 PipelineHostResponse = 0x00041101"
| "mt_to_u32 CloseRunspacePool = 0x0002100E"
| "mt_to_u32 (Unknown v) = v"

definition mt_table :: "(u32 \<times> message_type) list" where
  "mt_table =
    [(0x00010002, SessionCapability), (0x00010004, InitRunspacePool), (0x00010005, PublicKey),
     (0x00010006, EncryptedSessionKey), (0x00010007, PublicKeyRequest),
     (0x00021002, SetMaxRunspaces), (0x00021003, SetMinRunspaces),
     (0x00021004, RunspaceAvailability), (0x00021005, RunspacePoolState),
     (0x00021006, CreatePipeline), (0x00021007, GetAvailableRunspaces), (0x00021008, UserEvent),
     (0x00021009, ApplicationPrivateData), (0x0002100A, GetCommandMetadata),
     (0x0002100B, ConnectRunspacePool), (0x0002100C, RunspacePoolInitData),
     (0x0002100D, ResetRunspaceState), (0x0002100E, CloseRunspacePool),
     (0x00021100, RunspacePoolHostCall), (0x00021101, RunspacePoolHostResponse),
     (0x00041002, PipelineInput), (0x00041003, EndOfPipelineInput), (0x00041004, PipelineOutput),
     (0x00041005, ErrorRecord), (0x00041006, PipelineState), (0x00041007, DebugRecord),
     (0x00041008, VerboseRecord), (0x00041009, WarningRecord), (0x00041010, ProgressRecord),
     (0x00041011, InformationRecord), (0x00041100, PipelineHostCall),
     (0x00041101, PipelineHostResponse)]"

text \<open>The arms of \<open>from_u32\<close> are distinct literals, so the match is a lookup in their table.\<close>

definition mt_from_u32 :: "u32 \<Rightarrow> message_type" where
  "mt_from_u32 v = (case map_of mt_table v of Some mt \<Rightarrow> mt | None \<Rightarrow> Unknown v)"

section \<open>The message codec\<close>

record psrp_message =
  msg_destination :: destination
  msg_type :: message_type
  msg_rpid :: uuid
  msg_pid :: uuid
  msg_data :: ustr

definition HEADER_LEN :: nat where "HEADER_LEN = 40"
definition BOM :: bytes where "BOM = [0xEF, 0xBB, 0xBF]"

definition to_server :: "message_type \<Rightarrow> uuid \<Rightarrow> uuid \<Rightarrow> ustr \<Rightarrow> psrp_message" where
  "to_server mt r p d =
     \<lparr>msg_destination = Server, msg_type = mt, msg_rpid = r, msg_pid = p, msg_data = d\<rparr>"

definition msg_encode :: "uuid_api \<Rightarrow> psrp_message \<Rightarrow> bytes" where
  "msg_encode U m =
     u32_to_le (dest_to_u32 (msg_destination m)) @ u32_to_le (mt_to_u32 (msg_type m))
     @ to_bytes_le U (msg_rpid m) @ to_bytes_le U (msg_pid m) @ as_bytes (msg_data m)"

definition msg_decode :: "uuid_api \<Rightarrow> bytes \<Rightarrow> psrp_message res" where
  "msg_decode U bs =
    (let too_short = protocol (lit ''message too short: '' @ show_nat (length bs) @ lit '' bytes'') in
     rbind (ok_or (split_first_chunk 4 bs) too_short) (\<lambda>(dest, rest).
     rbind (ok_or (split_first_chunk 4 rest) too_short) (\<lambda>(mt, rest).
     rbind (ok_or (split_first_chunk 16 rest) too_short) (\<lambda>(rpid_bytes, rest).
     rbind (ok_or (split_first_chunk 16 rest) too_short) (\<lambda>(pid_bytes, body).
     rbind (dest_from_u32 (u32_of_le dest)) (\<lambda>destination.
       let message_type = mt_from_u32 (u32_of_le mt);
           rpid = from_bytes_le U rpid_bytes;
           pid = from_bytes_le U pid_bytes;
           body = (case strip_prefix BOM body of Some b \<Rightarrow> b | None \<Rightarrow> body)
       in case from_utf8 body of
            Inl e \<Rightarrow>
              Inl (protocol (lit ''invalid UTF-8 in message body: '' @ utf8_error_text e))
          | Inr data \<Rightarrow>
              Inr \<lparr>msg_destination = destination, msg_type = message_type,
                   msg_rpid = rpid, msg_pid = pid, msg_data = data\<rparr>))))))"

section \<open>The message codes\<close>

lemma dest_roundtrip [simp]: "dest_from_u32 (dest_to_u32 d) = Inr d"
  by (cases d) (simp_all add: dest_from_u32_def)

lemma first_chunk_InrE:
  assumes "rbind (ok_or (split_first_chunk n xs) e) f = Inr y"
  obtains a b where "xs = a @ b" "length a = n" "f (a, b) = Inr y"
  using assms by (auto simp: rbind_Inr_iff ok_or_def dest: split_first_chunk_SomeD split: option.splits)

lemma dest_from_u32_SomeD: "dest_from_u32 v = Inr d \<Longrightarrow> dest_to_u32 d = v"
  by (auto simp: dest_from_u32_def split: if_splits)

lemma mt_table_sound: "(v, mt) \<in> set mt_table \<Longrightarrow> mt_to_u32 mt = v"
  unfolding mt_table_def by auto

lemma mt_to_from [simp]: "mt_to_u32 (mt_from_u32 v) = v"
  by (auto simp: mt_from_u32_def dest: map_of_SomeD mt_table_sound split: option.split)

lemma mt_from_to: "mt_from_u32 (mt_to_u32 mt) = mt \<or> (\<exists>v. mt = Unknown v)"
  by (cases mt) (simp_all add: mt_from_u32_def mt_table_def)

lemma mt_from_to_known [simp]: "(\<And>v. mt \<noteq> Unknown v) \<Longrightarrow> mt_from_u32 (mt_to_u32 mt) = mt"
  using mt_from_to [of mt] by blast

section \<open>Encoding and decoding\<close>

text \<open>
  What decoding makes of an encoded message: a type held as \<open>Unknown\<close> although its code has a
  name gets that name, and one leading U+FEFF of the body is taken for a byte order mark.
\<close>

fun drop_bom :: "ustr \<Rightarrow> ustr" where
  "drop_bom (c # s) = (if c = BOM_CHAR then s else c # s)"
| "drop_bom [] = []"

definition canonical :: "psrp_message \<Rightarrow> psrp_message" where
  "canonical m = m\<lparr>msg_type := mt_from_u32 (mt_to_u32 (msg_type m)), msg_data := drop_bom (msg_data m)\<rparr>"

lemma valid_drop_bom: "valid_str s \<Longrightarrow> valid_str (drop_bom s)"
  by (cases s) auto

lemma as_bytes_BOM: "as_bytes (BOM_CHAR # s) = BOM @ as_bytes s"
  by (simp add: as_bytes_def BOM_def BOM_CHAR_def utf8_enc_char_def)

lemma utf8_char_BOM: "utf8_char (0xEF # 0xBB # 0xBF # bs) = Inr (BOM_CHAR, 3)"
  by (simp add: BOM_CHAR_def utf8_second3_def)

lemma strip_BOM_as_bytes:
  assumes "valid_str s"
  shows "(case strip_prefix BOM (as_bytes s) of Some b \<Rightarrow> b | None \<Rightarrow> as_bytes s) = as_bytes (drop_bom s)"
proof (cases "strip_prefix BOM (as_bytes s)")
  case None
  then have "\<not> (\<exists>t. s = BOM_CHAR # t)" by (auto simp: as_bytes_BOM)
  then have "drop_bom s = s" by (cases s) auto
  with None show ?thesis by simp
next
  case (Some b)
  then have "as_bytes s = BOM @ b" by (rule strip_prefix_SomeD)
  then have "Inr s = utf8_at 0 (map unat (BOM @ b))"
    using assms from_utf8_as_bytes [of s] by (simp add: from_utf8_def)
  also have "\<dots> = rbind (utf8_at 3 (map unat b)) (\<lambda>cs. Inr (BOM_CHAR # cs))"
    by (subst utf8_at.simps) (simp add: BOM_def utf8_char_BOM del: utf8_char.simps)
  finally obtain t where s: "s = BOM_CHAR # t" by (cases "utf8_at 3 (map unat b)") auto
  with Some show ?thesis by (simp add: as_bytes_BOM)
qed

context uuid_laws
begin

lemmas uuid_codec = length_to_bytes_le from_to_bytes_le to_from_bytes_le

lemma msg_decode_encode:
  assumes "valid_str (msg_data m)"
  shows "msg_decode U (msg_encode U m) = Inr (canonical m)"
  using strip_BOM_as_bytes [OF assms] valid_drop_bom [OF assms]
  by (simp add: msg_decode_def msg_encode_def Let_def uuid_codec canonical_def)

lemma length_msg_encode: "length (msg_encode U m) = HEADER_LEN + length (as_bytes (msg_data m))"
  by (simp add: msg_encode_def HEADER_LEN_def uuid_codec)

text \<open>What is accepted: the four header fields, then a body that is the UTF-8 text decoded.\<close>

lemma msg_decode_InrE:
  assumes "msg_decode U bs = Inr m"
  obtains body where "bs = take HEADER_LEN bs @ body" "HEADER_LEN \<le> length bs"
    "msg_encode U m
     = take HEADER_LEN bs @ (case strip_prefix BOM body of Some b \<Rightarrow> b | None \<Rightarrow> body)"
proof -
  from assms obtain dest rest1 where 1: "bs = dest @ rest1" "length dest = 4" 
      and *: "(\<lambda>bs'. msg_decode U bs' = Inr m) (dest @ rest1)"
    unfolding msg_decode_def Let_def by (elim first_chunk_InrE) (use assms in simp)
  from * obtain mt rest2 where 2: "rest1 = mt @ rest2" "length mt = 4"
    using 1(2) by (auto simp: msg_decode_def Let_def elim!: first_chunk_InrE)
  from * obtain r rest3 where 3: "rest2 = r @ rest3" "length r = 16"
    using 1(2) 2 by (auto simp: msg_decode_def Let_def elim!: first_chunk_InrE)
  from * obtain p body where 4: "rest3 = p @ body" "length p = 16"
    using 1(2) 2 3 by (auto simp: msg_decode_def Let_def elim!: first_chunk_InrE)
  note parts = 1 2 3 4
  have dest: "dest_from_u32 (u32_of_le dest) = Inr (msg_destination m)"
    and mt: "msg_type m = mt_from_u32 (u32_of_le mt)"
    and ids: "msg_rpid m = from_bytes_le U r" "msg_pid m = from_bytes_le U p"
    and body: "from_utf8 (case strip_prefix BOM body of Some b \<Rightarrow> b | None \<Rightarrow> body)
      = Inr (msg_data m)"
    using assms parts
    by (cases "from_utf8 (case strip_prefix BOM body of Some b \<Rightarrow> b | None \<Rightarrow> body)";
        auto simp: msg_decode_def Let_def rbind_Inr_iff)+
  have "msg_encode U m
      = (dest @ mt @ r @ p) @ (case strip_prefix BOM body of Some b \<Rightarrow> b | None \<Rightarrow> body)"
    using dest_from_u32_SomeD [OF dest] as_bytes_from_utf8 [OF body] parts mt ids
    by (simp add: msg_encode_def u32_of_le_inverse uuid_codec)
  moreover have "take HEADER_LEN bs = dest @ mt @ r @ p" "HEADER_LEN \<le> length bs"
    using parts by (simp_all add: HEADER_LEN_def)
  moreover have "bs = (dest @ mt @ r @ p) @ body" using parts by simp
  ultimately show thesis using that by metis
qed

end

lemma msg_decode_short:
  assumes "length bs < HEADER_LEN"
  shows "msg_decode U bs =
    Inl (protocol (lit ''message too short: '' @ show_nat (length bs) @ lit '' bytes''))"
  using assms by (auto simp: msg_decode_def split_first_chunk_def Let_def HEADER_LEN_def)

section \<open>Properties\<close>

text \<open>
  C3: a message survives the wire: decoding its encoding gives the message back, with a type held
  as \<open>Unknown\<close> replaced by the name of its code and without one leading byte order mark in the
  body; a message of a named type whose body does not start with U+FEFF comes back unchanged.
\<close>

theorem message_roundtrip:
  assumes "uuid_laws U" "valid_str (msg_data m)"
  shows "msg_decode U (msg_encode U m) = Inr (canonical m)
    \<and> ((\<forall>v. msg_type m \<noteq> Unknown v) \<and> drop_bom (msg_data m) = msg_data m \<longrightarrow> canonical m = m)"
  using uuid_laws.msg_decode_encode [OF assms]
  by (cases m) (simp add: canonical_def)

theorem message_roundtrip_witness:
  "msg_decode rfc_uuid (msg_encode rfc_uuid
      \<lparr>msg_destination = Server, msg_type = CreatePipeline, msg_rpid = 1, msg_pid = 2,
       msg_data = lit ''<Obj/>''\<rparr>)
   = Inr \<lparr>msg_destination = Server, msg_type = CreatePipeline, msg_rpid = 1, msg_pid = 2,
       msg_data = lit ''<Obj/>''\<rparr>"
  using message_roundtrip [OF rfc.uuid_laws_axioms,
      of "\<lparr>msg_destination = Server, msg_type = CreatePipeline, msg_rpid = 1, msg_pid = 2,
       msg_data = lit ''<Obj/>''\<rparr>"]
  by (simp add: lit_def BOM_CHAR_def scalar_def)

text \<open>
  The decoder accepts nothing but encodings: when it returns a message, that message encodes
  to the very bytes decoded, except that a byte order mark in front of the body is dropped; in
  particular at least the 40 header bytes were there and the body was valid UTF-8.
\<close>

lemma message_decode_exact:
  assumes "uuid_laws U" "msg_decode U bs = Inr m"
  shows "HEADER_LEN \<le> length bs
    \<and> (msg_encode U m = bs
       \<or> (\<exists>body. bs = take HEADER_LEN bs @ BOM @ body
             \<and> msg_encode U m = take HEADER_LEN bs @ body))"
proof -
  from assms(2) obtain body where body: "bs = take HEADER_LEN bs @ body" "HEADER_LEN \<le> length bs"
    "msg_encode U m
     = take HEADER_LEN bs @ (case strip_prefix BOM body of Some b \<Rightarrow> b | None \<Rightarrow> body)"
    by (rule uuid_laws.msg_decode_InrE [OF assms(1)])
  show ?thesis
  proof (cases "strip_prefix BOM body")
    case None
    then have "msg_encode U m = bs" using body(3) body(1) [symmetric] by simp
    then show ?thesis using body(2) by blast
  next
    case (Some b)
    then have "bs = take HEADER_LEN bs @ BOM @ b" using body(1) strip_prefix_SomeD [OF Some] by simp
    then show ?thesis using body(2,3) Some by auto
  qed
qed

lemma message_decode_exact_witness:
  "HEADER_LEN \<le> length (msg_encode rfc_uuid (to_server CreatePipeline 1 2 [65]))"
proof -
  let ?m = "to_server CreatePipeline 1 2 [65]"
  have "msg_decode rfc_uuid (msg_encode rfc_uuid ?m) = Inr (canonical ?m)"
    by (rule rfc.msg_decode_encode) (simp add: to_server_def scalar_def)
  from message_decode_exact [OF rfc.uuid_laws_axioms this] show ?thesis by blast
qed

end
