(* ===== verification/Base64.thy ===== *)
theory Base64
  imports Unicode
begin

text \<open>
  The base64 codec of \<open>src/src/clixml/encode.rs\<close>, on bytes with their bit operations as the
  code has them: the encoder works on chunks of three bytes, the decoder drops the four white
  space characters, checks the padding and shifts the symbols through a 32-bit accumulator.
\<close>

section \<open>The encoder\<close>

definition ALPHABET :: ustr where
  "ALPHABET = lit ''ABCDEFGHIJKLMNOPQRSTUVWXYZabcdefghijklmnopqrstuvwxyz0123456789+/''"

definition base64_char :: "u8 \<Rightarrow> uchar" where
  "base64_char sextet = ALPHABET ! unat (sextet AND 0x3F)"

fun base64_encode :: "bytes \<Rightarrow> ustr" where
  "base64_encode [] = []"
| "base64_encode [b0] =
     [base64_char (drop_bit 2 b0), base64_char (push_bit 4 (b0 AND 0x03)), 61, 61]"
| "base64_encode [b0, b1] =
     [base64_char (drop_bit 2 b0), base64_char (push_bit 4 (b0 AND 0x03) OR drop_bit 4 b1),
      base64_char (push_bit 2 (b1 AND 0x0F)), 61]"
| "base64_encode (b0 # b1 # b2 # bs) =
     [base64_char (drop_bit 2 b0), base64_char (push_bit 4 (b0 AND 0x03) OR drop_bit 4 b1),
      base64_char (push_bit 2 (b1 AND 0x0F) OR drop_bit 6 b2), base64_char b2]
     @ base64_encode bs"

section \<open>The decoder\<close>

definition base64_symbol :: "u8 \<Rightarrow> u8 option" where
  "base64_symbol b =
     (if 65 \<le> b \<and> b \<le> 90 then Some (b - 65)
      else if 97 \<le> b \<and> b \<le> 122 then Some (b - 97 + 26)
      else if 48 \<le> b \<and> b \<le> 57 then Some (b - 48 + 52)
      else if b = 43 then Some 62
      else if b = 47 then Some 63
      else None)"

fun base64_loop :: "u32 \<Rightarrow> nat \<Rightarrow> bytes \<Rightarrow> bytes \<Rightarrow> bytes option" where
  "base64_loop buf bits out [] = Some out"
| "base64_loop buf bits out (b # bs) =
     (case base64_symbol b of
        None \<Rightarrow> None
      | Some v \<Rightarrow>
          let buf = push_bit 6 buf OR ucast v;
              bits = bits + 6
          in if 8 \<le> bits
             then base64_loop buf (bits - 8) (out @ [ucast (drop_bit (bits - 8) buf)]) bs
             else base64_loop buf bits out bs)"

definition base64_skipped :: "u8 \<Rightarrow> bool" where
  "base64_skipped b \<longleftrightarrow> b = 32 \<or> b = 9 \<or> b = 13 \<or> b = 10"

definition base64_decode :: "ustr \<Rightarrow> bytes option" where
  "base64_decode s =
    (let symbols = filter (\<lambda>b. \<not> base64_skipped b) (as_bytes s) in
     if length symbols mod 4 \<noteq> 0 then None
     else
       let padding = length (takeWhile (\<lambda>b. b = 61) (rev symbols)) in
       if padding > 2 then None
       else base64_loop 0 0 [] (take (length symbols - padding) symbols))"

section \<open>Symbols\<close>

lemma length_ALPHABET: "length ALPHABET = 64"
  by (simp add: ALPHABET_def)

lemma base64_symbol_table:
  "list_all (\<lambda>(n, c). base64_symbol (of_nat c) = Some (of_nat n) \<and> c < 128 \<and> c \<noteq> 61
       \<and> \<not> base64_skipped (of_nat c)) (enumerate 0 ALPHABET)"
  by code_simp

lemma base64_symbol_nth:
  assumes "n < 64"
  shows "base64_symbol (of_nat (ALPHABET ! n)) = Some (of_nat n) \<and> ALPHABET ! n < 128
    \<and> ALPHABET ! n \<noteq> 61 \<and> \<not> base64_skipped (of_nat (ALPHABET ! n))"
proof -
  have "(n, ALPHABET ! n) \<in> set (enumerate 0 ALPHABET)"
    using assms by (simp add: in_set_enumerate_eq length_ALPHABET)
  then show ?thesis using base64_symbol_table unfolding list_all_iff by blast
qed

definition base64_byte :: "u8 \<Rightarrow> u8" where
  "base64_byte sextet = of_nat (base64_char sextet)"

lemma sextet_less: "unat (x AND 0x3F :: u8) < 64"
proof -
  have "x AND 0x3F = take_bit 6 x" by (simp add: take_bit_eq_mask mask_eq_exp_minus_1)
  then have "unat (x AND 0x3F) = take_bit 6 (unat x)" by (simp add: unsigned_take_bit_eq)
  then show ?thesis by (simp add: take_bit_nat_less_exp [of 6, simplified])
qed

lemma base64_byte_facts:
  "base64_symbol (base64_byte x) = Some (x AND 0x3F)" "base64_char x < 128"
  "base64_byte x \<noteq> 61" "\<not> base64_skipped (base64_byte x)"
proof -
  have "base64_char x < 128 \<and> base64_char x \<noteq> 61 \<and> base64_symbol (base64_byte x) = Some (x AND 0x3F)
      \<and> \<not> base64_skipped (base64_byte x)"
    using base64_symbol_nth [OF sextet_less [of x]] by (simp add: base64_byte_def base64_char_def)
  moreover from this have "unat (base64_byte x) \<noteq> 61" by (simp add: base64_byte_def)
  ultimately show "base64_symbol (base64_byte x) = Some (x AND 0x3F)" "base64_char x < 128"
    "base64_byte x \<noteq> 61" "\<not> base64_skipped (base64_byte x)"
    by auto
qed

text \<open>The bytes of the encoder's text.\<close>

fun base64_bytes :: "bytes \<Rightarrow> bytes" where
  "base64_bytes [] = []"
| "base64_bytes [b0] = [base64_byte (drop_bit 2 b0), base64_byte (push_bit 4 (b0 AND 0x03))]"
| "base64_bytes [b0, b1] =
     [base64_byte (drop_bit 2 b0), base64_byte (push_bit 4 (b0 AND 0x03) OR drop_bit 4 b1),
      base64_byte (push_bit 2 (b1 AND 0x0F))]"
| "base64_bytes (b0 # b1 # b2 # bs) =
     [base64_byte (drop_bit 2 b0), base64_byte (push_bit 4 (b0 AND 0x03) OR drop_bit 4 b1),
      base64_byte (push_bit 2 (b1 AND 0x0F) OR drop_bit 6 b2), base64_byte b2]
     @ base64_bytes bs"

fun base64_padding :: "bytes \<Rightarrow> nat" where
  "base64_padding [] = 0"
| "base64_padding [b0] = 2"
| "base64_padding [b0, b1] = 1"
| "base64_padding (b0 # b1 # b2 # bs) = base64_padding bs"

lemma as_bytes_base64_char: "as_bytes (base64_char x # s) = base64_byte x # as_bytes s"
  using base64_byte_facts(2) [of x] by (simp add: as_bytes_def utf8_enc_char_def base64_byte_def)

lemma as_bytes_pad: "as_bytes (61 # s) = 61 # as_bytes s"
  by (simp add: as_bytes_def utf8_enc_char_def)

lemma as_bytes_base64_encode:
  "as_bytes (base64_encode bs) = base64_bytes bs @ replicate (base64_padding bs) 61"
  by (induction bs rule: base64_encode.induct)
    (simp_all add: as_bytes_base64_char as_bytes_pad numeral_2_eq_2)

lemma base64_bytes_no_pad: "b \<in> set (base64_bytes bs) \<Longrightarrow> b \<noteq> 61 \<and> \<not> base64_skipped b"
  by (induction bs rule: base64_bytes.induct) (auto simp: base64_byte_facts)

lemma length_base64_bytes: "length (base64_bytes bs) + base64_padding bs = 4 * ((length bs + 2) div 3)"
proof (induction bs rule: base64_bytes.induct)
  case (4 b0 b1 b2 bs)
  have "(length bs + 3 + 2) div 3 = (length bs + 2) div 3 + 1" by simp
  with 4 show ?case by (simp add: add.commute)
qed simp_all

section \<open>The accumulator\<close>

lemma small_cases:
  "(n :: nat) < 8 \<Longrightarrow> n = 0 \<or> n = 1 \<or> n = 2 \<or> n = 3 \<or> n = 4 \<or> n = 5 \<or> n = 6 \<or> n = 7"
  by auto

lemma byte_high_bits [simp]: "8 \<le> n \<Longrightarrow> \<not> bit (b :: u8) n"
  using bit_imp_le_length [of b n] by auto

lemma accumulator_bytes:
  fixes buf :: u32 and b0 b1 b2 :: u8
  defines "s0 \<equiv> drop_bit 2 b0 AND 0x3F"
    and "s1 \<equiv> (push_bit 4 (b0 AND 0x03) OR drop_bit 4 b1) AND 0x3F"
    and "s2 \<equiv> (push_bit 2 (b1 AND 0x0F) OR drop_bit 6 b2) AND 0x3F"
    and "s3 \<equiv> b2 AND 0x3F"
  shows "ucast (drop_bit 4 (push_bit 6 (push_bit 6 buf OR ucast s0) OR ucast s1)) = b0"
    "ucast (drop_bit 2 (push_bit 6 (push_bit 6 buf OR ucast s1) OR ucast s2)) = b1"
    "ucast (push_bit 6 (push_bit 6 buf OR ucast s2) OR ucast s3) = b2"
  unfolding assms
  by (rule bit_word_eqI, drule small_cases [OF less_le_trans], simp,
      elim disjE; simp add: bit_simps)+

lemma base64_loop_bytes: "base64_loop buf 0 out (base64_bytes bs) = Some (out @ bs)"
proof (induction bs arbitrary: buf out rule: base64_bytes.induct)
  case (2 b0)
  then show ?case using accumulator_bytes(1) [of buf b0 0]
    by (simp add: base64_byte_facts)
next
  case (3 b0 b1)
  then show ?case using accumulator_bytes(1) [of _ b0 b1] accumulator_bytes(2) [of _ b0 b1 0]
    by (simp add: base64_byte_facts Let_def)
next
  case (4 b0 b1 b2 bs)
  then show ?case using accumulator_bytes
    by (simp add: base64_byte_facts Let_def)
qed simp

lemma takeWhile_replicate_end:
  "(\<And>x. x \<in> set xs \<Longrightarrow> x \<noteq> p) \<Longrightarrow> takeWhile (\<lambda>b. b = p) (replicate n p @ xs) = replicate n p"
  by (induction n) (auto simp: takeWhile_eq_Nil_iff dest: hd_in_set)

lemma base64_padding_le: "base64_padding bs \<le> 2"
  by (induction bs rule: base64_padding.induct) simp_all

lemma base64_decode_filtered:
  assumes "filter (\<lambda>b. \<not> base64_skipped b) (as_bytes s) = as_bytes (base64_encode bs)"
  shows "base64_decode s = Some bs"
proof -
  let ?p = "base64_padding bs"
  have symbols: "filter (\<lambda>b. \<not> base64_skipped b) (as_bytes s) = base64_bytes bs @ replicate ?p 61"
    using assms as_bytes_base64_encode by simp
  have "takeWhile (\<lambda>b. b = 61) (replicate ?p 61 @ rev (base64_bytes bs)) = replicate ?p 61"
    by (rule takeWhile_replicate_end) (use base64_bytes_no_pad in auto)
  then show ?thesis
    using base64_padding_le [of bs] length_base64_bytes [of bs] base64_loop_bytes [of 0 "[]" bs]
    by (simp add: base64_decode_def symbols Let_def)
qed

lemma base64_decode_encode [simp]: "base64_decode (base64_encode bs) = Some bs"
proof (rule base64_decode_filtered)
  have "\<not> base64_skipped b" if "b \<in> set (as_bytes (base64_encode bs))" for b
    using that base64_bytes_no_pad [of b bs]
    by (auto simp: as_bytes_base64_encode base64_skipped_def)
  then show "filter (\<lambda>b. \<not> base64_skipped b) (as_bytes (base64_encode bs)) = as_bytes (base64_encode bs)"
    by simp
qed

lemma base64_char_range: "base64_char x < 128 \<and> base64_char x \<noteq> 60 \<and> base64_char x \<noteq> 38 \<and> base64_char x \<noteq> 95"
proof -
  have "list_all (\<lambda>c. c < 128 \<and> c \<noteq> 60 \<and> c \<noteq> 38 \<and> c \<noteq> 95) ALPHABET" by code_simp
  then show ?thesis using sextet_less [of x]
    by (simp add: base64_char_def list_all_iff length_ALPHABET)
qed

lemma base64_encode_chars:
  "c \<in> set (base64_encode bs) \<Longrightarrow> c < 128 \<and> c \<noteq> 60 \<and> c \<noteq> 38 \<and> c \<noteq> 95"
  by (induction bs rule: base64_encode.induct) (auto simp: base64_char_range)

lemma valid_base64 [simp]: "valid_str (base64_encode bs)"
  using base64_encode_chars [of _ bs] by (force simp: list_all_iff scalar_def)

lemma length_base64_encode: "length (base64_encode bs) = 4 * ((length bs + 2) div 3)"
proof (induction bs rule: base64_encode.induct)
  case (4 b0 b1 b2 bs)
  have "(length bs + 3 + 2) div 3 = (length bs + 2) div 3 + 1" by simp
  with 4 show ?case by (simp add: add.commute)
qed simp_all

section \<open>What is refused\<close>

lemma base64_loop_length:
  "base64_loop buf bits out bs = Some r \<Longrightarrow> bits < 8 \<Longrightarrow> length r = length out + (bits + 6 * length bs) div 8"
proof (induction buf bits out bs arbitrary: r rule: base64_loop.induct)
  case (2 buf bits out b bs)
  then obtain v where v: "base64_symbol b = Some v" by (auto split: option.splits)
  show ?case
  proof (cases "8 \<le> bits + 6")
    case True
    then have "bits + 6 * length (b # bs) = bits + 6 - 8 + 6 * length bs + 8" by simp
    then have "(bits + 6 * length (b # bs)) div 8 = Suc ((bits + 6 - 8 + 6 * length bs) div 8)"
      by (metis One_nat_def add_0_right add_Suc_right div_add_self2 zero_neq_numeral)
    with 2 v True show ?thesis by (simp add: Let_def)
  next
    case False
    with 2 v show ?thesis by (simp add: Let_def algebra_simps)
  qed
qed simp

lemma base64_loop_None_iff:
  "base64_loop buf bits out bs = None \<longleftrightarrow> (\<exists>b\<in>set bs. base64_symbol b = None)"
  by (induction buf bits out bs rule: base64_loop.induct) (auto simp: Let_def split: option.splits)

text \<open>The bytes of \<open>s\<close> that are not skipped, and how many of them are trailing padding.\<close>

definition symbols_of :: "ustr \<Rightarrow> bytes" where
  "symbols_of s = filter (\<lambda>b. \<not> base64_skipped b) (as_bytes s)"

definition padding_of :: "ustr \<Rightarrow> nat" where
  "padding_of s = length (takeWhile (\<lambda>b. b = 61) (rev (symbols_of s)))"

definition well_formed_base64 :: "ustr \<Rightarrow> bool" where
  "well_formed_base64 s \<longleftrightarrow>
     length (symbols_of s) mod 4 = 0 \<and> padding_of s \<le> 2
     \<and> (\<forall>b\<in>set (take (length (symbols_of s) - padding_of s) (symbols_of s)). base64_symbol b \<noteq> None)"

lemma base64_decode_symbols:
  "base64_decode s =
     (if length (symbols_of s) mod 4 = 0 \<and> padding_of s \<le> 2
      then base64_loop 0 0 [] (take (length (symbols_of s) - padding_of s) (symbols_of s)) else None)"
  by (simp add: base64_decode_def symbols_of_def padding_of_def Let_def)

lemma base64_decode_iff: "base64_decode s = None \<longleftrightarrow> \<not> well_formed_base64 s"
proof (cases "length (symbols_of s) mod 4 = 0 \<and> padding_of s \<le> 2")
  case True
  then have "base64_decode s
      = base64_loop 0 0 [] (take (length (symbols_of s) - padding_of s) (symbols_of s))"
    unfolding base64_decode_symbols by (rule if_P)
  then show ?thesis using True unfolding well_formed_base64_def by (metis base64_loop_None_iff)
next
  case False
  then have "base64_decode s = None" unfolding base64_decode_symbols by (rule if_not_P)
  then show ?thesis using False unfolding well_formed_base64_def by (metis (full_types))
qed

lemma length_base64_decode:
  assumes "base64_decode s = Some bs"
  shows "4 * length bs + 4 * padding_of s = 3 * length (symbols_of s)"
proof -
  let ?n = "length (symbols_of s)" and ?p = "padding_of s"
  have wf: "?n mod 4 = 0" "?p \<le> 2"
    using assms base64_decode_iff [of s] unfolding well_formed_base64_def by auto
  have "?p \<le> ?n" unfolding padding_of_def
    by (metis length_rev length_takeWhile_le)
  have loop: "base64_loop 0 0 [] (take (?n - ?p) (symbols_of s)) = Some bs"
    using assms wf by (simp add: base64_decode_symbols)
  have "length bs = 6 * (?n - ?p) div 8"
    using base64_loop_length [OF loop] by simp
  moreover obtain k where "?n = 4 * k" using wf(1) by (auto elim: dvdE)
  moreover have "?p = 0 \<or> ?p = 1 \<or> ?p = 2" using wf(2) by auto
  ultimately show ?thesis using \<open>?p \<le> ?n\<close> by (cases k) (auto, presburger+)
qed

section \<open>Properties\<close>

text \<open>
  Base64 round trip: a text that is the encoding of some bytes once its spaces, tabs, CRs and
  LFs are removed decodes to these bytes, and the encoding has four characters for every group of
  three bytes begun.
\<close>

lemma base64_roundtrip:
  assumes "filter (\<lambda>b. \<not> base64_skipped b) (as_bytes s) = as_bytes (base64_encode bs)"
  shows "base64_decode s = Some bs \<and> length (base64_encode bs) = 4 * ((length bs + 2) div 3)"
  using base64_decode_filtered [OF assms] length_base64_encode [of bs] by blast

lemma base64_roundtrip_witness:
  "base64_decode (lit ''AQ I='' @ [10]) = Some [1, 2] \<and> length (base64_encode [1, 2]) = 4"
proof -
  have "filter (\<lambda>b. \<not> base64_skipped b) (as_bytes (lit ''AQ I='' @ [10]))
      = as_bytes (base64_encode [1, 2])"
    by code_simp
  from base64_roundtrip [OF this] show ?thesis by simp
qed

text \<open>
  The decoder refuses everything else: it returns bytes exactly for texts whose symbols (all
  characters but the four skipped ones) number a multiple of four, end in at most two \<open>=\<close> and
  are otherwise of the alphabet; and it returns three bytes for every four symbols, less one for
  each padding character.
\<close>

lemma base64_decode_exact:
  "(base64_decode s = None) = (\<not> well_formed_base64 s)
   \<and> (case base64_decode s of None \<Rightarrow> True
      | Some bs \<Rightarrow> 4 * length bs + 4 * padding_of s = 3 * length (symbols_of s))"
  using base64_decode_iff [of s] length_base64_decode [of s] by (auto split: option.split)

end
