(* ===== verification/Escapes.thy ===== *)
theory Escapes
  imports Unicode
begin

text \<open>
  The text layer of CLIXML: \<open>escape\<close> and \<open>escape_attr\<close> of \<open>src/src/clixml/encode.rs\<close> (XML
  entities for the five markup characters, \<open>_xHHHH_\<close> for control characters and for a \<open>_\<close>
  that would open an escape), and \<open>decode_pwsh_escapes\<close> of \<open>src/src/clixml/decode.rs\<close>,
  which reads runs of escapes as UTF-16.  Text slices by byte offsets are taken on character
  boundaries, as \<open>str::get\<close> and \<open>str::split_at_checked\<close> do.
\<close>

section \<open>The encoder\<close>

definition UNDERSCORE :: uchar where "UNDERSCORE = 0x5F"

definition pwsh_unit :: "uchar \<Rightarrow> ustr" where
  "pwsh_unit c = lit ''_x'' @ hex4 c @ lit ''_''"

definition escape_char :: "bool \<Rightarrow> uchar \<Rightarrow> uchar option \<Rightarrow> ustr" where
  "escape_char attribute c peek =
     (if c = 0x3C then lit ''&lt;''
      else if c = 0x3E then lit ''&gt;''
      else if c = 0x26 then lit ''&amp;''
      else if c = 0x22 then lit ''&quot;''
      else if c = 0x27 then lit ''&apos;''
      else if c = UNDERSCORE \<and> (peek = Some 0x78 \<or> peek = Some 0x58) then lit ''_x005F_''
      else if (c = 9 \<or> c = 10) \<and> attribute then pwsh_unit c
      else if c < 0x20 \<and> c \<noteq> 9 \<and> c \<noteq> 10 then pwsh_unit c
      else [c])"

fun escape_inner :: "bool \<Rightarrow> ustr \<Rightarrow> ustr" where
  "escape_inner attribute [] = []"
| "escape_inner attribute (c # cs) =
     escape_char attribute c (case cs of [] \<Rightarrow> None | d # _ \<Rightarrow> Some d) @ escape_inner attribute cs"

definition escape :: "ustr \<Rightarrow> ustr" where "escape s = escape_inner False s"
definition escape_attr :: "ustr \<Rightarrow> ustr" where "escape_attr s = escape_inner True s"

section \<open>The decoder\<close>

text \<open>\<open>str::split_at_checked\<close>: \<open>None\<close> off a character boundary or past the end.\<close>

fun split_at_checked :: "nat \<Rightarrow> ustr \<Rightarrow> (ustr \<times> ustr) option" where
  "split_at_checked 0 s = Some ([], s)"
| "split_at_checked (Suc n) [] = None"
| "split_at_checked (Suc n) (c # s) =
     (if length (utf8_enc_char c) \<le> Suc n
      then map_option (\<lambda>(a, b). (c # a, b)) (split_at_checked (Suc n - length (utf8_enc_char c)) s)
      else None)"

definition strip_suffix :: "ustr \<Rightarrow> ustr \<Rightarrow> ustr option" where
  "strip_suffix suf s = map_option rev (strip_prefix (rev suf) (rev s))"

definition split_pwsh_escape :: "ustr \<Rightarrow> (nat \<times> ustr) option" where
  "split_pwsh_escape s =
     (case split_at_checked 7 s of
        None \<Rightarrow> None
      | Some (start, tail) \<Rightarrow>
          (case strip_prefix (lit ''_x'') start of
             None \<Rightarrow> None
           | Some t \<Rightarrow>
               (case strip_suffix (lit ''_'') t of
                  None \<Rightarrow> None
                | Some hex \<Rightarrow>
                    (case from_str_radix 16 0 65535 hex of
                       Inl _ \<Rightarrow> None
                     | Inr u \<Rightarrow> Some (nat u, tail)))))"

lemma split_at_checked_SomeD:
  "split_at_checked n s = Some (a, b) \<Longrightarrow> s = a @ b \<and> utf8_len a = n"
  by (induction n s arbitrary: a b rule: split_at_checked.induct)
    (auto simp: utf8_len_def as_bytes_def split: if_splits)

lemma split_pwsh_escape_shorter: "split_pwsh_escape s = Some (u, t) \<Longrightarrow> length t < length s"
  by (cases "split_at_checked 7 s")
    (auto simp: split_pwsh_escape_def dest!: split_at_checked_SomeD split: option.splits sum.splits,
     auto simp: utf8_len_def as_bytes_def dest: gr0I)

text \<open>
  The loop: a run of escapes is collected in \<open>units\<close>; when it ends it is decoded (unpaired
  surrogates become U+FFFD), one character is copied and then the text up to the next \<open>_\<close>.
\<close>

function decode_loop :: "nat list \<Rightarrow> ustr \<Rightarrow> ustr" where
  "decode_loop units rest =
     (case split_pwsh_escape rest of
        Some (unit, tail) \<Rightarrow> decode_loop (units @ [unit]) tail
      | None \<Rightarrow>
          utf16_lossy units
          @ (case rest of
               [] \<Rightarrow> []
             | first # after \<Rightarrow>
                 first # takeWhile (\<lambda>c. c \<noteq> UNDERSCORE) after
                 @ decode_loop [] (dropWhile (\<lambda>c. c \<noteq> UNDERSCORE) after)))"
  by pat_completeness auto
termination
  by (relation "measure (\<lambda>(units, rest). length rest)")
    (auto dest: split_pwsh_escape_shorter simp: length_dropWhile_le le_imp_less_Suc)

declare decode_loop.simps [simp del]

definition decode_pwsh_escapes :: "ustr \<Rightarrow> ustr" where
  "decode_pwsh_escapes s = decode_loop [] s"

section \<open>Two layers\<close>

text \<open>
  The encoder's text is the XML form of a text in which only the \<open>_xHHHH_\<close> escapes have been
  made; \<open>xml_unescape\<close> resolves the five predefined entities again.
\<close>

definition pwsh_char :: "bool \<Rightarrow> uchar \<Rightarrow> uchar option \<Rightarrow> ustr" where
  "pwsh_char attribute c peek =
     (if c = UNDERSCORE \<and> (peek = Some 0x78 \<or> peek = Some 0x58) then pwsh_unit c
      else if c < 0x20 \<and> (attribute \<or> (c \<noteq> 9 \<and> c \<noteq> 10)) then pwsh_unit c
      else [c])"

fun pwsh_escape :: "bool \<Rightarrow> ustr \<Rightarrow> ustr" where
  "pwsh_escape attribute [] = []"
| "pwsh_escape attribute (c # cs) =
     pwsh_char attribute c (case cs of [] \<Rightarrow> None | d # _ \<Rightarrow> Some d) @ pwsh_escape attribute cs"

definition xml_char :: "uchar \<Rightarrow> ustr" where
  "xml_char c =
     (if c = 0x3C then lit ''&lt;''
      else if c = 0x3E then lit ''&gt;''
      else if c = 0x26 then lit ''&amp;''
      else if c = 0x22 then lit ''&quot;''
      else if c = 0x27 then lit ''&apos;''
      else [c])"

definition xml_escape :: "ustr \<Rightarrow> ustr" where
  "xml_escape s = concat (map xml_char s)"

lemma hex_digit_upper_plain: "d < 16 \<Longrightarrow> xml_char (hex_digit_upper d) = [hex_digit_upper d]"
  by (auto simp: xml_char_def hex_digit_upper_def)

lemma xml_escape_append [simp]: "xml_escape (s @ t) = xml_escape s @ xml_escape t"
  by (simp add: xml_escape_def)

lemma xml_escape_pwsh_unit [simp]: "xml_escape (pwsh_unit c) = pwsh_unit c"
  by (simp add: xml_escape_def pwsh_unit_def hex4_def hex_digit_upper_plain lit_def)
    (simp add: xml_char_def)

lemma pwsh_unit_underscore: "pwsh_unit UNDERSCORE = lit ''_x005F_''"
  by (simp add: pwsh_unit_def hex4_def hex_digit_upper_def UNDERSCORE_def lit_def)

lemma escape_char_layers: "escape_char a c p = xml_escape (pwsh_char a c p)"
  by (auto simp: escape_char_def pwsh_char_def pwsh_unit_underscore [symmetric] UNDERSCORE_def)
    (auto simp: xml_escape_def xml_char_def)

lemma escape_inner_layers: "escape_inner a s = xml_escape (pwsh_escape a s)"
  by (induction s) (simp_all add: escape_char_layers xml_escape_def [of "[]"])

section \<open>The escape layer is undone by the decoder\<close>

lemma base16_digits:
  fixes n :: nat
  assumes "n < 65536"
  shows "n = 4096 * (n div 4096 mod 16) + 256 * (n div 256 mod 16) + 16 * (n div 16 mod 16) + n mod 16"
proof -
  have "n div 256 = n div 16 div 16" "n div 4096 = n div 256 div 16"
    by (simp_all add: div_mult2_eq [symmetric])
  then have "n = 16 * (n div 16) + n mod 16" "n div 16 = 16 * (n div 256) + n div 16 mod 16"
    "n div 256 = 16 * (n div 4096) + n div 256 mod 16" by simp_all
  moreover have "n div 4096 mod 16 = n div 4096" using assms by simp
  ultimately show ?thesis by linarith
qed

lemma to_digit_hex_upper: "d < 16 \<Longrightarrow> to_digit 16 (hex_digit_upper d) = Some d"
  by (auto simp: to_digit_def hex_digit_upper_def)

lemma hex_digit_upper_range: "d < 16 \<Longrightarrow> 48 \<le> hex_digit_upper d \<and> hex_digit_upper d \<le> 70"
  by (simp add: hex_digit_upper_def)

lemma from_str_radix_hex4:
  assumes "n < 65536"
  shows "from_str_radix 16 0 65535 (hex4 n) = Inr (int n)"
proof -
  define a b c d where "a = n div 4096 mod 16" and "b = n div 256 mod 16"
    and "c = n div 16 mod 16" and "d = n mod 16"
  have less: "a < 16" "b < 16" "c < 16" "d < 16" by (simp_all add: a_def b_def c_def d_def)
  have n: "n = 4096 * a + 256 * b + 16 * c + d"
    using base16_digits [OF assms] unfolding a_def b_def c_def d_def .
  have "parse_pos 16 65535 0 (map hex_digit_upper [a, b, c, d]) = Inr (int n)"
    using less n by (simp add: to_digit_hex_upper)
  moreover have "hex_digit_upper a \<noteq> 43" "hex_digit_upper a \<noteq> 45"
    using hex_digit_upper_range [OF less(1)] by auto
  moreover have "hex4 n = map hex_digit_upper [a, b, c, d]"
    by (simp add: hex4_def a_def b_def c_def d_def)
  ultimately show ?thesis by (simp add: from_str_radix_def)
qed

lemma split_at_checked_ascii:
  "(\<And>c. c \<in> set a \<Longrightarrow> c < 128) \<Longrightarrow> split_at_checked (length a) (a @ t) = Some (a, t)"
  by (induction a) (auto simp: utf8_enc_char_def)

lemma hex4_ascii: "c \<in> set (hex4 n) \<Longrightarrow> c < 128" (is "_ \<Longrightarrow> ?thesis")
proof -
  assume "c \<in> set (hex4 n)"
  then obtain d where "c = hex_digit_upper d" "d < 16" by (auto simp: hex4_def)
  then show ?thesis using hex_digit_upper_range [of d] by simp
qed

lemma pwsh_unit_ascii: "c \<in> set (pwsh_unit n) \<Longrightarrow> c < 128"
  by (auto simp: pwsh_unit_def lit_def hex4_ascii)

lemma length_pwsh_unit: "length (pwsh_unit n) = 7"
  by (simp add: pwsh_unit_def hex4_def)

lemma strip_suffix_append: "strip_suffix suf (s @ suf) = Some s"
  by (simp add: strip_suffix_def)

lemma split_pwsh_escape_unit:
  assumes "n < 65536"
  shows "split_pwsh_escape (pwsh_unit n @ t) = Some (n, t)"
proof -
  have "split_at_checked 7 (pwsh_unit n @ t) = Some (pwsh_unit n, t)"
    using split_at_checked_ascii [of "pwsh_unit n" t] pwsh_unit_ascii [of _ n]
    by (simp add: length_pwsh_unit)
  then show ?thesis
    using from_str_radix_hex4 [OF assms]
    by (simp add: split_pwsh_escape_def pwsh_unit_def strip_suffix_append)
qed

lemma split_pwsh_escape_start:
  assumes "split_pwsh_escape s = Some u"
  obtains t where "s = UNDERSCORE # 0x78 # t"
proof -
  from assms obtain start tail where s: "s = start @ tail" and p: "strip_prefix (lit ''_x'') start \<noteq> None"
    by (auto simp: split_pwsh_escape_def split: option.splits dest!: split_at_checked_SomeD)
  then obtain r where "start = lit ''_x'' @ r" by (auto dest: strip_prefix_SomeD)
  with s that show thesis by (simp add: lit_def UNDERSCORE_def)
qed

lemma split_pwsh_escape_other:
  assumes "\<nexists>t. s = UNDERSCORE # 0x78 # t"
  shows "split_pwsh_escape s = None"
  using assms by (cases "split_pwsh_escape s") (auto elim: split_pwsh_escape_start)

lemma pwsh_char_cases:
  obtains (unit) "c < 0x80" "pwsh_char a c p = pwsh_unit c"
  | (plain) "pwsh_char a c p = [c]" "\<not> (c = UNDERSCORE \<and> (p = Some 0x78 \<or> p = Some 0x58))"
proof -
  consider (u) "c = UNDERSCORE" "p = Some 0x78 \<or> p = Some 0x58"
    | (v) "\<not> (c = UNDERSCORE \<and> (p = Some 0x78 \<or> p = Some 0x58))"
        "c < 0x20 \<and> (a \<or> (c \<noteq> 9 \<and> c \<noteq> 10))"
    | (w) "\<not> (c = UNDERSCORE \<and> (p = Some 0x78 \<or> p = Some 0x58))"
        "\<not> (c < 0x20 \<and> (a \<or> (c \<noteq> 9 \<and> c \<noteq> 10)))" by argo
  then show thesis
  proof cases
    case u
    then have "c < 0x80" by (simp add: UNDERSCORE_def)
    with u show thesis using that(1) by (simp add: pwsh_char_def)
  next
    case v
    then have "c < 0x80" by linarith
    moreover have "pwsh_char a c p = pwsh_unit c"
      unfolding pwsh_char_def if_not_P [OF v(1)] by (rule if_P [OF v(2)])
    ultimately show thesis using that(1) by blast
  next
    case w
    have "pwsh_char a c p = [c]"
      unfolding pwsh_char_def if_not_P [OF w(1)] by (rule if_not_P [OF w(2)])
    then show thesis using that(2) w(1) by simp
  qed
qed

lemma pwsh_unit_Cons: "\<exists>t. pwsh_unit n = UNDERSCORE # t"
  by (simp add: pwsh_unit_def lit_def UNDERSCORE_def)

text \<open>The text copied up to the next \<open>_\<close> is unescaped input, and an escape starts no earlier.\<close>

lemma pwsh_escape_run:
  "\<exists>p cs'. cs = p @ cs' \<and> takeWhile (\<lambda>c. c \<noteq> UNDERSCORE) (pwsh_escape a cs) = p
     \<and> dropWhile (\<lambda>c. c \<noteq> UNDERSCORE) (pwsh_escape a cs) = pwsh_escape a cs'"
proof (induction cs)
  case (Cons c cs)
  let ?p = "case cs of [] \<Rightarrow> None | d # _ \<Rightarrow> Some d"
  show ?case
  proof (cases "pwsh_char a c ?p = [c] \<and> c \<noteq> UNDERSCORE")
    case True
    from Cons obtain p cs' where "cs = p @ cs'"
      "takeWhile (\<lambda>c. c \<noteq> UNDERSCORE) (pwsh_escape a cs) = p"
      "dropWhile (\<lambda>c. c \<noteq> UNDERSCORE) (pwsh_escape a cs) = pwsh_escape a cs'" by blast
    then have "c # cs = (c # p) @ cs'"
      "takeWhile (\<lambda>c. c \<noteq> UNDERSCORE) (pwsh_escape a (c # cs)) = c # p"
      "dropWhile (\<lambda>c. c \<noteq> UNDERSCORE) (pwsh_escape a (c # cs)) = pwsh_escape a cs'"
      using True by auto
    then show ?thesis by blast
  next
    case False
    then obtain t where "pwsh_char a c ?p = UNDERSCORE # t"
      using pwsh_unit_Cons [of c] by (cases rule: pwsh_char_cases [of c a ?p]) auto
    then have "pwsh_escape a (c # cs) = UNDERSCORE # t @ pwsh_escape a cs" by simp
    then show ?thesis by (intro exI [of _ "[]"] exI [of _ "c # cs"]) (simp del: pwsh_escape.simps)
  qed
qed simp

lemma pwsh_escape_no_escape:
  assumes "pwsh_char a c (case cs of [] \<Rightarrow> None | d # _ \<Rightarrow> Some d) = [c]"
    "\<not> (c = UNDERSCORE \<and> ((case cs of [] \<Rightarrow> None | d # _ \<Rightarrow> Some d) = Some 0x78))"
  shows "split_pwsh_escape (c # pwsh_escape a cs) = None"
proof (rule split_pwsh_escape_other, rule notI, elim exE)
  fix t
  assume t: "c # pwsh_escape a cs = UNDERSCORE # 0x78 # t"
  then obtain d ds where cs: "cs = d # ds" by (cases cs) auto
  with assms t have "d \<noteq> 0x78" by auto
  moreover have "hd (pwsh_escape a cs) \<in> {d, UNDERSCORE}"
    using pwsh_unit_Cons [of d] cs
    by (cases rule: pwsh_char_cases [of d a "case ds of [] \<Rightarrow> None | e # _ \<Rightarrow> Some e"]) auto
  ultimately show False using t by (auto simp: UNDERSCORE_def)
qed

lemma utf16_lossy_plain: "\<forall>u\<in>set us. u < 0xD800 \<Longrightarrow> utf16_lossy us = us"
  by (induction us) (auto simp: utf16_lossy_def)

lemma decode_loop_pwsh_escape:
  "\<forall>u\<in>set units. u < 0xD800 \<Longrightarrow> decode_loop units (pwsh_escape a s) = units @ s"
proof (induction "length s" arbitrary: units s rule: less_induct)
  case less
  show ?case
  proof (cases s)
    case Nil
    then show ?thesis using less.prems
      by (simp add: decode_loop.simps [of units "[]"] split_pwsh_escape_other utf16_lossy_plain)
  next
    case (Cons c cs)
    let ?p = "case cs of [] \<Rightarrow> None | d # _ \<Rightarrow> Some d"
    show ?thesis
    proof (cases rule: pwsh_char_cases [of c a ?p])
      case unit
      then have "decode_loop units (pwsh_escape a s) = decode_loop (units @ [c]) (pwsh_escape a cs)"
        using Cons by (simp add: decode_loop.simps [of units] split_pwsh_escape_unit)
      then show ?thesis using less.hyps [of cs "units @ [c]"] less.prems unit Cons by simp
    next
      case plain
      then have none: "split_pwsh_escape (pwsh_escape a s) = None"
        using Cons pwsh_escape_no_escape [of a c cs] by auto
      obtain p cs' where run: "cs = p @ cs'"
        "takeWhile (\<lambda>c. c \<noteq> UNDERSCORE) (pwsh_escape a cs) = p"
        "dropWhile (\<lambda>c. c \<noteq> UNDERSCORE) (pwsh_escape a cs) = pwsh_escape a cs'"
        using pwsh_escape_run by blast
      have "decode_loop [] (pwsh_escape a cs') = cs'"
        using less.hyps [of cs' "[]"] Cons run(1) by simp
      then show ?thesis
        using none Cons plain run less.prems
        by (simp add: decode_loop.simps [of units] utf16_lossy_plain)
    qed
  qed
qed

section \<open>Properties\<close>

text \<open>The five predefined entities, resolved left to right as an XML reader does.\<close>

definition predefined_entities :: "(ustr \<times> uchar) list" where
  "predefined_entities = [(lit ''lt;'', 0x3C), (lit ''gt;'', 0x3E), (lit ''amp;'', 0x26),
     (lit ''quot;'', 0x22), (lit ''apos;'', 0x27)]"

definition entity :: "ustr \<Rightarrow> (uchar \<times> ustr) option" where
  "entity s = find_map (\<lambda>(e, c). map_option (Pair c) (strip_prefix e s)) predefined_entities"

lemma entity_shorter: "entity s = Some (c, t) \<Longrightarrow> length t \<le> length s"
  by (auto simp: entity_def predefined_entities_def strip_prefix_def split: option.splits if_splits)

function xml_unescape :: "ustr \<Rightarrow> ustr" where
  "xml_unescape [] = []"
| "xml_unescape (c # s) =
     (if c = 0x26
      then (case entity s of Some (d, t) \<Rightarrow> d # xml_unescape t | None \<Rightarrow> c # xml_unescape s)
      else c # xml_unescape s)"
  by pat_completeness auto
termination
  by (relation "measure length") (auto dest: entity_shorter)

lemma xml_unescape_char: "xml_unescape (xml_char c @ s) = c # xml_unescape s"
  by (auto simp: xml_char_def entity_def predefined_entities_def strip_prefix_def lit_def)

lemma xml_unescape_escape: "xml_unescape (xml_escape s) = s"
  by (induction s) (simp_all add: xml_escape_def xml_unescape_char)

lemma decode_pwsh_escape: "decode_pwsh_escapes (pwsh_escape a s) = s"
  using decode_loop_pwsh_escape [of "[]"] by (simp add: decode_pwsh_escapes_def)

text \<open>
  Any text survives the escaping, in element text and in attribute values: resolving the
  predefined XML entities of the escaped text and then decoding the \<open>_xHHHH_\<close> escapes gives the
  original back, whatever it contains, literal \<open>_x0041_\<close> sequences and control characters
  included.
\<close>

lemma escape_roundtrip:
  "decode_pwsh_escapes (xml_unescape (escape_inner attribute s)) = s"
  by (simp add: escape_inner_layers xml_unescape_escape decode_pwsh_escape)

lemma pwsh_unit_chars: "c \<in> set (pwsh_unit n) \<Longrightarrow> 48 \<le> c \<and> c \<noteq> 0x3C \<and> c \<noteq> 0x3E"
proof -
  assume "c \<in> set (pwsh_unit n)"
  moreover have "hex_digit_upper d \<noteq> 0x3C \<and> hex_digit_upper d \<noteq> 0x3E" for d
    by (simp add: hex_digit_upper_def)
  moreover have "48 \<le> hex_digit_upper d" for d by (simp add: hex_digit_upper_def)
  ultimately show ?thesis by (auto simp: pwsh_unit_def lit_def hex4_def)
qed

lemma escape_char_chars:
  assumes "c \<in> set (escape_char a d p)"
  shows "c \<notin> {0x3C, 0x3E, 0x22, 0x27} \<and> (c < 0x20 \<longrightarrow> \<not> a \<and> (c = 9 \<or> c = 10))"
proof (cases "c \<in> set (pwsh_unit d)")
  case True
  then show ?thesis using pwsh_unit_chars [of c d] by auto
next
  case False
  have "escape_char a d p = pwsh_unit d \<or> escape_char a d p = [d]
      \<and> d \<notin> {0x3C, 0x3E, 0x22, 0x27} \<and> (d < 0x20 \<longrightarrow> \<not> a \<and> (d = 9 \<or> d = 10))
      \<or> set (escape_char a d p) \<subseteq> set (lit ''&ltgampquos;'')"
    unfolding escape_char_def pwsh_unit_underscore [symmetric] by (auto simp: lit_def UNDERSCORE_def)
  then show ?thesis using assms False by (auto simp: lit_def)
qed

text \<open>
  Escaped text cannot break out of the element or attribute it is written to: it contains no
  \<open><\<close>, \<open>>\<close>, double or single quote, and no control character except tab and LF in element text.
\<close>

lemma escape_no_markup:
  assumes "c \<in> set (escape_inner attribute s)"
  shows "c \<notin> {0x3C, 0x3E, 0x22, 0x27} \<and> (c < 0x20 \<longrightarrow> \<not> attribute \<and> (c = 9 \<or> c = 10))"
  using assms
proof (induction s)
  case (Cons d s)
  then show ?case using escape_char_chars [of c attribute d] by auto
qed simp

lemma escape_no_markup_witness:
  "(0x09 :: nat) \<notin> set (escape_inner True [0x09, 0x41])
   \<and> (0x3C :: nat) \<notin> set (escape_inner False [0x3C, 0x41])"
  using escape_no_markup [of "0x09" True "[0x09, 0x41]"]
    escape_no_markup [of "0x3C" False "[0x3C, 0x41]"] by auto

end
