(* ===== verification/Values.thy ===== *)
theory Values
  imports Uuids Errors
begin

text \<open>
  The CLIXML value type of \<open>src/src/clixml/mod.rs\<close>.  \<open>IndexMap\<close> is an association list in
  insertion order (\<open>imap_insert\<close> replaces in place); the locale \<open>ordered_map\<close> states what
  the crate uses of it.  Integers keep their width; floating point numbers are carried as their
  bit patterns.
\<close>

section \<open>Insertion-ordered maps\<close>

type_synonym ('k, 'v) imap = "('k \<times> 'v) list"

fun imap_insert :: "'k \<Rightarrow> 'v \<Rightarrow> ('k, 'v) imap \<Rightarrow> ('k, 'v) imap" where
  "imap_insert k v [] = [(k, v)]"
| "imap_insert k v ((k', v') # m) =
     (if k = k' then (k, v) # m else (k', v') # imap_insert k v m)"

locale ordered_map =
  fixes empty :: 'm
    and insert :: "'k \<Rightarrow> 'v \<Rightarrow> 'm \<Rightarrow> 'm"
    and lookup :: "'m \<Rightarrow> 'k \<Rightarrow> 'v option"
    and keys :: "'m \<Rightarrow> 'k list"
  assumes lookup_empty: "lookup empty k = None"
    and lookup_insert: "lookup (insert k v m) k' = (if k' = k then Some v else lookup m k')"
    and keys_empty: "keys empty = []"
    and keys_insert: "keys (insert k v m) = (if k \<in> set (keys m) then keys m else keys m @ [k])"
begin

definition of_list :: "('k \<times> 'v) list \<Rightarrow> 'm" where
  "of_list kvs = fold (\<lambda>(k, v). insert k v) kvs empty"

lemma lookup_fold_insert: "lookup (fold (\<lambda>(k, v). insert k v) kvs m) k =
    (case map_of (rev kvs) k of Some v \<Rightarrow> Some v | None \<Rightarrow> lookup m k)"
  by (induction kvs arbitrary: m)
    (auto simp: lookup_insert map_add_def split: option.splits)

lemma lookup_of_list: "lookup (of_list kvs) k = map_of (rev kvs) k"
  by (simp add: of_list_def lookup_fold_insert lookup_empty split: option.splits)

lemma distinct_keys_insert: "distinct (keys m) \<Longrightarrow> distinct (keys (insert k v m))"
  by (simp add: keys_insert)

lemma distinct_keys_fold: "distinct (keys m) \<Longrightarrow> distinct (keys (fold (\<lambda>(k, v). insert k v) kvs m))"
  by (induction kvs arbitrary: m) (auto simp: distinct_keys_insert)

lemma keys_fold_new:
  "distinct (map fst kvs) \<Longrightarrow> set (map fst kvs) \<inter> set (keys m) = {} \<Longrightarrow>
   keys (fold (\<lambda>(k, v). insert k v) kvs m) = keys m @ map fst kvs"
  by (induction kvs arbitrary: m) (auto simp: keys_insert split_beta)

lemma keys_of_list: "distinct (map fst kvs) \<Longrightarrow> keys (of_list kvs) = map fst kvs"
  by (simp add: of_list_def keys_fold_new keys_empty)

end

lemma map_of_imap_insert: "map_of (imap_insert k v m) k' = (if k' = k then Some v else map_of m k')"
  by (induction m) auto

lemma keys_imap_insert:
  "map fst (imap_insert k v m) = (if k \<in> fst ` set m then map fst m else map fst m @ [k])"
  by (induction m) force+

lemma imap_insert_new: "k \<notin> fst ` set m \<Longrightarrow> imap_insert k v m = m @ [(k, v)]"
  by (induction m) auto

interpretation imap: ordered_map "[]" imap_insert map_of "map fst"
  by unfold_locales (auto simp: map_of_imap_insert keys_imap_insert)

lemma distinct_imap_insert: "distinct (map fst m) \<Longrightarrow> distinct (map fst (imap_insert k v m))"
  by (rule imap.distinct_keys_insert)

section \<open>Values\<close>

datatype ps_value =
    PsNull
  | PsBool bool
  | PsI8 u8
  | PsU8 u8
  | PsI16 u16
  | PsU16 u16
  | PsI32 u32
  | PsU32 u32
  | PsI64 u64
  | PsU64 u64
  | PsF32 u32
  | PsDouble u64
  | PsDecimal ustr
  | PsChar uchar
  | PsString ustr
  | PsBytes bytes
  | PsDateTime ustr
  | PsDuration ustr
  | PsGuid uuid
  | PsVersion ustr
  | PsUri ustr
  | PsXml ustr
  | PsScriptBlock ustr
  | PsSecureString ustr
  | PsList "ps_value list"
  | PsDict "(ps_value \<times> ps_value) list"
  | PsObject ps_object
and ps_object =
    Ps_Object (properties: "(ustr \<times> ps_value) list") (type_names: "ustr list") (to_string: "ustr option")

fun as_str :: "ps_value \<Rightarrow> ustr option" where
  "as_str (PsString s) = Some s"
| "as_str (PsVersion s) = Some s"
| "as_str (PsUri s) = Some s"
| "as_str (PsXml s) = Some s"
| "as_str (PsScriptBlock s) = Some s"
| "as_str (PsDecimal s) = Some s"
| "as_str (PsDateTime s) = Some s"
| "as_str (PsDuration s) = Some s"
| "as_str (PsSecureString s) = Some s"
| "as_str _ = None"

text \<open>A mathematical integer at its width: \<open>i32::from\<close> and \<open>i64::from\<close> of a smaller type.\<close>

definition i32_of :: "int \<Rightarrow> u32" where "i32_of i = word_of_int i"
definition i64_of :: "int \<Rightarrow> u64" where "i64_of i = word_of_int i"

text \<open>\<open>i32::try_from\<close> and \<open>i64::try_from\<close>: the value when it fits.\<close>

definition try_i32 :: "int \<Rightarrow> u32 option" where
  "try_i32 i = (if - 2147483648 \<le> i \<and> i < 2147483648 then Some (i32_of i) else None)"

definition try_i64 :: "int \<Rightarrow> u64 option" where
  "try_i64 i = (if - 9223372036854775808 \<le> i \<and> i < 9223372036854775808
                then Some (i64_of i) else None)"

fun as_i32 :: "ps_value \<Rightarrow> u32 option" where
  "as_i32 (PsI8 v) = Some (i32_of (sint v))"
| "as_i32 (PsI16 v) = Some (i32_of (sint v))"
| "as_i32 (PsI32 v) = Some v"
| "as_i32 (PsI64 v) = try_i32 (sint v)"
| "as_i32 (PsU8 v) = Some (i32_of (uint v))"
| "as_i32 (PsU16 v) = Some (i32_of (uint v))"
| "as_i32 (PsU32 v) = try_i32 (uint v)"
| "as_i32 _ = None"

fun as_i64 :: "ps_value \<Rightarrow> u64 option" where
  "as_i64 (PsI8 v) = Some (i64_of (sint v))"
| "as_i64 (PsI16 v) = Some (i64_of (sint v))"
| "as_i64 (PsI32 v) = Some (i64_of (sint v))"
| "as_i64 (PsI64 v) = Some v"
| "as_i64 (PsU8 v) = Some (i64_of (uint v))"
| "as_i64 (PsU16 v) = Some (i64_of (uint v))"
| "as_i64 (PsU32 v) = Some (i64_of (uint v))"
| "as_i64 (PsU64 v) = try_i64 (uint v)"
| "as_i64 _ = None"

fun as_bool :: "ps_value \<Rightarrow> bool option" where
  "as_bool (PsBool v) = Some v"
| "as_bool _ = None"

fun value_properties :: "ps_value \<Rightarrow> (ustr \<times> ps_value) list option" where
  "value_properties (PsObject obj) = Some (properties obj)"
| "value_properties _ = None"

fun value_type_names :: "ps_value \<Rightarrow> ustr list option" where
  "value_type_names (PsObject obj) = Some (type_names obj)"
| "value_type_names _ = None"

definition object_new :: ps_object where
  "object_new = Ps_Object [] [] None"

definition object_with :: "ps_object \<Rightarrow> ustr \<Rightarrow> ps_value \<Rightarrow> ps_object" where
  "object_with obj name v =
     Ps_Object (imap_insert name v (properties obj)) (type_names obj) (to_string obj)"

definition with_type_names :: "ps_object \<Rightarrow> ustr list \<Rightarrow> ps_object" where
  "with_type_names obj names = Ps_Object (properties obj) names (to_string obj)"

definition object_get :: "ps_object \<Rightarrow> ustr \<Rightarrow> ps_value option" where
  "object_get obj name = map_of (properties obj) name"

text \<open>\<open>v.properties().and_then(|p| p.get(name))\<close>, which the message decoders use.\<close>

definition value_get :: "ps_value \<Rightarrow> ustr \<Rightarrow> ps_value option" where
  "value_get v name = Option.bind (value_properties v) (\<lambda>p. map_of p name)"

section \<open>Integer accessors\<close>

text \<open>The mathematical value of an integer variant, whatever its width.\<close>

fun int_value :: "ps_value \<Rightarrow> int option" where
  "int_value (PsI8 v) = Some (sint v)"
| "int_value (PsI16 v) = Some (sint v)"
| "int_value (PsI32 v) = Some (sint v)"
| "int_value (PsI64 v) = Some (sint v)"
| "int_value (PsU8 v) = Some (uint v)"
| "int_value (PsU16 v) = Some (uint v)"
| "int_value (PsU32 v) = Some (uint v)"
| "int_value (PsU64 v) = Some (uint v)"
| "int_value _ = None"

lemma sint_i32_of: "- 2147483648 \<le> i \<Longrightarrow> i < 2147483648 \<Longrightarrow> sint (i32_of i) = i"
  by (simp add: i32_of_def int_word_sint)

lemma sint_i64_of:
  "- 9223372036854775808 \<le> i \<Longrightarrow> i < 9223372036854775808 \<Longrightarrow> sint (i64_of i) = i"
  by (simp add: i64_of_def int_word_sint)

lemma u8_ranges: "- 128 \<le> sint (a :: u8)" "sint a < 128" "0 \<le> uint a" "uint a < 256"
  using sint_ge [of a] sint_lt [of a] uint_lt2p [of a] by simp_all

lemma u16_ranges: "- 32768 \<le> sint (a :: u16)" "sint a < 32768" "0 \<le> uint a" "uint a < 65536"
  using sint_ge [of a] sint_lt [of a] uint_lt2p [of a] by simp_all

lemma u32_ranges:
  "- 2147483648 \<le> sint (a :: u32)" "sint a < 2147483648" "0 \<le> uint a" "uint a < 4294967296"
  using sint_ge [of a] sint_lt [of a] uint_lt2p [of a] by simp_all

lemma u64_ranges:
  "- 9223372036854775808 \<le> sint (a :: u64)" "sint a < 9223372036854775808" "0 \<le> uint a"
  "uint a < 18446744073709551616"
  using sint_ge [of a] sint_lt [of a] uint_lt2p [of a] by simp_all

lemma neg_le_uint [simp]: "- numeral n \<le> uint (w :: 'a::len word)"
  by (rule order_trans [of _ 0]) simp_all

definition fits :: "int \<Rightarrow> int \<Rightarrow> int option \<Rightarrow> int option" where
  "fits lo hi m = (case m of Some i \<Rightarrow> if lo \<le> i \<and> i < hi then Some i else None | None \<Rightarrow> None)"

lemma fits_Some: "lo \<le> i \<Longrightarrow> i < hi \<Longrightarrow> fits lo hi (Some i) = Some i"
  by (simp add: fits_def)

lemma as_i64_value:
  "map_option sint (as_i64 v) = fits (- 9223372036854775808) 9223372036854775808 (int_value v)"
proof (cases v)
  case (PsI8 w) with u8_ranges [of w] show ?thesis by (simp add: fits_def sint_i64_of)
next
  case (PsI16 w) with u16_ranges [of w] show ?thesis by (simp add: fits_def sint_i64_of)
next
  case (PsI32 w) with u32_ranges [of w] show ?thesis by (simp add: fits_def sint_i64_of)
next
  case (PsI64 w) with u64_ranges [of w] show ?thesis by (simp add: fits_def)
next
  case (PsU8 w) with u8_ranges [of w] show ?thesis by (simp add: fits_def sint_i64_of)
next
  case (PsU16 w) with u16_ranges [of w] show ?thesis by (simp add: fits_def sint_i64_of)
next
  case (PsU32 w) with u32_ranges [of w] show ?thesis by (simp add: fits_def sint_i64_of)
next
  case (PsU64 w) with u64_ranges [of w] show ?thesis
    by (auto simp: fits_def try_i64_def sint_i64_of)
qed (simp_all add: fits_def)

lemma as_i32_value:
  "map_option sint (as_i32 v) =
     (case v of PsU64 _ \<Rightarrow> None | _ \<Rightarrow> fits (- 2147483648) 2147483648 (int_value v))"
proof (cases v)
  case (PsI8 w) with u8_ranges [of w] show ?thesis by (simp add: fits_def sint_i32_of)
next
  case (PsI16 w) with u16_ranges [of w] show ?thesis by (simp add: fits_def sint_i32_of)
next
  case (PsI32 w) with u32_ranges [of w] show ?thesis by (simp add: fits_def)
next
  case (PsI64 w) with u64_ranges [of w] show ?thesis
    by (auto simp: fits_def try_i32_def sint_i32_of)
next
  case (PsU8 w) with u8_ranges [of w] show ?thesis by (simp add: fits_def sint_i32_of)
next
  case (PsU16 w) with u16_ranges [of w] show ?thesis by (simp add: fits_def sint_i32_of)
next
  case (PsU32 w) with u32_ranges [of w] show ?thesis
    by (auto simp: fits_def try_i32_def sint_i32_of)
qed (simp_all add: fits_def)

section \<open>Properties\<close>

text \<open>
  The integer accessors are exact: \<open>as_i64\<close> returns the number an integer variant holds when
  it fits in 64 signed bits and nothing otherwise, \<open>as_i32\<close> likewise in 32 bits (for every variant
  but \<open>U64\<close>, which it refuses), and neither ever wraps around, although its documentation speaks
  of lossy narrowing.
\<close>

lemma integer_accessors_exact:
  "map_option sint (as_i64 v) = fits (- 9223372036854775808) 9223372036854775808 (int_value v)
   \<and> map_option sint (as_i32 v) =
      (case v of PsU64 _ \<Rightarrow> None | _ \<Rightarrow> fits (- 2147483648) 2147483648 (int_value v))"
  using as_i64_value as_i32_value by blast

end
