(* ===== verification/Encode.thy ===== *)
theory Encode
  imports Values Base64 Escapes
begin

text \<open>
  The CLIXML encoder (\<open>src/src/clixml/encode.rs\<close>).  Appending to \<open>out\<close> is returning the text
  appended; the \<open>RefIdAllocator\<close> (a \<open>Cell<u32>\<close>) is the next id, passed and returned.

  Parameters: the \<open>uuid\<close> interface and the formatting of finite floats, in \<open>float_api\<close>.
\<close>

section \<open>Interfaces\<close>

text \<open>
  Floating point numbers are bit patterns: \<open>f64_of_f32\<close> and \<open>f32_of_f64\<close> are the conversions,
  \<open>format_f64\<close> is \<open>Display\<close> of a finite \<open>f64\<close>, \<open>parse_f64\<close> is \<open>FromStr\<close> (or the error's
  text).
\<close>

record float_api =
  f64_of_f32 :: "u32 \<Rightarrow> u64"
  f32_of_f64 :: "u64 \<Rightarrow> u32"
  format_f64 :: "u64 \<Rightarrow> ustr"
  parse_f64 :: "ustr \<Rightarrow> ustr + u64"

definition f64_exponent :: "u64 \<Rightarrow> u64" where "f64_exponent v = v AND 0x7FF0000000000000"
definition f64_mantissa :: "u64 \<Rightarrow> u64" where "f64_mantissa v = v AND 0x000FFFFFFFFFFFFF"

definition is_nan :: "u64 \<Rightarrow> bool" where
  "is_nan v \<longleftrightarrow> f64_exponent v = 0x7FF0000000000000 \<and> f64_mantissa v \<noteq> 0"

definition is_infinite :: "u64 \<Rightarrow> bool" where
  "is_infinite v \<longleftrightarrow> f64_exponent v = 0x7FF0000000000000 \<and> f64_mantissa v = 0"

definition is_sign_positive :: "u64 \<Rightarrow> bool" where
  "is_sign_positive v \<longleftrightarrow> v < 0x8000000000000000"

definition format_float :: "float_api \<Rightarrow> u64 \<Rightarrow> ustr" where
  "format_float F v =
     (if is_nan v then lit ''NaN''
      else if is_infinite v
      then (if is_sign_positive v then lit ''Infinity'' else lit ''-Infinity'')
      else format_f64 F v)"

section \<open>Simple elements and the allocator\<close>

definition next_ref_id :: "u32 \<Rightarrow> u32 \<times> u32" where
  "next_ref_id next = (next, if next = - 1 then next else next + 1)"

definition write_simple :: "ustr \<Rightarrow> ustr \<Rightarrow> ustr option \<Rightarrow> bool \<Rightarrow> ustr" where
  "write_simple tag body name self_close =
     (if self_close
      then (case name of
              Some n \<Rightarrow> lit ''<'' @ tag @ lit '' N='' @ [0x22] @ escape_attr n @ [0x22] @ lit ''/>''
            | None \<Rightarrow> lit ''<'' @ tag @ lit ''/>'')
      else (case name of
              Some n \<Rightarrow> lit ''<'' @ tag @ lit '' N='' @ [0x22] @ escape_attr n @ [0x22] @ lit ''>''
                        @ body @ lit ''</'' @ tag @ lit ''>''
            | None \<Rightarrow> lit ''<'' @ tag @ lit ''>'' @ body @ lit ''</'' @ tag @ lit ''>''))"

definition open_obj :: "ustr option \<Rightarrow> u32 \<Rightarrow> ustr \<times> u32" where
  "open_obj name next =
     (let (id, next) = next_ref_id next in
      (case name of
         Some n \<Rightarrow> lit ''<Obj N='' @ [0x22] @ escape_attr n @ [0x22] @ lit '' RefId='' @ [0x22]
                   @ show_word id @ [0x22] @ lit ''>''
       | None \<Rightarrow> lit ''<Obj RefId='' @ [0x22] @ show_word id @ [0x22] @ lit ''>'',
       next))"

definition write_type_names :: "ustr list \<Rightarrow> u32 \<Rightarrow> ustr \<times> u32" where
  "write_type_names names next =
     (if names = [] then ([], next)
      else
        let (id, next) = next_ref_id next in
        (lit ''<TN RefId='' @ [0x22] @ show_word id @ [0x22] @ lit ''>''
         @ concat (map (\<lambda>tn. lit ''<T>'' @ escape tn @ lit ''</T>'') names) @ lit ''</TN>'',
         next))"

definition write_to_string :: "ustr option \<Rightarrow> ustr" where
  "write_to_string ts =
     (case ts of Some s \<Rightarrow> lit ''<ToString>'' @ escape s @ lit ''</ToString>'' | None \<Rightarrow> [])"

definition VALUE_KEY :: ustr where "VALUE_KEY = lit ''_value''"

definition other_props :: "(ustr \<times> ps_value) list \<Rightarrow> (ustr \<times> ps_value) list" where
  "other_props props = filter (\<lambda>kv. fst kv \<noteq> VALUE_KEY) props"

section \<open>Values\<close>

text \<open>
  The arms of \<open>write_value_with\<close>: a scalar is written as an element with its tag and body (or
  self-closed), the other arms write an \<open><Obj>\<close>.
\<close>

datatype arm =
    Scalar ustr ustr bool
  | Items "ps_value list"
  | Entries "(ps_value \<times> ps_value) list"
  | Members "(ustr \<times> ps_value) list" "ustr list" "ustr option"

fun arm_of :: "uuid_api \<Rightarrow> float_api \<Rightarrow> ps_value \<Rightarrow> arm" where
  "arm_of U F PsNull = Scalar (lit ''Nil'') ([]) True"
| "arm_of U F (PsBool b) =
     Scalar (lit ''B'') (if b then lit ''true'' else lit ''false'') False"
| "arm_of U F (PsI8 v) = Scalar (lit ''SB'') (show_sword v) False"
| "arm_of U F (PsU8 v) = Scalar (lit ''By'') (show_word v) False"
| "arm_of U F (PsI16 v) = Scalar (lit ''I16'') (show_sword v) False"
| "arm_of U F (PsU16 v) = Scalar (lit ''U16'') (show_word v) False"
| "arm_of U F (PsI32 v) = Scalar (lit ''I32'') (show_sword v) False"
| "arm_of U F (PsU32 v) = Scalar (lit ''U32'') (show_word v) False"
| "arm_of U F (PsI64 v) = Scalar (lit ''I64'') (show_sword v) False"
| "arm_of U F (PsU64 v) = Scalar (lit ''U64'') (show_word v) False"
| "arm_of U F (PsF32 v) = Scalar (lit ''Sg'') (format_float F (f64_of_f32 F v)) False"
| "arm_of U F (PsDouble v) = Scalar (lit ''Db'') (format_float F v) False"
| "arm_of U F (PsDecimal s) = Scalar (lit ''D'') (escape s) False"
| "arm_of U F (PsChar c) =
     Scalar (lit ''C'') (show_nat (if c < 65536 then c else 0xFFFD)) False"
| "arm_of U F (PsString s) = Scalar (lit ''S'') (escape s) False"
| "arm_of U F (PsBytes b) = Scalar (lit ''BA'') (base64_encode b) False"
| "arm_of U F (PsDateTime s) = Scalar (lit ''DT'') (escape s) False"
| "arm_of U F (PsDuration s) = Scalar (lit ''TS'') (escape s) False"
| "arm_of U F (PsGuid g) = Scalar (lit ''G'') (hyphenated U g) False"
| "arm_of U F (PsVersion s) = Scalar (lit ''Version'') (escape s) False"
| "arm_of U F (PsUri s) = Scalar (lit ''URI'') (escape s) False"
| "arm_of U F (PsXml s) = Scalar (lit ''XD'') (escape s) False"
| "arm_of U F (PsScriptBlock s) = Scalar (lit ''SBK'') (escape s) False"
| "arm_of U F (PsSecureString s) = Scalar (lit ''SS'') (escape s) False"
| "arm_of U F (PsList vs) = Items vs"
| "arm_of U F (PsDict es) = Entries es"
| "arm_of U F (PsObject obj) = Members (properties obj) (type_names obj) (to_string obj)"


text \<open>
  \<open>write_value\<close> is \<open>write_value_with\<close>, the arms for objects (\<open>write_object\<close>) and the bodies of
  lists and dictionaries (\<open>write_container_body\<close>) included; \<open>write_value_prop\<close> writes the
  property \<open>_value\<close>, whose container goes into the object's own element, and
  \<open>write_members\<close> the other properties.
\<close>

function write_value :: "uuid_api \<Rightarrow> float_api \<Rightarrow> ps_value \<Rightarrow> ustr option \<Rightarrow> u32 \<Rightarrow> ustr \<times> u32"
  and write_items :: "uuid_api \<Rightarrow> float_api \<Rightarrow> ps_value list \<Rightarrow> u32 \<Rightarrow> ustr \<times> u32"
  and write_entries :: "uuid_api \<Rightarrow> float_api \<Rightarrow> (ps_value \<times> ps_value) list \<Rightarrow> u32 \<Rightarrow> ustr \<times> u32"
  and write_value_prop :: "uuid_api \<Rightarrow> float_api \<Rightarrow> (ustr \<times> ps_value) list \<Rightarrow> u32 \<Rightarrow> ustr \<times> u32"
  and write_members :: "uuid_api \<Rightarrow> float_api \<Rightarrow> (ustr \<times> ps_value) list \<Rightarrow> u32 \<Rightarrow> ustr \<times> u32"
where
  "write_value U F v name n =
     (case arm_of U F v of
        Scalar tag body self_close \<Rightarrow> (write_simple tag body name self_close, n)
      | Items vs \<Rightarrow>
          (let (t1, n) = open_obj name n; (t2, n) = write_items U F vs n
           in (t1 @ lit ''<LST>'' @ t2 @ lit ''</LST>'' @ lit ''</Obj>'', n))
      | Entries es \<Rightarrow>
          (let (t1, n) = open_obj name n; (t2, n) = write_entries U F es n
           in (t1 @ lit ''<DCT>'' @ t2 @ lit ''</DCT>'' @ lit ''</Obj>'', n))
      | Members props names ts \<Rightarrow>
          (let (t1, n) = open_obj name n;
               (t2, n) = write_type_names names n;
               (t3, n) = write_value_prop U F props n;
               (t4, n) = write_members U F props n
           in (t1 @ t2 @ write_to_string ts @ t3
               @ (if other_props props = [] then [] else lit ''<MS>'' @ t4 @ lit ''</MS>'')
               @ lit ''</Obj>'', n)))"
| "write_items U F [] n = ([], n)"
| "write_items U F (v # vs) n =
     (let (t1, n) = write_value U F v None n; (t2, n) = write_items U F vs n in (t1 @ t2, n))"
| "write_entries U F [] n = ([], n)"
| "write_entries U F ((k, v) # es) n =
     (let (t1, n) = write_value U F k (Some (lit ''Key'')) n;
          (t2, n) = write_value U F v (Some (lit ''Value'')) n;
          (t3, n) = write_entries U F es n
      in (lit ''<En>'' @ t1 @ t2 @ lit ''</En>'' @ t3, n))"
| "write_value_prop U F [] n = ([], n)"
| "write_value_prop U F ((k, v) # props) n =
     (if k \<noteq> VALUE_KEY then write_value_prop U F props n
      else (case arm_of U F v of
              Items vs \<Rightarrow>
                (let (t, n) = write_items U F vs n in (lit ''<LST>'' @ t @ lit ''</LST>'', n))
            | Entries es \<Rightarrow>
                (let (t, n) = write_entries U F es n in (lit ''<DCT>'' @ t @ lit ''</DCT>'', n))
            | _ \<Rightarrow> write_value U F v None n))"
| "write_members U F [] n = ([], n)"
| "write_members U F ((k, v) # props) n =
     (if k = VALUE_KEY then write_members U F props n
      else let (t1, n) = write_value U F v (Some k) n; (t2, n) = write_members U F props n
           in (t1 @ t2, n))"

  by pat_completeness auto

lemma arm_of_iffs:
  "arm_of U F v = Items vs \<longleftrightarrow> v = PsList vs"
  "arm_of U F v = Entries es \<longleftrightarrow> v = PsDict es"
  "arm_of U F v = Members props names ts \<longleftrightarrow> v = PsObject (Ps_Object props names ts)"
  subgoal by (cases v) simp_all
  subgoal by (cases v) simp_all
  subgoal
  proof (cases v)
    case (PsObject obj)
    then show ?thesis by (cases obj) auto
  qed simp_all
  done



termination write_value
  by (relation "measure (case_sum
      (case_sum (\<lambda>(U, F, v, name, n). size v) (\<lambda>(U, F, vs, n). size_list size vs))
      (case_sum (\<lambda>(U, F, es, n). size_list (size_prod size size) es)
        (case_sum (\<lambda>(U, F, props, n). size_list (size_prod (\<lambda>_. 0) size) props)
          (\<lambda>(U, F, props, n). size_list (size_prod (\<lambda>_. 0) size) props))))")
    (simp_all add: arm_of_iffs)

definition to_clixml :: "uuid_api \<Rightarrow> float_api \<Rightarrow> ps_value \<Rightarrow> ustr" where
  "to_clixml U F v = fst (write_value U F v None 0)"

definition ps_enum :: "ustr \<Rightarrow> ustr \<Rightarrow> u32 \<Rightarrow> ps_value" where
  "ps_enum enum_type value_name integer_value =
     PsObject (Ps_Object [(VALUE_KEY, PsI32 integer_value)]
       [enum_type, lit ''System.Enum'', lit ''System.ValueType'', lit ''System.Object'']
       (Some value_name))"

definition ps_host_info_null :: ps_value where
  "ps_host_info_null = PsObject
     (object_with (object_with (object_with (object_with object_new
       (lit ''_isHostNull'') (PsBool True)) (lit ''_isHostUINull'') (PsBool True))
       (lit ''_isHostRawUINull'') (PsBool True)) (lit ''_useRunspaceHost'') (PsBool True))"

section \<open>The CreatePipeline document\<close>

datatype pipeline_arg_spec =
    SpecNamed ustr ps_value
  | SpecPositional ps_value
  | SpecSwitch ustr

record pipeline_command_spec =
  spec_name :: ustr
  spec_is_script :: bool
  spec_merge :: bool
  spec_args :: "pipeline_arg_spec list"

definition tag_ref :: "string \<Rightarrow> u32 \<Rightarrow> string \<Rightarrow> ustr" where
  "tag_ref tag i end_tag = lit ''<'' @ lit tag @ lit '' RefId='' @ [0x22] @ show_word i @ [0x22] @ lit end_tag"

definition enum_tail :: "ustr \<Rightarrow> u32 \<Rightarrow> ustr" where
  "enum_tail ts v = lit ''<ToString>'' @ escape ts @ lit ''</ToString>'' @ lit ''<I32>''
     @ show_sword v @ lit ''</I32>'' @ lit ''</Obj>''"

definition write_enum_first_in_group ::
    "ustr option \<Rightarrow> ustr \<Rightarrow> ustr \<Rightarrow> u32 \<Rightarrow> u32 \<Rightarrow> ustr \<times> u32 \<times> u32" where
  "write_enum_first_in_group name enum_type ts v n =
     (let (t1, n) = open_obj name n; (tn_id, n) = next_ref_id n
      in (t1 @ tag_ref ''TN'' tn_id ''>'' @ lit ''<T>'' @ escape enum_type
          @ lit ''</T><T>System.Enum</T><T>System.ValueType</T><T>System.Object</T>''
          @ lit ''</TN>'' @ enum_tail ts v, tn_id, n))"

definition write_enum_with_tnref ::
    "ustr option \<Rightarrow> u32 \<Rightarrow> ustr \<Rightarrow> u32 \<Rightarrow> u32 \<Rightarrow> ustr \<times> u32" where
  "write_enum_with_tnref name tn_ref_id ts v n =
     (let (t1, n) = open_obj name n
      in (t1 @ tag_ref ''TNRef'' tn_ref_id ''/>'' @ enum_tail ts v, n))"

fun write_enums_with_tnref :: "(ustr \<times> ustr \<times> u32) list \<Rightarrow> u32 \<Rightarrow> u32 \<Rightarrow> ustr \<times> u32" where
  "write_enums_with_tnref [] tn_ref n = ([], n)"
| "write_enums_with_tnref ((name, label, v) # es) tn_ref n =
     (let (t1, n) = write_enum_with_tnref (Some name) tn_ref label v n;
          (t2, n) = write_enums_with_tnref es tn_ref n
      in (t1 @ t2, n))"

definition arg_fields :: "pipeline_arg_spec \<Rightarrow> ps_value \<times> ps_value" where
  "arg_fields arg =
     (case arg of
        SpecNamed name v \<Rightarrow> (PsString name, v)
      | SpecPositional v \<Rightarrow> (PsNull, v)
      | SpecSwitch name \<Rightarrow> (PsString name, PsBool True))"

fun write_args :: "uuid_api \<Rightarrow> float_api \<Rightarrow> pipeline_arg_spec list \<Rightarrow> u32 \<Rightarrow> ustr \<times> u32" where
  "write_args U F [] n = ([], n)"
| "write_args U F (arg # args) n =
     (let (t1, n) = open_obj None n;
          (t2, n) = write_value U F (fst (arg_fields arg)) (Some (lit ''N'')) n;
          (t3, n) = write_value U F (snd (arg_fields arg)) (Some (lit ''V'')) n;
          (t4, n) = write_args U F args n
      in (t1 @ lit ''<MS>'' @ t2 @ t3 @ lit ''</MS></Obj>'' @ t4, n))"

definition PRT :: ustr where
  "PRT = lit ''System.Management.Automation.Runspaces.PipelineResultTypes''"

definition merge_fields :: "bool \<Rightarrow> (ustr \<times> ustr \<times> u32) list" where
  "merge_fields merge =
     [(lit ''MergeMyResult'', if merge then (lit ''Error'', 2) else (lit ''None'', 0)),
      (lit ''MergeToResult'', if merge then (lit ''Output'', 1) else (lit ''None'', 0)),
      (lit ''MergePreviousResults'', lit ''None'', 0)]"

definition later_merge_fields :: "(ustr \<times> ustr \<times> u32) list" where
  "later_merge_fields =
     map (\<lambda>name. (name, lit ''None'', 0))
       [lit ''MergeError'', lit ''MergeWarning'', lit ''MergeVerbose'', lit ''MergeDebug'',
        lit ''MergeInformation'']"

text \<open>The first enum of the document carries the type names, all later ones refer to them.\<close>

definition write_merge_fields ::
    "bool \<Rightarrow> u32 option \<Rightarrow> u32 \<Rightarrow> ustr \<times> u32 \<times> u32" where
  "write_merge_fields merge first_prt_tn n =
     (case first_prt_tn of
        Some tn_ref \<Rightarrow>
          (let (t, n) = write_enums_with_tnref (merge_fields merge) tn_ref n in (t, tn_ref, n))
      | None \<Rightarrow>
          (let (name, label, v) = hd (merge_fields merge);
               (t1, tn_ref, n) = write_enum_first_in_group (Some name) PRT label v n;
               (t2, n) = write_enums_with_tnref (tl (merge_fields merge)) tn_ref n
           in (t1 @ t2, tn_ref, n)))"

definition write_command ::
    "uuid_api \<Rightarrow> float_api \<Rightarrow> u32 \<Rightarrow> pipeline_command_spec \<Rightarrow> u32 option \<Rightarrow> u32
     \<Rightarrow> ustr \<times> u32 \<times> u32" where
  "write_command U F cmds_tn c first_prt_tn n =
     (let (t1, n) = open_obj None n;
          (t2, n) = write_value U F (PsString (spec_name c)) (Some (lit ''Cmd'')) n;
          (t3, n) = write_value U F (PsBool (spec_is_script c)) (Some (lit ''IsScript'')) n;
          (t4, n) = write_value U F PsNull (Some (lit ''UseLocalScope'')) n;
          (t5, tn_ref, n) = write_merge_fields (spec_merge c) first_prt_tn n;
          (args_id, n) = next_ref_id n;
          (t6, n) = write_args U F (spec_args c) n;
          (t7, n) = write_enums_with_tnref later_merge_fields tn_ref n
      in (t1 @ lit ''<MS>'' @ t2 @ t3 @ t4 @ t5
          @ tag_ref ''Obj'' args_id [] @ lit '' N='' @ [0x22] @ lit ''Args'' @ [0x22] @ lit ''>''
          @ tag_ref ''TNRef'' cmds_tn ''/>'' @ lit ''<LST>''
          @ t6 @ lit ''</LST></Obj>'' @ t7 @ lit ''</MS></Obj>'', tn_ref, n))"

fun write_commands ::
    "uuid_api \<Rightarrow> float_api \<Rightarrow> u32 \<Rightarrow> pipeline_command_spec list \<Rightarrow> u32 option \<Rightarrow> u32
     \<Rightarrow> ustr \<times> u32" where
  "write_commands U F cmds_tn [] first_prt_tn n = ([], n)"
| "write_commands U F cmds_tn (c # cs) first_prt_tn n =
     (let (t1, tn_ref, n) = write_command U F cmds_tn c first_prt_tn n;
          (t2, n) = write_commands U F cmds_tn cs (Some tn_ref) n
      in (t1 @ t2, n))"

definition CMDS_TYPE :: ustr where
  "CMDS_TYPE = lit ''System.Collections.Generic.List`1[[System.Management.Automation.PSObject, System.Management.Automation, Version=1.0.0.0, Culture=neutral, PublicKeyToken=31bf3856ad364e35]]''"

definition build_create_pipeline_xml ::
    "uuid_api \<Rightarrow> float_api \<Rightarrow> bool \<Rightarrow> bool \<Rightarrow> bool \<Rightarrow> pipeline_command_spec list \<Rightarrow> ustr" where
  "build_create_pipeline_xml U F no_input add_to_history add_invocation_info commands =
     (let (root, n) = next_ref_id 0;
          (t1, n) = write_value U F (PsBool no_input) (Some (lit ''NoInput'')) n;
          (t2, n) = write_value U F
            (ps_enum (lit ''System.Management.Automation.Runspaces.ApartmentState'')
              (lit ''UNKNOWN'') 2) (Some (lit ''ApartmentState'')) n;
          (so_name, so_val) =
            (if add_invocation_info then (lit ''AddInvocationInfo'', 15) else (lit ''None'', 0));
          (t3, n) = write_value U F
            (ps_enum (lit ''System.Management.Automation.Runspaces.RemoteStreamOptions'')
              so_name so_val) (Some (lit ''RemoteStreamOptions'')) n;
          (t4, n) = write_value U F (PsBool add_to_history) (Some (lit ''AddToHistory'')) n;
          (t5, n) = write_value U F ps_host_info_null (Some (lit ''HostInfo'')) n;
          (t6, n) = open_obj (Some (lit ''PowerShell'')) n;
          (t7, n) = write_value U F (PsBool False) (Some (lit ''IsNested'')) n;
          (t8, n) = write_value U F PsNull (Some (lit ''ExtraCmds'')) n;
          (cmds_tn, n) = next_ref_id n;
          (cmds_id, n) = next_ref_id n;
          (t9, n) = write_commands U F cmds_tn commands None n;
          (t10, n) = write_value U F PsNull (Some (lit ''History'')) n;
          (t11, n) = write_value U F (PsBool False) (Some (lit ''RedirectShellErrorOutputPipe'')) n;
          (t12, n) = write_value U F (PsBool False) (Some (lit ''IsNested'')) n
      in tag_ref ''Obj'' root ''><MS>'' @ t1 @ t2 @ t3 @ t4 @ t5
         @ t6 @ lit ''<MS>'' @ t7 @ t8
         @ tag_ref ''Obj'' cmds_id [] @ lit '' N='' @ [0x22] @ lit ''Cmds'' @ [0x22] @ lit ''>''
         @ tag_ref ''TN'' cmds_tn ''>'' @ lit ''<T>'' @ CMDS_TYPE
         @ lit ''</T><T>System.Object</T></TN><LST>''
         @ t9 @ lit ''</LST></Obj>'' @ t10 @ t11 @ lit ''</MS></Obj>''
         @ t12 @ lit ''</MS></Obj>'')"

end
