(* ===== verification/Xml_Events.thy ===== *)
theory Xml_Events
  imports Errors Escapes
begin

text \<open>
  The event stream of the third-party \<open>quick_xml\<close> reader and the readers of \<open>src/src/clixml/decode.rs\<close>
  that need no decoder state: \<open>read_text\<close>, \<open>skip_to_end\<close> and the attribute accessors.

  A reader is the list of the events it will deliver; after the last one it delivers
  \<open>Eof\<close> for ever.  An event carries what the accessors of the library return for it: the
  attributes that parse, each with its normalized value or the text of the error; for
  a general reference its name, what \<open>resolve_char_ref\<close> and \<open>resolve_predefined_entity\<close> say.
\<close>

type_synonym attr = "ustr \<times> (ustr + ustr)"

datatype xml_event =
    XStart ustr "attr list"
  | XEmpty ustr "attr list"
  | XEnd ustr
  | XText ustr
  | XGeneralRef ustr "ustr + uchar option" "ustr option"
  | XCData ustr
  | XOther
  | XFail ustr

type_synonym events = "xml_event list"
type_synonym xml_reader = "ustr \<Rightarrow> events"

section \<open>Attributes\<close>

definition attr_value :: "ustr \<Rightarrow> attr list \<Rightarrow> ustr option res" where
  "attr_value key attrs =
     (case find_map (\<lambda>(k, v). if k = key then Some v else None) attrs of
        None \<Rightarrow> Inr None
      | Some (Inl e) \<Rightarrow> Inl (clixml e)
      | Some (Inr v) \<Rightarrow> Inr (Some v))"

definition name_attr :: "attr list \<Rightarrow> ustr option res" where
  "name_attr attrs =
     rbind (attr_value (lit ''N'') attrs) (\<lambda>v. Inr (map_option decode_pwsh_escapes v))"

definition ref_id_attr :: "attr list \<Rightarrow> ustr option res" where
  "ref_id_attr attrs = attr_value (lit ''RefId'') attrs"

section \<open>Text\<close>

fun read_text_loop :: "ustr \<Rightarrow> ustr \<Rightarrow> events \<Rightarrow> (ustr \<times> events) res" where
  "read_text_loop closing out [] = Inl (clixml (lit ''EOF reading <'' @ closing @ lit ''>''))"
| "read_text_loop closing out (ev # evs) =
     (case ev of
        XText t \<Rightarrow> read_text_loop closing (out @ t) evs
      | XGeneralRef name char_ref predefined \<Rightarrow>
          (case char_ref of
             Inl e \<Rightarrow> Inl (clixml e)
           | Inr (Some c) \<Rightarrow> read_text_loop closing (out @ [c]) evs
           | Inr None \<Rightarrow>
               (case predefined of
                  Some s \<Rightarrow> read_text_loop closing (out @ s) evs
                | None \<Rightarrow> Inl (clixml (lit ''unknown entity reference &'' @ name @ lit '';''))))
      | XCData t \<Rightarrow> read_text_loop closing (out @ t) evs
      | XEnd name \<Rightarrow>
          if name = closing then Inr (decode_pwsh_escapes out, evs)
          else read_text_loop closing out evs
      | XFail e \<Rightarrow> Inl (clixml e)
      | _ \<Rightarrow> read_text_loop closing out evs)"

definition read_text :: "ustr \<Rightarrow> events \<Rightarrow> (ustr \<times> events) res" where
  "read_text closing evs = read_text_loop closing [] evs"

section \<open>Skipping\<close>

fun skip_loop :: "nat \<Rightarrow> events \<Rightarrow> events res" where
  "skip_loop depth [] = Inr []"
| "skip_loop depth (ev # evs) =
     (case ev of
        XStart _ _ \<Rightarrow> skip_loop (depth + 1) evs
      | XEnd _ \<Rightarrow> if depth - 1 = 0 then Inr evs else skip_loop (depth - 1) evs
      | XFail e \<Rightarrow> Inl (clixml e)
      | _ \<Rightarrow> skip_loop depth evs)"

definition skip_to_end :: "events \<Rightarrow> events res" where
  "skip_to_end evs = skip_loop 1 evs"

lemma read_text_loop_shorter:
  "read_text_loop closing out evs = Inr (text, rest) \<Longrightarrow> length rest < length evs"
  by (induction evs arbitrary: out)
    (auto intro!: less_SucI split: xml_event.splits sum.splits option.splits if_splits)

lemma skip_loop_shorter: "skip_loop depth evs = Inr rest \<Longrightarrow> length rest \<le> length evs"
  by (induction depth evs rule: skip_loop.induct) (auto split: xml_event.splits if_splits)

section \<open>Type names\<close>

function parse_type_names_loop :: "ustr list \<Rightarrow> events \<Rightarrow> (ustr list \<times> events) res" where
  "parse_type_names_loop out [] = Inl (clixml (lit ''EOF inside <TN>''))"
| "parse_type_names_loop out (ev # evs) =
     (case ev of
        XStart tag _ \<Rightarrow>
          if tag = lit ''T''
          then rbind (read_text (lit ''T'') evs) (\<lambda>(text, evs).
                 parse_type_names_loop (out @ [text]) evs)
          else parse_type_names_loop out evs
      | XEnd tag \<Rightarrow>
          if tag = lit ''TN'' then Inr (out, evs) else parse_type_names_loop out evs
      | XFail e \<Rightarrow> Inl (clixml e)
      | _ \<Rightarrow> parse_type_names_loop out evs)"
  by pat_completeness auto

termination
  by (relation "measure (\<lambda>(out, evs). length evs)")
    (auto simp: read_text_def dest!: read_text_loop_shorter)

lemma parse_type_names_shorter:
  "parse_type_names_loop out evs = Inr (names, rest) \<Longrightarrow> length rest < length evs"
proof (induction out evs rule: parse_type_names_loop.induct)
  case (2 out ev evs)
  then show ?case
    by (cases ev)
      (force simp: read_text_def rbind_Inr_iff dest: read_text_loop_shorter split: if_splits)+
qed simp

definition parse_type_names :: "events \<Rightarrow> (ustr list \<times> events) res" where
  "parse_type_names evs = parse_type_names_loop [] evs"

end
