(* ===== verification/Decode.thy ===== *)
theory Decode
  imports Encode Xml_Events
begin

text \<open>
  The CLIXML decoder (\<open>src/src/clixml/decode.rs\<close>) over an event stream.  \<open>dec_state\<close> is
  \<open>DecoderState\<close>; each parser takes the events still to be read and the state, and returns the
  value, the events left and the new state.  The recursion goes through \<open>parse_element\<close>, whose
  depth guard bounds it; the loops have fuel, one unit for every event still to be read, which is
  never exhausted (\<open>parse_clixml_total\<close>).

  Parameters: the \<open>quick_xml\<close> reader (a function from text to events), \<open>uuid\<close> and floats.
\<close>

section \<open>State and limits\<close>

definition U32_MAX :: nat where "U32_MAX = 4294967295"
definition U64_MAX :: nat where "U64_MAX = 18446744073709551615"

definition sat32 :: "nat \<Rightarrow> nat \<Rightarrow> nat" where "sat32 a b = min (a + b) U32_MAX"
definition sat64 :: "nat \<Rightarrow> nat \<Rightarrow> nat" where "sat64 a b = min (a + b) U64_MAX"

definition MAX_NESTING_DEPTH :: nat where "MAX_NESTING_DEPTH = 64"
definition REF_BUDGET_FLOOR :: nat where "REF_BUDGET_FLOOR = 2 ^ 20"
definition REF_BUDGET_CEILING :: nat where "REF_BUDGET_CEILING = 8 * 2 ^ 20"
definition REF_BUDGET_PER_BYTE :: nat where "REF_BUDGET_PER_BYTE = 8"

definition ref_budget :: "nat \<Rightarrow> nat" where
  "ref_budget xml_len =
     min (sat64 REF_BUDGET_FLOOR (min (xml_len * REF_BUDGET_PER_BYTE) U64_MAX)) REF_BUDGET_CEILING"

text \<open>The scan stops at the first reader error; malformed \<open>RefId\<close> attributes are left out.\<close>

definition ref_target :: "ustr \<Rightarrow> attr list \<Rightarrow> ustr list" where
  "ref_target tag attrs =
     (if tag = lit ''Ref'' then (case ref_id_attr attrs of Inr (Some r) \<Rightarrow> [r] | _ \<Rightarrow> []) else [])"

fun referenced_ids :: "events \<Rightarrow> ustr list" where
  "referenced_ids [] = []"
| "referenced_ids (ev # evs) =
     (case ev of
        XStart tag attrs \<Rightarrow> ref_target tag attrs @ referenced_ids evs
      | XEmpty tag attrs \<Rightarrow> ref_target tag attrs @ referenced_ids evs
      | XFail e \<Rightarrow> []
      | _ \<Rightarrow> referenced_ids evs)"

record dec_state =
  refs :: "ustr \<Rightarrow> ps_value option"
  referenced :: "ustr list"
  expanded :: nat
  budget :: nat
  known_names :: "ustr \<Rightarrow> ustr list option"
  depth :: nat

definition charge :: "nat \<Rightarrow> dec_state \<Rightarrow> dec_state res" where
  "charge weight st =
     (let expanded' = sat64 (expanded st) weight in
      if expanded' > budget st
      then Inl (clixml (lit ''CLIXML <Ref> expansion exceeds '' @ show_nat (budget st)))
      else Inr (st\<lparr>expanded := expanded'\<rparr>))"

section \<open>Weight and height\<close>

datatype children =
    NoChildren
  | ListChildren "ps_value list"
  | DictChildren "(ps_value \<times> ps_value) list"
  | ObjectChildren "(ustr \<times> ps_value) list" "ustr list" "ustr option"

fun children_of :: "ps_value \<Rightarrow> children" where
  "children_of (PsList vs) = ListChildren vs"
| "children_of (PsDict es) = DictChildren es"
| "children_of (PsObject obj) = ObjectChildren (properties obj) (type_names obj) (to_string obj)"
| "children_of _ = NoChildren"

lemma children_of_iffs:
  "children_of v = ListChildren vs \<longleftrightarrow> v = PsList vs"
  "children_of v = DictChildren es \<longleftrightarrow> v = PsDict es"
  "children_of v = ObjectChildren props names ts \<longleftrightarrow> v = PsObject (Ps_Object props names ts)"
  subgoal by (cases v) simp_all
  subgoal by (cases v) simp_all
  subgoal
  proof (cases v)
    case (PsObject obj)
    then show ?thesis by (cases obj) auto
  qed simp_all
  done

fun measure_names :: "nat \<Rightarrow> ustr list \<Rightarrow> nat" where
  "measure_names weight [] = weight"
| "measure_names weight (t # ts) = measure_names (sat64 (sat64 weight (utf8_len t)) 1) ts"

function measure_value :: "ps_value \<Rightarrow> nat \<times> nat"
  and measure_items :: "nat \<times> nat \<Rightarrow> ps_value list \<Rightarrow> nat \<times> nat"
  and measure_entries :: "nat \<times> nat \<Rightarrow> (ps_value \<times> ps_value) list \<Rightarrow> nat \<times> nat"
  and measure_props :: "nat \<times> nat \<Rightarrow> (ustr \<times> ps_value) list \<Rightarrow> nat \<times> nat"
where
  "measure_value v =
     (case children_of v of
        ListChildren vs \<Rightarrow> measure_items (1, 1) vs
      | DictChildren es \<Rightarrow> measure_entries (1, 1) es
      | ObjectChildren props names ts \<Rightarrow>
          measure_props
            (measure_names (sat64 (case ts of Some s \<Rightarrow> utf8_len s | None \<Rightarrow> 0) 1) names, 1) props
      | NoChildren \<Rightarrow>
          (case as_str v of
             Some s \<Rightarrow> (sat64 (utf8_len s) 1, 0)
           | None \<Rightarrow> (case v of PsBytes b \<Rightarrow> (sat64 (length b) 1, 0) | _ \<Rightarrow> (1, 0))))"
| "measure_items (w, h) [] = (w, h)"
| "measure_items (w, h) (v # vs) =
     (let (iw, ih) = measure_value v in measure_items (sat64 w iw, max h (sat32 ih 1)) vs)"
| "measure_entries (w, h) [] = (w, h)"
| "measure_entries (w, h) ((k, v) # es) =
     (let (kw, kh) = measure_value k; (vw, vh) = measure_value v
      in measure_entries (sat64 (sat64 w kw) vw, max h (sat32 (max kh vh) 1)) es)"
| "measure_props (w, h) [] = (w, h)"
| "measure_props (w, h) ((name, v) # props) =
     (let (vw, vh) = measure_value v
      in measure_props (sat64 (sat64 (sat64 w (utf8_len name)) 1) vw, max h (sat32 vh 1)) props)"
  by pat_completeness auto

termination
  by (relation "measure (case_sum
      (case_sum (\<lambda>v. size v) (\<lambda>(a, vs). size_list size vs))
      (case_sum (\<lambda>(a, es). size_list (size_prod size size) es)
        (\<lambda>(a, props). size_list (size_prod (\<lambda>_. 0) size) props)))")
    (simp_all add: children_of_iffs)

section \<open>References\<close>

definition resolve_ref :: "attr list \<Rightarrow> dec_state \<Rightarrow> nat \<Rightarrow> (ps_value \<times> dec_state) res" where
  "resolve_ref attrs st level =
     rbind (ref_id_attr attrs) (\<lambda>r.
       case Option.bind r (refs st) of
         None \<Rightarrow> Inr (PsNull, st)
       | Some target \<Rightarrow>
           let (weight, height) = measure_value target in
           if sat32 (sat32 (depth st) level) height > MAX_NESTING_DEPTH
           then Inl (clixml (lit ''CLIXML <Ref> would nest deeper than ''
                             @ show_nat MAX_NESTING_DEPTH @ lit '' levels''))
           else rbind (charge weight st) (\<lambda>st. Inr (target, st)))"

definition parse_empty :: "ustr \<Rightarrow> attr list \<Rightarrow> dec_state \<Rightarrow> (ps_value option \<times> dec_state) res" where
  "parse_empty tag attrs st =
     (if tag = lit ''Nil'' then Inr (Some PsNull, st)
      else if tag = lit ''Ref''
      then rbind (resolve_ref attrs st 1) (\<lambda>(v, st). Inr (Some v, st))
      else if tag = lit ''S'' then Inr (Some (PsString []), st)
      else if tag = lit ''SBK'' \<or> tag = lit ''SCT'' then Inr (Some (PsScriptBlock []), st)
      else Inr (None, st))"

section \<open>Scalars\<close>

definition parse_int_text :: "int \<Rightarrow> int \<Rightarrow> ustr \<Rightarrow> ustr \<Rightarrow> int res" where
  "parse_int_text lo hi closing text =
     (case from_str_radix 10 lo hi (trim text) of
        Inl e \<Rightarrow> Inl (clixml (closing @ lit '': '' @ int_error_text e))
      | Inr i \<Rightarrow> Inr i)"

definition parse_bool_text :: "ustr \<Rightarrow> bool res" where
  "parse_bool_text text =
     (let t = to_ascii_lowercase (trim text) in
      if t = lit ''true'' \<or> t = lit ''1'' then Inr True
      else if t = lit ''false'' \<or> t = lit ''0'' then Inr False
      else Inl (clixml (lit ''B: bad bool '' @ [0x27] @ t @ [0x27])))"

definition parse_float :: "float_api \<Rightarrow> ustr \<Rightarrow> ustr + u64" where
  "parse_float F s =
     (if s = lit ''NaN'' then Inr 0x7FF8000000000000
      else if s = lit ''Infinity'' then Inr 0x7FF0000000000000
      else if s = lit ''-Infinity'' then Inr 0xFFF0000000000000
      else parse_f64 F s)"

definition float_text :: "float_api \<Rightarrow> ustr \<Rightarrow> ustr \<Rightarrow> u64 res" where
  "float_text F closing text =
     (case parse_float F (trim text) of
        Inl e \<Rightarrow> Inl (clixml (closing @ lit '': '' @ e))
      | Inr v \<Rightarrow> Inr v)"

text \<open>
  The arms of \<open>parse_element_inner\<close> that read one text: the parser of the text, by tag.
\<close>

definition scalar_parsers :: "uuid_api \<Rightarrow> float_api \<Rightarrow> (ustr \<times> (ustr \<Rightarrow> ps_value res)) list" where
  "scalar_parsers U F =
    [(lit ''S'', \<lambda>t. Inr (PsString t)),
     (lit ''I32'', \<lambda>t. map_sum id (\<lambda>i. PsI32 (word_of_int i))
        (parse_int_text (- 2147483648) 2147483647 (lit ''I32'') t)),
     (lit ''I64'', \<lambda>t. map_sum id (\<lambda>i. PsI64 (word_of_int i))
        (parse_int_text (- 9223372036854775808) 9223372036854775807 (lit ''I64'') t)),
     (lit ''B'', \<lambda>t. map_sum id PsBool (parse_bool_text t)),
     (lit ''Db'', \<lambda>t. map_sum id PsDouble (float_text F (lit ''Db'') t)),
     (lit ''Sg'', \<lambda>t. map_sum id (\<lambda>v. PsF32 (f32_of_f64 F v)) (float_text F (lit ''Sg'') t)),
     (lit ''SB'', \<lambda>t. map_sum id (\<lambda>i. PsI8 (word_of_int i))
        (parse_int_text (- 128) 127 (lit ''SB'') t)),
     (lit ''By'', \<lambda>t. map_sum id (\<lambda>i. PsU8 (word_of_int i)) (parse_int_text 0 255 (lit ''By'') t)),
     (lit ''I16'', \<lambda>t. map_sum id (\<lambda>i. PsI16 (word_of_int i))
        (parse_int_text (- 32768) 32767 (lit ''I16'') t)),
     (lit ''U16'', \<lambda>t. map_sum id (\<lambda>i. PsU16 (word_of_int i))
        (parse_int_text 0 65535 (lit ''U16'') t)),
     (lit ''U32'', \<lambda>t. map_sum id (\<lambda>i. PsU32 (word_of_int i))
        (parse_int_text 0 4294967295 (lit ''U32'') t)),
     (lit ''U64'', \<lambda>t. map_sum id (\<lambda>i. PsU64 (word_of_int i))
        (parse_int_text 0 18446744073709551615 (lit ''U64'') t)),
     (lit ''D'', \<lambda>t. Inr (PsDecimal (trim t))),
     (lit ''C'', \<lambda>t. map_sum id
        (\<lambda>i. PsChar (case char_from_u32 (nat i) of Some c \<Rightarrow> c | None \<Rightarrow> REPLACEMENT))
        (parse_int_text 0 4294967295 (lit ''C'') t)),
     (lit ''BA'', \<lambda>t. ok_or (map_option PsBytes (base64_decode (trim t)))
        (clixml (lit ''BA: invalid base64''))),
     (lit ''DT'', \<lambda>t. Inr (PsDateTime t)),
     (lit ''TS'', \<lambda>t. Inr (PsDuration t)),
     (lit ''G'', \<lambda>t. case parse_str U (trim t) of
        Inl e \<Rightarrow> Inl (clixml (lit ''G: '' @ e)) | Inr g \<Rightarrow> Inr (PsGuid g)),
     (lit ''Version'', \<lambda>t. Inr (PsVersion t)),
     (lit ''URI'', \<lambda>t. Inr (PsUri t)),
     (lit ''XD'', \<lambda>t. Inr (PsXml t)),
     (lit ''SBK'', \<lambda>t. Inr (PsScriptBlock t)),
     (lit ''SCT'', \<lambda>t. Inr (PsScriptBlock t)),
     (lit ''SS'', \<lambda>t. Inr (PsSecureString t))]"

section \<open>Elements\<close>

text \<open>What a parser returns: no answer for want of fuel, an error, or a result.\<close>

datatype 'a dec = Out_Of_Fuel | Failed psrp_error | Done 'a

fun dbind :: "'a dec \<Rightarrow> ('a \<Rightarrow> 'b dec) \<Rightarrow> 'b dec" where
  "dbind Out_Of_Fuel f = Out_Of_Fuel"
| "dbind (Failed e) f = Failed e"
| "dbind (Done x) f = f x"

fun dlift :: "'a res \<Rightarrow> 'a dec" where
  "dlift (Inl e) = Failed e"
| "dlift (Inr x) = Done x"

definition object_insert :: "ustr \<Rightarrow> ps_value \<Rightarrow> ps_object \<Rightarrow> ps_object" where
  "object_insert name v obj = object_with obj name v"

definition use_type_names :: "ustr option \<Rightarrow> dec_state \<Rightarrow> ps_object \<Rightarrow> ps_object" where
  "use_type_names rid st obj =
     (case Option.bind rid (known_names st) of
        Some names \<Rightarrow> with_type_names obj names
      | None \<Rightarrow> obj)"

definition keep_names :: "ustr option \<Rightarrow> ustr list \<Rightarrow> dec_state \<Rightarrow> dec_state" where
  "keep_names rid names st =
     (case rid of Some r \<Rightarrow> st\<lparr>known_names := (known_names st)(r \<mapsto> names)\<rparr> | None \<Rightarrow> st)"

definition keep_ref :: "ustr option \<Rightarrow> ps_value \<Rightarrow> dec_state \<Rightarrow> dec_state res" where
  "keep_ref ref_id v st =
     (case ref_id of
        Some rid \<Rightarrow>
          if rid \<in> set (referenced st)
          then rbind (charge (fst (measure_value v)) st) (\<lambda>st.
                 Inr (st\<lparr>refs := (refs st)(rid \<mapsto> v)\<rparr>))
          else Inr st
      | None \<Rightarrow> Inr st)"

text \<open>The end of \<open>parse_obj_body\<close>: an embedded value of an object without properties.\<close>

definition expose_embedded :: "ps_value option \<Rightarrow> ps_object \<Rightarrow> ps_object" where
  "expose_embedded embedded obj =
     (case embedded of
        Some v \<Rightarrow> if properties obj = [] then object_insert VALUE_KEY v obj else obj
      | None \<Rightarrow> obj)"

definition unwrap_or_default :: "ustr option \<Rightarrow> ustr" where
  "unwrap_or_default m = (case m of Some s \<Rightarrow> s | None \<Rightarrow> [])"

definition set_entry :: "ustr \<Rightarrow> ps_value \<Rightarrow> ps_value \<times> ps_value \<Rightarrow> ps_value \<times> ps_value" where
  "set_entry name v kv =
     (if name = lit ''Key'' then (v, snd kv) else if name = lit ''Value'' then (fst kv, v) else kv)"

definition list_tags :: "ustr list" where
  "list_tags = [lit ''LST'', lit ''IE'', lit ''QUE'', lit ''STK'']"

type_synonym element_parser =
  "ustr \<Rightarrow> attr list \<Rightarrow> events \<Rightarrow> dec_state \<Rightarrow> (ps_value option \<times> events \<times> dec_state) dec"

text \<open>
  The loops of the member sets, lists, dictionaries and object bodies take the parser for the
  elements inside as a parameter.  Every turn of a loop reads an event, so that one more than the
  number of events is fuel enough.
\<close>

fun parse_member_set ::
    "element_parser \<Rightarrow> nat \<Rightarrow> ps_object \<Rightarrow> ustr \<Rightarrow> events \<Rightarrow> dec_state
     \<Rightarrow> (ps_object \<times> events \<times> dec_state) dec" where
  "parse_member_set elem 0 obj closing evs st = Out_Of_Fuel"
| "parse_member_set elem (Suc f) obj closing [] st = Failed (clixml (lit ''EOF inside member set''))"
| "parse_member_set elem (Suc f) obj closing (ev # evs) st =
     (case ev of
        XStart tag attrs \<Rightarrow>
          dbind (dlift (name_attr attrs)) (\<lambda>name.
          dbind (elem tag attrs evs st) (\<lambda>(v, evs, st).
          parse_member_set elem f
            (case v of Some v \<Rightarrow> object_insert (unwrap_or_default name) v obj | None \<Rightarrow> obj)
            closing evs st))
      | XEmpty tag attrs \<Rightarrow>
          if tag = lit ''Nil'' then
            dbind (dlift (name_attr attrs)) (\<lambda>name.
            parse_member_set elem f
              (case name of Some n \<Rightarrow> object_insert n PsNull obj | None \<Rightarrow> obj) closing evs st)
          else
            dbind (dlift (parse_empty tag attrs st)) (\<lambda>(v, st).
            case v of
              Some v \<Rightarrow>
                dbind (dlift (name_attr attrs)) (\<lambda>name.
                parse_member_set elem f (object_insert (unwrap_or_default name) v obj) closing evs st)
            | None \<Rightarrow> parse_member_set elem f obj closing evs st)
      | XEnd tag \<Rightarrow>
          if tag = closing then Done (obj, evs, st)
          else parse_member_set elem f obj closing evs st
      | XFail e \<Rightarrow> Failed (clixml e)
      | _ \<Rightarrow> parse_member_set elem f obj closing evs st)"

fun parse_list ::
    "element_parser \<Rightarrow> nat \<Rightarrow> ps_value list \<Rightarrow> ustr \<Rightarrow> events \<Rightarrow> dec_state
     \<Rightarrow> (ps_value list \<times> events \<times> dec_state) dec" where
  "parse_list elem 0 items closing evs st = Out_Of_Fuel"
| "parse_list elem (Suc f) items closing [] st = Failed (clixml (lit ''EOF inside list''))"
| "parse_list elem (Suc f) items closing (ev # evs) st =
     (case ev of
        XStart tag attrs \<Rightarrow>
          dbind (elem tag attrs evs st) (\<lambda>(v, evs, st).
          parse_list elem f (case v of Some v \<Rightarrow> items @ [v] | None \<Rightarrow> items) closing evs st)
      | XEmpty tag attrs \<Rightarrow>
          dbind (dlift (parse_empty tag attrs st)) (\<lambda>(v, st).
          parse_list elem f (case v of Some v \<Rightarrow> items @ [v] | None \<Rightarrow> items) closing evs st)
      | XEnd tag \<Rightarrow>
          if tag = closing then Done (items, evs, st)
          else parse_list elem f items closing evs st
      | XFail e \<Rightarrow> Failed (clixml e)
      | _ \<Rightarrow> parse_list elem f items closing evs st)"

fun parse_dict_entry ::
    "element_parser \<Rightarrow> nat \<Rightarrow> ps_value \<times> ps_value \<Rightarrow> events \<Rightarrow> dec_state
     \<Rightarrow> ((ps_value \<times> ps_value) \<times> events \<times> dec_state) dec" where
  "parse_dict_entry elem 0 kv evs st = Out_Of_Fuel"
| "parse_dict_entry elem (Suc f) kv [] st = Failed (clixml (lit ''EOF inside <En>''))"
| "parse_dict_entry elem (Suc f) kv (ev # evs) st =
     (case ev of
        XStart tag attrs \<Rightarrow>
          dbind (dlift (name_attr attrs)) (\<lambda>name.
          dbind (elem tag attrs evs st) (\<lambda>(v, evs, st).
          parse_dict_entry elem f
            (case v of Some v \<Rightarrow> set_entry (unwrap_or_default name) v kv | None \<Rightarrow> kv) evs st))
      | XEmpty tag attrs \<Rightarrow>
          dbind (dlift (parse_empty tag attrs st)) (\<lambda>(v, st).
          case v of
            Some v \<Rightarrow>
              dbind (dlift (name_attr attrs)) (\<lambda>name.
              parse_dict_entry elem f (set_entry (unwrap_or_default name) v kv) evs st)
          | None \<Rightarrow> parse_dict_entry elem f kv evs st)
      | XEnd tag \<Rightarrow>
          if tag = lit ''En'' then Done (kv, evs, st)
          else parse_dict_entry elem f kv evs st
      | XFail e \<Rightarrow> Failed (clixml e)
      | _ \<Rightarrow> parse_dict_entry elem f kv evs st)"

fun parse_dict ::
    "element_parser \<Rightarrow> nat \<Rightarrow> (ps_value \<times> ps_value) list \<Rightarrow> events \<Rightarrow> dec_state
     \<Rightarrow> ((ps_value \<times> ps_value) list \<times> events \<times> dec_state) dec" where
  "parse_dict elem 0 entries evs st = Out_Of_Fuel"
| "parse_dict elem (Suc f) entries [] st = Failed (clixml (lit ''EOF inside <DCT>''))"
| "parse_dict elem (Suc f) entries (ev # evs) st =
     (case ev of
        XStart tag attrs \<Rightarrow>
          if tag = lit ''En'' then
            dbind (parse_dict_entry elem f (PsNull, PsNull) evs st) (\<lambda>(kv, evs, st).
            parse_dict elem f (entries @ [kv]) evs st)
          else parse_dict elem f entries evs st
      | XEnd tag \<Rightarrow>
          if tag = lit ''DCT'' then Done (entries, evs, st)
          else parse_dict elem f entries evs st
      | XFail e \<Rightarrow> Failed (clixml e)
      | _ \<Rightarrow> parse_dict elem f entries evs st)"

fun parse_obj_body ::
    "element_parser \<Rightarrow> nat \<Rightarrow> ps_object \<Rightarrow> ps_value option \<Rightarrow> events \<Rightarrow> dec_state
     \<Rightarrow> (ps_object \<times> events \<times> dec_state) dec" where
  "parse_obj_body elem 0 obj embedded evs st = Out_Of_Fuel"
| "parse_obj_body elem (Suc f) obj embedded [] st =
     Failed (clixml (lit ''unexpected EOF inside <Obj>''))"
| "parse_obj_body elem (Suc f) obj embedded (ev # evs) st =
     (case ev of
        XStart tag attrs \<Rightarrow>
          if tag = lit ''MS'' \<or> tag = lit ''Props'' then
            dbind (parse_member_set elem f obj tag evs st) (\<lambda>(obj, evs, st).
            parse_obj_body elem f obj embedded evs st)
          else if tag = lit ''TN'' then
            dbind (dlift (ref_id_attr attrs)) (\<lambda>rid.
            dbind (dlift (parse_type_names evs)) (\<lambda>(names, evs).
            parse_obj_body elem f (with_type_names obj names) embedded evs (keep_names rid names st)))
          else if tag = lit ''TNRef'' then
            dbind (dlift (ref_id_attr attrs)) (\<lambda>rid.
            dbind (dlift (skip_to_end evs)) (\<lambda>evs.
            parse_obj_body elem f (use_type_names rid st obj) embedded evs st))
          else if tag \<in> set list_tags then
            dbind (parse_list elem f [] tag evs st) (\<lambda>(items, evs, st).
            parse_obj_body elem f obj (Some (PsList items)) evs st)
          else if tag = lit ''DCT'' then
            dbind (parse_dict elem f [] evs st) (\<lambda>(entries, evs, st).
            parse_obj_body elem f obj (Some (PsDict entries)) evs st)
          else
            dbind (elem tag attrs evs st) (\<lambda>(v, evs, st).
            parse_obj_body elem f obj (case embedded of Some w \<Rightarrow> Some w | None \<Rightarrow> v) evs st)
      | XEmpty tag attrs \<Rightarrow>
          if tag = lit ''TNRef'' then
            dbind (dlift (ref_id_attr attrs)) (\<lambda>rid.
            parse_obj_body elem f (use_type_names rid st obj) embedded evs st)
          else parse_obj_body elem f obj embedded evs st
      | XEnd tag \<Rightarrow>
          if tag = lit ''Obj'' then Done (expose_embedded embedded obj, evs, st)
          else parse_obj_body elem f obj embedded evs st
      | XFail e \<Rightarrow> Failed (clixml e)
      | _ \<Rightarrow> parse_obj_body elem f obj embedded evs st)"

definition parse_element_inner ::
    "uuid_api \<Rightarrow> float_api \<Rightarrow> element_parser \<Rightarrow> ustr \<Rightarrow> attr list \<Rightarrow> events \<Rightarrow> dec_state
     \<Rightarrow> (ps_value option \<times> events \<times> dec_state) dec" where
  "parse_element_inner U F elem tag attrs evs st =
     (case map_of (scalar_parsers U F) tag of
        Some parser \<Rightarrow>
          dbind (dlift (read_text tag evs)) (\<lambda>(text, evs).
          dbind (dlift (parser text)) (\<lambda>v. Done (Some v, evs, st)))
      | None \<Rightarrow>
          if tag = lit ''Obj'' then
            dbind (dlift (ref_id_attr attrs)) (\<lambda>ref_id.
            dbind (parse_obj_body elem (Suc (length evs)) object_new None evs st) (\<lambda>(obj, evs, st).
            dbind (dlift (keep_ref ref_id (PsObject obj) st)) (\<lambda>st.
            Done (Some (PsObject obj), evs, st))))
          else if tag = lit ''Ref'' then
            dbind (dlift (resolve_ref attrs st 0)) (\<lambda>(v, st).
            dbind (dlift (skip_to_end evs)) (\<lambda>evs. Done (Some v, evs, st)))
          else
            dbind (dlift (skip_to_end evs)) (\<lambda>evs. Done (None, evs, st)))"

definition depth_error :: psrp_error where
  "depth_error = clixml (lit ''CLIXML nested deeper than '' @ show_nat MAX_NESTING_DEPTH
     @ lit '' levels'')"

text \<open>
  \<open>levels\<close> is how many more levels the depth guard admits, \<open>MAX_NESTING_DEPTH - depth st\<close>: when it
  is used up the guard fails, so the recursion is on it.
\<close>

fun parse_element ::
    "uuid_api \<Rightarrow> float_api \<Rightarrow> nat \<Rightarrow> ustr \<Rightarrow> attr list \<Rightarrow> events \<Rightarrow> dec_state
     \<Rightarrow> (ps_value option \<times> events \<times> dec_state) dec" where
  "parse_element U F 0 tag attrs evs st = Failed depth_error"
| "parse_element U F (Suc levels) tag attrs evs st =
     (if depth st \<ge> MAX_NESTING_DEPTH then Failed depth_error
      else dbind (parse_element_inner U F (parse_element U F levels) tag attrs evs
                    (st\<lparr>depth := depth st + 1\<rparr>))
             (\<lambda>(v, evs, st). Done (v, evs, st\<lparr>depth := depth st - 1\<rparr>)))"

section \<open>Documents\<close>

fun parse_siblings ::
    "element_parser \<Rightarrow> nat \<Rightarrow> ps_value list \<Rightarrow> events \<Rightarrow> dec_state \<Rightarrow> ps_value list dec" where
  "parse_siblings elem 0 out evs st = Out_Of_Fuel"
| "parse_siblings elem (Suc f) out [] st = Done out"
| "parse_siblings elem (Suc f) out (ev # evs) st =
     (case ev of
        XStart tag attrs \<Rightarrow>
          dbind (elem tag attrs evs st) (\<lambda>(v, evs, st).
          parse_siblings elem f (case v of Some v \<Rightarrow> out @ [v] | None \<Rightarrow> out) evs st)
      | XEmpty tag attrs \<Rightarrow>
          dbind (dlift (parse_empty tag attrs st)) (\<lambda>(v, st).
          parse_siblings elem f (case v of Some v \<Rightarrow> out @ [v] | None \<Rightarrow> out) evs st)
      | XFail e \<Rightarrow> Failed (clixml e)
      | _ \<Rightarrow> parse_siblings elem f out evs st)"

definition initial_state :: "nat \<Rightarrow> events \<Rightarrow> dec_state" where
  "initial_state xml_len evs =
     \<lparr>refs = (\<lambda>_. None), referenced = referenced_ids evs, expanded = 0, budget = ref_budget xml_len,
      known_names = (\<lambda>_. None), depth = 0\<rparr>"

definition parse_clixml_dec ::
    "uuid_api \<Rightarrow> float_api \<Rightarrow> xml_reader \<Rightarrow> ustr \<Rightarrow> ps_value list dec" where
  "parse_clixml_dec U F reader xml =
     (let cleaned = trim_start (dropWhile (\<lambda>c. c = BOM_CHAR) xml); evs = reader cleaned in
      parse_siblings (parse_element U F MAX_NESTING_DEPTH) (Suc (length evs)) [] evs
        (initial_state (utf8_len cleaned) evs))"

text \<open>The result as the code has it; the fuel is always enough (\<open>parse_clixml_total\<close>).\<close>

definition parse_clixml :: "uuid_api \<Rightarrow> float_api \<Rightarrow> xml_reader \<Rightarrow> ustr \<Rightarrow> ps_value list res" where
  "parse_clixml U F reader xml =
     (case parse_clixml_dec U F reader xml of
        Done vs \<Rightarrow> Inr vs | Failed e \<Rightarrow> Inl e | Out_Of_Fuel \<Rightarrow> Inr [])"

end
