(* ===== verification/Decode_Limits.thy ===== *)
theory Decode_Limits
  imports Decode
begin

text \<open>
  What bounds the decoder on hostile documents: it always answers, its values are never nested
  deeper than the depth guard allows, and what references make it copy stays within the budget.
  The loops are verified once against the locale \<open>element_parser_laws\<close>, the contract of the
  parser for the elements inside; \<open>parse_element\<close> is shown to satisfy it, level by level.
\<close>

section \<open>Height and weight\<close>

function height :: "ps_value \<Rightarrow> nat"
  and height_items :: "ps_value list \<Rightarrow> nat"
  and height_entries :: "(ps_value \<times> ps_value) list \<Rightarrow> nat"
  and height_props :: "(ustr \<times> ps_value) list \<Rightarrow> nat"
where
  "height v =
     (case children_of v of
        NoChildren \<Rightarrow> 0
      | ListChildren vs \<Rightarrow> Suc (height_items vs)
      | DictChildren es \<Rightarrow> Suc (height_entries es)
      | ObjectChildren props names ts \<Rightarrow> Suc (height_props props))"
| "height_items [] = 0"
| "height_items (v # vs) = max (height v) (height_items vs)"
| "height_entries [] = 0"
| "height_entries ((k, v) # es) = max (max (height k) (height v)) (height_entries es)"
| "height_props [] = 0"
| "height_props ((name, v) # props) = max (height v) (height_props props)"
  by pat_completeness auto

termination
  by (relation "measure (case_sum
      (case_sum (\<lambda>v. size v) (\<lambda>vs. size_list size vs))
      (case_sum (\<lambda>es. size_list (size_prod size size) es)
        (\<lambda>props. size_list (size_prod (\<lambda>_. 0) size) props)))")
    (simp_all add: children_of_iffs)

declare height.simps [simp del] measure_value.simps [simp del]

lemma height_simps [simp]:
  "height (PsList vs) = Suc (height_items vs)"
  "height (PsDict es) = Suc (height_entries es)"
  "height (PsObject obj) = Suc (height_props (properties obj))"
  "children_of v = NoChildren \<Longrightarrow> height v = 0"
  by (simp_all add: height.simps)

lemma height_items_le_iff: "height_items vs \<le> h \<longleftrightarrow> (\<forall>v\<in>set vs. height v \<le> h)"
  by (induction vs) auto

lemma height_entries_le_iff:
  "height_entries es \<le> h \<longleftrightarrow> (\<forall>(k, v)\<in>set es. height k \<le> h \<and> height v \<le> h)"
  by (induction es) auto

lemma height_props_le_iff: "height_props props \<le> h \<longleftrightarrow> (\<forall>(name, v)\<in>set props. height v \<le> h)"
  by (induction props) auto

text \<open>The height \<open>measure\<close> returns is the height of the value, up to saturation.\<close>

definition level_height :: "bool \<Rightarrow> nat \<Rightarrow> nat" where
  "level_height none h = (if none then 0 else min (Suc h) U32_MAX)"

lemma level_Cons:
  "max (max a (sat32 (min hv U32_MAX) (Suc 0))) (level_height none hs) = max a (level_height False (max hv (if none then 0 else hs)))"
  by (cases none) (auto simp: level_height_def sat32_def max_def min_def)

lemma max_of_mins: "max (min a U32_MAX) (min b U32_MAX) = min (max a b) U32_MAX"
  by (simp add: max_def min_def)

lemma heights_none:
  "(if vs = [] then 0 else height_items vs) = height_items vs"
  "(if es = [] then 0 else height_entries es) = height_entries es"
  "(if props = [] then 0 else height_props props) = height_props props"
  by simp_all

lemma U32_MAX_ge_1: "1 \<le> U32_MAX" "Suc 0 \<le> U32_MAX"
  by (simp_all add: U32_MAX_def)

lemma snd_measure:
  "snd (measure_value v) = min (height v) U32_MAX"
  "snd (measure_items a vs) = max (snd a) (level_height (vs = []) (height_items vs))"
  "snd (measure_entries a es) = max (snd a) (level_height (es = []) (height_entries es))"
  "snd (measure_props a props) = max (snd a) (level_height (props = []) (height_props props))"
proof (induction v and a vs and a es and a props
    rule: measure_value_measure_items_measure_entries_measure_props.induct)
  case (1 v)
  show ?case
  proof (cases "children_of v")
    case NoChildren
    then show ?thesis
      by (simp add: measure_value.simps [of v] split: option.split ps_value.split)
  next
    case (ListChildren vs)
    then show ?thesis using 1(1) [OF ListChildren] U32_MAX_ge_1
      by (simp add: measure_value.simps [of v] height.simps [of v] level_height_def)
  next
    case (DictChildren es)
    then show ?thesis using 1(2) [OF DictChildren] U32_MAX_ge_1
      by (simp add: measure_value.simps [of v] height.simps [of v] level_height_def)
  next
    case (ObjectChildren props names ts)
    then show ?thesis using 1(3) [OF ObjectChildren] U32_MAX_ge_1
      by (simp add: measure_value.simps [of v] height.simps [of v] level_height_def)
  qed
next
  case (3 w h v vs)
  then show ?case
    by (cases "measure_value v") (simp add: level_Cons heights_none)
next
  case (5 w h k v es)
  then show ?case
    by (cases "measure_value k"; cases "measure_value v")
      (simp add: max_of_mins level_Cons heights_none)
next
  case (7 w h name v props)
  then show ?case
    by (cases "measure_value v") (simp add: level_Cons heights_none)
qed (simp_all add: level_height_def)

section \<open>The contract of a parser\<close>

definition st_step :: "dec_state \<Rightarrow> dec_state \<Rightarrow> bool" where
  "st_step st st' \<longleftrightarrow>
     depth st' = depth st \<and> budget st' = budget st
     \<and> (expanded st \<le> budget st \<longrightarrow> expanded st' \<le> budget st')"

lemma st_step_refl [simp]: "st_step st st"
  by (simp add: st_step_def)

lemma st_step_trans: "st_step a b \<Longrightarrow> st_step b c \<Longrightarrow> st_step a c"
  by (auto simp: st_step_def)

definition runs :: "events \<Rightarrow> dec_state \<Rightarrow> ('a \<Rightarrow> bool) \<Rightarrow> ('a \<times> events \<times> dec_state) dec \<Rightarrow> bool" where
  "runs evs st P r \<longleftrightarrow>
     r \<noteq> Out_Of_Fuel
     \<and> (\<forall>x rest st'. r = Done (x, rest, st') \<longrightarrow> length rest \<le> length evs \<and> st_step st st' \<and> P x)"

named_theorems runs_rules \<open>how the contract passes through the parsers' steps\<close>

lemma runs_Failed [simp, runs_rules]: "runs evs st P (Failed e)"
  by (simp add: runs_def)

lemma runs_Done [runs_rules]:
  "P x \<Longrightarrow> length rest \<le> length evs \<Longrightarrow> st_step st st' \<Longrightarrow> runs evs st P (Done (x, rest, st'))"
  by (simp add: runs_def)

lemma runs_weaken:
  "runs evs' st' P r \<Longrightarrow> length evs' \<le> length evs \<Longrightarrow> st_step st st' \<Longrightarrow> runs evs st P r"
  by (cases r) (auto simp: runs_def dest: st_step_trans)

lemma runs_mono: "runs evs st P r \<Longrightarrow> (\<And>x. P x \<Longrightarrow> Q x) \<Longrightarrow> runs evs st Q r"
  by (auto simp: runs_def)

lemma runs_bind [runs_rules]:
  assumes "runs evs st P m"
    and "\<And>x evs' st'. P x \<Longrightarrow> length evs' \<le> length evs \<Longrightarrow> st_step st st' \<Longrightarrow> runs evs' st' Q (f (x, evs', st'))"
  shows "runs evs st Q (dbind m f)"
proof (cases m)
  case (Done y)
  obtain x rest st' where y: "y = (x, rest, st')" by (cases y)
  with Done assms(1) have *: "P x" "length rest \<le> length evs" "st_step st st'"
    by (simp_all add: runs_def)
  have "runs evs st Q (f (x, rest, st'))"
    by (rule runs_weaken [OF assms(2) [OF *] *(2,3)])
  then show ?thesis by (simp add: Done y)
qed (use assms(1) in \<open>simp_all add: runs_def\<close>)

lemma runs_lift [runs_rules]:
  assumes "\<And>x. r = Inr x \<Longrightarrow> runs evs st Q (f x)"
  shows "runs evs st Q (dbind (dlift r) f)"
  using assms by (cases r) simp_all


lemma st_step_keep_names [simp]: "st_step st (keep_names rid names st)"
  by (simp add: st_step_def keep_names_def split: option.split)

lemma charge_step: "charge w st = Inr st' \<Longrightarrow> st_step st st'"
  by (auto simp: charge_def st_step_def Let_def sat64_def split: if_splits) 

lemma keep_ref_step: "keep_ref rid v st = Inr st' \<Longrightarrow> st_step st st'"
  by (auto simp: keep_ref_def rbind_Inr_iff st_step_def dest!: charge_step split: option.splits if_splits)

lemma resolve_ref_InrD:
  assumes "resolve_ref attrs st lvl = Inr (v, st')"
  shows "st_step st st' \<and> (height v = 0 \<or> depth st + lvl + height v \<le> MAX_NESTING_DEPTH)"
proof -
  obtain r where r: "ref_id_attr attrs = Inr r"
    using assms by (auto simp: resolve_ref_def rbind_Inr_iff)
  show ?thesis
  proof (cases "Option.bind r (refs st)")
    case None
    then show ?thesis using assms r by (auto simp: resolve_ref_def)
  next
    case (Some target)
    obtain w h where wh: "measure_value target = (w, h)" by (cases "measure_value target")
    with assms r Some have *: "sat32 (sat32 (depth st) lvl) h \<le> MAX_NESTING_DEPTH"
      "charge w st = Inr st'" "target = v"
      by (auto simp: resolve_ref_def rbind_Inr_iff split: if_splits)
    have "h = min (height v) U32_MAX" using snd_measure(1) [of v] wh *(3) by simp
    then have "depth st + lvl + height v \<le> MAX_NESTING_DEPTH"
      using *(1) by (simp add: sat32_def MAX_NESTING_DEPTH_def U32_MAX_def min_def split: if_splits)
    then show ?thesis using charge_step [OF *(2)] by blast
  qed
qed

text \<open>The heights the levels below depth \<open>d\<close> admit: two per \<open><Obj>\<close>, itself and the list in it.\<close>

definition bound :: "nat \<Rightarrow> nat" where
  "bound d = 2 * (MAX_NESTING_DEPTH - d)"

lemma parse_empty_InrD:
  assumes "parse_empty tag attrs st = Inr (v, st')"
  shows "st_step st st' \<and> (\<forall>w. v = Some w \<longrightarrow> height w \<le> bound (depth st))"
proof (cases "tag = lit ''Ref''")
  case True
  then obtain w where w: "resolve_ref attrs st 1 = Inr (w, st')" "v = Some w"
    using assms by (auto simp: parse_empty_def rbind_Inr_iff)
  then show ?thesis using resolve_ref_InrD [OF w(1)] by (auto simp: bound_def)
next
  case False
  then show ?thesis using assms by (auto simp: parse_empty_def split: if_splits)
qed

section \<open>The loops\<close>

lemma height_props_insert:
  "height v \<le> b \<Longrightarrow> height_props props \<le> b \<Longrightarrow> height_props (imap_insert name v props) \<le> b"
  by (induction props) auto

lemma object_insert_height:
  "height v \<le> b \<Longrightarrow> height_props (properties obj) \<le> b \<Longrightarrow>
   height_props (properties (object_insert name v obj)) \<le> b"
  by (simp add: object_insert_def object_with_def height_props_insert)

lemma object_helpers [simp]:
  "properties (with_type_names obj names) = properties obj"
  "properties (use_type_names rid st obj) = properties obj"
  "properties object_new = []"
  by (simp_all add: with_type_names_def use_type_names_def object_new_def split: option.split)

definition opt_height :: "nat \<Rightarrow> ps_value option \<Rightarrow> bool" where
  "opt_height b v \<longleftrightarrow> (\<forall>w. v = Some w \<longrightarrow> height w \<le> b)"

lemma opt_height_simps [simp]: "opt_height b None" "opt_height b (Some w) \<longleftrightarrow> height w \<le> b"
  by (simp_all add: opt_height_def)

definition pair_height :: "nat \<Rightarrow> ps_value \<times> ps_value \<Rightarrow> bool" where
  "pair_height b kv \<longleftrightarrow> height (fst kv) \<le> b \<and> height (snd kv) \<le> b"

lemma height_items_snoc: "height_items (vs @ [v]) = max (height_items vs) (height v)"
  by (induction vs) auto

lemma height_entries_snoc:
  "height_entries (es @ [kv]) \<le> b \<longleftrightarrow> height_entries es \<le> b \<and> pair_height b kv"
  by (auto simp: height_entries_le_iff pair_height_def split_beta)

lemma parse_empty_bind:
  assumes "\<And>v st'. st_step st st' \<Longrightarrow> opt_height (bound (depth st)) v \<Longrightarrow> runs evs st' Q (f (v, st'))"
  shows "runs evs st Q (dbind (dlift (parse_empty tag attrs st)) f)"
proof (rule runs_lift)
  fix x assume x: "parse_empty tag attrs st = Inr x"
  obtain v st' where "x = (v, st')" by (cases x)
  with x parse_empty_InrD [of tag attrs st v st'] assms [of st' v]
  show "runs evs st Q (f x)"
    by (auto simp: opt_height_def intro: runs_weaken)
qed

locale element_parser_laws =
  fixes elem :: element_parser and levels :: nat
  assumes elem_runs: "depth st + levels = MAX_NESTING_DEPTH \<Longrightarrow>
    runs evs st (opt_height (2 * levels)) (elem tag attrs evs st)"
begin

lemma bound_levels: "depth st + levels = MAX_NESTING_DEPTH \<Longrightarrow> bound (depth st) = 2 * levels"
  by (simp add: bound_def flip: add_diff_inverse_nat)

lemma st_step_levels:
  "st_step st st' \<Longrightarrow> depth st + levels = MAX_NESTING_DEPTH \<Longrightarrow> depth st' + levels = MAX_NESTING_DEPTH"
  by (simp add: st_step_def)

text \<open>A step that reads one event and goes on with what is left of the others.\<close>

lemma runs_tail: "runs evs st P r \<Longrightarrow> runs (ev # evs) st P r"
  by (erule runs_weaken) simp_all

lemma parse_member_set_runs:
  assumes "length evs < f" "depth st + levels = MAX_NESTING_DEPTH" "2 * levels \<le> b"
    "height_props (properties obj) \<le> b"
  shows "runs evs st (\<lambda>obj. height_props (properties obj) \<le> b) (parse_member_set elem f obj closing evs st)"
  using assms
proof (induction f arbitrary: obj evs st)
  case (Suc f)
  let ?P = "\<lambda>obj. height_props (properties obj) \<le> b"
  show ?case
  proof (cases evs)
    case (Cons ev evs')
    have IH: "runs evs'' st'' ?P (parse_member_set elem f obj' closing evs'' st'')"
      if "length evs'' \<le> length evs'" "st_step st st''" "?P obj'" for evs'' st'' obj'
      using that Suc.prems Cons by (intro Suc.IH) (auto dest: st_step_levels)
    note ins = object_insert_height [of _ b, OF order_trans [of _ "2 * levels"]]
    have "runs evs' st ?P (parse_member_set elem (Suc f) obj closing (ev # evs') st)"
    proof (cases ev)
      case (XStart tag attrs)
      then show ?thesis using Suc.prems Cons
        by (auto intro!: runs_lift runs_bind [OF elem_runs] IH ins simp: opt_height_def split: option.split)
    next
      case (XEmpty tag attrs)
      then show ?thesis using Suc.prems
        by (auto intro!: runs_lift parse_empty_bind IH ins object_insert_height
            simp: bound_levels opt_height_def split: option.split)
    next
      case (XEnd tag)
      then show ?thesis using Suc.prems by (auto intro!: IH runs_Done)
    qed (use Suc.prems in \<open>auto intro!: IH\<close>)
    then show ?thesis unfolding Cons by (rule runs_tail)
  qed simp
qed simp

lemma parse_list_runs:
  assumes "length evs < f" "depth st + levels = MAX_NESTING_DEPTH" "height_items items \<le> 2 * levels"
  shows "runs evs st (\<lambda>items. height_items items \<le> 2 * levels) (parse_list elem f items closing evs st)"
  using assms
proof (induction f arbitrary: items evs st)
  case (Suc f)
  let ?P = "\<lambda>items. height_items items \<le> 2 * levels"
  show ?case
  proof (cases evs)
    case (Cons ev evs')
    have IH: "runs evs'' st'' ?P (parse_list elem f items' closing evs'' st'')"
      if "length evs'' \<le> length evs'" "st_step st st''" "?P items'" for evs'' st'' items'
      using that Suc.prems Cons by (intro Suc.IH) (auto dest: st_step_levels)
    have "runs evs' st ?P (parse_list elem (Suc f) items closing (ev # evs') st)"
    proof (cases ev)
      case (XStart tag attrs)
      then show ?thesis using Suc.prems Cons
        by (auto intro!: runs_lift runs_bind [OF elem_runs] IH
            simp: opt_height_def height_items_snoc split: option.split)
    next
      case (XEmpty tag attrs)
      then show ?thesis using Suc.prems
        by (auto intro!: parse_empty_bind IH
            simp: bound_levels opt_height_def height_items_snoc split: option.split)
    next
      case (XEnd tag)
      then show ?thesis using Suc.prems by (auto intro!: IH runs_Done)
    qed (use Suc.prems in \<open>auto intro!: IH\<close>)
    then show ?thesis unfolding Cons by (rule runs_tail)
  qed simp
qed simp

lemma set_entry_height: "height v \<le> b \<Longrightarrow> pair_height b kv \<Longrightarrow> pair_height b (set_entry name v kv)"
  by (simp add: pair_height_def set_entry_def)

lemma parse_dict_entry_runs:
  assumes "length evs < f" "depth st + levels = MAX_NESTING_DEPTH" "pair_height (2 * levels) kv"
  shows "runs evs st (pair_height (2 * levels)) (parse_dict_entry elem f kv evs st)"
  using assms
proof (induction f arbitrary: kv evs st)
  case (Suc f)
  show ?case
  proof (cases evs)
    case (Cons ev evs')
    have IH: "runs evs'' st'' (pair_height (2 * levels)) (parse_dict_entry elem f kv' evs'' st'')"
      if "length evs'' \<le> length evs'" "st_step st st''" "pair_height (2 * levels) kv'" for evs'' st'' kv'
      using that Suc.prems Cons by (intro Suc.IH) (auto dest: st_step_levels)
    have "runs evs' st (pair_height (2 * levels)) (parse_dict_entry elem (Suc f) kv (ev # evs') st)"
    proof (cases ev)
      case (XStart tag attrs)
      then show ?thesis using Suc.prems Cons
        by (auto intro!: runs_lift runs_bind [OF elem_runs] IH set_entry_height
            simp: opt_height_def split: option.split)
    next
      case (XEmpty tag attrs)
      then show ?thesis using Suc.prems
        by (auto intro!: runs_lift parse_empty_bind IH set_entry_height
            simp: bound_levels opt_height_def split: option.split)
    next
      case (XEnd tag)
      then show ?thesis using Suc.prems by (auto intro!: IH runs_Done)
    qed (use Suc.prems in \<open>auto intro!: IH\<close>)
    then show ?thesis unfolding Cons by (rule runs_tail)
  qed simp
qed simp

lemma parse_dict_runs:
  assumes "length evs < f" "depth st + levels = MAX_NESTING_DEPTH" "height_entries entries \<le> 2 * levels"
  shows "runs evs st (\<lambda>es. height_entries es \<le> 2 * levels) (parse_dict elem f entries evs st)"
  using assms
proof (induction f arbitrary: entries evs st)
  case (Suc f)
  let ?P = "\<lambda>es. height_entries es \<le> 2 * levels"
  show ?case
  proof (cases evs)
    case (Cons ev evs')
    have IH: "runs evs'' st'' ?P (parse_dict elem f es evs'' st'')"
      if "length evs'' \<le> length evs'" "st_step st st''" "?P es" for evs'' st'' es
      using that Suc.prems Cons by (intro Suc.IH) (auto dest: st_step_levels)
    have entry: "runs evs' st (pair_height (2 * levels)) (parse_dict_entry elem f (PsNull, PsNull) evs' st)"
      using Suc.prems Cons by (intro parse_dict_entry_runs) (auto simp: pair_height_def)
    have "runs evs' st ?P (parse_dict elem (Suc f) entries (ev # evs') st)"
    proof (cases ev)
      case (XStart tag attrs)
      then show ?thesis using Suc.prems Cons
        by (auto intro!: runs_bind [OF entry] IH simp: height_entries_snoc)
    next
      case (XEnd tag)
      then show ?thesis using Suc.prems by (auto intro!: IH runs_Done)
    qed (use Suc.prems in \<open>auto intro!: IH\<close>)
    then show ?thesis unfolding Cons by (rule runs_tail)
  qed simp
qed simp

lemma expose_embedded_height:
  "opt_height b embedded \<Longrightarrow> height_props (properties obj) \<le> b \<Longrightarrow>
   height_props (properties (expose_embedded embedded obj)) \<le> b"
  by (auto simp: expose_embedded_def opt_height_def object_insert_height split: option.split)

lemma skip_to_end_runs:
  assumes "\<And>evs'. length evs' \<le> length evs \<Longrightarrow> runs evs' st Q (f evs')"
  shows "runs evs st Q (dbind (dlift (skip_to_end evs)) f)"
proof (rule runs_lift)
  fix x assume "skip_to_end evs = Inr x"
  then have "length x \<le> length evs" by (auto simp: skip_to_end_def dest: skip_loop_shorter)
  with assms [of x] show "runs evs st Q (f x)" by (auto intro: runs_weaken)
qed

lemma parse_type_names_runs:
  assumes "\<And>names evs'. length evs' \<le> length evs \<Longrightarrow> runs evs' st Q (f (names, evs'))"
  shows "runs evs st Q (dbind (dlift (parse_type_names evs)) f)"
proof (rule runs_lift)
  fix x assume x: "parse_type_names evs = Inr x"
  obtain names evs' where "x = (names, evs')" by (cases x)
  moreover from this x have "length evs' \<le> length evs"
    by (auto simp: parse_type_names_def dest: parse_type_names_shorter)
  ultimately show "runs evs st Q (f x)" using assms [of evs' names] by (auto intro: runs_weaken)
qed

lemma parse_obj_body_runs:
  assumes "length evs < f" "depth st + levels = MAX_NESTING_DEPTH"
    "height_props (properties obj) \<le> Suc (2 * levels)" "opt_height (Suc (2 * levels)) embedded"
  shows "runs evs st (\<lambda>obj. height_props (properties obj) \<le> Suc (2 * levels))
    (parse_obj_body elem f obj embedded evs st)"
  using assms
proof (induction f arbitrary: obj embedded evs st)
  case (Suc f)
  let ?b = "Suc (2 * levels)"
  let ?P = "\<lambda>obj. height_props (properties obj) \<le> ?b"
  show ?case
  proof (cases evs)
    case (Cons ev evs')
    have IH: "runs evs'' st'' ?P (parse_obj_body elem f obj' embedded' evs'' st'')"
      if "length evs'' \<le> length evs'" "st_step st st''" "?P obj'" "opt_height ?b embedded'"
      for evs'' st'' obj' embedded'
      using that Suc.prems Cons by (intro Suc.IH) (auto dest: st_step_levels)
    have members: "runs evs' st ?P (parse_member_set elem f obj tag evs' st)" for tag
      using Suc.prems Cons by (intro parse_member_set_runs) auto
    have items: "runs evs' st (\<lambda>vs. height_items vs \<le> 2 * levels) (parse_list elem f [] tag evs' st)" for tag
      using Suc.prems Cons by (intro parse_list_runs) auto
    have entries: "runs evs' st (\<lambda>es. height_entries es \<le> 2 * levels) (parse_dict elem f [] evs' st)"
      using Suc.prems Cons by (intro parse_dict_runs) auto
    have "runs evs' st ?P (parse_obj_body elem (Suc f) obj embedded (ev # evs') st)"
    proof (cases ev)
      case (XStart tag attrs)
      have el: "opt_height ?b (case embedded of Some w \<Rightarrow> Some w | None \<Rightarrow> v)"
        if "opt_height (2 * levels) v" for v
        using that Suc.prems(4) by (auto simp: opt_height_def split: option.split)
      show ?thesis using Suc.prems XStart
        by (auto intro!: runs_lift runs_bind [OF members] runs_bind [OF items] runs_bind [OF entries]
            runs_bind [OF elem_runs] skip_to_end_runs parse_type_names_runs
            intro: IH el runs_weaken [OF IH, of _ "keep_names rid names st" for rid names])
    next
      case (XEmpty tag attrs)
      then show ?thesis using Suc.prems by (auto intro!: runs_lift IH)
    next
      case (XEnd tag)
      then show ?thesis using Suc.prems by (auto intro!: IH runs_Done expose_embedded_height)
    qed (use Suc.prems in \<open>auto intro!: IH\<close>)
    then show ?thesis unfolding Cons by (rule runs_tail)
  qed simp
qed simp

lemma parse_element_inner_runs:
  assumes "depth st + levels = MAX_NESTING_DEPTH"
    and scalars: "\<And>parser text v. map_of (scalar_parsers U F) tag = Some parser \<Longrightarrow> parser text = Inr v
      \<Longrightarrow> height v = 0"
  shows "runs evs st (opt_height (2 * Suc levels)) (parse_element_inner U F elem tag attrs evs st)"
proof -
  have obj: "runs evs st (\<lambda>obj. height_props (properties obj) \<le> Suc (2 * levels))
      (parse_obj_body elem (Suc (length evs)) object_new None evs st)"
    using assms(1) by (intro parse_obj_body_runs) auto
  have read: "runs evs st Q (dbind (dlift (read_text tag evs)) f)"
    if "\<And>t evs'. length evs' \<le> length evs \<Longrightarrow> runs evs' st Q (f (t, evs'))" for Q :: "'b \<Rightarrow> bool" and f
  proof (rule runs_lift)
    fix x assume x: "read_text tag evs = Inr x"
    obtain t evs' where "x = (t, evs')" by (cases x)
    moreover from this x have "length evs' \<le> length evs"
      by (auto simp: read_text_def dest: read_text_loop_shorter)
    ultimately show "runs evs st Q (f x)" using that [of evs' t] by (auto intro: runs_weaken)
  qed
  have ref: "opt_height (2 * Suc levels) (Some v) \<and> st_step st st'"
    if "resolve_ref attrs st 0 = Inr (v, st')" for v st'
    using resolve_ref_InrD [OF that] assms(1) by auto
  show ?thesis
  proof (cases "map_of (scalar_parsers U F) tag")
    case (Some parser)
    show ?thesis unfolding parse_element_inner_def Some option.case
      by (intro read) (auto intro!: runs_lift runs_Done simp: scalars [OF Some])
  next
    case None
    have skip: "length x \<le> length evs" if "skip_to_end evs = Inr x" for x
      using that by (auto simp: skip_to_end_def dest: skip_loop_shorter)
    show ?thesis unfolding parse_element_inner_def None option.case
      by (auto intro!: skip runs_Done runs_lift runs_bind [OF obj] dest: ref keep_ref_step)
  qed
qed

end

lemma scalar_parsers_height:
  assumes "map_of (scalar_parsers U F) tag = Some parser" "parser text = Inr v"
  shows "height v = 0"
proof -
  have "(tag, parser) \<in> set (scalar_parsers U F)" using assms(1) by (rule map_of_SomeD)
  then have "children_of v = NoChildren" using assms(2)
    unfolding scalar_parsers_def
    by (auto simp: map_sum_Inr_iff ok_or_def split: sum.splits option.splits)
  then show ?thesis by simp
qed

lemma parse_element_laws: "element_parser_laws (parse_element U F levels) levels"
proof (induction levels)
  case 0
  show ?case by unfold_locales simp
next
  case (Suc levels)
  show ?case
  proof
    fix st :: dec_state and evs tag attrs
    assume d: "depth st + Suc levels = MAX_NESTING_DEPTH"
    have "runs evs (st\<lparr>depth := depth st + 1\<rparr>) (opt_height (2 * Suc levels))
        (parse_element_inner U F (parse_element U F levels) tag attrs evs (st\<lparr>depth := depth st + 1\<rparr>))"
      using d by (intro element_parser_laws.parse_element_inner_runs [OF Suc]) (auto dest: scalar_parsers_height)
    then show "runs evs st (opt_height (2 * Suc levels)) (parse_element U F (Suc levels) tag attrs evs st)"
      by (cases "parse_element_inner U F (parse_element U F levels) tag attrs evs (st\<lparr>depth := depth st + 1\<rparr>)")
        (auto simp: runs_def st_step_def)
  qed
qed

interpretation parse_element: element_parser_laws "parse_element U F levels" levels for U F levels
  by (rule parse_element_laws)

section \<open>Documents\<close>

lemma parse_siblings_runs:
  assumes "length evs < f" "depth st + levels = MAX_NESTING_DEPTH" "height_items out \<le> 2 * levels"
  shows "case parse_siblings (parse_element U F levels) f out evs st of
      Out_Of_Fuel \<Rightarrow> False | Failed e \<Rightarrow> True | Done vs \<Rightarrow> height_items vs \<le> 2 * levels"
  using assms
proof (induction f arbitrary: out evs st)
  case (Suc f)
  show ?case
  proof (cases evs)
    case (Cons ev evs')
    let ?ok = "\<lambda>r. case r of Out_Of_Fuel \<Rightarrow> False | Failed e \<Rightarrow> True | Done vs \<Rightarrow> height_items vs \<le> 2 * levels"
    have IH: "?ok (parse_siblings (parse_element U F levels) f out' evs'' st'')"
      if "length evs'' \<le> length evs'" "st_step st st''" "height_items out' \<le> 2 * levels" for evs'' st'' out'
      using that Suc.prems Cons by (intro Suc.IH) (auto simp: st_step_def)
    show ?thesis
    proof (cases ev)
      case (XStart tag attrs)
      have "runs evs' st (opt_height (2 * levels)) (parse_element U F levels tag attrs evs' st)"
        by (rule parse_element.elem_runs) (use Suc.prems in simp)
      then show ?thesis using Suc.prems Cons XStart
        by (cases "parse_element U F levels tag attrs evs' st")
          (auto simp: runs_def opt_height_def height_items_snoc split: option.split intro!: IH)
    next
      case (XEmpty tag attrs)
      show ?thesis
      proof (cases "parse_empty tag attrs st")
        case (Inr r)
        obtain v st' where "r = (v, st')" by (cases r)
        with Inr XEmpty show ?thesis
          using Suc.prems Cons parse_empty_InrD [of tag attrs st v st']
          by (auto simp: parse_element.bound_levels height_items_snoc split: option.split intro!: IH)
      qed (use XEmpty Cons in simp)
    qed (use Suc.prems Cons in \<open>auto intro!: IH\<close>)
  qed (use Suc.prems in simp)
qed simp

lemma parse_clixml_dec_runs:
  "case parse_clixml_dec U F reader xml of
     Out_Of_Fuel \<Rightarrow> False | Failed e \<Rightarrow> True | Done vs \<Rightarrow> height_items vs \<le> 2 * MAX_NESTING_DEPTH"
  unfolding parse_clixml_dec_def Let_def
  by (rule parse_siblings_runs) (simp_all add: initial_state_def)

lemma resolve_ref_charges:
  assumes "budget st \<le> REF_BUDGET_CEILING" "resolve_ref attrs st lvl = Inr (v, st')"
  shows "v = PsNull \<and> st' = st
    \<or> expanded st' = expanded st + fst (measure_value v) \<and> expanded st' \<le> budget st'"
proof -
  obtain r where r: "ref_id_attr attrs = Inr r"
    using assms by (auto simp: resolve_ref_def rbind_Inr_iff)
  show ?thesis
  proof (cases "Option.bind r (refs st)")
    case None
    then show ?thesis using assms r by (auto simp: resolve_ref_def)
  next
    case (Some target)
    obtain w h where wh: "measure_value target = (w, h)" by (cases "measure_value target")
    with assms r Some have *: "charge w st = Inr st'" "target = v"
      by (auto simp: resolve_ref_def rbind_Inr_iff split: if_splits)
    then show ?thesis using assms(1) wh
      by (auto simp: charge_def Let_def sat64_def REF_BUDGET_CEILING_def U64_MAX_def min_def
          split: if_splits)
  qed
qed

lemma tag_facts:
  "map_of (scalar_parsers U F) (lit ''Obj'') = None" "map_of (scalar_parsers U F) (lit ''Ref'') = None"
  by (simp_all add: scalar_parsers_def)

section \<open>An instance of the float interface\<close>

text \<open>Printing and reading the bit pattern as a number.\<close>

definition bits_float :: float_api where
  "bits_float = \<lparr>f64_of_f32 = ucast, f32_of_f64 = ucast, format_f64 = (\<lambda>v. show_word v),
     parse_f64 = (\<lambda>s. case from_str_radix 10 0 18446744073709551615 s of
        Inl e \<Rightarrow> Inl (int_error_text e) | Inr i \<Rightarrow> Inr (word_of_int i))\<rparr>"

section \<open>Properties\<close>

text \<open>
  C6: the decoder terminates on every document, malformed ones included: whatever events the XML
  reader delivers, the loops never run out of the fuel of one unit per event, so that the answer of
  \<open>parse_clixml\<close> is the one the fuelled parser computes, values or an error.
\<close>

theorem parse_clixml_total:
  "parse_clixml_dec U F reader xml =
     (case parse_clixml U F reader xml of Inl e \<Rightarrow> Failed e | Inr vs \<Rightarrow> Done vs)"
  using parse_clixml_dec_runs [of U F reader xml]
  by (cases "parse_clixml_dec U F reader xml") (auto simp: parse_clixml_def)

text \<open>
  C7: no decoded value is nested deeper than 128 levels of objects, lists and dictionaries,
  whatever the document says and however references are chained: the guard admits 64 nested
  elements, and each of them holds at most an object with a list or dictionary directly inside.
\<close>

theorem parse_clixml_height:
  assumes "parse_clixml U F reader xml = Inr vs" "v \<in> set vs"
  shows "height v \<le> 2 * MAX_NESTING_DEPTH"
  using parse_clixml_dec_runs [of U F reader xml] assms
  by (cases "parse_clixml_dec U F reader xml") (auto simp: parse_clixml_def height_items_le_iff)

definition nested_list_reader :: xml_reader where
  "nested_list_reader xml =
     [XStart (lit ''Obj'') [], XStart (lit ''LST'') [], XEmpty (lit ''Nil'') [], XEnd (lit ''LST''),
      XEnd (lit ''Obj'')]"

lemma nested_list_parsed:
  "parse_clixml rfc_uuid bits_float nested_list_reader []
    = Inr [PsObject (Ps_Object [(VALUE_KEY, PsList [PsNull])] [] None)]"
  unfolding parse_clixml_def parse_clixml_dec_def
  by (simp add: parse_element.simps(2) [of rfc_uuid bits_float 63, simplified] MAX_NESTING_DEPTH_def
      nested_list_reader_def initial_state_def parse_element_inner_def tag_facts ref_id_attr_def
      attr_value_def list_tags_def parse_empty_def expose_embedded_def object_insert_def
      object_with_def object_new_def keep_ref_def)

theorem parse_clixml_height_witness:
  "height (PsObject (Ps_Object [(VALUE_KEY, PsList [PsNull])] [] None)) \<le> 2 * MAX_NESTING_DEPTH"
  using parse_clixml_height [OF nested_list_parsed] by simp

text \<open>
  What a \<open><Ref>\<close> makes the decoder copy is charged: a resolved reference either is \<open>Null\<close> and
  changes nothing, or its weight is added to the total, which stays within the document's budget
  (at most 8 Mi), and the copy fits under the depth limit at the place it is planted.
\<close>

lemma reference_budget:
  assumes "budget st \<le> REF_BUDGET_CEILING" "resolve_ref attrs st lvl = Inr (v, st')"
  shows "(v = PsNull \<and> st' = st
      \<or> expanded st' = expanded st + fst (measure_value v) \<and> expanded st' \<le> budget st')
    \<and> (height v = 0 \<or> depth st + lvl + height v \<le> MAX_NESTING_DEPTH)"
  using resolve_ref_charges [OF assms] resolve_ref_InrD [OF assms(2)] by argo

lemma reference_budget_witness:
  "fst (measure_value (PsList [PsNull])) = 2"
proof -
  let ?st = "\<lparr>refs = [lit ''1'' \<mapsto> PsList [PsNull]], referenced = [lit ''1''], expanded = 5, budget = 7,
      known_names = (\<lambda>_. None), depth = 3\<rparr>"
  have "resolve_ref [(lit ''RefId'', Inr (lit ''1''))] ?st 1 = Inr (PsList [PsNull], ?st\<lparr>expanded := 7\<rparr>)"
    by (simp add: resolve_ref_def ref_id_attr_def attr_value_def measure_value.simps charge_def
        sat32_def sat64_def U32_MAX_def U64_MAX_def MAX_NESTING_DEPTH_def)
  from reference_budget [OF _ this] show ?thesis by (simp add: REF_BUDGET_CEILING_def)
qed

text \<open>
  The budget does not cover type names: an object that refers to type names already seen gets
  a full copy of the list, however long it is, and the decoder's state, the running total of the
  budget included, is left exactly as it was.
\<close>

lemma type_name_reference_is_free:
  assumes "known_names st r = Some names" "depth st < MAX_NESTING_DEPTH"
  shows "parse_element U F (Suc levels) (lit ''Obj'') []
      (XEmpty (lit ''TNRef'') [(lit ''RefId'', Inr r)] # XEnd (lit ''Obj'') # rest) st
    = Done (Some (PsObject (Ps_Object [] names None)), rest, st)"
  using assms
  by (simp add: parse_element_inner_def tag_facts ref_id_attr_def attr_value_def use_type_names_def
      with_type_names_def object_new_def expose_embedded_def keep_ref_def)

lemma type_name_reference_is_free_witness:
  "parse_element rfc_uuid bits_float 1 (lit ''Obj'') []
      [XEmpty (lit ''TNRef'') [(lit ''RefId'', Inr (lit ''0''))], XEnd (lit ''Obj'')]
      \<lparr>refs = (\<lambda>_. None), referenced = [], expanded = 0, budget = 0,
       known_names = [lit ''0'' \<mapsto> [lit ''System.Object'']], depth = 0\<rparr>
    = Done (Some (PsObject (Ps_Object [] [lit ''System.Object''] None)), [],
      \<lparr>refs = (\<lambda>_. None), referenced = [], expanded = 0, budget = 0,
       known_names = [lit ''0'' \<mapsto> [lit ''System.Object'']], depth = 0\<rparr>)"
  using type_name_reference_is_free [of "\<lparr>refs = (\<lambda>_. None), referenced = [], expanded = 0, budget = 0,
       known_names = [lit ''0'' \<mapsto> [lit ''System.Object'']], depth = 0\<rparr>" "lit ''0''"
       "[lit ''System.Object'']" rfc_uuid bits_float 0 "[]"]
  by (simp add: MAX_NESTING_DEPTH_def)

end
