(* ===== verification/Records.thy ===== *)
theory Records
  imports Decode_Limits
begin

text \<open>
  The typed records of \<open>src/src/records.rs\<close>: projections of decoded objects that never reject a
  record for a missing property.  \<open>codec_env\<close> bundles the interfaces the CLIXML codec needs, for
  the components above it.
\<close>

record codec_env =
  uuids :: uuid_api
  floats :: float_api
  xml :: xml_reader

definition clixml_of :: "codec_env \<Rightarrow> ps_value \<Rightarrow> ustr" where
  "clixml_of E v = to_clixml (uuids E) (floats E) v"

definition values_of :: "codec_env \<Rightarrow> ustr \<Rightarrow> ps_value list res" where
  "values_of E t = parse_clixml (uuids E) (floats E) (xml E) t"

text \<open>
  A codec for examples: the RFC 4122 layout, floats by their bits, and an XML reader that delivers
  the same events for every text.
\<close>

definition scripted_codec :: "events \<Rightarrow> codec_env" where
  "scripted_codec evs = \<lparr>uuids = rfc_uuid, floats = bits_float, xml = (\<lambda>_. evs)\<rparr>"

lemma scripted_codec_simps [simp]:
  "uuids (scripted_codec evs) = rfc_uuid" "floats (scripted_codec evs) = bits_float"
  "xml (scripted_codec evs) t = evs"
  by (simp_all add: scripted_codec_def)

section \<open>Property access\<close>

fun as_object :: "ps_value \<Rightarrow> ps_object option" where
  "as_object (PsObject obj) = Some obj"
| "as_object _ = None"

definition property_str :: "ps_object \<Rightarrow> ustr \<Rightarrow> ustr option" where
  "property_str obj name = Option.bind (object_get obj name) as_str"

definition property_i32 :: "ps_object \<Rightarrow> ustr \<Rightarrow> u32 option" where
  "property_i32 obj name = Option.bind (object_get obj name) as_i32"

section \<open>Records\<close>

datatype exception_info = Exception_Info
  (exc_message: "ustr option") (exc_source: "ustr option") (exc_stack_trace: "ustr option")
  (exc_inner: "exception_info option") (exc_type_name: "ustr option")

record error_category_info =
  cat_category :: "u32 option"
  cat_activity :: "ustr option"
  cat_reason :: "ustr option"
  cat_target_name :: "ustr option"
  cat_target_type :: "ustr option"

record invocation_info =
  inv_command_name :: "ustr option"
  inv_script_name :: "ustr option"
  inv_line_number :: "u32 option"
  inv_offset_in_line :: "u32 option"
  inv_position_message :: "ustr option"

record error_record =
  er_exception :: "exception_info option"
  er_fully_qualified_error_id :: "ustr option"
  er_category :: "error_category_info option"
  er_script_stack_trace :: "ustr option"
  er_target_object :: "ps_value option"
  er_invocation_info :: "invocation_info option"

lemma map_of_size_props:
  "map_of props name = Some v \<Longrightarrow> size v < size_list (size_prod (\<lambda>_. 0) size) props"
  by (induction props) (auto split: if_splits)

text \<open>\<open>ExceptionInfo::from_ps_object\<close>: the inner exceptions are decoded recursively.\<close>

function exception_from_object :: "ps_object \<Rightarrow> exception_info" where
  "exception_from_object obj =
     Exception_Info (property_str obj (lit ''Message'')) (property_str obj (lit ''Source''))
       (property_str obj (lit ''StackTrace''))
       (case object_get obj (lit ''InnerException'') of
          Some (PsObject inner) \<Rightarrow> Some (exception_from_object inner)
        | _ \<Rightarrow> None)
       (case type_names obj of [] \<Rightarrow> None | t # _ \<Rightarrow> Some t)"
  by pat_completeness auto

termination
proof (relation "measure size")
  fix obj inner x
  assume "object_get obj (lit ''InnerException'') = Some x" "x = PsObject inner"
  then have "size (PsObject inner) < size_list (size_prod (\<lambda>_. 0) size) (properties obj)"
    by (auto simp: object_get_def dest: map_of_size_props)
  then show "(inner, obj) \<in> measure size" by (cases obj) simp
qed simp

definition exception_from_ps_object :: "ps_value \<Rightarrow> exception_info option" where
  "exception_from_ps_object v = map_option exception_from_object (as_object v)"

definition category_from_ps_object :: "ps_value \<Rightarrow> error_category_info option" where
  "category_from_ps_object v = map_option (\<lambda>obj.
     \<lparr>cat_category = property_i32 obj (lit ''Category''),
      cat_activity = property_str obj (lit ''Activity''),
      cat_reason = property_str obj (lit ''Reason''),
      cat_target_name = property_str obj (lit ''TargetName''),
      cat_target_type = property_str obj (lit ''TargetType'')\<rparr>) (as_object v)"

definition invocation_from_ps_object :: "ps_value \<Rightarrow> invocation_info option" where
  "invocation_from_ps_object v = map_option (\<lambda>obj.
     \<lparr>inv_command_name = property_str obj (lit ''MyCommand''),
      inv_script_name = property_str obj (lit ''ScriptName''),
      inv_line_number = property_i32 obj (lit ''ScriptLineNumber''),
      inv_offset_in_line = property_i32 obj (lit ''OffsetInLine''),
      inv_position_message = property_str obj (lit ''PositionMessage'')\<rparr>) (as_object v)"

definition or_else :: "'a option \<Rightarrow> 'a option \<Rightarrow> 'a option" where
  "or_else a b = (case a of Some x \<Rightarrow> Some x | None \<Rightarrow> b)"

definition error_from_ps_object :: "ps_value \<Rightarrow> error_record option" where
  "error_from_ps_object v = map_option (\<lambda>obj.
     \<lparr>er_exception = or_else
        (Option.bind (object_get obj (lit ''Exception'')) exception_from_ps_object)
        (map_option (\<lambda>m. Exception_Info (Some m) None None None None)
           (property_str obj (lit ''Exception''))),
      er_fully_qualified_error_id = property_str obj (lit ''FullyQualifiedErrorId''),
      er_category = Option.bind (object_get obj (lit ''CategoryInfo'')) category_from_ps_object,
      er_script_stack_trace = or_else (property_str obj (lit ''ErrorDetails_ScriptStackTrace''))
        (property_str obj (lit ''ScriptStackTrace'')),
      er_target_object = object_get obj (lit ''TargetObject''),
      er_invocation_info =
        Option.bind (object_get obj (lit ''InvocationInfo'')) invocation_from_ps_object\<rparr>)
     (as_object v)"

text \<open>\<open>WarningRecord\<close> and \<open>TraceRecord\<close> have the same shape and the same decoder.\<close>

record message_record =
  mr_message :: ustr
  mr_invocation_info :: "invocation_info option"

fun message_record_from :: "ps_value \<Rightarrow> message_record option" where
  "message_record_from (PsString s) = Some \<lparr>mr_message = s, mr_invocation_info = None\<rparr>"
| "message_record_from (PsObject obj) = Some
     \<lparr>mr_message = (case property_str obj (lit ''Message'') of Some s \<Rightarrow> s | None \<Rightarrow> []),
      mr_invocation_info =
        Option.bind (object_get obj (lit ''InvocationInfo'')) invocation_from_ps_object\<rparr>"
| "message_record_from _ = None"

definition warning_from_ps_object :: "ps_value \<Rightarrow> message_record option" where
  "warning_from_ps_object v = message_record_from v"

definition trace_from_ps_object :: "ps_value \<Rightarrow> message_record option" where
  "trace_from_ps_object v = message_record_from v"

record information_record =
  ir_message_data :: "ps_value option"
  ir_source :: "ustr option"
  ir_time_generated :: "ustr option"
  ir_tags :: "ustr list"
  ir_user :: "ustr option"
  ir_computer :: "ustr option"
  ir_process_id :: "u32 option"
  ir_native_thread_id :: "u32 option"
  ir_managed_thread_id :: "u32 option"

fun information_from_ps_object :: "ps_value \<Rightarrow> information_record option" where
  "information_from_ps_object (PsString s) = Some
     \<lparr>ir_message_data = Some (PsString s), ir_source = None, ir_time_generated = None, ir_tags = [],
      ir_user = None, ir_computer = None, ir_process_id = None, ir_native_thread_id = None,
      ir_managed_thread_id = None\<rparr>"
| "information_from_ps_object (PsObject obj) = Some
     \<lparr>ir_message_data = object_get obj (lit ''MessageData''),
      ir_source = property_str obj (lit ''Source''),
      ir_time_generated = property_str obj (lit ''TimeGenerated''),
      ir_tags = (case object_get obj (lit ''Tags'') of
                   Some (PsList vs) \<Rightarrow> filter_map as_str vs | _ \<Rightarrow> []),
      ir_user = property_str obj (lit ''User''),
      ir_computer = property_str obj (lit ''Computer''),
      ir_process_id = property_i32 obj (lit ''ProcessId''),
      ir_native_thread_id = property_i32 obj (lit ''NativeThreadId''),
      ir_managed_thread_id = property_i32 obj (lit ''ManagedThreadId'')\<rparr>"
| "information_from_ps_object _ = None"

record progress_record =
  pr_activity :: "ustr option"
  pr_activity_id :: "u32 option"
  pr_status_description :: "ustr option"
  pr_current_operation :: "ustr option"
  pr_parent_activity_id :: "u32 option"
  pr_percent_complete :: "u32 option"
  pr_seconds_remaining :: "u32 option"
  pr_record_type :: "u32 option"

definition progress_from_ps_object :: "ps_value \<Rightarrow> progress_record option" where
  "progress_from_ps_object v = map_option (\<lambda>obj.
     \<lparr>pr_activity = property_str obj (lit ''Activity''),
      pr_activity_id = property_i32 obj (lit ''ActivityId''),
      pr_status_description = property_str obj (lit ''StatusDescription''),
      pr_current_operation = property_str obj (lit ''CurrentOperation''),
      pr_parent_activity_id = property_i32 obj (lit ''ParentActivityId''),
      pr_percent_complete = property_i32 obj (lit ''PercentComplete''),
      pr_seconds_remaining = property_i32 obj (lit ''SecondsRemaining''),
      pr_record_type = property_i32 obj (lit ''Type'')\<rparr>) (as_object v)"

end
