(* ===== verification/Pool_State.thy ===== *)
theory Pool_State
  imports Records Messages
begin

text \<open>
  The runspace pool's state machine (\<open>src/src/runspace/state.rs\<close>): the eleven states, the
  transitions the server may drive, the client's \<open>open\<close>, \<open>connect\<close>, \<open>close\<close> and
  \<open>mark_closed\<close>, and the bodies of the opening messages.  \<open>machine_step\<close> is the step relation the
  operations implement.
\<close>

section \<open>States\<close>

datatype pool_state =
    BeforeOpen | Opening | Opened | Closed | Closing | Broken | Disconnecting | Disconnected
  | Connecting | NegotiationSent | NegotiationSucceeded

fun pool_state_number :: "pool_state \<Rightarrow> int" where
  "pool_state_number BeforeOpen = 0"
| "pool_state_number Opening = 1"
| "pool_state_number Opened = 2"
| "pool_state_number Closed = 3"
| "pool_state_number Closing = 4"
| "pool_state_number Broken = 5"
| "pool_state_number Disconnecting = 6"
| "pool_state_number Disconnected = 7"
| "pool_state_number Connecting = 8"
| "pool_state_number NegotiationSent = 9"
| "pool_state_number NegotiationSucceeded = 10"

definition pool_state_from_i32 :: "u32 \<Rightarrow> pool_state" where
  "pool_state_from_i32 v =
     (if v = 0 then BeforeOpen else if v = 1 then Opening else if v = 2 then Opened
      else if v = 3 then Closed else if v = 4 then Closing else if v = 5 then Broken
      else if v = 6 then Disconnecting else if v = 7 then Disconnected
      else if v = 8 then Connecting else if v = 9 then NegotiationSent
      else if v = 10 then NegotiationSucceeded else Broken)"

fun pool_state_debug :: "pool_state \<Rightarrow> ustr" where
  "pool_state_debug BeforeOpen = lit ''BeforeOpen''"
| "pool_state_debug Opening = lit ''Opening''"
| "pool_state_debug Opened = lit ''Opened''"
| "pool_state_debug Closed = lit ''Closed''"
| "pool_state_debug Closing = lit ''Closing''"
| "pool_state_debug Broken = lit ''Broken''"
| "pool_state_debug Disconnecting = lit ''Disconnecting''"
| "pool_state_debug Disconnected = lit ''Disconnected''"
| "pool_state_debug Connecting = lit ''Connecting''"
| "pool_state_debug NegotiationSent = lit ''NegotiationSent''"
| "pool_state_debug NegotiationSucceeded = lit ''NegotiationSucceeded''"

definition is_legal_server_transition :: "pool_state \<Rightarrow> pool_state \<Rightarrow> bool" where
  "is_legal_server_transition s t \<longleftrightarrow>
     (if s = t then True
      else if t = Broken \<and> s \<noteq> Closed then True
      else
        (s = BeforeOpen \<and> t \<in> {Opening, NegotiationSent})
        \<or> (s = Opening \<and> t \<in> {NegotiationSent, NegotiationSucceeded, Opened})
        \<or> (s = NegotiationSent \<and> t \<in> {NegotiationSucceeded, Opened, Closed, Disconnected})
        \<or> (s = NegotiationSucceeded \<and> t \<in> {Opened, Closed, Disconnected})
        \<or> (s = Opened \<and> t \<in> {Closing, Closed, Disconnecting, Disconnected})
        \<or> (s = Closing \<and> t = Closed)
        \<or> (s = Disconnecting \<and> t = Disconnected)
        \<or> (s = Disconnected \<and> t = Connecting)
        \<or> (s = Connecting \<and> t \<in> {NegotiationSent, NegotiationSucceeded, Opened, Disconnected}))"

section \<open>The machine\<close>

record machine =
  mach_state :: pool_state
  mach_rpid :: uuid
  min_runspaces :: u32
  max_runspaces :: u32

datatype action = SendMessage message_type ustr

definition machine_new :: "uuid \<Rightarrow> u32 \<Rightarrow> u32 \<Rightarrow> machine res" where
  "machine_new r mn mx =
     (if sint mn < 1 \<or> sint mx < sint mn
      then Inl (protocol (lit ''invalid runspace bounds: min='' @ show_sword mn @ lit '' max=''
                          @ show_sword mx))
      else Inr \<lparr>mach_state = BeforeOpen, mach_rpid = r, min_runspaces = mn, max_runspaces = mx\<rparr>)"

definition PROTOCOL_VERSION :: ustr where "PROTOCOL_VERSION = lit ''2.3''"
definition PS_VERSION :: ustr where "PS_VERSION = lit ''2.0''"
definition SERIALIZATION_VERSION :: ustr where "SERIALIZATION_VERSION = lit ''1.1.0.1''"

definition session_capability_xml :: "codec_env \<Rightarrow> ustr" where
  "session_capability_xml E = clixml_of E (PsObject
     (object_with (object_with (object_with object_new
       (lit ''PSVersion'') (PsVersion PS_VERSION))
       (lit ''protocolversion'') (PsVersion PROTOCOL_VERSION))
       (lit ''SerializationVersion'') (PsVersion SERIALIZATION_VERSION)))"

definition init_runspace_pool_xml :: "codec_env \<Rightarrow> u32 \<Rightarrow> u32 \<Rightarrow> ustr" where
  "init_runspace_pool_xml E mn mx = clixml_of E (PsObject
     (object_with (object_with (object_with (object_with (object_with (object_with object_new
       (lit ''MinRunspaces'') (PsI32 mn))
       (lit ''MaxRunspaces'') (PsI32 mx))
       (lit ''PSThreadOptions'')
         (ps_enum (lit ''System.Management.Automation.Runspaces.PSThreadOptions'') (lit ''Default'') 0))
       (lit ''ApartmentState'')
         (ps_enum (lit ''System.Management.Automation.Runspaces.ApartmentState'') (lit ''UNKNOWN'') 2))
       (lit ''HostInfo'') ps_host_info_null)
       (lit ''ApplicationArguments'') PsNull))"

definition machine_open :: "codec_env \<Rightarrow> machine \<Rightarrow> machine \<times> action list" where
  "machine_open E m =
     (if mach_state m \<noteq> BeforeOpen then (m, [])
      else (m\<lparr>mach_state := NegotiationSent\<rparr>,
            [SendMessage SessionCapability (session_capability_xml E),
             SendMessage InitRunspacePool
               (init_runspace_pool_xml E (min_runspaces m) (max_runspaces m))]))"

definition is_terminal :: "machine \<Rightarrow> bool" where
  "is_terminal m \<longleftrightarrow> mach_state m = Closed \<or> mach_state m = Broken"

definition is_opened :: "machine \<Rightarrow> bool" where
  "is_opened m \<longleftrightarrow> mach_state m = Opened"

definition machine_connect :: "machine \<Rightarrow> machine \<times> action list" where
  "machine_connect m =
     (if is_terminal m then (m, [])
      else if \<not> (mach_state m = BeforeOpen \<or> mach_state m = Disconnected) then (m, [])
      else (m\<lparr>mach_state := Opened\<rparr>, []))"

definition machine_close :: "machine \<Rightarrow> machine \<times> action list" where
  "machine_close m =
     (if is_terminal m then (m, [])
      else (m\<lparr>mach_state := Closing\<rparr>,
            [SendMessage CloseRunspacePool
               (lit ''<Obj RefId='' @ [0x22] @ lit ''0'' @ [0x22] @ lit ''><MS/></Obj>'')]))"

definition mark_closed :: "machine \<Rightarrow> machine" where
  "mark_closed m = m\<lparr>mach_state := Closed\<rparr>"

section \<open>Messages from the server\<close>

fun runspace_state_of :: "ps_value \<Rightarrow> pool_state option" where
  "runspace_state_of (PsObject obj) =
     (case object_get obj (lit ''RunspaceState'') of
        Some (PsI32 code) \<Rightarrow> Some (pool_state_from_i32 code) | _ \<Rightarrow> None)"
| "runspace_state_of _ = None"

definition extract_runspace_state :: "codec_env \<Rightarrow> ustr \<Rightarrow> pool_state res" where
  "extract_runspace_state E t =
     rbind (values_of E t) (\<lambda>vs.
       ok_or (find_map runspace_state_of vs)
         (protocol (lit ''RunspacePoolState message missing RunspaceState property'')))"

text \<open>
  The closure of \<open>terminal_state_reason\<close> for one value: the text of the property, or the message of
  the exception of the record it holds.
\<close>

fun reason_of :: "ps_value \<Rightarrow> ustr option" where
  "reason_of (PsObject obj) =
     Option.bind (object_get obj (lit ''ExceptionAsErrorRecord'')) (\<lambda>record.
       case as_str record of
         Some text \<Rightarrow> Some text
       | None \<Rightarrow>
           Option.bind (error_from_ps_object record) (\<lambda>r.
           Option.bind (er_exception r) exc_message))"
| "reason_of _ = None"

definition terminal_state_reason :: "codec_env \<Rightarrow> ustr \<Rightarrow> ustr option" where
  "terminal_state_reason E t =
     Option.bind (option_of (values_of E t)) (\<lambda>vs.
     Option.bind (find_map reason_of vs) (\<lambda>message.
       if trim message = [] then None
       else Some (escape_remote_text (trim message) MAX_SERVER_MESSAGE_CHARS)))"

definition on_message :: "codec_env \<Rightarrow> psrp_message \<Rightarrow> machine \<Rightarrow> machine \<times> unit res" where
  "on_message E msg m =
     (if msg_type msg = RunspacePoolState then
        case extract_runspace_state E (msg_data msg) of
          Inl e \<Rightarrow> (m, Inl e)
        | Inr new_state \<Rightarrow>
            if \<not> is_legal_server_transition (mach_state m) new_state
            then (m, Inl (protocol (lit ''illegal RunspacePool transition ''
                      @ pool_state_debug (mach_state m) @ lit '' -> '' @ pool_state_debug new_state)))
            else
              let m = m\<lparr>mach_state := new_state\<rparr> in
              if new_state = Broken \<or> new_state = Closed
              then (m, Inl (protocol (lit ''runspace pool entered terminal state ''
                      @ pool_state_debug new_state
                      @ (case terminal_state_reason E (msg_data msg) of
                           Some reason \<Rightarrow> lit '': '' @ reason | None \<Rightarrow> []))))
              else (m, Inr ())
      else (m, Inr ()))"

section \<open>Steps\<close>

text \<open>Everything that can happen to a machine, as a step relation, and what a machine can reach.\<close>

inductive machine_step :: "codec_env \<Rightarrow> machine \<Rightarrow> machine \<Rightarrow> bool" for E where
  step_open: "machine_open E m = (m', acts) \<Longrightarrow> machine_step E m m'"
| step_connect: "machine_connect m = (m', acts) \<Longrightarrow> machine_step E m m'"
| step_close: "machine_close m = (m', acts) \<Longrightarrow> machine_step E m m'"
| step_mark_closed: "machine_step E m (mark_closed m)"
| step_message: "on_message E msg m = (m', r) \<Longrightarrow> machine_step E m m'"

inductive machine_reaches :: "codec_env \<Rightarrow> machine \<Rightarrow> machine \<Rightarrow> bool" for E m where
  reaches_refl: "machine_reaches E m m"
| reaches_step: "machine_reaches E m m' \<Longrightarrow> machine_step E m' m'' \<Longrightarrow> machine_reaches E m m''"

lemma reaches_after_step:
  assumes "machine_reaches E m' m''" "machine_step E m m'"
  shows "machine_reaches E m m''"
  using assms(1) by (induction rule: machine_reaches.induct)
    (auto intro: reaches_step reaches_step [OF reaches_refl assms(2)])

lemma reaches_invariant:
  assumes "machine_reaches E m m'" "P m" "\<And>a b. P a \<Longrightarrow> machine_step E a b \<Longrightarrow> P b"
  shows "P m'"
  using assms(1) by (induction rule: machine_reaches.induct) (use assms(2,3) in auto)

text \<open>What \<open>on_message\<close> does, by cases.\<close>

lemma on_message_cases:
  assumes "on_message E msg m = (m', r)"
  obtains (ignored) "msg_type msg \<noteq> RunspacePoolState" "m' = m" "r = Inr ()"
  | (unreadable) e where "msg_type msg = RunspacePoolState" "m' = m" "r = Inl e"
      "extract_runspace_state E (msg_data msg) = Inl e"
  | (illegal) s e where "msg_type msg = RunspacePoolState" "m' = m" "r = Inl e"
      "extract_runspace_state E (msg_data msg) = Inr s" "\<not> is_legal_server_transition (mach_state m) s"
  | (moved) s where "msg_type msg = RunspacePoolState" "m' = m\<lparr>mach_state := s\<rparr>"
      "extract_runspace_state E (msg_data msg) = Inr s" "is_legal_server_transition (mach_state m) s"
      "(\<exists>e. r = Inl e) \<longleftrightarrow> s = Broken \<or> s = Closed"
  using assms
  by (auto simp: on_message_def Let_def split: if_splits sum.splits)

text \<open>The states a pool never leaves for good: closing, closed and broken.\<close>

definition ending :: "pool_state \<Rightarrow> bool" where
  "ending s \<longleftrightarrow> s = Closing \<or> s = Closed \<or> s = Broken"

lemma ending_legal: "ending s \<Longrightarrow> is_legal_server_transition s t \<Longrightarrow> ending t"
  by (cases s; cases t) (simp_all add: ending_def is_legal_server_transition_def)

lemma ending_refuses:
  assumes "ending (mach_state m)"
  shows "machine_open E m = (m, [])" "machine_connect m = (m, [])"
  using assms by (auto simp: ending_def machine_open_def machine_connect_def is_terminal_def)

lemma ending_step:
  assumes "machine_step E m m'" "ending (mach_state m)"
  shows "ending (mach_state m')"
  using assms(1)
proof cases
  case (step_open acts)
  then show ?thesis using ending_refuses [OF assms(2)] assms(2) by simp
next
  case (step_connect acts)
  then show ?thesis using ending_refuses [OF assms(2)] assms(2) by simp
next
  case (step_close acts)
  then show ?thesis using assms(2) by (auto simp: machine_close_def ending_def split: if_splits)
next
  case step_mark_closed
  then show ?thesis by (simp add: mark_closed_def ending_def)
next
  case (step_message msg r)
  then show ?thesis using assms(2) by (cases rule: on_message_cases) (auto dest: ending_legal)
qed

text \<open>What no step changes.\<close>

lemma step_fields:
  assumes "machine_step E m m'"
  shows "mach_rpid m' = mach_rpid m \<and> min_runspaces m' = min_runspaces m
    \<and> max_runspaces m' = max_runspaces m"
  using assms
proof cases
  case (step_message msg r)
  then show ?thesis by (cases rule: on_message_cases) auto
qed (auto simp: machine_open_def machine_connect_def machine_close_def mark_closed_def split: if_splits)

lemma runspace_bounds:
  assumes "machine_new r mn mx = Inr m" "machine_reaches E m m'"
  shows "mach_rpid m' = r \<and> min_runspaces m' = mn \<and> max_runspaces m' = mx
    \<and> 1 \<le> sint (min_runspaces m') \<and> sint (min_runspaces m') \<le> sint (max_runspaces m')"
proof -
  have new: "mach_rpid m = r" "min_runspaces m = mn" "max_runspaces m = mx"
    "1 \<le> sint mn" "sint mn \<le> sint mx"
    using assms(1) by (auto simp: machine_new_def split: if_splits)
  have "mach_rpid m' = r \<and> min_runspaces m' = mn \<and> max_runspaces m' = mx"
    using assms(2) by (rule reaches_invariant) (use new step_fields in auto)
  then show ?thesis using new by simp
qed

section \<open>Properties\<close>

text \<open>
  C11: a pool that is closing, closed or broken is dead for good: whatever the client calls and
  whatever the server sends afterwards, in any order, it stays in one of these three states, and
  \<open>open\<close> and \<open>connect\<close> do nothing, so no handshake restarts.
\<close>

theorem ended_pool_never_reopens:
  assumes "ending (mach_state m)" "machine_reaches E m m'"
  shows "ending (mach_state m') \<and> machine_open E m' = (m', []) \<and> machine_connect m' = (m', [])"
proof -
  have "ending (mach_state m')"
    using assms(2,1) ending_step by (rule reaches_invariant [where P = "\<lambda>m. ending (mach_state m)"])
  then show ?thesis using ending_refuses by blast
qed

definition closed_machine :: machine where
  "closed_machine = \<lparr>mach_state = Closed, mach_rpid = 7, min_runspaces = 1, max_runspaces = 2\<rparr>"

theorem ended_pool_never_reopens_witness:
  "machine_open (scripted_codec []) closed_machine = (closed_machine, [])"
  using ended_pool_never_reopens [of closed_machine "scripted_codec []" closed_machine, OF _ reaches_refl]
  by (simp add: ending_def closed_machine_def)

text \<open>
  A server message moves the machine only along a transition of MS-PSRP 2.2.3.4, and only to
  the state the message names; any other message, an unreadable state or an illegal one leaves the
  machine as it is.  The caller gets an error exactly when the state could not be read, was
  refused, or is \<open>Broken\<close> or \<open>Closed\<close>.
\<close>

lemma server_moves_are_legal:
  "case on_message E msg m of (m', r) \<Rightarrow>
     (m' = m \<or> (\<exists>s. m' = m\<lparr>mach_state := s\<rparr> \<and> is_legal_server_transition (mach_state m) s
          \<and> extract_runspace_state E (msg_data msg) = Inr s))
     \<and> ((\<exists>e. r = Inl e) = (msg_type msg = RunspacePoolState
          \<and> (case extract_runspace_state E (msg_data msg) of Inl e \<Rightarrow> True
             | Inr s \<Rightarrow> \<not> (is_legal_server_transition (mach_state m) s \<and> s \<noteq> Broken \<and> s \<noteq> Closed))))"
proof -
  obtain m' r where r: "on_message E msg m = (m', r)" by (cases "on_message E msg m")
  show ?thesis unfolding r prod.case using r by (cases rule: on_message_cases) auto
qed

text \<open>
  A machine that was accepted keeps its pool id and its runspace bounds, with
  1 <= min <= max, through every sequence of calls and messages.
\<close>

lemma runspace_bounds_invariant:
  assumes "machine_new r mn mx = Inr m" "machine_reaches E m m'"
  shows "mach_rpid m' = r \<and> min_runspaces m' = mn \<and> max_runspaces m' = mx
    \<and> 1 \<le> sint (min_runspaces m') \<and> sint (min_runspaces m') \<le> sint (max_runspaces m')"
  using assms by (rule runspace_bounds)

lemma runspace_bounds_invariant_witness:
  "1 \<le> sint (min_runspaces \<lparr>mach_state = BeforeOpen, mach_rpid = 9, min_runspaces = 2, max_runspaces = 5\<rparr>)"
proof -
  have "machine_new 9 2 5
      = Inr \<lparr>mach_state = BeforeOpen, mach_rpid = 9, min_runspaces = 2, max_runspaces = 5\<rparr>"
    by (simp add: machine_new_def)
  from runspace_bounds_invariant [OF this reaches_refl] show ?thesis by blast
qed

end
