(* ===== verification/Crypto.thy ===== *)
theory Crypto
  imports Errors Base64
begin

text \<open>
  Session-key cryptography (\<open>src/src/crypto.rs\<close>): the public key blob, the unwrapping of the
  session key and the CBC encryption of secure strings.  Third-party code enters as functions: the
  AES-256 block operations (\<open>cipher\<close>), and for an RSA key pair its public numbers and its
  PKCS#1 v1.5 decryption (\<open>client_key\<close>).
\<close>

section \<open>Interfaces\<close>

record cipher =
  encrypt_block :: "bytes \<Rightarrow> bytes \<Rightarrow> bytes"
  decrypt_block :: "bytes \<Rightarrow> bytes \<Rightarrow> bytes"

definition cipher_laws :: "cipher \<Rightarrow> bool" where
  "cipher_laws C \<longleftrightarrow>
     (\<forall>key b. length b = 16 \<longrightarrow>
        length (encrypt_block C key b) = 16 \<and> decrypt_block C key (encrypt_block C key b) = b)"

record client_key =
  ck_modulus_le :: bytes
  ck_exponent_le :: bytes
  ck_decrypt :: "bytes \<Rightarrow> bytes option"

section \<open>The client's key\<close>

definition SESSION_KEY_BLOB_HEADER :: bytes where
  "SESSION_KEY_BLOB_HEADER =
     [0x01, 0x02, 0x00, 0x00, 0x10, 0x66, 0x00, 0x00, 0x00, 0xA4, 0x00, 0x00]"

definition SESSION_KEY_UNWRAP_FAILED :: ustr where
  "SESSION_KEY_UNWRAP_FAILED = lit ''session key unwrap failed''"

definition SESSION_KEY_BLOCK_LEN :: nat where "SESSION_KEY_BLOCK_LEN = 256"

definition resize :: "nat \<Rightarrow> bytes \<Rightarrow> bytes" where
  "resize n bs = take n bs @ replicate (n - length bs) 0"

definition public_blob :: "client_key \<Rightarrow> bytes" where
  "public_blob k =
     [0x06, 0x02, 0x00, 0x00] @ u32_to_le 0xa400
     @ [0x52, 0x53, 0x41, 0x31] @ u32_to_le 2048
     @ resize 4 (ck_exponent_le k)
     @ (if length (ck_modulus_le k) > 256 then take 256 (ck_modulus_le k)
        else resize 256 (ck_modulus_le k))"

definition public_blob_base64 :: "client_key \<Rightarrow> ustr" where
  "public_blob_base64 k = base64_encode (public_blob k)"

definition hex_byte :: "u8 \<Rightarrow> ustr" where
  "hex_byte b = [hex_digit_upper (unat b div 16), hex_digit_upper (unat b mod 16)]"

definition public_blob_hex :: "client_key \<Rightarrow> ustr" where
  "public_blob_hex k = concat (map hex_byte (public_blob k))"

definition decrypt_session_key :: "client_key \<Rightarrow> bytes \<Rightarrow> bytes res" where
  "decrypt_session_key k blob =
     (case strip_prefix SESSION_KEY_BLOB_HEADER blob of
        None \<Rightarrow> Inl (protocol (lit ''session key: bad SIMPLEBLOB header''))
      | Some ciphertext \<Rightarrow>
          if length ciphertext \<noteq> SESSION_KEY_BLOCK_LEN
          then Inl (protocol (lit ''session key: expected '' @ show_nat SESSION_KEY_BLOCK_LEN
                              @ lit '' encrypted bytes, got '' @ show_nat (length ciphertext)))
          else (case ck_decrypt k (rev ciphertext) of
                  None \<Rightarrow> Inl (protocol SESSION_KEY_UNWRAP_FAILED)
                | Some decrypted \<Rightarrow>
                    if length decrypted \<noteq> 32 then Inl (protocol SESSION_KEY_UNWRAP_FAILED)
                    else Inr decrypted))"

section \<open>Secure strings\<close>

definition SECURE_STRING_IV :: bytes where "SECURE_STRING_IV = replicate 16 0"

definition xor_bytes :: "bytes \<Rightarrow> bytes \<Rightarrow> bytes" where
  "xor_bytes a b = map2 (XOR) a b"

text \<open>\<open>as_chunks::<n>().0\<close>: the whole chunks, a shorter rest left out.\<close>

function full_chunks :: "nat \<Rightarrow> 'a list \<Rightarrow> 'a list list" where
  "full_chunks n xs =
     (if n = 0 \<or> length xs < n then [] else take n xs # full_chunks n (drop n xs))"
  by pat_completeness auto
termination
  by (relation "measure (\<lambda>(n, xs). length xs)") auto

declare full_chunks.simps [simp del]

definition utf16le :: "ustr \<Rightarrow> bytes" where
  "utf16le s = concat (map (\<lambda>u. u16_to_le (of_nat u)) (encode_utf16 s))"

definition pkcs7 :: "bytes \<Rightarrow> bytes" where
  "pkcs7 bs = bs @ replicate (16 - length bs mod 16) (of_nat (16 - length bs mod 16))"

fun cbc_encrypt :: "cipher \<Rightarrow> bytes \<Rightarrow> bytes \<Rightarrow> bytes list \<Rightarrow> bytes" where
  "cbc_encrypt C key prev [] = []"
| "cbc_encrypt C key prev (chunk # cs) =
     (let c = encrypt_block C key (xor_bytes chunk prev) in c @ cbc_encrypt C key c cs)"

fun cbc_decrypt :: "cipher \<Rightarrow> bytes \<Rightarrow> bytes \<Rightarrow> bytes list \<Rightarrow> bytes" where
  "cbc_decrypt C key prev [] = []"
| "cbc_decrypt C key prev (chunk # cs) =
     xor_bytes (decrypt_block C key chunk) prev @ cbc_decrypt C key chunk cs"

definition encrypt_secure_string :: "cipher \<Rightarrow> bytes \<Rightarrow> ustr \<Rightarrow> bytes" where
  "encrypt_secure_string C key plaintext =
     cbc_encrypt C key SECURE_STRING_IV (full_chunks 16 (pkcs7 (utf16le plaintext)))"

definition bad_padding :: psrp_error where
  "bad_padding = protocol (lit ''invalid PKCS#7 padding'')"

definition strip_padding :: "bytes \<Rightarrow> bytes res" where
  "strip_padding pt =
     (if pt = [] then Inl (protocol (lit ''empty plaintext''))
      else
        let pad_byte = last pt; pad = unat pad_byte in
        if pad_byte = 0 \<or> pad > 16 then Inl bad_padding
        else if length pt < pad then Inl bad_padding
        else
          let body_len = length pt - pad in
          if \<exists>b\<in>set (drop body_len pt). b \<noteq> pad_byte then Inl bad_padding
          else Inr (take body_len pt))"

definition decrypt_secure_string :: "cipher \<Rightarrow> bytes \<Rightarrow> bytes \<Rightarrow> ustr res" where
  "decrypt_secure_string C key payload =
     (if length payload < 16 \<or> length payload mod 16 \<noteq> 0
      then Inl (protocol (lit ''secure string payload malformed''))
      else
        rbind (strip_padding (cbc_decrypt C key SECURE_STRING_IV (full_chunks 16 payload))) (\<lambda>pt.
        if length pt mod 2 \<noteq> 0
        then Inl (protocol (lit ''secure string plaintext not UTF-16 aligned''))
        else (case from_utf16 (map (\<lambda>c. unat (u16_of_le c)) (full_chunks 2 pt)) of
                Some s \<Rightarrow> Inr s
              | None \<Rightarrow> Inl (protocol (lit ''secure string UTF-16: invalid utf-16: lone surrogate found'')))))"

section \<open>Chunks and padding\<close>

lemma numeral_4_eq_4: "(4 :: nat) = Suc (Suc (Suc (Suc 0)))"
  by simp

lemma full_chunks_Nil [simp]: "0 < n \<Longrightarrow> full_chunks n [] = []"
  by (simp add: full_chunks.simps)

lemma full_chunks_append: "0 < n \<Longrightarrow> length xs = n \<Longrightarrow> full_chunks n (xs @ ys) = xs # full_chunks n ys"
  by (simp add: full_chunks.simps [of n "xs @ ys"])

lemma full_chunks_concat: "0 < n \<Longrightarrow> \<forall>c\<in>set cs. length c = n \<Longrightarrow> full_chunks n (concat cs) = cs"
  by (induction cs) (auto simp: full_chunks_append)

lemma concat_full_chunks:
  "0 < n \<Longrightarrow> n dvd length xs \<Longrightarrow> concat (full_chunks n xs) = xs \<and> (\<forall>c\<in>set (full_chunks n xs). length c = n)"
proof (induction n xs rule: full_chunks.induct)
  case (1 n xs)
  show ?case
  proof (cases "xs = []")
    case False
    then have "n \<le> length xs" using "1.prems" by (simp add: dvd_imp_le)
    then have go: "\<not> (n = 0 \<or> length xs < n)" using "1.prems" by auto
    have "n dvd length (drop n xs)"
      using "1.prems"(2) \<open>n \<le> length xs\<close> by (simp add: dvd_diff_nat)
    with "1.IH" [OF go "1.prems"(1)]
    have rest: "concat (full_chunks n (drop n xs)) = drop n xs"
      "\<forall>c\<in>set (full_chunks n (drop n xs)). length c = n" by blast+
    have "full_chunks n xs = take n xs # full_chunks n (drop n xs)"
      unfolding full_chunks.simps [of n xs] if_not_P [OF go] ..
    moreover have "length (take n xs) = n" using \<open>n \<le> length xs\<close> by simp
    ultimately show ?thesis by (metis append_take_drop_id concat.simps(2) rest set_ConsD)
  qed (use "1.prems" in simp)
qed

lemma pkcs7_length: "16 dvd length (pkcs7 bs)" "length bs < length (pkcs7 bs)"
proof -
  have pad: "l + (16 - m) = 16 * (q + 1)" if "l = 16 * q + m" "m < 16" for l m q :: nat
    using that by simp
  have "length (pkcs7 bs) = 16 * (length bs div 16 + 1)"
    unfolding pkcs7_def length_append length_replicate by (rule pad) simp_all
  then show "16 dvd length (pkcs7 bs)" by simp
  show "length bs < length (pkcs7 bs)" by (simp add: pkcs7_def)
qed

lemma length_concat_same: "\<forall>c\<in>set cs. length c = n \<Longrightarrow> length (concat cs) = n * length cs"
  by (induction cs) auto

lemma strip_padding_pkcs7: "strip_padding (pkcs7 bs) = Inr bs"
proof -
  define n where "n = 16 - length bs mod 16"
  have n: "0 < n" "n \<le> 16" by (simp_all add: n_def)
  have pt: "pkcs7 bs = bs @ replicate n (of_nat n)" by (simp add: pkcs7_def n_def)
  have "last (pkcs7 bs) = of_nat n" using n by (simp add: pt last_append)
  moreover have "unat (of_nat n :: u8) = n" using n by simp
  moreover from this have "(of_nat n :: u8) \<noteq> 0" using n by (metis less_numeral_extra(3) unat_0)
  ultimately show ?thesis using n by (simp add: strip_padding_def pt Let_def)
qed

section \<open>CBC\<close>

lemma xor_bytes_length [simp]: "length (xor_bytes a b) = min (length a) (length b)"
  by (simp add: xor_bytes_def)

lemma xor_bytes_twice: "length a = length b \<Longrightarrow> xor_bytes (xor_bytes a b) b = a"
  by (induction a b rule: list_induct2) (simp_all add: xor_bytes_def xor.assoc)

lemma cbc_roundtrip:
  assumes "cipher_laws C" "\<forall>c\<in>set cs. length c = 16" "length prev = 16"
  shows "cbc_decrypt C key prev (full_chunks 16 (cbc_encrypt C key prev cs)) = concat cs"
  using assms(2,3)
proof (induction cs arbitrary: prev)
  case (Cons c cs)
  let ?e = "encrypt_block C key (xor_bytes c prev)"
  have e: "length ?e = 16" "decrypt_block C key ?e = xor_bytes c prev"
    using assms(1) Cons.prems by (auto simp: cipher_laws_def)
  then have "cbc_decrypt C key ?e (full_chunks 16 (cbc_encrypt C key ?e cs)) = concat cs"
    using Cons by simp
  then show ?case using e Cons.prems by (simp add: Let_def full_chunks_append xor_bytes_twice)
qed simp

lemma cbc_encrypt_length:
  assumes "cipher_laws C" "\<forall>c\<in>set cs. length c = 16" "length prev = 16"
  shows "length (cbc_encrypt C key prev cs) = 16 * length cs"
  using assms(2,3)
proof (induction cs arbitrary: prev)
  case (Cons c cs)
  then show ?case using assms(1) by (simp add: Let_def cipher_laws_def)
qed simp

lemma utf16le_units:
  assumes "valid_str s"
  shows "map (\<lambda>c. unat (u16_of_le c)) (full_chunks 2 (utf16le s)) = encode_utf16 s"
    "2 dvd length (utf16le s)"
proof -
  have "full_chunks 2 (utf16le s) = map (\<lambda>u. u16_to_le (of_nat u)) (encode_utf16 s)"
    unfolding utf16le_def by (rule full_chunks_concat) auto
  then show "map (\<lambda>c. unat (u16_of_le c)) (full_chunks 2 (utf16le s)) = encode_utf16 s"
    using encode_utf16_units [OF assms] by (auto simp: unat_of_nat intro!: map_idI)
  show "2 dvd length (utf16le s)"
    unfolding utf16le_def by (subst length_concat_same [of _ 2]) auto
qed

lemma decrypt_encrypt_secure_string:
  assumes "cipher_laws C" "valid_str s"
  shows "decrypt_secure_string C key (encrypt_secure_string C key s) = Inr s"
    "length (encrypt_secure_string C key s) = length (pkcs7 (utf16le s))"
proof -
  let ?cs = "full_chunks 16 (pkcs7 (utf16le s))"
  have cs: "concat ?cs = pkcs7 (utf16le s)" "\<forall>c\<in>set ?cs. length c = 16"
    using concat_full_chunks [of 16 "pkcs7 (utf16le s)"] pkcs7_length by auto
  have "length (concat ?cs) = 16 * length ?cs"
    by (rule length_concat_same [OF cs(2)])
  then show len: "length (encrypt_secure_string C key s) = length (pkcs7 (utf16le s))"
    using cbc_encrypt_length [OF assms(1) cs(2), of SECURE_STRING_IV key] cs(1)
    by (simp add: encrypt_secure_string_def SECURE_STRING_IV_def)
  have "cbc_decrypt C key SECURE_STRING_IV (full_chunks 16 (encrypt_secure_string C key s))
      = pkcs7 (utf16le s)"
    unfolding encrypt_secure_string_def
    using cbc_roundtrip [OF assms(1) cs(2), of SECURE_STRING_IV key] cs(1)
    by (simp add: SECURE_STRING_IV_def)
  moreover have "16 \<le> length (pkcs7 (utf16le s))" "16 dvd length (pkcs7 (utf16le s))"
    using pkcs7_length [of "utf16le s"] by (auto intro!: dvd_imp_le)
  ultimately show "decrypt_secure_string C key (encrypt_secure_string C key s) = Inr s"
    using len utf16le_units [OF assms(2)] assms(2)
    by (simp add: decrypt_secure_string_def strip_padding_pkcs7)
qed

section \<open>Properties\<close>

text \<open>A cipher that satisfies the laws, for concrete inputs.\<close>

definition shift_cipher :: cipher where
  "shift_cipher = \<lparr>encrypt_block = (\<lambda>key b. map (\<lambda>x. x + 1) b),
     decrypt_block = (\<lambda>key b. map (\<lambda>x. x - 1) b)\<rparr>"

lemma shift_cipher_laws: "cipher_laws shift_cipher"
  by (simp add: cipher_laws_def shift_cipher_def comp_def)

text \<open>
  C12: secure strings round trip: for every text, decrypting its encryption under the same key
  gives the text back, characters outside the BMP and lengths that are a multiple of the block
  included; the ciphertext is a whole number of blocks and strictly longer than the UTF-16 text,
  so that the padding is never ambiguous.
\<close>

theorem secure_string_roundtrip:
  assumes "cipher_laws C" "valid_str s"
  shows "decrypt_secure_string C key (encrypt_secure_string C key s) = Inr s
    \<and> length (encrypt_secure_string C key s) mod 16 = 0
    \<and> length (utf16le s) < length (encrypt_secure_string C key s)"
  using decrypt_encrypt_secure_string [OF assms] pkcs7_length [of "utf16le s"] by simp

theorem secure_string_roundtrip_witness:
  "decrypt_secure_string shift_cipher [] (encrypt_secure_string shift_cipher [] [0x1F600, 65])
   = Inr [0x1F600, 65]"
  using secure_string_roundtrip [OF shift_cipher_laws, of "[0x1F600, 65]" "[]"]
  by (simp add: scalar_def)

text \<open>
  Unwrapping the session key yields 32 bytes or an error, and gives an attacker no padding
  oracle: once the blob has the right header and length, every failure, of the RSA padding or of
  the length of what it decrypts to, is one and the same error, whatever the blob and the key.
\<close>

lemma unwrap_no_oracle:
  assumes "decrypt_session_key k blob = r"
    and "strip_prefix SESSION_KEY_BLOB_HEADER blob = Some ciphertext"
    and "length ciphertext = SESSION_KEY_BLOCK_LEN"
  shows "r = Inl (protocol SESSION_KEY_UNWRAP_FAILED)
    \<or> (\<exists>key. r = Inr key \<and> length key = 32 \<and> ck_decrypt k (rev ciphertext) = Some key)"
  using assms by (auto simp: decrypt_session_key_def split: option.splits if_splits)

definition broken_key :: client_key where
  "broken_key = \<lparr>ck_modulus_le = [], ck_exponent_le = [], ck_decrypt = (\<lambda>_. Some [1])\<rparr>"

lemma unwrap_no_oracle_witness:
  "decrypt_session_key broken_key (SESSION_KEY_BLOB_HEADER @ replicate 256 0)
   = Inl (protocol SESSION_KEY_UNWRAP_FAILED)"
  using unwrap_no_oracle [OF refl, of "SESSION_KEY_BLOB_HEADER @ replicate 256 0" "replicate 256 0"
      broken_key]
  by (auto simp: SESSION_KEY_BLOCK_LEN_def broken_key_def)

text \<open>
  The public key blob always has its 276 bytes, the fixed header first, whatever the size of
  the key's numbers, and the last 256 are the little-endian modulus, cut or filled up with zeros.
\<close>

lemma public_blob_shape:
  "length (public_blob k) = 276
   \<and> take 12 (public_blob k) = [6, 2, 0, 0, 0, 0xA4, 0, 0, 0x52, 0x53, 0x41, 0x31]
   \<and> drop 20 (public_blob k)
       = take 256 (ck_modulus_le k) @ replicate (256 - length (ck_modulus_le k)) 0"
proof -
  have "nat_to_le (Suc (Suc (Suc (Suc 0)))) 0xA400 = [0, 0xA4, 0, 0]" by simp
  moreover have "unat (0xA400 :: u32) = 0xA400" by simp
  ultimately have "u32_to_le 0xA400 = [0, 0xA4, 0, 0]"
    by (simp only: u32_to_le_def numeral_4_eq_4)
  then show ?thesis by (auto simp: public_blob_def resize_def)
qed

end
