(* ===== verification/Host.thy ===== *)
theory Host
  imports Values
begin

text \<open>
  The host interface (\<open>src/src/host.rs\<close>).  An implementation of the trait \<open>PsHost\<close> is a record
  of operations on its own state \<open>'h\<close>; the trait's default methods are \<open>no_interaction_host\<close>,
  and \<open>buffered_host\<close> is the crate's recording host.  \<open>dispatch_host_call\<close> maps a method id and
  its arguments to a call of the host and to the value to send back, if any.
\<close>

datatype host_call_kind =
    ReadInput | ReadSecureInput | KindPromptForChoice | KindPrompt | GetCredential | KindOther u64

record 'h ps_host =
  write_line :: "ustr \<Rightarrow> 'h \<Rightarrow> 'h"
  write_plain :: "ustr \<Rightarrow> 'h \<Rightarrow> 'h"
  write_error_line :: "ustr \<Rightarrow> 'h \<Rightarrow> 'h"
  write_warning_line :: "ustr \<Rightarrow> 'h \<Rightarrow> 'h"
  write_verbose_line :: "ustr \<Rightarrow> 'h \<Rightarrow> 'h"
  write_debug_line :: "ustr \<Rightarrow> 'h \<Rightarrow> 'h"
  write_progress :: "u64 \<Rightarrow> ps_value \<Rightarrow> 'h \<Rightarrow> 'h"
  read_line :: "'h \<Rightarrow> 'h \<times> ustr res"
  read_line_as_secure_string :: "'h \<Rightarrow> 'h \<times> ustr res"
  prompt_for_choice :: "ustr \<Rightarrow> ustr \<Rightarrow> (ustr \<times> ustr) list \<Rightarrow> u32 \<Rightarrow> 'h \<Rightarrow> 'h \<times> u32 res"
  prompt :: "ustr \<Rightarrow> ustr \<Rightarrow> ustr list \<Rightarrow> 'h \<Rightarrow> 'h \<times> ps_value list res"
  get_credential :: "ustr \<Rightarrow> ustr \<Rightarrow> ustr \<Rightarrow> 'h \<Rightarrow> 'h \<times> (ustr \<times> ustr) res"
  rejection_for :: "host_call_kind \<Rightarrow> psrp_error"

fun kind_debug :: "host_call_kind \<Rightarrow> ustr" where
  "kind_debug ReadInput = lit ''ReadInput''"
| "kind_debug ReadSecureInput = lit ''ReadSecureInput''"
| "kind_debug KindPromptForChoice = lit ''PromptForChoice''"
| "kind_debug KindPrompt = lit ''Prompt''"
| "kind_debug GetCredential = lit ''GetCredential''"
| "kind_debug (KindOther v) = lit ''Other('' @ show_sword v @ lit '')''"

definition default_rejection :: "host_call_kind \<Rightarrow> psrp_error" where
  "default_rejection kind = protocol (lit ''this host does not support '' @ kind_debug kind
     @ [0x20, 0x2014, 0x20] @ lit ''implement PsHost to handle it'')"

definition no_interaction_host :: "'h ps_host" where
  "no_interaction_host =
     \<lparr>write_line = (\<lambda>_ h. h), write_plain = (\<lambda>_ h. h), write_error_line = (\<lambda>_ h. h),
      write_warning_line = (\<lambda>_ h. h), write_verbose_line = (\<lambda>_ h. h),
      write_debug_line = (\<lambda>_ h. h), write_progress = (\<lambda>_ _ h. h),
      read_line = (\<lambda>h. (h, Inl (default_rejection ReadInput))),
      read_line_as_secure_string = (\<lambda>h. (h, Inl (default_rejection ReadSecureInput))),
      prompt_for_choice = (\<lambda>_ _ _ _ h. (h, Inl (default_rejection KindPromptForChoice))),
      prompt = (\<lambda>_ _ _ h. (h, Inl (default_rejection KindPrompt))),
      get_credential = (\<lambda>_ _ _ h. (h, Inl (default_rejection GetCredential))),
      rejection_for = default_rejection\<rparr>"

record buffered =
  buf_lines :: "ustr list"
  buf_warnings :: "ustr list"
  buf_errors :: "ustr list"
  buf_verbose :: "ustr list"
  buf_debug :: "ustr list"

definition buffered_host :: "buffered ps_host" where
  "buffered_host = no_interaction_host
     \<lparr>write_line := (\<lambda>t b. b\<lparr>buf_lines := buf_lines b @ [t]\<rparr>),
      write_plain := (\<lambda>t b. b\<lparr>buf_lines := buf_lines b @ [t]\<rparr>),
      write_error_line := (\<lambda>t b. b\<lparr>buf_errors := buf_errors b @ [t]\<rparr>),
      write_warning_line := (\<lambda>t b. b\<lparr>buf_warnings := buf_warnings b @ [t]\<rparr>),
      write_verbose_line := (\<lambda>t b. b\<lparr>buf_verbose := buf_verbose b @ [t]\<rparr>),
      write_debug_line := (\<lambda>t b. b\<lparr>buf_debug := buf_debug b @ [t]\<rparr>)\<rparr>"

section \<open>Method ids\<close>

datatype host_method_id =
    WriteLine1 | WriteLine2 | WriteLine3 | WriteErrorLine | WriteWarningLine | WriteVerboseLine
  | WriteDebugLine | WriteProgress | ReadLine | ReadLineAsSecureString | PromptForChoice | Prompt
  | PromptForCredential | OtherMethod u64

definition host_method_from_i64 :: "u64 \<Rightarrow> host_method_id" where
  "host_method_from_i64 v =
     (if v = 11 then WriteLine1 else if v = 12 then WriteLine2 else if v = 13 then WriteLine3
      else if v = 14 then WriteErrorLine else if v = 15 then WriteDebugLine
      else if v = 16 then WriteProgress else if v = 17 then WriteVerboseLine
      else if v = 18 then WriteWarningLine else if v = 51 then ReadLine
      else if v = 52 then ReadLineAsSecureString else if v = 53 then Prompt
      else if v = 54 then PromptForCredential else if v = 56 then PromptForChoice
      else OtherMethod v)"

fun host_method_to_i64 :: "host_method_id \<Rightarrow> u64" where
  "host_method_to_i64 WriteLine1 = 11"
| "host_method_to_i64 WriteLine2 = 12"
| "host_method_to_i64 WriteLine3 = 13"
| "host_method_to_i64 WriteErrorLine = 14"
| "host_method_to_i64 WriteDebugLine = 15"
| "host_method_to_i64 WriteProgress = 16"
| "host_method_to_i64 WriteVerboseLine = 17"
| "host_method_to_i64 WriteWarningLine = 18"
| "host_method_to_i64 ReadLine = 51"
| "host_method_to_i64 ReadLineAsSecureString = 52"
| "host_method_to_i64 Prompt = 53"
| "host_method_to_i64 PromptForCredential = 54"
| "host_method_to_i64 PromptForChoice = 56"
| "host_method_to_i64 (OtherMethod v) = v"

definition host_method_kind :: "host_method_id \<Rightarrow> host_call_kind" where
  "host_method_kind mi =
     (case mi of
        ReadLine \<Rightarrow> ReadInput
      | ReadLineAsSecureString \<Rightarrow> ReadSecureInput
      | PromptForChoice \<Rightarrow> KindPromptForChoice
      | Prompt \<Rightarrow> KindPrompt
      | PromptForCredential \<Rightarrow> GetCredential
      | OtherMethod v \<Rightarrow> KindOther v
      | _ \<Rightarrow> KindOther (host_method_to_i64 mi))"

definition is_void :: "host_method_id \<Rightarrow> bool" where
  "is_void mi \<longleftrightarrow> mi \<in> {WriteLine1, WriteLine2, WriteLine3, WriteErrorLine, WriteWarningLine,
     WriteVerboseLine, WriteDebugLine, WriteProgress}"

section \<open>Dispatch\<close>

definition arg :: "ps_value list \<Rightarrow> nat \<Rightarrow> ps_value option" where
  "arg mp i = (if i < length mp then Some (mp ! i) else None)"

definition arg_str :: "ps_value list \<Rightarrow> nat \<Rightarrow> ustr" where
  "arg_str mp i = (case Option.bind (arg mp i) as_str of Some s \<Rightarrow> s | None \<Rightarrow> [])"

definition choice_of :: "ps_value \<Rightarrow> (ustr \<times> ustr) option" where
  "choice_of v = map_option (\<lambda>p.
     (case Option.bind (map_of p (lit ''Label'')) as_str of Some s \<Rightarrow> s | None \<Rightarrow> [],
      case Option.bind (map_of p (lit ''HelpMessage'')) as_str of Some s \<Rightarrow> s | None \<Rightarrow> []))
     (value_properties v)"

definition list_arg :: "(ps_value \<Rightarrow> 'a option) \<Rightarrow> ps_value list \<Rightarrow> nat \<Rightarrow> 'a list" where
  "list_arg f mp i = (case arg mp i of Some (PsList vs) \<Rightarrow> filter_map f vs | _ \<Rightarrow> [])"

definition dispatch_void :: "'h ps_host \<Rightarrow> host_method_id \<Rightarrow> ps_value list \<Rightarrow> 'h \<Rightarrow> 'h" where
  "dispatch_void H mi mp h =
     (let text = join_str (lit '' '') (filter_map as_str mp) in
      case mi of
        WriteLine1 \<Rightarrow> write_line H text h
      | WriteLine2 \<Rightarrow> write_line H text h
      | WriteLine3 \<Rightarrow> write_line H text h
      | WriteErrorLine \<Rightarrow> write_error_line H text h
      | WriteWarningLine \<Rightarrow> write_warning_line H text h
      | WriteVerboseLine \<Rightarrow> write_verbose_line H text h
      | WriteDebugLine \<Rightarrow> write_debug_line H text h
      | WriteProgress \<Rightarrow>
          write_progress H (case Option.bind (arg mp 0) as_i64 of Some i \<Rightarrow> i | None \<Rightarrow> 0)
            (case arg mp 1 of Some v \<Rightarrow> v | None \<Rightarrow> PsNull) h
      | _ \<Rightarrow> h)"

definition dispatch_host_call ::
    "'h ps_host \<Rightarrow> host_method_id \<Rightarrow> ps_value list \<Rightarrow> 'h \<Rightarrow> 'h \<times> ps_value option res" where
  "dispatch_host_call H mi mp h =
     (if is_void mi then (dispatch_void H mi mp h, Inr None)
      else case mi of
        ReadLine \<Rightarrow>
          (let (h, r) = read_line H h in (h, rbind r (\<lambda>s. Inr (Some (PsString s)))))
      | ReadLineAsSecureString \<Rightarrow>
          (let (h, r) = read_line_as_secure_string H h
           in (h, rbind r (\<lambda>s. Inr (Some (PsSecureString s)))))
      | PromptForChoice \<Rightarrow>
          (let (h, r) = prompt_for_choice H (arg_str mp 0) (arg_str mp 1) (list_arg choice_of mp 2)
             (case Option.bind (arg mp 3) as_i32 of Some i \<Rightarrow> i | None \<Rightarrow> 0) h
           in (h, rbind r (\<lambda>c. Inr (Some (PsI32 c)))))
      | Prompt \<Rightarrow>
          (let (h, r) = prompt H (arg_str mp 0) (arg_str mp 1) (list_arg as_str mp 2) h
           in (h, rbind r (\<lambda>out. Inr (Some (PsList out)))))
      | PromptForCredential \<Rightarrow>
          (let (h, r) = get_credential H (arg_str mp 0) (arg_str mp 1) (arg_str mp 2) h
           in (h, rbind r (\<lambda>(u, p). Inr (Some (PsObject
                 (object_with (object_with object_new (lit ''UserName'') (PsString u))
                   (lit ''Password'') (PsSecureString p)))))))
      | _ \<Rightarrow> (h, Inl (rejection_for H (host_method_kind mi))))"

section \<open>Properties\<close>

lemma host_method_roundtrip:
  "host_method_to_i64 (host_method_from_i64 v) = v"
  "(\<And>w. mi \<noteq> OtherMethod w) \<Longrightarrow> host_method_from_i64 (host_method_to_i64 mi) = mi"
  by (simp add: host_method_from_i64_def, cases mi, simp_all add: host_method_from_i64_def)

lemma dispatch_answers:
  "snd (dispatch_host_call H mi mp h) = Inr None \<longleftrightarrow> is_void mi"
  by (cases mi) (auto simp: dispatch_host_call_def is_void_def rbind_Inr_iff split: prod.splits)

text \<open>
  A host call is answered exactly when the server waits for an answer: a write method never
  fails and has nothing to send back, and every other method, the unknown ones included, yields a
  value or an error for the response; the method id read from the wire is sent back unchanged.
\<close>

lemma host_call_answered:
  "(snd (dispatch_host_call H mi mp h) = Inr None) = is_void mi
   \<and> (is_void mi \<longrightarrow> (\<forall>e. snd (dispatch_host_call H mi mp h) \<noteq> Inl e))
   \<and> host_method_to_i64 (host_method_from_i64 v) = v"
  using dispatch_answers [of H mi mp h] host_method_roundtrip(1) [of v] by auto

lemma host_call_answered_witness:
  "\<forall>e. snd (dispatch_host_call buffered_host WriteErrorLine [PsString [65]]
      \<lparr>buf_lines = [], buf_warnings = [], buf_errors = [], buf_verbose = [], buf_debug = []\<rparr>) \<noteq> Inl e"
  using host_call_answered [of buffered_host WriteErrorLine "[PsString [65]]"
      "\<lparr>buf_lines = [], buf_warnings = [], buf_errors = [], buf_verbose = [], buf_debug = []\<rparr>" 0]
  by (simp add: is_void_def)

end
