(* ===== verification/Transport.thy ===== *)
theory Transport
  imports Errors Base64 Uuids
begin

text \<open>
  The transport (\<open>src/src/transport.rs\<close>).  An implementation of the trait \<open>PsrpTransport\<close> is a
  record of operations on its own state \<open>'t\<close>; \<open>recv_chunk\<close> answers \<open>None\<close> while it is still
  waiting.  \<open>mock_transport\<close> and \<open>winrm_psrp_transport\<close> are the crate's two implementations in
  this file.  The shell of \<open>winrm_rs\<close> enters as the record \<open>shell_api\<close> of operations on its
  state.
\<close>

section \<open>The trait\<close>

record 't transport =
  send_fragment :: "bytes \<Rightarrow> 't \<Rightarrow> 't \<times> unit res"
  send_pipeline_fragment :: "bytes \<Rightarrow> uuid \<Rightarrow> 't \<Rightarrow> 't \<times> unit res"
  recv_chunk :: "'t \<Rightarrow> 't \<times> bytes res option"
  signal_stop :: "'t \<Rightarrow> 't \<times> unit res"
  close_shell :: "'t \<Rightarrow> 't \<times> unit res"
  execute_pipeline :: "bytes \<Rightarrow> uuid \<Rightarrow> 't \<Rightarrow> 't \<times> unit res"
  disconnect_shell :: "'t \<Rightarrow> 't \<times> ustr res"

text \<open>The default methods: what an implementation gets from its four required ones.\<close>

definition with_defaults ::
    "(bytes \<Rightarrow> 't \<Rightarrow> 't \<times> unit res) \<Rightarrow> ('t \<Rightarrow> 't \<times> bytes res option)
     \<Rightarrow> ('t \<Rightarrow> 't \<times> unit res) \<Rightarrow> ('t \<Rightarrow> 't \<times> unit res) \<Rightarrow> 't transport" where
  "with_defaults send recv stop close_op =
     \<lparr>send_fragment = send, send_pipeline_fragment = (\<lambda>bs _. send bs), recv_chunk = recv,
      signal_stop = stop, close_shell = close_op, execute_pipeline = (\<lambda>bs _. send bs),
      disconnect_shell =
        (\<lambda>t. (t, Inl (protocol (lit ''this transport does not implement disconnect_shell''))))\<rparr>"

section \<open>The mock\<close>

record mock =
  inbox :: "bytes list"
  outbox :: "bytes list"
  mock_stopped :: bool
  mock_closed :: bool
  fail_send :: bool
  fail_recv :: "psrp_error option"
  pipeline_sends :: "uuid list"

definition mock_send :: "bytes \<Rightarrow> mock \<Rightarrow> mock \<times> unit res" where
  "mock_send bs t =
     (if fail_send t then (t, Inl (protocol (lit ''mock send failure'')))
      else (t\<lparr>outbox := outbox t @ [bs]\<rparr>, Inr ()))"

definition mock_send_pipeline :: "bytes \<Rightarrow> uuid \<Rightarrow> mock \<Rightarrow> mock \<times> unit res" where
  "mock_send_pipeline bs p t =
     (case mock_send bs t of
        (t, Inl e) \<Rightarrow> (t, Inl e)
      | (t, Inr u) \<Rightarrow> (t\<lparr>pipeline_sends := pipeline_sends t @ [p]\<rparr>, Inr ()))"

definition mock_recv :: "mock \<Rightarrow> mock \<times> bytes res option" where
  "mock_recv t =
     (case fail_recv t of
        Some e \<Rightarrow> (t\<lparr>fail_recv := None\<rparr>, Some (Inl e))
      | None \<Rightarrow>
          (case inbox t of
             [] \<Rightarrow> (t, Some (Inl (protocol (lit ''mock inbox empty''))))
           | bs # rest \<Rightarrow> (t\<lparr>inbox := rest\<rparr>, Some (Inr bs))))"

definition mock_stop :: "mock \<Rightarrow> mock \<times> unit res" where
  "mock_stop t = (t\<lparr>mock_stopped := True\<rparr>, Inr ())"

definition mock_close :: "mock \<Rightarrow> mock \<times> unit res" where
  "mock_close t = (t\<lparr>mock_closed := True\<rparr>, Inr ())"

definition mock_transport :: "mock transport" where
  "mock_transport = (with_defaults mock_send mock_recv mock_stop mock_close)
     \<lparr>send_pipeline_fragment := mock_send_pipeline,
      disconnect_shell := (\<lambda>t. (t\<lparr>mock_closed := True\<rparr>, Inr (lit ''MOCK-SHELL-ID'')))\<rparr>"

definition mock_new :: "bytes list \<Rightarrow> mock" where
  "mock_new arriving = \<lparr>inbox = arriving, outbox = [], mock_stopped = False, mock_closed = False,
     fail_send = False, fail_recv = None, pipeline_sends = []\<rparr>"

section \<open>One Receive\<close>

record receive_output =
  ro_stdout :: bytes
  ro_done :: bool

type_synonym polled = "winrm_error + receive_output"

datatype poll = Retry | TimedOut winrm_error | Chunk receive_output

datatype recv_step = Again | Deliver bytes

definition MAX_CONSECUTIVE_TIMEOUTS :: nat where "MAX_CONSECUTIVE_TIMEOUTS = 3"

text \<open>\<open>str::contains\<close>.\<close>

fun contains :: "ustr \<Rightarrow> ustr \<Rightarrow> bool" where
  "contains pat [] \<longleftrightarrow> pat = []"
| "contains pat (c # cs) \<longleftrightarrow> take (length pat) (c # cs) = pat \<or> contains pat cs"

fun classify_receive :: "polled \<Rightarrow> bool \<Rightarrow> poll res" where
  "classify_receive (Inr out) stop_sent = Inr (Chunk out)"
| "classify_receive (Inl (WinrmTimeout t)) stop_sent = Inr (TimedOut (WinrmTimeout t))"
| "classify_receive (Inl (SoapFault code reason)) stop_sent =
     (if contains (lit ''TimedOut'') code then Inr Retry
      else if stop_sent \<and> contains (lit ''InvalidSelectors'') code then Inl Stopped
      else Inl (Winrm (SoapFault code reason)))"
| "classify_receive (Inl (WinrmOther t)) stop_sent = Inl (Winrm (WinrmOther t))"

text \<open>The streak is a \<open>u32\<close> that saturates; it is returned with the outcome.\<close>

definition streak_record :: "winrm_error \<Rightarrow> nat \<Rightarrow> nat \<times> nat res" where
  "streak_record err streak =
     (let streak = min (streak + 1) (2 ^ 32 - 1) in
      if streak \<ge> MAX_CONSECUTIVE_TIMEOUTS then (streak, Inl (Winrm err)) else (streak, Inr streak))"

definition receive_step :: "polled \<Rightarrow> bool \<Rightarrow> nat \<Rightarrow> bool \<Rightarrow> (nat \<times> bool) \<times> recv_step res" where
  "receive_step p stop_sent timeouts finished =
     (case classify_receive p stop_sent of
        Inl e \<Rightarrow> ((timeouts, finished), Inl e)
      | Inr Retry \<Rightarrow> ((0, finished), Inr Again)
      | Inr (TimedOut e) \<Rightarrow>
          (case streak_record e timeouts of
             (timeouts, Inl err) \<Rightarrow> ((timeouts, finished), Inl err)
           | (timeouts, Inr streak) \<Rightarrow> ((timeouts, finished), Inr Again))
      | Inr (Chunk out) \<Rightarrow>
          (let finished = (if ro_done out then True else finished) in
           if ro_stdout out = [] \<and> \<not> finished then ((0, finished), Inr Again)
           else ((0, finished), Inr (Deliver (ro_stdout out)))))"

section \<open>The WinRM transport\<close>

text \<open>
  What the crate calls on a \<open>winrm_rs\<close> shell, as operations on the shell's state: \<open>receive_next\<close>
  answers \<open>None\<close> while the long poll is pending.
\<close>

record 'w shell_api =
  sh_id :: "'w \<Rightarrow> ustr"
  sh_start_command :: "'w \<Rightarrow> 'w \<times> (winrm_error + ustr)"
  sh_start_command_with_id :: "ustr \<Rightarrow> ustr \<Rightarrow> 'w \<Rightarrow> 'w \<times> (winrm_error + ustr)"
  sh_send_input :: "ustr \<Rightarrow> bytes \<Rightarrow> 'w \<Rightarrow> 'w \<times> (winrm_error + unit)"
  sh_receive_next :: "ustr \<Rightarrow> 'w \<Rightarrow> 'w \<times> polled option"
  sh_signal_ctrl_c :: "ustr \<Rightarrow> 'w \<Rightarrow> 'w \<times> (winrm_error + unit)"
  sh_close :: "'w \<Rightarrow> 'w \<times> (winrm_error + unit)"
  sh_disconnect :: "'w \<Rightarrow> 'w \<times> (winrm_error + ustr)"

text \<open>
  \<open>parked\<close> is the Receive in flight, known by the command it was started for (\<open>Parked\<close>).  The code has
  no field for \<open>wt_ended\<close>: \<open>close\<close> and \<open>disconnect\<close> consume the shell, and what they left of it, which is
  what has become of it on the server, is kept there.
\<close>

record 'w winrm_transport =
  wt_shell :: "'w option"
  parked :: "ustr option"
  command_id :: ustr
  stop_signalled :: bool
  wt_done :: bool
  has_command :: bool
  wt_ended :: "'w list"

definition winrm_attached :: "'w shell_api \<Rightarrow> 'w \<Rightarrow> 'w winrm_transport" where
  "winrm_attached A w =
     \<lparr>wt_shell = Some w, parked = None, command_id = sh_id A w, stop_signalled = False,
      wt_done = False, has_command = False, wt_ended = []\<rparr>"

text \<open>\<open>open_psrp_shell\<close> and \<open>reconnect_shell\<close> of the client are parameters of the two constructors.\<close>

definition winrm_open ::
    "'w shell_api \<Rightarrow> (ustr \<Rightarrow> ustr \<Rightarrow> winrm_error + 'w) \<Rightarrow> ustr \<Rightarrow> bytes \<Rightarrow> 'w winrm_transport res" where
  "winrm_open A open_psrp_shell host creation_fragments =
     (case open_psrp_shell host (base64_encode creation_fragments) of
        Inl e \<Rightarrow> Inl (Winrm e)
      | Inr w \<Rightarrow> Inr (winrm_attached A w))"

definition winrm_reconnect ::
    "'w shell_api \<Rightarrow> (ustr \<Rightarrow> ustr \<Rightarrow> winrm_error + 'w) \<Rightarrow> ustr \<Rightarrow> ustr \<Rightarrow> 'w winrm_transport res" where
  "winrm_reconnect A reconnect_shell host shell_id =
     (case reconnect_shell host shell_id of
        Inl e \<Rightarrow> Inl (Winrm e)
      | Inr w \<Rightarrow> Inr (winrm_attached A w))"

definition transport_closed :: psrp_error where
  "transport_closed = protocol (lit ''transport closed'')"

text \<open>Run an operation of the shell, if there is one (\<open>self.shell()?\<close>).\<close>

definition on_shell ::
    "('w \<Rightarrow> 'w \<times> (winrm_error + 'a)) \<Rightarrow> ('a \<Rightarrow> 'w winrm_transport \<Rightarrow> 'w winrm_transport)
     \<Rightarrow> 'w winrm_transport \<Rightarrow> 'w winrm_transport \<times> unit res" where
  "on_shell call after t =
     (case wt_shell t of
        None \<Rightarrow> (t, Inl transport_closed)
      | Some w \<Rightarrow>
          (case call w of
             (w, Inl e) \<Rightarrow> (t\<lparr>wt_shell := Some w\<rparr>, Inl (Winrm e))
           | (w, Inr x) \<Rightarrow> (after x (t\<lparr>wt_shell := Some w\<rparr>), Inr ())))"

definition new_command :: "ustr \<Rightarrow> 'w winrm_transport \<Rightarrow> 'w winrm_transport" where
  "new_command cmd t =
     t\<lparr>parked := None, stop_signalled := False, command_id := cmd, has_command := True\<rparr>"

definition winrm_start_pipeline_command ::
    "'w shell_api \<Rightarrow> 'w winrm_transport \<Rightarrow> 'w winrm_transport \<times> unit res" where
  "winrm_start_pipeline_command A = on_shell (sh_start_command A) new_command"

definition winrm_execute_pipeline ::
    "'w shell_api \<Rightarrow> (uuid \<Rightarrow> ustr) \<Rightarrow> bytes \<Rightarrow> uuid \<Rightarrow> 'w winrm_transport
     \<Rightarrow> 'w winrm_transport \<times> unit res" where
  "winrm_execute_pipeline A show_uuid fragment_bytes p =
     on_shell (sh_start_command_with_id A (base64_encode fragment_bytes) (show_uuid p)) new_command"

definition winrm_send_fragment ::
    "'w shell_api \<Rightarrow> bytes \<Rightarrow> 'w winrm_transport \<Rightarrow> 'w winrm_transport \<times> unit res" where
  "winrm_send_fragment A bs t = on_shell (sh_send_input A (command_id t) bs) (\<lambda>_ t. t) t"

definition winrm_signal_stop ::
    "'w shell_api \<Rightarrow> 'w winrm_transport \<Rightarrow> 'w winrm_transport \<times> unit res" where
  "winrm_signal_stop A t =
     on_shell (sh_signal_ctrl_c A (command_id t)) (\<lambda>_ t. t\<lparr>stop_signalled := True\<rparr>) t"

text \<open>\<open>take_shell\<close>: the parked Receive, the only other handle on the shell, is dropped first.\<close>

definition take_shell :: "'w winrm_transport \<Rightarrow> 'w winrm_transport \<times> 'w option" where
  "take_shell t = (t\<lparr>parked := None, wt_shell := None\<rparr>, wt_shell t)"

definition winrm_close_shell ::
    "'w shell_api \<Rightarrow> 'w winrm_transport \<Rightarrow> 'w winrm_transport \<times> unit res" where
  "winrm_close_shell A t =
     (case take_shell t of
        (t, None) \<Rightarrow> (t, Inr ())
      | (t, Some w) \<Rightarrow>
          (case sh_close A w of (w, r) \<Rightarrow> (t\<lparr>wt_ended := wt_ended t @ [w]\<rparr>, map_sum Winrm id r)))"

definition winrm_disconnect_shell ::
    "'w shell_api \<Rightarrow> 'w winrm_transport \<Rightarrow> 'w winrm_transport \<times> ustr res" where
  "winrm_disconnect_shell A t =
     (case take_shell t of
        (t, None) \<Rightarrow> (t, Inl transport_closed)
      | (t, Some w) \<Rightarrow>
          (case sh_disconnect A w of (w, r) \<Rightarrow> (t\<lparr>wt_ended := wt_ended t @ [w]\<rparr>, map_sum Winrm id r)))"

text \<open>
  \<open>recv_chunk\<close>: the loop, with \<open>f\<close> Receives at most.  \<open>drive\<close> resumes the parked Receive or
  starts one; \<open>None\<close> says the call has not returned yet, and leaves its Receive parked.
\<close>

definition drive ::
    "'w shell_api \<Rightarrow> 'w \<Rightarrow> 'w winrm_transport \<Rightarrow> 'w winrm_transport \<times> polled option" where
  "drive A w t =
     (let cmd = (case parked t of Some c \<Rightarrow> c | None \<Rightarrow> command_id t) in
      case sh_receive_next A cmd w of
        (w, None) \<Rightarrow> (t\<lparr>wt_shell := Some w, parked := Some cmd\<rparr>, None)
      | (w, Some p) \<Rightarrow> (t\<lparr>wt_shell := Some w, parked := None\<rparr>, Some p))"

fun recv_loop ::
    "'w shell_api \<Rightarrow> nat \<Rightarrow> nat \<Rightarrow> 'w winrm_transport \<Rightarrow> 'w winrm_transport \<times> bytes res option" where
  "recv_loop A 0 timeouts t = (t, None)"
| "recv_loop A (Suc f) timeouts t =
     (case wt_shell t of
        None \<Rightarrow> (t, Some (Inl transport_closed))
      | Some w \<Rightarrow>
          (case drive A w t of
             (t, None) \<Rightarrow> (t, None)
           | (t, Some p) \<Rightarrow>
               (case receive_step p (stop_signalled t) timeouts (wt_done t) of
                  ((timeouts, d), Inl e) \<Rightarrow> (t\<lparr>wt_done := d\<rparr>, Some (Inl e))
                | ((timeouts, d), Inr (Deliver bs)) \<Rightarrow> (t\<lparr>wt_done := d\<rparr>, Some (Inr bs))
                | ((timeouts, d), Inr Again) \<Rightarrow> recv_loop A f timeouts (t\<lparr>wt_done := d\<rparr>))))"

definition winrm_recv_chunk ::
    "'w shell_api \<Rightarrow> nat \<Rightarrow> 'w winrm_transport \<Rightarrow> 'w winrm_transport \<times> bytes res option" where
  "winrm_recv_chunk A f t = recv_loop A f 0 t"

definition winrm_psrp_transport ::
    "'w shell_api \<Rightarrow> (uuid \<Rightarrow> ustr) \<Rightarrow> nat \<Rightarrow> 'w winrm_transport transport" where
  "winrm_psrp_transport A show_uuid f =
     (with_defaults (winrm_send_fragment A) (winrm_recv_chunk A f) (winrm_signal_stop A)
        (winrm_close_shell A))
     \<lparr>execute_pipeline := winrm_execute_pipeline A show_uuid,
      disconnect_shell := winrm_disconnect_shell A\<rparr>"

section \<open>A scripted shell\<close>

text \<open>
  A shell that answers the Receives with given outcomes, then keeps the long poll pending: within
  one \<open>recv_chunk\<close> every Receive is the same request, so this is any server behaviour.
\<close>

definition script_api :: "polled list shell_api" where
  "script_api =
     \<lparr>sh_id = (\<lambda>_. lit ''SHELL''),
      sh_start_command = (\<lambda>w. (w, Inr (lit ''CMD''))),
      sh_start_command_with_id = (\<lambda>_ cmd w. (w, Inr cmd)),
      sh_send_input = (\<lambda>_ _ w. (w, Inr ())),
      sh_receive_next = (\<lambda>_ w. case w of [] \<Rightarrow> ([], None) | p # ps \<Rightarrow> (ps, Some p)),
      sh_signal_ctrl_c = (\<lambda>_ w. (w, Inr ())),
      sh_close = (\<lambda>w. (w, Inr ())),
      sh_disconnect = (\<lambda>w. (w, Inr (lit ''SHELL'')))\<rparr>"

fun is_timeout :: "polled \<Rightarrow> bool" where
  "is_timeout (Inl (WinrmTimeout _)) = True"
| "is_timeout _ = False"

definition trailing_timeouts :: "polled list \<Rightarrow> nat" where
  "trailing_timeouts os = length (takeWhile is_timeout (rev os))"

fun stdout_of :: "polled \<Rightarrow> bytes" where
  "stdout_of (Inl _) = []"
| "stdout_of (Inr out) = ro_stdout out"

lemma trailing_timeouts_simps [simp]:
  "trailing_timeouts [] = 0"
  "trailing_timeouts (os @ [p]) = (if is_timeout p then Suc (trailing_timeouts os) else 0)"
  by (simp_all add: trailing_timeouts_def)

lemma drive_script:
  "wt_shell t = Some os \<Longrightarrow> drive script_api os t =
     (case os of
        [] \<Rightarrow> (t\<lparr>wt_shell := Some [], parked := Some (case parked t of Some c \<Rightarrow> c | None \<Rightarrow> command_id t)\<rparr>, None)
      | p # ps \<Rightarrow> (t\<lparr>wt_shell := Some ps, parked := None\<rparr>, Some p))"
  by (simp add: drive_def script_api_def Let_def split: list.split)

lemma receive_step_cases:
  assumes "receive_step p s n d = ((n', d'), r)"
  obtains
    (again) "r = Inr Again" "n' = (if is_timeout p then Suc n else 0)" "stdout_of p = []"
      "is_timeout p \<longrightarrow> Suc n < 3"
  | (deliver) bs where "r = Inr (Deliver bs)" "stdout_of p = bs" "\<not> is_timeout p"
  | (stuck) e where "r = Inl (Winrm (WinrmTimeout e))" "is_timeout p" "3 \<le> Suc n" "stdout_of p = []"
  | (failed) e where "r = Inl e" "\<not> is_timeout p" "stdout_of p = []" "\<nexists>x. e = Winrm (WinrmTimeout x)"
  using assms
  by (cases "(p, s)" rule: classify_receive.cases)
    (auto simp: receive_step_def streak_record_def MAX_CONSECUTIVE_TIMEOUTS_def Let_def min_def
      split: if_splits)

lemma recv_loop_script:
  assumes "recv_loop script_api f (trailing_timeouts pre) t = (t', r)" "wt_shell t = Some os"
    "trailing_timeouts pre < 3"
  shows "\<exists>used rest. os = used @ rest \<and> wt_shell t' = Some rest
    \<and> (\<forall>p q. used = p @ q \<and> q \<noteq> [] \<longrightarrow> trailing_timeouts (pre @ p) < 3)
    \<and> ((\<exists>e. r = Some (Inl (Winrm (WinrmTimeout e)))) \<longleftrightarrow> 3 \<le> trailing_timeouts (pre @ used))
    \<and> concat (map stdout_of used) = (case r of Some (Inr bs) \<Rightarrow> bs | _ \<Rightarrow> [])
    \<and> (r = None \<longrightarrow> length used = f \<or> rest = [])"
  using assms
proof (induction f arbitrary: pre t os)
  case 0
  then show ?case by (intro exI [of _ "[]"] exI [of _ os]) auto
next
  case (Suc f)
  show ?case
  proof (cases os)
    case Nil
    with Suc.prems show ?thesis
      by (intro exI [of _ "[]"] exI [of _ "[]"]) (auto simp: drive_script)
  next
    case (Cons p ps)
    obtain n' d' rr where step: "receive_step p (stop_signalled t) (trailing_timeouts pre) (wt_done t)
        = ((n', d'), rr)" by (metis prod.collapse)
    have one: ?thesis if "wt_shell t' = Some ps"
      "((\<exists>e. r = Some (Inl (Winrm (WinrmTimeout e)))) \<longleftrightarrow> 3 \<le> trailing_timeouts (pre @ [p]))"
      "stdout_of p = (case r of Some (Inr bs) \<Rightarrow> bs | _ \<Rightarrow> [])" "r \<noteq> None"
      using that Suc.prems(3) Cons
      by (intro exI [of _ "[p]"] exI [of _ ps]) (auto simp: Cons_eq_append_conv simp del: trailing_timeouts_simps(2))
    from step show ?thesis
    proof (cases rule: receive_step_cases)
      case again
      let ?t = "t\<lparr>wt_shell := Some ps, parked := None, wt_done := d'\<rparr>"
      have "n' = trailing_timeouts (pre @ [p])" "trailing_timeouts (pre @ [p]) < 3"
        using again by auto
      moreover have "recv_loop script_api f n' ?t = (t', r)"
        using Suc.prems(1,2) Cons step again by (simp add: drive_script)
      ultimately obtain used rest where IH: "ps = used @ rest" "wt_shell t' = Some rest"
        "\<forall>a q. used = a @ q \<and> q \<noteq> [] \<longrightarrow> trailing_timeouts ((pre @ [p]) @ a) < 3"
        "((\<exists>e. r = Some (Inl (Winrm (WinrmTimeout e)))) \<longleftrightarrow> 3 \<le> trailing_timeouts ((pre @ [p]) @ used))"
        "concat (map stdout_of used) = (case r of Some (Inr bs) \<Rightarrow> bs | _ \<Rightarrow> [])"
        "r = None \<longrightarrow> length used = f \<or> rest = []"
        using Suc.IH [of "pre @ [p]" ?t ps] by auto
      have "trailing_timeouts (pre @ a) < 3" if "p # used = a @ q" "q \<noteq> []" for a q
        using that IH(3) Suc.prems(3) by (cases a) auto
      with IH again(3) Cons show ?thesis
        by (intro exI [of _ "p # used"] exI [of _ rest]) auto
    qed (use one Suc.prems Cons step in \<open>auto simp: drive_script\<close>)
  qed
qed

section \<open>Commands\<close>

text \<open>Everything a holder of the transport can do, as a step relation.\<close>

inductive winrm_step ::
    "'w shell_api \<Rightarrow> (uuid \<Rightarrow> ustr) \<Rightarrow> 'w winrm_transport \<Rightarrow> 'w winrm_transport \<Rightarrow> bool"
  for A show_uuid where
  "winrm_send_fragment A bs t = (t', r) \<Longrightarrow> winrm_step A show_uuid t t'"
| "winrm_recv_chunk A f t = (t', rr) \<Longrightarrow> winrm_step A show_uuid t t'"
| "winrm_signal_stop A t = (t', r) \<Longrightarrow> winrm_step A show_uuid t t'"
| "winrm_close_shell A t = (t', r) \<Longrightarrow> winrm_step A show_uuid t t'"
| "winrm_start_pipeline_command A t = (t', r) \<Longrightarrow> winrm_step A show_uuid t t'"
| "winrm_execute_pipeline A show_uuid bs p t = (t', r) \<Longrightarrow> winrm_step A show_uuid t t'"
| "winrm_disconnect_shell A t = (t', rs) \<Longrightarrow> winrm_step A show_uuid t t'"

inductive_cases winrm_stepE: "winrm_step A show_uuid t t'"

inductive winrm_reaches ::
    "'w shell_api \<Rightarrow> (uuid \<Rightarrow> ustr) \<Rightarrow> 'w winrm_transport \<Rightarrow> 'w winrm_transport \<Rightarrow> bool"
  for A show_uuid t where
  "winrm_reaches A show_uuid t t"
| "winrm_reaches A show_uuid t t' \<Longrightarrow> winrm_step A show_uuid t' t'' \<Longrightarrow> winrm_reaches A show_uuid t t''"

text \<open>The Receive in flight belongs to the current command, and there is none without a shell.\<close>

definition parked_ok :: "'w winrm_transport \<Rightarrow> bool" where
  "parked_ok t \<longleftrightarrow> parked t = None \<or> (parked t = Some (command_id t) \<and> wt_shell t \<noteq> None)"

lemma parked_ok_updates [simp]:
  "parked_ok (t\<lparr>wt_done := d\<rparr>) = parked_ok t"
  "parked_ok (t\<lparr>stop_signalled := b\<rparr>) = parked_ok t"
  "parked_ok (t\<lparr>wt_ended := ws\<rparr>) = parked_ok t"
  "parked_ok (t\<lparr>wt_shell := Some w, parked := None, wt_done := d\<rparr>)"
  "wt_shell t = Some w' \<Longrightarrow> parked_ok (t\<lparr>wt_shell := Some w\<rparr>) = parked_ok t"
  by (simp_all add: parked_ok_def)

lemma drive_parked_ok:
  assumes "drive A w t = (t', r)" "parked_ok t" "wt_shell t = Some w"
  shows "parked_ok t' \<and> wt_shell t' \<noteq> None \<and> command_id t' = command_id t"
  using assms by (auto simp: drive_def parked_ok_def Let_def split: prod.splits option.splits)

lemma recv_loop_parked_ok:
  "recv_loop A f n t = (t', r) \<Longrightarrow> parked_ok t \<Longrightarrow>
     parked_ok t' \<and> (wt_shell t' = None \<longleftrightarrow> wt_shell t = None) \<and> command_id t' = command_id t"
proof (induction f arbitrary: n t)
  case (Suc f)
  show ?case
  proof (cases "wt_shell t")
    case (Some w)
    obtain t1 p where d: "drive A w t = (t1, p)" by fastforce
    note ok = drive_parked_ok [OF d Suc.prems(2) Some]
    with Suc.prems Some d show ?thesis
      by (auto split: option.splits prod.splits sum.splits recv_step.splits dest!: Suc.IH)
  qed (use Suc.prems in auto)
qed auto

lemma on_shell_cases:
  assumes "on_shell call after t = (t', r)"
  obtains (closed) "wt_shell t = None" "t' = t" "r = Inl transport_closed"
  | (failed) w w' e where "wt_shell t = Some w" "t' = t\<lparr>wt_shell := Some w'\<rparr>" "r = Inl (Winrm e)"
  | (ran) w w' x where "wt_shell t = Some w" "t' = after x (t\<lparr>wt_shell := Some w'\<rparr>)" "r = Inr ()"
  using assms by (auto simp: on_shell_def split: option.splits prod.splits sum.splits)

lemma on_shell_parked_ok:
  assumes "on_shell call after t = (t', r)" "parked_ok t"
    "\<And>x t. parked_ok t \<Longrightarrow> parked_ok (after x t)"
  shows "parked_ok t'"
  using assms(1)
proof (cases rule: on_shell_cases)
  case (ran w w' x)
  then show ?thesis using assms(2) by (auto intro!: assms(3))
qed (use assms(2) in auto)

lemma winrm_step_parked_ok: "winrm_step A show_uuid t t' \<Longrightarrow> parked_ok t \<Longrightarrow> parked_ok t'"
  by (erule winrm_stepE)
    (auto simp: winrm_send_fragment_def winrm_signal_stop_def winrm_start_pipeline_command_def
      winrm_execute_pipeline_def winrm_recv_chunk_def winrm_close_shell_def
      winrm_disconnect_shell_def take_shell_def new_command_def
      elim!: on_shell_parked_ok split: prod.splits option.splits
      dest!: recv_loop_parked_ok intro: parked_ok_def [THEN iffD2])

lemma winrm_step_closed: "winrm_step A show_uuid t t' \<Longrightarrow> wt_shell t = None \<Longrightarrow> wt_shell t' = None"
proof (erule winrm_stepE)
  fix f r assume "winrm_recv_chunk A f t = (t', r)" "wt_shell t = None"
  then show "wt_shell t' = None" by (cases f) (auto simp: winrm_recv_chunk_def)
qed (auto simp: winrm_send_fragment_def winrm_signal_stop_def winrm_start_pipeline_command_def
      winrm_execute_pipeline_def winrm_close_shell_def winrm_disconnect_shell_def take_shell_def
      elim!: on_shell_cases split: prod.splits option.splits)

section \<open>Properties\<close>

text \<open>
  C13: \<open>recv_chunk\<close> does not wait without bound on client-side timeouts, and it loses nothing.
  Whatever the outcomes \<open>os\<close> of the Receives, the call consumes a prefix of them: it goes on only
  while that prefix does not end with three timeouts in a row (any answer in between starts the
  count over), it fails with a timeout exactly when it does, and the bytes it returns are all the
  bytes of the answers it consumed.  It has not returned only when its \<open>f\<close> Receives or the
  outcomes are used up.
\<close>

theorem recv_chunk_bounded_and_lossless:
  assumes "winrm_recv_chunk script_api f t = (t', r)" "wt_shell t = Some os"
  shows "\<exists>used rest. os = used @ rest \<and> wt_shell t' = Some rest
    \<and> (\<forall>p q. used = p @ q \<and> q \<noteq> [] \<longrightarrow> trailing_timeouts p < MAX_CONSECUTIVE_TIMEOUTS)
    \<and> ((\<exists>e. r = Some (Inl (Winrm (WinrmTimeout e))))
         = (MAX_CONSECUTIVE_TIMEOUTS \<le> trailing_timeouts used))
    \<and> concat (map stdout_of used) = (case r of Some (Inr bs) \<Rightarrow> bs | _ \<Rightarrow> [])
    \<and> (r = None \<longrightarrow> length used = f \<or> rest = [])"
  using recv_loop_script [of f "[]" t t' r os] assms
  by (simp add: winrm_recv_chunk_def MAX_CONSECUTIVE_TIMEOUTS_def)

definition slow_server :: "polled list winrm_transport" where
  "slow_server = winrm_attached script_api
     [Inl (WinrmTimeout [65]), Inl (WinrmTimeout [66]), Inr \<lparr>ro_stdout = [], ro_done = False\<rparr>,
      Inl (WinrmTimeout [67]), Inl (WinrmTimeout [68]), Inl (WinrmTimeout [69])]"

theorem recv_chunk_bounded_and_lossless_witness:
  "\<exists>used rest. wt_shell (fst (winrm_recv_chunk script_api 9 slow_server)) = Some rest
     \<and> the (wt_shell slow_server) = used @ rest
     \<and> MAX_CONSECUTIVE_TIMEOUTS \<le> trailing_timeouts used"
proof -
  let ?res = "winrm_recv_chunk script_api 9 slow_server"
  have "snd (winrm_recv_chunk script_api (Suc (Suc (Suc (Suc (Suc (Suc k)))))) slow_server)
      = Some (Inl (Winrm (WinrmTimeout [69])))" for k
    by (simp add: slow_server_def winrm_attached_def winrm_recv_chunk_def drive_def
        script_api_def receive_step_def streak_record_def MAX_CONSECUTIVE_TIMEOUTS_def)
  from this [of 3] have r: "snd ?res = Some (Inl (Winrm (WinrmTimeout [69])))" by simp
  from recv_chunk_bounded_and_lossless [of 9 slow_server "fst ?res" "snd ?res" "the (wt_shell slow_server)"]
  show ?thesis using r by (auto simp: slow_server_def winrm_attached_def)
qed

text \<open>
  How one Receive ends.  \<open>Stopped\<close> is reported exactly for an \<open>InvalidSelectors\<close> fault
  after an accepted stop signal; a \<open>TimedOut\<close> fault is never an error; every other error of the
  shell is passed on unchanged; and empty bytes are delivered only once the command is done.
\<close>

lemma receive_outcomes:
  assumes "receive_step p stop_sent n d = ((n', d'), r)"
  shows "(r = Inl Stopped) = (stop_sent \<and> (\<exists>code reason. p = Inl (SoapFault code reason)
            \<and> \<not> contains (lit ''TimedOut'') code \<and> contains (lit ''InvalidSelectors'') code))
    \<and> (\<forall>code reason. p = Inl (SoapFault code reason) \<and> contains (lit ''TimedOut'') code
         \<longrightarrow> r = Inr Again \<and> n' = 0)
    \<and> (\<forall>e. r = Inl e \<longrightarrow> e = Stopped \<or> (\<exists>w. p = Inl w \<and> e = Winrm w))
    \<and> d' = (d \<or> (\<exists>out. p = Inr out \<and> ro_done out))
    \<and> (r = Inr (Deliver []) \<longrightarrow> d')"
  using assms
  by (cases "(p, stop_sent)" rule: classify_receive.cases)
    (auto simp: receive_step_def streak_record_def Let_def split: if_splits)

lemma receive_outcomes_witness:
  "\<exists>s. receive_step (Inl (SoapFault (lit ''w:InvalidSelectors'') [])) True 1 False = (s, Inl Stopped)"
proof -
  obtain n' d' r where s: "receive_step (Inl (SoapFault (lit ''w:InvalidSelectors'') [])) True 1 False
      = ((n', d'), r)" by (metis prod.collapse)
  have "contains (lit ''InvalidSelectors'') (lit ''w:InvalidSelectors'')"
    "\<not> contains (lit ''TimedOut'') (lit ''w:InvalidSelectors'')"
    by (simp_all add: lit_def)
  with receive_outcomes [OF s] s show ?thesis by auto
qed

text \<open>
  C14: a Receive kept from a dropped call is only ever resumed for the command it was sent for:
  whatever the holder of a transport does, in any order, a Receive in flight is one for the current
  command id; and once the shell is closed or disconnected it stays so, with nothing in flight.
\<close>

theorem parked_receive_is_current:
  assumes "winrm_reaches A show_uuid (winrm_attached A w) t"
  shows "(parked t = None \<or> parked t = Some (command_id t))
    \<and> (wt_shell t = None \<longrightarrow> parked t = None
         \<and> (\<forall>t'. winrm_reaches A show_uuid t t' \<longrightarrow> wt_shell t' = None))"
proof -
  have "parked_ok t"
    using assms
  proof (induction rule: winrm_reaches.induct)
    case 1
    show ?case by (simp add: parked_ok_def winrm_attached_def)
  next
    case (2 t' t'')
    then show ?case by (blast intro: winrm_step_parked_ok)
  qed
  moreover have "wt_shell t' = None" if "winrm_reaches A show_uuid t t'" "wt_shell t = None" for t'
    using that by (induction rule: winrm_reaches.induct) (auto intro: winrm_step_closed)
  ultimately show ?thesis by (auto simp: parked_ok_def)
qed

theorem parked_receive_is_current_witness:
  "parked (fst (winrm_recv_chunk script_api 1 (winrm_attached script_api [])))
     \<in> {None, Some (command_id (fst (winrm_recv_chunk script_api 1 (winrm_attached script_api []))))}"
proof -
  have "winrm_reaches script_api (\<lambda>_. []) (winrm_attached script_api [])
      (fst (winrm_recv_chunk script_api 1 (winrm_attached script_api [])))"
    by (metis prod.collapse winrm_reaches.intros winrm_step.intros(2))
  from parked_receive_is_current [OF this] show ?thesis by simp
qed

end
