(* ===== verification/Pool.thy ===== *)
theory Pool
  imports Fragments Transport Host Crypto Pool_State
begin

text \<open>
  The runspace pool (\<open>src/src/runspace/pool.rs\<close>): sending under unique object ids, the message
  pump \<open>next_message\<close>, host calls, the session-key exchange and the pool's life cycle.  The pool
  is generic in its transport and its host; fresh RSA keys are drawn from \<open>generate_key\<close>, the
  \<open>n\<close>-th call giving the \<open>n\<close>-th one (\<open>keys_made\<close> counts the calls).  A loop that waits for the
  server has a bound on its turns, and \<open>None\<close> says that it has not returned yet.
\<close>

section \<open>State\<close>

record ('t, 'h) pool_env =
  codec :: codec_env
  wire :: "'t transport"
  host :: "'h ps_host"
  aes :: cipher
  generate_key :: "nat \<Rightarrow> client_key res"

record deferred_response =
  dr_type :: message_type
  dr_pid :: uuid
  dr_ci :: u64
  dr_mi :: u64
  dr_value :: ps_value

record ('t, 'h) pool =
  link :: 't
  reasm :: reassembler
  pool_machine :: machine
  next_object_id :: u64
  pool_closed :: bool
  host_state :: 'h
  session_key :: "bytes option"
  pending_client_key :: "client_key option"
  deferred_host_responses :: "deferred_response list"
  pending_messages :: "psrp_message list"
  keys_made :: nat

definition fresh_pool :: "'t \<Rightarrow> 'h \<Rightarrow> machine \<Rightarrow> u64 \<Rightarrow> bytes option \<Rightarrow> ('t, 'h) pool" where
  "fresh_pool t h m oid key =
     \<lparr>link = t, reasm = reassembler_new, pool_machine = m, next_object_id = oid,
      pool_closed = False, host_state = h, session_key = key, pending_client_key = None,
      deferred_host_responses = [], pending_messages = [], keys_made = 0\<rparr>"

definition pool_rpid :: "('t, 'h) pool \<Rightarrow> uuid" where
  "pool_rpid p = mach_rpid (pool_machine p)"

text \<open>Run an operation, then another on its result unless it failed (\<open>?\<close>).\<close>

definition sbind :: "'s \<times> ('e + 'a) \<Rightarrow> ('a \<Rightarrow> 's \<Rightarrow> 's \<times> ('e + 'b)) \<Rightarrow> 's \<times> ('e + 'b)" where
  "sbind r f = (case r of (s, Inl e) \<Rightarrow> (s, Inl e) | (s, Inr x) \<Rightarrow> f x s)"

lemma sbind_simps [simp]: "sbind (s, Inl e) f = (s, Inl e)" "sbind (s, Inr x) f = f x s"
  by (simp_all add: sbind_def)

section \<open>Sending\<close>

definition take_object_id :: "u64 \<Rightarrow> u64 \<times> u64 res" where
  "take_object_id counter =
     (case checked_add_u64 counter 1 of
        None \<Rightarrow> (counter, Inl (protocol (lit ''fragment object id space exhausted'')))
      | Some n \<Rightarrow> (n, Inr counter))"

text \<open>The common part of the two senders: encode, take an id, fragment, hand to the transport.\<close>

definition post ::
    "('t, 'h) pool_env \<Rightarrow> (bytes \<Rightarrow> 't \<Rightarrow> 't \<times> unit res) \<Rightarrow> psrp_message \<Rightarrow> ('t, 'h) pool
     \<Rightarrow> ('t, 'h) pool \<times> unit res" where
  "post E call msg p =
     (let encoded = msg_encode (uuids (codec E)) msg in
      case take_object_id (next_object_id p) of
        (n, Inl e) \<Rightarrow> (p\<lparr>next_object_id := n\<rparr>, Inl e)
      | (n, Inr oid) \<Rightarrow>
          (case call (encode_message oid encoded) (link p) of
             (t, r) \<Rightarrow> (p\<lparr>next_object_id := n, link := t\<rparr>, r)))"

definition send_psrp_message ::
    "('t, 'h) pool_env \<Rightarrow> message_type \<Rightarrow> ustr \<Rightarrow> ('t, 'h) pool \<Rightarrow> ('t, 'h) pool \<times> unit res" where
  "send_psrp_message E mt body p =
     post E (send_fragment (wire E)) (to_server mt (pool_rpid p) nil_uuid body) p"

definition send_pipeline_message ::
    "('t, 'h) pool_env \<Rightarrow> message_type \<Rightarrow> uuid \<Rightarrow> ustr \<Rightarrow> ('t, 'h) pool
     \<Rightarrow> ('t, 'h) pool \<times> unit res" where
  "send_pipeline_message E mt pid body p =
     post E (\<lambda>bs. if mt = CreatePipeline then execute_pipeline (wire E) bs pid
                  else send_pipeline_fragment (wire E) bs pid)
       (to_server mt (pool_rpid p) pid body) p"

section \<open>Secure strings in answers\<close>

lemma values_smaller:
  "v \<in> set vs \<Longrightarrow> size v < Suc (size_list size vs)"
  "(k, w) \<in> set es \<Longrightarrow> size k < Suc (size_list (size_prod size size) es)
     \<and> size w < Suc (size_list (size_prod size size) es)"
  "(n, w) \<in> set (properties obj) \<Longrightarrow> size w < Suc (size obj)"
proof -
  show "v \<in> set vs \<Longrightarrow> size v < Suc (size_list size vs)"
    by (induction vs) auto
  show "(k, w) \<in> set es \<Longrightarrow> size k < Suc (size_list (size_prod size size) es)
     \<and> size w < Suc (size_list (size_prod size size) es)"
    by (induction es) auto
  have "(n, w) \<in> set props \<Longrightarrow> size w < Suc (size_list (size_prod (\<lambda>_. 0) size) props)" for n props
    by (induction props) auto
  from this [of n] show "(n, w) \<in> set (properties obj) \<Longrightarrow> size w < Suc (size obj)"
    by (cases obj) (simp add: less_SucI)
qed

function contains_secure_string :: "ps_value \<Rightarrow> bool" where
  "contains_secure_string v =
     (case v of
        PsSecureString _ \<Rightarrow> True
      | PsList items \<Rightarrow> list_ex contains_secure_string items
      | PsDict entries \<Rightarrow>
          list_ex (\<lambda>e. contains_secure_string (fst e) \<or> contains_secure_string (snd e)) entries
      | PsObject obj \<Rightarrow> list_ex (\<lambda>e. contains_secure_string (snd e)) (properties obj)
      | _ \<Rightarrow> False)"
  by pat_completeness auto
termination
  by (relation "measure size") (auto dest: values_smaller)

declare contains_secure_string.simps [simp del]

function encrypt_secure_strings :: "cipher \<Rightarrow> bytes \<Rightarrow> ps_value \<Rightarrow> ps_value" where
  "encrypt_secure_strings C key v =
     (case v of
        PsSecureString plain \<Rightarrow> PsSecureString (base64_encode (encrypt_secure_string C key plain))
      | PsList items \<Rightarrow> PsList (map (encrypt_secure_strings C key) items)
      | PsDict entries \<Rightarrow>
          PsDict (map (\<lambda>e. (encrypt_secure_strings C key (fst e),
                            encrypt_secure_strings C key (snd e))) entries)
      | PsObject obj \<Rightarrow>
          PsObject (Ps_Object
            (map (\<lambda>e. (fst e, encrypt_secure_strings C key (snd e))) (properties obj))
            (type_names obj) (to_string obj))
      | other \<Rightarrow> other)"
  by pat_completeness auto
termination
  by (relation "measure (\<lambda>(C, key, v). size v)") (auto dest: values_smaller)

declare encrypt_secure_strings.simps [simp del]

text \<open>The values without parts and without a secure string.\<close>

fun atomic :: "ps_value \<Rightarrow> bool" where
  "atomic (PsSecureString _) = False"
| "atomic (PsList _) = False"
| "atomic (PsDict _) = False"
| "atomic (PsObject _) = False"
| "atomic _ = True"

lemma secure_simps [simp]:
  "atomic v \<Longrightarrow> contains_secure_string v = False"
  "contains_secure_string (PsSecureString s) = True"
  "contains_secure_string (PsList vs) = list_ex contains_secure_string vs"
  "contains_secure_string (PsDict es)
     = list_ex (\<lambda>e. contains_secure_string (fst e) \<or> contains_secure_string (snd e)) es"
  "contains_secure_string (PsObject obj) = list_ex (\<lambda>e. contains_secure_string (snd e)) (properties obj)"
  "atomic v \<Longrightarrow> encrypt_secure_strings C key v = v"
  "encrypt_secure_strings C key (PsSecureString s)
     = PsSecureString (base64_encode (encrypt_secure_string C key s))"
  "encrypt_secure_strings C key (PsList vs) = PsList (map (encrypt_secure_strings C key) vs)"
  "encrypt_secure_strings C key (PsDict es) = PsDict (map (\<lambda>e.
     (encrypt_secure_strings C key (fst e), encrypt_secure_strings C key (snd e))) es)"
  "encrypt_secure_strings C key (PsObject obj) = PsObject (Ps_Object
     (map (\<lambda>e. (fst e, encrypt_secure_strings C key (snd e))) (properties obj))
     (type_names obj) (to_string obj))"
  by (subst contains_secure_string.simps encrypt_secure_strings.simps;
      cases v rule: atomic.cases; simp)+

definition build_host_response_body :: "codec_env \<Rightarrow> u64 \<Rightarrow> u64 \<Rightarrow> ps_value \<Rightarrow> ustr" where
  "build_host_response_body E ci mi v = clixml_of E (PsObject
     (object_with (object_with (object_with object_new
       (lit ''ci'') (PsI64 ci)) (lit ''mi'') (PsI64 mi)) (lit ''mr'') v))"

definition build_host_response_error_body :: "codec_env \<Rightarrow> u64 \<Rightarrow> u64 \<Rightarrow> ustr \<Rightarrow> ustr" where
  "build_host_response_error_body E ci mi message = clixml_of E (PsObject
     (object_with (object_with (object_with object_new
       (lit ''ci'') (PsI64 ci)) (lit ''mi'') (PsI64 mi))
       (lit ''me'') (PsObject (with_type_names
          (object_with object_new (lit ''Message'') (PsString message)) [lit ''System.Exception'']))))"

section \<open>The session key\<close>

definition start_exchange ::
    "('t, 'h) pool_env \<Rightarrow> client_key \<Rightarrow> ('t, 'h) pool \<Rightarrow> ('t, 'h) pool \<times> unit res" where
  "start_exchange E key p =
     sbind (send_psrp_message E PublicKey (clixml_of (codec E) (PsObject
              (object_with object_new (lit ''PublicKey'') (PsString (public_blob_base64 key))))) p)
       (\<lambda>_ p. (p\<lparr>pending_client_key := Some key\<rparr>, Inr ()))"

definition fresh_key ::
    "('t, 'h) pool_env \<Rightarrow> ('t, 'h) pool \<Rightarrow> ('t, 'h) pool \<times> client_key res" where
  "fresh_key E p = (p\<lparr>keys_made := Suc (keys_made p)\<rparr>, generate_key E (keys_made p))"

definition start_exchange_unless_pending ::
    "('t, 'h) pool_env \<Rightarrow> ('t, 'h) pool \<Rightarrow> ('t, 'h) pool \<times> unit res" where
  "start_exchange_unless_pending E p =
     (if pending_client_key p \<noteq> None then (p, Inr ())
      else sbind (fresh_key E p) (start_exchange E))"

definition ensure_key_exchange_started ::
    "('t, 'h) pool_env \<Rightarrow> ('t, 'h) pool \<Rightarrow> ('t, 'h) pool \<times> unit res" where
  "ensure_key_exchange_started E p =
     (if session_key p \<noteq> None then (p, Inr ()) else start_exchange_unless_pending E p)"

fun flush_loop ::
    "('t, 'h) pool_env \<Rightarrow> bytes \<Rightarrow> deferred_response list \<Rightarrow> ('t, 'h) pool
     \<Rightarrow> ('t, 'h) pool \<times> unit res" where
  "flush_loop E key [] p = (p, Inr ())"
| "flush_loop E key (d # ds) p =
     sbind (send_pipeline_message E (dr_type d) (dr_pid d)
              (build_host_response_body (codec E) (dr_ci d) (dr_mi d)
                 (encrypt_secure_strings (aes E) key (dr_value d))) p)
       (\<lambda>_ p. flush_loop E key ds (p\<lparr>deferred_host_responses := ds\<rparr>))"

definition flush_deferred_host_responses ::
    "('t, 'h) pool_env \<Rightarrow> ('t, 'h) pool \<Rightarrow> ('t, 'h) pool \<times> unit res" where
  "flush_deferred_host_responses E p =
     (case session_key p of
        None \<Rightarrow> (p, Inr ())
      | Some key \<Rightarrow> flush_loop E key (deferred_host_responses p) p)"

text \<open>A failed send is logged only.\<close>

fun fail_loop ::
    "('t, 'h) pool_env \<Rightarrow> ustr \<Rightarrow> deferred_response list \<Rightarrow> ('t, 'h) pool \<Rightarrow> ('t, 'h) pool" where
  "fail_loop E message [] p = p"
| "fail_loop E message (d # ds) p =
     fail_loop E message ds (fst (send_pipeline_message E (dr_type d) (dr_pid d)
       (build_host_response_error_body (codec E) (dr_ci d) (dr_mi d) message) p))"

definition fail_deferred_host_responses ::
    "('t, 'h) pool_env \<Rightarrow> psrp_error \<Rightarrow> ('t, 'h) pool \<Rightarrow> ('t, 'h) pool" where
  "fail_deferred_host_responses E why p =
     fail_loop E (lit ''the SecureString could not be sent: '' @ display winrm_display why)
       (deferred_host_responses p) (p\<lparr>deferred_host_responses := []\<rparr>)"

fun encrypted_session_key_of :: "ps_value \<Rightarrow> ustr option" where
  "encrypted_session_key_of (PsObject obj) =
     Option.bind (object_get obj (lit ''EncryptedSessionKey'')) as_str"
| "encrypted_session_key_of _ = None"

definition read_session_key :: "codec_env \<Rightarrow> psrp_message \<Rightarrow> client_key \<Rightarrow> bytes res" where
  "read_session_key E msg key =
     rbind (values_of E (msg_data msg)) (\<lambda>vs.
     rbind (ok_or (find_map encrypted_session_key_of vs)
       (protocol (lit ''EncryptedSessionKey message missing EncryptedSessionKey property''))) (\<lambda>encoded.
     rbind (ok_or (base64_decode encoded)
       (protocol (lit ''EncryptedSessionKey: invalid base64''))) (\<lambda>bs.
     decrypt_session_key key bs)))"

definition take_session_key ::
    "('t, 'h) pool_env \<Rightarrow> psrp_message \<Rightarrow> client_key \<Rightarrow> ('t, 'h) pool
     \<Rightarrow> ('t, 'h) pool \<times> unit res" where
  "take_session_key E msg key p =
     (case read_session_key (codec E) msg key of
        Inl e \<Rightarrow> (p, Inl e)
      | Inr raw \<Rightarrow> (p\<lparr>session_key := Some raw\<rparr>, Inr ()))"

definition accept_encrypted_session_key ::
    "('t, 'h) pool_env \<Rightarrow> psrp_message \<Rightarrow> ('t, 'h) pool \<Rightarrow> ('t, 'h) pool \<times> unit res" where
  "accept_encrypted_session_key E msg p =
     (case pending_client_key p of
        None \<Rightarrow> (p, Inr ())
      | Some key \<Rightarrow>
          (case take_session_key E msg key (p\<lparr>pending_client_key := None\<rparr>) of
             (p, Inl e) \<Rightarrow> (fail_deferred_host_responses E e p, Inl e)
           | (p, Inr u) \<Rightarrow> flush_deferred_host_responses E p))"

definition set_session_key :: "bytes \<Rightarrow> ('t, 'h) pool \<Rightarrow> ('t, 'h) pool" where
  "set_session_key key p = p\<lparr>session_key := Some key, pending_client_key := None\<rparr>"

definition no_session_key :: psrp_error where
  "no_session_key = protocol (lit ''session key not negotiated yet'')"

definition pool_encrypt :: "cipher \<Rightarrow> ustr \<Rightarrow> ('t, 'h) pool \<Rightarrow> ustr res" where
  "pool_encrypt C plaintext p =
     rbind (ok_or (session_key p) no_session_key) (\<lambda>key.
       Inr (base64_encode (encrypt_secure_string C key plaintext)))"

definition pool_decrypt :: "cipher \<Rightarrow> ustr \<Rightarrow> ('t, 'h) pool \<Rightarrow> ustr res" where
  "pool_decrypt C base64_body p =
     rbind (ok_or (session_key p) no_session_key) (\<lambda>key.
     rbind (ok_or (base64_decode base64_body)
       (protocol (lit ''secure string: invalid base64''))) (\<lambda>bs.
     decrypt_secure_string C key bs))"

section \<open>Host calls\<close>

record host_call =
  hc_ci :: u64
  hc_mi :: u64
  hc_mp :: "ps_value list"

definition plain_of :: "ps_value \<Rightarrow> ps_value option" where
  "plain_of v = (case v of PsObject obj \<Rightarrow> object_get obj (lit ''_value'') | plain \<Rightarrow> Some plain)"

definition widest :: "ps_value \<Rightarrow> u64 option" where
  "widest v = (case as_i64 v of Some i \<Rightarrow> Some i | None \<Rightarrow> map_option (\<lambda>i. i64_of (sint i)) (as_i32 v))"

definition call_params :: "ps_object \<Rightarrow> ps_value list" where
  "call_params obj =
     (case object_get obj (lit ''mp'') of
        Some (PsList items) \<Rightarrow> items
      | Some (PsObject inner) \<Rightarrow>
          (case object_get inner (lit ''_value'') of Some (PsList items) \<Rightarrow> items | _ \<Rightarrow> [])
      | _ \<Rightarrow> [])"

definition parse_host_call :: "codec_env \<Rightarrow> ustr \<Rightarrow> host_call res" where
  "parse_host_call E body =
     rbind (values_of E body) (\<lambda>vs.
       case vs of
         [] \<Rightarrow> Inl (protocol (lit ''host call: empty body''))
       | PsObject obj # rest \<Rightarrow>
           rbind (ok_or (Option.bind (object_get obj (lit ''ci'')) as_i64)
             (protocol (lit ''host call: missing ci''))) (\<lambda>ci.
           rbind (ok_or (Option.bind (Option.bind (object_get obj (lit ''mi'')) plain_of) widest)
             (protocol (lit ''host call: missing mi''))) (\<lambda>mi.
           Inr \<lparr>hc_ci = ci, hc_mi = mi, hc_mp = call_params obj\<rparr>))
       | root # rest \<Rightarrow> Inl (protocol (lit ''host call: body is not an object'')))"

definition response_type_of :: "message_type \<Rightarrow> message_type" where
  "response_type_of mt =
     (if mt = RunspacePoolHostCall then RunspacePoolHostResponse else PipelineHostResponse)"

text \<open>What is done with an answer: sent as it is, sent encrypted, or parked until there is a key.\<close>

definition answer_host_call ::
    "('t, 'h) pool_env \<Rightarrow> psrp_message \<Rightarrow> u64 \<Rightarrow> u64 \<Rightarrow> ps_value \<Rightarrow> ('t, 'h) pool
     \<Rightarrow> ('t, 'h) pool \<times> unit res" where
  "answer_host_call E msg ci mi v p =
     (let rt = response_type_of (msg_type msg);
          send = (\<lambda>v. send_pipeline_message E rt (msg_pid msg)
                        (build_host_response_body (codec E) ci mi v))
      in if contains_secure_string v then
           case session_key p of
             Some key \<Rightarrow> send (encrypt_secure_strings (aes E) key v) p
           | None \<Rightarrow>
               sbind (ensure_key_exchange_started E p) (\<lambda>_ p.
                 (p\<lparr>deferred_host_responses := deferred_host_responses p
                      @ [\<lparr>dr_type = rt, dr_pid = msg_pid msg, dr_ci = ci, dr_mi = mi, dr_value = v\<rparr>]\<rparr>,
                  Inr ()))
         else send v p)"

definition handle_host_call ::
    "('t, 'h) pool_env \<Rightarrow> psrp_message \<Rightarrow> ('t, 'h) pool \<Rightarrow> ('t, 'h) pool \<times> unit res" where
  "handle_host_call E msg p =
     (case parse_host_call (codec E) (msg_data msg) of
        Inl e \<Rightarrow> (p, Inl e)
      | Inr c \<Rightarrow>
          (case dispatch_host_call (host E) (host_method_from_i64 (hc_mi c)) (hc_mp c) (host_state p) of
             (h, Inr None) \<Rightarrow> (p\<lparr>host_state := h\<rparr>, Inr ())
           | (h, Inr (Some v)) \<Rightarrow>
               answer_host_call E msg (hc_ci c) (hc_mi c) v (p\<lparr>host_state := h\<rparr>)
           | (h, Inl e) \<Rightarrow>
               send_pipeline_message E (response_type_of (msg_type msg)) (msg_pid msg)
                 (build_host_response_error_body (codec E) (hc_ci c) (hc_mi c)
                    (display winrm_display e))
                 (p\<lparr>host_state := h\<rparr>)))"

section \<open>The message pump\<close>

fun decode_all :: "uuid_api \<Rightarrow> bytes list \<Rightarrow> psrp_message list res" where
  "decode_all U [] = Inr []"
| "decode_all U (payload # rest) =
     rbind (msg_decode U payload) (\<lambda>m. rbind (decode_all U rest) (\<lambda>ms. Inr (m # ms)))"

definition end_of_stream :: "codec_env \<Rightarrow> uuid \<Rightarrow> psrp_message" where
  "end_of_stream E rpid =
     \<lparr>msg_destination = Client, msg_type = PipelineState, msg_rpid = rpid, msg_pid = nil_uuid,
      msg_data = clixml_of E (PsObject (object_with object_new (lit ''PipelineState'') (PsI32 4)))\<rparr>"

definition flush_if_keyed ::
    "('t, 'h) pool_env \<Rightarrow> ('t, 'h) pool \<Rightarrow> ('t, 'h) pool \<times> unit res" where
  "flush_if_keyed E p =
     (if deferred_host_responses p \<noteq> [] \<and> session_key p \<noteq> None
      then flush_deferred_host_responses E p else (p, Inr ()))"

text \<open>What becomes of a buffered message: handled here (\<open>None\<close>), or handed on.\<close>

definition take_message ::
    "('t, 'h) pool_env \<Rightarrow> psrp_message \<Rightarrow> ('t, 'h) pool
     \<Rightarrow> ('t, 'h) pool \<times> psrp_message option res" where
  "take_message E msg p =
     (if msg_type msg = RunspacePoolHostCall \<or> msg_type msg = PipelineHostCall
      then sbind (handle_host_call E msg p) (\<lambda>_ p. (p, Inr None))
      else if msg_type msg = EncryptedSessionKey
      then sbind (accept_encrypted_session_key E msg p) (\<lambda>_ p. (p, Inr (Some msg)))
      else if msg_type msg = PublicKeyRequest
      then sbind (start_exchange_unless_pending E p) (\<lambda>_ p. (p, Inr (Some msg)))
      else (p, Inr (Some msg)))"

text \<open>One read of the transport: the messages it completed are buffered, last one first.\<close>

definition read_chunk ::
    "('t, 'h) pool_env \<Rightarrow> ('t, 'h) pool \<Rightarrow> ('t, 'h) pool \<times> psrp_message option res option" where
  "read_chunk E p =
     (case recv_chunk (wire E) (link p) of
        (t, None) \<Rightarrow> (p\<lparr>link := t\<rparr>, None)
      | (t, Some (Inl e)) \<Rightarrow> (p\<lparr>link := t\<rparr>, Some (Inl e))
      | (t, Some (Inr chunk)) \<Rightarrow>
          (let p = p\<lparr>link := t\<rparr> in
           if chunk = [] \<and> is_idle (reasm p) \<and> pending_messages p = []
           then (p, Some (Inr (Some (end_of_stream (codec E) (pool_rpid p)))))
           else case feed (reasm p) chunk of
             (r, Inl e) \<Rightarrow> (p\<lparr>reasm := r\<rparr>, Some (Inl e))
           | (r, Inr completed) \<Rightarrow>
               (case decode_all (uuids (codec E)) completed of
                  Inl e \<Rightarrow> (p\<lparr>reasm := r\<rparr>, Some (Inl e))
                | Inr ms \<Rightarrow>
                    (p\<lparr>reasm := r, pending_messages := pending_messages p @ rev ms\<rparr>,
                     Some (Inr None)))))"

fun next_message ::
    "('t, 'h) pool_env \<Rightarrow> nat \<Rightarrow> ('t, 'h) pool \<Rightarrow> ('t, 'h) pool \<times> psrp_message res option" where
  "next_message E 0 p = (p, None)"
| "next_message E (Suc f) p =
     (case flush_if_keyed E p of
        (p, Inl e) \<Rightarrow> (p, Some (Inl e))
      | (p, Inr u) \<Rightarrow>
          (if pending_messages p \<noteq> [] then
             case take_message E (last (pending_messages p))
                    (p\<lparr>pending_messages := butlast (pending_messages p)\<rparr>) of
               (p, Inl e) \<Rightarrow> (p, Some (Inl e))
             | (p, Inr (Some msg)) \<Rightarrow> (p, Some (Inr msg))
             | (p, Inr None) \<Rightarrow> next_message E f p
           else
             case read_chunk E p of
               (p, None) \<Rightarrow> (p, None)
             | (p, Some (Inl e)) \<Rightarrow> (p, Some (Inl e))
             | (p, Some (Inr (Some msg))) \<Rightarrow> (p, Some (Inr msg))
             | (p, Some (Inr None)) \<Rightarrow> next_message E f p))"

fun await_session_key ::
    "('t, 'h) pool_env \<Rightarrow> nat \<Rightarrow> ('t, 'h) pool \<Rightarrow> ('t, 'h) pool \<times> unit res option" where
  "await_session_key E 0 p = (p, None)"
| "await_session_key E (Suc f) p =
     (if session_key p \<noteq> None then (p, Some (Inr ()))
      else case next_message E (Suc f) p of
        (p, None) \<Rightarrow> (p, None)
      | (p, Some (Inl e)) \<Rightarrow> (p, Some (Inl e))
      | (p, Some (Inr msg)) \<Rightarrow>
          (if msg_type msg \<noteq> EncryptedSessionKey then
             case on_message (codec E) msg (pool_machine p) of
               (m, Inl e) \<Rightarrow> (p\<lparr>pool_machine := m\<rparr>, Some (Inl e))
             | (m, Inr u) \<Rightarrow> await_session_key E f (p\<lparr>pool_machine := m\<rparr>)
           else await_session_key E f p))"

definition request_session_key ::
    "('t, 'h) pool_env \<Rightarrow> nat \<Rightarrow> ('t, 'h) pool \<Rightarrow> ('t, 'h) pool \<times> unit res option" where
  "request_session_key E f p =
     (if session_key p \<noteq> None then (p, Some (Inr ()))
      else if pending_client_key p = None then
        case sbind (fresh_key E p) (start_exchange E) of
          (p, Inl e) \<Rightarrow> (p, Some (Inl e))
        | (p, Inr u) \<Rightarrow> await_session_key E f p
      else await_session_key E f p)"

section \<open>Life cycle\<close>

fun execute_actions ::
    "('t, 'h) pool_env \<Rightarrow> action list \<Rightarrow> ('t, 'h) pool \<Rightarrow> ('t, 'h) pool \<times> unit res" where
  "execute_actions E [] p = (p, Inr ())"
| "execute_actions E (SendMessage mt body # acts) p =
     sbind (send_psrp_message E mt body p) (\<lambda>_. execute_actions E acts)"

fun drain_until_opened ::
    "('t, 'h) pool_env \<Rightarrow> nat \<Rightarrow> ('t, 'h) pool \<Rightarrow> ('t, 'h) pool \<times> unit res option" where
  "drain_until_opened E 0 p = (p, None)"
| "drain_until_opened E (Suc f) p =
     (case next_message E (Suc f) p of
        (p, None) \<Rightarrow> (p, None)
      | (p, Some (Inl e)) \<Rightarrow> (p, Some (Inl e))
      | (p, Some (Inr msg)) \<Rightarrow>
          (case on_message (codec E) msg (pool_machine p) of
             (m, Inl e) \<Rightarrow> (p\<lparr>pool_machine := m\<rparr>, Some (Inl e))
           | (m, Inr u) \<Rightarrow>
               (if is_opened m then (p\<lparr>pool_machine := m\<rparr>, Some (Inr ()))
                else drain_until_opened E f (p\<lparr>pool_machine := m\<rparr>))))"

text \<open>\<open>rpid\<close> is the fresh UUID of \<open>Uuid::new_v4\<close>.\<close>

definition open_with_options_and_host ::
    "('t, 'h) pool_env \<Rightarrow> nat \<Rightarrow> uuid \<Rightarrow> 't \<Rightarrow> u32 \<Rightarrow> u32 \<Rightarrow> 'h \<Rightarrow> ('t, 'h) pool res option" where
  "open_with_options_and_host E f rpid t mn mx h =
     (case machine_new rpid mn mx of
        Inl e \<Rightarrow> Some (Inl e)
      | Inr m \<Rightarrow>
          (let p = fresh_pool t h m 1 None; (m, actions) = machine_open (codec E) m in
           case execute_actions E actions (p\<lparr>pool_machine := m\<rparr>) of
             (p, Inl e) \<Rightarrow> Some (Inl e)
           | (p, Inr u) \<Rightarrow>
               (case drain_until_opened E f p of
                  (p, None) \<Rightarrow> None
                | (p, Some (Inl e)) \<Rightarrow> Some (Inl e)
                | (p, Some (Inr u)) \<Rightarrow> Some (Inr p))))"

fun creation_loop ::
    "codec_env \<Rightarrow> uuid \<Rightarrow> u64 \<Rightarrow> bytes \<Rightarrow> action list \<Rightarrow> bytes res" where
  "creation_loop E rpid next_oid out [] = Inr out"
| "creation_loop E rpid next_oid out (SendMessage mt body # acts) =
     (case take_object_id next_oid of
        (n, Inl e) \<Rightarrow> Inl e
      | (n, Inr oid) \<Rightarrow>
          creation_loop E rpid n
            (out @ encode_message oid (msg_encode (uuids E) (to_server mt rpid nil_uuid body))) acts)"

definition build_creation_fragments ::
    "codec_env \<Rightarrow> uuid \<Rightarrow> u32 \<Rightarrow> u32 \<Rightarrow> (uuid \<times> bytes) res" where
  "build_creation_fragments E rpid mn mx =
     rbind (machine_new rpid mn mx) (\<lambda>m.
       let (m, actions) = machine_open E m in
       rbind (creation_loop E (mach_rpid m) 1 [] actions) (\<lambda>out. Inr (mach_rpid m, out)))"

definition open_from_transport_with_host ::
    "('t, 'h) pool_env \<Rightarrow> nat \<Rightarrow> 't \<Rightarrow> uuid \<Rightarrow> u32 \<Rightarrow> u32 \<Rightarrow> 'h \<Rightarrow> ('t, 'h) pool res option" where
  "open_from_transport_with_host E f t rpid mn mx h =
     (case machine_new rpid mn mx of
        Inl e \<Rightarrow> Some (Inl e)
      | Inr m \<Rightarrow>
          (case drain_until_opened E f (fresh_pool t h (fst (machine_open (codec E) m)) 3 None) of
             (p, None) \<Rightarrow> None
           | (p, Some (Inl e)) \<Rightarrow> Some (Inl e)
           | (p, Some (Inr u)) \<Rightarrow> Some (Inr p)))"

text \<open>The shortcuts for a client without a host.\<close>

definition without_host :: "('t, 'h) pool_env \<Rightarrow> ('t, 'h) pool_env" where
  "without_host E = E\<lparr>host := no_interaction_host\<rparr>"

definition open_with_options ::
    "('t, 'h) pool_env \<Rightarrow> nat \<Rightarrow> uuid \<Rightarrow> 't \<Rightarrow> u32 \<Rightarrow> u32 \<Rightarrow> 'h \<Rightarrow> ('t, 'h) pool res option" where
  "open_with_options E f rpid t mn mx h = open_with_options_and_host (without_host E) f rpid t mn mx h"

definition open_with_transport ::
    "('t, 'h) pool_env \<Rightarrow> nat \<Rightarrow> uuid \<Rightarrow> 't \<Rightarrow> 'h \<Rightarrow> ('t, 'h) pool res option" where
  "open_with_transport E f rpid t h = open_with_options E f rpid t 1 1 h"

definition open_from_transport ::
    "('t, 'h) pool_env \<Rightarrow> nat \<Rightarrow> 't \<Rightarrow> uuid \<Rightarrow> u32 \<Rightarrow> u32 \<Rightarrow> 'h \<Rightarrow> ('t, 'h) pool res option" where
  "open_from_transport E f t rpid mn mx h = open_from_transport_with_host (without_host E) f t rpid mn mx h"

definition ensure_state :: "pool_state \<Rightarrow> ('t, 'h) pool \<Rightarrow> unit res" where
  "ensure_state ex p =
     (if mach_state (pool_machine p) \<noteq> ex
      then Inl (BadState (pool_state_debug ex) (pool_state_debug (mach_state (pool_machine p))))
      else Inr ())"

record 'h disconnected_pool =
  dp_shell_id :: ustr
  dp_rpid :: uuid
  dp_min_runspaces :: u32
  dp_max_runspaces :: u32
  dp_host :: 'h
  dp_session_key :: "bytes option"

definition pool_disconnect ::
    "('t, 'h) pool_env \<Rightarrow> ('t, 'h) pool \<Rightarrow> 't \<times> 'h disconnected_pool res" where
  "pool_disconnect E p =
     (if pool_closed p then (link p, Inl (protocol (lit ''pool already closed'')))
      else case disconnect_shell (wire E) (link p) of
        (t, Inl e) \<Rightarrow> (fst (close_shell (wire E) t), Inl e)
      | (t, Inr shell_id) \<Rightarrow>
          (t, Inr \<lparr>dp_shell_id = shell_id, dp_rpid = pool_rpid p,
                   dp_min_runspaces = min_runspaces (pool_machine p),
                   dp_max_runspaces = max_runspaces (pool_machine p),
                   dp_host = host_state p, dp_session_key = session_key p\<rparr>))"

definition pool_close ::
    "('t, 'h) pool_env \<Rightarrow> ('t, 'h) pool \<Rightarrow> ('t, 'h) pool \<times> unit res" where
  "pool_close E p =
     (if pool_closed p then (p, Inr ())
      else
        let p = p\<lparr>pool_closed := True\<rparr>;
            (m, actions) = machine_close (pool_machine p);
            (p, send_result) = execute_actions E actions (p\<lparr>pool_machine := m\<rparr>)
        in case close_shell (wire E) (link p) of
             (t, Inl e) \<Rightarrow> (p\<lparr>link := t\<rparr>, Inl e)
           | (t, Inr u) \<Rightarrow>
               (p\<lparr>link := t, pool_machine := mark_closed (pool_machine p)\<rparr>, send_result))"

definition pool_reconnect :: "'t \<Rightarrow> 'h disconnected_pool \<Rightarrow> ('t, 'h) pool res" where
  "pool_reconnect t d =
     rbind (machine_new (dp_rpid d) (dp_min_runspaces d) (dp_max_runspaces d)) (\<lambda>m.
       Inr (fresh_pool t (dp_host d) (fst (machine_connect m)) 1 (dp_session_key d)))"

end
