(* ===== verification/Pool_Laws.thy ===== *)
theory Pool_Laws
  imports Pool
begin

text \<open>
  Properties of the runspace pool.  \<open>pool_step\<close> is everything a holder of an open pool can make it
  do; the locale \<open>pool_traffic\<close> carries an invariant of what was handed to the transport through
  every operation.  Properties of the bytes sent are stated over the mock transport, which records
  them.
\<close>

section \<open>Steps\<close>

text \<open>
  The messages the caller sends are those in \<open>caller\<close>, the session keys it sets itself those in \<open>keys\<close>.
\<close>

inductive pool_step ::
    "('t, 'h) pool_env \<Rightarrow> (psrp_message \<Rightarrow> bool) \<Rightarrow> (bytes \<Rightarrow> bool) \<Rightarrow> ('t, 'h) pool \<Rightarrow> ('t, 'h) pool \<Rightarrow> bool"
  for E caller keys where
  step_next: "next_message E f p = (p', rm) \<Longrightarrow> pool_step E caller keys p p'"
| step_request_key: "request_session_key E f p = (p', r) \<Longrightarrow> pool_step E caller keys p p'"
| step_set_key: "keys key \<Longrightarrow> pool_step E caller keys p (set_session_key key p)"
| step_drain: "drain_until_opened E f p = (p', r) \<Longrightarrow> pool_step E caller keys p p'"
| step_close: "pool_close E p = (p', ru) \<Longrightarrow> pool_step E caller keys p p'"
| step_send: "send_pipeline_message E mt pid body p = (p', ru)
    \<Longrightarrow> caller (to_server mt (pool_rpid p) pid body) \<Longrightarrow> pool_step E caller keys p p'"

inductive_cases pool_stepE: "pool_step E caller keys p p'"

inductive pool_reaches ::
    "('t, 'h) pool_env \<Rightarrow> (psrp_message \<Rightarrow> bool) \<Rightarrow> (bytes \<Rightarrow> bool) \<Rightarrow> ('t, 'h) pool \<Rightarrow> ('t, 'h) pool \<Rightarrow> bool"
  for E caller keys p where
  pool_refl: "pool_reaches E caller keys p p"
| pool_more: "pool_reaches E caller keys p p' \<Longrightarrow> pool_step E caller keys p' p'' \<Longrightarrow> pool_reaches E caller keys p p''"

section \<open>What an answer may carry\<close>

text \<open>
  \<open>sealed C key v\<close>: every secure string in \<open>v\<close> is the base64 text of a ciphertext under \<open>key\<close>.
\<close>

function sealed :: "cipher \<Rightarrow> bytes \<Rightarrow> ps_value \<Rightarrow> bool" where
  "sealed C key v =
     (case v of
        PsSecureString s \<Rightarrow> (\<exists>plain. s = base64_encode (encrypt_secure_string C key plain))
      | PsList items \<Rightarrow> list_all (sealed C key) items
      | PsDict entries \<Rightarrow> list_all (\<lambda>e. sealed C key (fst e) \<and> sealed C key (snd e)) entries
      | PsObject obj \<Rightarrow> list_all (\<lambda>e. sealed C key (snd e)) (properties obj)
      | _ \<Rightarrow> True)"
  by pat_completeness auto
termination
  by (relation "measure (\<lambda>(C, key, v). size v)") (auto dest: values_smaller)

declare sealed.simps [simp del]

lemma sealed_simps [simp]:
  "atomic v \<Longrightarrow> sealed C key v"
  "sealed C key (PsSecureString s) = (\<exists>plain. s = base64_encode (encrypt_secure_string C key plain))"
  "sealed C key (PsList vs) = list_all (sealed C key) vs"
  "sealed C key (PsDict es) = list_all (\<lambda>e. sealed C key (fst e) \<and> sealed C key (snd e)) es"
  "sealed C key (PsObject obj) = list_all (\<lambda>e. sealed C key (snd e)) (properties obj)"
  by (subst sealed.simps; cases v rule: atomic.cases; simp)+

lemma sealed_encrypt: "sealed C key (encrypt_secure_strings C key v)"
proof (induction C key v rule: encrypt_secure_strings.induct)
  case (1 C key v)
  then show ?case
    by (cases v rule: atomic.cases) (auto simp: list_all_iff)
qed

lemma sealed_plain: "\<not> contains_secure_string v \<Longrightarrow> sealed C key v"
proof (induction v rule: contains_secure_string.induct)
  case (1 v)
  then show ?case
    by (cases v rule: atomic.cases) (auto simp: list_all_iff list_ex_iff)
qed

text \<open>What may be sent under the session key in force: without one, no secure string at all.\<close>

definition guarded :: "cipher \<Rightarrow> bytes option \<Rightarrow> ps_value \<Rightarrow> bool" where
  "guarded C key v = (case key of None \<Rightarrow> \<not> contains_secure_string v | Some k \<Rightarrow> sealed C k v)"

text \<open>The bodies of the host answers the pool sends while \<open>key\<close> is in force.\<close>

definition safe_answer :: "codec_env \<Rightarrow> cipher \<Rightarrow> bytes option \<Rightarrow> ustr \<Rightarrow> bool" where
  "safe_answer K C key body \<longleftrightarrow>
     (\<exists>ci mi message. body = build_host_response_error_body K ci mi message)
     \<or> (\<exists>ci mi v. body = build_host_response_body K ci mi v \<and> guarded C key v)"

definition is_host_response :: "message_type \<Rightarrow> bool" where
  "is_host_response mt \<longleftrightarrow> mt = RunspacePoolHostResponse \<or> mt = PipelineHostResponse"

section \<open>Traffic invariants\<close>

text \<open>
  \<open>J\<close> is an invariant of the transport, the object id counter and the session key that holds through every
  send of a message that is \<open>ok\<close> under the key in force, through every read, and when a key is set: by the
  caller one of \<open>keys\<close>, by the key exchange one that was encrypted for a client key in \<open>mine\<close>.  The messages
  of the pool itself are \<open>ok\<close>.
\<close>

locale pool_traffic =
  fixes E :: "('t, 'h) pool_env"
    and ok :: "bytes option \<Rightarrow> psrp_message \<Rightarrow> bool"
    and keys :: "bytes \<Rightarrow> bool"
    and mine :: "client_key \<Rightarrow> bool"
    and J :: "'t \<Rightarrow> u64 \<Rightarrow> bytes option \<Rightarrow> bool"
  assumes send_J: "J t n k \<Longrightarrow> checked_add_u64 n 1 = Some n' \<Longrightarrow> ok k msg \<Longrightarrow>
      send_fragment (wire E) (encode_message n (msg_encode (uuids (codec E)) msg)) t = (t', r)
      \<Longrightarrow> J t' n' k"
    and send_pipeline_J: "J t n k \<Longrightarrow> checked_add_u64 n 1 = Some n' \<Longrightarrow> ok k msg \<Longrightarrow>
      send_pipeline_fragment (wire E) (encode_message n (msg_encode (uuids (codec E)) msg)) pid t = (t', r)
      \<Longrightarrow> J t' n' k"
    and execute_J: "J t n k \<Longrightarrow> checked_add_u64 n 1 = Some n' \<Longrightarrow> ok k msg \<Longrightarrow>
      execute_pipeline (wire E) (encode_message n (msg_encode (uuids (codec E)) msg)) pid t = (t', r)
      \<Longrightarrow> J t' n' k"
    and recv_J: "J t n k \<Longrightarrow> recv_chunk (wire E) t = (t', rb) \<Longrightarrow> J t' n k"
    and close_J: "J t n k \<Longrightarrow> close_shell (wire E) t = (t', r) \<Longrightarrow> J t' n k"
    and set_J: "J t n k \<Longrightarrow> keys k' \<Longrightarrow> J t n (Some k')"
    and agreed_J: "J t n k \<Longrightarrow> mine ck \<Longrightarrow> decrypt_session_key ck bs = Inr k' \<Longrightarrow> J t n (Some k')"
    and made_mine: "generate_key E i = Inr ck \<Longrightarrow> mine ck"
    and ok_other: "\<not> is_host_response mt \<Longrightarrow> mt \<in> {PublicKey, SessionCapability, InitRunspacePool, CloseRunspacePool}
      \<Longrightarrow> ok k (to_server mt rpid pid body)"
    and ok_answer: "safe_answer (codec E) (aes E) k body \<Longrightarrow> ok k (to_server mt rpid pid body)"
begin

definition I :: "('t, 'h) pool \<Rightarrow> bool" where
  "I p \<longleftrightarrow> J (link p) (next_object_id p) (session_key p) \<and> (\<forall>ck. pending_client_key p = Some ck \<longrightarrow> mine ck)"

lemma I_cong:
  "link p' = link p \<Longrightarrow> next_object_id p' = next_object_id p \<Longrightarrow> session_key p' = session_key p
    \<Longrightarrow> pending_client_key p' = pending_client_key p \<Longrightarrow> I p' = I p"
  by (simp add: I_def)

lemma I_updates [simp]:
  "I (p\<lparr>pool_machine := m\<rparr>) = I p" "I (p\<lparr>reasm := r\<rparr>) = I p" "I (p\<lparr>pool_closed := b\<rparr>) = I p"
  "I (p\<lparr>host_state := h\<rparr>) = I p" "I (p\<lparr>deferred_host_responses := ds\<rparr>) = I p"
  "I (p\<lparr>pending_messages := ms\<rparr>) = I p" "I (p\<lparr>keys_made := kk\<rparr>) = I p"
  by (rule I_cong; simp)+

lemma I_pending:
  "I p \<Longrightarrow> I (p\<lparr>pending_client_key := None\<rparr>)"
  "I p \<Longrightarrow> mine ck \<Longrightarrow> I (p\<lparr>pending_client_key := Some ck\<rparr>)"
  by (simp_all add: I_def)

lemma I_set_key: "I p \<Longrightarrow> keys k \<Longrightarrow> I (set_session_key k p)"
  by (auto simp: I_def set_session_key_def intro: set_J)

lemma post_I:
  assumes "post E call msg p = (p', r)" "I p"
    and "\<And>n' t' r. checked_add_u64 (next_object_id p) 1 = Some n' \<Longrightarrow>
      call (encode_message (next_object_id p) (msg_encode (uuids (codec E)) msg)) (link p) = (t', r)
      \<Longrightarrow> J t' n' (session_key p)"
  shows "I p'"
  using assms
  by (auto simp: post_def take_object_id_def Let_def I_def split: option.splits prod.splits sum.splits)

lemma send_psrp_I:
  "send_psrp_message E mt body p = (p', r) \<Longrightarrow> I p \<Longrightarrow> ok (session_key p) (to_server mt (pool_rpid p) nil_uuid body)
    \<Longrightarrow> I p'"
  unfolding send_psrp_message_def by (erule post_I) (auto simp: I_def intro: send_J)

lemma send_pipeline_I:
  "send_pipeline_message E mt pid body p = (p', r) \<Longrightarrow> I p \<Longrightarrow> ok (session_key p) (to_server mt (pool_rpid p) pid body)
    \<Longrightarrow> I p'"
  unfolding send_pipeline_message_def
  by (erule post_I) (auto simp: I_def intro: send_pipeline_J execute_J split: if_splits)

lemma sbind_I:
  assumes "sbind x f = (p', r)" "\<And>p y. x = (p, y) \<Longrightarrow> I p"
    "\<And>p y. x = (p, Inr y) \<Longrightarrow> f y p = (p', r) \<Longrightarrow> I p'"
  shows "I p'"
  using assms by (auto simp: sbind_def split: prod.splits sum.splits)

lemma send_keeps_key: "send_pipeline_message E mt pid body p = (p', r) \<Longrightarrow> session_key p' = session_key p"
  by (auto simp: send_pipeline_message_def post_def Let_def split: prod.splits sum.splits)

lemma start_exchange_I: "start_exchange E key p = (p', r) \<Longrightarrow> I p \<Longrightarrow> mine key \<Longrightarrow> I p'"
  unfolding start_exchange_def
  by (erule sbind_I) (auto dest!: send_psrp_I intro: ok_other I_pending simp: is_host_response_def)

lemma fresh_start_I: "sbind (fresh_key E p) (start_exchange E) = (p', r) \<Longrightarrow> I p \<Longrightarrow> I p'"
  by (erule sbind_I) (auto simp: fresh_key_def dest: start_exchange_I intro: made_mine)

lemma start_unless_I: "start_exchange_unless_pending E p = (p', r) \<Longrightarrow> I p \<Longrightarrow> I p'"
  by (auto simp: start_exchange_unless_pending_def dest: fresh_start_I split: if_splits)

lemma ensure_started_I: "ensure_key_exchange_started E p = (p', r) \<Longrightarrow> I p \<Longrightarrow> I p'"
  by (auto simp: ensure_key_exchange_started_def dest: start_unless_I split: if_splits)

lemma safe_encrypted:
  "safe_answer K C (Some key) (build_host_response_body K ci mi (encrypt_secure_strings C key v))"
  using sealed_encrypt unfolding safe_answer_def guarded_def by fastforce

lemma safe_plain: "\<not> contains_secure_string v \<Longrightarrow> safe_answer K C key (build_host_response_body K ci mi v)"
proof -
  assume "\<not> contains_secure_string v"
  then have "guarded C key v" by (simp add: guarded_def sealed_plain split: option.split)
  then show ?thesis unfolding safe_answer_def by blast
qed

lemma safe_error: "safe_answer K C key (build_host_response_error_body K ci mi message)"
  unfolding safe_answer_def by blast

lemma flush_loop_I: "flush_loop E key ds p = (p', r) \<Longrightarrow> I p \<Longrightarrow> session_key p = Some key \<Longrightarrow> I p'"
proof (induction ds arbitrary: p)
  case (Cons d ds)
  obtain p1 x where s: "send_pipeline_message E (dr_type d) (dr_pid d) (build_host_response_body (codec E)
      (dr_ci d) (dr_mi d) (encrypt_secure_strings (aes E) key (dr_value d))) p = (p1, x)" by fastforce
  have "I p1" by (rule send_pipeline_I [OF s Cons.prems(2)]) (simp add: Cons.prems(3) ok_answer safe_encrypted)
  with Cons.prems s send_keeps_key [OF s] show ?case by (cases x) (auto dest: Cons.IH)
qed simp

lemma flush_I: "flush_deferred_host_responses E p = (p', r) \<Longrightarrow> I p \<Longrightarrow> I p'"
  by (auto simp: flush_deferred_host_responses_def dest: flush_loop_I split: option.splits)

lemma fail_loop_I: "I p \<Longrightarrow> I (fail_loop E message ds p)"
proof (induction ds arbitrary: p)
  case (Cons d ds)
  obtain p1 r where s: "send_pipeline_message E (dr_type d) (dr_pid d)
      (build_host_response_error_body (codec E) (dr_ci d) (dr_mi d) message) p = (p1, r)" by fastforce
  then show ?case
    using Cons.IH [OF send_pipeline_I [OF s Cons.prems ok_answer [OF safe_error]]] by simp
qed simp

lemma read_session_key_decrypts:
  "read_session_key K msg key = Inr raw \<Longrightarrow> \<exists>bs. decrypt_session_key key bs = Inr raw"
  by (auto simp: read_session_key_def rbind_Inr_iff)

lemma agreed_I:
  assumes "take_session_key E msg key p = (p', r)" "I p" "mine key"
  shows "I p'"
proof (cases "read_session_key (codec E) msg key")
  case (Inr raw)
  with read_session_key_decrypts obtain bs where "decrypt_session_key key bs = Inr raw" by blast
  with assms Inr show ?thesis by (auto simp: take_session_key_def I_def intro: agreed_J)
qed (use assms in \<open>simp add: take_session_key_def\<close>)

lemma accept_key_I:
  assumes "accept_encrypted_session_key E msg p = (p', r)" "I p"
  shows "I p'"
proof (cases "pending_client_key p")
  case (Some key)
  obtain p1 x where t: "take_session_key E msg key (p\<lparr>pending_client_key := None\<rparr>) = (p1, x)" by fastforce
  have "mine key" using assms(2) Some by (simp add: I_def)
  then have "I p1" using agreed_I [OF t I_pending(1)] assms(2) by simp
  with assms(1) Some t show ?thesis
    by (auto simp: accept_encrypted_session_key_def fail_deferred_host_responses_def dest: flush_I
        intro!: fail_loop_I split: sum.splits)
qed (use assms in \<open>simp add: accept_encrypted_session_key_def\<close>)

lemma answer_sent_I:
  assumes "send_pipeline_message E mt pid body p = (p', r)" "I p" "safe_answer (codec E) (aes E) (session_key p) body"
  shows "I p'"
  by (rule send_pipeline_I [OF assms(1,2) ok_answer [OF assms(3)]])

lemma answer_I:
  assumes "answer_host_call E msg ci mi v p = (p', r)" "I p"
  shows "I p'"
proof (cases "contains_secure_string v")
  case False
  with assms show ?thesis by (auto simp: answer_host_call_def intro: answer_sent_I safe_plain)
next
  case True
  show ?thesis
  proof (cases "session_key p")
    case None
    with assms True show ?thesis
      by (auto simp: answer_host_call_def dest: ensure_started_I elim!: sbind_I)
  next
    case (Some key)
    with assms True show ?thesis
      by (auto simp: answer_host_call_def safe_encrypted elim!: answer_sent_I)
  qed
qed

lemma handle_host_call_I: "handle_host_call E msg p = (p', r) \<Longrightarrow> I p \<Longrightarrow> I p'"
  by (auto simp: handle_host_call_def dest: answer_I
      elim!: answer_sent_I intro: safe_error split: sum.splits option.splits prod.splits)

lemma take_message_I: "take_message E msg p = (p', r) \<Longrightarrow> I p \<Longrightarrow> I p'"
  by (auto simp: take_message_def dest: handle_host_call_I accept_key_I start_unless_I
      elim!: sbind_I split: if_splits)

lemma read_chunk_I: "read_chunk E p = (p', r) \<Longrightarrow> I p \<Longrightarrow> I p'"
  by (auto simp: read_chunk_def Let_def I_def dest: recv_J
      split: prod.splits option.splits sum.splits if_splits)

lemma next_message_I: "next_message E f p = (p', r) \<Longrightarrow> I p \<Longrightarrow> I p'"
proof (induction f arbitrary: p)
  case (Suc f)
  obtain p1 x where fl: "flush_if_keyed E p = (p1, x)" by fastforce
  then have p1: "I p1" using Suc.prems(2) by (auto simp: flush_if_keyed_def dest: flush_I split: if_splits)
  obtain p2 y where tm: "take_message E (last (pending_messages p1))
      (p1\<lparr>pending_messages := butlast (pending_messages p1)\<rparr>) = (p2, y)" by fastforce
  then have p2: "I p2" using p1 take_message_I by auto
  obtain p3 z where rc: "read_chunk E p1 = (p3, z)" by fastforce
  then have p3: "I p3" using p1 read_chunk_I by auto
  show ?case
    using Suc.prems(1) fl tm rc p1 p2 p3 Suc.IH
    by (auto split: sum.splits option.splits if_splits)
qed simp

lemma await_I: "await_session_key E f p = (p', r) \<Longrightarrow> I p \<Longrightarrow> I p'"
proof (induction f arbitrary: p)
  case (Suc f)
  obtain p1 x where nm: "next_message E (Suc f) p = (p1, x)" by fastforce
  then have "I p1" using Suc.prems(2) next_message_I by blast
  with Suc.prems nm show ?case
    by (auto dest!: Suc.IH split: option.splits sum.splits if_splits prod.splits simp del: next_message.simps)
qed simp

lemma drain_I: "drain_until_opened E f p = (p', r) \<Longrightarrow> I p \<Longrightarrow> I p'"
proof (induction f arbitrary: p)
  case (Suc f)
  obtain p1 x where nm: "next_message E (Suc f) p = (p1, x)" by fastforce
  then have "I p1" using Suc.prems(2) next_message_I by blast
  with Suc.prems nm show ?case
    by (auto dest!: Suc.IH split: option.splits sum.splits if_splits prod.splits simp del: next_message.simps)
qed simp

lemma request_I: "request_session_key E f p = (p', r) \<Longrightarrow> I p \<Longrightarrow> I p'"
  by (auto simp: request_session_key_def dest: await_I fresh_start_I
      split: if_splits prod.splits sum.splits)

lemma execute_actions_I:
  "execute_actions E acts p = (p', r) \<Longrightarrow> I p \<Longrightarrow>
     (\<And>mt body rpid k. SendMessage mt body \<in> set acts \<Longrightarrow> ok k (to_server mt rpid nil_uuid body)) \<Longrightarrow> I p'"
proof (induction acts arbitrary: p)
  case (Cons a acts)
  obtain mt body where a: "a = SendMessage mt body" by (cases a)
  obtain p1 x where sp: "send_psrp_message E mt body p = (p1, x)" by fastforce
  have "I p1" by (rule send_psrp_I [OF sp Cons.prems(2)]) (simp add: a Cons.prems(3))
  then show ?case
    using Cons.prems(1,3) Cons.IH [of p1] sp by (cases x) (auto simp: a)
qed simp

lemma close_I:
  assumes "pool_close E p = (p', r)" "I p"
  shows "I p'"
proof (cases "pool_closed p")
  case False
  obtain m acts where m: "machine_close (pool_machine p) = (m, acts)" by fastforce
  obtain p1 x where e: "execute_actions E acts (p\<lparr>pool_closed := True, pool_machine := m\<rparr>) = (p1, x)"
    by fastforce
  have "I p1"
    by (rule execute_actions_I [OF e])
      (use assms(2) m in \<open>auto simp: machine_close_def is_host_response_def intro!: ok_other
        split: if_splits\<close>)
  then show ?thesis
    using assms(1) False m e
    by (auto simp: pool_close_def I_def Let_def dest: close_J split: prod.splits sum.splits)
qed (use assms in \<open>simp add: pool_close_def\<close>)

lemma step_I: "pool_step E (\<lambda>m. \<forall>k. ok k m) keys p p' \<Longrightarrow> I p \<Longrightarrow> I p'"
  by (erule pool_stepE)
    (auto dest: next_message_I request_I drain_I close_I send_pipeline_I intro: I_set_key)

lemma reaches_I: "pool_reaches E (\<lambda>m. \<forall>k. ok k m) keys p p' \<Longrightarrow> I p \<Longrightarrow> I p'"
  by (induction rule: pool_reaches.induct) (auto intro: step_I)

end

section \<open>The mock transport's record\<close>

definition mock_env ::
    "codec_env \<Rightarrow> 'h ps_host \<Rightarrow> cipher \<Rightarrow> (nat \<Rightarrow> client_key res) \<Rightarrow> (mock, 'h) pool_env" where
  "mock_env K H C gen =
     \<lparr>codec = K, wire = mock_transport, host = H, aes = C, generate_key = gen\<rparr>"

lemma mock_env_simps [simp]:
  "codec (mock_env K H C gen) = K" "wire (mock_env K H C gen) = mock_transport"
  "host (mock_env K H C gen) = H" "aes (mock_env K H C gen) = C"
  "generate_key (mock_env K H C gen) = gen"
  by (simp_all add: mock_env_def)

lemma mock_transport_simps [simp]:
  "send_fragment mock_transport = mock_send"
  "send_pipeline_fragment mock_transport = mock_send_pipeline"
  "recv_chunk mock_transport = mock_recv"
  "signal_stop mock_transport = mock_stop"
  "close_shell mock_transport = mock_close"
  "execute_pipeline mock_transport = (\<lambda>bs pid. mock_send bs)"
  by (simp_all add: mock_transport_def with_defaults_def)

text \<open>
  \<open>numbered U Q bss n\<close>: the byte strings \<open>bss\<close> are messages with the property \<open>Q\<close>, fragmented
  under object ids that strictly increase and stay below the counter \<open>n\<close>.
\<close>

definition numbered :: "uuid_api \<Rightarrow> (psrp_message \<Rightarrow> bool) \<Rightarrow> bytes list \<Rightarrow> u64 \<Rightarrow> bool" where
  "numbered U Q bss n \<longleftrightarrow>
     (\<exists>sent. bss = map (\<lambda>(i, m). encode_message i (msg_encode U m)) sent
        \<and> sorted_wrt (\<lambda>a b. unat (fst a) < unat (fst b)) sent
        \<and> (\<forall>(i, m)\<in>set sent. unat i < unat n \<and> Q m))"

lemma numbered_snoc:
  assumes "numbered U Q bss n" "checked_add_u64 n 1 = Some n'" "Q m"
  shows "numbered U Q (bss @ [encode_message n (msg_encode U m)]) n'"
proof -
  from assms(1) obtain sent where s: "bss = map (\<lambda>(i, m). encode_message i (msg_encode U m)) sent"
    "sorted_wrt (\<lambda>a b. unat (fst a) < unat (fst b)) sent"
    "\<forall>(i, m)\<in>set sent. unat i < unat n \<and> Q m" unfolding numbered_def by blast
  have "unat n' = Suc (unat n)" using checked_add_u64_SomeD [OF assms(2)] .
  then show ?thesis
    unfolding numbered_def using s assms(3)
    by (intro exI [of _ "sent @ [(n, m)]"]) (auto simp: sorted_wrt_append)
qed

lemma numbered_mono: "numbered U Q bss n \<Longrightarrow> unat n \<le> unat n' \<Longrightarrow> numbered U Q bss n'"
  unfolding numbered_def by (elim exE conjE) (rule exI, auto)

lemma mock_send_outbox:
  "mock_send bs t = (t', r) \<Longrightarrow> outbox t' = outbox t \<or> outbox t' = outbox t @ [bs]"
  by (auto simp: mock_send_def split: if_splits)

lemma mock_send_pipeline_outbox:
  "mock_send_pipeline bs pid t = (t', r) \<Longrightarrow> outbox t' = outbox t \<or> outbox t' = outbox t @ [bs]"
  by (auto simp: mock_send_pipeline_def mock_send_def split: if_splits prod.splits sum.splits)

lemma numbered_sent:
  assumes "numbered U Q (outbox t) n" "checked_add_u64 n 1 = Some n'" "Q m"
    "outbox t' = outbox t \<or> outbox t' = outbox t @ [encode_message n (msg_encode U m)]"
  shows "numbered U Q (outbox t') n'"
  using assms numbered_snoc [OF assms(1-3)] numbered_mono [OF assms(1), of n']
    checked_add_u64_SomeD [OF assms(2)] by auto

section \<open>The history of a pool\<close>

text \<open>
  What a pool has done, as far as its session key matters: a key was set, or a message was sent under an
  object id.  The key in force at any point is the last one set before it.
\<close>

datatype pool_event = Key_Set bytes | Sent u64 psrp_message

fun key_in_force :: "bytes option \<Rightarrow> pool_event list \<Rightarrow> bytes option" where
  "key_in_force key [] = key"
| "key_in_force key (Key_Set k # evs) = key_in_force (Some k) evs"
| "key_in_force key (Sent i m # evs) = key_in_force key evs"

fun sent_bytes :: "uuid_api \<Rightarrow> pool_event list \<Rightarrow> bytes list" where
  "sent_bytes U [] = []"
| "sent_bytes U (Key_Set k # evs) = sent_bytes U evs"
| "sent_bytes U (Sent i m # evs) = encode_message i (msg_encode U m) # sent_bytes U evs"

fun keys_set :: "pool_event list \<Rightarrow> bytes list" where
  "keys_set [] = []"
| "keys_set (Key_Set k # evs) = k # keys_set evs"
| "keys_set (Sent i m # evs) = keys_set evs"

text \<open>Every host answer was safe under the key in force when it was sent.\<close>

definition answer_ok :: "codec_env \<Rightarrow> cipher \<Rightarrow> bytes option \<Rightarrow> psrp_message \<Rightarrow> bool" where
  "answer_ok K C key m \<longleftrightarrow> (is_host_response (msg_type m) \<longrightarrow> safe_answer K C key (msg_data m))"

fun answers_sealed :: "codec_env \<Rightarrow> cipher \<Rightarrow> bytes option \<Rightarrow> pool_event list \<Rightarrow> bool" where
  "answers_sealed K C key [] \<longleftrightarrow> True"
| "answers_sealed K C key (Key_Set k # evs) \<longleftrightarrow> answers_sealed K C (Some k) evs"
| "answers_sealed K C key (Sent i m # evs) \<longleftrightarrow> answer_ok K C key m \<and> answers_sealed K C key evs"

lemma history_snoc [simp]:
  "key_in_force key (evs @ [Key_Set k]) = Some k" "key_in_force key (evs @ [Sent i m]) = key_in_force key evs"
  "sent_bytes U (evs @ [Key_Set k]) = sent_bytes U evs"
  "sent_bytes U (evs @ [Sent i m]) = sent_bytes U evs @ [encode_message i (msg_encode U m)]"
  "keys_set (evs @ [Key_Set k]) = keys_set evs @ [k]" "keys_set (evs @ [Sent i m]) = keys_set evs"
  "answers_sealed K C key (evs @ [Key_Set k]) = answers_sealed K C key evs"
  "answers_sealed K C key (evs @ [Sent i m]) = (answers_sealed K C key evs \<and> answer_ok K C (key_in_force key evs) m)"
proof -
  show "key_in_force key (evs @ [Key_Set k]) = Some k" "key_in_force key (evs @ [Sent i m]) = key_in_force key evs"
    by (induction key evs rule: key_in_force.induct) simp_all
  show "sent_bytes U (evs @ [Key_Set k]) = sent_bytes U evs"
    "sent_bytes U (evs @ [Sent i m]) = sent_bytes U evs @ [encode_message i (msg_encode U m)]"
    by (induction U evs rule: sent_bytes.induct) simp_all
  show "keys_set (evs @ [Key_Set k]) = keys_set evs @ [k]" "keys_set (evs @ [Sent i m]) = keys_set evs"
    by (induction evs rule: keys_set.induct) simp_all
  show "answers_sealed K C key (evs @ [Key_Set k]) = answers_sealed K C key evs"
    "answers_sealed K C key (evs @ [Sent i m]) = (answers_sealed K C key evs \<and> answer_ok K C (key_in_force key evs) m)"
    by (induction K C key evs rule: answers_sealed.induct) simp_all
qed

text \<open>
  The history behind an outbox: the pool began with \<open>key0\<close>, and the keys set since are the caller's or came
  encrypted for one of the client keys in \<open>mine\<close>.
\<close>

definition agreed :: "(client_key \<Rightarrow> bool) \<Rightarrow> bytes \<Rightarrow> bool" where
  "agreed mine k \<longleftrightarrow> (\<exists>ck bs. mine ck \<and> decrypt_session_key ck bs = Inr k)"

definition accounted ::
    "codec_env \<Rightarrow> cipher \<Rightarrow> (bytes \<Rightarrow> bool) \<Rightarrow> (client_key \<Rightarrow> bool) \<Rightarrow> bytes option \<Rightarrow> bytes list \<Rightarrow> bytes option \<Rightarrow> bool" where
  "accounted K C keys mine key0 bss key \<longleftrightarrow>
     (\<exists>evs. bss = sent_bytes (uuids K) evs \<and> key = key_in_force key0 evs \<and> answers_sealed K C key0 evs
        \<and> list_all (\<lambda>k. keys k \<or> agreed mine k) (keys_set evs))"

lemma accounted_key:
  "accounted K C keys mine key0 bss key \<Longrightarrow> keys k \<or> agreed mine k \<Longrightarrow> accounted K C keys mine key0 bss (Some k)"
  unfolding accounted_def by (elim exE) (rule_tac x = "evs @ [Key_Set k]" in exI, simp)

lemma accounted_sent:
  assumes "accounted K C keys mine key0 (outbox t) key" "answer_ok K C key m"
    "outbox t' = outbox t \<or> outbox t' = outbox t @ [encode_message i (msg_encode (uuids K) m)]"
  shows "accounted K C keys mine key0 (outbox t') key"
  using assms(3)
proof
  assume "outbox t' = outbox t @ [encode_message i (msg_encode (uuids K) m)]"
  moreover from assms(1) obtain evs where "outbox t = sent_bytes (uuids K) evs" "key = key_in_force key0 evs"
    "answers_sealed K C key0 evs" "list_all (\<lambda>k. keys k \<or> agreed mine k) (keys_set evs)"
    unfolding accounted_def by blast
  ultimately show ?thesis
    using assms(2) unfolding accounted_def by (intro exI [of _ "evs @ [Sent i m]"]) simp
qed (use assms(1) in simp)

interpretation mock: pool_traffic "mock_env K H C gen" "answer_ok K C" keys
    "\<lambda>ck. first = Some ck \<or> (\<exists>i. gen i = Inr ck)"
    "\<lambda>t n. accounted K C keys (\<lambda>ck. first = Some ck \<or> (\<exists>i. gen i = Inr ck)) key0 (outbox t)"
  for K H C gen keys first key0
proof (unfold_locales, goal_cases)
  case (1 t n k n' msg t' r)
  then show ?case by (auto intro: accounted_sent dest: mock_send_outbox)
next
  case (2 t n k n' msg pid t' r)
  then show ?case by (auto intro: accounted_sent dest: mock_send_pipeline_outbox)
next
  case (3 t n k n' msg pid t' r)
  then show ?case by (auto intro: accounted_sent dest: mock_send_outbox)
next
  case (4 t n k t' rb)
  then show ?case by (auto simp: mock_recv_def split: option.splits list.splits)
next
  case (5 t n k t' r)
  then show ?case by (auto simp: mock_close_def)
next
  case (6 t n k k')
  then show ?case by (auto intro: accounted_key)
next
  case (7 t n k ck bs k')
  then show ?case by (intro accounted_key) (auto simp: agreed_def)
next
  case (8 i ck)
  then show ?case by auto
next
  case (9 mt k rpid pid body)
  then show ?case by (auto simp: answer_ok_def to_server_def)
next
  case (10 k body mt rpid pid)
  then show ?case by (auto simp: answer_ok_def to_server_def)
qed

end
