(* ===== verification/Documents.thy ===== *)
theory Documents
  imports Records
begin

text \<open>
  How the decoder reads the small documents the protocol is made of: an object whose members are a
  number or a text.  They serve as the concrete inputs of other theories' examples.
\<close>

section \<open>Text without escapes\<close>

lemma decode_pwsh_escapes_plain:
  assumes "UNDERSCORE \<notin> set s"
  shows "decode_pwsh_escapes s = s"
proof -
  have none: "split_pwsh_escape s = None" if "UNDERSCORE \<notin> set s" for s
    using that by (intro split_pwsh_escape_other) auto
  have stop: "decode_loop [] [] = []"
    by (simp add: decode_loop.simps [of "[]" "[]"] none utf16_lossy_plain)
  have after: "takeWhile (\<lambda>c. c \<noteq> UNDERSCORE) cs = cs" "dropWhile (\<lambda>c. c \<noteq> UNDERSCORE) cs = []"
    if "UNDERSCORE \<notin> set cs" for cs
    using that by (induction cs) auto
  show ?thesis
    unfolding decode_pwsh_escapes_def
    by (subst decode_loop.simps) (use assms in \<open>cases s; simp add: none after stop utf16_lossy_plain\<close>)
qed

lemma underscore_lit [simp]: "UNDERSCORE \<in> set (lit s) \<longleftrightarrow> CHR ''_'' \<in> set s"
proof -
  have us: "UNDERSCORE = of_char (CHR ''_'')" by (simp add: UNDERSCORE_def)
  have "UNDERSCORE = of_char c \<longleftrightarrow> CHR ''_'' = c" for c
    unfolding us by (rule of_char_eq_iff)
  then show ?thesis by (auto simp: lit_def image_iff)
qed

section \<open>Members\<close>

datatype member = MemI32 ustr ustr | MemI64 ustr ustr | MemS ustr ustr

fun member_events :: "member \<Rightarrow> events" where
  "member_events (MemI32 name t) = [XStart (lit ''I32'') [(lit ''N'', Inr name)], XText t, XEnd (lit ''I32'')]"
| "member_events (MemI64 name t) = [XStart (lit ''I64'') [(lit ''N'', Inr name)], XText t, XEnd (lit ''I64'')]"
| "member_events (MemS name t) = [XStart (lit ''S'') [(lit ''N'', Inr name)], XText t, XEnd (lit ''S'')]"

fun member_of :: "member \<Rightarrow> (ustr \<times> ps_value) res" where
  "member_of (MemI32 name t) = map_sum id (\<lambda>i. (name, PsI32 (word_of_int i)))
     (parse_int_text (- 2147483648) 2147483647 (lit ''I32'') t)"
| "member_of (MemI64 name t) = map_sum id (\<lambda>i. (name, PsI64 (word_of_int i)))
     (parse_int_text (- 9223372036854775808) 9223372036854775807 (lit ''I64'') t)"
| "member_of (MemS name t) = Inr (name, PsString t)"

fun member_plain :: "member \<Rightarrow> bool" where
  "member_plain (MemI32 name t) \<longleftrightarrow> UNDERSCORE \<notin> set name \<and> UNDERSCORE \<notin> set t"
| "member_plain (MemI64 name t) \<longleftrightarrow> UNDERSCORE \<notin> set name \<and> UNDERSCORE \<notin> set t"
| "member_plain (MemS name t) \<longleftrightarrow> UNDERSCORE \<notin> set name \<and> UNDERSCORE \<notin> set t"

lemma scalar_lookup:
  "map_of (scalar_parsers U F) (lit ''I32'') = Some (\<lambda>t. map_sum id (\<lambda>i. PsI32 (word_of_int i))
     (parse_int_text (- 2147483648) 2147483647 (lit ''I32'') t))"
  "map_of (scalar_parsers U F) (lit ''I64'') = Some (\<lambda>t. map_sum id (\<lambda>i. PsI64 (word_of_int i))
     (parse_int_text (- 9223372036854775808) 9223372036854775807 (lit ''I64'') t))"
  "map_of (scalar_parsers U F) (lit ''S'') = Some (\<lambda>t. Inr (PsString t))"
  "map_of (scalar_parsers U F) (lit ''Obj'') = None"
  by (simp_all add: scalar_parsers_def)

lemma dec_state_depth [simp]: "st\<lparr>depth := depth st + 1, depth := depth st\<rparr> = st"
  by (cases st) simp

lemma member_set_step:
  assumes "member_plain m" "member_of m = Inr (name, v)" "depth st < MAX_NESTING_DEPTH"
  shows "parse_member_set (parse_element U F (Suc l)) (Suc f) obj closing (member_events m @ evs) st
    = parse_member_set (parse_element U F (Suc l)) f (object_insert name v obj) closing evs st"
proof -
  have depth: "st\<lparr>depth := depth st\<rparr> = st" by (cases st) simp
  show ?thesis
    using assms
    by (cases m) (auto simp: name_attr_def attr_value_def unwrap_or_default_def
        parse_element_inner_def scalar_lookup read_text_def decode_pwsh_escapes_plain depth
        map_sum_Inr_iff)
qed

fun insert_members :: "ps_object \<Rightarrow> member list \<Rightarrow> ps_object" where
  "insert_members obj [] = obj"
| "insert_members obj (m # ms) =
     (case member_of m of
        Inr (name, v) \<Rightarrow> insert_members (object_insert name v obj) ms
      | Inl e \<Rightarrow> obj)"

definition good_members :: "member list \<Rightarrow> bool" where
  "good_members ms \<longleftrightarrow> (\<forall>m\<in>set ms. member_plain m \<and> (\<exists>nv. member_of m = Inr nv))"

lemma member_set_members:
  assumes "good_members ms" "depth st < MAX_NESTING_DEPTH" "length ms < f"
  shows "parse_member_set (parse_element U F (Suc l)) f obj (lit ''MS'')
      (concat (map member_events ms) @ XEnd (lit ''MS'') # evs) st
    = Done (insert_members obj ms, evs, st)"
  using assms
proof (induction ms arbitrary: f obj)
  case Nil
  then show ?case by (cases f) auto
next
  case (Cons m ms)
  then obtain g where f: "f = Suc g" by (cases f) auto
  from Cons.prems(1) obtain name v where m: "member_of m = Inr (name, v)" "member_plain m" "good_members ms"
    by (auto simp: good_members_def)
  show ?case
    using Cons.IH [OF m(3) Cons.prems(2), of g] Cons.prems(3) m(1)
    by (simp add: f member_set_step [OF m(2,1) Cons.prems(2)] del: parse_element.simps)
qed

text \<open>A document of one object.\<close>

definition document :: "member list \<Rightarrow> events" where
  "document ms = XStart (lit ''Obj'') [] # XStart (lit ''MS'') [] #
     concat (map member_events ms) @ [XEnd (lit ''MS''), XEnd (lit ''Obj'')]"

lemma length_members: "length ms \<le> length (concat (map member_events ms))"
proof (induction ms)
  case (Cons m ms)
  then show ?case by (cases m) auto
qed simp

lemma values_of_document:
  assumes "good_members ms" "ms \<noteq> []"
  shows "values_of (scripted_codec (document ms)) t = Inr [PsObject (insert_members object_new ms)]"
proof -
  let ?evs = "concat (map member_events ms) @ [XEnd (lit ''MS''), XEnd (lit ''Obj'')]"
  have inner: "parse_element rfc_uuid bits_float 64 (lit ''Obj'') [] (XStart (lit ''MS'') [] # ?evs) st
      = Done (Some (PsObject (insert_members object_new ms)), [], st)" if "depth st = 0" for st
  proof -
    have d: "depth (st\<lparr>depth := 1\<rparr>) < MAX_NESTING_DEPTH" by (simp add: MAX_NESTING_DEPTH_def)
    have "length ms < length ?evs + 1" using length_members [of ms] by simp
    note set_ok = member_set_members [OF assms(1) d this, of rfc_uuid bits_float 62 object_new "[XEnd (lit ''Obj'')]"]
    have st: "st\<lparr>depth := 0\<rparr> = st" using that by (cases st) simp
    show ?thesis
      using that set_ok
      by (simp add: parse_element.simps(2) [of rfc_uuid bits_float 63, simplified] MAX_NESTING_DEPTH_def
          parse_element_inner_def scalar_lookup ref_id_attr_def attr_value_def expose_embedded_def
          keep_ref_def st)
  qed
  have "depth (initial_state n evs) = 0" for n evs by (simp add: initial_state_def)
  from inner [OF this] show ?thesis
    by (simp add: values_of_def parse_clixml_def parse_clixml_dec_def document_def MAX_NESTING_DEPTH_def
        Let_def)
qed

end
