(* ===== verification/Pool_Properties.thy ===== *)
theory Pool_Properties
  imports Pool_Laws Documents
begin

text \<open>
  What the runspace pool promises: unique object ids, secure strings only as ciphertext, host calls
  answered once, what a reply to the key exchange does, and the life cycle.
\<close>

section \<open>A second traffic invariant\<close>

text \<open>Without a condition on the messages, for the object ids alone.\<close>

interpretation any: pool_traffic "mock_env K H C gen" "\<lambda>_ _. True" "\<lambda>_. True" "\<lambda>_. True"
    "\<lambda>t n k. numbered (uuids K) (\<lambda>_. True) (outbox t) n"
  for K H C gen
proof (unfold_locales, goal_cases)
  case (1 t n k n' msg t' r)
  then show ?case by (auto intro: numbered_sent dest: mock_send_outbox)
next
  case (2 t n k n' msg pid t' r)
  then show ?case by (auto intro: numbered_sent dest: mock_send_pipeline_outbox)
next
  case (3 t n k n' msg pid t' r)
  then show ?case by (auto intro: numbered_sent dest: mock_send_outbox)
next
  case (4 t n k t' rb)
  then show ?case by (auto simp: mock_recv_def split: option.splits list.splits)
next
  case (5 t n k t' r)
  then show ?case by (auto simp: mock_close_def)
qed auto

lemma numbered_Nil [simp]: "numbered U Q [] n"
  unfolding numbered_def by (rule exI [of _ "[]"]) simp

lemma sorted_wrt_distinct:
  assumes "sorted_wrt (\<lambda>a b. unat (fst a) < unat (fst b)) xs"
  shows "distinct (map fst xs)"
  using assms by (induction xs) (auto simp: image_iff)

section \<open>Object ids\<close>

text \<open>
  C15: fragment object ids are unique in the life of a pool, from its opening or reconnection on (which
  are not among the calls considered): whatever is called on it and whatever the server sends, the byte strings handed to the transport are whole messages under object ids
  that strictly increase, below the counter of the next one, which never wraps.
\<close>

theorem object_ids_increase:
  assumes "pool_reaches (mock_env K H C gen) (\<lambda>_. True) (\<lambda>_. True) p0 p" "outbox (link p0) = []"
  shows "\<exists>sent. outbox (link p) = map (\<lambda>(i, msg). encode_message i (msg_encode (uuids K) msg)) sent
    \<and> sorted_wrt (\<lambda>a b. unat (fst a) < unat (fst b)) sent \<and> distinct (map fst sent)
    \<and> (\<forall>s\<in>set sent. unat (fst s) < unat (next_object_id p))"
proof -
  have "numbered (uuids K) (\<lambda>_. True) (outbox (link p)) (next_object_id p)"
    using any.reaches_I [of K H C gen p0 p] assms unfolding any.I_def by simp
  then show ?thesis
    unfolding numbered_def using sorted_wrt_distinct by (elim exE conjE) (intro exI conjI; force)
qed

text \<open>A pool on the mock for examples: no host interaction, keys that decrypt nothing.\<close>

definition sample_env :: "events \<Rightarrow> (mock, unit) pool_env" where
  "sample_env evs = mock_env (scripted_codec evs) no_interaction_host shift_cipher (\<lambda>_. Inr broken_key)"

definition sample_pool :: "bytes list \<Rightarrow> (mock, unit) pool" where
  "sample_pool cs = fresh_pool (mock_new cs) ()
     \<lparr>mach_state = Opened, mach_rpid = 7, min_runspaces = 1, max_runspaces = 1\<rparr> 1 None"

theorem object_ids_increase_witness:
  "\<exists>sent. outbox (link (fst (send_pipeline_message (sample_env []) PipelineInput 5 [65] (sample_pool []))))
      = map (\<lambda>(i, msg). encode_message i (msg_encode rfc_uuid msg)) sent \<and> distinct (map fst sent)
    \<and> length sent = 1"
proof -
  let ?p = "fst (send_pipeline_message (sample_env []) PipelineInput 5 [65] (sample_pool []))"
  have "pool_reaches (sample_env []) (\<lambda>_. True) (\<lambda>_. True) (sample_pool []) ?p"
    by (rule pool_more [OF pool_refl step_send [OF surjective_pairing]]) simp
  then obtain sent where "outbox (link ?p) = map (\<lambda>(i, msg). encode_message i (msg_encode rfc_uuid msg)) sent"
    "distinct (map fst sent)"
    using object_ids_increase [of "scripted_codec []" no_interaction_host shift_cipher
        "\<lambda>_. Inr broken_key" "sample_pool []" ?p]
    unfolding sample_env_def by (auto simp: sample_pool_def fresh_pool_def mock_new_def)
  moreover have "length (outbox (link ?p)) = 1"
    by (simp add: send_pipeline_message_def post_def take_object_id_def checked_add_u64_def
        sample_env_def sample_pool_def fresh_pool_def mock_send_pipeline_def mock_send_def mock_new_def Let_def)
  ultimately show ?thesis by (metis length_map)
qed

section \<open>Secure strings\<close>

lemma pool_reaches_weaken:
  assumes "pool_reaches E Q keys a b" "\<And>x. Q x \<Longrightarrow> R x"
  shows "pool_reaches E R keys a b"
  using assms(1)
proof (induction rule: pool_reaches.induct)
  case (pool_more p' p'')
  from pool_more.hyps(2) have "pool_step E R keys p' p''"
    by (cases rule: pool_step.cases) (use assms(2) in \<open>auto intro: pool_step.intros\<close>)
  with pool_more show ?case by (auto intro: pool_reaches.pool_more)
qed (rule pool_refl)

text \<open>
  C16: a secure string the host returned never leaves in clear, but under the session key in force.
  As long as the caller sends no host responses of its own, whatever the server asks and in whatever order
  keys and calls arrive, what was handed to the transport has a history: every host response in it carries
  only an error text, or a value whose secure strings are all base64 of ciphertexts under the key that was in
  force when it was sent, and none at all when there was no key.  The key in force is the one the pool began
  with or the last one set since, which either the caller set or the server sent encrypted for a client key
  of the pool, and at the end it is the pool's session key.
\<close>

theorem secure_strings_never_in_clear:
  assumes "pool_reaches (mock_env K H C gen) (\<lambda>msg. \<not> is_host_response (msg_type msg)) keys p0 p"
    and "outbox (link p0) = []"
  shows "\<exists>evs. outbox (link p) = sent_bytes (uuids K) evs
    \<and> session_key p = key_in_force (session_key p0) evs
    \<and> answers_sealed K C (session_key p0) evs
    \<and> list_all (\<lambda>k. keys k \<or> agreed (\<lambda>ck. pending_client_key p0 = Some ck \<or> (\<exists>i. gen i = Inr ck)) k)
        (keys_set evs)"
proof -
  let ?mine = "\<lambda>ck. pending_client_key p0 = Some ck \<or> (\<exists>i. gen i = Inr ck)"
  have "pool_reaches (mock_env K H C gen) (\<lambda>m. \<forall>k. answer_ok K C k m) keys p0 p"
    using assms(1) by (rule pool_reaches_weaken) (simp add: answer_ok_def)
  moreover have "accounted K C keys ?mine (session_key p0) (outbox (link p0)) (session_key p0)"
    unfolding accounted_def using assms(2) by (intro exI [of _ "[]"]) simp
  ultimately have "accounted K C keys ?mine (session_key p0) (outbox (link p)) (session_key p)"
    using mock.reaches_I [of K H C gen keys p0 p "pending_client_key p0" "session_key p0"]
    unfolding mock.I_def by blast
  then show ?thesis unfolding accounted_def .
qed

text \<open>A parked password, for which the key has come.\<close>

definition keyed_pool :: "(mock, unit) pool" where
  "keyed_pool = (sample_pool [])\<lparr>session_key := Some (replicate 32 1), deferred_host_responses :=
     [\<lparr>dr_type = PipelineHostResponse, dr_pid = 5, dr_ci = 1, dr_mi = 52, dr_value = PsSecureString [80]\<rparr>]\<rparr>"

lemma keyed_pool_flush:
  "outbox (link (fst (next_message (sample_env []) 1 keyed_pool)))
    = [encode_message 1 (msg_encode rfc_uuid (to_server PipelineHostResponse 7 5
        (build_host_response_body (scripted_codec []) 1 52
          (encrypt_secure_strings shift_cipher (replicate 32 1) (PsSecureString [80])))))]"
  by (simp add: flush_if_keyed_def flush_deferred_host_responses_def keyed_pool_def sample_env_def
      sample_pool_def fresh_pool_def send_pipeline_message_def post_def take_object_id_def
      checked_add_u64_def mock_send_pipeline_def mock_send_def mock_new_def Let_def read_chunk_def
      mock_recv_def pool_rpid_def)

lemma decrypt_broken_key: "decrypt_session_key broken_key bs \<noteq> Inr k"
  by (simp add: decrypt_session_key_def broken_key_def split: option.split)

text \<open>No key is ever agreed there, so that the answer can only be sealed under the pool's own key.\<close>

theorem secure_strings_never_in_clear_witness:
  "\<exists>evs. sent_bytes rfc_uuid evs = [encode_message 1 (msg_encode rfc_uuid (to_server PipelineHostResponse 7 5
        (build_host_response_body (scripted_codec []) 1 52
          (encrypt_secure_strings shift_cipher (replicate 32 1) (PsSecureString [80])))))]
     \<and> answers_sealed (scripted_codec []) shift_cipher (Some (replicate 32 1)) evs \<and> keys_set evs = []"
proof -
  let ?p = "fst (next_message (sample_env []) 1 keyed_pool)"
  have "pool_reaches (sample_env []) (\<lambda>msg. \<not> is_host_response (msg_type msg)) (\<lambda>_. False) keyed_pool ?p"
    by (rule pool_more [OF pool_refl step_next [OF surjective_pairing]])
  moreover have start: "outbox (link keyed_pool) = []" "pending_client_key keyed_pool = None"
    "session_key keyed_pool = Some (replicate 32 1)"
    by (simp_all add: keyed_pool_def sample_pool_def fresh_pool_def mock_new_def)
  moreover have "\<not> agreed (\<lambda>ck. \<exists>i. (Inr broken_key :: client_key res) = Inr ck) k" for k
    by (auto simp: agreed_def decrypt_broken_key)
  then have "list_all (\<lambda>k. agreed (\<lambda>ck. \<exists>i. (Inr broken_key :: client_key res) = Inr ck) k) ks \<Longrightarrow> ks = []" for ks
    by (cases ks) auto
  ultimately show ?thesis
    using secure_strings_never_in_clear [of "scripted_codec []" no_interaction_host shift_cipher
        "\<lambda>_. Inr broken_key" "\<lambda>_. False" keyed_pool ?p] keyed_pool_flush
    by (auto simp: sample_env_def)
qed

section \<open>Host calls\<close>

text \<open>
  What the mock records of one send: nothing when it fails, else the message under the next id.
\<close>

lemma post_outbox:
  assumes "post E call msg p = (p', r)" "unat (next_object_id p) < 2 ^ 64 - 1"
    "call = mock_send \<or> call = (\<lambda>bs. mock_send_pipeline bs pid)" "\<not> fail_send (link p)"
  shows "r = Inr () \<and> \<not> fail_send (link p') \<and> next_object_id p' = next_object_id p + 1
    \<and> outbox (link p') = outbox (link p)
        @ [encode_message (next_object_id p) (msg_encode (uuids (codec E)) msg)]
    \<and> deferred_host_responses p' = deferred_host_responses p
    \<and> session_key p' = session_key p \<and> pending_client_key p' = pending_client_key p
    \<and> pool_machine p' = pool_machine p \<and> pending_messages p' = pending_messages p
    \<and> reasm p' = reasm p \<and> inbox (link p') = inbox (link p)"
  using assms
  by (auto simp: post_def take_object_id_def checked_add_u64_def Let_def mock_send_def
      mock_send_pipeline_def split: if_splits prod.splits)

lemma send_pipeline_outbox:
  assumes "send_pipeline_message (mock_env K H C gen) mt pid body p = (p', r)"
    "unat (next_object_id p) < 2 ^ 64 - 1" "\<not> fail_send (link p)"
  shows "r = Inr () \<and> \<not> fail_send (link p') \<and> next_object_id p' = next_object_id p + 1
    \<and> outbox (link p') = outbox (link p) @ [encode_message (next_object_id p)
        (msg_encode (uuids K) (to_server mt (pool_rpid p) pid body))]
    \<and> deferred_host_responses p' = deferred_host_responses p
    \<and> session_key p' = session_key p \<and> pending_client_key p' = pending_client_key p
    \<and> pool_machine p' = pool_machine p \<and> pending_messages p' = pending_messages p
    \<and> reasm p' = reasm p \<and> inbox (link p') = inbox (link p)"
proof (cases "mt = CreatePipeline")
  case True
  then show ?thesis
    using post_outbox [of "mock_env K H C gen" mock_send _ p p' r pid] assms
    by (simp add: send_pipeline_message_def)
next
  case False
  then show ?thesis
    using post_outbox [of "mock_env K H C gen" "\<lambda>bs. mock_send_pipeline bs pid" _ p p' r pid] assms
    by (simp add: send_pipeline_message_def)
qed

lemma send_psrp_outbox:
  assumes "send_psrp_message (mock_env K H C gen) mt body p = (p', r)"
    "unat (next_object_id p) < 2 ^ 64 - 1" "\<not> fail_send (link p)"
  shows "r = Inr () \<and> \<not> fail_send (link p') \<and> next_object_id p' = next_object_id p + 1
    \<and> outbox (link p') = outbox (link p) @ [encode_message (next_object_id p)
        (msg_encode (uuids K) (to_server mt (pool_rpid p) nil_uuid body))]
    \<and> deferred_host_responses p' = deferred_host_responses p
    \<and> session_key p' = session_key p \<and> pending_client_key p' = pending_client_key p
    \<and> pool_machine p' = pool_machine p \<and> pending_messages p' = pending_messages p
    \<and> reasm p' = reasm p \<and> inbox (link p') = inbox (link p)"
  using post_outbox [of "mock_env K H C gen" mock_send _ p p' r] assms
  by (simp add: send_psrp_message_def)

text \<open>The wire form of a response of the pool \<open>p\<close> to a host call, under the next object id.\<close>

definition response_bytes :: "codec_env \<Rightarrow> ('t, 'h) pool \<Rightarrow> message_type \<Rightarrow> uuid \<Rightarrow> ustr \<Rightarrow> bytes" where
  "response_bytes K p mt pid body =
     encode_message (next_object_id p) (msg_encode (uuids K) (to_server mt (pool_rpid p) pid body))"

lemma start_unless_outbox:
  assumes "start_exchange_unless_pending (mock_env K H C gen) p = (p', r)"
    "unat (next_object_id p) < 2 ^ 64 - 1" "\<not> fail_send (link p)"
  shows "(r = Inr () \<and> deferred_host_responses p' = deferred_host_responses p
      \<and> pending_client_key p' \<noteq> None
      \<and> (outbox (link p') = outbox (link p)
         \<or> (\<exists>body. outbox (link p') = outbox (link p) @ [response_bytes K p PublicKey nil_uuid body])))
    \<or> (\<exists>e. gen (keys_made p) = Inl e \<and> r = Inl e \<and> outbox (link p') = outbox (link p)
         \<and> deferred_host_responses p' = deferred_host_responses p)"
proof (cases "pending_client_key p = None \<and> (\<exists>key. gen (keys_made p) = Inr key)")
  case True
  then obtain key where key: "gen (keys_made p) = Inr key" "pending_client_key p = None" by blast
  obtain p1 x where s: "send_psrp_message (mock_env K H C gen) PublicKey (clixml_of K (PsObject
      (object_with object_new (lit ''PublicKey'') (PsString (public_blob_base64 key)))))
      (p\<lparr>keys_made := Suc (keys_made p)\<rparr>) = (p1, x)" by fastforce
  from send_psrp_outbox [OF s] assms(2,3) show ?thesis
    using assms(1) key s
    by (auto simp: start_exchange_unless_pending_def fresh_key_def start_exchange_def
        response_bytes_def pool_rpid_def)
next
  case False
  then show ?thesis
    using assms(1) by (cases "gen (keys_made p)")
      (auto simp: start_exchange_unless_pending_def fresh_key_def split: if_splits)
qed

lemma response_type_not_create: "response_type_of mt \<noteq> CreatePipeline"
  by (simp add: response_type_of_def)

lemma answer_once:
  assumes "answer_host_call (mock_env K H C gen) msg ci mi v p = (p', r)"
    "unat (next_object_id p) < 2 ^ 64 - 1" "\<not> fail_send (link p)"
  defines "rt \<equiv> response_type_of (msg_type msg)"
  shows "(r = Inr () \<and> deferred_host_responses p' = deferred_host_responses p
      \<and> (\<exists>w. outbox (link p') = outbox (link p)
             @ [response_bytes K p rt (msg_pid msg) (build_host_response_body K ci mi w)]
           \<and> (w = v \<and> \<not> contains_secure_string v
              \<or> (\<exists>key. session_key p = Some key \<and> w = encrypt_secure_strings C key v))))
    \<or> (r = Inr () \<and> contains_secure_string v \<and> session_key p = None
      \<and> deferred_host_responses p' = deferred_host_responses p
          @ [\<lparr>dr_type = rt, dr_pid = msg_pid msg, dr_ci = ci, dr_mi = mi, dr_value = v\<rparr>]
      \<and> (outbox (link p') = outbox (link p)
         \<or> (\<exists>body. outbox (link p') = outbox (link p) @ [response_bytes K p PublicKey nil_uuid body])))
    \<or> (\<exists>e. gen (keys_made p) = Inl e \<and> r = Inl e \<and> outbox (link p') = outbox (link p))"
proof (cases "contains_secure_string v")
  case False
  with assms(1) have "send_pipeline_message (mock_env K H C gen) rt (msg_pid msg)
      (build_host_response_body K ci mi v) p = (p', r)"
    by (simp add: answer_host_call_def rt_def)
  from send_pipeline_outbox [OF this assms(2,3)] False show ?thesis
    by (auto simp: response_bytes_def)
next
  case True
  show ?thesis
  proof (cases "session_key p")
    case (Some key)
    with assms(1) True have "send_pipeline_message (mock_env K H C gen) rt (msg_pid msg)
        (build_host_response_body K ci mi (encrypt_secure_strings C key v)) p = (p', r)"
      by (simp add: answer_host_call_def rt_def)
    from send_pipeline_outbox [OF this assms(2,3)] Some show ?thesis
      by (auto simp: response_bytes_def)
  next
    case None
    obtain p1 x where s: "start_exchange_unless_pending (mock_env K H C gen) p = (p1, x)" by fastforce
    from start_unless_outbox [OF s assms(2,3)] show ?thesis
      using assms(1) True None s
      by (fastforce simp: answer_host_call_def ensure_key_exchange_started_def rt_def)
  qed
qed

text \<open>
  A host call the pool can read is answered exactly once, under its own call id, method id and
  pipeline.  A write method is answered with nothing; every other call either adds one response to
  what is sent (the host's error, or its value, encrypted under the session key when it holds a
  secure string), or, when there is no key yet, is parked with all that identifies it while at most
  a public key is sent.  Only a failed key generation leaves it unanswered, and is reported.
\<close>

lemma host_call_answered_once:
  assumes "parse_host_call K (msg_data msg) = Inr c"
    and "handle_host_call (mock_env K H C gen) msg p = (p', r)"
    and "unat (next_object_id p) < 2 ^ 64 - 1" "\<not> fail_send (link p)"
  shows "(is_void (host_method_from_i64 (hc_mi c)) \<and> r = Inr ()
        \<and> outbox (link p') = outbox (link p)
        \<and> deferred_host_responses p' = deferred_host_responses p)
    \<or> (\<not> is_void (host_method_from_i64 (hc_mi c)) \<and> r = Inr ()
        \<and> deferred_host_responses p' = deferred_host_responses p
        \<and> (\<exists>body. outbox (link p') = outbox (link p)
              @ [response_bytes K p (response_type_of (msg_type msg)) (msg_pid msg) body]
            \<and> ((\<exists>text. body = build_host_response_error_body K (hc_ci c) (hc_mi c) text)
               \<or> (\<exists>v. body = build_host_response_body K (hc_ci c) (hc_mi c) v
                    \<and> (\<not> contains_secure_string v
                       \<or> (\<exists>key w. session_key p = Some key \<and> v = encrypt_secure_strings C key w))))))
    \<or> (\<not> is_void (host_method_from_i64 (hc_mi c)) \<and> r = Inr () \<and> session_key p = None
        \<and> (\<exists>v. contains_secure_string v \<and> deferred_host_responses p' = deferred_host_responses p
              @ [\<lparr>dr_type = response_type_of (msg_type msg), dr_pid = msg_pid msg, dr_ci = hc_ci c,
                  dr_mi = hc_mi c, dr_value = v\<rparr>])
        \<and> (outbox (link p') = outbox (link p)
           \<or> (\<exists>body. outbox (link p') = outbox (link p) @ [response_bytes K p PublicKey nil_uuid body])))
    \<or> (\<exists>e. gen (keys_made p) = Inl e \<and> r = Inl e \<and> outbox (link p') = outbox (link p))"
proof -
  let ?mi = "host_method_from_i64 (hc_mi c)"
  obtain h x where d: "dispatch_host_call H ?mi (hc_mp c) (host_state p) = (h, x)" by fastforce
  have void: "x = Inr None \<longleftrightarrow> is_void ?mi" using dispatch_answers [of H ?mi "hc_mp c" "host_state p"] d by simp
  let ?p = "p\<lparr>host_state := h\<rparr>"
  have rb: "response_bytes K ?p = response_bytes K p" by (simp add: response_bytes_def pool_rpid_def fun_eq_iff)
  consider (none) "x = Inr None" | (val) v where "x = Inr (Some v)" | (err) e where "x = Inl e"
    by (metis not_None_eq sum.exhaust)
  then show ?thesis
  proof cases
    case none
    then show ?thesis using assms(1,2) d void by (auto simp: handle_host_call_def)
  next
    case (val v)
    with assms(1,2) d have "answer_host_call (mock_env K H C gen) msg (hc_ci c) (hc_mi c) v ?p = (p', r)"
      by (simp add: handle_host_call_def)
    from answer_once [OF this] assms(3,4) have
      "(r = Inr () \<and> deferred_host_responses p' = deferred_host_responses p
      \<and> (\<exists>w. outbox (link p') = outbox (link p)
             @ [response_bytes K p (response_type_of (msg_type msg)) (msg_pid msg)
                  (build_host_response_body K (hc_ci c) (hc_mi c) w)]
           \<and> (w = v \<and> \<not> contains_secure_string v
              \<or> (\<exists>key. session_key p = Some key \<and> w = encrypt_secure_strings C key v))))
      \<or> (r = Inr () \<and> contains_secure_string v \<and> session_key p = None
      \<and> deferred_host_responses p' = deferred_host_responses p
          @ [\<lparr>dr_type = response_type_of (msg_type msg), dr_pid = msg_pid msg, dr_ci = hc_ci c,
              dr_mi = hc_mi c, dr_value = v\<rparr>]
      \<and> (outbox (link p') = outbox (link p)
         \<or> (\<exists>body. outbox (link p') = outbox (link p) @ [response_bytes K p PublicKey nil_uuid body])))
      \<or> (\<exists>e. gen (keys_made p) = Inl e \<and> r = Inl e \<and> outbox (link p') = outbox (link p))"
      by (simp add: rb)
    moreover have "\<not> is_void ?mi" using void val by simp
    ultimately show ?thesis by blast
  next
    case (err e)
    with assms(1,2) d have "send_pipeline_message (mock_env K H C gen)
        (response_type_of (msg_type msg)) (msg_pid msg)
        (build_host_response_error_body K (hc_ci c) (hc_mi c) (display winrm_display e)) ?p = (p', r)"
      by (simp add: handle_host_call_def)
    from send_pipeline_outbox [OF this] assms(3,4) void err show ?thesis
      by (auto simp: response_bytes_def pool_rpid_def)
  qed
qed

definition read_line_call :: psrp_message where
  "read_line_call = \<lparr>msg_destination = Client, msg_type = PipelineHostCall, msg_rpid = 7, msg_pid = 5,
     msg_data = []\<rparr>"

definition read_line_members :: "member list" where
  "read_line_members = [MemI64 (lit ''ci'') (lit ''1''), MemI32 (lit ''mi'') (lit ''51'')]"

lemma small_numbers:
  "parse_int_text (- 9223372036854775808) 9223372036854775807 c (lit ''1'') = Inr 1"
  "parse_int_text (- 2147483648) 2147483647 c (lit ''51'') = Inr 51"
  "parse_int_text (- 2147483648) 2147483647 c (lit ''2'') = Inr 2"
  "parse_int_text (- 2147483648) 2147483647 c (lit ''4'') = Inr 4"
  by (simp_all add: parse_int_text_def from_str_radix_def trim_def trim_start_def is_whitespace_def
      lit_def to_digit_def)

lemma parse_read_line_call:
  "parse_host_call (scripted_codec (document read_line_members)) t = Inr \<lparr>hc_ci = 1, hc_mi = 51, hc_mp = []\<rparr>"
proof -
  have "good_members read_line_members"
    by (simp add: good_members_def read_line_members_def small_numbers)
  moreover have "insert_members object_new read_line_members
      = Ps_Object [(lit ''ci'', PsI64 1), (lit ''mi'', PsI32 51)] [] None"
    by (simp add: read_line_members_def small_numbers object_insert_def object_with_def object_new_def)
  moreover have ne: "read_line_members \<noteq> []" by (simp add: read_line_members_def)
  ultimately show ?thesis
    by (simp add: parse_host_call_def values_of_document ne object_get_def plain_of_def widest_def call_params_def i64_of_def)
qed

lemma host_call_answered_once_witness:
  "1 \<le> length (outbox (link (fst (handle_host_call (sample_env (document read_line_members))
          read_line_call (sample_pool [])))))
    + length (deferred_host_responses (fst (handle_host_call (sample_env (document read_line_members))
          read_line_call (sample_pool []))))"
proof -
  let ?E = "sample_env (document read_line_members)"
  obtain p' r where h: "handle_host_call ?E read_line_call (sample_pool []) = (p', r)" by fastforce
  from host_call_answered_once [OF parse_read_line_call h [unfolded sample_env_def]]
  show ?thesis
    unfolding h
    by (auto simp: sample_pool_def fresh_pool_def mock_new_def is_void_def host_method_from_i64_def)
qed

section \<open>The reply to the key exchange\<close>

text \<open>The answers to the parked calls \<open>ds\<close>, one message each, under consecutive object ids.\<close>

fun answers_from :: "uuid_api \<Rightarrow> uuid \<Rightarrow> (deferred_response \<Rightarrow> ustr) \<Rightarrow> u64 \<Rightarrow> deferred_response list \<Rightarrow> bytes list" where
  "answers_from U rpid body n [] = []"
| "answers_from U rpid body n (d # ds) =
     encode_message n (msg_encode U (to_server (dr_type d) rpid (dr_pid d) (body d)))
     # answers_from U rpid body (n + 1) ds"

lemma next_id_room:
  assumes "unat n + Suc k < 2 ^ 64"
  shows "unat (n :: u64) < 2 ^ 64 - 1" "unat (n + 1) + k < 2 ^ 64"
proof -
  show "unat n < 2 ^ 64 - 1" using assms by simp
  have "unat (n + 1) = unat n + 1" using assms by (subst unat_add_lem [THEN iffD1]) auto
  then show "unat (n + 1) + k < 2 ^ 64" using assms by simp
qed

lemma flush_loop_outbox:
  assumes "flush_loop (mock_env K H C gen) key ds p = (p', r)" "\<not> fail_send (link p)"
    "unat (next_object_id p) + length ds < 2 ^ 64"
  shows "r = Inr () \<and> session_key p' = session_key p \<and> pending_client_key p' = pending_client_key p
    \<and> (ds \<noteq> [] \<longrightarrow> deferred_host_responses p' = [])
    \<and> (ds = [] \<longrightarrow> p' = p)
    \<and> outbox (link p') = outbox (link p) @ answers_from (uuids K) (pool_rpid p)
        (\<lambda>d. build_host_response_body K (dr_ci d) (dr_mi d) (encrypt_secure_strings C key (dr_value d)))
        (next_object_id p) ds"
  using assms
proof (induction ds arbitrary: p)
  case (Cons d ds)
  let ?E = "mock_env K H C gen"
  obtain p1 x where s: "send_pipeline_message ?E (dr_type d) (dr_pid d)
      (build_host_response_body K (dr_ci d) (dr_mi d) (encrypt_secure_strings C key (dr_value d))) p
      = (p1, x)" by fastforce
  have room: "unat (next_object_id p) < 2 ^ 64 - 1" "unat (next_object_id p + 1) + length ds < 2 ^ 64"
    using Cons.prems(3) next_id_room [of "next_object_id p" "length ds"] by simp_all
  note p1 = send_pipeline_outbox [OF s room(1) Cons.prems(2)]
  let ?p = "p1\<lparr>deferred_host_responses := ds\<rparr>"
  have "flush_loop ?E key ds ?p = (p', r)" using Cons.prems(1) s p1 by simp
  from Cons.IH [OF this] p1 room(2) show ?case by (cases ds) (auto simp: pool_rpid_def)
qed simp

lemma fail_loop_outbox:
  assumes "\<not> fail_send (link p)" "unat (next_object_id p) + length ds < 2 ^ 64"
  shows "session_key (fail_loop (mock_env K H C gen) text ds p) = session_key p
    \<and> pending_client_key (fail_loop (mock_env K H C gen) text ds p) = pending_client_key p
    \<and> deferred_host_responses (fail_loop (mock_env K H C gen) text ds p) = deferred_host_responses p
    \<and> outbox (link (fail_loop (mock_env K H C gen) text ds p)) = outbox (link p)
      @ answers_from (uuids K) (pool_rpid p)
          (\<lambda>d. build_host_response_error_body K (dr_ci d) (dr_mi d) text) (next_object_id p) ds"
  using assms
proof (induction ds arbitrary: p)
  case (Cons d ds)
  let ?E = "mock_env K H C gen"
  obtain p1 x where s: "send_pipeline_message ?E (dr_type d) (dr_pid d)
      (build_host_response_error_body K (dr_ci d) (dr_mi d) text) p = (p1, x)" by fastforce
  have room: "unat (next_object_id p) < 2 ^ 64 - 1" "unat (next_object_id p + 1) + length ds < 2 ^ 64"
    using Cons.prems(2) next_id_room [of "next_object_id p" "length ds"] by simp_all
  note p1 = send_pipeline_outbox [OF s room(1) Cons.prems(1)]
  from Cons.IH [of p1] p1 room(2) s show ?case by (simp add: pool_rpid_def)
qed simp

text \<open>
  The server's reply to a key exchange settles every parked host call, in order, and uses the
  key pair up.  A usable reply installs the key and sends each parked answer encrypted under it; an
  unusable one leaves the old key as it is, answers each parked call with an error, and is
  reported.  Nothing stays parked.
\<close>

lemma key_reply_settles_parked_calls:
  assumes "accept_encrypted_session_key (mock_env K H C gen) msg p = (p', r)"
    and "pending_client_key p = Some key" "\<not> fail_send (link p)"
    and "unat (next_object_id p) + length (deferred_host_responses p) < 2 ^ 64"
  shows "pending_client_key p' = None \<and> deferred_host_responses p' = []
    \<and> (case read_session_key K msg key of
        Inl e \<Rightarrow> r = Inl e \<and> session_key p' = session_key p
          \<and> (\<exists>text. outbox (link p') = outbox (link p) @ answers_from (uuids K) (pool_rpid p)
               (\<lambda>d. build_host_response_error_body K (dr_ci d) (dr_mi d) text)
               (next_object_id p) (deferred_host_responses p))
      | Inr raw \<Rightarrow> r = Inr () \<and> session_key p' = Some raw
          \<and> outbox (link p') = outbox (link p) @ answers_from (uuids K) (pool_rpid p)
               (\<lambda>d. build_host_response_body K (dr_ci d) (dr_mi d)
                  (encrypt_secure_strings C raw (dr_value d)))
               (next_object_id p) (deferred_host_responses p))"
proof (cases "read_session_key K msg key")
  case (Inl e)
  let ?p = "p\<lparr>pending_client_key := None, deferred_host_responses := []\<rparr>"
  have "p' = fail_loop (mock_env K H C gen) (lit ''the SecureString could not be sent: ''
      @ display winrm_display e) (deferred_host_responses p) ?p" "r = Inl e"
    using assms(1,2) Inl
    by (auto simp: accept_encrypted_session_key_def take_session_key_def fail_deferred_host_responses_def)
  moreover note fail_loop_outbox [of ?p "deferred_host_responses p" K H C gen
      "lit ''the SecureString could not be sent: '' @ display winrm_display e"]
  ultimately show ?thesis using assms(3,4) Inl by (auto simp: pool_rpid_def)
next
  case (Inr raw)
  let ?p = "p\<lparr>pending_client_key := None, session_key := Some raw\<rparr>"
  have "flush_loop (mock_env K H C gen) raw (deferred_host_responses p) ?p = (p', r)"
    using assms(1,2) Inr
    by (simp add: accept_encrypted_session_key_def take_session_key_def flush_deferred_host_responses_def)
  from flush_loop_outbox [OF this] assms(3,4) Inr show ?thesis
    by (cases "deferred_host_responses p = []") (auto simp: pool_rpid_def)
qed

text \<open>A pool waiting for the key, with a password parked, whose server answers nonsense.\<close>

definition waiting_pool :: "(mock, unit) pool" where
  "waiting_pool = keyed_pool\<lparr>session_key := None, pending_client_key := Some broken_key\<rparr>"

lemma key_reply_settles_parked_calls_witness:
  "deferred_host_responses (fst (accept_encrypted_session_key (sample_env []) read_line_call waiting_pool)) = []
    \<and> length (outbox (link (fst (accept_encrypted_session_key (sample_env []) read_line_call waiting_pool)))) = 1"
proof -
  obtain p' r where a: "accept_encrypted_session_key (sample_env []) read_line_call waiting_pool = (p', r)"
    by fastforce
  have "\<not> fail_send (link waiting_pool)" "pending_client_key waiting_pool = Some broken_key"
    "outbox (link waiting_pool) = []" "length (deferred_host_responses waiting_pool) = 1"
    "unat (next_object_id waiting_pool) = 1"
    by (simp_all add: waiting_pool_def keyed_pool_def sample_pool_def fresh_pool_def mock_new_def)
  moreover have "length (answers_from U q body n ds) = length ds" for U q body n ds
    by (induction ds arbitrary: n) auto
  ultimately show ?thesis
    using key_reply_settles_parked_calls [OF a [unfolded sample_env_def]] a
    by (auto split: sum.splits)
qed

end
