(* ===== verification/Message_Order.thy ===== *)
theory Message_Order
  imports Pool_Laws Documents
begin

text \<open>
  From bytes to messages: what \<open>next_message\<close> hands on when the transport delivers the fragments of
  messages that are for the caller.
\<close>

section \<open>Messages for the caller\<close>

text \<open>The messages the pump hands on without doing anything itself.\<close>

definition quiet :: "psrp_message \<Rightarrow> bool" where
  "quiet msg \<longleftrightarrow> msg_type msg \<notin> {RunspacePoolHostCall, PipelineHostCall, EncryptedSessionKey, PublicKeyRequest}"

text \<open>What a caller gets who asks \<open>n\<close> times and stops at the first failure.\<close>

fun ask :: "('t, 'h) pool_env \<Rightarrow> nat \<Rightarrow> nat \<Rightarrow> ('t, 'h) pool \<Rightarrow> psrp_message list" where
  "ask E f 0 p = []"
| "ask E f (Suc n) p =
     (case next_message E f p of
        (p', Some (Inr msg)) \<Rightarrow> msg # ask E f n p'
      | _ \<Rightarrow> [])"

section \<open>Delivery in order\<close>

text \<open>
  \<open>coming K p cs ms\<close>: the messages still to come out of the pool \<open>p\<close>, those buffered and those in the
  chunks \<open>cs\<close> that its transport is going to deliver, are \<open>ms\<close>, and there is no parked host response to send first.
\<close>

definition coming :: "codec_env \<Rightarrow> ('t, 'h) pool \<Rightarrow> bytes list \<Rightarrow> psrp_message list \<Rightarrow> bool" where
  "coming K p cs ms \<longleftrightarrow> (deferred_host_responses p = [] \<or> session_key p = None) \<and> [] \<notin> set cs
     \<and> (\<exists>r payloads later. feed_chunks (reasm p) cs = (r, Inr payloads)
          \<and> decode_all (uuids K) payloads = Inr later \<and> ms = rev (pending_messages p) @ later)"

lemma decode_all_append:
  "decode_all U (a @ b) = rbind (decode_all U a) (\<lambda>xs. rbind (decode_all U b) (\<lambda>ys. Inr (xs @ ys)))"
  by (induction a) (auto simp: rbind_def split: sum.splits)

lemma coming_flush: "coming K p cs ms \<Longrightarrow> flush_if_keyed E p = (p, Inr ())"
  by (auto simp: coming_def flush_if_keyed_def)

text \<open>A transport that holds chunks for its reader: what \<open>recv_chunk\<close> is relied on for.\<close>

locale chunk_source =
  fixes E :: "('t, 'h) pool_env" and holds :: "'t \<Rightarrow> bytes list \<Rightarrow> bool"
  assumes receives: "holds t (c # cs) \<Longrightarrow> \<exists>t'. recv_chunk (wire E) t = (t', Some (Inr c)) \<and> holds t' cs"
begin

lemma coming_buffered:
  assumes "coming (codec E) p cs (m # ms)" "quiet m" "pending_messages p \<noteq> []"
  shows "\<exists>p'. next_message E (Suc f) p = (p', Some (Inr m)) \<and> coming (codec E) p' cs ms \<and> link p' = link p"
proof -
  let ?p = "p\<lparr>pending_messages := butlast (pending_messages p)\<rparr>"
  obtain q x where pend: "pending_messages p = q @ [x]" using assms(3) by (metis rev_exhaust)
  with assms(1) have x: "x = m" by (auto simp: coming_def)
  then have "coming (codec E) ?p cs ms" using assms(1) pend by (auto simp: coming_def)
  moreover have "next_message E (Suc f) p = (?p, Some (Inr m))"
    using assms(2) pend x coming_flush [OF assms(1)] by (simp add: take_message_def quiet_def)
  ultimately show ?thesis by auto
qed

lemma coming_read:
  assumes "coming (codec E) p cs (m # ms)" "pending_messages p = []" "holds (link p) cs"
  shows "\<exists>c cs' p1. cs = c # cs' \<and> read_chunk E p = (p1, Some (Inr None)) \<and> coming (codec E) p1 cs' (m # ms)
    \<and> holds (link p1) cs'"
proof -
  obtain r payloads later where q: "feed_chunks (reasm p) cs = (r, Inr payloads)"
    "decode_all (uuids (codec E)) payloads = Inr later" "m # ms = later"
    using assms by (auto simp: coming_def)
  then obtain c cs' where cs: "cs = c # cs'" by (cases cs) auto
  then have c: "c \<noteq> []" "[] \<notin> set cs'" using assms(1) by (auto simp: coming_def)
  obtain t where t: "recv_chunk (wire E) (link p) = (t, Some (Inr c))" "holds t cs'"
    using receives assms(3) cs by blast
  obtain r1 xs ys where f: "feed (reasm p) c = (r1, Inr xs)" "feed_chunks r1 cs' = (r, Inr ys)"
    "payloads = xs @ ys"
    using q(1) cs by (auto simp: map_sum_Inr_iff split: prod.splits sum.splits)
  from q(2) f(3) obtain first rest where d: "decode_all (uuids (codec E)) xs = Inr first"
    "decode_all (uuids (codec E)) ys = Inr rest" "later = first @ rest"
    by (auto simp: decode_all_append rbind_Inr_iff)
  let ?p1 = "p\<lparr>link := t, reasm := r1, pending_messages := rev first\<rparr>"
  have "read_chunk E p = (?p1, Some (Inr None))"
    using t(1) c f(1) d(1) assms(2) by (simp add: read_chunk_def Let_def)
  moreover have "coming (codec E) ?p1 cs' (m # ms)"
    using assms(1) c f(2) d q(3) by (auto simp: coming_def)
  ultimately show ?thesis using cs t(2) by auto
qed

lemma coming_next:
  assumes "coming (codec E) p cs (m # ms)" "holds (link p) cs" "quiet m" "length cs < f"
  shows "\<exists>p' cs'. next_message E f p = (p', Some (Inr m)) \<and> coming (codec E) p' cs' ms
    \<and> holds (link p') cs' \<and> length cs' \<le> length cs"
  using assms
proof (induction f arbitrary: p cs)
  case (Suc f)
  show ?case
  proof (cases "pending_messages p = []")
    case False
    from coming_buffered [OF Suc.prems(1,3) False, of f] Suc.prems(2) show ?thesis by fastforce
  next
    case True
    from coming_read [OF Suc.prems(1) True Suc.prems(2)] obtain c cs' p1 where
      p1: "cs = c # cs'" "read_chunk E p = (p1, Some (Inr None))" "coming (codec E) p1 cs' (m # ms)"
      "holds (link p1) cs'" by blast
    have "next_message E (Suc f) p = next_message E f p1"
      using True p1(2) coming_flush [OF Suc.prems(1)] by simp
    moreover have "length cs' < f" using Suc.prems(4) p1(1) by simp
    ultimately show ?thesis using Suc.IH [OF p1(3,4) Suc.prems(3)] p1(1) by fastforce
  qed
qed simp

lemma coming_asked:
  assumes "coming (codec E) p cs (ms @ rest)" "holds (link p) cs" "\<forall>m\<in>set ms. quiet m" "length cs < f"
  shows "ask E f (length ms) p = ms"
  using assms
proof (induction ms arbitrary: p cs)
  case (Cons m ms)
  then obtain p' cs' where p': "next_message E f p = (p', Some (Inr m))"
    "coming (codec E) p' cs' (ms @ rest)" "holds (link p') cs'" "length cs' \<le> length cs"
    using coming_next [of p cs m "ms @ rest" f] by auto
  with Cons show ?case by simp
qed simp

end

text \<open>The mock transport holds the chunks of its inbox.\<close>

interpretation mock_source: chunk_source "mock_env K H C gen" "\<lambda>t cs. fail_recv t = None \<and> inbox t = cs" for K H C gen
  by unfold_locales (simp add: mock_recv_def)

definition queued :: "codec_env \<Rightarrow> (mock, 'h) pool \<Rightarrow> psrp_message list \<Rightarrow> bool" where
  "queued K p ms \<longleftrightarrow> fail_recv (link p) = None \<and> coming K p (inbox (link p)) ms"

lemma queued_next:
  assumes "queued K p (m # ms)" "quiet m" "length (inbox (link p)) < f"
  shows "\<exists>p'. next_message (mock_env K H C gen) f p = (p', Some (Inr m)) \<and> queued K p' ms
    \<and> length (inbox (link p')) \<le> length (inbox (link p))"
  using mock_source.coming_next [of K H C gen p "inbox (link p)" m ms f] assms by (auto simp: queued_def)

section \<open>Fragments in, messages out\<close>

lemma decode_encoded:
  assumes "uuid_laws U" "\<forall>m\<in>set ms. valid_str (msg_data m) \<and> canonical m = m"
  shows "decode_all U (map (msg_encode U) ms) = Inr ms"
  using assms(2) by (induction ms) (auto simp: uuid_laws.msg_decode_encode [OF assms(1)])

lemma delivered:
  assumes "uuid_laws (uuids K)"
    and "\<forall>oid. filter (\<lambda>f. object_id f = oid) fs = (case M oid of
           None \<Rightarrow> [] | Some m \<Rightarrow> split_message oid (msg_encode (uuids K) m))"
    and "\<forall>oid m. M oid = Some m \<longrightarrow> valid_str (msg_data m) \<and> canonical m = m
           \<and> length (msg_encode (uuids K) m) < 2 ^ 64"
    and "concat cs = concat (map encode_fragment fs)" "[] \<notin> set cs"
  shows "coming K (fresh_pool t h mach n key) cs
    (map (\<lambda>f. the (M (object_id f))) (filter frag_end fs))"
proof (cases "cs = []")
  case True
  then have "fs = []" using assms(4) by (cases fs) (auto simp: encode_fragment_def)
  with True show ?thesis by (simp add: coming_def fresh_pool_def)
next
  case False
  let ?p = "\<lambda>oid. map_option (msg_encode (uuids K)) (M oid)"
  let ?ms = "map (\<lambda>f. the (M (object_id f))) (filter frag_end fs)"
  have known: "\<exists>m. M (object_id f) = Some m" if "f \<in> set fs" for f
  proof (rule ccontr)
    assume "\<nexists>m. M (object_id f) = Some m"
    then have "filter (\<lambda>g. object_id g = object_id f) fs = []" using assms(2) by simp
    with that show False by (auto simp: filter_empty_conv)
  qed
  have "\<exists>r. feed_chunks reassembler_new cs
      = (r, Inr (map (\<lambda>f. the (?p (object_id f))) (filter frag_end fs))) \<and> is_idle r"
    by (rule feed_interleaved [OF new_is_idle]) (use assms False in \<open>auto split: option.splits\<close>)
  moreover have "map (\<lambda>f. the (?p (object_id f))) (filter frag_end fs) = map (msg_encode (uuids K)) ?ms"
    using known by fastforce
  moreover have "decode_all (uuids K) (map (msg_encode (uuids K)) ?ms) = Inr ?ms"
    using known assms(3) by (intro decode_encoded [OF assms(1)]) fastforce
  ultimately show ?thesis
    using assms(5) by (auto simp: coming_def fresh_pool_def)
qed

lemma fragments_for_caller:
  assumes "\<forall>oid. filter (\<lambda>f. object_id f = oid) fs = (case M oid of
           None \<Rightarrow> [] | Some m \<Rightarrow> split_message oid (msg_encode (uuids K) m))"
    and "\<forall>oid m. M oid = Some m \<longrightarrow> quiet m"
  shows "\<forall>m\<in>set (map (\<lambda>f. the (M (object_id f))) (filter frag_end fs)). quiet m"
proof -
  have "M (object_id f) \<noteq> None" if "f \<in> set fs" for f
  proof
    assume "M (object_id f) = None"
    then have "filter (\<lambda>g. object_id g = object_id f) fs = []" using assms(1) by simp
    with that show False by (auto simp: filter_empty_conv)
  qed
  then show ?thesis using assms(2) by fastforce
qed

text \<open>
  End to end, from the bytes on the wire to the messages handed on: when the server sends
  messages that are for the caller, fragmented under distinct object ids, interleaved in any way
  and cut into chunks anywhere, then repeated calls of \<open>next_message\<close> return exactly these messages,
  in the order in which they were completed, none lost, none twice; \<open>f\<close> turns, one more than there
  are chunks, are enough for each call.
\<close>

lemma messages_delivered_in_order:
  assumes "uuid_laws (uuids K)"
    and "\<forall>oid. filter (\<lambda>f. object_id f = oid) fs = (case M oid of
           None \<Rightarrow> [] | Some m \<Rightarrow> split_message oid (msg_encode (uuids K) m))"
    and "\<forall>oid m. M oid = Some m \<longrightarrow> valid_str (msg_data m) \<and> canonical m = m \<and> quiet m
           \<and> length (msg_encode (uuids K) m) < 2 ^ 64"
    and "concat cs = concat (map encode_fragment fs)" "[] \<notin> set cs" "length cs < f"
  shows "ask (mock_env K H C gen) f (length (filter frag_end fs)) (fresh_pool (mock_new cs) h mach n key)
    = map (\<lambda>f. the (M (object_id f))) (filter frag_end fs)"
proof -
  have "ask (mock_env K H C gen) f (length (map (\<lambda>f. the (M (object_id f))) (filter frag_end fs)))
      (fresh_pool (mock_new cs) h mach n key) = map (\<lambda>f. the (M (object_id f))) (filter frag_end fs)"
    by (rule mock_source.coming_asked [where cs = cs and rest = "[]"])
      (use delivered [of K fs M cs] fragments_for_caller [where K = K and fs = fs and M = M] assms in
        \<open>simp_all add: fresh_pool_def mock_new_def\<close>)
  then show ?thesis by simp
qed

definition state_msg :: "uuid \<Rightarrow> psrp_message" where
  "state_msg pid = \<lparr>msg_destination = Client, msg_type = PipelineState, msg_rpid = 7, msg_pid = pid, msg_data = [65]\<rparr>"

lemma state_msg_facts:
  "valid_str (msg_data (state_msg pid))" "canonical (state_msg pid) = state_msg pid"
  "quiet (state_msg pid)" "length (msg_encode rfc_uuid (state_msg pid)) = 41"
  using mt_from_to_known [of PipelineState]
  by (simp_all add: state_msg_def canonical_def scalar_def BOM_CHAR_def quiet_def
      rfc.length_msg_encode HEADER_LEN_def as_bytes_def utf8_enc_char_def)

lemma split_state_msg:
  "split_message oid (msg_encode rfc_uuid (state_msg pid)) =
     [\<lparr>object_id = oid, fragment_id = 0, frag_start = True, frag_end = True,
       blob = msg_encode rfc_uuid (state_msg pid)\<rparr>]"
proof -
  have ne: "msg_encode rfc_uuid (state_msg pid) \<noteq> []" using state_msg_facts(4) [of pid] by auto
  have "chunks MAX_FRAGMENT_PAYLOAD (msg_encode rfc_uuid (state_msg pid)) = [msg_encode rfc_uuid (state_msg pid)]"
    using ne state_msg_facts(4) [of pid]
    by (simp add: chunks.simps [of _ "msg_encode rfc_uuid (state_msg pid)"] MAX_FRAGMENT_PAYLOAD_def)
  with ne show ?thesis by (simp add: split_message_def)
qed

lemma messages_delivered_in_order_witness:
  "ask (mock_env (scripted_codec []) no_interaction_host shift_cipher (\<lambda>_. Inr broken_key)) 3 2
     (fresh_pool (mock_new [encode_message 4 (msg_encode rfc_uuid (state_msg 1)),
         encode_message 9 (msg_encode rfc_uuid (state_msg 2))]) ()
       \<lparr>mach_state = Opened, mach_rpid = 7, min_runspaces = 1, max_runspaces = 1\<rparr> 1 None)
   = [state_msg 1, state_msg 2]"
proof -
  let ?fs = "split_message 4 (msg_encode rfc_uuid (state_msg 1)) @ split_message 9 (msg_encode rfc_uuid (state_msg 2))"
  let ?M = "[4 \<mapsto> state_msg 1, 9 \<mapsto> state_msg 2] :: u64 \<rightharpoonup> psrp_message"
  let ?cs = "[encode_message 4 (msg_encode rfc_uuid (state_msg 1)), encode_message 9 (msg_encode rfc_uuid (state_msg 2))]"
  have 1: "\<forall>oid. filter (\<lambda>f. object_id f = oid) ?fs = (case ?M oid of
      None \<Rightarrow> [] | Some m \<Rightarrow> split_message oid (msg_encode (uuids (scripted_codec [])) m))"
    by (auto simp: split_state_msg)
  have 2: "\<forall>oid m. ?M oid = Some m \<longrightarrow> valid_str (msg_data m) \<and> canonical m = m \<and> quiet m
      \<and> length (msg_encode (uuids (scripted_codec [])) m) < 2 ^ 64"
    using state_msg_facts by (auto split: if_splits)
  have 3: "concat ?cs = concat (map encode_fragment ?fs)"
    by (simp add: encode_message_def)
  have "[] \<noteq> encode_fragment f" for f by (simp add: encode_fragment_def u64_to_be_def)
  then have 4: "[] \<notin> set ?cs" by (simp add: encode_message_def split_state_msg)
  have "uuid_laws (uuids (scripted_codec []))" by (simp add: rfc.uuid_laws_axioms)
  from messages_delivered_in_order [OF this 1 2 3 4, of 3 no_interaction_host shift_cipher
      "\<lambda>_. Inr broken_key" "()" "\<lparr>mach_state = Opened, mach_rpid = 7, min_runspaces = 1, max_runspaces = 1\<rparr>"
      1 None]
  show ?thesis by (simp add: split_state_msg flip: numeral_2_eq_2 del: ask.simps)
qed

end
