(* ===== verification/Pool_Lifecycle.thy ===== *)
theory Pool_Lifecycle
  imports Pool_Properties Message_Order
begin

text \<open>
  Opening, closing, disconnecting and reconnecting a pool.
\<close>

section \<open>What the message pump leaves alone\<close>

definition same_machine :: "('t, 'h) pool \<Rightarrow> ('t, 'h) pool \<Rightarrow> bool" where
  "same_machine p p' \<longleftrightarrow> pool_machine p' = pool_machine p \<and> pool_closed p' = pool_closed p"

lemma same_machine_refl [simp]: "same_machine p p"
  by (simp add: same_machine_def)

lemma same_machine_trans: "same_machine a b \<Longrightarrow> same_machine b c \<Longrightarrow> same_machine a c"
  by (simp add: same_machine_def)

lemma same_machine_updates [simp]:
  "same_machine p (q\<lparr>reasm := r\<rparr>) = same_machine p q"
  "same_machine p (q\<lparr>link := t\<rparr>) = same_machine p q"
  "same_machine p (q\<lparr>next_object_id := n\<rparr>) = same_machine p q"
  "same_machine p (q\<lparr>host_state := h\<rparr>) = same_machine p q"
  "same_machine p (q\<lparr>session_key := k\<rparr>) = same_machine p q"
  "same_machine p (q\<lparr>pending_client_key := ck\<rparr>) = same_machine p q"
  "same_machine p (q\<lparr>deferred_host_responses := ds\<rparr>) = same_machine p q"
  "same_machine p (q\<lparr>pending_messages := ms\<rparr>) = same_machine p q"
  "same_machine p (q\<lparr>keys_made := kk\<rparr>) = same_machine p q"
  "same_machine (p\<lparr>host_state := h\<rparr>) q = same_machine p q"
  "same_machine (p\<lparr>pending_client_key := ck\<rparr>) q = same_machine p q"
  "same_machine (p\<lparr>session_key := k\<rparr>) q = same_machine p q"
  "same_machine (p\<lparr>deferred_host_responses := ds\<rparr>) q = same_machine p q"
  "same_machine (p\<lparr>pending_messages := ms\<rparr>) q = same_machine p q"
  "same_machine (p\<lparr>keys_made := kk\<rparr>) q = same_machine p q"
  by (simp_all add: same_machine_def)

lemma sbind_same:
  assumes "same_machine p (fst x)" "\<And>y q. same_machine p q \<Longrightarrow> same_machine p (fst (f y q))"
  shows "same_machine p (fst (sbind x f))"
  using assms by (cases x; cases "snd x") (auto simp: sbind_def)

lemma post_same: "same_machine p (fst (post E call msg p))"
  by (auto simp: post_def Let_def split: prod.splits sum.splits)

lemma send_same:
  "same_machine p (fst (send_psrp_message E mt body p))"
  "same_machine p (fst (send_pipeline_message E mt pid body p))"
  by (simp_all add: send_psrp_message_def send_pipeline_message_def post_same)

lemma send_same_trans:
  "same_machine p q \<Longrightarrow> same_machine p (fst (send_psrp_message E mt body q))"
  "same_machine p q \<Longrightarrow> same_machine p (fst (send_pipeline_message E mt pid body q))"
  using send_same same_machine_trans by blast+

lemma start_exchange_same: "same_machine p q \<Longrightarrow> same_machine p (fst (start_exchange E key q))"
  unfolding start_exchange_def by (rule sbind_same) (auto intro: send_same_trans)

lemma fresh_start_same: "same_machine p q \<Longrightarrow> same_machine p (fst (sbind (fresh_key E q) (start_exchange E)))"
  by (rule sbind_same) (auto simp: fresh_key_def intro: start_exchange_same)

lemma start_unless_same: "same_machine p q \<Longrightarrow> same_machine p (fst (start_exchange_unless_pending E q))"
  by (auto simp: start_exchange_unless_pending_def intro: fresh_start_same)

lemma flush_loop_same: "same_machine p q \<Longrightarrow> same_machine p (fst (flush_loop E key ds q))"
proof (induction ds arbitrary: q)
  case (Cons d ds)
  show ?case
    by (simp, rule sbind_same, rule send_same_trans(2) [OF Cons.prems], rule Cons.IH, simp)
qed simp

lemma flush_same: "same_machine p q \<Longrightarrow> same_machine p (fst (flush_deferred_host_responses E q))"
  by (auto simp: flush_deferred_host_responses_def intro: flush_loop_same split: option.split)

lemma fail_loop_same: "same_machine p q \<Longrightarrow> same_machine p (fail_loop E text ds q)"
proof (induction ds arbitrary: q)
  case (Cons d ds)
  show ?case by (simp, rule Cons.IH, rule send_same_trans(2) [OF Cons.prems])
qed simp

lemma accept_key_same: "same_machine p q \<Longrightarrow> same_machine p (fst (accept_encrypted_session_key E msg q))"
  by (auto simp: accept_encrypted_session_key_def take_session_key_def fail_deferred_host_responses_def
      intro!: flush_same fail_loop_same split: option.split sum.split)

lemma answer_same: "same_machine p q \<Longrightarrow> same_machine p (fst (answer_host_call E msg ci mi v q))"
  by (auto simp: answer_host_call_def Let_def ensure_key_exchange_started_def
      intro!: sbind_same intro: send_same_trans start_unless_same split: option.split)

lemma handle_same: "same_machine p q \<Longrightarrow> same_machine p (fst (handle_host_call E msg q))"
  by (auto simp: handle_host_call_def intro!: answer_same send_same_trans
      split: sum.split prod.split option.split)

lemma take_message_same: "same_machine p q \<Longrightarrow> same_machine p (fst (take_message E msg q))"
  by (auto simp: take_message_def intro!: sbind_same handle_same accept_key_same start_unless_same)

lemma read_chunk_same: "same_machine p q \<Longrightarrow> same_machine p (fst (read_chunk E q))"
  by (auto simp: read_chunk_def Let_def split: prod.split option.split sum.split)

lemma next_message_same: "same_machine p q \<Longrightarrow> same_machine p (fst (next_message E f q))"
proof (induction f arbitrary: q)
  case (Suc f)
  have fl: "same_machine p (fst (flush_if_keyed E q))"
    using Suc.prems by (auto simp: flush_if_keyed_def intro: flush_same)
  obtain q1 x where q1: "flush_if_keyed E q = (q1, x)" by fastforce
  with fl have s1: "same_machine p q1" by simp
  let ?tm = "take_message E (last (pending_messages q1))
      (q1\<lparr>pending_messages := butlast (pending_messages q1)\<rparr>)"
  have tm: "same_machine p (fst ?tm)" using s1 by (auto intro: take_message_same)
  have rc: "same_machine p (fst (read_chunk E q1))" using s1 by (rule read_chunk_same)
  obtain q2 y where q2: "?tm = (q2, y)" by fastforce
  obtain q3 z where q3: "read_chunk E q1 = (q3, z)" by fastforce
  show ?case
    using q1 q2 q3 s1 tm rc Suc.IH by (auto split: sum.split option.split)
qed simp

section \<open>Opening\<close>

lemma drain_machine:
  "drain_until_opened E f p = (p', r) \<Longrightarrow>
     machine_reaches (codec E) (pool_machine p) (pool_machine p') \<and> pool_closed p' = pool_closed p
     \<and> (r = Some (Inr ()) \<longrightarrow> is_opened (pool_machine p'))"
proof (induction f arbitrary: p)
  case (Suc f)
  obtain p1 x where nm: "next_message E (Suc f) p = (p1, x)" by fastforce
  have same: "pool_machine p1 = pool_machine p" "pool_closed p1 = pool_closed p"
    using next_message_same [of p p E "Suc f"] nm by (simp_all add: same_machine_def)
  show ?case
  proof (cases "\<exists>msg. x = Some (Inr msg)")
    case False
    with Suc.prems nm same show ?thesis
      by (auto split: option.splits sum.splits intro: reaches_refl simp del: next_message.simps)
  next
    case True
    then obtain msg where x: "x = Some (Inr msg)" by blast
    obtain m y where om: "on_message (codec E) msg (pool_machine p1) = (m, y)" by fastforce
    have step: "machine_step (codec E) (pool_machine p) m" using om same by (auto intro: step_message)
    show ?thesis
    proof (cases "\<exists>u. y = Inr u \<and> \<not> is_opened m")
      case True
      then have "drain_until_opened E f (p1\<lparr>pool_machine := m\<rparr>) = (p', r)"
        using Suc.prems nm x om by (simp del: next_message.simps)
      from Suc.IH [OF this] have "machine_reaches (codec E) m (pool_machine p')"
        "pool_closed p' = pool_closed p1" "r = Some (Inr ()) \<longrightarrow> is_opened (pool_machine p')" by simp_all
      then show ?thesis using same reaches_after_step [OF _ step] by simp
    next
      case False
      then show ?thesis
        using Suc.prems nm x om same step reaches_step [OF reaches_refl step]
        by (auto split: sum.splits if_splits simp del: next_message.simps)
    qed
  qed
qed (auto intro: reaches_refl)

lemma execute_actions_same: "same_machine p q \<Longrightarrow> same_machine p (fst (execute_actions E acts q))"
proof (induction acts arbitrary: q)
  case (Cons a acts)
  show ?case
    by (cases a; simp, rule sbind_same, rule send_same_trans(1) [OF Cons.prems], rule Cons.IH)
qed simp

text \<open>
  A pool is handed out only when it is open: both ways of opening return one only after the
  server's messages moved its machine along legal transitions from the start of the handshake to
  \<open>Opened\<close>; it has the id and the bounds asked for, with 1 <= min <= max, and is not closed.
\<close>

lemma opened_pool_is_open:
  assumes "open_with_options_and_host E f rpid t mn mx h = Some (Inr p)
    \<or> open_from_transport_with_host E f t rpid mn mx h = Some (Inr p)"
  shows "mach_state (pool_machine p) = Opened \<and> pool_rpid p = rpid \<and> \<not> pool_closed p
    \<and> (\<exists>m. machine_new rpid mn mx = Inr m
        \<and> machine_reaches (codec E) (fst (machine_open (codec E) m)) (pool_machine p))
    \<and> 1 \<le> sint mn \<and> sint mn \<le> sint mx
    \<and> min_runspaces (pool_machine p) = mn \<and> max_runspaces (pool_machine p) = mx"
proof -
  obtain m where m: "machine_new rpid mn mx = Inr m"
    using assms
    by (cases "machine_new rpid mn mx")
      (auto simp: open_with_options_and_host_def open_from_transport_with_host_def)
  obtain m' acts where o: "machine_open (codec E) m = (m', acts)" by fastforce
  have "\<exists>q q'. drain_until_opened E f q = (q', Some (Inr ())) \<and> q' = p \<and> pool_machine q = m' \<and> \<not> pool_closed q"
  proof (cases "open_from_transport_with_host E f t rpid mn mx h = Some (Inr p)")
    case True
    then show ?thesis
      using m o by (auto simp: open_from_transport_with_host_def fresh_pool_def
          split: prod.splits option.splits sum.splits)
  next
    case False
    let ?q = "(fresh_pool t h m 1 None)\<lparr>pool_machine := m'\<rparr>"
    obtain q x where e: "execute_actions E acts ?q = (q, x)" by fastforce
    have "pool_machine q = m' \<and> \<not> pool_closed q"
      using execute_actions_same [of ?q ?q E acts] e by (simp add: same_machine_def fresh_pool_def)
    with False assms m o e show ?thesis
      by (auto simp: open_with_options_and_host_def Let_def split: prod.splits option.splits sum.splits)
  qed
  then obtain q where q: "drain_until_opened E f q = (p, Some (Inr ()))" "pool_machine q = m'"
    "\<not> pool_closed q" by blast
  note d = drain_machine [OF q(1)]
  have r1: "machine_reaches (codec E) m' (pool_machine p)" using d q(2) by simp
  have "machine_step (codec E) m m'" using o by (rule step_open)
  from runspace_bounds [OF m reaches_after_step [OF r1 this]] r1 d q(3) m o show ?thesis
    by (auto simp: pool_rpid_def is_opened_def)
qed

text \<open>A server that answers the handshake with the state \<open>Opened\<close>.\<close>

definition opened_members :: "member list" where
  "opened_members = [MemI32 (lit ''RunspaceState'') (lit ''2'')]"

definition opened_msg :: psrp_message where
  "opened_msg = (state_msg 0)\<lparr>msg_type := RunspacePoolState\<rparr>"

lemma opened_msg_facts:
  "valid_str (msg_data opened_msg)" "canonical opened_msg = opened_msg" "quiet opened_msg"
  "length (msg_encode rfc_uuid opened_msg) = 41"
  using mt_from_to_known [of RunspacePoolState] state_msg_facts [of 0]
  by (simp_all add: opened_msg_def state_msg_def canonical_def BOM_CHAR_def quiet_def
      rfc.length_msg_encode HEADER_LEN_def as_bytes_def utf8_enc_char_def)

lemma on_opened_msg:
  "mach_state m = NegotiationSent \<Longrightarrow>
     on_message (scripted_codec (document opened_members)) opened_msg m = (m\<lparr>mach_state := Opened\<rparr>, Inr ())"
proof -
  assume m: "mach_state m = NegotiationSent"
  have "good_members opened_members" "opened_members \<noteq> []"
    by (simp_all add: good_members_def opened_members_def small_numbers)
  moreover have "insert_members object_new opened_members = Ps_Object [(lit ''RunspaceState'', PsI32 2)] [] None"
    by (simp add: opened_members_def small_numbers object_insert_def object_with_def object_new_def)
  ultimately have "extract_runspace_state (scripted_codec (document opened_members)) t = Inr Opened" for t
    by (simp add: extract_runspace_state_def values_of_document object_get_def pool_state_from_i32_def)
  then show ?thesis
    using m by (simp add: on_message_def opened_msg_def is_legal_server_transition_def)
qed

definition opening_pool :: "(mock, unit) pool" where
  "opening_pool = fresh_pool (mock_new [encode_message 1 (msg_encode rfc_uuid opened_msg)]) ()
     \<lparr>mach_state = NegotiationSent, mach_rpid = 7, min_runspaces = 1, max_runspaces = 1\<rparr> 3 None"

lemma drain_opening_pool:
  "\<exists>p. drain_until_opened (sample_env (document opened_members)) 2 opening_pool = (p, Some (Inr ()))"
proof -
  let ?K = "scripted_codec (document opened_members)"
  let ?bs = "msg_encode rfc_uuid opened_msg"
  have ne: "?bs \<noteq> []" using opened_msg_facts(4) by auto
  have split: "split_message 1 ?bs = [\<lparr>object_id = 1, fragment_id = 0, frag_start = True, frag_end = True, blob = ?bs\<rparr>]"
    using ne opened_msg_facts(4)
    by (simp add: split_message_def chunks.simps [of _ ?bs] MAX_FRAGMENT_PAYLOAD_def)
  have one: "[] \<noteq> encode_message 1 ?bs" by (simp add: encode_message_def split encode_fragment_def u64_to_be_def)
  have "queued ?K opening_pool [opened_msg]"
    unfolding opening_pool_def
    using delivered [of ?K "split_message 1 ?bs" "[1 \<mapsto> opened_msg]" "[encode_message 1 ?bs]"
        "mock_new [encode_message 1 ?bs]" "()" "\<lparr>mach_state = NegotiationSent, mach_rpid = 7, min_runspaces = 1, max_runspaces = 1\<rparr>" 3 None]
    by (simp add: queued_def fresh_pool_def mock_new_def rfc.uuid_laws_axioms split encode_message_def
        opened_msg_facts one [unfolded encode_message_def split, simplified]
        split: if_splits)
  from queued_next [OF this opened_msg_facts(3), of 2 no_interaction_host shift_cipher "\<lambda>_. Inr broken_key"]
  obtain p' where n: "next_message (sample_env (document opened_members)) 2 opening_pool = (p', Some (Inr opened_msg))"
    by (auto simp: opening_pool_def fresh_pool_def mock_new_def sample_env_def)
  have "pool_machine p' = pool_machine opening_pool"
    using next_message_same [of opening_pool opening_pool "sample_env (document opened_members)" 2] n
    by (simp add: same_machine_def)
  then have "mach_state (pool_machine p') = NegotiationSent" by (simp add: opening_pool_def fresh_pool_def)
  from on_opened_msg [OF this] n show ?thesis
    by (simp add: numeral_2_eq_2 sample_env_def is_opened_def del: next_message.simps)
qed

lemma opened_pool_is_open_witness:
  "\<exists>p. open_from_transport_with_host (sample_env (document opened_members)) 2
      (mock_new [encode_message 1 (msg_encode rfc_uuid opened_msg)]) 7 1 1 () = Some (Inr p)
    \<and> mach_state (pool_machine p) = Opened"
proof -
  obtain p where p: "drain_until_opened (sample_env (document opened_members)) 2 opening_pool = (p, Some (Inr ()))"
    using drain_opening_pool by blast
  have "open_from_transport_with_host (sample_env (document opened_members)) 2
      (mock_new [encode_message 1 (msg_encode rfc_uuid opened_msg)]) 7 1 1 () = Some (Inr p)"
    using p by (simp add: open_from_transport_with_host_def machine_new_def machine_open_def
        opening_pool_def del: drain_until_opened.simps)
  then show ?thesis using opened_pool_is_open [OF disjI2, of _ _ _ 7 1 1 "()" p] by blast
qed

section \<open>Two ways to open\<close>

text \<open>
  The two ways of opening are equivalent on the wire.  What \<open>build_creation_fragments\<close> embeds
  in the creation of the shell is byte for byte what an open over a plain transport sends, and the
  pool that starts from such a shell is in the very state the other one has after sending: next
  object id 3, handshake sent.
\<close>

lemma creation_fragments_equal_handshake:
  assumes "machine_new rpid mn mx = Inr m" "\<not> fail_send t"
  shows "\<exists>p. execute_actions (mock_env K H C gen) (snd (machine_open K m))
        ((fresh_pool t h m 1 None)\<lparr>pool_machine := fst (machine_open K m)\<rparr>) = (p, Inr ())
    \<and> build_creation_fragments K rpid mn mx = Inr (rpid, concat (drop (length (outbox t)) (outbox (link p))))
    \<and> p = fresh_pool (link p) h (fst (machine_open K m)) 3 None"
proof -
  have m: "mach_state m = BeforeOpen" "mach_rpid m = rpid"
    using assms(1) by (auto simp: machine_new_def split: if_splits)
  show ?thesis
    using assms m
    by (auto simp: machine_open_def build_creation_fragments_def Let_def send_psrp_message_def post_def
        take_object_id_def checked_add_u64_def mock_send_def fresh_pool_def pool_rpid_def)
qed

lemma creation_fragments_equal_handshake_witness:
  "\<exists>p. build_creation_fragments (scripted_codec []) 7 1 2
      = Inr (7, concat (outbox (link (p :: (mock, unit) pool)))) \<and> next_object_id p = 3"
proof -
  have "machine_new 7 1 2 = Inr \<lparr>mach_state = BeforeOpen, mach_rpid = 7, min_runspaces = 1, max_runspaces = 2\<rparr>"
    by (simp add: machine_new_def)
  moreover have "\<not> fail_send (mock_new [])"
    by (simp add: mock_new_def)
  ultimately obtain p :: "(mock, unit) pool" where p: "build_creation_fragments (scripted_codec []) 7 1 2
      = Inr (7, concat (drop (length (outbox (mock_new []))) (outbox (link p))))"
    "p = fresh_pool (link p) () (fst (machine_open (scripted_codec [])
       \<lparr>mach_state = BeforeOpen, mach_rpid = 7, min_runspaces = 1, max_runspaces = 2\<rparr>)) 3 None"
    using creation_fragments_equal_handshake [of 7 1 2 _ "mock_new []" "scripted_codec []"
      no_interaction_host shift_cipher "\<lambda>_. Inr broken_key" "()"] by blast
  have "next_object_id p = 3" by (subst p(2)) (simp add: fresh_pool_def)
  with p(1) show ?thesis by (auto simp: mock_new_def)
qed

section \<open>Closing\<close>

text \<open>
  Closing always tears the shell down: even when the close message cannot be sent the
  transport is closed and the pool ends in \<open>Closed\<close>, and the failure is still reported; a pool
  whose machine has already ended sends nothing; and a second close does nothing.
\<close>

lemma close_always_tears_down:
  assumes "pool_close (mock_env K H C gen) p = (p', r)" "\<not> pool_closed p"
  shows "mock_closed (link p') \<and> pool_closed p' \<and> mach_state (pool_machine p') = Closed
    \<and> pool_close (mock_env K H C gen) p' = (p', Inr ())
    \<and> (if is_terminal (pool_machine p) then r = Inr () \<and> outbox (link p') = outbox (link p)
       else if fail_send (link p) \<and> unat (next_object_id p) < 2 ^ 64 - 1
       then r = Inl (protocol (lit ''mock send failure'')) \<and> outbox (link p') = outbox (link p)
       else if unat (next_object_id p) < 2 ^ 64 - 1
       then r = Inr () \<and> outbox (link p') = outbox (link p) @ [encode_message (next_object_id p)
         (msg_encode (uuids K) (to_server CloseRunspacePool (pool_rpid p) nil_uuid
            (lit ''<Obj RefId='' @ [0x22] @ lit ''0'' @ [0x22] @ lit ''><MS/></Obj>'')))]
       else r = Inl (protocol (lit ''fragment object id space exhausted'')))"
  using assms
  by (auto simp: pool_close_def machine_close_def Let_def mock_close_def mark_closed_def
      send_psrp_message_def post_def take_object_id_def checked_add_u64_def mock_send_def pool_rpid_def
      sbind_def split: if_splits)

lemma close_always_tears_down_witness:
  "mock_closed (link (fst (pool_close (sample_env []) ((sample_pool [])
     \<lparr>link := (mock_new [])\<lparr>fail_send := True\<rparr>\<rparr>))))"
proof -
  let ?p = "(sample_pool [])\<lparr>link := (mock_new [])\<lparr>fail_send := True\<rparr>\<rparr>"
  obtain p' r where c: "pool_close (sample_env []) ?p = (p', r)" by fastforce
  from close_always_tears_down [OF c [unfolded sample_env_def]] c show ?thesis
    by (simp add: sample_pool_def fresh_pool_def)
qed

section \<open>Disconnecting and reconnecting\<close>

text \<open>
  A disconnected pool comes back as it was: reconnecting gives an open pool with the same id,
  bounds, host and session key, without any message being sent; a disconnect that fails closes the
  shell before the error is returned, so that nothing leaks.  The object ids of the reconnected pool
  start at 1 again, whatever ids were used before.
\<close>

lemma reconnect_resumes_the_pool:
  assumes "pool_disconnect E p = (t, r)" "1 \<le> sint (min_runspaces (pool_machine p))"
    "sint (min_runspaces (pool_machine p)) \<le> sint (max_runspaces (pool_machine p))"
  shows "case r of
      Inl e \<Rightarrow> (pool_closed p \<and> t = link p)
        \<or> (\<exists>t'. disconnect_shell (wire E) (link p) = (t', Inl e) \<and> t = fst (close_shell (wire E) t'))
    | Inr d \<Rightarrow> \<exists>q. pool_reconnect t' d = Inr q \<and> link q = t'
        \<and> mach_state (pool_machine q) = Opened \<and> pool_rpid q = pool_rpid p
        \<and> min_runspaces (pool_machine q) = min_runspaces (pool_machine p)
        \<and> max_runspaces (pool_machine q) = max_runspaces (pool_machine p)
        \<and> host_state q = host_state p \<and> session_key q = session_key p
        \<and> \<not> pool_closed q \<and> next_object_id q = 1"
  using assms
  by (auto simp: pool_disconnect_def pool_reconnect_def machine_new_def machine_connect_def
      is_terminal_def fresh_pool_def pool_rpid_def split: if_splits prod.splits sum.splits)

lemma reconnect_resumes_the_pool_witness:
  "\<exists>d q. snd (pool_disconnect (sample_env []) (sample_pool [])) = Inr d
     \<and> pool_reconnect (mock_new []) d = Inr q \<and> mach_state (pool_machine q) = Opened"
proof -
  obtain t r where d: "pool_disconnect (sample_env []) (sample_pool []) = (t, r)" by fastforce
  have "\<exists>x. r = Inr x"
    using d by (auto simp: pool_disconnect_def sample_env_def mock_transport_def sample_pool_def fresh_pool_def)
  with reconnect_resumes_the_pool [OF d, of "mock_new []"] d show ?thesis
    by (auto simp: sample_pool_def fresh_pool_def)
qed

end
