(* ===== verification/Decode_Errors.thy ===== *)
theory Decode_Errors
  imports Decode_Limits
begin

text \<open>
  How the decoder fails: with a \<open>Clixml\<close> error whose text is quoted, whatever the document holds.
  The loops are verified once against the locale \<open>quoting_elements\<close>, the contract of the parser for
  the elements inside; \<open>parse_element\<close> is shown to satisfy it, level by level.
\<close>

section \<open>Quoted failures\<close>

definition quoted_res :: "'a res \<Rightarrow> bool" where
  "quoted_res r \<longleftrightarrow> (\<forall>e. r = Inl e \<longrightarrow> (\<exists>t. e = clixml t))"

definition quoted :: "'a dec \<Rightarrow> bool" where
  "quoted r \<longleftrightarrow> (\<forall>e. r = Failed e \<longrightarrow> (\<exists>t. e = clixml t))"

named_theorems quoting \<open>how quoted failures pass through the parsers' steps\<close>

lemma quoted_res_simps [simp]:
  "quoted_res (Inr x)" "quoted_res (Inl (clixml t))"
  by (auto simp: quoted_res_def)

lemma quoted_simps [simp]:
  "quoted (Done x)" "quoted Out_Of_Fuel" "quoted (Failed (clixml t))"
  by (auto simp: quoted_def)

lemma quoted_rbind [quoting]:
  "quoted_res r \<Longrightarrow> (\<And>x. r = Inr x \<Longrightarrow> quoted_res (f x)) \<Longrightarrow> quoted_res (rbind r f)"
  by (cases r) (auto simp: quoted_res_def)

lemma quoted_map [quoting]: "quoted_res r \<Longrightarrow> quoted_res (map_sum id f r)"
  by (cases r) (auto simp: quoted_res_def)

lemma quoted_dbind [quoting]:
  "quoted r \<Longrightarrow> (\<And>x. quoted (f x)) \<Longrightarrow> quoted (dbind r f)"
  by (cases r) (auto simp: quoted_def)

lemma quoted_dlift [quoting]: "quoted_res r \<Longrightarrow> quoted (dlift r)"
  by (cases r) (auto simp: quoted_def quoted_res_def)

section \<open>The readers without state\<close>

lemma attr_quoted [quoting]:
  "quoted_res (attr_value key attrs)" "quoted_res (name_attr attrs)" "quoted_res (ref_id_attr attrs)"
  by (auto simp: attr_value_def name_attr_def ref_id_attr_def intro!: quoting
      split: option.splits sum.splits)

lemma read_text_quoted [quoting]: "quoted_res (read_text closing evs)"
proof -
  have "quoted_res (read_text_loop closing out evs)" for out
    by (induction evs arbitrary: out) (auto split: xml_event.splits sum.splits option.splits)
  then show ?thesis by (simp add: read_text_def)
qed

lemma skip_quoted [quoting]: "quoted_res (skip_to_end evs)"
proof -
  have "quoted_res (skip_loop n evs)" for n
    by (induction n evs rule: skip_loop.induct) (auto split: xml_event.splits)
  then show ?thesis by (simp add: skip_to_end_def)
qed

lemma type_names_quoted [quoting]: "quoted_res (parse_type_names evs)"
proof -
  have "quoted_res (parse_type_names_loop out evs)" for out
    by (induction out evs rule: parse_type_names_loop.induct)
      (auto intro!: quoting split: xml_event.splits simp: split_beta)
  then show ?thesis by (simp add: parse_type_names_def)
qed

lemma charge_quoted [quoting]: "quoted_res (charge w st)"
  by (simp add: charge_def Let_def)

lemma keep_ref_quoted [quoting]: "quoted_res (keep_ref rid v st)"
  by (auto simp: keep_ref_def intro!: quoting split: option.split)

lemma resolve_ref_quoted [quoting]: "quoted_res (resolve_ref attrs st level)"
  by (auto simp: resolve_ref_def Let_def split_beta intro!: quoting split: option.split)

lemma parse_empty_quoted [quoting]: "quoted_res (parse_empty tag attrs st)"
  by (auto simp: parse_empty_def split_beta intro!: quoting)

lemma scalar_quoted:
  assumes "map_of (scalar_parsers U F) tag = Some parser"
  shows "quoted_res (parser text)"
proof -
  have ints: "quoted_res (parse_int_text lo hi closing t)" for lo hi closing t
    by (simp add: parse_int_text_def split: sum.split)
  have floats: "quoted_res (float_text F closing t)" for closing t
    by (simp add: float_text_def split: sum.split)
  have bools: "quoted_res (parse_bool_text t)" for t
    by (simp add: parse_bool_text_def Let_def)
  have oks: "quoted_res (ok_or m (clixml t))" for m :: "ps_value option" and t
    by (cases m) simp_all
  have "(tag, parser) \<in> set (scalar_parsers U F)" using assms by (rule map_of_SomeD)
  then show ?thesis
    unfolding scalar_parsers_def
    by (elim set_ConsD [elim_format] disjE)
      (auto intro!: quoted_map ints floats bools oks split: sum.split)
qed

section \<open>The loops\<close>

locale quoting_elements =
  fixes elem :: element_parser
  assumes elem_quoted [quoting]: "quoted (elem tag attrs evs st)"
begin

lemma member_set_quoted [quoting]: "quoted (parse_member_set elem f obj closing evs st)"
proof (induction f arbitrary: obj evs st)
  case (Suc f)
  show ?case
    by (cases evs) (auto intro!: quoting Suc.IH simp: split_beta split: xml_event.split option.split)
qed simp

lemma list_quoted [quoting]: "quoted (parse_list elem f items closing evs st)"
proof (induction f arbitrary: items evs st)
  case (Suc f)
  show ?case
    by (cases evs) (auto intro!: quoting Suc.IH simp: split_beta split: xml_event.split option.split)
qed simp

lemma dict_entry_quoted [quoting]: "quoted (parse_dict_entry elem f kv evs st)"
proof (induction f arbitrary: kv evs st)
  case (Suc f)
  show ?case
    by (cases evs) (auto intro!: quoting Suc.IH simp: split_beta split: xml_event.split option.split)
qed simp

lemma dict_quoted [quoting]: "quoted (parse_dict elem f entries evs st)"
proof (induction f arbitrary: entries evs st)
  case (Suc f)
  show ?case
    by (cases evs) (auto intro!: quoting Suc.IH simp: split_beta split: xml_event.split)
qed simp

lemma obj_body_quoted [quoting]: "quoted (parse_obj_body elem f obj embedded evs st)"
proof (induction f arbitrary: obj embedded evs st)
  case (Suc f)
  show ?case
    by (cases evs) (auto intro!: quoting Suc.IH simp: split_beta split: xml_event.split)
qed simp

lemma inner_quoted [quoting]: "quoted (parse_element_inner U F elem tag attrs evs st)"
  by (auto simp: parse_element_inner_def split_beta intro!: quoting dest: scalar_quoted
      split: option.split)

lemma siblings_quoted [quoting]: "quoted (parse_siblings elem f out evs st)"
proof (induction f arbitrary: out evs st)
  case (Suc f)
  show ?case
    by (cases evs) (auto intro!: quoting Suc.IH simp: split_beta split: xml_event.split option.split)
qed simp

end

interpretation element: quoting_elements "parse_element U F levels" for U F levels
proof unfold_locales
  show "quoted (parse_element U F levels tag attrs evs st)" for tag attrs evs st
  proof (induction levels arbitrary: tag attrs evs st)
    case (Suc levels)
    then have "quoting_elements (parse_element U F levels)" by unfold_locales
    then show ?case by (auto simp: depth_error_def split_beta intro!: quoting_elements.inner_quoted quoting)
  qed (simp add: depth_error_def)
qed

section \<open>Documents\<close>

lemma parse_clixml_quoted:
  assumes "parse_clixml U F reader t = Inl e"
  shows "\<exists>text. e = clixml text"
proof -
  have "quoted (parse_clixml_dec U F reader t)"
    by (simp add: parse_clixml_dec_def Let_def element.siblings_quoted)
  with assms show ?thesis
    by (auto simp: parse_clixml_def quoted_def split: dec.splits)
qed

section \<open>The length of quoted text\<close>

lemma show_hex_length: "n < 16 ^ Suc k \<Longrightarrow> length (show_hex n) \<le> Suc k"
proof (induction k arbitrary: n)
  case (Suc k)
  then have "n div 16 < 16 ^ Suc k" by simp
  from Suc.IH [OF this] show ?case by (simp add: show_hex.simps [of n])
qed (simp add: show_hex.simps)

text \<open>The longest escape is \<open>\u{e007f}\<close>.\<close>

lemma escape_debug_length: "rewrites_output c \<Longrightarrow> length (escape_debug_unprintable c) \<le> 9"
proof -
  assume "rewrites_output c"
  then have "c < 16 ^ Suc 4" by (auto simp: rewrites_output_def is_control_def)
  from show_hex_length [OF this] show ?thesis by (simp add: escape_debug_unprintable_def lit_def)
qed

lemma concat_length_le: "(\<And>x. x \<in> set xs \<Longrightarrow> length (f x) \<le> k) \<Longrightarrow> length (concat (map f xs)) \<le> k * length xs"
proof (induction xs)
  case (Cons x xs)
  then have "length (f x) \<le> k" "length (concat (map f xs)) \<le> k * length xs" by auto
  then show ?case by simp
qed simp

lemma escape_remote_text_length: "length (escape_remote_text s n) \<le> 9 * n + 1"
proof -
  have "length (concat (map (\<lambda>c. if rewrites_output c then escape_debug_unprintable c else [c]) (take n s)))
      \<le> 9 * length (take n s)"
    by (rule concat_length_le) (auto dest: escape_debug_length)
  then show ?thesis by (simp add: escape_remote_text_def min_def split: if_splits)
qed

text \<open>
  C10: a document that cannot be decoded is answered with a \<open>Clixml\<close> error whose text is safe to show,
  whatever the server put into the document: no control character, no bidirectional or invisible
  formatting in it, and at most 9217 characters, nine for each of the 1024 that are quoted.
\<close>

theorem decoder_errors_quoted:
  assumes "parse_clixml U F reader t = Inl e"
  shows "\<exists>text. e = Clixml text \<and> (\<forall>c\<in>set text. \<not> rewrites_output c) \<and> length text \<le> 9217"
proof -
  from parse_clixml_quoted [OF assms] obtain s where "e = clixml s" by blast
  then have "e = Clixml (escape_remote_text s 1024)"
    by (simp add: clixml_def MAX_SERVER_MESSAGE_CHARS_def)
  with escape_remote_text_length [of s 1024] escape_remote_text_printable [of _ s 1024] show ?thesis by auto
qed

text \<open>A reader that fails on its first event, with an escape sequence in the text of the error.\<close>

theorem decoder_errors_quoted_witness:
  "\<exists>text. parse_clixml rfc_uuid bits_float (\<lambda>_. [XFail [27, 91, 50, 74]]) [60] = Inl (Clixml text)
     \<and> length text \<le> 9217"
proof -
  have "parse_clixml rfc_uuid bits_float (\<lambda>_. [XFail [27, 91, 50, 74]]) [60] = Inl (clixml [27, 91, 50, 74])"
    by (simp add: parse_clixml_def parse_clixml_dec_def Let_def)
  with decoder_errors_quoted [OF this] show ?thesis by auto
qed

end
