(* ===== verification/Decode_Types.thy ===== *)
theory Decode_Types
  imports Decode_Limits
begin

text \<open>
  The type of decoded values: what the Rust types promise of a \<open>PsValue\<close> (texts are sequences of
  Unicode scalar values, the keys of an \<open>IndexMap\<close> are distinct) and the shape the decoder gives
  them, element by element.  The loops are verified once against the locale \<open>typed_elements\<close>, the
  contract of the parser for the elements inside; \<open>parse_element\<close> is shown to satisfy it.
\<close>

section \<open>Well-typed values\<close>

fun scalar_value :: "ps_value \<Rightarrow> bool" where
  "scalar_value (PsList vs) = False"
| "scalar_value (PsDict es) = False"
| "scalar_value (PsObject obj) = False"
| "scalar_value (PsChar c) = scalar c"
| "scalar_value v = (case as_str v of Some t \<Rightarrow> valid_str t | None \<Rightarrow> True)"

text \<open>
  A decoded value is a scalar or an object without a \<open>ToString\<close> text.  A list or a dictionary occurs
  only as the one property \<open>_value\<close> of an object.
\<close>

inductive decoded :: "ps_value \<Rightarrow> bool" where
  Scalar: "scalar_value v \<Longrightarrow> decoded v"
| Members: "distinct (map fst props) \<Longrightarrow> \<forall>p\<in>set props. valid_str (fst p) \<and> decoded (snd p) \<Longrightarrow>
    list_all valid_str names \<Longrightarrow> decoded (PsObject (Ps_Object props names None))"
| Listed: "\<forall>v\<in>set vs. decoded v \<Longrightarrow> list_all valid_str names \<Longrightarrow>
    decoded (PsObject (Ps_Object [(VALUE_KEY, PsList vs)] names None))"
| Keyed: "\<forall>kv\<in>set es. decoded (fst kv) \<and> decoded (snd kv) \<Longrightarrow> list_all valid_str names \<Longrightarrow>
    decoded (PsObject (Ps_Object [(VALUE_KEY, PsDict es)] names None))"

inductive_simps decoded_container [simp]: "decoded (PsList vs)" "decoded (PsDict es)"

lemma decoded_scalars [simp]: "decoded PsNull" "decoded (PsString t) \<longleftrightarrow> valid_str t" "decoded (PsScriptBlock t) \<longleftrightarrow> valid_str t"
  by (auto intro: Scalar elim: decoded.cases)

text \<open>The events of a reader of Rust strings.\<close>

definition attrs_ok :: "attr list \<Rightarrow> bool" where
  "attrs_ok = list_all (\<lambda>(k, v). case v of Inl e \<Rightarrow> True | Inr t \<Rightarrow> valid_str t)"

fun event_ok :: "xml_event \<Rightarrow> bool" where
  "event_ok (XStart tag attrs) = attrs_ok attrs"
| "event_ok (XEmpty tag attrs) = attrs_ok attrs"
| "event_ok (XText t) = valid_str t"
| "event_ok (XCData t) = valid_str t"
| "event_ok (XGeneralRef name c p) =
     ((case c of Inr (Some c) \<Rightarrow> scalar c | _ \<Rightarrow> True) \<and> (case p of Some t \<Rightarrow> valid_str t | None \<Rightarrow> True))"
| "event_ok _ = True"

section \<open>Texts\<close>

lemma valid_append: "valid_str (s @ t) \<longleftrightarrow> valid_str s \<and> valid_str t"
  by (rule list_all_append)

lemma valid_trim: "valid_str t \<Longrightarrow> valid_str (trim t)"
  by (auto simp: trim_def trim_start_def list_all_iff dest!: set_dropWhileD)

lemma parse_pos_bound: "parse_pos r hi a s = Inr i \<Longrightarrow> a \<le> hi \<Longrightarrow> i \<le> hi"
  by (induction r hi a s rule: parse_pos.induct) (auto split: option.splits if_splits)

lemma split_pwsh_escape_valid:
  assumes "split_pwsh_escape t = Some (u, rest)" "valid_str t"
  shows "u < 65536 \<and> valid_str rest"
proof -
  obtain start where start: "t = start @ rest"
    using assms(1) by (auto simp: split_pwsh_escape_def dest!: split_at_checked_SomeD split: option.splits sum.splits)
  obtain hex i where "from_str_radix 16 0 65535 hex = Inr i" "u = nat i"
    using assms(1) by (auto simp: split_pwsh_escape_def split: option.splits sum.splits)
  then have "u < 65536"
    by (auto simp: from_str_radix_def dest!: parse_pos_bound split: if_splits)
  with assms(2) start show ?thesis by simp
qed

lemma valid_decode_loop: "valid_str t \<Longrightarrow> \<forall>u\<in>set us. u < 65536 \<Longrightarrow> valid_str (decode_loop us t)"
proof (induction us t rule: decode_loop.induct)
  case (1 us t)
  have units: "valid_str (utf16_lossy us)"
    using utf16_char_valid [of us] 1(4)
    by (auto simp: utf16_lossy_def list_all_iff scalar_def REPLACEMENT_def split: option.split)
  show ?case
  proof (cases "split_pwsh_escape t")
    case None
    have "valid_str (decode_loop [] (dropWhile (\<lambda>c. c \<noteq> UNDERSCORE) s)) \<and> valid_str (takeWhile (\<lambda>c. c \<noteq> UNDERSCORE) s) \<and> scalar c"
      if t: "t = c # s" for c s
      using 1(1) [OF None t] 1(3) t by (auto simp: list_all_iff dest: set_dropWhileD set_takeWhileD)
    with None units show ?thesis by (subst decode_loop.simps) (auto split: list.split)
  next
    case (Some p)
    then obtain u rest where p: "split_pwsh_escape t = Some (u, rest)" by (cases p) auto
    from 1(2) [OF p refl] split_pwsh_escape_valid [OF p 1(3)] 1(4) p show ?thesis
      by (subst decode_loop.simps) simp
  qed
qed

lemma valid_decoded: "valid_str t \<Longrightarrow> valid_str (decode_pwsh_escapes t)"
  by (simp add: decode_pwsh_escapes_def valid_decode_loop)

lemma attr_value_valid: "attr_value key attrs = Inr (Some t) \<Longrightarrow> attrs_ok attrs \<Longrightarrow> valid_str t"
  by (induction attrs) (auto simp: attr_value_def attrs_ok_def split: if_splits sum.splits option.splits)

lemma name_attr_valid: "name_attr attrs = Inr n \<Longrightarrow> attrs_ok attrs \<Longrightarrow> valid_str (unwrap_or_default n)"
  by (auto simp: name_attr_def rbind_Inr_iff unwrap_or_default_def valid_decoded dest: attr_value_valid split: option.split)

lemma read_text_loop_valid:
  "read_text_loop closing t evs = Inr (t', rest) \<Longrightarrow> valid_str t \<Longrightarrow> list_all event_ok evs \<Longrightarrow>
     valid_str t' \<and> list_all event_ok rest"
  by (induction closing t evs rule: read_text_loop.induct)
    (auto simp: valid_decoded split: xml_event.splits sum.splits option.splits if_splits)

lemma skip_loop_valid: "skip_loop n evs = Inr rest \<Longrightarrow> list_all event_ok evs \<Longrightarrow> list_all event_ok rest"
  by (induction n evs rule: skip_loop.induct) (auto split: xml_event.splits if_splits)

lemma type_names_valid:
  "parse_type_names_loop names evs = Inr (names', rest) \<Longrightarrow> list_all valid_str names \<Longrightarrow> list_all event_ok evs \<Longrightarrow>
     list_all valid_str names' \<and> list_all event_ok rest"
proof (induction names evs rule: parse_type_names_loop.induct)
  case (2 names ev evs)
  show ?case
  proof (cases ev)
    case (XStart tag attrs)
    show ?thesis
    proof (cases "tag = lit ''T''")
      case True
      with "2.prems"(1) XStart obtain t evs' where t: "read_text (lit ''T'') evs = Inr (t, evs')"
        "parse_type_names_loop (names @ [t]) evs' = Inr (names', rest)"
        by (auto simp: rbind_Inr_iff)
      from t(1) "2.prems"(3) have "valid_str t" "list_all event_ok evs'"
        by (auto simp: read_text_def dest: read_text_loop_valid)
      with "2.IH"(1) [OF XStart True t(1) refl t(2)] "2.prems" show ?thesis by simp
    qed (use 2 XStart in auto)
  qed (use 2 in \<open>auto split: if_splits\<close>)
qed simp

section \<open>The contract of a parser\<close>

definition state_ok :: "dec_state \<Rightarrow> bool" where
  "state_ok st \<longleftrightarrow> (\<forall>r v. refs st r = Some v \<longrightarrow> decoded v)
     \<and> (\<forall>r names. known_names st r = Some names \<longrightarrow> list_all valid_str names)"

definition typed :: "('a \<Rightarrow> bool) \<Rightarrow> ('a \<times> events \<times> dec_state) dec \<Rightarrow> bool" where
  "typed P r \<longleftrightarrow> (\<forall>x evs st. r = Done (x, evs, st) \<longrightarrow> P x \<and> list_all event_ok evs \<and> state_ok st)"

named_theorems typing \<open>how the type of results passes through the parsers' steps\<close>

lemma typed_simps [simp]:
  "typed P Out_Of_Fuel" "typed P (Failed e)"
  "typed P (Done (x, evs, st)) \<longleftrightarrow> P x \<and> list_all event_ok evs \<and> state_ok st"
  by (auto simp: typed_def)

lemma typed_bind [typing]:
  assumes "typed P m" "\<And>x evs st. P x \<Longrightarrow> list_all event_ok evs \<Longrightarrow> state_ok st \<Longrightarrow> typed Q (f (x, evs, st))"
  shows "typed Q (dbind m f)"
proof (cases m)
  case (Done r)
  obtain x evs st where "r = (x, evs, st)" by (cases r)
  with assms Done show ?thesis by simp
qed simp_all

lemma typed_lift [typing]: "(\<And>x. r = Inr x \<Longrightarrow> typed Q (f x)) \<Longrightarrow> typed Q (dbind (dlift r) f)"
  by (cases r) auto

abbreviation opt_decoded :: "ps_value option \<Rightarrow> bool" where
  "opt_decoded v \<equiv> case v of Some v \<Rightarrow> decoded v | None \<Rightarrow> True"

section \<open>References and scalars\<close>

lemma state_ok_simps [simp]:
  "state_ok (st\<lparr>expanded := n\<rparr>) = state_ok st" "state_ok (st\<lparr>depth := n\<rparr>) = state_ok st"
  by (simp_all add: state_ok_def)

lemma charge_ok: "charge w st = Inr st' \<Longrightarrow> state_ok st \<Longrightarrow> state_ok st'"
  by (auto simp: charge_def Let_def split: if_splits)

lemma keep_ref_ok: "keep_ref rid v st = Inr st' \<Longrightarrow> state_ok st \<Longrightarrow> decoded v \<Longrightarrow> state_ok st'"
  by (auto simp: keep_ref_def rbind_Inr_iff dest!: charge_ok split: option.splits if_splits)
    (simp add: state_ok_def)

lemma keep_names_ok: "state_ok st \<Longrightarrow> list_all valid_str names \<Longrightarrow> state_ok (keep_names rid names st)"
  by (simp add: keep_names_def state_ok_def split: option.split)

lemma resolve_ref_ok:
  assumes "resolve_ref attrs st n = Inr (v, st')" "state_ok st"
  shows "decoded v \<and> state_ok st'"
proof -
  obtain r where r: "ref_id_attr attrs = Inr r" using assms(1) by (auto simp: resolve_ref_def rbind_Inr_iff)
  show ?thesis
  proof (cases "Option.bind r (refs st)")
    case (Some target)
    then have "decoded target" using assms(2) by (auto simp: state_ok_def bind_eq_Some_conv)
    moreover obtain w h where "measure_value target = (w, h)" by fastforce
    ultimately show ?thesis using assms r Some
      by (auto simp: resolve_ref_def rbind_Inr_iff dest: charge_ok split: if_splits)
  qed (use assms r in \<open>auto simp: resolve_ref_def\<close>)
qed

lemma parse_empty_ok: "parse_empty tag attrs st = Inr (v, st') \<Longrightarrow> state_ok st \<Longrightarrow> opt_decoded v \<and> state_ok st'"
  by (auto simp: parse_empty_def rbind_Inr_iff dest: resolve_ref_ok split: if_splits)

lemma char_valid: "scalar REPLACEMENT" "char_from_u32 n = Some c \<Longrightarrow> scalar c"
  by (auto simp: char_from_u32_def scalar_def REPLACEMENT_def split: if_splits)

lemma scalar_parsers_typed:
  assumes "map_of (scalar_parsers U F) tag = Some parser" "parser t = Inr v" "valid_str t"
  shows "decoded v"
proof -
  have "(tag, parser) \<in> set (scalar_parsers U F)" using assms(1) by (rule map_of_SomeD)
  then have "scalar_value v" using assms(2,3)
    unfolding scalar_parsers_def
    by (auto simp: map_sum_Inr_iff ok_or_def valid_trim char_valid split: sum.splits option.splits)
  then show ?thesis by (rule Scalar)
qed

section \<open>Objects\<close>

text \<open>An object while its members are collected, and the value embedded in it.\<close>

definition object_ok :: "ps_object \<Rightarrow> bool" where
  "object_ok obj \<longleftrightarrow> distinct (map fst (properties obj)) \<and> to_string obj = None
     \<and> list_all (\<lambda>p. valid_str (fst p) \<and> decoded (snd p)) (properties obj) \<and> list_all valid_str (type_names obj)"

definition pair_decoded :: "ps_value \<times> ps_value \<Rightarrow> bool" where
  "pair_decoded kv \<longleftrightarrow> decoded (fst kv) \<and> decoded (snd kv)"

fun embedded_ok :: "ps_value option \<Rightarrow> bool" where
  "embedded_ok None = True"
| "embedded_ok (Some (PsList vs)) = list_all decoded vs"
| "embedded_ok (Some (PsDict es)) = list_all pair_decoded es"
| "embedded_ok (Some v) = decoded v"

lemma embedded_decoded: "decoded v \<Longrightarrow> embedded_ok (Some v)"
  by (cases v) simp_all

lemma imap_insert_ok:
  "list_all (\<lambda>p. valid_str (fst p) \<and> decoded (snd p)) m \<Longrightarrow> valid_str n \<Longrightarrow> decoded v \<Longrightarrow>
     list_all (\<lambda>p. valid_str (fst p) \<and> decoded (snd p)) (imap_insert n v m)"
  by (induction m) auto

lemma object_insert_ok: "object_ok obj \<Longrightarrow> valid_str n \<Longrightarrow> decoded v \<Longrightarrow> object_ok (object_insert n v obj)"
  by (simp add: object_ok_def object_insert_def object_with_def imap_insert_ok distinct_imap_insert)

lemma object_new_ok [simp]: "object_ok object_new"
  by (simp add: object_ok_def object_new_def)

lemma with_type_names_ok: "object_ok obj \<Longrightarrow> list_all valid_str names \<Longrightarrow> object_ok (with_type_names obj names)"
  by (simp add: object_ok_def with_type_names_def)

lemma use_type_names_ok: "object_ok obj \<Longrightarrow> state_ok st \<Longrightarrow> object_ok (use_type_names rid st obj)"
  by (auto simp: use_type_names_def state_ok_def bind_eq_Some_conv intro!: with_type_names_ok split: option.split)

lemma object_ok_decoded: "object_ok obj \<Longrightarrow> decoded (PsObject obj)"
  by (cases obj) (auto simp: object_ok_def list_all_iff intro: Members)

lemma valid_VALUE_KEY: "valid_str VALUE_KEY"
  by (simp add: VALUE_KEY_def)

lemma expose_embedded_ok:
  assumes "object_ok obj" "embedded_ok embedded"
  shows "decoded (PsObject (expose_embedded embedded obj))"
proof (cases "properties obj = [] \<and> (\<exists>v. embedded = Some v)")
  case True
  then obtain v where v: "embedded = Some v" "properties obj = []" by blast
  then have obj: "obj = Ps_Object [] (type_names obj) None" "list_all valid_str (type_names obj)"
    using assms(1) by (cases obj; simp add: object_ok_def)+
  have "expose_embedded embedded obj = Ps_Object [(VALUE_KEY, v)] (type_names obj) None"
    using v by (subst (1) obj(1)) (simp add: expose_embedded_def object_insert_def object_with_def)
  moreover have "decoded (PsObject (Ps_Object [(VALUE_KEY, v)] (type_names obj) None))"
    using assms(2) v(1) obj(2) valid_VALUE_KEY
    by (cases v) (auto simp: list_all_iff pair_decoded_def intro!: Listed Keyed Members)
  ultimately show ?thesis by simp
next
  case False
  then have "expose_embedded embedded obj = obj" by (auto simp: expose_embedded_def split: option.split)
  then show ?thesis using object_ok_decoded [OF assms(1)] by simp
qed

section \<open>The loops\<close>

lemma set_entry_ok: "pair_decoded kv \<Longrightarrow> decoded v \<Longrightarrow> pair_decoded (set_entry name v kv)"
  by (simp add: pair_decoded_def set_entry_def)

lemma typed_empty:
  assumes "state_ok st" "\<And>v st'. opt_decoded v \<Longrightarrow> state_ok st' \<Longrightarrow> typed Q (f (v, st'))"
  shows "typed Q (dbind (dlift (parse_empty tag attrs st)) f)"
proof (rule typed_lift)
  fix x assume "parse_empty tag attrs st = Inr x"
  with assms parse_empty_ok [of tag attrs st "fst x" "snd x"] show "typed Q (f x)" by (cases x) auto
qed

lemma typed_name:
  assumes "attrs_ok attrs" "\<And>name. valid_str (unwrap_or_default name) \<Longrightarrow> typed Q (f name)"
  shows "typed Q (dbind (dlift (name_attr attrs)) f)"
  using assms by (auto intro!: typed_lift dest: name_attr_valid)

lemma skip_ok: "skip_to_end evs = Inr rest \<Longrightarrow> list_all event_ok evs \<Longrightarrow> list_all event_ok rest"
  unfolding skip_to_end_def by (rule skip_loop_valid)

lemma names_ok:
  "parse_type_names evs = Inr (names, rest) \<Longrightarrow> list_all event_ok evs \<Longrightarrow> list_all valid_str names \<and> list_all event_ok rest"
  by (auto simp: parse_type_names_def dest: type_names_valid)

locale typed_elements =
  fixes elem :: element_parser
  assumes elem_typed: "list_all event_ok evs \<Longrightarrow> state_ok st \<Longrightarrow> typed opt_decoded (elem tag attrs evs st)"
begin

lemma member_set_typed:
  "object_ok obj \<Longrightarrow> list_all event_ok evs \<Longrightarrow> state_ok st \<Longrightarrow> typed object_ok (parse_member_set elem f obj closing evs st)"
proof (induction f arbitrary: obj evs st)
  case (Suc f)
  note step = Suc.IH object_insert_ok typed_empty typed_name typed_bind [OF elem_typed]
  show ?case
  proof (cases evs)
    case (Cons ev evs')
    then have ev: "event_ok ev" "list_all event_ok evs'" using Suc.prems(2) by simp_all
    have nil: "typed object_ok (dbind (dlift (name_attr attrs)) (\<lambda>name. parse_member_set elem f
        (case name of Some n \<Rightarrow> object_insert n PsNull obj | None \<Rightarrow> obj) closing evs' st))" if "attrs_ok attrs" for attrs
      using that ev Suc.prems
      by (intro typed_name) (auto simp: unwrap_or_default_def intro!: Suc.IH object_insert_ok split: option.splits)
    show ?thesis
      using Suc.prems ev Cons
      by (cases ev) (auto intro!: step nil split: option.split)
  qed simp
qed simp

lemma list_typed:
  "list_all decoded items \<Longrightarrow> list_all event_ok evs \<Longrightarrow> state_ok st \<Longrightarrow>
     typed (list_all decoded) (parse_list elem f items closing evs st)"
proof (induction f arbitrary: items evs st)
  case (Suc f)
  then show ?case
    by (cases evs) (auto intro!: Suc.IH typed_empty typed_bind [OF elem_typed] split: xml_event.split option.split)
qed simp

lemma dict_entry_typed:
  "pair_decoded kv \<Longrightarrow> list_all event_ok evs \<Longrightarrow> state_ok st \<Longrightarrow> typed pair_decoded (parse_dict_entry elem f kv evs st)"
proof (induction f arbitrary: kv evs st)
  case (Suc f)
  then show ?case
    by (cases evs)
      (auto intro!: Suc.IH set_entry_ok typed_empty typed_name typed_bind [OF elem_typed] split: xml_event.split option.split)
qed simp

lemma dict_typed:
  "list_all pair_decoded entries \<Longrightarrow> list_all event_ok evs \<Longrightarrow> state_ok st \<Longrightarrow>
     typed (list_all pair_decoded) (parse_dict elem f entries evs st)"
proof (induction f arbitrary: entries evs st)
  case (Suc f)
  then show ?case
    by (cases evs)
      (auto intro!: Suc.IH typed_bind [OF dict_entry_typed] simp: pair_decoded_def split: xml_event.split)
qed simp

lemma obj_body_typed:
  "object_ok obj \<Longrightarrow> embedded_ok embedded \<Longrightarrow> list_all event_ok evs \<Longrightarrow> state_ok st \<Longrightarrow>
     typed (\<lambda>obj. decoded (PsObject obj)) (parse_obj_body elem f obj embedded evs st)"
proof (induction f arbitrary: obj embedded evs st)
  case (Suc f)
  note step = Suc.IH with_type_names_ok use_type_names_ok keep_names_ok typed_lift
    typed_bind [OF member_set_typed] typed_bind [OF list_typed] typed_bind [OF dict_typed] typed_bind [OF elem_typed]
  show ?case
  proof (cases evs)
    case (Cons ev evs')
    have first: "embedded_ok (case embedded of Some w \<Rightarrow> Some w | None \<Rightarrow> v)" if "opt_decoded v" for v
      using that Suc.prems(2) embedded_decoded by (cases v; cases embedded) auto
    show ?thesis
      using Suc.prems Cons
      by (cases ev) (auto intro!: step first expose_embedded_ok dest: skip_ok dest!: names_ok)
  qed simp
qed simp

lemma inner_typed:
  assumes "list_all event_ok evs" "state_ok st"
  shows "typed opt_decoded (parse_element_inner U F elem tag attrs evs st)"
proof (cases "map_of (scalar_parsers U F) tag")
  case None
  then show ?thesis
    using assms
    by (auto simp: parse_element_inner_def
        intro!: typed_lift typed_bind [OF obj_body_typed] dest: resolve_ref_ok keep_ref_ok skip_ok)
next
  case (Some parser)
  then show ?thesis
    using assms
    by (auto simp: parse_element_inner_def read_text_def intro!: typed_lift
        dest: scalar_parsers_typed dest!: read_text_loop_valid)
qed

lemma siblings_typed:
  "list_all decoded vs \<Longrightarrow> list_all event_ok evs \<Longrightarrow> state_ok st \<Longrightarrow>
     parse_siblings elem f vs evs st = Done vs' \<Longrightarrow> list_all decoded vs'"
proof (induction f arbitrary: vs evs st)
  case (Suc f)
  show ?case
  proof (cases evs)
    case (Cons ev evs')
    show ?thesis
    proof (cases ev)
      case (XStart tag attrs)
      have t: "typed opt_decoded (elem tag attrs evs' st)" using Suc.prems Cons by (intro elem_typed) simp_all
      then show ?thesis using Suc Cons XStart
        by (cases "elem tag attrs evs' st") (auto split: option.splits dest!: Suc.IH [rotated 3])
    next
      case (XEmpty tag attrs)
      then show ?thesis using Suc Cons
        by (cases "parse_empty tag attrs st") (auto dest!: parse_empty_ok Suc.IH [rotated 3] split: option.splits)
    qed (use Suc Cons in auto)
  qed (use Suc in simp)
qed simp

end

interpretation typed_element: typed_elements "parse_element U F levels" for U F levels
proof unfold_locales
  show "typed opt_decoded (parse_element U F levels tag attrs evs st)"
    if "list_all event_ok evs" "state_ok st" for tag attrs evs st
    using that
  proof (induction levels arbitrary: tag attrs evs st)
    case (Suc levels)
    then have "typed_elements (parse_element U F levels)" by unfold_locales
    note inner = typed_elements.inner_typed [OF this]
    show ?case using Suc.prems by (auto intro!: typed_bind [OF inner])
  qed simp
qed

lemma lists_under_value: "decoded (PsObject obj) \<Longrightarrow> object_get obj name = Some (PsList vs) \<Longrightarrow> name = VALUE_KEY"
  by (auto simp: object_get_def elim!: decoded.cases dest!: map_of_SomeD split: if_splits) (drule (1) bspec, simp)

lemma decoded_list:
  assumes "\<And>t. list_all event_ok (reader t)" "parse_clixml U F reader xml = Inr vs"
  shows "list_all decoded vs"
proof (cases "parse_clixml_dec U F reader xml")
  case Out_Of_Fuel
  with parse_clixml_dec_runs [of U F reader xml] show ?thesis by simp
next
  case (Done ws)
  have "state_ok (initial_state n evs)" for n evs by (simp add: state_ok_def initial_state_def)
  with Done assms show ?thesis
    by (auto simp: parse_clixml_def parse_clixml_dec_def Let_def dest!: typed_element.siblings_typed [rotated -1])
qed (use assms(2) in \<open>simp add: parse_clixml_def\<close>)

text \<open>
  C8: whatever a document says, every value decoded from it is well typed: its texts are sequences of Unicode
  scalar values, the keys of every object are distinct, no object has a \<open>ToString\<close> text, and a list or a
  dictionary occurs only as the property \<open>_value\<close> of an object, never as an element, a member or on its own.
\<close>

theorem decoded_values_are_well_typed:
  assumes "\<And>t. list_all event_ok (reader t)" "parse_clixml U F reader xml = Inr vs"
  shows "list_all decoded vs"
  using assms by (rule decoded_list)

theorem decoded_values_are_well_typed_witness:
  "decoded (PsObject (Ps_Object [(VALUE_KEY, PsList [PsNull])] [] None))"
  using decoded_values_are_well_typed [OF _ nested_list_parsed]
  by (simp add: nested_list_reader_def attrs_ok_def)

end
