(* ===== verification/Pipelines.thy ===== *)
theory Pipelines
  imports Pool
begin

text \<open>
  Pipelines (\<open>src/src/pipeline.rs\<close>): the builders, the receive loop of
  \<open>run_all_streams_with_cancel\<close>, the handle of a started pipeline with its own loop, and the text
  of a failure.  Parameters: the fresh pid (\<open>Uuid::new_v4\<close>) and \<open>dbg\<close>, the derived \<open>Debug\<close>
  text of a value.
\<close>

section \<open>States and results\<close>

datatype pipeline_state =
    PNotStarted | PRunning | PStopping | PStopped | PCompleted | PFailed | PDisconnected | PUnknown

definition pipeline_state_from_i32 :: "u32 \<Rightarrow> pipeline_state" where
  "pipeline_state_from_i32 v =
     (if v = 0 then PNotStarted else if v = 1 then PRunning else if v = 2 then PStopping
      else if v = 3 then PStopped else if v = 4 then PCompleted else if v = 5 then PFailed
      else if v = 6 then PDisconnected else PUnknown)"

definition pipeline_terminal :: "pipeline_state \<Rightarrow> bool" where
  "pipeline_terminal s \<longleftrightarrow> s = PCompleted \<or> s = PFailed \<or> s = PStopped \<or> s = PDisconnected"

record pipeline_result =
  res_output :: "ps_value list"
  res_errors :: "ps_value list"
  res_warnings :: "ps_value list"
  res_verbose :: "ps_value list"
  res_debug :: "ps_value list"
  res_information :: "ps_value list"
  res_progress :: "ps_value list"
  res_state :: pipeline_state

text \<open>What a run starts from: \<open>PipelineResult::default()\<close> with the state \<open>Running\<close>.\<close>

definition running_result :: pipeline_result where
  "running_result = \<lparr>res_output = [], res_errors = [], res_warnings = [], res_verbose = [],
     res_debug = [], res_information = [], res_progress = [], res_state = PRunning\<rparr>"

definition typed_errors :: "pipeline_result \<Rightarrow> error_record list" where
  "typed_errors r = filter_map error_from_ps_object (res_errors r)"

definition typed_warnings :: "pipeline_result \<Rightarrow> message_record list" where
  "typed_warnings r = filter_map warning_from_ps_object (res_warnings r)"

definition typed_information :: "pipeline_result \<Rightarrow> information_record list" where
  "typed_information r = filter_map information_from_ps_object (res_information r)"

definition typed_progress :: "pipeline_result \<Rightarrow> progress_record list" where
  "typed_progress r = filter_map progress_from_ps_object (res_progress r)"

definition typed_verbose :: "pipeline_result \<Rightarrow> message_record list" where
  "typed_verbose r = filter_map trace_from_ps_object (res_verbose r)"

definition typed_debug :: "pipeline_result \<Rightarrow> message_record list" where
  "typed_debug r = filter_map trace_from_ps_object (res_debug r)"

section \<open>Builders\<close>

datatype argument = Named ustr ps_value | Positional ps_value | Switch ustr

record command =
  cmd_name :: ustr
  cmd_arguments :: "argument list"
  cmd_is_script :: bool
  cmd_merge_errors :: bool

definition command_new :: "ustr \<Rightarrow> command" where
  "command_new name =
     \<lparr>cmd_name = name, cmd_arguments = [], cmd_is_script = False, cmd_merge_errors = False\<rparr>"

definition command_script :: "ustr \<Rightarrow> command" where
  "command_script script =
     \<lparr>cmd_name = script, cmd_arguments = [], cmd_is_script = True, cmd_merge_errors = False\<rparr>"

definition with_parameter :: "command \<Rightarrow> ustr \<Rightarrow> ps_value \<Rightarrow> command" where
  "with_parameter c name v = c\<lparr>cmd_arguments := cmd_arguments c @ [Named name v]\<rparr>"

definition with_argument :: "command \<Rightarrow> ps_value \<Rightarrow> command" where
  "with_argument c v = c\<lparr>cmd_arguments := cmd_arguments c @ [Positional v]\<rparr>"

definition with_switch :: "command \<Rightarrow> ustr \<Rightarrow> command" where
  "with_switch c name = c\<lparr>cmd_arguments := cmd_arguments c @ [Switch name]\<rparr>"

definition merging_errors_to_output :: "command \<Rightarrow> command" where
  "merging_errors_to_output c = c\<lparr>cmd_merge_errors := True\<rparr>"

record pipeline =
  pl_commands :: "command list"
  no_input :: bool
  add_invocation_info :: bool
  add_to_history :: bool
  forced_pid :: "uuid option"

definition pipeline_new :: "ustr \<Rightarrow> pipeline" where
  "pipeline_new script =
     \<lparr>pl_commands = [command_script script], no_input = True, add_invocation_info = True,
      add_to_history = False, forced_pid = None\<rparr>"

definition pipeline_empty :: pipeline where
  "pipeline_empty =
     \<lparr>pl_commands = [], no_input = True, add_invocation_info = True,
      add_to_history = False, forced_pid = None\<rparr>"

definition with_forced_pid :: "pipeline \<Rightarrow> uuid \<Rightarrow> pipeline" where
  "with_forced_pid pl pid = pl\<lparr>forced_pid := Some pid\<rparr>"

definition with_input :: "pipeline \<Rightarrow> bool \<Rightarrow> pipeline" where
  "with_input pl streaming = pl\<lparr>no_input := \<not> streaming\<rparr>"

definition with_history :: "pipeline \<Rightarrow> bool \<Rightarrow> pipeline" where
  "with_history pl add = pl\<lparr>add_to_history := add\<rparr>"

definition add_command :: "pipeline \<Rightarrow> command \<Rightarrow> pipeline" where
  "add_command pl c = pl\<lparr>pl_commands := pl_commands pl @ [c]\<rparr>"

definition pipeline_len :: "pipeline \<Rightarrow> nat" where
  "pipeline_len pl = length (pl_commands pl)"

definition pipeline_is_empty :: "pipeline \<Rightarrow> bool" where
  "pipeline_is_empty pl \<longleftrightarrow> pl_commands pl = []"

section \<open>The CreatePipeline message\<close>

fun arg_spec_of :: "argument \<Rightarrow> pipeline_arg_spec" where
  "arg_spec_of (Named name v) = SpecNamed name v"
| "arg_spec_of (Positional v) = SpecPositional v"
| "arg_spec_of (Switch name) = SpecSwitch name"

definition command_spec_of :: "command \<Rightarrow> pipeline_command_spec" where
  "command_spec_of c =
     \<lparr>spec_name = cmd_name c, spec_is_script = cmd_is_script c, spec_merge = cmd_merge_errors c,
      spec_args = map arg_spec_of (cmd_arguments c)\<rparr>"

definition create_pipeline_xml :: "codec_env \<Rightarrow> pipeline \<Rightarrow> ustr" where
  "create_pipeline_xml K pl =
     build_create_pipeline_xml (uuids K) (floats K) (no_input pl) (add_to_history pl)
       (add_invocation_info pl) (map command_spec_of (pl_commands pl))"

section \<open>Failure messages\<close>

definition MAX_DESCRIBED_ERRORS :: nat where "MAX_DESCRIBED_ERRORS = 8"

definition unless_blank :: "ustr option \<Rightarrow> ustr option" where
  "unless_blank t = (case t of Some s \<Rightarrow> if trim s = [] then None else Some s | None \<Rightarrow> None)"

fun legacy_message :: "ps_value \<Rightarrow> ustr option" where
  "legacy_message (PsObject obj) =
     or_else (Option.bind (object_get obj (lit ''Exception'')) as_str)
       (or_else (Option.bind (object_get obj (lit ''ErrorRecord_Exception'')) as_str)
          (Option.bind (object_get obj (lit ''Exception_Message'')) as_str))"
| "legacy_message _ = None"

definition error_text :: "(ps_value \<Rightarrow> ustr) \<Rightarrow> ps_value \<Rightarrow> ustr" where
  "error_text dbg v =
     (case v of
        PsString s \<Rightarrow> s
      | _ \<Rightarrow>
          (let record = error_from_ps_object v;
               message = unless_blank (Option.bind record (\<lambda>r. Option.bind (er_exception r) exc_message));
               known = or_else message (or_else (legacy_message v)
                 (Option.bind record (\<lambda>r. unless_blank (er_fully_qualified_error_id r))))
           in case known of Some t \<Rightarrow> t | None \<Rightarrow> dbg v))"

definition describe_parts :: "(ps_value \<Rightarrow> ustr) \<Rightarrow> ps_value list \<Rightarrow> ustr list \<times> nat" where
  "describe_parts dbg errors =
     (map (\<lambda>v. escape_remote_text (trim (error_text dbg v)) MAX_SERVER_MESSAGE_CHARS)
        (take MAX_DESCRIBED_ERRORS errors),
      length errors - MAX_DESCRIBED_ERRORS)"

definition join_parts :: "ustr list \<Rightarrow> nat \<Rightarrow> ustr" where
  "join_parts parts left_out =
     (let parts = (if left_out > 0 then parts @ [ELLIPSIS # lit '' and '' @ show_nat left_out @ lit '' more'']
                   else parts)
      in if parts = [] then lit ''unknown error'' else join_str (lit ''; '') parts)"

definition describe_errors :: "(ps_value \<Rightarrow> ustr) \<Rightarrow> ps_value list \<Rightarrow> ustr" where
  "describe_errors dbg errors = (let (parts, left_out) = describe_parts dbg errors in join_parts parts left_out)"

definition failure_message ::
    "codec_env \<Rightarrow> (ps_value \<Rightarrow> ustr) \<Rightarrow> ustr \<Rightarrow> ps_value list \<Rightarrow> ustr" where
  "failure_message K dbg state_data errors =
     (let (parts, left_out) = describe_parts dbg errors;
          parts = (case terminal_state_reason K state_data of
                     Some reason \<Rightarrow> if reason \<in> set parts then parts else reason # parts
                   | None \<Rightarrow> parts)
      in join_parts parts left_out)"

section \<open>One message of a running pipeline\<close>

fun state_code_of :: "ps_value \<Rightarrow> pipeline_state option" where
  "state_code_of (PsObject obj) =
     (case object_get obj (lit ''PipelineState'') of
        Some (PsI32 code) \<Rightarrow> Some (pipeline_state_from_i32 code) | _ \<Rightarrow> None)"
| "state_code_of _ = None"

definition extract_pipeline_state :: "codec_env \<Rightarrow> ustr \<Rightarrow> pipeline_state res" where
  "extract_pipeline_state K t =
     rbind (values_of K t) (\<lambda>vs.
       ok_or (find_map state_code_of vs) (protocol (lit ''missing PipelineState property'')))"

datatype outcome = Continue pipeline_result | Return "pipeline_result res"

definition append_values ::
    "codec_env \<Rightarrow> psrp_message \<Rightarrow> (ps_value list \<Rightarrow> pipeline_result) \<Rightarrow> outcome" where
  "append_values K msg store =
     (case values_of K (msg_data msg) of
        Inl e \<Rightarrow> Return (Inl e)
      | Inr vs \<Rightarrow> Continue (store vs))"

text \<open>The \<open>match\<close> on the type of a message that is for this pipeline; \<open>sg\<close> is \<open>cancel_signalled\<close>.\<close>

definition pipeline_message ::
    "codec_env \<Rightarrow> (ps_value \<Rightarrow> ustr) \<Rightarrow> bool \<Rightarrow> psrp_message \<Rightarrow> pipeline_result \<Rightarrow> outcome" where
  "pipeline_message K dbg sg msg r =
     (case msg_type msg of
        PipelineOutput \<Rightarrow> append_values K msg (\<lambda>vs. r\<lparr>res_output := res_output r @ vs\<rparr>)
      | ErrorRecord \<Rightarrow> append_values K msg (\<lambda>vs. r\<lparr>res_errors := res_errors r @ vs\<rparr>)
      | WarningRecord \<Rightarrow> append_values K msg (\<lambda>vs. r\<lparr>res_warnings := res_warnings r @ vs\<rparr>)
      | VerboseRecord \<Rightarrow> append_values K msg (\<lambda>vs. r\<lparr>res_verbose := res_verbose r @ vs\<rparr>)
      | DebugRecord \<Rightarrow> append_values K msg (\<lambda>vs. r\<lparr>res_debug := res_debug r @ vs\<rparr>)
      | InformationRecord \<Rightarrow>
          append_values K msg (\<lambda>vs. r\<lparr>res_information := res_information r @ vs\<rparr>)
      | ProgressRecord \<Rightarrow> append_values K msg (\<lambda>vs. r\<lparr>res_progress := res_progress r @ vs\<rparr>)
      | PipelineState \<Rightarrow>
          (case extract_pipeline_state K (msg_data msg) of
             Inl e \<Rightarrow> Return (Inl e)
           | Inr st \<Rightarrow>
               (let r = r\<lparr>res_state := st\<rparr> in
                if pipeline_terminal st then
                  if st = PFailed
                  then Return (Inl (PipelineFailed (failure_message K dbg (msg_data msg) (res_errors r))))
                  else if st = PStopped then Return (Inl (if sg then Cancelled else Stopped))
                  else Return (Inr r)
                else Continue r))
      | _ \<Rightarrow> Continue r)"

section \<open>Running\<close>

definition signal_transport_stop ::
    "('t, 'h) pool_env \<Rightarrow> ('t, 'h) pool \<Rightarrow> ('t, 'h) pool \<times> unit res" where
  "signal_transport_stop E p = (case signal_stop (wire E) (link p) of (t, r) \<Rightarrow> (p\<lparr>link := t\<rparr>, r))"

text \<open>
  One turn of the loop, as the cancellation token and the runtime make it: whether the token is
  already cancelled when the turn begins, whether it fires while the turn waits for a message, and
  how far \<open>next_message\<close> gets before that.  \<open>next_message\<close> keeps no state of its own between
  its turns, so dropping its future in \<open>select!\<close> while it waits for the transport leaves the pool
  as it is after so many turns.
\<close>

datatype turn = Turn (already: bool) (fires: bool) (pumped: nat)

fun run_loop ::
    "('t, 'h) pool_env \<Rightarrow> (ps_value \<Rightarrow> ustr) \<Rightarrow> uuid \<Rightarrow> uuid \<Rightarrow> turn list \<Rightarrow> bool
     \<Rightarrow> pipeline_result \<Rightarrow> ('t, 'h) pool \<Rightarrow> ('t, 'h) pool \<times> pipeline_result res option" where
  "run_loop E dbg pid rpid [] sg r p = (p, None)"
| "run_loop E dbg pid rpid (t # ts) sg r p =
     (case (if \<not> sg \<and> already t then signal_transport_stop E p else (p, Inr ())) of
        (p, Inl e) \<Rightarrow> (p, Some (Inl e))
      | (p, Inr u) \<Rightarrow>
          (let sg = (sg \<or> already t) in
           case next_message E (pumped t) p of
             (p, None) \<Rightarrow>
               (if \<not> sg \<and> fires t then
                  case signal_transport_stop E p of
                    (p, Inl e) \<Rightarrow> (p, Some (Inl e))
                  | (p, Inr u) \<Rightarrow> run_loop E dbg pid rpid ts True r p
                else (p, None))
           | (p, Some (Inl e)) \<Rightarrow> (p, Some (Inl (if e = Stopped \<and> sg then Cancelled else e)))
           | (p, Some (Inr msg)) \<Rightarrow>
               (if msg_pid msg \<noteq> pid \<or> msg_rpid msg \<noteq> rpid then run_loop E dbg pid rpid ts sg r p
                else case pipeline_message (codec E) dbg sg msg r of
                  Continue r \<Rightarrow> run_loop E dbg pid rpid ts sg r p
                | Return x \<Rightarrow> (p, Some x))))"

definition empty_pipeline :: psrp_error where
  "empty_pipeline = protocol (lit ''pipeline is empty'')"

definition pid_of :: "uuid \<Rightarrow> pipeline \<Rightarrow> uuid" where
  "pid_of fresh pl = (case forced_pid pl of Some pid \<Rightarrow> pid | None \<Rightarrow> fresh)"

definition run_all_streams_with_cancel ::
    "('t, 'h) pool_env \<Rightarrow> (ps_value \<Rightarrow> ustr) \<Rightarrow> uuid \<Rightarrow> turn list \<Rightarrow> pipeline \<Rightarrow> ('t, 'h) pool
     \<Rightarrow> ('t, 'h) pool \<times> pipeline_result res option" where
  "run_all_streams_with_cancel E dbg fresh ts pl p =
     (if pl_commands pl = [] then (p, Some (Inl empty_pipeline))
      else
        let pid = pid_of fresh pl; rpid = pool_rpid p; body = create_pipeline_xml (codec E) pl in
        case send_pipeline_message E CreatePipeline pid body p of
          (p, Inl e) \<Rightarrow> (p, Some (Inl e))
        | (p, Inr u) \<Rightarrow> run_loop E dbg pid rpid ts False running_result p)"

text \<open>A token that is never cancelled.\<close>

definition never_cancelled :: "nat list \<Rightarrow> turn list" where
  "never_cancelled fs = map (Turn False False) fs"

definition run_all_streams ::
    "('t, 'h) pool_env \<Rightarrow> (ps_value \<Rightarrow> ustr) \<Rightarrow> uuid \<Rightarrow> nat list \<Rightarrow> pipeline \<Rightarrow> ('t, 'h) pool
     \<Rightarrow> ('t, 'h) pool \<times> pipeline_result res option" where
  "run_all_streams E dbg fresh fs pl p = run_all_streams_with_cancel E dbg fresh (never_cancelled fs) pl p"

definition run_with_cancel ::
    "('t, 'h) pool_env \<Rightarrow> (ps_value \<Rightarrow> ustr) \<Rightarrow> uuid \<Rightarrow> turn list \<Rightarrow> pipeline \<Rightarrow> ('t, 'h) pool
     \<Rightarrow> ('t, 'h) pool \<times> ps_value list res option" where
  "run_with_cancel E dbg fresh ts pl p =
     map_prod id (map_option (map_sum id res_output)) (run_all_streams_with_cancel E dbg fresh ts pl p)"

definition run ::
    "('t, 'h) pool_env \<Rightarrow> (ps_value \<Rightarrow> ustr) \<Rightarrow> uuid \<Rightarrow> nat list \<Rightarrow> pipeline \<Rightarrow> ('t, 'h) pool
     \<Rightarrow> ('t, 'h) pool \<times> ps_value list res option" where
  "run E dbg fresh fs pl p =
     map_prod id (map_option (map_sum id res_output)) (run_all_streams E dbg fresh fs pl p)"

section \<open>The handle of a started pipeline\<close>

record ('t, 'h) handle =
  h_pool :: "('t, 'h) pool"
  h_pid :: uuid
  h_rpid :: uuid
  input_closed :: bool

text \<open>The handle borrows the pool; a start that fails leaves the pool to the caller.\<close>

definition start ::
    "('t, 'h) pool_env \<Rightarrow> uuid \<Rightarrow> pipeline \<Rightarrow> ('t, 'h) pool \<Rightarrow> ('t, 'h) pool \<times> ('t, 'h) handle res" where
  "start E fresh pl p =
     (if pl_commands pl = [] then (p, Inl empty_pipeline)
      else
        let pid = pid_of fresh pl; rpid = pool_rpid p; body = create_pipeline_xml (codec E) pl in
        case send_pipeline_message E CreatePipeline pid body p of
          (p, Inl e) \<Rightarrow> (p, Inl e)
        | (p, Inr u) \<Rightarrow>
            (p, Inr \<lparr>h_pool = p, h_pid = pid, h_rpid = rpid, input_closed = no_input pl\<rparr>))"

definition write_input ::
    "('t, 'h) pool_env \<Rightarrow> ps_value \<Rightarrow> ('t, 'h) handle \<Rightarrow> ('t, 'h) handle \<times> unit res" where
  "write_input E v h =
     (if input_closed h
      then (h, Inl (protocol (lit ''pipeline was created with NoInput=true; cannot stream input'')))
      else case send_pipeline_message E PipelineInput (h_pid h) (clixml_of (codec E) v) (h_pool h) of
        (p, r) \<Rightarrow> (h\<lparr>h_pool := p\<rparr>, r))"

definition end_input ::
    "('t, 'h) pool_env \<Rightarrow> ('t, 'h) handle \<Rightarrow> ('t, 'h) handle \<times> unit res" where
  "end_input E h =
     (if input_closed h then (h, Inr ())
      else case send_pipeline_message E EndOfPipelineInput (h_pid h) [] (h_pool h) of
        (p, r) \<Rightarrow> (h\<lparr>input_closed := True, h_pool := p\<rparr>, r))"

definition stop :: "('t, 'h) pool_env \<Rightarrow> ('t, 'h) handle \<Rightarrow> ('t, 'h) handle \<times> unit res" where
  "stop E h = (case signal_transport_stop E (h_pool h) of (p, r) \<Rightarrow> (h\<lparr>h_pool := p\<rparr>, r))"

text \<open>The loop of the handle, which the source writes a second time.\<close>

fun drain_loop ::
    "('t, 'h) pool_env \<Rightarrow> (ps_value \<Rightarrow> ustr) \<Rightarrow> turn list \<Rightarrow> bool \<Rightarrow> pipeline_result
     \<Rightarrow> ('t, 'h) handle \<Rightarrow> ('t, 'h) handle \<times> pipeline_result res option" where
  "drain_loop E dbg [] sg r h = (h, None)"
| "drain_loop E dbg (t # ts) sg r h =
     (case (if \<not> sg \<and> already t then stop E h else (h, Inr ())) of
        (h, Inl e) \<Rightarrow> (h, Some (Inl e))
      | (h, Inr u) \<Rightarrow>
          (let sg = (sg \<or> already t) in
           case next_message E (pumped t) (h_pool h) of
             (p, None) \<Rightarrow>
               (if \<not> sg \<and> fires t then
                  case stop E (h\<lparr>h_pool := p\<rparr>) of
                    (h, Inl e) \<Rightarrow> (h, Some (Inl e))
                  | (h, Inr u) \<Rightarrow> drain_loop E dbg ts True r h
                else (h\<lparr>h_pool := p\<rparr>, None))
           | (p, Some (Inl e)) \<Rightarrow>
               (h\<lparr>h_pool := p\<rparr>, Some (Inl (if e = Stopped \<and> sg then Cancelled else e)))
           | (p, Some (Inr msg)) \<Rightarrow>
               (if msg_pid msg \<noteq> h_pid h \<or> msg_rpid msg \<noteq> h_rpid h
                then drain_loop E dbg ts sg r (h\<lparr>h_pool := p\<rparr>)
                else case pipeline_message (codec E) dbg sg msg r of
                  Continue r \<Rightarrow> drain_loop E dbg ts sg r (h\<lparr>h_pool := p\<rparr>)
                | Return x \<Rightarrow> (h\<lparr>h_pool := p\<rparr>, Some x))))"

definition collect_with_cancel ::
    "('t, 'h) pool_env \<Rightarrow> (ps_value \<Rightarrow> ustr) \<Rightarrow> turn list \<Rightarrow> ('t, 'h) handle
     \<Rightarrow> ('t, 'h) handle \<times> pipeline_result res option" where
  "collect_with_cancel E dbg ts h =
     (case end_input E h of
        (h, Inl e) \<Rightarrow> (h, Some (Inl e))
      | (h, Inr u) \<Rightarrow> drain_loop E dbg ts False running_result h)"

definition collect ::
    "('t, 'h) pool_env \<Rightarrow> (ps_value \<Rightarrow> ustr) \<Rightarrow> nat list \<Rightarrow> ('t, 'h) handle
     \<Rightarrow> ('t, 'h) handle \<times> pipeline_result res option" where
  "collect E dbg fs h =
     (case end_input E h of
        (h, Inl e) \<Rightarrow> (h, Some (Inl e))
      | (h, Inr u) \<Rightarrow> drain_loop E dbg (never_cancelled fs) False running_result h)"

section \<open>Scripts\<close>

text \<open>The two shortcuts of the pool.\<close>

definition pool_run_script ::
    "('t, 'h) pool_env \<Rightarrow> (ps_value \<Rightarrow> ustr) \<Rightarrow> uuid \<Rightarrow> nat list \<Rightarrow> ustr \<Rightarrow> ('t, 'h) pool
     \<Rightarrow> ('t, 'h) pool \<times> ps_value list res option" where
  "pool_run_script E dbg fresh fs script p = run E dbg fresh fs (pipeline_new script) p"

definition pool_run_script_with_cancel ::
    "('t, 'h) pool_env \<Rightarrow> (ps_value \<Rightarrow> ustr) \<Rightarrow> uuid \<Rightarrow> turn list \<Rightarrow> ustr \<Rightarrow> ('t, 'h) pool
     \<Rightarrow> ('t, 'h) pool \<times> ps_value list res option" where
  "pool_run_script_with_cancel E dbg fresh ts script p = run_with_cancel E dbg fresh ts (pipeline_new script) p"

end
