(* ===== verification/Pipeline_Properties.thy ===== *)
theory Pipeline_Properties
  imports Pipelines Pool_Lifecycle Decode_Errors
begin

text \<open>
  Properties of running pipelines: what a run makes of the messages it gets, cancellation, the input
  stream of a handle, the two receive loops, and failure texts.
\<close>

section \<open>What a run makes of its messages\<close>

text \<open>The messages of one pipeline.\<close>

definition own :: "uuid \<Rightarrow> uuid \<Rightarrow> psrp_message \<Rightarrow> bool" where
  "own pid rpid m \<longleftrightarrow> msg_pid m = pid \<and> msg_rpid m = rpid"

text \<open>The reference: take the messages one by one until one of them settles the run.\<close>

fun settled ::
    "codec_env \<Rightarrow> (ps_value \<Rightarrow> ustr) \<Rightarrow> bool \<Rightarrow> psrp_message list \<Rightarrow> pipeline_result
     \<Rightarrow> pipeline_result res option" where
  "settled K dbg sg [] r = None"
| "settled K dbg sg (m # ms) r =
     (case pipeline_message K dbg sg m r of
        Continue r' \<Rightarrow> settled K dbg sg ms r'
      | Return x \<Rightarrow> Some x)"

lemma queued_stop:
  "queued K (p\<lparr>link := (link p)\<lparr>mock_stopped := b\<rparr>\<rparr>) ms = queued K p ms"
  by (simp add: queued_def coming_def)

lemma run_loop_settles:
  assumes "queued K p ms" "\<forall>m\<in>set ms. quiet m" "length ts = length ms"
    "\<forall>t\<in>set ts. already t = c \<and> \<not> fires t \<and> length (inbox (link p)) < pumped t"
  shows "snd (run_loop (mock_env K H C gen) dbg pid rpid ts sg r p)
    = settled K dbg (sg \<or> c) (filter (own pid rpid) ms) r"
  using assms
proof (induction ms arbitrary: ts p sg r)
  case (Cons m ms)
  let ?E = "mock_env K H C gen"
  obtain t ts' where ts: "ts = t # ts'" "length ts' = length ms" using Cons.prems(3) by (cases ts) auto
  have t: "already t = c" "\<not> fires t" "length (inbox (link p)) < pumped t" using Cons.prems(4) ts by auto
  let ?p = "if \<not> sg \<and> c then p\<lparr>link := (link p)\<lparr>mock_stopped := True\<rparr>\<rparr> else p"
  have "queued K ?p (m # ms)" "quiet m" "length (inbox (link ?p)) < pumped t"
    using Cons.prems t by (auto simp: queued_stop)
  from queued_next [OF this, of H C gen] obtain p1 where p1:
    "next_message ?E (pumped t) ?p = (p1, Some (Inr m))" "queued K p1 ms"
    "length (inbox (link p1)) \<le> length (inbox (link p))"
    by (auto split: if_splits)
  have rest: "\<forall>t\<in>set ts'. already t = c \<and> \<not> fires t \<and> length (inbox (link p1)) < pumped t"
    using Cons.prems(4) ts p1(3) by fastforce
  have IH: "snd (run_loop ?E dbg pid rpid ts' (sg \<or> c) r' p1)
      = settled K dbg (sg \<or> c) (filter (own pid rpid) ms) r'" for r'
    using Cons.IH [OF p1(2) _ ts(2) rest, of "sg \<or> c" r'] Cons.prems(2) by simp
  have go: "(if \<not> sg \<and> already t then signal_transport_stop ?E p else (p, Inr ())) = (?p, Inr ())"
    using t(1) by (simp add: signal_transport_stop_def mock_stop_def)
  show ?case
    unfolding ts(1) run_loop.simps go
    using p1(1) t IH by (auto simp: own_def [of _ _ m] split: outcome.splits)
qed simp
section \<open>From the run to the server\<close>

text \<open>What has been taken is what was there: sending leaves the messages on their way.\<close>

lemma send_pipeline_queued:
  assumes "send_pipeline_message (mock_env K H C gen) mt pid body p = (p', r)" "queued K p ms"
  shows "queued K p' ms \<and> inbox (link p') = inbox (link p)"
  using assms
  by (auto simp: send_pipeline_message_def post_def take_object_id_def Let_def mock_send_def
      mock_send_pipeline_def queued_def coming_def split: if_splits option.splits prod.splits sum.splits)

text \<open>A run whose messages are all quiet makes of them what the reference makes of its own.\<close>

lemma quiet_run_settles:
  assumes "queued K p ms" "\<forall>m\<in>set ms. quiet m" "length ts = length ms"
    and "\<forall>t\<in>set ts. already t = c \<and> \<not> fires t \<and> length (inbox (link p)) < pumped t"
    and "pl_commands pl \<noteq> []" "\<not> fail_send (link p)" "unat (next_object_id p) < 2 ^ 64 - 1"
    and "run_all_streams_with_cancel (mock_env K H C gen) dbg fresh ts pl p = (p', result)"
  shows "result = settled K dbg c (filter (own (pid_of fresh pl) (pool_rpid p)) ms) running_result"
proof -
  let ?E = "mock_env K H C gen"
  obtain p1 r where s: "send_pipeline_message ?E CreatePipeline (pid_of fresh pl) (create_pipeline_xml K pl) p = (p1, r)"
    by fastforce
  have r: "r = Inr ()" using send_pipeline_outbox [OF s assms(7,6)] by simp
  have q: "queued K p1 ms" "inbox (link p1) = inbox (link p)"
    using send_pipeline_queued [OF s assms(1)] by auto
  have "(p', result) = run_loop ?E dbg (pid_of fresh pl) (pool_rpid p) ts False running_result p1"
    using assms(5,8) s r by (simp add: run_all_streams_with_cancel_def Let_def)
  then have "result = snd (run_loop ?E dbg (pid_of fresh pl) (pool_rpid p) ts False running_result p1)"
    by (metis snd_conv)
  also have "\<dots> = settled K dbg (False \<or> c) (filter (own (pid_of fresh pl) (pool_rpid p)) ms) running_result"
    by (rule run_loop_settles [OF q(1) assms(2,3)]) (use assms(4) q(2) in simp)
  finally show ?thesis by simp
qed

section \<open>What a result holds\<close>

text \<open>The seven streams of a result with the messages that fill them.\<close>

definition streams :: "(message_type \<times> (pipeline_result \<Rightarrow> ps_value list)) list" where
  "streams = [(PipelineOutput, res_output), (ErrorRecord, res_errors), (WarningRecord, res_warnings),
     (VerboseRecord, res_verbose), (DebugRecord, res_debug), (InformationRecord, res_information),
     (ProgressRecord, res_progress)]"

definition said :: "codec_env \<Rightarrow> message_type \<Rightarrow> psrp_message list \<Rightarrow> ps_value list" where
  "said K mt ms = concat (map (\<lambda>m. case values_of K (msg_data m) of Inr vs \<Rightarrow> vs | Inl e \<Rightarrow> [])
     (filter (\<lambda>m. msg_type m = mt) ms))"

lemma said_Nil [simp]: "said K mt [] = []"
  by (simp add: said_def)

lemma said_Cons: "said K mt (m # ms) = said K mt [m] @ said K mt ms"
  by (simp add: said_def)

lemma append_values_cases:
  "append_values K msg store = Continue r \<longleftrightarrow> (\<exists>vs. values_of K (msg_data msg) = Inr vs \<and> r = store vs)"
  "append_values K msg store = Return x \<longleftrightarrow> (\<exists>e. values_of K (msg_data msg) = Inl e \<and> x = Inl e)"
  by (auto simp: append_values_def split: sum.splits)

lemma pipeline_message_continues:
  assumes "pipeline_message K dbg sg m r = Continue r'" "(mt, get) \<in> set streams"
  shows "get r' = get r @ said K mt [m]"
  using assms
  by (auto simp: pipeline_message_def append_values_cases streams_def said_def Let_def
      split: message_type.splits sum.splits if_splits)

lemma pipeline_message_readable:
  assumes "pipeline_message K dbg sg m r = Continue r'" "msg_type m \<in> fst ` set streams"
  shows "\<exists>vs. values_of K (msg_data m) = Inr vs"
  using assms
  by (auto simp: pipeline_message_def append_values_cases streams_def)

lemma pipeline_message_returns:
  assumes "pipeline_message K dbg sg m r = Return (Inr r')"
  shows "msg_type m = PipelineState \<and> extract_pipeline_state K (msg_data m) = Inr (res_state r')
    \<and> (res_state r' = PCompleted \<or> res_state r' = PDisconnected) \<and> (\<exists>st. r' = r\<lparr>res_state := st\<rparr>)"
  using assms
  by (auto simp: pipeline_message_def append_values_cases Let_def pipeline_terminal_def
      split: message_type.splits sum.splits if_splits)

lemma settle_result:
  assumes "settled K dbg sg ms r = Some (Inr r')"
  shows "\<exists>pre m post. ms = pre @ m # post \<and> msg_type m = PipelineState
    \<and> extract_pipeline_state K (msg_data m) = Inr (res_state r')
    \<and> (res_state r' = PCompleted \<or> res_state r' = PDisconnected)
    \<and> (\<forall>x\<in>set pre. msg_type x \<in> fst ` set streams \<longrightarrow> (\<exists>vs. values_of K (msg_data x) = Inr vs))
    \<and> (\<forall>(mt, get)\<in>set streams. get r' = get r @ said K mt pre)"
  using assms
proof (induction ms arbitrary: r)
  case (Cons m ms)
  show ?case
  proof (cases "pipeline_message K dbg sg m r")
    case (Continue r1)
    with Cons.prems have "settled K dbg sg ms r1 = Some (Inr r')" by simp
    from Cons.IH [OF this] obtain pre last post where *: "ms = pre @ last # post"
      "msg_type last = PipelineState" "extract_pipeline_state K (msg_data last) = Inr (res_state r')"
      "res_state r' = PCompleted \<or> res_state r' = PDisconnected"
      "\<forall>x\<in>set pre. msg_type x \<in> fst ` set streams \<longrightarrow> (\<exists>vs. values_of K (msg_data x) = Inr vs)"
      "\<forall>(mt, get)\<in>set streams. get r' = get r1 @ said K mt pre" by blast
    have "\<forall>(mt, get)\<in>set streams. get r' = get r @ said K mt (m # pre)"
      using *(6) pipeline_message_continues [OF Continue] by (auto simp: said_Cons [of K _ m pre])
    then show ?thesis using * pipeline_message_readable [OF Continue]
      by (intro exI [of _ "m # pre"] exI [of _ last] exI [of _ post]) auto
  next
    case (Return x)
    with Cons.prems have "pipeline_message K dbg sg m r = Return (Inr r')" by simp
    note ended = pipeline_message_returns [OF this]
    then have "\<forall>(mt, get)\<in>set streams. get r' = get r @ said K mt []"
      by (auto simp: streams_def)
    with ended show ?thesis by (intro exI [of _ "[]"] exI [of _ m] exI [of _ ms]) simp
  qed
qed simp

text \<open>
  C18: what a run returns is what the server said, stream by stream: a result is returned only after
  a message of this pipeline that says \<open>Completed\<close> or \<open>Disconnected\<close>, which becomes its state; each
  of its seven streams holds the values of this pipeline's messages of that type before it, all of
  them readable, in the order they came, and nothing else.
\<close>

theorem result_holds_the_streams:
  assumes "queued K p ms" "\<forall>m\<in>set ms. quiet m" "length ts = length ms"
    and "\<forall>t\<in>set ts. already t = c \<and> \<not> fires t \<and> length (inbox (link p)) < pumped t"
    and "pl_commands pl \<noteq> []" "\<not> fail_send (link p)" "unat (next_object_id p) < 2 ^ 64 - 1"
    and "run_all_streams_with_cancel (mock_env K H C gen) dbg fresh ts pl p = (p', Some (Inr r))"
  shows "\<exists>pre m post. filter (own (pid_of fresh pl) (pool_rpid p)) ms = pre @ m # post
    \<and> msg_type m = PipelineState \<and> extract_pipeline_state K (msg_data m) = Inr (res_state r)
    \<and> (res_state r = PCompleted \<or> res_state r = PDisconnected)
    \<and> (\<forall>x\<in>set pre. msg_type x \<in> fst ` set streams \<longrightarrow> (\<exists>vs. values_of K (msg_data x) = Inr vs))
    \<and> (\<forall>(mt, get)\<in>set streams. get r = said K mt pre)"
proof -
  have "settled K dbg c (filter (own (pid_of fresh pl) (pool_rpid p)) ms) running_result = Some (Inr r)"
    using quiet_run_settles [OF assms] by simp
  moreover have "\<forall>(mt, get)\<in>set streams. get running_result = []"
    by (simp add: streams_def running_result_def)
  ultimately show ?thesis using settle_result by (fastforce simp: streams_def)
qed

section \<open>Cancellation\<close>

interpretation stops: pool_traffic "mock_env K H C gen" "\<lambda>_ _. True" "\<lambda>_. True" "\<lambda>_. True"
    "\<lambda>t n k. mock_stopped t = b"
  for K H C gen b
  by unfold_locales (auto simp: mock_send_def mock_send_pipeline_def mock_recv_def mock_close_def
      split: if_splits prod.splits option.splits list.splits sum.splits)

lemma next_message_stopped:
  "next_message (mock_env K H C gen) f p = (p', r) \<Longrightarrow> mock_stopped (link p') = mock_stopped (link p)"
  using stops.next_message_I [of K H C gen f p p' r "mock_stopped (link p)"]
  by (simp add: stops.I_def)

lemma send_pipeline_stopped:
  "send_pipeline_message (mock_env K H C gen) mt pid body p = (p', r)
    \<Longrightarrow> mock_stopped (link p') = mock_stopped (link p)"
  using stops.send_pipeline_I [of K H C gen mt pid body p p' r "mock_stopped (link p)"]
  by (simp add: stops.I_def)

lemma signal_stop_mock:
  "signal_transport_stop (mock_env K H C gen) p = (p\<lparr>link := (link p)\<lparr>mock_stopped := True\<rparr>\<rparr>, Inr ())"
  by (simp add: signal_transport_stop_def mock_stop_def)

lemma values_of_not_stopped: "values_of K t \<noteq> Inl Stopped"
  using parse_clixml_quoted [of "uuids K" "floats K" "xml K" t]
  by (auto simp: values_of_def clixml_def)

lemma pipeline_message_stopped:
  "pipeline_message K dbg True m r \<noteq> Return (Inl Stopped)"
  using values_of_not_stopped [of K "msg_data m"]
  by (auto simp: pipeline_message_def append_values_cases extract_pipeline_state_def Let_def rbind_def
      ok_or_def protocol_def split: message_type.splits sum.splits if_splits option.splits)

lemma run_loop_stopped:
  assumes "run_loop (mock_env K H C gen) dbg pid rpid ts sg r p = (p', Some x)"
    "mock_stopped (link p) = sg"
  shows "mock_stopped (link p') \<longrightarrow> x \<noteq> Inl Stopped"
    and "\<forall>t\<in>set ts. \<not> already t \<and> \<not> fires t \<Longrightarrow> mock_stopped (link p') = sg"
proof -
  let ?E = "mock_env K H C gen"
  have "(mock_stopped (link p') \<longrightarrow> x \<noteq> Inl Stopped)
    \<and> ((\<forall>t\<in>set ts. \<not> already t \<and> \<not> fires t) \<longrightarrow> mock_stopped (link p') = sg)"
    using assms
  proof (induction ts arbitrary: sg r p)
    case (Cons t ts)
    let ?p = "if \<not> sg \<and> already t then p\<lparr>link := (link p)\<lparr>mock_stopped := True\<rparr>\<rparr> else p"
    obtain p1 m where n: "next_message ?E (pumped t) ?p = (p1, m)" by fastforce
    have go: "(if \<not> sg \<and> already t then signal_transport_stop ?E p else (p, Inr ())) = (?p, Inr ())"
      by (simp add: signal_stop_mock)
    have st: "mock_stopped (link p1) = (sg \<or> already t)"
      using next_message_stopped [OF n] Cons.prems(2) by auto
    note step = Cons.prems(1) [unfolded run_loop.simps go, simplified n prod.case Let_def sum.case]
    show ?case
    proof (cases m)
      case None
      then show ?thesis
        using step st Cons.IH [of True r "p1\<lparr>link := (link p1)\<lparr>mock_stopped := True\<rparr>\<rparr>"]
        by (auto simp: signal_stop_mock split: if_splits)
    next
      case (Some y)
      then show ?thesis
        using step st Cons.IH [of "sg \<or> already t" _ p1]
        by (auto simp: pipeline_message_stopped split: sum.splits if_splits outcome.splits)
    qed
  qed simp
  then show "mock_stopped (link p') \<longrightarrow> x \<noteq> Inl Stopped"
    "\<forall>t\<in>set ts. \<not> already t \<and> \<not> fires t \<Longrightarrow> mock_stopped (link p') = sg" by auto
qed

text \<open>
  C19: a stop that the client asked for is never reported as the server's: whatever the token, the
  server and the transport do, once the stop signal has gone out the run does not end in \<open>Stopped\<close>
  (but in \<open>Cancelled\<close>), and a token that never fires sends no signal.
\<close>

theorem stop_is_attributed:
  assumes "run_all_streams_with_cancel (mock_env K H C gen) dbg fresh ts pl p = (p', Some x)"
    "\<not> mock_stopped (link p)"
  shows "(mock_stopped (link p') \<longrightarrow> x \<noteq> Inl Stopped)
    \<and> ((\<forall>t\<in>set ts. \<not> already t \<and> \<not> fires t) \<longrightarrow> \<not> mock_stopped (link p'))"
proof -
  obtain p1 r where s: "send_pipeline_message (mock_env K H C gen) CreatePipeline (pid_of fresh pl)
      (create_pipeline_xml K pl) p = (p1, r)" by fastforce
  have "\<not> mock_stopped (link p1)" using send_pipeline_stopped [OF s] assms(2) by simp
  with assms(1,2) s run_loop_stopped [of K H C gen dbg "pid_of fresh pl" "pool_rpid p" ts False running_result p1 p' x]
  show ?thesis
    by (auto simp: run_all_streams_with_cancel_def Let_def split: if_splits sum.splits)
qed

section \<open>The two receive loops\<close>

lemma drain_loop_run_loop:
  "drain_loop E dbg ts sg r h =
     (case run_loop E dbg (h_pid h) (h_rpid h) ts sg r (h_pool h) of (p, x) \<Rightarrow> (h\<lparr>h_pool := p\<rparr>, x))"
proof (induction ts arbitrary: sg r h)
  case (Cons t ts)
  have same: "h\<lparr>h_pool := h_pool h\<rparr> = h" by (cases h) simp
  obtain p1 a where go: "(if \<not> sg \<and> already t then signal_transport_stop E (h_pool h) else (h_pool h, Inr ())) = (p1, a)"
    by fastforce
  then have go': "(if \<not> sg \<and> already t then stop E h else (h, Inr ())) = (h\<lparr>h_pool := p1\<rparr>, a)"
    by (auto simp: stop_def same split: if_splits)
  obtain p2 m where n: "next_message E (pumped t) p1 = (p2, m)" by fastforce
  have stop': "stop E (h\<lparr>h_pool := p2\<rparr>) = (case signal_transport_stop E p2 of (p, r) \<Rightarrow> (h\<lparr>h_pool := p\<rparr>, r))"
    by (simp add: stop_def split: prod.split)
  show ?case
  proof (cases a)
    case (Inl e)
    then show ?thesis unfolding drain_loop.simps run_loop.simps go go' by simp
  next
    case (Inr u)
    show ?thesis
      unfolding drain_loop.simps run_loop.simps go go' Inr prod.case sum.case Let_def
      by (cases m) (auto simp: n stop' Cons.IH split: sum.split outcome.split prod.split)
  qed
qed (cases h, simp)

text \<open>
  C20: running a pipeline at once is starting it and collecting from the handle: the two receive
  loops, which the source writes out twice, do the same, and a pipeline without input sends nothing
  more when it is collected.
\<close>

theorem run_is_start_and_collect:
  assumes "no_input pl"
  shows "run_all_streams_with_cancel E dbg fresh ts pl p =
    (case start E fresh pl p of
       (p1, Inl e) \<Rightarrow> (p1, Some (Inl e))
     | (p1, Inr h) \<Rightarrow> (case collect_with_cancel E dbg ts h of (h', x) \<Rightarrow> (h_pool h', x)))"
  using assms
  by (auto simp: run_all_streams_with_cancel_def start_def collect_with_cancel_def end_input_def
      drain_loop_run_loop Let_def split: prod.splits sum.splits)

section \<open>The input stream of a handle\<close>

datatype handle_op = Write ps_value | End_Input

fun is_write :: "handle_op \<Rightarrow> bool" where
  "is_write (Write v) \<longleftrightarrow> True"
| "is_write End_Input \<longleftrightarrow> False"

fun handle_ops ::
    "('t, 'h) pool_env \<Rightarrow> handle_op list \<Rightarrow> ('t, 'h) handle \<Rightarrow> ('t, 'h) handle \<times> unit res list" where
  "handle_ops E [] h = (h, [])"
| "handle_ops E (op # ops) h =
     (let (h, r) = (case op of Write v \<Rightarrow> write_input E v h | End_Input \<Rightarrow> end_input E h);
          (h, rs) = handle_ops E ops h
      in (h, r # rs))"

text \<open>Messages with consecutive object ids.\<close>

fun sent_from :: "uuid_api \<Rightarrow> u64 \<Rightarrow> psrp_message list \<Rightarrow> bytes list" where
  "sent_from U n [] = []"
| "sent_from U n (m # ms) = encode_message n (msg_encode U m) # sent_from U (n + 1) ms"

fun input_message :: "codec_env \<Rightarrow> uuid \<Rightarrow> uuid \<Rightarrow> handle_op \<Rightarrow> psrp_message" where
  "input_message K rpid pid (Write v) = to_server PipelineInput rpid pid (clixml_of K v)"
| "input_message K rpid pid End_Input = to_server EndOfPipelineInput rpid pid []"

definition accepted :: "bool \<Rightarrow> handle_op list \<Rightarrow> handle_op list" where
  "accepted closed ops = (if closed then []
     else takeWhile is_write ops @ (if End_Input \<in> set ops then [End_Input] else []))"

fun after_the_end :: "handle_op \<Rightarrow> unit res" where
  "after_the_end (Write v) = Inl (protocol (lit ''pipeline was created with NoInput=true; cannot stream input''))"
| "after_the_end End_Input = Inr ()"

definition answers :: "bool \<Rightarrow> handle_op list \<Rightarrow> unit res list" where
  "answers closed ops = (if closed then map after_the_end ops
     else map (\<lambda>_. Inr ()) (takeWhile is_write ops) @ map after_the_end (dropWhile is_write ops))"

lemma accepted_simps [simp]:
  "accepted True ops = []" "accepted c [] = []"
  "accepted False (Write v # ops) = Write v # accepted False ops"
  "accepted False (End_Input # ops) = [End_Input]"
  by (simp_all add: accepted_def)

lemma answers_simps [simp]:
  "answers c [] = []" "answers True (op # ops) = after_the_end op # answers True ops"
  "answers False (Write v # ops) = Inr () # answers False ops"
  "answers False (End_Input # ops) = Inr () # answers True ops"
  by (simp_all add: answers_def)

text \<open>
  The input stream is a sequence of objects and one end.  Over any series of calls of
  \<open>write_input\<close> and \<open>end_input\<close>, the server gets the objects written before the first end, in order,
  each once, then one end-of-input message, and nothing after it; every write after the end, and
  every write to a pipeline without input, is refused, while ending again does nothing.
\<close>

lemma input_stream_ends_once:
  assumes "handle_ops (mock_env K H C gen) ops h = (h', rs)" "\<not> fail_send (link (h_pool h))"
    "unat (next_object_id (h_pool h)) + length ops < 2 ^ 64"
  shows "outbox (link (h_pool h')) = outbox (link (h_pool h)) @ sent_from (uuids K)
      (next_object_id (h_pool h))
      (map (input_message K (pool_rpid (h_pool h)) (h_pid h)) (accepted (input_closed h) ops))
    \<and> rs = answers (input_closed h) ops
    \<and> input_closed h' = (input_closed h \<or> End_Input \<in> set ops)"
  using assms
proof (induction ops arbitrary: h rs)
  case (Cons op ops)
  let ?E = "mock_env K H C gen"
  obtain h1 r where one: "(case op of Write v \<Rightarrow> write_input ?E v h | End_Input \<Rightarrow> end_input ?E h) = (h1, r)"
    by fastforce
  obtain rs' where rest: "handle_ops ?E ops h1 = (h', rs')" "rs = r # rs'"
    using Cons.prems(1) one by (auto simp: Let_def split: prod.splits)
  have room: "unat (next_object_id (h_pool h)) < 2 ^ 64 - 1" using Cons.prems(3) by simp
  show ?case
  proof (cases "input_closed h")
    case True
    then have "h1 = h" "r = after_the_end op"
      using one by (auto simp: write_input_def end_input_def split: handle_op.splits)
    then show ?thesis using Cons.IH [OF rest(1)] rest(2) Cons.prems True by auto
  next
    case False
    obtain mt body where body: "input_message K (pool_rpid (h_pool h)) (h_pid h) op
        = to_server mt (pool_rpid (h_pool h)) (h_pid h) body"
      and call: "(case op of Write v \<Rightarrow> write_input ?E v h | End_Input \<Rightarrow> end_input ?E h)
        = (case send_pipeline_message ?E mt (h_pid h) body (h_pool h) of (p, r) \<Rightarrow>
             (h\<lparr>input_closed := (op = End_Input), h_pool := p\<rparr>, r))"
      using False
      by (cases op; cases h) (auto simp: write_input_def end_input_def split: prod.split)
    obtain p r' where s: "send_pipeline_message ?E mt (h_pid h) body (h_pool h) = (p, r')" by fastforce
    from send_pipeline_outbox [OF s room Cons.prems(2)]
    have p: "r' = Inr ()" "\<not> fail_send (link p)" "next_object_id p = next_object_id (h_pool h) + 1"
      "outbox (link p) = outbox (link (h_pool h)) @ [encode_message (next_object_id (h_pool h))
         (msg_encode (uuids K) (input_message K (pool_rpid (h_pool h)) (h_pid h) op))]"
      "pool_rpid p = pool_rpid (h_pool h)"
      using body by (auto simp: pool_rpid_def)
    have h1: "h1 = h\<lparr>input_closed := (op = End_Input), h_pool := p\<rparr>" "r = Inr ()"
      using one call s p(1) by auto
    have "unat (next_object_id p) + length ops < 2 ^ 64"
      using p(3) Cons.prems(3) by (simp add: unat_word_ariths(1))
    then show ?thesis
      using Cons.IH [OF rest(1)] p h1 rest(2) False by (cases op) auto
  qed
qed simp

section \<open>Failure texts\<close>

lemma join_str_chars: "c \<in> set (join_str sep parts) \<Longrightarrow> c \<in> set sep \<or> (\<exists>s\<in>set parts. c \<in> set s)"
  by (induction sep parts rule: join_str.induct) auto

lemma join_str_length:
  "(\<And>s. s \<in> set parts \<Longrightarrow> length s \<le> k) \<Longrightarrow> length (join_str sep parts) \<le> (k + length sep) * length parts"
proof (induction sep parts rule: join_str.induct)
  case (3 sep s t ts)
  have "length s \<le> k" "length (join_str sep (t # ts)) \<le> (k + length sep) * length (t # ts)"
    using 3 by auto
  then show ?case by simp
qed auto

lemma join_str_snoc_length:
  "length (join_str sep (parts @ [s])) \<le> length (join_str sep parts) + length sep + length s"
  by (induction sep parts rule: join_str.induct) auto

text \<open>The parts of a failure message: the quoted errors, before them the reason.\<close>

lemma failure_message_parts:
  obtains parts where "failure_message K dbg t errors = join_parts parts (length errors - 8)"
    "length parts \<le> 9" "\<And>s. s \<in> set parts \<Longrightarrow> \<exists>text. s = escape_remote_text text 1024"
proof -
  let ?parts = "fst (describe_parts dbg errors)"
  let ?all = "case terminal_state_reason K t of
      Some reason \<Rightarrow> if reason \<in> set ?parts then ?parts else reason # ?parts | None \<Rightarrow> ?parts"
  have len: "length ?parts \<le> 8" by (simp add: describe_parts_def MAX_DESCRIBED_ERRORS_def)
  have quoted: "\<exists>text. s = escape_remote_text text 1024" if "s \<in> set ?parts" for s
    using that by (auto simp: describe_parts_def MAX_SERVER_MESSAGE_CHARS_def)
  have reason: "\<exists>text. reason = escape_remote_text text 1024" if "terminal_state_reason K t = Some reason" for reason
    using that by (auto simp: terminal_state_reason_def MAX_SERVER_MESSAGE_CHARS_def bind_eq_Some_conv split: if_splits)
  show thesis
  proof (rule that [of ?all])
    show "failure_message K dbg t errors = join_parts ?all (length errors - 8)"
      by (simp add: failure_message_def describe_parts_def MAX_DESCRIBED_ERRORS_def split: option.split)
    show "length ?all \<le> 9" using len by (auto split: option.split)
    show "\<exists>text. s = escape_remote_text text 1024" if "s \<in> set ?all" for s
      using that quoted reason by (auto split: option.splits if_splits)
  qed
qed

text \<open>
  The text of a failed run is safe to show and bounded, whatever the server wrote into the reason
  and the errors: it holds no control, bidirectional or invisible formatting character, and at
  most nine parts of 9217 characters with their separators, then how many errors were left out.
\<close>

lemma failure_message_is_quoted:
  "(\<forall>c\<in>set (failure_message K dbg t errors). \<not> rewrites_output c)
   \<and> length (failure_message K dbg t errors) \<le> 83000 + length (show_nat (length errors - 8))"
proof -
  obtain parts where parts: "failure_message K dbg t errors = join_parts parts (length errors - 8)"
    "length parts \<le> 9" "\<And>s. s \<in> set parts \<Longrightarrow> \<exists>text. s = escape_remote_text text 1024"
    using failure_message_parts by blast
  let ?left = "ELLIPSIS # lit '' and '' @ show_nat (length errors - 8) @ lit '' more''"
  let ?all = "if length errors - 8 > 0 then parts @ [?left] else parts"
  have whole: "failure_message K dbg t errors = (if ?all = [] then lit ''unknown error'' else join_str (lit ''; '') ?all)"
    using parts(1) by (simp add: join_parts_def)
  have safe_lit: "\<not> rewrites_output c" if "c \<in> set (lit ''unknown error'') \<union> set (lit ''; '') \<union> set (lit '' and '') \<union> set (lit '' more'')" for c
    using that by (auto simp: lit_def)
  have safe_dots: "\<not> rewrites_output ELLIPSIS"
    by (simp add: ELLIPSIS_def rewrites_output_def is_control_def)
  have safe: "\<not> rewrites_output c" if "s \<in> set ?all" "c \<in> set s" for s c
    using that parts(3) escape_remote_text_printable safe_lit safe_dots
    by (fastforce split: if_splits dest: show_nat_digits)
  have short: "length s \<le> 9217" if "s \<in> set parts" for s
    using parts(3) [OF that] escape_remote_text_length [of _ 1024] by auto
  have join: "length (join_str (lit ''; '') parts) \<le> 82971"
  proof -
    have "length (join_str (lit ''; '') parts) \<le> 9219 * length parts"
      using join_str_length [of parts 9217 "lit ''; ''"] short by (simp add: lit_def)
    with parts(2) show ?thesis by linarith
  qed
  have left: "length ?left = 11 + length (show_nat (length errors - 8))"
    by (simp add: lit_def)
  have "length (join_str (lit ''; '') ?all) \<le> 83000 + length (show_nat (length errors - 8))"
    using join left join_str_snoc_length [of "lit ''; ''" parts ?left] by (auto simp: lit_def)
  moreover have "\<not> rewrites_output c" if "c \<in> set (join_str (lit ''; '') ?all)" for c
    using join_str_chars [OF that] safe safe_lit by blast
  ultimately show ?thesis
    unfolding whole using safe_lit by (auto simp: lit_def)
qed

section \<open>The end of a stream\<close>

text \<open>
  When the transport delivers an empty chunk, \<open>next_message\<close> makes up a \<open>PipelineState\<close> message that
  says \<open>Completed\<close>.  Its pid is nil, so that a run drops it with the messages of other pipelines, and
  asks again: a transport that has nothing more to say never ends a run.
\<close>

lemma end_of_stream_never_ends_a_run:
  assumes "inbox (link p) = replicate (length ts) []" "fail_recv (link p) = None"
    "deferred_host_responses p = []" "pending_messages p = []" "is_idle (reasm p)"
    "pid \<noteq> nil_uuid" "\<forall>t\<in>set ts. \<not> already t \<and> 0 < pumped t"
  shows "snd (run_loop (mock_env K H C gen) dbg pid rpid ts sg r p) = None"
  using assms
proof (induction ts arbitrary: p)
  case (Cons t ts)
  let ?p = "p\<lparr>link := (link p)\<lparr>inbox := replicate (length ts) []\<rparr>\<rparr>"
  obtain f where f: "pumped t = Suc f" using Cons.prems(7) by (cases "pumped t") auto
  have "next_message (mock_env K H C gen) (pumped t) p = (?p, Some (Inr (end_of_stream K (pool_rpid ?p))))"
    using Cons.prems by (simp add: f flush_if_keyed_def read_chunk_def mock_recv_def Let_def)
  then show ?case
    using Cons.IH [of ?p] Cons.prems by (simp add: end_of_stream_def)
qed simp

section \<open>Examples\<close>

text \<open>A pool whose server says \<open>Completed\<close> twice, first for another pipeline.\<close>

definition completed_members :: "member list" where
  "completed_members = [MemI32 (lit ''PipelineState'') (lit ''4'')]"

definition completed_for :: "uuid \<Rightarrow> psrp_message" where
  "completed_for pid = \<lparr>msg_destination = Client, msg_type = PipelineState, msg_rpid = 7, msg_pid = pid,
     msg_data = [65]\<rparr>"

definition answered_pool :: "(mock, unit) pool" where
  "answered_pool = (sample_pool [])\<lparr>pending_messages := [completed_for 5, completed_for 6]\<rparr>"

lemma completed_read:
  "extract_pipeline_state (scripted_codec (document completed_members)) t = Inr PCompleted"
proof -
  have "good_members completed_members" "completed_members \<noteq> []"
    by (simp_all add: good_members_def completed_members_def small_numbers)
  moreover have "insert_members object_new completed_members = Ps_Object [(lit ''PipelineState'', PsI32 4)] [] None"
    by (simp add: completed_members_def small_numbers object_insert_def object_with_def object_new_def)
  ultimately show ?thesis
    by (simp add: extract_pipeline_state_def values_of_document object_get_def pipeline_state_from_i32_def)
qed

lemma answered_pool_queued:
  "queued (scripted_codec (document completed_members)) answered_pool [completed_for 6, completed_for 5]"
  "\<forall>m\<in>set [completed_for 6, completed_for 5]. quiet m"
  "\<not> fail_send (link answered_pool)" "unat (next_object_id answered_pool) < 2 ^ 64 - 1"
  "pool_rpid answered_pool = 7" "inbox (link answered_pool) = []" "\<not> mock_stopped (link answered_pool)"
  by (simp_all add: queued_def coming_def answered_pool_def sample_pool_def fresh_pool_def mock_new_def quiet_def
      completed_for_def pool_rpid_def)

definition forced :: pipeline where
  "forced = with_forced_pid (pipeline_new (lit ''Get-Date'')) 5"

lemma forced_simps [simp]: "pl_commands forced \<noteq> []" "pid_of fresh forced = 5" "no_input forced"
  by (simp_all add: forced_def pid_of_def with_forced_pid_def pipeline_new_def)

definition answered_run :: "(mock, unit) pool \<times> pipeline_result res option" where
  "answered_run = run_all_streams_with_cancel (mock_env (scripted_codec (document completed_members))
     no_interaction_host shift_cipher (\<lambda>_. Inr broken_key)) (\<lambda>_. []) 0
     [Turn False False 1, Turn False False 1] forced answered_pool"

lemma own_answer: "own 5 7 (completed_for 5)" "\<not> own 5 7 (completed_for 6)"
  by (simp_all add: own_def completed_for_def)

text \<open>What the run returns.\<close>

lemma answered_run_returns:
  "\<exists>p'. answered_run = (p', Some (Inr (running_result\<lparr>res_state := PCompleted\<rparr>))) \<and> mock_stopped (link p') = False"
proof -
  let ?E = "mock_env (scripted_codec (document completed_members)) no_interaction_host shift_cipher
      (\<lambda>_. Inr broken_key) :: (mock, unit) pool_env"
  obtain p1 r where s: "send_pipeline_message ?E CreatePipeline 5
      (create_pipeline_xml (scripted_codec (document completed_members)) forced) answered_pool = (p1, r)"
    by fastforce
  have facts: "r = Inr ()" "pending_messages p1 = [completed_for 5, completed_for 6]"
      "deferred_host_responses p1 = []" "\<not> mock_stopped (link p1)"
    using send_pipeline_outbox [OF s answered_pool_queued(4,3)] send_pipeline_stopped [OF s]
    by (simp_all add: answered_pool_def sample_pool_def fresh_pool_def mock_new_def)
  have "quiet (completed_for pid)" for pid by (simp add: quiet_def completed_for_def)
  then have take: "take_message ?E (completed_for pid) p = (p, Inr (Some (completed_for pid)))" for pid p
    by (simp add: take_message_def quiet_def)
  show ?thesis
    using s facts take
    by (simp add: answered_run_def run_all_streams_with_cancel_def answered_pool_queued(5) Let_def
        flush_if_keyed_def pipeline_message_def completed_read pipeline_terminal_def completed_for_def)
qed

theorem result_holds_the_streams_witness:
  "\<exists>p' r. answered_run = (p', Some (Inr r)) \<and> res_output r = []"
proof -
  obtain p' where r: "answered_run = (p', Some (Inr (running_result\<lparr>res_state := PCompleted\<rparr>)))"
    using answered_run_returns by blast
  from result_holds_the_streams [OF answered_pool_queued(1,2) _ _ _ answered_pool_queued(3,4)
      r [unfolded answered_run_def], of False]
  obtain pre m post where "[completed_for 5] = pre @ m # post"
    "\<forall>(mt, get)\<in>set streams. get (running_result\<lparr>res_state := PCompleted\<rparr>)
       = said (scripted_codec (document completed_members)) mt pre"
    by (auto simp: answered_pool_queued(5,6) own_answer)
  then have "res_output (running_result\<lparr>res_state := PCompleted\<rparr>) = []"
    by (cases pre) (auto simp: streams_def)
  with r show ?thesis by blast
qed

theorem stop_is_attributed_witness:
  "\<exists>p' x. answered_run = (p', Some x) \<and> mock_stopped (link p') = False"
proof -
  obtain p' x where r: "answered_run = (p', Some x)" using answered_run_returns by blast
  from stop_is_attributed [OF r [unfolded answered_run_def] answered_pool_queued(7)]
  have "\<not> mock_stopped (link p')" by simp
  with r show ?thesis by blast
qed

theorem run_is_start_and_collect_witness:
  "answered_run =
    (case start (mock_env (scripted_codec (document completed_members)) no_interaction_host shift_cipher
        (\<lambda>_. Inr broken_key)) 0 forced answered_pool of
       (p1, Inl e) \<Rightarrow> (p1, Some (Inl e))
     | (p1, Inr h) \<Rightarrow> (case collect_with_cancel (mock_env (scripted_codec (document completed_members))
          no_interaction_host shift_cipher (\<lambda>_. Inr broken_key)) (\<lambda>_. [])
          [Turn False False 1, Turn False False 1] h of (h', x) \<Rightarrow> (h_pool h', x)))"
  unfolding answered_run_def by (rule run_is_start_and_collect) simp

definition open_handle :: "(mock, unit) handle" where
  "open_handle = \<lparr>h_pool = sample_pool [], h_pid = 5, h_rpid = 7, input_closed = False\<rparr>"

lemma input_stream_ends_once_witness:
  "length (outbox (link (h_pool (fst (handle_ops (sample_env [])
      [Write PsNull, End_Input, Write (PsBool True), End_Input] open_handle))))) = 2"
proof -
  let ?ops = "[Write PsNull, End_Input, Write (PsBool True), End_Input]"
  obtain h' rs where h: "handle_ops (sample_env []) ?ops open_handle = (h', rs)" by fastforce
  have "outbox (link (h_pool open_handle)) = []" "\<not> fail_send (link (h_pool open_handle))"
    "unat (next_object_id (h_pool open_handle)) + length ?ops < 2 ^ 64" "\<not> input_closed open_handle"
    by (simp_all add: open_handle_def sample_pool_def fresh_pool_def mock_new_def)
  with input_stream_ends_once [OF h [unfolded sample_env_def]] h show ?thesis by simp
qed

lemma failure_message_is_quoted_witness:
  "length (failure_message (scripted_codec []) (\<lambda>_. []) [] [PsString [27, 91, 50, 74]]) \<le> 83001"
proof -
  have "length (show_nat (length [PsString [27, 91, 50, 74]] - 8)) = 1" by (simp add: show_nat.simps)
  with failure_message_is_quoted [of "scripted_codec []" "\<lambda>_. []" "[]" "[PsString [27, 91, 50, 74]]"]
  show ?thesis by simp
qed

end
