(* ===== verification/Packets.thy ===== *)
theory Packets
  imports Base64 Errors Uuids Escapes
begin

text \<open>
  The OutOfProc packets of \<open>src/src/out_of_proc/packet.rs\<close>, one XML element per line: rendering and
  parsing a line, and cutting the server's bytes into lines.

  Parameters, bundled in \<open>line_env\<close>: the \<open>uuid\<close> interface, the third-party XML reader (a function
  from a line to its events) and the characters the standard library's \<open>char::escape_debug\<close> takes for
  unprintable or combining (\<open>hidden\<close>).
\<close>

section \<open>Interfaces\<close>

text \<open>
  The events of a line; after the last one the reader delivers \<open>Eof\<close>.  An element carries what
  iterating over its attributes delivers: the text of an error, or a name with its normalized value
  or the text of the error in it.
\<close>

type_synonym line_attr = "ustr + ustr \<times> (ustr + ustr)"

datatype line_event =
    LStart ustr "line_attr list"
  | LEmpty ustr "line_attr list"
  | LEnd ustr
  | LText ustr
  | LOther
  | LFail ustr

record line_env =
  line_uuids :: uuid_api
  line_reader :: "ustr \<Rightarrow> line_event list"
  hidden :: "uchar \<Rightarrow> bool"

section \<open>Quoting a line\<close>

definition QUOTED_LINE_CHARS :: nat where "QUOTED_LINE_CHARS = 80"
definition QUOTED_LINE_BYTES :: nat where "QUOTED_LINE_BYTES = (QUOTED_LINE_CHARS + 1) * 4"

text \<open>\<open>char::escape_debug\<close>.\<close>

definition escape_debug :: "(uchar \<Rightarrow> bool) \<Rightarrow> uchar \<Rightarrow> ustr" where
  "escape_debug hid c =
     (if c = 0 \<or> c = 9 \<or> c = 10 \<or> c = 13 then escape_debug_unprintable c
      else if c = 0x22 \<or> c = 0x27 \<or> c = 0x5C then [0x5C, c]
      else if hid c then escape_debug_unprintable c
      else [c])"

definition snippet :: "(uchar \<Rightarrow> bool) \<Rightarrow> ustr \<Rightarrow> ustr" where
  "snippet hid t =
     concat (map (escape_debug hid) (take QUOTED_LINE_CHARS t))
     @ (if QUOTED_LINE_CHARS < length t then [ELLIPSIS] else [])"

definition quote :: "(uchar \<Rightarrow> bool) \<Rightarrow> ustr \<Rightarrow> ustr" where
  "quote hid line = 0x22 # snippet hid line @ [0x22]"

definition quote_bytes :: "(uchar \<Rightarrow> bool) \<Rightarrow> bytes \<Rightarrow> ustr" where
  "quote_bytes hid bs = quote hid (from_utf8_lossy (take QUOTED_LINE_BYTES bs))"

section \<open>Packets\<close>

definition MAX_DATA_PAYLOAD :: nat where "MAX_DATA_PAYLOAD = 32 * 1024"
definition MAX_LINE_BYTES :: nat where "MAX_LINE_BYTES = 2 ^ 20"

definition SERVER_ERROR_PREFIX :: ustr where
  "SERVER_ERROR_PREFIX = lit ''__NamedPipeError__:''"

datatype stream = Default | PromptResponse

fun stream_as_str :: "stream \<Rightarrow> ustr" where
  "stream_as_str Default = lit ''Default''"
| "stream_as_str PromptResponse = lit ''PromptResponse''"

definition stream_parse :: "ustr \<Rightarrow> stream option" where
  "stream_parse s = find (\<lambda>v. eq_ignore_ascii_case (stream_as_str v) s) [Default, PromptResponse]"

datatype packet =
    Data stream uuid bytes
  | DataAck uuid
  | Command uuid
  | CommandAck uuid
  | Signal uuid
  | SignalAck uuid
  | Close uuid
  | CloseAck uuid

definition bare_line :: "uuid_api \<Rightarrow> string \<Rightarrow> uuid \<Rightarrow> ustr" where
  "bare_line U name g = lit ''<'' @ lit name @ lit '' PSGuid='' @ [0x27] @ hyphenated U g @ [0x27]
     @ lit '' />'' @ [10]"

fun to_line :: "uuid_api \<Rightarrow> packet \<Rightarrow> ustr" where
  "to_line U (Data s g payload) =
     lit ''<Data Stream='' @ [0x27] @ stream_as_str s @ [0x27] @ lit '' PSGuid='' @ [0x27]
     @ hyphenated U g @ [0x27] @ lit ''>'' @ base64_encode payload @ lit ''</Data>'' @ [10]"
| "to_line U (DataAck g) = bare_line U ''DataAck'' g"
| "to_line U (Command g) = bare_line U ''Command'' g"
| "to_line U (CommandAck g) = bare_line U ''CommandAck'' g"
| "to_line U (Signal g) = bare_line U ''Signal'' g"
| "to_line U (SignalAck g) = bare_line U ''SignalAck'' g"
| "to_line U (Close g) = bare_line U ''Close'' g"
| "to_line U (CloseAck g) = bare_line U ''CloseAck'' g"

section \<open>Parsing a line\<close>

fun next_event ::
    "(uchar \<Rightarrow> bool) \<Rightarrow> line_event list \<Rightarrow> ustr + line_event option \<times> line_event list" where
  "next_event hid [] = Inr (None, [])"
| "next_event hid (LFail e # evs) = Inl (snippet hid e)"
| "next_event hid (ev # evs) = Inr (Some ev, evs)"

fun attributes ::
    "(uchar \<Rightarrow> bool) \<Rightarrow> nat \<Rightarrow> ustr \<Rightarrow> (ustr \<times> ustr) list \<Rightarrow> line_attr list
     \<Rightarrow> ustr + (ustr \<times> ustr) list" where
  "attributes hid limit want out [] = Inr out"
| "attributes hid limit want out (Inl e # attrs) = Inl (snippet hid e)"
| "attributes hid limit want out (Inr (name, v) # attrs) =
     (if length out \<ge> limit then Inl want
      else case v of
        Inl e \<Rightarrow> Inl (snippet hid e)
      | Inr v \<Rightarrow> attributes hid limit want (out @ [(name, v)]) attrs)"

definition parse_guid :: "uuid_api \<Rightarrow> ustr \<Rightarrow> ustr + uuid" where
  "parse_guid U v = (case parse_str U v of Inl e \<Rightarrow> Inl (lit ''invalid PSGuid'') | Inr g \<Rightarrow> Inr g)"

definition guid_attribute :: "line_env \<Rightarrow> line_attr list \<Rightarrow> ustr + uuid" where
  "guid_attribute L attrs =
     (let want = lit ''expected exactly one attribute, PSGuid'' in
      rbind (attributes (hidden L) 1 want [] attrs) (\<lambda>as.
        case as of
          [(name, v)] \<Rightarrow> if name = lit ''PSGuid'' then parse_guid (line_uuids L) v else Inl want
        | _ \<Rightarrow> Inl want))"

definition parse_stream :: "ustr \<Rightarrow> ustr + stream" where
  "parse_stream v = ok_or (stream_parse v) (lit ''unknown Stream'')"

definition data_attributes :: "line_env \<Rightarrow> line_attr list \<Rightarrow> ustr + stream \<times> uuid" where
  "data_attributes L attrs =
     (let want = lit ''expected exactly the attributes Stream and PSGuid'' in
      rbind (attributes (hidden L) 2 want [] attrs) (\<lambda>as.
        case as of
          [(a, x), (b, y)] \<Rightarrow>
            if a = lit ''Stream'' \<and> b = lit ''PSGuid'' then
              rbind (parse_stream x) (\<lambda>s. rbind (parse_guid (line_uuids L) y) (\<lambda>g. Inr (s, g)))
            else if a = lit ''PSGuid'' \<and> b = lit ''Stream'' then
              rbind (parse_stream y) (\<lambda>s. rbind (parse_guid (line_uuids L) x) (\<lambda>g. Inr (s, g)))
            else Inl want
        | _ \<Rightarrow> Inl want))"

definition bare_packets :: "(ustr \<times> (uuid \<Rightarrow> packet)) list" where
  "bare_packets = [(lit ''DataAck'', DataAck), (lit ''Command'', Command),
     (lit ''CommandAck'', CommandAck), (lit ''Signal'', Signal), (lit ''SignalAck'', SignalAck),
     (lit ''Close'', Close), (lit ''CloseAck'', CloseAck)]"

text \<open>The content of a \<open><Data>\<close> element: one text, then its end.\<close>

definition data_content :: "line_env \<Rightarrow> line_event list \<Rightarrow> ustr + ustr \<times> line_event list" where
  "data_content L evs =
     rbind (next_event (hidden L) evs) (\<lambda>(ev, evs).
       case ev of
         Some (LText t) \<Rightarrow>
           rbind (next_event (hidden L) evs) (\<lambda>(ev, evs).
             if ev = Some (LEnd (lit ''Data'')) then Inr (t, evs)
             else Inl (lit ''<Data> not closed right after its content''))
       | _ \<Rightarrow> Inl (lit ''<Data> without content''))"

definition parse_packet_element :: "line_env \<Rightarrow> ustr \<Rightarrow> ustr + packet" where
  "parse_packet_element L line =
     rbind (rbind (next_event (hidden L) (line_reader L line)) (\<lambda>(ev, evs).
       case ev of
         Some (LStart name attrs) \<Rightarrow>
           if name \<noteq> lit ''Data''
           then Inl (lit ''unexpected element <'' @ snippet (hidden L) name @ lit ''>'')
           else
             rbind (data_attributes L attrs) (\<lambda>(s, g).
             rbind (data_content L evs) (\<lambda>(t, evs).
             rbind (ok_or (base64_decode t) (lit ''invalid base64 in <Data>'')) (\<lambda>payload.
             if payload = [] then Inl (lit ''empty <Data> content'')
             else Inr (Data s g payload, evs))))
       | Some (LEmpty name attrs) \<Rightarrow>
           (case map_of bare_packets name of
              None \<Rightarrow> Inl (lit ''unexpected element <'' @ snippet (hidden L) name @ lit ''/>'')
            | Some packet_of \<Rightarrow> rbind (guid_attribute L attrs) (\<lambda>g. Inr (packet_of g, evs)))
       | _ \<Rightarrow> Inl (lit ''not a single packet element'')))
     (\<lambda>(p, evs).
       rbind (next_event (hidden L) evs) (\<lambda>(ev, evs).
         if ev = None then Inr p else Inl (lit ''content after the packet element'')))"

definition server_error :: "ustr \<Rightarrow> ustr option" where
  "server_error line =
     (case split_at_checked (utf8_len SERVER_ERROR_PREFIX) line of
        Some (head, message) \<Rightarrow> if eq_ignore_ascii_case head SERVER_ERROR_PREFIX then Some message else None
      | None \<Rightarrow> None)"

definition parse_line :: "line_env \<Rightarrow> ustr \<Rightarrow> packet option res" where
  "parse_line L line =
     (if trim line = [] then Inr None
      else case server_error line of
        Some message \<Rightarrow>
          Inl (protocol (lit ''PowerShell reported a protocol error: ''
            @ escape_remote_text message MAX_SERVER_MESSAGE_CHARS))
      | None \<Rightarrow>
          (case parse_packet_element L (trim line) of
             Inr p \<Rightarrow> Inr (Some p)
           | Inl why \<Rightarrow> Inl (protocol (lit ''malformed OutOfProc line ('' @ why @ lit ''): ''
               @ quote (hidden L) line))))"

section \<open>Cutting bytes into lines\<close>

record line_splitter =
  ls_buf :: bytes
  seen_first_line :: bool

definition splitter_new :: line_splitter where
  "splitter_new = \<lparr>ls_buf = [], seen_first_line = False\<rparr>"

definition too_long :: psrp_error where
  "too_long = protocol (lit ''OutOfProc line exceeds '' @ show_nat MAX_LINE_BYTES @ lit '' bytes'')"

definition strip_cr :: "bytes \<Rightarrow> bytes" where
  "strip_cr line = (if line \<noteq> [] \<and> last line = 13 then butlast line else line)"

definition finish_line ::
    "(uchar \<Rightarrow> bool) \<Rightarrow> bytes \<Rightarrow> line_splitter \<Rightarrow> line_splitter \<times> ustr res" where
  "finish_line hid line sp =
     (if length line > MAX_LINE_BYTES then (sp, Inl too_long)
      else
        let line = strip_cr line in
        case from_utf8 line of
          Inl e \<Rightarrow> (sp, Inl (protocol (lit ''OutOfProc line is not valid UTF-8 ('' @ utf8_error_text e
            @ lit ''): '' @ quote_bytes hid line)))
        | Inr t \<Rightarrow>
            (sp\<lparr>seen_first_line := True\<rparr>,
             Inr (if seen_first_line sp then t
                  else case t of c # rest \<Rightarrow> if c = BOM_CHAR then rest else t | [] \<Rightarrow> t)))"

text \<open>One line that a newline has ended, its head in the buffer.\<close>

definition end_line ::
    "(uchar \<Rightarrow> bool) \<Rightarrow> bytes \<Rightarrow> line_splitter \<Rightarrow> line_splitter \<times> ustr res" where
  "end_line hid head sp =
     (if ls_buf sp = [] then finish_line hid head sp
      else if length (ls_buf sp) + length head > MAX_LINE_BYTES then (sp, Inl too_long)
      else finish_line hid (ls_buf sp @ head) (sp\<lparr>ls_buf := []\<rparr>))"

lemma dropWhile_tail_length: "dropWhile P xs = y # ys \<Longrightarrow> length ys < length xs"
  using length_dropWhile_le [of P xs] by simp

function push_loop ::
    "(uchar \<Rightarrow> bool) \<Rightarrow> ustr list \<Rightarrow> bytes \<Rightarrow> line_splitter
     \<Rightarrow> line_splitter \<times> ustr list \<times> psrp_error option" where
  "push_loop hid lines rest sp =
     (case dropWhile (\<lambda>b. b \<noteq> 10) rest of
        [] \<Rightarrow>
          if length (ls_buf sp) + length rest > MAX_LINE_BYTES then (sp, lines, Some too_long)
          else (sp\<lparr>ls_buf := ls_buf sp @ rest\<rparr>, lines, None)
      | nl # tail \<Rightarrow>
          (case end_line hid (takeWhile (\<lambda>b. b \<noteq> 10) rest) sp of
             (sp, Inl e) \<Rightarrow> (sp, lines, Some e)
           | (sp, Inr line) \<Rightarrow> push_loop hid (lines @ [line]) tail sp))"
  by pat_completeness auto

termination
  by (relation "measure (\<lambda>(hid, lines, rest, sp). length rest)") (auto dest: dropWhile_tail_length)

declare push_loop.simps [simp del]

definition push ::
    "(uchar \<Rightarrow> bool) \<Rightarrow> bytes \<Rightarrow> line_splitter \<Rightarrow> line_splitter \<times> ustr list \<times> psrp_error option" where
  "push hid bs sp = push_loop hid [] bs sp"

end
