(* ===== verification/Packet_Properties.thy ===== *)
theory Packet_Properties
  imports Packets Decode_Errors
begin

text \<open>
  Properties of the OutOfProc lines: the splitter does not depend on how the bytes arrive, the packets
  one side writes are the packets the other side reads, and what may come out of a line.  The XML
  reader is an interface, \<open>line_reader_laws\<close>, interpreted on a small reader for elements in one line.
\<close>

section \<open>The splitter and the chunks\<close>

fun pushes ::
    "(uchar \<Rightarrow> bool) \<Rightarrow> bytes list \<Rightarrow> line_splitter \<Rightarrow> line_splitter \<times> ustr list \<times> psrp_error option" where
  "pushes hid [] sp = (sp, [], None)"
| "pushes hid (c # cs) sp =
     (case push hid c sp of
        (sp, lines, Some e) \<Rightarrow> (sp, lines, Some e)
      | (sp, lines, None) \<Rightarrow>
          (case pushes hid cs sp of (sp, later, e) \<Rightarrow> (sp, lines @ later, e)))"

text \<open>The same lines and the same error; the same splitter when there is no error.\<close>

definition agree ::
    "line_splitter \<times> ustr list \<times> psrp_error option \<Rightarrow> line_splitter \<times> ustr list \<times> psrp_error option \<Rightarrow> bool" where
  "agree x y \<longleftrightarrow> snd x = snd y \<and> (snd (snd x) = None \<longrightarrow> fst x = fst y)"

lemma agree_refl [simp]: "agree x x"
  by (simp add: agree_def)

text \<open>Bytes are lines that a newline ends, then a rest without one.\<close>

lemma newline_induct [case_names rest line]:
  fixes P :: "bytes \<Rightarrow> bool"
  assumes "\<And>bs. 10 \<notin> set bs \<Longrightarrow> P bs"
    and "\<And>head tail. 10 \<notin> set head \<Longrightarrow> P tail \<Longrightarrow> P (head @ 10 # tail)"
  shows "P bs"
proof (induction bs rule: length_induct)
  case (1 bs)
  show ?case
  proof (cases "10 \<in> set bs")
    case True
    then obtain head tail where "bs = head @ 10 # tail" "10 \<notin> set head" by (meson split_list_first)
    with 1 show ?thesis by (auto intro: assms(2))
  qed (rule assms(1))
qed

lemma until_newline:
  fixes head :: bytes
  assumes "10 \<notin> set head"
  shows "takeWhile (\<lambda>b. b \<noteq> 10) (head @ 10 # tail) = head"
    "dropWhile (\<lambda>b. b \<noteq> 10) (head @ 10 # tail) = 10 # tail"
    "dropWhile (\<lambda>b. b \<noteq> 10) head = []"
  using assms by (induction head) auto

lemma push_rest:
  assumes "10 \<notin> set bs"
  shows "push_loop hid lines bs sp =
     (if length (ls_buf sp) + length bs > MAX_LINE_BYTES then (sp, lines, Some too_long)
      else (sp\<lparr>ls_buf := ls_buf sp @ bs\<rparr>, lines, None))"
  by (subst push_loop.simps) (simp only: until_newline [OF assms] list.case)

lemma push_line:
  assumes "10 \<notin> set head"
  shows "push_loop hid lines (head @ 10 # tail) sp =
     (case end_line hid head sp of
        (sp, Inl e) \<Rightarrow> (sp, lines, Some e)
      | (sp, Inr line) \<Rightarrow> push_loop hid (lines @ [line]) tail sp)"
  by (subst push_loop.simps) (simp only: until_newline [OF assms] list.case)

lemma push_loop_acc:
  "push_loop hid lines bs sp = (case push_loop hid [] bs sp of (sp', later, e) \<Rightarrow> (sp', lines @ later, e))"
proof (induction bs arbitrary: lines sp rule: newline_induct)
  case (rest bs)
  then show ?case by (simp add: push_rest)
next
  case (line head tail)
  obtain sp1 r where e: "end_line hid head sp = (sp1, r)" by fastforce
  show ?case
  proof (cases r)
    case (Inr l)
    with line(1) e line(2) [of "lines @ [l]" sp1] line(2) [of "[l]" sp1] show ?thesis
      by (simp add: push_line split: prod.split)
  qed (use line(1) e in \<open>simp add: push_line\<close>)
qed

lemma push_acc:
  "push_loop hid lines bs sp = (case push hid bs sp of (sp', later, e) \<Rightarrow> (sp', lines @ later, e))"
  unfolding push_def by (rule push_loop_acc)

lemma finish_line_buf: "finish_line hid line sp = (sp', r) \<Longrightarrow> ls_buf sp' = ls_buf sp"
  by (auto simp: finish_line_def Let_def split: if_splits sum.splits)

lemma end_line_buf: "end_line hid head sp = (sp', Inr line) \<Longrightarrow> ls_buf sp' = []"
  by (auto simp: end_line_def dest: finish_line_buf split: if_splits)

text \<open>The head of a line may come with the buffer.\<close>

lemma end_line_split:
  assumes "length (ls_buf sp) + length a \<le> MAX_LINE_BYTES"
  shows "snd (end_line hid (a @ head) sp) = snd (end_line hid head (sp\<lparr>ls_buf := ls_buf sp @ a\<rparr>))
    \<and> (\<forall>line. snd (end_line hid (a @ head) sp) = Inr line \<longrightarrow>
         fst (end_line hid (a @ head) sp) = fst (end_line hid head (sp\<lparr>ls_buf := ls_buf sp @ a\<rparr>)))"
proof (cases "a = []")
  case True
  have "sp\<lparr>ls_buf := ls_buf sp\<rparr> = sp" by (cases sp) simp
  with True show ?thesis by simp
next
  case False
  show ?thesis
  proof (cases "ls_buf sp = []")
    case True
    then have "sp = \<lparr>ls_buf = [], seen_first_line = seen_first_line sp\<rparr>" by (cases sp) simp
    then obtain b where sp: "sp = \<lparr>ls_buf = [], seen_first_line = b\<rparr>" ..
    show ?thesis using False assms by (simp add: sp end_line_def finish_line_def)
  qed (use False assms in \<open>simp add: end_line_def\<close>)
qed

lemma push_append:
  assumes "length (ls_buf sp) \<le> MAX_LINE_BYTES"
  shows "agree (push hid (a @ b) sp)
    (case push hid a sp of
       (sp1, lines, Some e) \<Rightarrow> (sp1, lines, Some e)
     | (sp1, lines, None) \<Rightarrow> push_loop hid lines b sp1)"
  using assms
proof (induction a arbitrary: sp rule: newline_induct)
  case (rest a)
  show ?case
  proof (cases "length (ls_buf sp) + length a > MAX_LINE_BYTES")
    case True
    have "\<exists>sp'. push hid (a @ b) sp = (sp', [], Some too_long)"
    proof (cases "10 \<in> set b")
      case nl: True
      then obtain h t where b: "b = h @ 10 # t" "10 \<notin> set h" by (meson split_list_first)
      have "snd (end_line hid (a @ h) sp) = Inl too_long"
        using True rest.prems by (auto simp: end_line_def finish_line_def)
      moreover have "push hid (a @ b) sp = push_loop hid [] ((a @ h) @ 10 # t) sp"
        by (simp add: push_def b(1))
      ultimately show ?thesis
        using push_line [of "a @ h" hid "[]" t sp] rest.hyps b(2) by (auto split: prod.splits)
    qed (use True rest in \<open>simp add: push_def push_rest\<close>)
    with True rest show ?thesis by (auto simp: agree_def push_def push_rest)
  next
    case False
    let ?sp = "sp\<lparr>ls_buf := ls_buf sp @ a\<rparr>"
    have a: "push hid a sp = (?sp, [], None)" using rest False by (simp add: push_def push_rest)
    show ?thesis
    proof (cases "10 \<in> set b")
      case nl: True
      then obtain h t where b: "b = h @ 10 # t" "10 \<notin> set h" by (meson split_list_first)
      have "push hid (a @ b) sp = push_loop hid [] ((a @ h) @ 10 # t) sp"
        by (simp add: push_def b(1))
      then show ?thesis
        using push_line [of "a @ h" hid "[]" t sp] push_line [of h hid "[]" t ?sp]
          end_line_split [of sp a hid h] rest.hyps b False
        by (auto simp: a agree_def split: prod.splits sum.splits)
    next
      case nl: False
      then show ?thesis using rest.hyps False
        by (auto simp: a push_def push_rest agree_def add.assoc)
    qed
  qed
next
  case (line head tail)
  obtain sp1 r where e: "end_line hid head sp = (sp1, r)" by fastforce
  show ?case
  proof (cases r)
    case (Inl err)
    with line e show ?thesis by (simp add: push_def push_line)
  next
    case (Inr l)
    then have "agree (push hid (tail @ b) sp1)
        (case push hid tail sp1 of
           (sp2, lines, Some e) \<Rightarrow> (sp2, lines, Some e)
         | (sp2, lines, None) \<Rightarrow> push_loop hid lines b sp2)"
      using line.IH end_line_buf e by simp
    moreover obtain sp2 lines err where t: "push hid tail sp1 = (sp2, lines, err)" by (cases "push hid tail sp1")
    ultimately show ?thesis
      using line e Inr push_loop_acc [of hid "l # lines" b sp2] push_loop_acc [of hid lines b sp2]
      by (auto simp: push_def [of hid "_ @ 10 # _"] push_line push_acc [of hid "[l]"] agree_def
          split: prod.splits option.splits)
  qed
qed

lemma push_buf:
  "push_loop hid lines bs sp = (sp', lines', None) \<Longrightarrow> length (ls_buf sp') \<le> MAX_LINE_BYTES"
proof (induction bs arbitrary: lines sp rule: newline_induct)
  case (rest bs)
  then show ?case by (auto simp: push_rest split: if_splits)
next
  case (line head tail)
  then show ?case by (auto simp: push_line split: prod.splits sum.splits)
qed

lemma pushes_concat:
  assumes "length (ls_buf sp) \<le> MAX_LINE_BYTES"
  shows "agree (pushes hid cs sp) (push hid (concat cs) sp)"
  using assms
proof (induction cs arbitrary: sp)
  case Nil
  then show ?case by (simp add: push_def push_rest agree_def)
next
  case (Cons c cs)
  obtain sp1 lines err where c: "push hid c sp = (sp1, lines, err)" by (cases "push hid c sp")
  show ?case
  proof (cases err)
    case (Some e)
    with c push_append [OF Cons.prems, of hid c "concat cs"] show ?thesis by (simp add: agree_def)
  next
    case None
    have "length (ls_buf sp1) \<le> MAX_LINE_BYTES"
      using push_buf c None by (auto simp: push_def)
    from Cons.IH [OF this] push_append [OF Cons.prems, of hid c "concat cs"] show ?thesis
      by (auto simp: c None push_acc [of hid lines] agree_def split: prod.splits)
  qed
qed

text \<open>
  The lines do not depend on how the bytes arrive: pushing the chunks of a byte stream one after
  another gives the same lines, in the same order, and the same error as pushing all of it at once,
  and without an error it leaves the splitter in the same state.
\<close>

lemma splitter_ignores_chunk_boundaries:
  assumes "concat cs = concat cs'"
  shows "snd (pushes hid cs splitter_new) = snd (pushes hid cs' splitter_new)
    \<and> (snd (snd (pushes hid cs splitter_new)) = None \<longrightarrow>
         fst (pushes hid cs splitter_new) = fst (pushes hid cs' splitter_new))"
  using pushes_concat [of splitter_new hid cs] pushes_concat [of splitter_new hid cs'] assms
  by (simp add: agree_def splitter_new_def)

lemma splitter_ignores_chunk_boundaries_witness:
  "snd (pushes (\<lambda>_. False) [[65, 13], [10, 66]] splitter_new)
     = snd (pushes (\<lambda>_. False) [[65], [13, 10], [], [66]] splitter_new)"
proof -
  have "concat [[65, 13], [10, 66 :: u8]] = concat [[65], [13, 10], [], [66]]" by simp
  from splitter_ignores_chunk_boundaries [OF this, of "\<lambda>_. False"] show ?thesis by blast
qed

section \<open>Whole lines\<close>

text \<open>What the client and the server write: printable ASCII.\<close>

definition line_text :: "ustr \<Rightarrow> bool" where
  "line_text t \<longleftrightarrow> t \<noteq> [] \<and> length t \<le> MAX_LINE_BYTES \<and> (\<forall>c\<in>set t. 32 \<le> c \<and> c < 127)"

lemma line_text_bytes:
  assumes "line_text t"
  shows "10 \<notin> set (as_bytes t)" "as_bytes t \<noteq> []" "last (as_bytes t) \<noteq> 13" "length (as_bytes t) = length t"
    "from_utf8 (as_bytes t) = Inr t"
proof -
  have bytes: "as_bytes t = map of_nat t" using assms by (intro as_bytes_ascii) (auto simp: line_text_def)
  show "as_bytes t \<noteq> []" "length (as_bytes t) = length t" using assms by (auto simp: bytes line_text_def)
  have ne: "(of_nat c :: u8) \<noteq> 10 \<and> (of_nat c :: u8) \<noteq> 13" if "c \<in> set t" for c
  proof -
    have "32 \<le> c" "c < 127" using that assms by (auto simp: line_text_def)
    then have "(of_nat c :: u8) = w \<Longrightarrow> c = unat w" for w by auto
    from this [of 10] this [of 13] \<open>32 \<le> c\<close> show ?thesis by auto
  qed
  then show "10 \<notin> set (as_bytes t)" by (force simp: bytes)
  show "last (as_bytes t) \<noteq> 13" using ne [of "last t"] assms by (simp add: bytes last_map line_text_def)
  have "valid_str t" using assms by (auto simp: line_text_def list_all_iff intro!: scalar_ascii)
  then show "from_utf8 (as_bytes t) = Inr t" by simp
qed

lemma end_line_text:
  assumes "line_text t" "ls_buf sp = []"
  shows "end_line hid (as_bytes t) sp = (sp\<lparr>seen_first_line := True\<rparr>, Inr t)"
proof -
  have t: "t \<noteq> []" "hd t < 127" using assms(1) hd_in_set [of t] by (auto simp: line_text_def)
  then have "hd t \<noteq> BOM_CHAR" "t \<noteq> []" by (auto simp: BOM_CHAR_def)
  moreover have "length t \<le> MAX_LINE_BYTES" using assms(1) by (simp add: line_text_def)
  ultimately show ?thesis
    using assms(2) line_text_bytes [OF assms(1)]
    by (auto simp: end_line_def finish_line_def strip_cr_def Let_def split: list.split)
qed

lemma push_line_texts:
  assumes "\<forall>t\<in>set ts. line_text t" "ls_buf sp = []"
  shows "\<exists>sp'. push_loop hid lines (as_bytes (concat (map (\<lambda>t. t @ [10]) ts))) sp = (sp', lines @ ts, None)"
  using assms
proof (induction ts arbitrary: lines sp)
  case Nil
  then show ?case by (simp add: push_rest)
next
  case (Cons t ts)
  have nl: "as_bytes (10 # s) = 10 # as_bytes s" for s by (simp add: as_bytes_def utf8_enc_char_def)
  have "as_bytes (concat (map (\<lambda>t. t @ [10]) (t # ts)))
      = as_bytes t @ 10 # as_bytes (concat (map (\<lambda>t. t @ [10]) ts))"
    using nl by simp
  moreover have "\<exists>sp'. push_loop hid (lines @ [t]) (as_bytes (concat (map (\<lambda>t. t @ [10]) ts)))
      (sp\<lparr>seen_first_line := True\<rparr>) = (sp', (lines @ [t]) @ ts, None)"
    using Cons.prems by (intro Cons.IH) auto
  ultimately show ?case
    using Cons.prems by (auto simp: push_line line_text_bytes(1) end_line_text)
qed

section \<open>Reading an element\<close>

text \<open>
  What the crate relies on of its XML reader: an element written on one line, with attributes of
  different names in single quotes and no character that would need an escape, is read as it was
  written; a second attribute of the same name is read as an error.
\<close>

definition plain_char :: "uchar \<Rightarrow> bool" where
  "plain_char c \<longleftrightarrow> (65 \<le> c \<and> c \<le> 90) \<or> (97 \<le> c \<and> c \<le> 122) \<or> (48 \<le> c \<and> c \<le> 57) \<or> c = 45 \<or> c = 43 \<or> c = 47 \<or> c = 61"

definition plain :: "ustr \<Rightarrow> bool" where
  "plain t \<longleftrightarrow> t \<noteq> [] \<and> (\<forall>c\<in>set t. plain_char c)"

definition plain_name :: "ustr \<Rightarrow> bool" where
  "plain_name t \<longleftrightarrow> t \<noteq> [] \<and> 65 \<le> hd t
     \<and> (\<forall>c\<in>set t. (48 \<le> c \<and> c \<le> 57) \<or> (65 \<le> c \<and> c \<le> 90) \<or> (97 \<le> c \<and> c \<le> 122))"

definition attrs_text :: "(ustr \<times> ustr) list \<Rightarrow> ustr" where
  "attrs_text as = concat (map (\<lambda>(n, v). 32 # n @ [61, 39] @ v @ [39]) as)"

definition attrs_read :: "(ustr \<times> ustr) list \<Rightarrow> line_attr list" where
  "attrs_read as = map (\<lambda>(n, v). Inr (n, Inr v)) as"

definition plain_parts :: "(ustr \<times> ustr) list \<Rightarrow> bool" where
  "plain_parts as \<longleftrightarrow> (\<forall>(n, v)\<in>set as. plain_name n \<and> plain v)"

definition plain_attrs :: "(ustr \<times> ustr) list \<Rightarrow> bool" where
  "plain_attrs as \<longleftrightarrow> plain_parts as \<and> distinct (map fst as)"

locale line_reader_laws =
  fixes R :: "ustr \<Rightarrow> line_event list"
  assumes reads_empty: "plain_name name \<Longrightarrow> plain_attrs as \<Longrightarrow>
      R (60 # name @ attrs_text as @ [32, 47, 62]) = [LEmpty name (attrs_read as)]"
    and reads_text: "plain_name name \<Longrightarrow> plain_attrs as \<Longrightarrow> plain t \<Longrightarrow>
      R (60 # name @ attrs_text as @ 62 # t @ [60, 47] @ name @ [62])
        = [LStart name (attrs_read as), LText t, LEnd name]"
    and reads_repeated: "plain_name name \<Longrightarrow> plain_attrs as \<Longrightarrow> plain v \<Longrightarrow> n \<in> fst ` set as \<Longrightarrow>
      \<exists>e. R (60 # name @ attrs_text (as @ [(n, v)]) @ [32, 47, 62]) = [LEmpty name (attrs_read as @ [Inl e])]"

text \<open>
  A reader for such lines: elements without comments, instructions or \<open>></\<close> in values, and the text
  between them.  \<open>checked_names\<close> is its check for repeated attributes.
\<close>

fun checked_names :: "ustr list \<Rightarrow> line_attr list \<Rightarrow> line_attr list" where
  "checked_names seen [] = []"
| "checked_names seen (Inl e # as) = Inl e # checked_names seen as"
| "checked_names seen (Inr (n, v) # as) =
     (if n \<in> set seen then Inl (lit ''duplicated attribute'') # checked_names seen as
      else Inr (n, v) # checked_names (n # seen) as)"

lemma checked_distinct:
  assumes "distinct (map fst as)" "fst ` set as \<inter> set seen = {}"
  shows "checked_names seen (map (\<lambda>a. Inr (fst a, f a)) as @ rest) =
    map (\<lambda>a. Inr (fst a, f a)) as @ checked_names (rev (map fst as) @ seen) rest"
  using assms by (induction as arbitrary: seen) auto

lemma checked_attrs:
  "distinct (map fst as) \<Longrightarrow> checked_names [] (attrs_read as @ rest) = attrs_read as @ checked_names (rev (map fst as)) rest"
  using checked_distinct [of as "[]" "\<lambda>a. Inr (snd a)" rest] by (simp add: attrs_read_def split_beta')

function read_attrs :: "ustr \<Rightarrow> line_attr list" where
  "read_attrs s =
     (case dropWhile (\<lambda>c. c = 32) s of
        [] \<Rightarrow> []
      | c # cs \<Rightarrow>
          (let name = takeWhile (\<lambda>c. c \<noteq> 61) (c # cs) in
           case drop (Suc (length name)) (c # cs) of
             [] \<Rightarrow> [Inl (lit ''attribute without value'')]
           | q # rest \<Rightarrow>
               (let v = takeWhile (\<lambda>c. c \<noteq> q) rest
                in Inr (name, Inr v) # read_attrs (drop (Suc (length v)) rest))))"
  by pat_completeness auto

termination
proof (relation "measure length")
  fix s name v :: ustr and c q cs rest
  assume "dropWhile (\<lambda>c. c = 32) s = c # cs" "drop (Suc (length name)) (c # cs) = q # rest"
  then have "length (c # cs) \<le> length s" "length (q # rest) \<le> length (c # cs)"
    by (metis length_dropWhile_le, metis length_drop diff_le_self)
  then show "(drop (Suc (length v)) rest, s) \<in> measure length" by simp
qed simp

declare read_attrs.simps [simp del]

definition name_end :: "uchar \<Rightarrow> bool" where
  "name_end c \<longleftrightarrow> c = 32 \<or> c = 47"

function element_reader :: "ustr \<Rightarrow> line_event list" where
  "element_reader [] = []"
| "element_reader (c # cs) =
     (if c = 60 then
        (let inside = takeWhile (\<lambda>c. c \<noteq> 62) cs; name = takeWhile (\<lambda>c. \<not> name_end c) inside;
             rest = drop (Suc (length inside)) cs in
         if length inside = length cs then [LFail (lit ''unclosed element'')]
         else if inside \<noteq> [] \<and> hd inside = 47 then LEnd (tl inside) # element_reader rest
         else if inside \<noteq> [] \<and> last inside = 47
         then LEmpty name (checked_names [] (read_attrs (drop (length name) (butlast inside)))) # element_reader rest
         else LStart name (checked_names [] (read_attrs (drop (length name) inside))) # element_reader rest)
      else LText (takeWhile (\<lambda>c. c \<noteq> 60) (c # cs)) # element_reader (dropWhile (\<lambda>c. c \<noteq> 60) (c # cs)))"
  by pat_completeness auto

termination
  by (relation "measure length") (auto simp: le_imp_less_Suc length_dropWhile_le)

declare element_reader.simps(2) [simp del]

lemma takeWhile_until:
  "(\<And>x. x \<in> set xs \<Longrightarrow> P x) \<Longrightarrow> \<not> P y \<Longrightarrow> takeWhile P (xs @ y # ys) = xs"
  "(\<And>x. x \<in> set xs \<Longrightarrow> P x) \<Longrightarrow> \<not> P y \<Longrightarrow> dropWhile P (xs @ y # ys) = y # ys"
  by (auto simp: takeWhile_append dropWhile_append)

lemma read_attrs_Cons:
  assumes "plain_name n" "plain v"
  shows "read_attrs (32 # n @ [61, 39] @ v @ 39 # rest) = Inr (n, Inr v) # read_attrs rest"
proof -
  obtain c cs where n: "n = c # cs" "c \<noteq> 32" using assms(1) by (cases n) (auto simp: plain_name_def)
  have "takeWhile (\<lambda>c. c \<noteq> 61) (n @ 61 # 39 # v @ 39 # rest) = n"
    using assms(1) by (intro takeWhile_until) (auto simp: plain_name_def)
  moreover have "takeWhile (\<lambda>c. c \<noteq> 39) (v @ 39 # rest) = v"
    using assms(2) by (intro takeWhile_until) (auto simp: plain_def plain_char_def)
  ultimately show ?thesis
    by (subst read_attrs.simps) (simp add: n Let_def)
qed

lemma read_attrs_text:
  assumes "plain_parts as" "rest = [] \<or> rest = [32]"
  shows "read_attrs (attrs_text as @ rest) = attrs_read as"
  using assms(1)
proof (induction as)
  case Nil
  show ?case using assms(2) by (subst read_attrs.simps) (auto simp: attrs_text_def attrs_read_def)
next
  case (Cons a as)
  then show ?case
    using read_attrs_Cons [of "fst a" "snd a" "attrs_text as @ rest"]
    by (auto simp: attrs_text_def attrs_read_def plain_parts_def split_beta)
qed

lemma attrs_text_chars:
  assumes "plain_parts as" "c \<in> set (attrs_text as)"
  shows "c \<noteq> 62 \<and> c \<noteq> 60"
  using assms
  by (fastforce simp: attrs_text_def plain_parts_def plain_name_def plain_def plain_char_def split_beta
      split: if_splits)

lemma element_reader_text:
  assumes "plain t"
  shows "element_reader (t @ 60 # rest) = LText t # element_reader (60 # rest)"
proof -
  obtain c cs where t: "t = c # cs" "c \<noteq> 60" using assms by (cases t) (auto simp: plain_def plain_char_def)
  have "takeWhile (\<lambda>c. c \<noteq> 60) (t @ 60 # rest) = t" "dropWhile (\<lambda>c. c \<noteq> 60) (t @ 60 # rest) = 60 # rest"
    using assms by (auto intro!: takeWhile_until simp: plain_def plain_char_def)
  with t show ?thesis by (simp add: element_reader.simps(2) [of c])
qed

lemma element_reader_tag:
  assumes "\<forall>c\<in>set inside. c \<noteq> 62"
  shows "element_reader (60 # inside @ 62 # rest) =
    (let name = takeWhile (\<lambda>c. \<not> name_end c) inside in
     if inside \<noteq> [] \<and> hd inside = 47 then LEnd (tl inside) # element_reader rest
     else if inside \<noteq> [] \<and> last inside = 47
     then LEmpty name (checked_names [] (read_attrs (drop (length name) (butlast inside)))) # element_reader rest
     else LStart name (checked_names [] (read_attrs (drop (length name) inside))) # element_reader rest)"
proof -
  have "takeWhile (\<lambda>c. c \<noteq> 62) (inside @ 62 # rest) = inside"
    using assms by (intro takeWhile_until) auto
  then show ?thesis by (subst element_reader.simps(2)) (simp add: Let_def)
qed

lemma plain_name_chars: "plain_name name \<Longrightarrow> c \<in> set name \<Longrightarrow> \<not> name_end c \<and> c \<noteq> 62 \<and> c \<noteq> 60 \<and> c \<noteq> 47"
  by (auto simp: plain_name_def name_end_def)

lemma tag_name:
  assumes "plain_name name" "rest = [] \<or> name_end (hd rest)"
  shows "takeWhile (\<lambda>c. \<not> name_end c) (name @ rest) = name" "name \<noteq> []" "hd (name @ rest) \<noteq> 47"
proof -
  show "takeWhile (\<lambda>c. \<not> name_end c) (name @ rest) = name"
  proof (cases rest)
    case (Cons c cs)
    then show ?thesis using assms plain_name_chars by (auto intro!: takeWhile_until)
  qed (use assms plain_name_chars in \<open>auto simp: takeWhile_eq_all_conv\<close>)
  show "name \<noteq> []" "hd (name @ rest) \<noteq> 47"
    using assms(1) plain_name_chars [of name "hd name"] by (auto simp: plain_name_def hd_append)
qed

lemma attrs_text_start: "attrs_text as @ rest = [] \<or> name_end (hd (attrs_text as @ rest))"
  if "rest = [] \<or> name_end (hd rest)"
  using that by (cases as) (auto simp: attrs_text_def name_end_def split_beta)

lemma attrs_text_last: "attrs_text as \<noteq> [] \<Longrightarrow> last (attrs_text as) = 39"
  by (induction as rule: rev_induct) (auto simp: attrs_text_def split_beta)

lemma read_empty_tag:
  assumes name: "plain_name name" and as: "plain_parts as"
  shows "element_reader (60 # name @ attrs_text as @ [32, 47, 62]) = [LEmpty name (checked_names [] (attrs_read as))]"
proof -
  let ?inside = "name @ attrs_text as @ [32, 47]"
  have "\<forall>c\<in>set ?inside. c \<noteq> 62"
    using plain_name_chars [OF name] attrs_text_chars [OF as] by auto
  moreover have "takeWhile (\<lambda>c. \<not> name_end c) ?inside = name" "hd ?inside \<noteq> 47"
    using tag_name [OF name attrs_text_start [of "[32, 47]" as]] by (simp_all add: name_end_def)
  moreover have "butlast ?inside = name @ attrs_text as @ [32]" by (simp add: butlast_append)
  ultimately show ?thesis
    using element_reader_tag [of ?inside "[]"] read_attrs_text [OF as, of "[32]"] by (simp add: Let_def)
qed

lemma read_start_tag:
  assumes name: "plain_name name" and as: "plain_parts as"
  shows "element_reader (60 # name @ attrs_text as @ 62 # rest) = LStart name (checked_names [] (attrs_read as)) # element_reader rest"
proof -
  let ?inside = "name @ attrs_text as"
  have start: "attrs_text as = [] \<or> name_end (hd (attrs_text as))" using attrs_text_start [of "[]" as] by simp
  have "\<forall>c\<in>set ?inside. c \<noteq> 62"
    using plain_name_chars [OF name] attrs_text_chars [OF as] by auto
  moreover have "takeWhile (\<lambda>c. \<not> name_end c) ?inside = name" "hd ?inside \<noteq> 47" "name \<noteq> []"
    using tag_name [OF name start] by auto
  moreover have "last ?inside \<noteq> 47"
    using attrs_text_last [of as] plain_name_chars [OF name, of "last name"] \<open>name \<noteq> []\<close> by (auto simp: last_append)
  ultimately show ?thesis
    using element_reader_tag [of ?inside rest] read_attrs_text [OF as, of "[]"] by (simp add: Let_def)
qed

interpretation element_reader: line_reader_laws element_reader
proof unfold_locales
  fix name as assume name: "plain_name name" and as: "plain_attrs as"
  then show "element_reader (60 # name @ attrs_text as @ [32, 47, 62]) = [LEmpty name (attrs_read as)]"
    using read_empty_tag [OF name] checked_attrs [of as "[]"] by (simp add: plain_attrs_def)
  fix v n assume v: "plain v" "n \<in> fst ` set as"
  then have "plain_parts (as @ [(n, v)])" using as by (auto simp: plain_attrs_def plain_parts_def)
  with read_empty_tag [OF name] checked_attrs [of as "[Inr (n, Inr v)]"] as v(2)
  show "\<exists>e. element_reader (60 # name @ attrs_text (as @ [(n, v)]) @ [32, 47, 62]) = [LEmpty name (attrs_read as @ [Inl e])]"
    by (auto simp: plain_attrs_def attrs_read_def)
next
  fix name as t assume name: "plain_name name" and as: "plain_attrs as" and t: "plain t"
  have "element_reader (60 # (47 # name) @ 62 # []) = [LEnd name]"
    using plain_name_chars [OF name] by (subst element_reader_tag) (auto simp: Let_def)
  then show "element_reader (60 # name @ attrs_text as @ 62 # t @ [60, 47] @ name @ [62])
      = [LStart name (attrs_read as), LText t, LEnd name]"
    using element_reader_text [OF t] read_start_tag [OF name] checked_attrs [of as "[]"] as
    by (simp add: plain_attrs_def)
qed

section \<open>From packet to packet\<close>

text \<open>A packet with a line of its own, and one that a client may send.\<close>

definition worded :: "packet \<Rightarrow> bool" where
  "worded p \<longleftrightarrow> (case p of Data s g payload \<Rightarrow> payload \<noteq> [] | _ \<Rightarrow> True)"

definition sendable :: "packet \<Rightarrow> bool" where
  "sendable p \<longleftrightarrow> (case p of Data s g payload \<Rightarrow> payload \<noteq> [] \<and> length payload \<le> MAX_DATA_PAYLOAD | _ \<Rightarrow> True)"

lemma base64_plain: "plain_char (base64_char x)"
proof -
  have "list_all plain_char ALPHABET" by code_simp
  then show ?thesis using sextet_less [of x]
    by (simp add: base64_char_def list_all_iff length_ALPHABET)
qed

lemma base64_encode_plain: "c \<in> set (base64_encode bs) \<Longrightarrow> plain_char c"
  by (induction bs rule: base64_encode.induct) (auto simp: base64_plain plain_char_def [of 61])

lemma plain_base64: "bs \<noteq> [] \<Longrightarrow> plain (base64_encode bs)"
  by (cases bs rule: base64_encode.cases)
    (auto simp: plain_def base64_plain base64_encode_plain plain_char_def [of 61])

lemma uuid_char_plain: "uuid_char c \<Longrightarrow> plain_char c"
  by (auto simp: uuid_char_def plain_char_def)

lemma plain_hyphenated:
  assumes "uuid_laws U"
  shows "plain (hyphenated U g)"
proof -
  have "hyphenated U g \<noteq> []" using uuid_laws.length_hyphenated [OF assms, of g] by auto
  then show ?thesis using uuid_laws.hyphenated_chars [OF assms] uuid_char_plain by (auto simp: plain_def)
qed

lemma plain_stream: "plain (stream_as_str s)"
  by (cases s) (simp_all add: plain_def plain_char_def lit_def)

text \<open>A line as an element: its name, attributes and text.\<close>

fun packet_name :: "packet \<Rightarrow> ustr" where
  "packet_name (Data s g payload) = lit ''Data''"
| "packet_name (DataAck g) = lit ''DataAck''"
| "packet_name (Command g) = lit ''Command''"
| "packet_name (CommandAck g) = lit ''CommandAck''"
| "packet_name (Signal g) = lit ''Signal''"
| "packet_name (SignalAck g) = lit ''SignalAck''"
| "packet_name (Close g) = lit ''Close''"
| "packet_name (CloseAck g) = lit ''CloseAck''"

fun packet_guid :: "packet \<Rightarrow> uuid" where
  "packet_guid (Data s g payload) = g"
| "packet_guid (DataAck g) = g"
| "packet_guid (Command g) = g"
| "packet_guid (CommandAck g) = g"
| "packet_guid (Signal g) = g"
| "packet_guid (SignalAck g) = g"
| "packet_guid (Close g) = g"
| "packet_guid (CloseAck g) = g"

fun packet_text :: "uuid_api \<Rightarrow> packet \<Rightarrow> ustr" where
  "packet_text U (Data s g payload) =
     60 # lit ''Data'' @ attrs_text [(lit ''Stream'', stream_as_str s), (lit ''PSGuid'', hyphenated U g)]
     @ 62 # base64_encode payload @ [60, 47] @ lit ''Data'' @ [62]"
| "packet_text U p = 60 # packet_name p @ attrs_text [(lit ''PSGuid'', hyphenated U (packet_guid p))] @ [32, 47, 62]"

lemma to_line_text: "to_line U p = packet_text U p @ [10]"
  by (cases p) (simp_all add: attrs_text_def lit_def bare_line_def)

lemma packet_name_plain: "plain_name (packet_name p)"
  by (cases p) (simp_all add: plain_name_def lit_def)

lemma sendable_worded: "sendable p \<Longrightarrow> worded p"
  by (cases p) (auto simp: sendable_def worded_def)

lemma packet_text_chars:
  assumes "uuid_laws U"
  shows "\<forall>c\<in>set (packet_text U p). 32 < c \<and> c < 127 \<or> c = 32"
proof -
  have plain: "32 < c \<and> c < 127" if "plain_char c" for c using that by (auto simp: plain_char_def)
  have "plain_char c" if "c \<in> set (hyphenated U g)" for c g
    using that plain_hyphenated [OF assms(1), of g] by (auto simp: plain_def)
  moreover have "plain_char c" if "c \<in> set (stream_as_str s)" for c s
    using that plain_stream [of s] by (auto simp: plain_def)
  moreover have "plain_char c" if "c \<in> set (packet_name p)" for c
    using that packet_name_plain [of p] by (auto simp: plain_name_def plain_char_def)
  ultimately show ?thesis
    using base64_encode_plain plain
    by (cases p) (auto simp: attrs_text_def lit_def)
qed

lemma packet_text_length:
  assumes "uuid_laws U" "sendable p"
  shows "length (packet_text U p) \<le> MAX_LINE_BYTES"
proof -
  have coded: "length (base64_encode payload) \<le> 43692" if "length payload \<le> 32768" for payload
    using that by (simp add: length_base64_encode)
  have stream: "length (stream_as_str s) \<le> 14" for s by (cases s) (simp_all add: lit_def)
  have "length (stream_as_str s) + length (base64_encode payload) \<le> 1048507"
    if "length payload \<le> 32768" for s payload
    using coded [OF that] stream [of s] by linarith
  then show ?thesis
    using assms uuid_laws.length_hyphenated [OF assms(1)]
    by (cases p) (auto simp: attrs_text_def lit_def MAX_LINE_BYTES_def MAX_DATA_PAYLOAD_def sendable_def)
qed

lemma trim_same:
  assumes "t \<noteq> []" "\<not> is_whitespace (hd t)" "\<not> is_whitespace (last t)"
  shows "trim t = t"
proof -
  have "dropWhile is_whitespace t = t" using assms by (cases t) auto
  moreover have "dropWhile is_whitespace (rev t) = rev t" using assms by (cases "rev t") (auto simp: hd_rev [symmetric])
  ultimately show ?thesis by (simp add: trim_def)
qed

lemma packet_text_ends: "packet_text U p \<noteq> []" "hd (packet_text U p) = 60" "last (packet_text U p) = 62"
  by (cases p; simp)+

lemma server_error_other: "hd t = 60 \<Longrightarrow> t \<noteq> [] \<Longrightarrow> server_error t = None"
proof -
  assume t: "hd t = 60" "t \<noteq> []"
  have "utf8_len SERVER_ERROR_PREFIX = 19" by code_simp
  moreover have "\<not> eq_ignore_ascii_case head SERVER_ERROR_PREFIX"
    if "split_at_checked 19 t = Some (head, message)" for head message
    using that t
    by (cases t) (auto simp: numeral_eq_Suc eq_ignore_ascii_case_def SERVER_ERROR_PREFIX_def lit_def
        ascii_lower_def split: if_splits)
  ultimately show ?thesis by (auto simp: server_error_def split: option.split)
qed

lemma stream_parse_as_str: "stream_parse (stream_as_str s) = Some s"
  by (cases s) (simp_all add: stream_parse_def eq_ignore_ascii_case_def lit_def ascii_lower_def)

lemma bare_packet_lookup:
  "(\<nexists>s g payload. p = Data s g payload) \<Longrightarrow>
     \<exists>packet_of. map_of bare_packets (packet_name p) = Some packet_of \<and> packet_of (packet_guid p) = p"
  by (cases p) (simp_all add: bare_packets_def)

lemma parse_packet_text:
  assumes "uuid_laws (line_uuids L)" "line_reader_laws (line_reader L)" "worded p"
  shows "parse_packet_element L (packet_text (line_uuids L) p) = Inr p"
proof (cases "\<exists>s g payload. p = Data s g payload")
  case True
  then obtain s g payload where p: "p = Data s g payload" "payload \<noteq> []"
    using assms(3) by (auto simp: worded_def)
  let ?as = "[(lit ''Stream'', stream_as_str s), (lit ''PSGuid'', hyphenated (line_uuids L) g)]"
  have "plain_attrs ?as" "plain_name (lit ''Data'')"
    using plain_stream plain_hyphenated [OF assms(1)] by (auto simp: plain_attrs_def plain_parts_def plain_name_def lit_def)
  then have "line_reader L (packet_text (line_uuids L) p)
      = [LStart (lit ''Data'') (attrs_read ?as), LText (base64_encode payload), LEnd (lit ''Data'')]"
    using line_reader_laws.reads_text [OF assms(2) _ _ plain_base64 [OF p(2)]] p(1) by simp
  then show ?thesis
    using uuid_laws.parse_hyphenated [OF assms(1)] p
    by (simp add: parse_packet_element_def data_attributes_def attrs_read_def parse_stream_def
        stream_parse_as_str parse_guid_def data_content_def)
next
  case False
  then obtain packet_of where of: "map_of bare_packets (packet_name p) = Some packet_of" "packet_of (packet_guid p) = p"
    using bare_packet_lookup [of p] by blast
  let ?as = "[(lit ''PSGuid'', hyphenated (line_uuids L) (packet_guid p))]"
  have "plain_attrs ?as"
    using plain_hyphenated [OF assms(1)] by (auto simp: plain_attrs_def plain_parts_def plain_name_def lit_def)
  then have "line_reader L (packet_text (line_uuids L) p) = [LEmpty (packet_name p) (attrs_read ?as)]"
    using line_reader_laws.reads_empty [OF assms(2) packet_name_plain [of p]] False by (cases p) simp_all
  then show ?thesis
    using uuid_laws.parse_hyphenated [OF assms(1)] of
    by (simp add: parse_packet_element_def guid_attribute_def attrs_read_def parse_guid_def Let_def)
qed

text \<open>A repeated attribute is refused with the error of the reader, not with one of the crate's own.\<close>

lemma repeated_attribute_refused:
  fixes g :: uuid
  assumes "uuid_laws (line_uuids L)" "line_reader_laws (line_reader L)"
  defines "a \<equiv> (lit ''PSGuid'', hyphenated (line_uuids L) g)"
  shows "\<exists>e. parse_packet_element L (60 # lit ''DataAck'' @ attrs_text [a, a] @ [32, 47, 62]) = Inl (snippet (hidden L) e)"
proof -
  have "plain_attrs [a]" "plain (snd a)" "plain_name (lit ''DataAck'')"
    using plain_hyphenated [OF assms(1)] by (auto simp: a_def plain_attrs_def plain_parts_def plain_name_def lit_def)
  then obtain e where "line_reader L (60 # lit ''DataAck'' @ attrs_text ([a] @ [(fst a, snd a)]) @ [32, 47, 62])
      = [LEmpty (lit ''DataAck'') (attrs_read [a] @ [Inl e])]"
    using line_reader_laws.reads_repeated [OF assms(2), of "lit ''DataAck''" "[a]" "snd a" "fst a"] by auto
  then show ?thesis
    by (auto simp: parse_packet_element_def bare_packets_def guid_attribute_def attrs_read_def a_def Let_def)
qed

lemma parse_line_text:
  assumes "uuid_laws (line_uuids L)" "line_reader_laws (line_reader L)" "worded p"
  shows "parse_line L (packet_text (line_uuids L) p) = Inr (Some p)"
proof -
  let ?t = "packet_text (line_uuids L) p"
  have "trim ?t = ?t"
    using packet_text_ends [of "line_uuids L" p] by (intro trim_same) (auto simp: is_whitespace_def)
  then show ?thesis
    using packet_text_ends [of "line_uuids L" p] server_error_other [of ?t] parse_packet_text [OF assms]
    by (simp add: parse_line_def)
qed

lemma packets_pushed:
  assumes "uuid_laws (line_uuids L)" "line_reader_laws (line_reader L)" "\<forall>p\<in>set ps. sendable p"
    and "concat cs = as_bytes (concat (map (to_line (line_uuids L)) ps))"
  shows "\<exists>lines. snd (pushes (hidden L) cs splitter_new) = (lines, None)
    \<and> map (parse_line L) lines = map (\<lambda>p. Inr (Some p)) ps"
proof -
  let ?ts = "map (packet_text (line_uuids L)) ps"
  have "line_text t" if "t \<in> set ?ts" for t
    using that packet_text_ends packet_text_length [OF assms(1)] packet_text_chars [OF assms(1)] assms(3)
    by (force simp: line_text_def)
  then have "\<forall>t\<in>set ?ts. line_text t" by blast
  moreover have "concat cs = as_bytes (concat (map (\<lambda>t. t @ [10]) ?ts))"
    unfolding assms(4) by (simp add: comp_def to_line_text [abs_def])
  ultimately have "snd (push (hidden L) (concat cs) splitter_new) = (?ts, None)"
    using push_line_texts [of ?ts splitter_new "hidden L" "[]"] by (auto simp: push_def splitter_new_def)
  then have "snd (pushes (hidden L) cs splitter_new) = (?ts, None)"
    using pushes_concat [of splitter_new "hidden L" cs] by (simp add: agree_def splitter_new_def)
  then show ?thesis
    using parse_line_text [OF assms(1,2)] assms(3) sendable_worded by auto
qed

text \<open>
  C21: what one side writes is what the other side reads: when the bytes of a sequence of packets
  (\<open>Data\<close> with a payload of 1 to 32 KiB) arrive, in chunks of any kind, the splitter gives one line
  for each packet, in order and without an error, and each line parses to its packet.
\<close>

theorem packets_survive_the_pipe:
  assumes "uuid_laws (line_uuids L)" "line_reader_laws (line_reader L)" "\<forall>p\<in>set ps. sendable p"
    and "concat cs = as_bytes (concat (map (to_line (line_uuids L)) ps))"
  shows "\<exists>lines. snd (pushes (hidden L) cs splitter_new) = (lines, None)
    \<and> map (parse_line L) lines = map (\<lambda>p. Inr (Some p)) ps"
  by (rule packets_pushed [OF assms])

text \<open>A line never gives an empty payload.\<close>

lemma parsed_payload:
  assumes "parse_line L t = Inr (Some (Data s g payload))"
  shows "payload \<noteq> []"
proof -
  have parsed: "parse_packet_element L (trim t) = Inr (Data s g payload)"
    using assms by (auto simp: parse_line_def split: if_splits option.splits sum.splits)
  then obtain ev evs where ev: "next_event (hidden L) (line_reader L (trim t)) = Inr (ev, evs)"
    by (auto simp: parse_packet_element_def rbind_Inr_iff)
  have bare: "packet_of g' \<noteq> Data s g payload" if "map_of bare_packets name = Some packet_of" for name packet_of g'
    using map_of_SomeD [OF that] by (auto simp: bare_packets_def)
  show ?thesis
  proof (cases "\<exists>name attrs. ev = Some (LStart name attrs)")
    case True
    with parsed ev show ?thesis
      by (auto simp: parse_packet_element_def rbind_Inr_iff split: if_splits)
  next
    case False
    with parsed ev bare show ?thesis
      by (auto simp: parse_packet_element_def rbind_Inr_iff split: option.splits line_event.splits if_splits)
  qed
qed

definition sample_line_env :: line_env where
  "sample_line_env = \<lparr>line_uuids = rfc_uuid, line_reader = element_reader, hidden = rewrites_output\<rparr>"

theorem packets_survive_the_pipe_witness:
  "\<exists>lines. snd (pushes rewrites_output
        [as_bytes (to_line rfc_uuid (Command 5)), as_bytes (to_line rfc_uuid (Data Default 5 [1, 2, 3]))]
        splitter_new) = (lines, None)
     \<and> map (parse_line sample_line_env) lines = [Inr (Some (Command 5)), Inr (Some (Data Default 5 [1, 2, 3]))]"
  using packets_survive_the_pipe [of sample_line_env "[Command 5, Data Default 5 [1, 2, 3]]"
      "[as_bytes (to_line rfc_uuid (Command 5)), as_bytes (to_line rfc_uuid (Data Default 5 [1, 2, 3]))]"]
  by (simp add: sample_line_env_def rfc.uuid_laws_axioms element_reader.line_reader_laws_axioms
      sendable_def MAX_DATA_PAYLOAD_def del: to_line.simps)

end
