(* ===== verification/Sessions.thy ===== *)
theory Sessions
  imports Packets
begin

text \<open>
  The OutOfProc session engine (\<open>src/src/out_of_proc/session.rs\<close>) and its transport adapter
  (\<open>src/src/out_of_proc/transport.rs\<close>): one request in flight, its acknowledgement read before
  anything else is written.

  An operation returns \<open>None\<close> when its future is dropped while the pipe is pending; the session is
  then as the dropped future left it.  \<open>elapses\<close> says whether at such a point the acknowledgement
  timeout elapses instead, \<open>timeout_text\<close> is that timeout as messages print it.  A loop that reads
  the pipe has a bound on its reads; running into it is one more point where the pipe is pending.
\<close>

section \<open>State\<close>

record 'p pipe_env =
  line_codec :: line_env
  pipe_write :: "bytes \<Rightarrow> 'p \<Rightarrow> 'p \<times> unit res option"
  pipe_read :: "'p \<Rightarrow> 'p \<times> bytes res option"
  elapses :: "'p \<Rightarrow> bool"
  timeout_text :: ustr

definition MAX_QUEUED_BYTES :: nat where "MAX_QUEUED_BYTES = 64 * 2 ^ 20"
definition QUEUE_ENTRY_OVERHEAD :: nat where "QUEUE_ENTRY_OVERHEAD = 64"

definition ABANDONED_WRITE :: ustr where
  "ABANDONED_WRITE = lit ''a request was abandoned while its line was being written''"

definition ABANDONED_PAYLOAD :: ustr where
  "ABANDONED_PAYLOAD = lit ''a send was abandoned between two Data lines''"

record 'p session =
  ses_pipe :: 'p
  ses_lines :: line_splitter
  inbound :: "bytes list"
  inbound_bytes :: nat
  max_queued_bytes :: nat
  awaiting :: "packet option"
  write_in_progress :: bool
  payload_in_progress :: bool
  open_command :: "uuid option"
  broken :: "ustr option"

definition session_new :: "'p \<Rightarrow> 'p session" where
  "session_new p =
     \<lparr>ses_pipe = p, ses_lines = splitter_new, inbound = [], inbound_bytes = 0,
      max_queued_bytes = MAX_QUEUED_BYTES, awaiting = None, write_in_progress = False,
      payload_in_progress = False, open_command = None, broken = None\<rparr>"

text \<open>Run an operation, then another on its result unless it failed (\<open>?\<close>) or was dropped.\<close>

definition obind :: "'s \<times> 'a res option \<Rightarrow> ('a \<Rightarrow> 's \<Rightarrow> 's \<times> 'b res option) \<Rightarrow> 's \<times> 'b res option" where
  "obind r f = (case r of
     (s, None) \<Rightarrow> (s, None) | (s, Some (Inl e)) \<Rightarrow> (s, Some (Inl e)) | (s, Some (Inr x)) \<Rightarrow> f x s)"

lemma obind_simps [simp]:
  "obind (s, None) f = (s, None)" "obind (s, Some (Inl e)) f = (s, Some (Inl e))"
  "obind (s, Some (Inr x)) f = f x s"
  by (simp_all add: obind_def)

section \<open>Breaking the session\<close>

fun reason_text :: "psrp_error \<Rightarrow> ustr" where
  "reason_text (Protocol reason) = reason"
| "reason_text other = display winrm_display other"

definition fail :: "psrp_error \<Rightarrow> 'p session \<Rightarrow> 'p session \<times> psrp_error" where
  "fail err s =
     (let reason = (case broken s of Some r \<Rightarrow> r | None \<Rightarrow> reason_text err)
      in (s\<lparr>broken := Some reason\<rparr>, Protocol reason))"

definition failing :: "psrp_error \<Rightarrow> 'p session \<Rightarrow> 'p session \<times> 'a res option" where
  "failing err s = (case fail err s of (s, e) \<Rightarrow> (s, Some (Inl e)))"

definition usable :: "'p session \<Rightarrow> 'p session \<times> unit res option" where
  "usable s =
     (case broken s of
        Some reason \<Rightarrow> (s, Some (Inl (Protocol reason)))
      | None \<Rightarrow>
          if write_in_progress s then failing (protocol ABANDONED_WRITE) s else (s, Some (Inr ())))"

definition ready :: "'p session \<Rightarrow> 'p session \<times> unit res option" where
  "ready s = obind (usable s) (\<lambda>_ s.
     if payload_in_progress s then failing (protocol ABANDONED_PAYLOAD) s else (s, Some (Inr ())))"

section \<open>Reading\<close>

definition usize_add :: "nat \<Rightarrow> nat \<Rightarrow> nat" where "usize_add a b = min (a + b) (2 ^ 64 - 1)"

definition queue_cost :: "bytes \<Rightarrow> nat" where
  "queue_cost payload = usize_add (length payload) QUEUE_ENTRY_OVERHEAD"

definition enqueue :: "bytes \<Rightarrow> 'p session \<Rightarrow> 'p session \<times> unit res" where
  "enqueue payload s =
     (let queued = usize_add (inbound_bytes s) (queue_cost payload) in
      if queued > max_queued_bytes s
      then (s, Inl (protocol (lit ''PowerShell sent more than '' @ show_nat (max_queued_bytes s)
        @ lit '' bytes of data that were not received'')))
      else (s\<lparr>inbound_bytes := queued, inbound := inbound s @ [payload]\<rparr>, Inr ()))"

definition acknowledged :: "packet \<Rightarrow> 'p session \<Rightarrow> 'p session" where
  "acknowledged ack s =
     (case ack of
        CommandAck pid \<Rightarrow> s\<lparr>open_command := Some pid\<rparr>
      | CloseAck pid \<Rightarrow> if open_command s = Some pid then s\<lparr>open_command := None\<rparr> else s
      | _ \<Rightarrow> s)"

definition is_ack :: "packet \<Rightarrow> bool" where
  "is_ack p \<longleftrightarrow> (case p of
     DataAck _ \<Rightarrow> True | CommandAck _ \<Rightarrow> True | SignalAck _ \<Rightarrow> True | CloseAck _ \<Rightarrow> True | _ \<Rightarrow> False)"

text \<open>The line that \<open>to_line\<close> renders, without its newline (\<open>trim_end\<close>).\<close>

definition on_line :: "line_env \<Rightarrow> ustr \<Rightarrow> 'p session \<Rightarrow> 'p session \<times> unit res" where
  "on_line L line s =
     (case parse_line L line of
        Inl e \<Rightarrow> (s, Inl e)
      | Inr None \<Rightarrow> (s, Inr ())
      | Inr (Some p) \<Rightarrow>
          (case p of
             Data _ _ payload \<Rightarrow> enqueue payload s
           | _ \<Rightarrow>
               if is_ack p then
                 (if awaiting s = Some p then acknowledged p (s\<lparr>awaiting := None\<rparr>) else s, Inr ())
               else
                 (s, Inl (protocol (lit ''PowerShell sent a packet only a client may send: ''
                   @ butlast (to_line (line_uuids L) p))))))"

fun on_lines :: "line_env \<Rightarrow> ustr list \<Rightarrow> 'p session \<Rightarrow> 'p session \<times> unit res" where
  "on_lines L [] s = (s, Inr ())"
| "on_lines L (line # lines) s =
     (case on_line L line s of (s, Inl e) \<Rightarrow> (s, Inl e) | (s, Inr u) \<Rightarrow> on_lines L lines s)"

definition process :: "line_env \<Rightarrow> bytes \<Rightarrow> 'p session \<Rightarrow> 'p session \<times> unit res" where
  "process L chunk s =
     (case push (hidden L) chunk (ses_lines s) of
        (sp, lines, split_error) \<Rightarrow>
          (case on_lines L lines (s\<lparr>ses_lines := sp\<rparr>) of
             (s, Inl e) \<Rightarrow> (s, Inl e)
           | (s, Inr u) \<Rightarrow> (s, case split_error of Some e \<Rightarrow> Inl e | None \<Rightarrow> Inr ())))"

definition pump :: "'p pipe_env \<Rightarrow> 'p session \<Rightarrow> 'p session \<times> unit res option" where
  "pump E s = obind (usable s) (\<lambda>_ s.
     case pipe_read E (ses_pipe s) of
       (p, None) \<Rightarrow> (s\<lparr>ses_pipe := p\<rparr>, None)
     | (p, Some (Inl e)) \<Rightarrow> failing e (s\<lparr>ses_pipe := p\<rparr>)
     | (p, Some (Inr chunk)) \<Rightarrow>
         (case process (line_codec E) chunk (s\<lparr>ses_pipe := p\<rparr>) of
            (s, Inl e) \<Rightarrow> failing e s
          | (s, Inr u) \<Rightarrow> (s, Some (Inr ()))))"

fun settle :: "'p pipe_env \<Rightarrow> nat \<Rightarrow> 'p session \<Rightarrow> 'p session \<times> unit res option" where
  "settle E 0 s = (if awaiting s = None then (s, Some (Inr ())) else (s, None))"
| "settle E (Suc f) s =
     (if awaiting s = None then (s, Some (Inr ())) else obind (pump E s) (\<lambda>_. settle E f))"

section \<open>Requests\<close>

fun request_element :: "packet \<Rightarrow> ustr \<times> uuid" where
  "request_element (Data _ g _) = (lit ''Data'', g)"
| "request_element (DataAck g) = (lit ''Data'', g)"
| "request_element (Command g) = (lit ''Command'', g)"
| "request_element (CommandAck g) = (lit ''Command'', g)"
| "request_element (Signal g) = (lit ''Signal'', g)"
| "request_element (SignalAck g) = (lit ''Signal'', g)"
| "request_element (Close g) = (lit ''Close'', g)"
| "request_element (CloseAck g) = (lit ''Close'', g)"

definition timed_out :: "'p pipe_env \<Rightarrow> packet \<Rightarrow> 'p session \<Rightarrow> 'p session \<times> 'a res option" where
  "timed_out E fallback s =
     (let (element, g) = request_element (case awaiting s of Some a \<Rightarrow> a | None \<Rightarrow> fallback);
          guid = hyphenated (line_uuids (line_codec E)) g;
          unanswered = lit ''PowerShell did not acknowledge '' @ element @ lit '' for '' @ guid
            @ lit '' within '' @ timeout_text E
      in failing (protocol
           (if write_in_progress s then
              lit ''PowerShell did not accept '' @ element @ lit '' for '' @ guid @ lit '' within ''
              @ timeout_text E @ lit '': the write did not complete''
            else if element = lit ''Data'' \<and> g = nil_uuid then
              unanswered @ lit '': a runspace that starts slowly needs a longer `SshConfig::with_ack_timeout`''
            else unanswered)) s)"

text \<open>An operation within the acknowledgement timeout.\<close>

definition bounded ::
    "'p pipe_env \<Rightarrow> packet \<Rightarrow> 'p session \<times> 'a res option \<Rightarrow> 'p session \<times> 'a res option" where
  "bounded E fallback r =
     (case r of
        (s, None) \<Rightarrow> if elapses E (ses_pipe s) then timed_out E fallback s else (s, None)
      | (s, Some x) \<Rightarrow> (s, Some x))"

definition exchange ::
    "'p pipe_env \<Rightarrow> nat \<Rightarrow> bytes \<Rightarrow> packet \<Rightarrow> 'p session \<Rightarrow> 'p session \<times> unit res option" where
  "exchange E f line ack s = obind (settle E f s) (\<lambda>_ s.
     let s = s\<lparr>awaiting := Some ack, write_in_progress := True\<rparr> in
     case pipe_write E line (ses_pipe s) of
       (p, None) \<Rightarrow> (s\<lparr>ses_pipe := p\<rparr>, None)
     | (p, Some (Inl e)) \<Rightarrow> failing e (s\<lparr>ses_pipe := p, write_in_progress := False\<rparr>)
     | (p, Some (Inr u)) \<Rightarrow> settle E f (s\<lparr>ses_pipe := p, write_in_progress := False\<rparr>))"

definition request ::
    "'p pipe_env \<Rightarrow> nat \<Rightarrow> packet \<Rightarrow> packet \<Rightarrow> 'p session \<Rightarrow> 'p session \<times> unit res option" where
  "request E f p ack s = obind (usable s) (\<lambda>_ s.
     bounded E ack (exchange E f (as_bytes (to_line (line_uuids (line_codec E)) p)) ack s))"

definition settle_bounded :: "'p pipe_env \<Rightarrow> nat \<Rightarrow> 'p session \<Rightarrow> 'p session \<times> unit res option" where
  "settle_bounded E f s =
     (case awaiting s of
        None \<Rightarrow> (s, Some (Inr ()))
      | Some pending \<Rightarrow> bounded E pending (settle E f s))"

section \<open>Operations\<close>

definition close_open ::
    "'p pipe_env \<Rightarrow> nat \<Rightarrow> 'p session \<Rightarrow> 'p session \<times> unit res option" where
  "close_open E f s =
     (case open_command s of
        Some pid \<Rightarrow> request E f (Close pid) (CloseAck pid) s
      | None \<Rightarrow> (s, Some (Inr ())))"

text \<open>Before the first \<open>Data\<close> of a pipeline: its \<open>Command\<close>, once the one before it is closed.\<close>

definition open_for ::
    "'p pipe_env \<Rightarrow> nat \<Rightarrow> uuid \<Rightarrow> 'p session \<Rightarrow> 'p session \<times> unit res option" where
  "open_for E f g s =
     (if g = nil_uuid then (s, Some (Inr ()))
      else obind (settle_bounded E f s) (\<lambda>_ s.
        if open_command s \<noteq> Some g
        then obind (close_open E f s) (\<lambda>_. request E f (Command g) (CommandAck g))
        else (s, Some (Inr ()))))"

fun send_chunks ::
    "'p pipe_env \<Rightarrow> nat \<Rightarrow> uuid \<Rightarrow> bytes list \<Rightarrow> 'p session \<Rightarrow> 'p session \<times> unit res option" where
  "send_chunks E f g [] s = (s, Some (Inr ()))"
| "send_chunks E f g (c # cs) s =
     obind (request E f (Data Default g c) (DataAck g) s) (\<lambda>_. send_chunks E f g cs)"

definition session_send ::
    "'p pipe_env \<Rightarrow> nat \<Rightarrow> uuid \<Rightarrow> bytes \<Rightarrow> 'p session \<Rightarrow> 'p session \<times> unit res option" where
  "session_send E f g payload s =
     (if payload = [] then (s, Some (Inr ()))
      else obind (ready s) (\<lambda>_ s. obind (open_for E f g s) (\<lambda>_ s.
        obind (send_chunks E f g (chunks MAX_DATA_PAYLOAD payload)
                 (s\<lparr>payload_in_progress := (length payload > MAX_DATA_PAYLOAD)\<rparr>)) (\<lambda>_ s.
          (s\<lparr>payload_in_progress := False\<rparr>, Some (Inr ()))))))"

fun dequeue_from :: "bytes list \<Rightarrow> nat \<Rightarrow> bytes option \<times> bytes list \<times> nat" where
  "dequeue_from [] queued = (None, [], queued)"
| "dequeue_from (payload # rest) queued =
     (let queued = queued - queue_cost payload in
      if payload \<noteq> [] then (Some payload, rest, queued) else dequeue_from rest queued)"

definition dequeue :: "'p session \<Rightarrow> 'p session \<times> bytes option" where
  "dequeue s =
     (case dequeue_from (inbound s) (inbound_bytes s) of
        (payload, rest, queued) \<Rightarrow> (s\<lparr>inbound := rest, inbound_bytes := queued\<rparr>, payload))"

fun session_recv :: "'p pipe_env \<Rightarrow> nat \<Rightarrow> 'p session \<Rightarrow> 'p session \<times> bytes res option" where
  "session_recv E 0 s = (s, None)"
| "session_recv E (Suc f) s =
     (case dequeue s of
        (s, Some payload) \<Rightarrow> (s, Some (Inr payload))
      | (s, None) \<Rightarrow>
          obind (ready s) (\<lambda>_ s.
            case pump E s of
              (s, None) \<Rightarrow> (s, None)
            | (s, Some (Inr u)) \<Rightarrow> session_recv E f s
            | (s, Some (Inl e)) \<Rightarrow>
                (case dequeue s of
                   (s, Some payload) \<Rightarrow> (s, Some (Inr payload))
                 | (s, None) \<Rightarrow> (s, Some (Inl e)))))"

definition session_signal :: "'p pipe_env \<Rightarrow> nat \<Rightarrow> 'p session \<Rightarrow> 'p session \<times> unit res option" where
  "session_signal E f s = obind (ready s) (\<lambda>_ s. obind (settle_bounded E f s) (\<lambda>_ s.
     case open_command s of
       Some pid \<Rightarrow> request E f (Signal pid) (SignalAck pid) s
     | None \<Rightarrow> (s, Some (Inr ()))))"

definition session_close :: "'p pipe_env \<Rightarrow> nat \<Rightarrow> 'p session \<Rightarrow> 'p session \<times> unit res option" where
  "session_close E f s = obind (ready s) (\<lambda>_ s. obind (settle_bounded E f s) (\<lambda>_ s.
     obind (close_open E f s) (\<lambda>_. request E f (Close nil_uuid) (CloseAck nil_uuid))))"

section \<open>The transport\<close>

text \<open>The adapter: every method of the trait is one operation of the session.\<close>

definition oop_send_fragment ::
    "'p pipe_env \<Rightarrow> nat \<Rightarrow> bytes \<Rightarrow> 'p session \<Rightarrow> 'p session \<times> unit res option" where
  "oop_send_fragment E f bs = session_send E f nil_uuid bs"

definition oop_send_pipeline_fragment ::
    "'p pipe_env \<Rightarrow> nat \<Rightarrow> bytes \<Rightarrow> uuid \<Rightarrow> 'p session \<Rightarrow> 'p session \<times> unit res option" where
  "oop_send_pipeline_fragment E f bs g = session_send E f g bs"

definition oop_recv_chunk :: "'p pipe_env \<Rightarrow> nat \<Rightarrow> 'p session \<Rightarrow> 'p session \<times> bytes res option" where
  "oop_recv_chunk E f = session_recv E f"

definition oop_signal_stop :: "'p pipe_env \<Rightarrow> nat \<Rightarrow> 'p session \<Rightarrow> 'p session \<times> unit res option" where
  "oop_signal_stop E f = session_signal E f"

definition oop_close_shell :: "'p pipe_env \<Rightarrow> nat \<Rightarrow> 'p session \<Rightarrow> 'p session \<times> unit res option" where
  "oop_close_shell E f = session_close E f"

definition oop_execute_pipeline ::
    "'p pipe_env \<Rightarrow> nat \<Rightarrow> bytes \<Rightarrow> uuid \<Rightarrow> 'p session \<Rightarrow> 'p session \<times> unit res option" where
  "oop_execute_pipeline E f bs g = session_send E f g bs"

end
