(* ===== verification/Session_Steps.thy ===== *)
theory Session_Steps
  imports Sessions Packet_Properties
begin

text \<open>
  The OutOfProc session as a state machine: the steps a session takes (it reads a chunk, writes the
  line of a permitted request, takes a queued payload, breaks), and the proof that every operation is
  a run of such steps, whatever the pipe does.  \<open>session_invariant\<close> is the interface for what
  every step keeps.
\<close>

section \<open>The steps\<close>

text \<open>The acknowledgement of a request, what it changes, and when a request may be written.\<close>

fun ack_of :: "packet \<Rightarrow> packet" where
  "ack_of (Data s g payload) = DataAck g"
| "ack_of (Command g) = CommandAck g"
| "ack_of (Signal g) = SignalAck g"
| "ack_of (Close g) = CloseAck g"
| "ack_of p = p"

definition ack_effect :: "packet \<Rightarrow> uuid option \<Rightarrow> uuid option" where
  "ack_effect ack opened =
     (case ack of
        CommandAck g \<Rightarrow> Some g
      | CloseAck g \<Rightarrow> if opened = Some g then None else opened
      | _ \<Rightarrow> opened)"

definition permitted :: "packet \<Rightarrow> uuid option \<Rightarrow> bool" where
  "permitted p opened =
     (case p of
        Data s g payload \<Rightarrow> s = Default \<and> payload \<noteq> [] \<and> length payload \<le> MAX_DATA_PAYLOAD
          \<and> (g = nil_uuid \<or> opened = Some g)
      | Command g \<Rightarrow> g \<noteq> nil_uuid \<and> opened = None
      | Signal g \<Rightarrow> opened = Some g
      | Close g \<Rightarrow> opened = (if g = nil_uuid then None else Some g)
      | _ \<Rightarrow> False)"

abbreviation line_of :: "'p pipe_env \<Rightarrow> packet \<Rightarrow> bytes" where
  "line_of E p \<equiv> as_bytes (to_line (line_uuids (line_codec E)) p)"

text \<open>A step, with the payloads it hands to the caller.\<close>

inductive session_step :: "'p pipe_env \<Rightarrow> 'p session \<Rightarrow> bytes list \<Rightarrow> 'p session \<Rightarrow> bool"
  for E :: "'p pipe_env" where
  Fail: "broken s = None \<Longrightarrow> session_step E s [] (s\<lparr>broken := Some r\<rparr>)"
| Payload: "broken s = None \<Longrightarrow> session_step E s [] (s\<lparr>payload_in_progress := b\<rparr>)"
| Take: "dequeue s = (s', x) \<Longrightarrow> session_step E s (case x of None \<Rightarrow> [] | Some payload \<Rightarrow> [payload]) s'"
| Wait: "broken s = None \<Longrightarrow> \<not> write_in_progress s \<Longrightarrow> pipe_read E (ses_pipe s) = (p, None) \<Longrightarrow>
    session_step E s [] (s\<lparr>ses_pipe := p\<rparr>)"
| Ended: "broken s = None \<Longrightarrow> \<not> write_in_progress s \<Longrightarrow> pipe_read E (ses_pipe s) = (p, Some (Inl e)) \<Longrightarrow>
    session_step E s [] (s\<lparr>ses_pipe := p, broken := Some r\<rparr>)"
| Read: "broken s = None \<Longrightarrow> \<not> write_in_progress s \<Longrightarrow> pipe_read E (ses_pipe s) = (p, Some (Inr chunk)) \<Longrightarrow>
    process (line_codec E) chunk (s\<lparr>ses_pipe := p\<rparr>) = (s', Inr u) \<Longrightarrow> session_step E s [] s'"
| Reject: "broken s = None \<Longrightarrow> \<not> write_in_progress s \<Longrightarrow> pipe_read E (ses_pipe s) = (p, Some (Inr chunk)) \<Longrightarrow>
    process (line_codec E) chunk (s\<lparr>ses_pipe := p\<rparr>) = (s', Inl e) \<Longrightarrow>
    session_step E s [] (s'\<lparr>broken := Some r\<rparr>)"
| Write: "broken s = None \<Longrightarrow> \<not> write_in_progress s \<Longrightarrow> awaiting s = None \<Longrightarrow>
    permitted p (open_command s) \<Longrightarrow> pipe_write E (line_of E p) (ses_pipe s) = (q, Some (Inr u)) \<Longrightarrow>
    session_step E s [] (s\<lparr>awaiting := Some (ack_of p), ses_pipe := q\<rparr>)"
| Refused: "broken s = None \<Longrightarrow> \<not> write_in_progress s \<Longrightarrow> awaiting s = None \<Longrightarrow>
    permitted p (open_command s) \<Longrightarrow> pipe_write E (line_of E p) (ses_pipe s) = (q, Some (Inl e)) \<Longrightarrow>
    session_step E s [] (s\<lparr>awaiting := Some (ack_of p), ses_pipe := q, broken := Some r\<rparr>)"
| Abandoned: "broken s = None \<Longrightarrow> \<not> write_in_progress s \<Longrightarrow> awaiting s = None \<Longrightarrow>
    permitted p (open_command s) \<Longrightarrow> pipe_write E (line_of E p) (ses_pipe s) = (q, None) \<Longrightarrow>
    session_step E s [] (s\<lparr>awaiting := Some (ack_of p), write_in_progress := True, ses_pipe := q\<rparr>)"

inductive session_run :: "'p pipe_env \<Rightarrow> 'p session \<Rightarrow> bytes list \<Rightarrow> 'p session \<Rightarrow> bool"
  for E :: "'p pipe_env" where
  Stay: "session_run E s [] s"
| Step: "session_step E s t s' \<Longrightarrow> session_run E s' ts s'' \<Longrightarrow> session_run E s (t @ ts) s''"

lemmas [intro] = session_run.Stay

lemma run_step: "session_step E s t s' \<Longrightarrow> session_run E s t s'"
  using session_run.Step [OF _ session_run.Stay, of E s t s'] by simp

lemma run_trans: "session_run E s t s' \<Longrightarrow> session_run E s' ts s'' \<Longrightarrow> session_run E s (t @ ts) s''"
  by (induction rule: session_run.induct) (auto intro: session_run.Step)

lemma run_silent: "session_run E s [] s' \<Longrightarrow> session_run E s' ts s'' \<Longrightarrow> session_run E s ts s''"
  using run_trans [of E s "[]"] by simp

locale session_invariant =
  fixes E :: "'p pipe_env" and I :: "bytes list \<Rightarrow> 'p session \<Rightarrow> bool"
  assumes kept: "session_step E s t s' \<Longrightarrow> I d s \<Longrightarrow> I (d @ t) s'"
begin

lemma run_kept: "session_run E s ts s' \<Longrightarrow> I d s \<Longrightarrow> I (d @ ts) s'"
  by (induction arbitrary: d rule: session_run.induct) (auto dest: kept simp flip: append_assoc)

end

section \<open>Operations are runs\<close>

text \<open>
  \<open>r\<close> is what an operation makes of \<open>s\<close>: it ran, an error is the reason the session broke for, and
  a result satisfies \<open>Q\<close>.
\<close>

definition ends ::
    "'p pipe_env \<Rightarrow> 'p session \<Rightarrow> ('a \<Rightarrow> 'p session \<Rightarrow> bool) \<Rightarrow> 'p session \<times> 'a res option \<Rightarrow> bool" where
  "ends E s Q r \<longleftrightarrow> session_run E s [] (fst r)
     \<and> (case snd r of
          None \<Rightarrow> True
        | Some (Inl e) \<Rightarrow> (\<exists>reason. e = Protocol reason \<and> broken (fst r) = Some reason)
        | Some (Inr x) \<Rightarrow> Q x (fst r))"

lemma ends_run: "ends E s Q r \<Longrightarrow> session_run E s [] (fst r)"
  by (simp add: ends_def)

lemma ends_now [intro]: "Q x s \<Longrightarrow> ends E s Q (s, Some (Inr x))"
  by (auto simp: ends_def)

lemma ends_dropped [intro]: "ends E s Q (s, None)"
  by (auto simp: ends_def)

lemma ends_after: "session_run E s [] s' \<Longrightarrow> ends E s' Q r \<Longrightarrow> ends E s Q r"
  by (auto simp: ends_def intro: run_silent)

lemma ends_weaken: "ends E s Q r \<Longrightarrow> (\<And>x s'. Q x s' \<Longrightarrow> R x s') \<Longrightarrow> ends E s R r"
  by (auto simp: ends_def split: option.splits sum.splits)

lemma ends_bind:
  assumes "ends E s Q r" "\<And>x s'. Q x s' \<Longrightarrow> ends E s' R (f x s')"
  shows "ends E s R (obind r f)"
proof -
  obtain s' x where r: "r = (s', x)" by fastforce
  show ?thesis
  proof (cases "\<exists>y. x = Some (Inr y)")
    case True
    then obtain y where y: "x = Some (Inr y)" ..
    with assms(1) r have "session_run E s [] s'" "Q y s'" by (auto simp: ends_def)
    with r y show ?thesis by (simp add: ends_after assms(2))
  qed (use assms(1) r in \<open>auto simp: ends_def split: option.splits sum.splits\<close>)
qed

lemma obind_assoc: "obind (obind r f) g = obind r (\<lambda>x s. obind (f x s) g)"
  by (auto simp: obind_def split: prod.split option.split sum.split)

lemma failing_open: "broken s = None \<Longrightarrow> failing e s = (s\<lparr>broken := Some (reason_text e)\<rparr>, Some (Inl (Protocol (reason_text e))))"
  by (simp add: failing_def fail_def Let_def)

lemma failing_broken: "broken s = Some r \<Longrightarrow> failing e s = (s, Some (Inl (Protocol r)))"
  by (cases s) (simp add: failing_def fail_def Let_def)

lemma ends_failing: "ends E s Q (failing e s)"
proof (cases "broken s")
  case None
  then show ?thesis by (auto simp: failing_open ends_def intro: run_step session_step.Fail)
qed (auto simp: failing_broken ends_def)

lemma ends_usable: "ends E s (\<lambda>_ s'. s' = s \<and> broken s = None \<and> \<not> write_in_progress s) (usable s)"
  by (auto simp: usable_def ends_failing split: option.split) (auto simp: ends_def)

lemma ends_ready: "ends E s (\<lambda>_ s'. s' = s \<and> broken s = None \<and> \<not> write_in_progress s) (ready s)"
  unfolding ready_def by (rule ends_bind [OF ends_usable]) (auto simp: ends_failing)

section \<open>Reading\<close>

text \<open>What reading may do to the request in flight: nothing, or acknowledge it.\<close>

definition answered :: "'p session \<Rightarrow> 'p session \<Rightarrow> bool" where
  "answered s s' \<longleftrightarrow>
     (case awaiting s of
        None \<Rightarrow> awaiting s' = None \<and> open_command s' = open_command s
      | Some a \<Rightarrow> (awaiting s' = Some a \<and> open_command s' = open_command s)
          \<or> (awaiting s' = None \<and> open_command s' = ack_effect a (open_command s)))"

lemma answered_refl [intro]: "answered s s"
  by (simp add: answered_def split: option.split)

lemma answered_trans: "answered s s' \<Longrightarrow> answered s' s'' \<Longrightarrow> answered s s''"
  by (auto simp: answered_def split: option.splits)

lemma acknowledged_effect:
  "awaiting (acknowledged a s) = awaiting s" "open_command (acknowledged a s) = ack_effect a (open_command s)"
  by (auto simp: acknowledged_def ack_effect_def split: packet.split)

lemma on_line_answered: "on_line L line s = (s', r) \<Longrightarrow> answered s s'"
  by (auto simp: on_line_def enqueue_def Let_def answered_def acknowledged_effect
      split: sum.splits option.splits packet.splits if_splits)

lemma on_lines_answered: "on_lines L lines s = (s', r) \<Longrightarrow> answered s s'"
  by (induction L lines s rule: on_lines.induct)
    (auto split: prod.splits sum.splits dest!: on_line_answered intro: answered_trans)

lemma process_answered:
  "process L chunk s = (s', r) \<Longrightarrow> answered s s'"
  by (auto simp: process_def answered_def split: prod.splits sum.splits option.splits dest!: on_lines_answered)

text \<open>Reading changes nothing but the lines, the queue and the request in flight.\<close>

definition same_frame :: "'p session \<Rightarrow> 'p session \<Rightarrow> bool" where
  "same_frame s s' \<longleftrightarrow> ses_pipe s' = ses_pipe s \<and> broken s' = broken s
     \<and> write_in_progress s' = write_in_progress s \<and> payload_in_progress s' = payload_in_progress s
     \<and> max_queued_bytes s' = max_queued_bytes s"

lemma on_line_frame: "on_line L line s = (s', r) \<Longrightarrow> same_frame s s'"
  by (auto simp: on_line_def enqueue_def Let_def same_frame_def acknowledged_def
      split: sum.splits option.splits packet.splits if_splits)

lemma on_lines_frame: "on_lines L lines s = (s', r) \<Longrightarrow> same_frame s s'"
  by (induction L lines s rule: on_lines.induct)
    (auto split: prod.splits sum.splits dest!: on_line_frame simp: same_frame_def)

lemma process_frame: "process L chunk s = (s', r) \<Longrightarrow> same_frame s s'"
  by (auto simp: process_def split: prod.splits sum.splits dest!: on_lines_frame) (auto simp: same_frame_def)

lemma on_line_splitter: "on_line L line s = (s', r) \<Longrightarrow> ses_lines s' = ses_lines s"
  by (auto simp: on_line_def enqueue_def Let_def acknowledged_def split: sum.splits option.splits packet.splits if_splits)

lemma on_lines_splitter: "on_lines L lines s = (s', r) \<Longrightarrow> ses_lines s' = ses_lines s"
  by (induction L lines s rule: on_lines.induct) (auto split: prod.splits sum.splits dest!: on_line_splitter)

definition live :: "'p session \<Rightarrow> bool" where
  "live s \<longleftrightarrow> broken s = None \<and> \<not> write_in_progress s"

lemma ends_usable_live: "ends E s (\<lambda>_ s'. s' = s \<and> live s) (usable s)"
  using ends_usable by (simp add: live_def)

lemma ends_ready_live: "ends E s (\<lambda>_ s'. s' = s \<and> live s) (ready s)"
  using ends_ready by (simp add: live_def)

lemma ends_step: "session_step E s [] s' \<Longrightarrow> ends E s' Q r \<Longrightarrow> ends E s Q r"
  by (blast intro: ends_after run_step)

lemma ends_broke:
  "session_step E s [] (s'\<lparr>broken := Some (reason_text e)\<rparr>) \<Longrightarrow> broken s' = None \<Longrightarrow> ends E s Q (failing e s')"
  by (auto simp: failing_open ends_def intro: run_step)

lemma ends_pump: "ends E s (\<lambda>_ s'. answered s s' \<and> live s') (pump E s)"
  unfolding pump_def
proof (rule ends_bind [OF ends_usable_live], elim conjE, hypsubst)
  assume s: "live s"
  obtain p r where read: "pipe_read E (ses_pipe s) = (p, r)" by fastforce
  consider "r = None" | e where "r = Some (Inl e)" | chunk where "r = Some (Inr chunk)"
    by (metis old.sum.exhaust option.exhaust)
  then show "ends E s (\<lambda>_ s'. answered s s' \<and> live s') (case pipe_read E (ses_pipe s) of
       (p, None) \<Rightarrow> (s\<lparr>ses_pipe := p\<rparr>, None)
     | (p, Some (Inl e)) \<Rightarrow> failing e (s\<lparr>ses_pipe := p\<rparr>)
     | (p, Some (Inr chunk)) \<Rightarrow>
         (case process (line_codec E) chunk (s\<lparr>ses_pipe := p\<rparr>) of
            (s, Inl e) \<Rightarrow> failing e s
          | (s, Inr u) \<Rightarrow> (s, Some (Inr ()))))"
  proof cases
    case 1
    with s read show ?thesis
      by (auto simp: live_def intro: ends_step [OF session_step.Wait])
  next
    case 2
    with s read show ?thesis
      by (auto simp: live_def intro!: ends_broke session_step.Ended)
  next
    case 3
    obtain s' x where p: "process (line_codec E) chunk (s\<lparr>ses_pipe := p\<rparr>) = (s', x)" by fastforce
    have live': "live s'" and ans: "answered s s'"
      using process_frame [OF p] process_answered [OF p] s
      by (auto simp: same_frame_def live_def answered_def split: option.splits)
    show ?thesis
    proof (cases x)
      case (Inl e)
      with 3 s read p live' show ?thesis
        by (auto simp: live_def intro!: ends_broke session_step.Reject)
    next
      case (Inr u)
      then have "session_step E s [] s'"
        using 3 s read p by (auto simp: live_def intro: session_step.Read)
      with 3 read p Inr ans live' show ?thesis by (auto intro: ends_step)
    qed
  qed
qed

lemma ends_settle: "live s \<Longrightarrow> ends E s (\<lambda>_ s'. awaiting s' = None \<and> answered s s' \<and> live s') (settle E f s)"
proof (induction f arbitrary: s)
  case (Suc f)
  show ?case
  proof (cases "awaiting s = None")
    case False
    have "ends E s (\<lambda>_ s'. awaiting s' = None \<and> answered s s' \<and> live s') (obind (pump E s) (\<lambda>_. settle E f))"
      by (rule ends_bind [OF ends_pump])
        (auto intro: ends_weaken [OF Suc.IH] answered_trans)
    then show ?thesis unfolding settle.simps if_not_P [OF False] .
  qed (use Suc.prems in auto)
qed auto

section \<open>Requests\<close>

lemma ends_bounded:
  assumes "ends E s Q r"
  shows "ends E s Q (bounded E p r)"
proof -
  obtain s' x where r: "r = (s', x)" by fastforce
  have "ends E s Q (timed_out E p s')"
    unfolding timed_out_def Let_def split_beta
    using ends_run [OF assms] r by (simp add: ends_after ends_failing)
  then show ?thesis using assms r by (cases x) (auto simp: bounded_def)
qed

lemma ends_exchange:
  assumes "live s"
    and ok: "\<And>s'. awaiting s' = None \<Longrightarrow> answered s s' \<Longrightarrow> permitted p (open_command s')"
  shows "ends E s (\<lambda>_ s'. awaiting s' = None \<and> live s'
      \<and> (awaiting s = None \<longrightarrow> open_command s' = ack_effect (ack_of p) (open_command s)))
    (exchange E f (line_of E p) (ack_of p) s)"
  unfolding exchange_def
proof (rule ends_bind [OF ends_settle [OF assms(1)]], elim conjE)
  fix s1 assume s1: "awaiting s1 = None" "answered s s1" "live s1"
  let ?Q = "\<lambda>_ s'. awaiting s' = None \<and> live s'
      \<and> (awaiting s = None \<longrightarrow> open_command s' = ack_effect (ack_of p) (open_command s))"
  obtain q r where w: "pipe_write E (line_of E p) (ses_pipe s1) = (q, r)" by fastforce
  let ?s2 = "s1\<lparr>awaiting := Some (ack_of p), ses_pipe := q\<rparr>"
  have flag: "?s2\<lparr>write_in_progress := False\<rparr> = ?s2" using s1(3) by (cases s1) (simp add: live_def)
  note go = s1(1,3) [unfolded live_def] ok [OF s1(1,2)] w
  consider "r = None" | e where "r = Some (Inl e)" | u where "r = Some (Inr u)"
    by (metis old.sum.exhaust option.exhaust)
  then show "ends E s1 ?Q (let s = s1\<lparr>awaiting := Some (ack_of p), write_in_progress := True\<rparr> in
     case pipe_write E (line_of E p) (ses_pipe s) of
       (q, None) \<Rightarrow> (s\<lparr>ses_pipe := q\<rparr>, None)
     | (q, Some (Inl e)) \<Rightarrow> failing e (s\<lparr>ses_pipe := q, write_in_progress := False\<rparr>)
     | (q, Some (Inr u)) \<Rightarrow> settle E f (s\<lparr>ses_pipe := q, write_in_progress := False\<rparr>))"
  proof cases
    case 1
    with go have "session_step E s1 [] (s1\<lparr>awaiting := Some (ack_of p), write_in_progress := True, ses_pipe := q\<rparr>)"
      by (auto intro: session_step.Abandoned)
    from ends_step [OF this ends_dropped] 1 w show ?thesis by (simp add: Let_def)
  next
    case 2
    have "session_step E s1 [] (?s2\<lparr>broken := Some r\<rparr>)" for r
      using 2 go session_step.Refused [of s1 p E q e r] by simp
    then have "session_step E s1 [] (?s2\<lparr>write_in_progress := False, broken := Some r\<rparr>)" for r
      by (simp add: flag)
    then show ?thesis using 2 w s1(3)
      by (auto simp: Let_def live_def intro!: ends_broke)
  next
    case 3
    have step: "session_step E s1 [] ?s2" using 3 go by (auto intro: session_step.Write)
    have "live ?s2" using s1(3) by (simp add: live_def)
    then have "ends E ?s2 ?Q (settle E f ?s2)"
      using s1(2) by (auto intro!: ends_weaken [OF ends_settle] simp: answered_def)
    with flag have "ends E ?s2 ?Q (settle E f (?s2\<lparr>write_in_progress := False\<rparr>))" by simp
    then show ?thesis using 3 w step by (auto simp: Let_def intro: ends_step)
  qed
qed

lemma ends_request:
  assumes "\<And>s'. awaiting s' = None \<Longrightarrow> answered s s' \<Longrightarrow> permitted p (open_command s')"
  shows "ends E s (\<lambda>_ s'. awaiting s' = None \<and> live s'
      \<and> (awaiting s = None \<longrightarrow> open_command s' = ack_effect (ack_of p) (open_command s)))
    (request E f p (ack_of p) s)"
  unfolding request_def
  by (rule ends_bind [OF ends_usable_live]) (auto intro!: ends_bounded ends_exchange assms)

text \<open>A request that nothing precedes.\<close>

lemma ends_request_now:
  assumes "awaiting s = None" "permitted p (open_command s)"
  shows "ends E s (\<lambda>_ s'. awaiting s' = None \<and> live s'
      \<and> open_command s' = ack_effect (ack_of p) (open_command s)) (request E f p (ack_of p) s)"
  by (rule ends_weaken [OF ends_request]) (use assms in \<open>auto simp: answered_def\<close>)

section \<open>Operations\<close>

lemma ends_settle_bounded:
  "live s \<Longrightarrow> ends E s (\<lambda>_ s'. awaiting s' = None \<and> live s') (settle_bounded E f s)"
  by (auto simp: settle_bounded_def split: option.split intro!: ends_bounded ends_weaken [OF ends_settle])

text \<open>No command is open for the nil id.\<close>

lemma ends_close_open:
  assumes "awaiting s = None" "live s" "open_command s \<noteq> Some nil_uuid"
  shows "ends E s (\<lambda>_ s'. awaiting s' = None \<and> live s' \<and> open_command s' = None) (close_open E f s)"
proof (cases "open_command s")
  case (Some g)
  then have "permitted (Close g) (open_command s)" using assms(3) by (simp add: permitted_def)
  from ends_weaken [OF ends_request_now [OF assms(1) this]] Some show ?thesis
    by (simp add: close_open_def ack_effect_def)
qed (use assms in \<open>auto simp: close_open_def\<close>)

definition command_named :: "'p session \<Rightarrow> bool" where
  "command_named s \<longleftrightarrow> open_command s \<noteq> Some nil_uuid
     \<and> awaiting s \<noteq> Some (CommandAck nil_uuid)"

lemma answered_named: "answered s s' \<Longrightarrow> command_named s \<Longrightarrow> command_named s'"
  by (auto simp: answered_def command_named_def ack_effect_def split: option.splits packet.splits if_splits)

lemma step_named: "session_step E s t s' \<Longrightarrow> command_named s \<Longrightarrow> command_named s'"
proof (induction rule: session_step.induct)
  case (Read s p chunk s' u)
  from Read.hyps(4) show ?case
    by (rule answered_named [OF process_answered]) (use Read.prems in \<open>simp add: command_named_def\<close>)
next
  case (Reject s p chunk s' e r)
  from Reject.hyps(4) have "command_named s'"
    by (rule answered_named [OF process_answered]) (use Reject.prems in \<open>simp add: command_named_def\<close>)
  then show ?case by (simp add: command_named_def)
qed (auto simp: command_named_def permitted_def dequeue_def split: packet.splits prod.splits)

interpretation naming: session_invariant E "\<lambda>_. command_named" for E
  by unfold_locales (rule step_named)

lemma ends_named:
  assumes "ends E s Q r" "command_named s"
  shows "ends E s (\<lambda>x s'. Q x s' \<and> command_named s') r"
proof -
  have "command_named (fst r)" using naming.run_kept [OF ends_run [OF assms(1)] assms(2)] .
  with assms(1) show ?thesis by (auto simp: ends_def split: option.splits sum.splits)
qed

lemma ends_open_for:
  assumes "live s" "command_named s"
  shows "ends E s (\<lambda>_ s'. live s' \<and> (g \<noteq> nil_uuid \<longrightarrow> awaiting s' = None \<and> open_command s' = Some g))
    (open_for E f g s)"
proof (cases "g = nil_uuid")
  case False
  let ?Q = "\<lambda>_ s'. live s' \<and> (g \<noteq> nil_uuid \<longrightarrow> awaiting s' = None \<and> open_command s' = Some g)"
  have cmd: "ends E s2 ?Q (request E f (Command g) (CommandAck g) s2)"
    if "awaiting s2 = None \<and> live s2 \<and> open_command s2 = None" for s2
    using ends_weaken [OF ends_request_now [of s2 "Command g" E f]] that False
    by (simp add: permitted_def ack_effect_def)
  have "ends E s1 ?Q (if open_command s1 \<noteq> Some g
      then obind (close_open E f s1) (\<lambda>_. request E f (Command g) (CommandAck g)) else (s1, Some (Inr ())))"
    if "(awaiting s1 = None \<and> live s1) \<and> command_named s1" for s1
    using that by (auto simp: command_named_def intro!: ends_bind [OF ends_close_open] cmd)
  then show ?thesis using False
    by (simp add: open_for_def ends_bind [OF ends_named [OF ends_settle_bounded [OF assms(1)] assms(2)]])
qed (use assms in \<open>auto simp: open_for_def\<close>)

lemma ends_send_chunks:
  assumes "live s" "\<forall>c\<in>set cs. c \<noteq> [] \<and> length c \<le> MAX_DATA_PAYLOAD"
    and "g \<noteq> nil_uuid \<longrightarrow> awaiting s = None \<and> open_command s = Some g"
  shows "ends E s (\<lambda>_. live) (send_chunks E f g cs s)"
  using assms
proof (induction cs arbitrary: s)
  case (Cons c cs)
  have "permitted (Data Default g c) (open_command s')" if "answered s s'" for s'
    using that Cons.prems by (auto simp: permitted_def answered_def)
  then have "ends E s (\<lambda>_ s'. awaiting s' = None \<and> live s'
      \<and> (awaiting s = None \<longrightarrow> open_command s' = ack_effect (ack_of (Data Default g c)) (open_command s)))
    (request E f (Data Default g c) (ack_of (Data Default g c)) s)"
    by (intro ends_request) blast
  then have "ends E s (\<lambda>_ s'. live s' \<and> (g \<noteq> nil_uuid \<longrightarrow> awaiting s' = None \<and> open_command s' = Some g))
      (request E f (Data Default g c) (ack_of (Data Default g c)) s)"
    by (rule ends_weaken) (use Cons.prems(3) in \<open>auto simp: ack_effect_def\<close>)
  then have "ends E s (\<lambda>_. live) (obind (request E f (Data Default g c) (ack_of (Data Default g c)) s)
      (\<lambda>_. send_chunks E f g cs))"
  proof (rule ends_bind)
    fix u and s' :: "'a session" assume "live s' \<and> (g \<noteq> nil_uuid \<longrightarrow> awaiting s' = None \<and> open_command s' = Some g)"
    then show "ends E s' (\<lambda>_. live) (send_chunks E f g cs s')"
      using Cons.prems(2) by (intro Cons.IH) auto
  qed
  then show ?case by simp
qed auto

lemma ends_send:
  assumes "command_named s"
  shows "ends E s (\<lambda>_ _. True) (session_send E f g payload s)"
proof (cases "payload = []")
  case False
  have "ends E s2 (\<lambda>_ _. True)
      (obind (send_chunks E f g (chunks MAX_DATA_PAYLOAD payload)
                (s2\<lparr>payload_in_progress := (length payload > MAX_DATA_PAYLOAD)\<rparr>))
        (\<lambda>_ s. (s\<lparr>payload_in_progress := False\<rparr>, Some (Inr ()))))"
    if s2: "live s2 \<and> (g \<noteq> nil_uuid \<longrightarrow> awaiting s2 = None \<and> open_command s2 = Some g)" for s2
  proof -
    let ?s3 = "s2\<lparr>payload_in_progress := (length payload > MAX_DATA_PAYLOAD)\<rparr>"
    have "ends E ?s3 (\<lambda>_. live) (send_chunks E f g (chunks MAX_DATA_PAYLOAD payload) ?s3)"
      by (rule ends_send_chunks) (use s2 chunks_bounds in \<open>force simp: live_def\<close>)+
    then have "ends E ?s3 (\<lambda>_ _. True) (obind (send_chunks E f g (chunks MAX_DATA_PAYLOAD payload) ?s3)
        (\<lambda>_ s. (s\<lparr>payload_in_progress := False\<rparr>, Some (Inr ()))))"
      by (rule ends_bind) (auto simp: live_def intro: ends_step [OF session_step.Payload])
    then show ?thesis
      using s2 by (auto simp: live_def intro: ends_step [OF session_step.Payload])
  qed
  then have "ends E s (\<lambda>_ _. True) (obind (ready s) (\<lambda>_ s. obind (open_for E f g s) (\<lambda>_ s.
        obind (send_chunks E f g (chunks MAX_DATA_PAYLOAD payload)
                 (s\<lparr>payload_in_progress := (length payload > MAX_DATA_PAYLOAD)\<rparr>)) (\<lambda>_ s.
          (s\<lparr>payload_in_progress := False\<rparr>, Some (Inr ()))))))"
    using assms by (auto intro!: ends_bind [OF ends_ready_live] ends_bind [OF ends_open_for])
  with False show ?thesis by (simp add: session_send_def)
qed (auto simp: session_send_def)

lemma ends_signal: "ends E s (\<lambda>_ _. True) (session_signal E f s)"
proof -
  have "ends E s1 (\<lambda>_ _. True) (request E f (Signal g) (SignalAck g) s1)"
    if "awaiting s1 = None" "open_command s1 = Some g" for s1 g
    using ends_weaken [OF ends_request_now [of s1 "Signal g" E f]] that by (simp add: permitted_def)
  then show ?thesis
    unfolding session_signal_def
    by (auto intro!: ends_bind [OF ends_ready_live] ends_bind [OF ends_settle_bounded] split: option.split)
qed

lemma ends_close:
  assumes "command_named s"
  shows "ends E s (\<lambda>_ _. True) (session_close E f s)"
proof -
  have "ends E s2 (\<lambda>_ _. True) (request E f (Close nil_uuid) (CloseAck nil_uuid) s2)"
    if "awaiting s2 = None \<and> live s2 \<and> open_command s2 = None" for s2
    using ends_weaken [OF ends_request_now [of s2 "Close nil_uuid" E f]] that by (simp add: permitted_def)
  then show ?thesis
    unfolding session_close_def
    using assms by (auto intro!: ends_bind [OF ends_ready_live] ends_bind [OF ends_named [OF ends_settle_bounded]]
        ends_bind [OF ends_close_open] simp: command_named_def)
qed

text \<open>\<open>recv\<close> hands over what it returns.\<close>

definition handed :: "'p session \<times> bytes res option \<Rightarrow> bytes list" where
  "handed r = (case snd r of Some (Inr payload) \<Rightarrow> [payload] | _ \<Rightarrow> [])"

lemma recv_run:
  "session_run E s (handed (session_recv E f s)) (fst (session_recv E f s))"
proof (induction f arbitrary: s)
  case (Suc f)
  obtain s1 x where d: "dequeue s = (s1, x)" by fastforce
  from session_step.Take [OF d, of E] have take: "session_run E s (case x of None \<Rightarrow> [] | Some y \<Rightarrow> [y]) s1"
    by (rule run_step)
  show ?case
  proof (cases x)
    case None
    with take have silent: "session_run E s [] s1" by simp
    obtain s2 y where r: "ready s1 = (s2, y)" by fastforce
    have ready: "session_run E s1 [] s2" using ends_run [OF ends_ready [of E s1]] r by simp
    obtain s3 z where p: "pump E s2 = (s3, z)" by fastforce
    have pump: "session_run E s2 [] s3" using ends_run [OF ends_pump [of E s2]] p by simp
    obtain s4 w where q: "dequeue s3 = (s4, w)" by fastforce
    have last: "session_run E s3 (case w of None \<Rightarrow> [] | Some y \<Rightarrow> [y]) s4"
      using session_step.Take [OF q, of E] by (rule run_step)
    note to2 = run_silent [OF silent ready] and to3 = run_silent [OF run_silent [OF silent ready] pump]
    consider "y = None" | e where "y = Some (Inl e)" | u where "y = Some (Inr u)"
      by (metis old.sum.exhaust option.exhaust)
    then show ?thesis
    proof cases
      case 3
      consider "z = None" | e where "z = Some (Inl e)" | v where "z = Some (Inr v)"
        by (metis old.sum.exhaust option.exhaust)
      then show ?thesis
      proof cases
        case 2
        with 3 show ?thesis using None d r p q run_silent [OF to3 last] by (cases w) (simp_all add: handed_def)
      qed (use 3 None d r p to3 run_silent [OF to3 Suc.IH] in \<open>simp_all add: handed_def\<close>)
    qed (use None d r to2 in \<open>simp_all add: handed_def\<close>)
  qed (use take d in \<open>simp add: handed_def\<close>)
qed (auto simp: handed_def)

section \<open>Sequences of operations\<close>

text \<open>The operations with the bound on their reads; what is run yields the payloads received.\<close>

datatype session_call = SendCall uuid bytes nat | RecvCall nat | SignalCall nat | CloseCall nat

fun call :: "'p pipe_env \<Rightarrow> session_call \<Rightarrow> 'p session \<Rightarrow> 'p session \<times> bytes list" where
  "call E (SendCall g payload f) s = (fst (session_send E f g payload s), [])"
| "call E (RecvCall f) s = (fst (session_recv E f s), handed (session_recv E f s))"
| "call E (SignalCall f) s = (fst (session_signal E f s), [])"
| "call E (CloseCall f) s = (fst (session_close E f s), [])"

fun calls :: "'p pipe_env \<Rightarrow> session_call list \<Rightarrow> 'p session \<Rightarrow> 'p session \<times> bytes list" where
  "calls E [] s = (s, [])"
| "calls E (c # cs) s =
     (case call E c s of (s, got) \<Rightarrow> (case calls E cs s of (s, later) \<Rightarrow> (s, got @ later)))"

lemma call_run: "command_named s \<Longrightarrow> session_run E s (snd (call E c s)) (fst (call E c s))"
  by (cases c) (auto intro: recv_run ends_run ends_send ends_signal ends_close)

lemma calls_run: "command_named s \<Longrightarrow> session_run E s (snd (calls E cs s)) (fst (calls E cs s))"
proof (induction cs arbitrary: s)
  case (Cons c cs)
  have run: "session_run E s (snd (call E c s)) (fst (call E c s))" by (rule call_run [OF Cons.prems])
  have "command_named (fst (call E c s))" using naming.run_kept [OF run Cons.prems] .
  from run_trans [OF run Cons.IH [OF this]] show ?case by (simp add: split_beta)
qed auto

lemma new_named: "command_named (session_new p)"
  by (simp add: command_named_def session_new_def)

context session_invariant
begin

text \<open>What every step keeps holds after any sequence of operations on a new session.\<close>

lemma calls_kept:
  assumes "I [] (session_new p)"
  shows "I (snd (calls E cs (session_new p))) (fst (calls E cs (session_new p)))"
  using run_kept [OF calls_run [OF new_named] assms] by simp

end

end
