(* ===== verification/Session_Properties.thy ===== *)
theory Session_Properties
  imports Session_Steps "HOL-Library.Sublist"
begin

text \<open>
  What holds of an OutOfProc session after any operations over any pipe: its queue, that the first
  error ends it, and, over a record of what was written and read, that it is a stop-and-wait client
  which hands over the payloads that arrived, each once and in order.
\<close>

section \<open>The state\<close>

definition queue_ok :: "'p session \<Rightarrow> bool" where
  "queue_ok s \<longleftrightarrow>
     inbound_bytes s = sum_list (map queue_cost (inbound s))
     \<and> max_queued_bytes s = MAX_QUEUED_BYTES \<and> inbound_bytes s \<le> MAX_QUEUED_BYTES
     \<and> [] \<notin> set (inbound s) \<and> (write_in_progress s \<longrightarrow> awaiting s \<noteq> None)"

lemma queue_ok_other:
  "queue_ok s \<Longrightarrow> inbound s' = inbound s \<Longrightarrow> inbound_bytes s' = inbound_bytes s \<Longrightarrow>
     max_queued_bytes s' = max_queued_bytes s \<Longrightarrow> (write_in_progress s' \<longrightarrow> awaiting s' \<noteq> None) \<Longrightarrow> queue_ok s'"
  by (simp add: queue_ok_def)

lemma dequeue_queue:
  assumes "queue_ok s"
  shows "dequeue s =
    (case inbound s of
       [] \<Rightarrow> (s, None)
     | x # xs \<Rightarrow> (s\<lparr>inbound := xs, inbound_bytes := sum_list (map queue_cost xs)\<rparr>, Some x))"
  using assms
  by (cases "inbound s") (cases s; auto simp: dequeue_def queue_ok_def Let_def)+

lemma dequeue_ok: "queue_ok s \<Longrightarrow> dequeue s = (s', x) \<Longrightarrow> queue_ok s'"
  by (auto simp: dequeue_queue queue_ok_def split: list.splits)

lemma usize_add_le: "usize_add a b \<le> MAX_QUEUED_BYTES \<Longrightarrow> usize_add a b = a + b"
  by (auto simp: usize_add_def MAX_QUEUED_BYTES_def)

lemma enqueue_ok: "queue_ok s \<Longrightarrow> payload \<noteq> [] \<Longrightarrow> enqueue payload s = (s', r) \<Longrightarrow> queue_ok s'"
  using usize_add_le [of "inbound_bytes s" "queue_cost payload"]
  by (auto simp: enqueue_def Let_def queue_ok_def split: if_splits)

lemma on_line_ok: "on_line L line s = (s', r) \<Longrightarrow> queue_ok s \<Longrightarrow> \<not> write_in_progress s \<Longrightarrow> queue_ok s'"
  using on_line_frame [of L line s s' r]
  by (auto simp: on_line_def same_frame_def acknowledged_def dest: enqueue_ok parsed_payload
      split: sum.splits option.splits packet.splits if_splits intro: queue_ok_other)

lemma on_lines_ok: "on_lines L lines s = (s', r) \<Longrightarrow> queue_ok s \<Longrightarrow> \<not> write_in_progress s \<Longrightarrow> queue_ok s'"
proof (induction L lines s rule: on_lines.induct)
  case (2 L line lines s)
  obtain s1 x where l: "on_line L line s = (s1, x)" by fastforce
  have "queue_ok s1" "\<not> write_in_progress s1"
    using on_line_ok [OF l] on_line_frame [OF l] 2 by (simp_all add: same_frame_def)
  then show ?case using 2 l by (cases x) auto
qed simp

lemma process_ok:
  "process L chunk s = (s', r) \<Longrightarrow> queue_ok s \<Longrightarrow> \<not> write_in_progress s \<Longrightarrow> queue_ok s'"
  by (auto simp: process_def queue_ok_other split: prod.splits sum.splits dest!: on_lines_ok)

lemma queue_ok_pipe [simp]: "queue_ok (s\<lparr>ses_pipe := p\<rparr>) = queue_ok s"
  "queue_ok (s\<lparr>broken := b\<rparr>) = queue_ok s"
  by (simp_all add: queue_ok_def)

lemma step_ok: "session_step E s t s' \<Longrightarrow> queue_ok s \<Longrightarrow> queue_ok s'"
proof (induction rule: session_step.induct)
  case (Take s s' x)
  then show ?case by (blast intro: dequeue_ok)
next
  case (Read s p chunk s' u)
  then show ?case by (auto intro: process_ok)
next
  case (Reject s p chunk s' e r)
  then show ?case by (auto intro: process_ok)
qed (auto intro: queue_ok_other simp: queue_ok_def)

interpretation queue: session_invariant E "\<lambda>_. queue_ok" for E
  by unfold_locales (rule step_ok)

lemma new_queue_ok: "queue_ok (session_new p)"
  by (simp add: queue_ok_def session_new_def)

text \<open>
  C22: after any operations over any pipe the queue holds no empty payload and costs at most 64 MiB,
  64 bytes per entry included, its cost is the recorded one, and a write that did not complete is one
  whose acknowledgement is awaited.
\<close>

theorem session_queue_is_bounded:
  "case fst (calls E cs (session_new p)) of s \<Rightarrow>
     [] \<notin> set (inbound s)
     \<and> inbound_bytes s = sum_list (map queue_cost (inbound s))
     \<and> inbound_bytes s \<le> 64 * 2 ^ 20
     \<and> (if write_in_progress s then awaiting s \<noteq> None else True)"
  using queue.calls_kept [OF new_queue_ok, of E cs p]
  by (simp add: queue_ok_def MAX_QUEUED_BYTES_def)

section \<open>Errors\<close>

text \<open>The error an operation returns.\<close>

definition error_in :: "'p session \<times> 'a res option \<Rightarrow> psrp_error option" where
  "error_in r = (case snd r of Some (Inl e) \<Rightarrow> Some e | _ \<Rightarrow> None)"

fun call_error :: "'p pipe_env \<Rightarrow> session_call \<Rightarrow> 'p session \<Rightarrow> psrp_error option" where
  "call_error E (SendCall g payload f) s = error_in (session_send E f g payload s)"
| "call_error E (RecvCall f) s = error_in (session_recv E f s)"
| "call_error E (SignalCall f) s = error_in (session_signal E f s)"
| "call_error E (CloseCall f) s = error_in (session_close E f s)"

lemma ends_error: "ends E s Q r \<Longrightarrow> error_in r = Some e \<Longrightarrow> \<exists>reason. e = Protocol reason \<and> broken (fst r) = Some reason"
  by (auto simp: ends_def error_in_def split: option.splits sum.splits)

lemma ready_broken: "broken s = Some r \<Longrightarrow> ready s = (s, Some (Inl (Protocol r)))"
  by (simp add: ready_def usable_def)

text \<open>What a broken session answers.\<close>

lemma broken_recv:
  assumes "queue_ok s" "broken s = Some r"
  shows "session_recv E (Suc f) s =
    (case inbound s of
       [] \<Rightarrow> (s, Some (Inl (Protocol r)))
     | x # xs \<Rightarrow> (s\<lparr>inbound := xs, inbound_bytes := sum_list (map queue_cost xs)\<rparr>, Some (Inr x)))"
  using dequeue_queue [OF assms(1)] ready_broken [OF assms(2)] by (cases "inbound s") simp_all

lemma recv_error:
  assumes "queue_ok s" "error_in (session_recv E f s) = Some e"
  shows "\<exists>reason. e = Protocol reason \<and> broken (fst (session_recv E f s)) = Some reason"
  using assms
proof (induction f arbitrary: s)
  case (Suc f)
  note deq = dequeue_queue [OF Suc.prems(1)]
  show ?case
  proof (cases "inbound s")
    case Nil
    obtain s2 y where r: "ready s = (s2, y)" by fastforce
    obtain s3 z where p: "pump E s2 = (s3, z)" by fastforce
    have "queue_ok s2" using queue.run_kept [OF ends_run [OF ends_ready [of E s]]] Suc.prems(1) r by simp
    then have ok: "queue_ok s3" using queue.run_kept [OF ends_run [OF ends_pump [of E s2]]] p by simp
    consider "y = None" | b where "y = Some (Inl b)" | u where "y = Some (Inr u)"
      by (metis old.sum.exhaust option.exhaust)
    then show ?thesis
    proof cases
      case 3
      consider "z = None" | b where "z = Some (Inl b)" | v where "z = Some (Inr v)"
        by (metis old.sum.exhaust option.exhaust)
      then show ?thesis
      proof cases
        case 2
        have "\<exists>reason. b = Protocol reason \<and> broken s3 = Some reason"
          using ends_error [OF ends_pump [of E s2]] 2 p by (simp add: error_in_def)
        with 2 3 Nil deq r p dequeue_queue [OF ok] Suc.prems(2) show ?thesis
          by (cases "inbound s3") (auto simp: error_in_def)
      qed (use 3 Nil deq r p Suc.IH [OF ok] Suc.prems(2) in \<open>simp_all add: error_in_def\<close>)
    qed (use Nil deq r ends_error [OF ends_ready [of E s]] Suc.prems(2) in \<open>simp_all add: error_in_def\<close>)
  qed (use deq Suc.prems(2) in \<open>simp add: error_in_def\<close>)
qed (simp add: error_in_def)

lemma call_error_reason:
  assumes "queue_ok s" "command_named s" "call_error E c s = Some e"
  shows "\<exists>reason. e = Protocol reason \<and> broken (fst (call E c s)) = Some reason"
proof (cases c)
  case (SendCall g payload f)
  then show ?thesis using assms ends_error [OF ends_send [OF assms(2)]] by simp
next
  case (RecvCall f)
  then show ?thesis using assms recv_error [OF assms(1)] by simp
next
  case (SignalCall f)
  then show ?thesis using assms ends_error [OF ends_signal] by simp
next
  case (CloseCall f)
  then show ?thesis using assms ends_error [OF ends_close [OF assms(2)]] by simp
qed

lemma broken_call:
  assumes "queue_ok s" "broken s = Some r"
  shows "ses_pipe (fst (call E c s)) = ses_pipe s \<and> broken (fst (call E c s)) = Some r \<and> queue_ok (fst (call E c s))"
proof (cases c)
  case (SendCall g payload f)
  then show ?thesis using assms by (simp add: session_send_def ready_broken)
next
  case (RecvCall f)
  then show ?thesis using assms broken_recv [OF assms, of E] queue.run_kept [OF recv_run [of E s f]]
    by (cases f) (auto split: list.split)
qed (use assms in \<open>simp_all add: session_signal_def session_close_def ready_broken\<close>)

lemma broken_calls:
  assumes "queue_ok s" "broken s = Some r"
  shows "ses_pipe (fst (calls E cs s)) = ses_pipe s \<and> broken (fst (calls E cs s)) = Some r \<and> queue_ok (fst (calls E cs s))"
  using assms
proof (induction cs arbitrary: s)
  case (Cons c cs)
  with broken_call [OF Cons.prems, of E c] Cons.IH [of "fst (call E c s)"] show ?case
    by (simp add: split_beta)
qed simp

lemma broken_error:
  assumes "queue_ok s" "broken s = Some r"
  shows "call_error E c s =
    (case c of
       SendCall g payload f \<Rightarrow> if payload = [] then None else Some (Protocol r)
     | RecvCall f \<Rightarrow> if f = 0 \<or> inbound s \<noteq> [] then None else Some (Protocol r)
     | _ \<Rightarrow> Some (Protocol r))"
proof (cases c)
  case (RecvCall f)
  then show ?thesis using broken_recv [OF assms, of E]
    by (cases f) (auto simp: error_in_def split: list.split)
qed (use assms in \<open>simp_all add: session_send_def session_signal_def session_close_def ready_broken error_in_def\<close>)

text \<open>
  C23: the first error ends the session: whatever is called after an operation failed, the pipe is not
  touched again, and every later operation fails with that same error, but for a send of nothing and
  for a \<open>recv\<close> while a payload is still queued.
\<close>

theorem session_fails_for_good:
  assumes "s = fst (calls E cs (session_new p))" "call_error E c s = Some e"
  shows "case (fst (call E c s), fst (calls E ds (fst (call E c s)))) of (s', t) \<Rightarrow>
    ses_pipe t = ses_pipe s'
    \<and> call_error E d t =
      (case d of
         SendCall g payload f \<Rightarrow> if payload = [] then None else Some e
       | RecvCall f \<Rightarrow> if f = 0 \<or> inbound t \<noteq> [] then None else Some e
       | _ \<Rightarrow> Some e)"
proof -
  have ok: "queue_ok s" "command_named s"
    using queue.calls_kept [OF new_queue_ok, of E cs p] naming.calls_kept [OF new_named, of E cs p] assms(1) by simp_all
  obtain reason where r: "e = Protocol reason" "broken (fst (call E c s)) = Some reason"
    using call_error_reason [OF ok assms(2)] by blast
  have "queue_ok (fst (call E c s))" using queue.run_kept [OF call_run [OF ok(2)] ok(1)] .
  from broken_calls [OF this r(2), of E ds] broken_error [of "fst (calls E ds (fst (call E c s)))" reason E d]
  show ?thesis unfolding r(1) by simp
qed

text \<open>A pipe of the given reads, which takes every write, and no timeout.\<close>

definition sample_pipe :: "('p \<Rightarrow> 'p \<times> bytes res option) \<Rightarrow> 'p pipe_env" where
  "sample_pipe read =
     \<lparr>line_codec = sample_line_env, pipe_write = (\<lambda>line p. (p, Some (Inr ()))), pipe_read = read,
      elapses = (\<lambda>p. False), timeout_text = lit ''60 s''\<rparr>"

theorem session_fails_for_good_witness:
  "let E = sample_pipe (\<lambda>p. (p, Some (Inl (protocol (lit ''end of stream'')))));
       t = fst (calls E [CloseCall 3] (fst (call E (RecvCall 1) (session_new ()))))
   in call_error E (SignalCall 2) t = Some (Protocol (lit ''end of stream''))"
proof -
  let ?E = "sample_pipe (\<lambda>p. (p, Some (Inl (protocol (lit ''end of stream'')))))"
  have "call_error ?E (RecvCall 1) (session_new ()) = Some (Protocol (lit ''end of stream''))"
    by (simp add: error_in_def dequeue_def session_new_def ready_def usable_def pump_def sample_pipe_def
        failing_def fail_def protocol_def Let_def)
  from session_fails_for_good [where cs = "[]" and p = "()", OF _ this, where ds = "[CloseCall 3]" and d = "SignalCall 2"]
  show ?thesis by (simp add: Let_def)
qed

section \<open>What is written and read\<close>

text \<open>The same pipe, with a record of what was given to it and what it delivered.\<close>

datatype io = Out bytes | In bytes

definition logged :: "'p pipe_env \<Rightarrow> ('p \<times> io list) pipe_env" where
  "logged E =
     \<lparr>line_codec = line_codec E,
      pipe_write = (\<lambda>line (p, log). case pipe_write E line p of (p, r) \<Rightarrow> ((p, log @ [Out line]), r)),
      pipe_read = (\<lambda>(p, log). case pipe_read E p of
          (p, Some (Inr chunk)) \<Rightarrow> ((p, log @ [In chunk]), Some (Inr chunk))
        | (p, r) \<Rightarrow> ((p, log), r)),
      elapses = (\<lambda>(p, log). elapses E p), timeout_text = timeout_text E\<rparr>"

text \<open>
  A monitor of the record.  It cuts what was read into lines and keeps the payloads of the \<open>Data\<close>
  lines, the request without an answer and the open command, as the answers say.
\<close>

record monitor =
  splitting :: line_splitter
  outstanding :: "packet option"
  opened :: "uuid option"
  arrived :: "bytes list"

definition monitor_new :: monitor where
  "monitor_new = \<lparr>splitting = splitter_new, outstanding = None, opened = None, arrived = []\<rparr>"

definition sees :: "line_env \<Rightarrow> ustr \<Rightarrow> monitor \<Rightarrow> monitor" where
  "sees L line m =
     (case parse_line L line of
        Inr (Some (Data s g payload)) \<Rightarrow> m\<lparr>arrived := arrived m @ [payload]\<rparr>
      | Inr (Some p) \<Rightarrow>
          if is_ack p \<and> outstanding m = Some p
          then m\<lparr>outstanding := None, opened := ack_effect p (opened m)\<rparr> else m
      | _ \<Rightarrow> m)"

definition hears :: "line_env \<Rightarrow> bytes \<Rightarrow> monitor \<Rightarrow> monitor" where
  "hears L chunk m =
     (case push (hidden L) chunk (splitting m) of (sp, lines, e) \<Rightarrow> fold (sees L) lines (m\<lparr>splitting := sp\<rparr>))"

text \<open>
  The protocol: a request is written when none is outstanding and it is permitted for the open
  command; anything may be read.
\<close>

inductive stop_and_wait :: "line_env \<Rightarrow> io list \<Rightarrow> monitor \<Rightarrow> bool" for L where
  Begin: "stop_and_wait L [] monitor_new"
| Ask: "stop_and_wait L log m \<Longrightarrow> outstanding m = None \<Longrightarrow> permitted p (opened m) \<Longrightarrow>
    stop_and_wait L (log @ [Out (as_bytes (to_line (line_uuids L) p))]) (m\<lparr>outstanding := Some (ack_of p)\<rparr>)"
| Hear: "stop_and_wait L log m \<Longrightarrow> stop_and_wait L (log @ [In chunk]) (hears L chunk m)"

text \<open>What the monitor knows of a session that handed over \<open>d\<close>.\<close>

definition followed :: "bytes list \<Rightarrow> monitor \<Rightarrow> 'p session \<Rightarrow> bool" where
  "followed d m s \<longleftrightarrow> outstanding m = awaiting s \<and> opened m = open_command s \<and> arrived m = d @ inbound s"

lemma sees_arrived: "prefix (arrived m) (arrived (sees L line m))"
  by (auto simp: sees_def split: sum.split option.split packet.split)

lemma fold_sees_arrived: "prefix (arrived m) (arrived (fold (sees L) lines m))"
  by (induction lines arbitrary: m) (auto intro: prefix_order.trans [OF sees_arrived])

lemma on_line_followed:
  assumes "on_line L line s = (s', r)" "followed d m s"
  shows "case r of Inr _ \<Rightarrow> followed d (sees L line m) s' | Inl _ \<Rightarrow> prefix (d @ inbound s') (arrived (sees L line m))"
proof -
  have stay: "prefix (d @ inbound s) (arrived (sees L line m))"
    using sees_arrived [of m L line] assms(2) by (simp add: followed_def)
  have ack: "inbound (acknowledged a t) = inbound t" for a t
    by (auto simp: acknowledged_def split: packet.split)
  show ?thesis
    using assms stay
    by (auto simp: on_line_def enqueue_def Let_def followed_def sees_def acknowledged_effect ack is_ack_def
        split: sum.splits option.splits packet.splits if_splits)
qed

lemma on_lines_followed:
  "on_lines L lines s = (s', r) \<Longrightarrow> followed d m s \<Longrightarrow>
     case r of
       Inr _ \<Rightarrow> followed d (fold (sees L) lines m) s'
     | Inl _ \<Rightarrow> prefix (d @ inbound s') (arrived (fold (sees L) lines m))"
proof (induction L lines s arbitrary: m rule: on_lines.induct)
  case (2 L line lines s)
  obtain s1 x where l: "on_line L line s = (s1, x)" by fastforce
  note one = on_line_followed [OF l 2(3)]
  show ?case
  proof (cases x)
    case (Inl e)
    with one l 2(2) show ?thesis
      by (auto intro: prefix_order.trans [OF _ fold_sees_arrived])
  next
    case (Inr u)
    have "followed d (sees L line m) s1" using one Inr by simp
    then show ?thesis using 2(1) [where m = "sees L line m"] 2(2) l Inr by (cases r) auto
  qed
qed auto

definition monitored :: "bytes list \<Rightarrow> ('p \<times> io list) session \<Rightarrow> line_env \<Rightarrow> monitor \<Rightarrow> bool" where
  "monitored d s L m \<longleftrightarrow> stop_and_wait L (snd (ses_pipe s)) m \<and> prefix (d @ inbound s) (arrived m)
     \<and> (broken s = None \<longrightarrow> splitting m = ses_lines s \<and> followed d m s)"

lemma process_followed:
  assumes "process L chunk s = (s', r)" "followed d m s" "splitting m = ses_lines s"
  shows "prefix (d @ inbound s') (arrived (hears L chunk m))"
    "r = Inr u \<Longrightarrow> followed d (hears L chunk m) s' \<and> splitting (hears L chunk m) = ses_lines s'"
proof -
  obtain sp lines e where p: "push (hidden L) chunk (ses_lines s) = (sp, lines, e)" by (metis prod_cases3)
  obtain s1 x where l: "on_lines L lines (s\<lparr>ses_lines := sp\<rparr>) = (s1, x)" by fastforce
  have s1: "s1 = s'" using assms(1) p l by (auto simp: process_def split: sum.splits)
  have hears: "hears L chunk m = fold (sees L) lines (m\<lparr>splitting := sp\<rparr>)" using p assms(3) by (simp add: hears_def)
  have "followed d (m\<lparr>splitting := sp\<rparr>) (s\<lparr>ses_lines := sp\<rparr>)" using assms(2) by (simp add: followed_def)
  note all = on_lines_followed [OF l this, folded hears, unfolded s1]
  then show "prefix (d @ inbound s') (arrived (hears L chunk m))"
    by (auto simp: followed_def split: sum.splits)
  assume "r = Inr u"
  then have x: "\<exists>v. x = Inr v" using assms(1) p l by (auto simp: process_def split: sum.splits)
  have lines: "ses_lines s1 = sp" using on_lines_splitter [OF l] by simp
  have "splitting (fold (sees L) lines m') = splitting m'" for m'
    by (induction lines arbitrary: m') (auto simp: sees_def split: sum.splits option.splits packet.splits)
  then show "followed d (hears L chunk m) s' \<and> splitting (hears L chunk m) = ses_lines s'"
    using all x lines s1 hears by auto
qed

lemma logged_codec [simp]: "line_codec (logged E) = line_codec E"
  by (simp add: logged_def)

lemma logged_read:
  "pipe_read (logged E) q = (p, r) \<Longrightarrow>
     snd p = snd q @ (case r of Some (Inr chunk) \<Rightarrow> [In chunk] | _ \<Rightarrow> [])"
  by (cases q) (auto simp: logged_def split: prod.splits option.splits sum.splits)

lemma logged_write: "pipe_write (logged E) line q = (p, r) \<Longrightarrow> snd p = snd q @ [Out line]"
  by (cases q) (auto simp: logged_def split: prod.splits)

lemma monitored_same:
  "monitored d s L m \<Longrightarrow> snd (ses_pipe s') = snd (ses_pipe s) \<Longrightarrow> inbound s' = inbound s \<Longrightarrow>
     ses_lines s' = ses_lines s \<Longrightarrow> awaiting s' = awaiting s \<Longrightarrow> open_command s' = open_command s \<Longrightarrow>
     broken s = None \<Longrightarrow> \<exists>m. monitored d s' L m"
  by (rule exI [of _ m]) (simp add: monitored_def followed_def)

lemma step_monitored:
  assumes "session_step (logged E) s t s'" "queue_ok s" "monitored d s (line_codec E) m"
  shows "\<exists>m'. monitored (d @ t) s' (line_codec E) m'"
  using assms
proof (induction rule: session_step.induct)
  case (Take s s' x)
  then have "inbound s = (case x of None \<Rightarrow> [] | Some y \<Rightarrow> [y]) @ inbound s'" "broken s' = broken s"
    "ses_pipe s' = ses_pipe s" "ses_lines s' = ses_lines s" "awaiting s' = awaiting s" "open_command s' = open_command s"
    using dequeue_queue [OF Take.prems(1)] by (auto split: list.splits)
  with Take.prems(2) show ?case by (auto simp: monitored_def followed_def intro!: exI [of _ m])
next
  case (Read s p chunk s' u)
  have log: "snd (ses_pipe s') = snd (ses_pipe s) @ [In chunk]" "broken s' = None"
    using logged_read [OF Read.hyps(3)] process_frame [OF Read.hyps(4)] Read.hyps(1)
    by (simp_all add: same_frame_def)
  have fol: "followed d m (s\<lparr>ses_pipe := p\<rparr>)" "splitting m = ses_lines (s\<lparr>ses_pipe := p\<rparr>)"
    using Read.prems(2) Read.hyps(1) by (auto simp: monitored_def followed_def)
  have "stop_and_wait (line_codec E) (snd (ses_pipe s')) (hears (line_codec E) chunk m)"
    using Read.prems(2) log by (simp add: monitored_def stop_and_wait.Hear)
  with process_followed [OF Read.hyps(4) fol] show ?case by (auto simp: monitored_def)
next
  case (Reject s p chunk s' e r)
  have log: "snd (ses_pipe s') = snd (ses_pipe s) @ [In chunk]"
    using logged_read [OF Reject.hyps(3)] process_frame [OF Reject.hyps(4)] by (simp add: same_frame_def)
  have fol: "followed d m (s\<lparr>ses_pipe := p\<rparr>)" "splitting m = ses_lines (s\<lparr>ses_pipe := p\<rparr>)"
    using Reject.prems(2) Reject.hyps(1) by (auto simp: monitored_def followed_def)
  have "stop_and_wait (line_codec E) (snd (ses_pipe s')) (hears (line_codec E) chunk m)"
    using Reject.prems(2) log by (simp add: monitored_def stop_and_wait.Hear)
  with process_followed(1) [OF Reject.hyps(4) fol] show ?case by (auto simp: monitored_def)
next
  case (Write s p q u)
  from stop_and_wait.Ask [of "line_codec E" "snd (ses_pipe s)" m p] show ?case
    using Write logged_write [OF Write.hyps(5)] by (auto simp: monitored_def followed_def)
next
  case (Refused s p q e r)
  from stop_and_wait.Ask [of "line_codec E" "snd (ses_pipe s)" m p] show ?case
    using Refused logged_write [OF Refused.hyps(5)] by (auto simp: monitored_def followed_def)
next
  case (Abandoned s p q)
  from stop_and_wait.Ask [of "line_codec E" "snd (ses_pipe s)" m p] show ?case
    using Abandoned logged_write [OF Abandoned.hyps(5)] by (auto simp: monitored_def followed_def)
qed (auto intro: monitored_same dest!: logged_read)

interpretation monitoring: session_invariant "logged E" "\<lambda>d s. queue_ok s \<and> (\<exists>m. monitored d s (line_codec E) m)" for E
  by unfold_locales (blast intro: step_ok step_monitored)

lemma new_monitored: "monitored [] (session_new (p, [])) L monitor_new"
  using stop_and_wait.Begin [of L] by (simp add: monitored_def followed_def monitor_new_def session_new_def)

lemma session_monitored:
  "\<exists>m. monitored (snd (calls (logged E) cs (session_new (p, []))))
      (fst (calls (logged E) cs (session_new (p, [])))) (line_codec E) m"
proof -
  let ?s = "session_new (p, [] :: io list)"
  have "queue_ok ?s \<and> (\<exists>m. monitored [] ?s (line_codec E) m)"
    using new_queue_ok [of "(p, [] :: io list)"] new_monitored [of p "line_codec E"] by blast
  from monitoring.calls_kept [OF this, of cs] show ?thesis by blast
qed

text \<open>
  C24: after any operations over any pipe, what was written and read follows the protocol: a line is
  written only when the one before it has been answered, a \<open>Command\<close> only when no command is open,
  \<open>Data\<close> for a pipeline, \<open>Signal\<close> and \<open>Close\<close> only for the open one, the \<open>Close\<close> of the session
  only when none is, and \<open>Data\<close> carries 1 to 32 KiB.  Unless the session broke, what it takes for
  unanswered and for open is what the lines read say.
\<close>

theorem session_is_stop_and_wait:
  "case fst (calls (logged E) cs (session_new (p, []))) of s \<Rightarrow>
     \<exists>m. stop_and_wait (line_codec E) (snd (ses_pipe s)) m
       \<and> (if broken s = None then outstanding m = awaiting s \<and> opened m = open_command s else True)"
  using session_monitored [of E cs p] by (auto simp: monitored_def followed_def)

section \<open>What is received\<close>

text \<open>The payloads of the \<open>Data\<close> lines that a record shows as read.\<close>

definition payload_of :: "line_env \<Rightarrow> ustr \<Rightarrow> bytes list" where
  "payload_of L line = (case parse_line L line of Inr (Some (Data s g payload)) \<Rightarrow> [payload] | _ \<Rightarrow> [])"

fun arrived_in :: "line_env \<Rightarrow> line_splitter \<Rightarrow> io list \<Rightarrow> bytes list" where
  "arrived_in L sp [] = []"
| "arrived_in L sp (Out line # log) = arrived_in L sp log"
| "arrived_in L sp (In chunk # log) =
     (case push (hidden L) chunk sp of
        (sp, lines, e) \<Rightarrow> concat (map (payload_of L) lines) @ arrived_in L sp log)"

fun splitter_after :: "line_env \<Rightarrow> line_splitter \<Rightarrow> io list \<Rightarrow> line_splitter" where
  "splitter_after L sp [] = sp"
| "splitter_after L sp (Out line # log) = splitter_after L sp log"
| "splitter_after L sp (In chunk # log) = splitter_after L (fst (push (hidden L) chunk sp)) log"

lemma arrived_in_append:
  "arrived_in L sp (log @ log') = arrived_in L sp log @ arrived_in L (splitter_after L sp log) log'"
  "splitter_after L sp (log @ log') = splitter_after L (splitter_after L sp log) log'"
  by (induction L sp log rule: splitter_after.induct) (auto split: prod.split)

lemma fold_sees: "arrived (fold (sees L) lines m) = arrived m @ concat (map (payload_of L) lines)"
  "splitting (fold (sees L) lines m) = splitting m"
  by (induction lines arbitrary: m)
    (auto simp: sees_def payload_of_def split: sum.split option.split packet.split)

lemma monitor_arrived:
  "stop_and_wait L log m \<Longrightarrow>
     arrived m = arrived_in L splitter_new log \<and> splitting m = splitter_after L splitter_new log"
  by (induction rule: stop_and_wait.induct)
    (auto simp: monitor_new_def arrived_in_append hears_def fold_sees split: prod.split)

text \<open>
  C25: nothing is lost, made up, repeated or reordered: what \<open>recv\<close> returned, then what is queued, is
  what the \<open>Data\<close> lines read carried, in order, as long as the session has not broken; of a broken
  session it is the first of these payloads.
\<close>

theorem session_hands_over_what_arrived:
  "case calls (logged E) cs (session_new (p, [])) of (s, got) \<Rightarrow>
     (if broken s = None
      then got @ inbound s = arrived_in (line_codec E) splitter_new (snd (ses_pipe s))
      else prefix (got @ inbound s) (arrived_in (line_codec E) splitter_new (snd (ses_pipe s))))"
  using session_monitored [of E cs p]
  by (auto simp: monitored_def followed_def split_beta dest!: monitor_arrived)

section \<open>Receiving\<close>

text \<open>A pipe that delivers the given chunks and then nothing.\<close>

definition delivers :: "bytes list \<Rightarrow> bytes list \<times> bytes res option" where
  "delivers pipe = (case pipe of [] \<Rightarrow> ([], None) | c # cs \<Rightarrow> (cs, Some (Inr c)))"

text \<open>Lines that carry the payloads \<open>xs\<close>.\<close>

definition carry :: "line_env \<Rightarrow> ustr list \<Rightarrow> bytes list \<Rightarrow> bool" where
  "carry L = list_all2 (\<lambda>line x. \<exists>s g. parse_line L line = Inr (Some (Data s g x)))"

abbreviation cost :: "bytes list \<Rightarrow> nat" where "cost xs \<equiv> sum_list (map queue_cost xs)"

lemma on_lines_carry:
  assumes "carry L lines xs" "queue_ok s" "inbound_bytes s + cost xs \<le> MAX_QUEUED_BYTES"
  shows "on_lines L lines s = (s\<lparr>inbound := inbound s @ xs, inbound_bytes := inbound_bytes s + cost xs\<rparr>, Inr ())"
  using assms
proof (induction lines arbitrary: s xs)
  case Nil
  then show ?case by (cases s) (simp add: carry_def)
next
  case (Cons line lines)
  then obtain x ys st g where xs: "xs = x # ys" "carry L lines ys" "parse_line L line = Inr (Some (Data st g x))"
    by (auto simp: carry_def list_all2_Cons1)
  let ?s = "s\<lparr>inbound_bytes := inbound_bytes s + queue_cost x, inbound := inbound s @ [x]\<rparr>"
  have "usize_add (inbound_bytes s) (queue_cost x) = inbound_bytes s + queue_cost x"
    using Cons.prems(3) xs(1) by (simp add: usize_add_def MAX_QUEUED_BYTES_def)
  then have "on_line L line s = (?s, Inr ())"
    using Cons.prems(2,3) xs by (simp add: on_line_def enqueue_def Let_def queue_ok_def)
  moreover have "queue_ok ?s"
    using Cons.prems(2,3) parsed_payload [OF xs(3)] xs(1) by (simp add: queue_ok_def)
  ultimately show ?case using Cons.IH [OF xs(2), of ?s] Cons.prems(3) xs(1) by simp
qed

text \<open>A session whose pipe is going to deliver the payloads \<open>xs\<close>, queued ones first.\<close>

definition feeding :: "line_env \<Rightarrow> bytes list \<Rightarrow> bytes list session \<Rightarrow> bool" where
  "feeding L xs s \<longleftrightarrow> live s \<and> \<not> payload_in_progress s \<and> queue_ok s
     \<and> (\<exists>sp lines ys. pushes (hidden L) (ses_pipe s) (ses_lines s) = (sp, lines, None) \<and> carry L lines ys
          \<and> xs = inbound s @ ys \<and> inbound_bytes s + cost ys \<le> MAX_QUEUED_BYTES)"

lemma pump_feeding:
  assumes "feeding (line_codec E) xs s" "xs \<noteq> []" "inbound s = []" "pipe_read E = delivers"
  obtains s' where "pump E s = (s', Some (Inr ()))" "feeding (line_codec E) xs s'"
    "Suc (length (ses_pipe s')) = length (ses_pipe s)"
proof -
  let ?L = "line_codec E"
  obtain sp lines ys where f: "pushes (hidden ?L) (ses_pipe s) (ses_lines s) = (sp, lines, None)" "carry ?L lines ys"
    "xs = ys" "inbound_bytes s + cost ys \<le> MAX_QUEUED_BYTES"
    using assms(1,3) by (auto simp: feeding_def)
  obtain c cs where p: "ses_pipe s = c # cs"
    using f assms(2) by (cases "ses_pipe s") (auto simp: carry_def)
  then obtain sp1 l1 l2 where c: "push (hidden ?L) c (ses_lines s) = (sp1, l1, None)"
    "pushes (hidden ?L) cs sp1 = (sp, l2, None)" "lines = l1 @ l2"
    using f(1) by (auto split: prod.splits option.splits)
  obtain y1 y2 where y: "ys = y1 @ y2" "carry ?L l1 y1" "carry ?L l2 y2"
    using f(2) c(3) by (auto simp: carry_def list_all2_append1)
  have s: "live s" "queue_ok s" "\<not> payload_in_progress s" using assms(1) by (auto simp: feeding_def)
  let ?s = "s\<lparr>ses_pipe := cs, ses_lines := sp1\<rparr>"
  let ?s' = "?s\<lparr>inbound := y1, inbound_bytes := inbound_bytes s + cost y1\<rparr>"
  have "queue_ok ?s" using s(2) by (simp add: queue_ok_def)
  then have "on_lines ?L l1 ?s = (?s', Inr ())"
    using on_lines_carry [OF y(2), of ?s] f(4) y(1) assms(3) by simp
  then have proc: "process ?L c (s\<lparr>ses_pipe := cs\<rparr>) = (?s', Inr ())"
    using c(1) by (simp add: process_def)
  then have pump: "pump E s = (?s', Some (Inr ()))"
    using s(1) p by (simp add: pump_def usable_def live_def assms(4) delivers_def)
  have ok: "queue_ok ?s'" using process_ok [OF proc] s by (simp add: live_def)
  have "feeding ?L xs ?s'"
    using s ok c(2) y f(3,4) by (auto simp: feeding_def live_def)
  from that [OF pump this] p show ?thesis by simp
qed

lemma recv_feeding:
  assumes "feeding (line_codec E) (x # xs) s" "pipe_read E = delivers" "length (ses_pipe s) < f"
  shows "\<exists>s'. session_recv E f s = (s', Some (Inr x)) \<and> feeding (line_codec E) xs s'
    \<and> length (ses_pipe s') \<le> length (ses_pipe s)"
  using assms(1,3)
proof (induction f arbitrary: s)
  case (Suc f)
  have ok: "queue_ok s" "live s" "\<not> payload_in_progress s" using Suc.prems(1) by (auto simp: feeding_def)
  note deq = dequeue_queue [OF ok(1)]
  show ?case
  proof (cases "inbound s")
    case Nil
    obtain s1 where p: "pump E s = (s1, Some (Inr ()))" "feeding (line_codec E) (x # xs) s1"
      "Suc (length (ses_pipe s1)) = length (ses_pipe s)"
      using pump_feeding [OF Suc.prems(1) _ Nil assms(2)] by blast
    from Suc.IH [OF p(2)] p(3) Suc.prems(2) obtain s' where
      "session_recv E f s1 = (s', Some (Inr x))" "feeding (line_codec E) xs s'" "length (ses_pipe s') \<le> length (ses_pipe s1)"
      by auto
    with Nil deq p ok show ?thesis by (auto simp: ready_def usable_def live_def)
  next
    case (Cons y ys)
    let ?s' = "s\<lparr>inbound := ys, inbound_bytes := cost ys\<rparr>"
    have "queue_ok ?s'" using dequeue_ok [OF ok(1)] deq Cons by simp
    then have "feeding (line_codec E) xs ?s' \<and> y = x"
      using Suc.prems(1) Cons ok by (fastforce simp: feeding_def live_def queue_ok_def)
    with Cons deq show ?thesis by simp
  qed
qed simp

lemma recvs_feeding:
  assumes "feeding (line_codec E) xs s" "pipe_read E = delivers" "length (ses_pipe s) < f"
  shows "snd (calls E (replicate (length xs) (RecvCall f)) s) = xs"
  using assms(1,3)
proof (induction xs arbitrary: s)
  case (Cons x xs)
  from recv_feeding [OF Cons.prems(1) assms(2) Cons.prems(2)] obtain s' where
    r: "session_recv E f s = (s', Some (Inr x))" "feeding (line_codec E) xs s'" "length (ses_pipe s') \<le> length (ses_pipe s)"
    by blast
  from Cons.IH [OF r(2)] r(1,3) Cons.prems(2) show ?case by (simp add: handed_def split_beta)
qed simp

text \<open>What the server writes: \<open>Data\<close> lines, each for a stream and a pipeline.\<close>

type_synonym data = "stream \<times> uuid \<times> bytes"

abbreviation data_lines :: "uuid_api \<Rightarrow> data list \<Rightarrow> bytes" where
  "data_lines U ds \<equiv> as_bytes (concat (map (\<lambda>(st, g, x). to_line U (Data st g x)) ds))"

abbreviation payloads :: "data list \<Rightarrow> bytes list" where
  "payloads ds \<equiv> map (\<lambda>(st, g, x). x) ds"

lemma feeding_new:
  assumes "uuid_laws (line_uuids L)" "line_reader_laws (line_reader L)"
    and "\<forall>x\<in>set (payloads ds). x \<noteq> [] \<and> length x \<le> MAX_DATA_PAYLOAD" "cost (payloads ds) \<le> MAX_QUEUED_BYTES"
    and "concat cs = data_lines (line_uuids L) ds"
  shows "feeding L (payloads ds) (session_new cs)"
proof -
  let ?ps = "map (\<lambda>(st, g, x). Data st g x) ds"
  have "\<forall>p\<in>set ?ps. sendable p" using assms(3) by (auto simp: sendable_def)
  moreover have "concat cs = as_bytes (concat (map (to_line (line_uuids L)) ?ps))"
    using assms(5) by (simp add: comp_def case_prod_beta' del: to_line.simps)
  ultimately obtain lines where lines: "snd (pushes (hidden L) cs splitter_new) = (lines, None)"
    "map (parse_line L) lines = map (\<lambda>p. Inr (Some p)) ?ps"
    using packets_pushed [OF assms(1,2), of ?ps cs] by blast
  obtain sp where p: "pushes (hidden L) cs splitter_new = (sp, lines, None)"
    using lines(1) by (metis prod.collapse)
  have "length lines = length ds" using arg_cong [OF lines(2), of length] by simp
  moreover have "\<exists>s g. parse_line L (lines ! i) = Inr (Some (Data s g (payloads ds ! i)))" if "i < length ds" for i
    using arg_cong [OF lines(2), of "\<lambda>xs. xs ! i"] that calculation by (simp add: case_prod_beta)
  ultimately have "carry L lines (payloads ds)" by (simp add: carry_def list_all2_conv_all_nth)
  then show ?thesis using p assms(4) by (simp add: feeding_def live_def queue_ok_def session_new_def)
qed

text \<open>
  When the server writes payloads of 1 to 32 KiB in \<open>Data\<close> lines, whatever streams and pipelines
  they name, and the bytes arrive in chunks of any kind, as many calls of \<open>recv\<close> return these
  payloads, in order, as long as they fit the queue; a call needs at most one read more than there
  are chunks.
\<close>

lemma session_receives_what_the_server_sends:
  assumes "uuid_laws (line_uuids (line_codec E))" "line_reader_laws (line_reader (line_codec E))"
    and "\<forall>x\<in>set (payloads ds). x \<noteq> [] \<and> length x \<le> MAX_DATA_PAYLOAD" "cost (payloads ds) \<le> MAX_QUEUED_BYTES"
    and "pipe_read E = delivers" "concat cs = data_lines (line_uuids (line_codec E)) ds"
  shows "snd (calls E (replicate (length ds) (RecvCall (Suc (length cs)))) (session_new cs)) = payloads ds"
proof -
  have "length (ses_pipe (session_new cs)) < Suc (length cs)" by (simp add: session_new_def)
  from recvs_feeding [OF feeding_new [OF assms(1-4,6)] assms(5) this] show ?thesis by simp
qed

lemma session_receives_what_the_server_sends_witness:
  "let line = as_bytes (to_line rfc_uuid (Data Default 5 [1, 2])) @ as_bytes (to_line rfc_uuid (Data Default 5 [3])) in
   snd (calls (sample_pipe delivers) [RecvCall 4, RecvCall 4]
     (session_new [take 9 line, [], drop 9 line])) = [[1, 2], [3]]"
proof -
  have four: "(4 :: nat) = Suc (Suc (Suc (Suc 0)))" by simp
  let ?line = "as_bytes (to_line rfc_uuid (Data Default 5 [1, 2])) @ as_bytes (to_line rfc_uuid (Data Default 5 [3]))"
  have "concat [take 9 ?line, [], drop 9 ?line] = ?line"
    by (simp del: to_line.simps take_append drop_append)
  with session_receives_what_the_server_sends [of "sample_pipe delivers" "[(Default, 5, [1, 2]), (Default, 5, [3])]"
      "[take 9 ?line, [], drop 9 ?line]"]
  show ?thesis
    by (simp add: sample_pipe_def sample_line_env_def rfc.uuid_laws_axioms element_reader.line_reader_laws_axioms
        MAX_DATA_PAYLOAD_def MAX_QUEUED_BYTES_def queue_cost_def usize_add_def QUEUE_ENTRY_OVERHEAD_def Let_def four
        del: to_line.simps calls.simps take_append drop_append)
qed

end
