(* ===== verification/Remote_Pools.thy ===== *)
theory Remote_Pools
  imports Session_Properties Message_Order
begin

text \<open>
  A runspace pool over the OutOfProc session: the adapter of \<open>src/src/out_of_proc/transport.rs\<close> as
  the transport of the pool, that every request of the session ends once its timeout can elapse, and
  the path of the server's messages through both: lines, queue, fragments, messages.
\<close>

section \<open>Every request ends\<close>

text \<open>The operation has returned.\<close>

definition ended :: "'s \<times> 'a res option \<Rightarrow> bool" where
  "ended r \<longleftrightarrow> snd r \<noteq> None"

named_theorems ending

lemma ended_now [ending]: "ended (s, Some x)"
  by (simp add: ended_def)

lemma ended_failing [ending]: "ended (failing e s)"
  by (simp add: ended_def failing_def split_beta)

lemma ended_bind [ending]: "ended r \<Longrightarrow> (\<And>x s. ended (f x s)) \<Longrightarrow> ended (obind r f)"
  by (auto simp: ended_def obind_def split: prod.split option.split sum.split)

lemma ended_usable [ending]: "ended (usable s)"
  by (auto simp: usable_def ending split: option.split)

lemma ended_ready [ending]: "ended (ready s)"
  by (auto simp: ready_def intro!: ending)

text \<open>Wherever the pipe is pending, the timeout elapses.\<close>

definition timed :: "'p pipe_env \<Rightarrow> bool" where
  "timed E \<longleftrightarrow> (\<forall>p. elapses E p)"

lemma ended_bounded [ending]: "timed E \<Longrightarrow> ended (bounded E p r)"
  by (auto simp: bounded_def timed_def timed_out_def Let_def split_beta ending split: prod.split option.split)

lemma ended_request [ending]: "timed E \<Longrightarrow> ended (request E f p ack s)"
  by (auto simp: request_def intro!: ending)

lemma ended_settle_bounded [ending]: "timed E \<Longrightarrow> ended (settle_bounded E f s)"
  by (auto simp: settle_bounded_def ending split: option.split)

lemma ended_close_open [ending]: "timed E \<Longrightarrow> ended (close_open E f s)"
  by (auto simp: close_open_def ending split: option.split)

lemma ended_open_for [ending]: "timed E \<Longrightarrow> ended (open_for E f g s)"
  by (auto simp: open_for_def intro!: ending)

lemma ended_send_chunks [ending]: "timed E \<Longrightarrow> ended (send_chunks E f g cs s)"
  by (induction cs arbitrary: s) (auto intro!: ending)

lemma ended_send: "timed E \<Longrightarrow> ended (session_send E f g payload s)"
  by (auto simp: session_send_def Let_def intro!: ending)

lemma ended_signal: "timed E \<Longrightarrow> ended (session_signal E f s)"
  by (auto simp: session_signal_def intro!: ending split: option.split)

lemma ended_close: "timed E \<Longrightarrow> ended (session_close E f s)"
  by (auto simp: session_close_def intro!: ending)

text \<open>
  C26: no request waits forever: when the acknowledgement timeout elapses wherever the pipe is
  pending, \<open>send\<close>, \<open>signal\<close> and \<open>close\<close> return, with a result or with an error that leaves the
  session broken for good, whatever the pipe does and however few reads are allowed.
\<close>

theorem session_requests_end:
  assumes "\<forall>p. elapses E p"
    and "r = session_send E f g payload s \<or> r = session_signal E f s \<or> r = session_close E f s"
    and "s = fst (calls E cs (session_new p))"
  shows "case r of
      (s', None) \<Rightarrow> False
    | (s', Some (Inr u)) \<Rightarrow> True
    | (s', Some (Inl e)) \<Rightarrow> \<exists>reason. e = Protocol reason \<and> broken s' = Some reason"
proof -
  have named: "command_named s" using naming.calls_kept [OF new_named, of E cs p] assms(3) by simp
  have "timed E" using assms(1) by (simp add: timed_def)
  then have "ended r" using assms(2) ended_send ended_signal ended_close by blast
  moreover have "ends E s (\<lambda>_ _. True) r"
    using assms(2) ends_send [OF named] ends_signal ends_close [OF named] by blast
  ultimately show ?thesis
    by (auto simp: ended_def ends_def split: prod.splits option.splits sum.splits)
qed

theorem session_requests_end_witness:
  "case session_send ((sample_pipe (\<lambda>p. (p, None)))\<lparr>elapses := \<lambda>p. True\<rparr>) 3 5 [1] (session_new ()) of
      (s', None) \<Rightarrow> False
    | (s', Some (Inr u)) \<Rightarrow> True
    | (s', Some (Inl e)) \<Rightarrow> \<exists>reason. e = Protocol reason \<and> broken s' = Some reason"
  by (rule session_requests_end [where E = "(sample_pipe (\<lambda>p. (p, None)))\<lparr>elapses := \<lambda>p. True\<rparr>"
        and cs = "[]" and p = "()" and g = 5 and payload = "[1]" and f = 3]) simp_all

section \<open>The pool's transport\<close>

text \<open>
  The result of a request.  The last equation is for a request that has not returned; there is none
  when the timeout can elapse.
\<close>

fun returned :: "'s \<times> 'a res option \<Rightarrow> 's \<times> 'a res" where
  "returned (s, Some x) = (s, x)"
| "returned (s, None) = (s, Inl (protocol (lit ''pending'')))"

definition oop_transport :: "'p pipe_env \<Rightarrow> nat \<Rightarrow> 'p session transport" where
  "oop_transport E f =
     (with_defaults (\<lambda>bs s. returned (oop_send_fragment E f bs s)) (oop_recv_chunk E f)
        (\<lambda>s. returned (oop_signal_stop E f s)) (\<lambda>s. returned (oop_close_shell E f s)))
     \<lparr>send_pipeline_fragment := (\<lambda>bs g s. returned (oop_send_pipeline_fragment E f bs g s)),
      execute_pipeline := (\<lambda>bs g s. returned (oop_execute_pipeline E f bs g s))\<rparr>"

lemma returned_ended: "ended r \<Longrightarrow> snd r = Some (snd (returned r)) \<and> fst (returned r) = fst r"
  by (cases r rule: returned.cases) (auto simp: ended_def)

definition oop_pool_env ::
    "'p pipe_env \<Rightarrow> nat \<Rightarrow> codec_env \<Rightarrow> 'h ps_host \<Rightarrow> cipher \<Rightarrow> (nat \<Rightarrow> client_key res) \<Rightarrow> ('p session, 'h) pool_env" where
  "oop_pool_env E f K H C gen =
     \<lparr>codec = K, wire = oop_transport E f, host = H, aes = C, generate_key = gen\<rparr>"

text \<open>A session that is going to receive payloads holds them for the pool.\<close>

interpretation oop_source:
  chunk_source "oop_pool_env (E\<lparr>pipe_read := delivers\<rparr>) f K H C gen"
    "\<lambda>s xs. feeding (line_codec E) xs s \<and> length (ses_pipe s) < f" for E f K H C gen
proof (unfold_locales, elim conjE)
  fix s c cs assume "feeding (line_codec E) (c # cs) s" "length (ses_pipe s) < f"
  from recv_feeding [of "E\<lparr>pipe_read := delivers\<rparr>" c cs s f] this
  show "\<exists>s'. recv_chunk (wire (oop_pool_env (E\<lparr>pipe_read := delivers\<rparr>) f K H C gen)) s = (s', Some (Inr c))
      \<and> feeding (line_codec E) cs s' \<and> length (ses_pipe s') < f"
    by (auto simp: oop_pool_env_def oop_transport_def with_defaults_def oop_recv_chunk_def)
qed

text \<open>
  End to end: when \<open>pwsh\<close> sends messages that are for the caller, fragmented under distinct
  object ids and interleaved in any way, the bytes of the fragments cut anywhere into the payloads of
  \<open>Data\<close> lines, and the bytes of the lines cut anywhere into chunks, then repeated calls of
  \<open>next_message\<close> on the pool return exactly these messages, in the order in which they were completed.
\<close>

lemma remote_messages_delivered_in_order:
  assumes "uuid_laws (uuids K)" "uuid_laws (line_uuids (line_codec E))" "line_reader_laws (line_reader (line_codec E))"
    and "\<forall>oid. filter (\<lambda>f. object_id f = oid) fs = (case M oid of
           None \<Rightarrow> [] | Some m \<Rightarrow> split_message oid (msg_encode (uuids K) m))"
    and "\<forall>oid m. M oid = Some m \<longrightarrow> valid_str (msg_data m) \<and> canonical m = m \<and> quiet m
           \<and> length (msg_encode (uuids K) m) < 2 ^ 64"
    and "concat (payloads ds) = concat (map encode_fragment fs)"
    and "\<forall>x\<in>set (payloads ds). x \<noteq> [] \<and> length x \<le> MAX_DATA_PAYLOAD" "cost (payloads ds) \<le> MAX_QUEUED_BYTES"
    and "concat cs = data_lines (line_uuids (line_codec E)) ds"
  shows "ask (oop_pool_env (E\<lparr>pipe_read := delivers\<rparr>) (Suc (length cs)) K H C gen) (Suc (length ds))
      (length (filter frag_end fs)) (fresh_pool (session_new cs) h mach n key)
    = map (\<lambda>f. the (M (object_id f))) (filter frag_end fs)"
proof -
  let ?ms = "map (\<lambda>f. the (M (object_id f))) (filter frag_end fs)"
  have quiet: "\<forall>m\<in>set ?ms. quiet m"
    using assms(5) by (intro fragments_for_caller [OF assms(4)]) blast
  have "[] \<notin> set (payloads ds)" using assms(7) by auto
  then have "coming K (fresh_pool (session_new cs) h mach n key) (payloads ds) ?ms"
    using assms(5,6) by (intro delivered [OF assms(1,4)]) auto
  moreover have "feeding (line_codec E) (payloads ds) (session_new cs)"
    by (rule feeding_new [OF assms(2,3,7,8,9)])
  ultimately have "ask (oop_pool_env (E\<lparr>pipe_read := delivers\<rparr>) (Suc (length cs)) K H C gen) (Suc (length ds))
      (length ?ms) (fresh_pool (session_new cs) h mach n key) = ?ms"
    using quiet
    by (intro oop_source.coming_asked [where cs = "payloads ds" and rest = "[]"])
      (simp_all add: oop_pool_env_def fresh_pool_def session_new_def)
  then show ?thesis by simp
qed

lemma remote_messages_delivered_in_order_witness:
  "let bs = encode_message 4 (msg_encode rfc_uuid (state_msg 1)) @ encode_message 9 (msg_encode rfc_uuid (state_msg 2));
       line = data_lines rfc_uuid [(Default, 0, take 20 bs), (Default, 1, drop 20 bs)]
   in ask (oop_pool_env (sample_pipe delivers) 3 (scripted_codec []) no_interaction_host shift_cipher
          (\<lambda>_. Inr broken_key)) 3 2
        (fresh_pool (session_new [take 7 line, drop 7 line]) ()
          \<lparr>mach_state = Opened, mach_rpid = 7, min_runspaces = 1, max_runspaces = 1\<rparr> 1 None)
      = [state_msg 1, state_msg 2]"
proof -
  let ?fs = "split_message 4 (msg_encode rfc_uuid (state_msg 1)) @ split_message 9 (msg_encode rfc_uuid (state_msg 2))"
  let ?M = "[4 \<mapsto> state_msg 1, 9 \<mapsto> state_msg 2] :: u64 \<rightharpoonup> psrp_message"
  let ?bs = "encode_message 4 (msg_encode rfc_uuid (state_msg 1)) @ encode_message 9 (msg_encode rfc_uuid (state_msg 2))"
  let ?ds = "[(Default, 0, take 20 ?bs), (Default, 1, drop 20 ?bs)] :: data list"
  let ?line = "data_lines rfc_uuid ?ds"
  let ?E = "sample_pipe delivers"
  have E: "?E\<lparr>pipe_read := delivers\<rparr> = ?E" by (simp add: sample_pipe_def)
  have len: "length ?bs = 124"
    using state_msg_facts(4) by (simp add: encode_message_def split_state_msg encode_fragment_def u64_to_be_def)
  have "ask (oop_pool_env (?E\<lparr>pipe_read := delivers\<rparr>) (Suc (length [take 7 ?line, drop 7 ?line]))
      (scripted_codec []) no_interaction_host shift_cipher (\<lambda>_. Inr broken_key)) (Suc (length ?ds))
      (length (filter frag_end ?fs)) (fresh_pool (session_new [take 7 ?line, drop 7 ?line]) ()
        \<lparr>mach_state = Opened, mach_rpid = 7, min_runspaces = 1, max_runspaces = 1\<rparr> 1 None)
    = map (\<lambda>f. the (?M (object_id f))) (filter frag_end ?fs)"
  proof (rule remote_messages_delivered_in_order)
    show "\<forall>oid. filter (\<lambda>f. object_id f = oid) ?fs = (case ?M oid of
        None \<Rightarrow> [] | Some m \<Rightarrow> split_message oid (msg_encode (uuids (scripted_codec [])) m))"
      by (auto simp: split_state_msg)
    show "\<forall>oid m. ?M oid = Some m \<longrightarrow> valid_str (msg_data m) \<and> canonical m = m \<and> quiet m
        \<and> length (msg_encode (uuids (scripted_codec [])) m) < 2 ^ 64"
      using state_msg_facts by (auto split: if_splits)
    show "concat (payloads ?ds) = concat (map encode_fragment ?fs)"
      by (simp add: encode_message_def del: take_append drop_append)
    show "\<forall>x\<in>set (payloads ?ds). x \<noteq> [] \<and> length x \<le> MAX_DATA_PAYLOAD" "cost (payloads ?ds) \<le> MAX_QUEUED_BYTES"
      using len by (auto simp: MAX_DATA_PAYLOAD_def MAX_QUEUED_BYTES_def queue_cost_def usize_add_def
          QUEUE_ENTRY_OVERHEAD_def simp del: take_append drop_append)
  qed (simp_all add: rfc.uuid_laws_axioms element_reader.line_reader_laws_axioms sample_pipe_def sample_line_env_def
      del: to_line.simps take_append drop_append)
  then show ?thesis
    by (simp add: split_state_msg E Let_def flip: numeral_2_eq_2 numeral_3_eq_3
        del: ask.simps to_line.simps take_append drop_append)
qed

end
