(* ===== verification/Metadata.thy ===== *)
theory Metadata
  imports Pipelines
begin

text \<open>
  The \<open>Get-Command\<close> metadata pipeline of \<open>src/src/metadata.rs\<close> and the handle for sharing a pool of
  \<open>src/src/shared.rs\<close>.
\<close>

section \<open>Command types\<close>

type_synonym command_type = u32

definition CT_ALIAS :: command_type where "CT_ALIAS = 0x0001"
definition CT_FUNCTION :: command_type where "CT_FUNCTION = 0x0002"
definition CT_FILTER :: command_type where "CT_FILTER = 0x0004"
definition CT_CMDLET :: command_type where "CT_CMDLET = 0x0008"
definition CT_EXTERNAL_SCRIPT :: command_type where "CT_EXTERNAL_SCRIPT = 0x0010"
definition CT_APPLICATION :: command_type where "CT_APPLICATION = 0x0020"
definition CT_SCRIPT :: command_type where "CT_SCRIPT = 0x0040"
definition CT_WORKFLOW :: command_type where "CT_WORKFLOW = 0x0080"
definition CT_CONFIGURATION :: command_type where "CT_CONFIGURATION = 0x0100"
definition CT_ALL :: command_type where "CT_ALL = 0x01FF"

definition ct_empty :: command_type where "ct_empty = 0"

definition ct_contains :: "command_type \<Rightarrow> command_type \<Rightarrow> bool" where
  "ct_contains s other \<longleftrightarrow> and s other = other"

definition ct_bitor :: "command_type \<Rightarrow> command_type \<Rightarrow> command_type" where "ct_bitor a b = or a b"
definition ct_bitand :: "command_type \<Rightarrow> command_type \<Rightarrow> command_type" where "ct_bitand a b = and a b"

section \<open>What the server describes\<close>

record parameter_metadata =
  pm_name :: ustr
  pm_parameter_type :: "ustr option"
  pm_is_mandatory :: "bool option"
  pm_position :: "u32 option"

record command_metadata =
  cm_name :: ustr
  cm_namespace :: "ustr option"
  cm_has_common_parameters :: "bool option"
  cm_command_type :: "u32 option"
  cm_parameters :: "parameter_metadata list"

abbreviation member :: "(ustr \<times> ps_value) list \<Rightarrow> string \<Rightarrow> (ps_value \<Rightarrow> 'a option) \<Rightarrow> 'a option" where
  "member obj name f \<equiv> Option.bind (map_of obj (lit name)) f"

definition unwrap_or_default :: "ustr option \<Rightarrow> ustr" where
  "unwrap_or_default t = (case t of Some s \<Rightarrow> s | None \<Rightarrow> [])"

definition parameter_from_ps_value :: "ps_value \<Rightarrow> parameter_metadata option" where
  "parameter_from_ps_value v = map_option (\<lambda>obj.
     \<lparr>pm_name = unwrap_or_default (member obj ''Name'' as_str),
      pm_parameter_type = member obj ''ParameterType'' as_str,
      pm_is_mandatory = member obj ''IsMandatory'' as_bool,
      pm_position = member obj ''Position'' as_i32\<rparr>) (value_properties v)"

definition command_from_ps_object :: "ps_value \<Rightarrow> command_metadata option" where
  "command_from_ps_object v = map_option (\<lambda>obj.
     \<lparr>cm_name = unwrap_or_default (member obj ''Name'' as_str),
      cm_namespace = member obj ''Namespace'' as_str,
      cm_has_common_parameters = member obj ''HasCommonParameters'' as_bool,
      cm_command_type = member obj ''CommandType'' as_i32,
      cm_parameters =
        (case map_of obj (lit ''Parameters'') of
           Some (PsList vs) \<Rightarrow> filter_map parameter_from_ps_value vs
         | _ \<Rightarrow> [])\<rparr>) (value_properties v)"

section \<open>The query\<close>

fun metadata_state_of :: "ps_value \<Rightarrow> pipeline_state option" where
  "metadata_state_of (PsObject obj) =
     map_option pipeline_state_from_i32 (Option.bind (object_get obj (lit ''PipelineState'')) as_i32)"
| "metadata_state_of _ = None"

definition state_from_xml :: "codec_env \<Rightarrow> ustr \<Rightarrow> pipeline_state option" where
  "state_from_xml K t =
     (case values_of K t of Inl e \<Rightarrow> None | Inr vs \<Rightarrow> find_map metadata_state_of vs)"

definition build_get_command_metadata_body :: "codec_env \<Rightarrow> ustr list \<Rightarrow> command_type \<Rightarrow> ustr" where
  "build_get_command_metadata_body K patterns ct =
     clixml_of K (PsObject
       (object_with (object_with (object_with (object_with object_new
          (lit ''Name'') (PsList (map PsString patterns)))
          (lit ''CommandType'') (PsI32 ct))
          (lit ''Namespace'') (PsList []))
          (lit ''ArgumentList'') (PsList [])))"

definition metadata_failure :: "codec_env \<Rightarrow> ustr \<Rightarrow> psrp_error" where
  "metadata_failure K t = PipelineFailed
     (case terminal_state_reason K t of
        Some reason \<Rightarrow> lit ''GetCommandMetadata pipeline failed: '' @ reason
      | None \<Rightarrow> lit ''GetCommandMetadata pipeline failed'')"

text \<open>The body of the loop: go on with what has been collected, or return.\<close>

definition metadata_message ::
    "codec_env \<Rightarrow> psrp_message \<Rightarrow> command_metadata list \<Rightarrow> command_metadata list res + command_metadata list" where
  "metadata_message K msg out =
     (case msg_type msg of
        PipelineOutput \<Rightarrow>
          (case values_of K (msg_data msg) of
             Inl e \<Rightarrow> Inl (Inl e)
           | Inr vs \<Rightarrow> Inr (out @ filter_map command_from_ps_object vs))
      | PipelineState \<Rightarrow>
          (case state_from_xml K (msg_data msg) of
             Some st \<Rightarrow>
               if pipeline_terminal st then
                 if st = PFailed then Inl (Inl (metadata_failure K (msg_data msg))) else Inl (Inr out)
               else Inr out
           | None \<Rightarrow> Inr out)
      | _ \<Rightarrow> Inr out)"

text \<open>One entry of the list for each turn: how far \<open>next_message\<close> gets.\<close>

fun metadata_loop ::
    "('t, 'h) pool_env \<Rightarrow> nat list \<Rightarrow> command_metadata list \<Rightarrow> ('t, 'h) pool
     \<Rightarrow> ('t, 'h) pool \<times> command_metadata list res option" where
  "metadata_loop E [] out p = (p, None)"
| "metadata_loop E (f # fs) out p =
     (case next_message E f p of
        (p, None) \<Rightarrow> (p, None)
      | (p, Some (Inl e)) \<Rightarrow> (p, Some (Inl e))
      | (p, Some (Inr msg)) \<Rightarrow>
          (case metadata_message (codec E) msg out of
             Inl result \<Rightarrow> (p, Some result)
           | Inr out \<Rightarrow> metadata_loop E fs out p))"

definition get_command_metadata ::
    "('t, 'h) pool_env \<Rightarrow> uuid \<Rightarrow> nat list \<Rightarrow> ustr list \<Rightarrow> command_type \<Rightarrow> ('t, 'h) pool
     \<Rightarrow> ('t, 'h) pool \<times> command_metadata list res option" where
  "get_command_metadata E fresh fs patterns ct p =
     (case send_pipeline_message E GetCommandMetadata fresh
             (build_get_command_metadata_body (codec E) patterns ct) p of
        (p, Inl e) \<Rightarrow> (p, Some (Inl e))
      | (p, Inr u) \<Rightarrow> metadata_loop E fs [] p)"

section \<open>Sharing a pool\<close>

text \<open>
  The pool behind the handles and how many there are; a handle is dropped when it is closed or when
  its owner lets it go.  The mutex lets one call use the pool at a time, so a call is a function of
  the pool.
\<close>

record ('t, 'h) shared_pool =
  shared_inner :: "('t, 'h) pool"
  handle_count :: nat

definition shared_new :: "('t, 'h) pool \<Rightarrow> ('t, 'h) shared_pool" where
  "shared_new p = \<lparr>shared_inner = p, handle_count = 1\<rparr>"

definition shared_clone :: "('t, 'h) shared_pool \<Rightarrow> ('t, 'h) shared_pool" where
  "shared_clone s = s\<lparr>handle_count := handle_count s + 1\<rparr>"

definition shared_drop :: "('t, 'h) shared_pool \<Rightarrow> ('t, 'h) shared_pool" where
  "shared_drop s = s\<lparr>handle_count := handle_count s - 1\<rparr>"

definition with_pool ::
    "(('t, 'h) pool \<Rightarrow> ('t, 'h) pool \<times> 'r) \<Rightarrow> ('t, 'h) shared_pool \<Rightarrow> ('t, 'h) shared_pool \<times> 'r" where
  "with_pool f s = (case f (shared_inner s) of (p, r) \<Rightarrow> (s\<lparr>shared_inner := p\<rparr>, r))"

definition shared_run_pipeline ::
    "('t, 'h) pool_env \<Rightarrow> (ps_value \<Rightarrow> ustr) \<Rightarrow> uuid \<Rightarrow> nat list \<Rightarrow> pipeline \<Rightarrow> ('t, 'h) shared_pool
     \<Rightarrow> ('t, 'h) shared_pool \<times> pipeline_result res option" where
  "shared_run_pipeline E dbg fresh fs pl = with_pool (run_all_streams E dbg fresh fs pl)"

definition shared_run_script ::
    "('t, 'h) pool_env \<Rightarrow> (ps_value \<Rightarrow> ustr) \<Rightarrow> uuid \<Rightarrow> nat list \<Rightarrow> ustr \<Rightarrow> ('t, 'h) shared_pool
     \<Rightarrow> ('t, 'h) shared_pool \<times> ps_value list res option" where
  "shared_run_script E dbg fresh fs script = with_pool (pool_run_script E dbg fresh fs script)"

definition shared_run_script_with_cancel ::
    "('t, 'h) pool_env \<Rightarrow> (ps_value \<Rightarrow> ustr) \<Rightarrow> uuid \<Rightarrow> turn list \<Rightarrow> ustr \<Rightarrow> ('t, 'h) shared_pool
     \<Rightarrow> ('t, 'h) shared_pool \<times> ps_value list res option" where
  "shared_run_script_with_cancel E dbg fresh ts script = with_pool (pool_run_script_with_cancel E dbg fresh ts script)"

definition shared_request_session_key ::
    "('t, 'h) pool_env \<Rightarrow> nat \<Rightarrow> ('t, 'h) shared_pool \<Rightarrow> ('t, 'h) shared_pool \<times> unit res option" where
  "shared_request_session_key E f = with_pool (request_session_key E f)"

text \<open>Closing takes the handle; the pool goes with the last one.\<close>

definition shared_close ::
    "('t, 'h) pool_env \<Rightarrow> ('t, 'h) shared_pool \<Rightarrow> ('t, 'h) shared_pool \<times> unit res" where
  "shared_close E s =
     (if handle_count s = 1 then with_pool (pool_close E) (shared_drop s)
      else (shared_drop s, Inl (protocol (lit ''cannot close SharedRunspacePool: ''
              @ show_nat (handle_count s) @ lit '' handles still outstanding''))))"

end
