(* ===== verification/Metadata_Properties.thy ===== *)
theory Metadata_Properties
  imports Metadata Pipeline_Properties
begin

text \<open>What a metadata query makes of the server's messages, and when a shared pool is closed.\<close>

section \<open>The query\<close>

text \<open>The reference: take the messages one by one until one of them ends the query.\<close>

fun metadata_of ::
    "codec_env \<Rightarrow> psrp_message list \<Rightarrow> command_metadata list \<Rightarrow> command_metadata list res option" where
  "metadata_of K [] out = None"
| "metadata_of K (m # ms) out =
     (case metadata_message K m out of Inl result \<Rightarrow> Some result | Inr out \<Rightarrow> metadata_of K ms out)"

context chunk_source
begin

lemma metadata_loop_takes:
  assumes "coming (codec E) p cs ms" "holds (link p) cs" "\<forall>m\<in>set ms. quiet m"
    and "length fs = length ms" "\<forall>f\<in>set fs. length cs < f"
  shows "snd (metadata_loop E fs out p) = metadata_of (codec E) ms out"
  using assms
proof (induction ms arbitrary: fs p cs out)
  case (Cons m ms)
  obtain f fs' where fs: "fs = f # fs'" "length fs' = length ms" using Cons.prems(4) by (cases fs) auto
  obtain p' cs' where p': "next_message E f p = (p', Some (Inr m))" "coming (codec E) p' cs' ms"
    "holds (link p') cs'" "length cs' \<le> length cs"
    using coming_next [OF Cons.prems(1,2), of f] Cons.prems(3,5) fs by auto
  have "\<forall>f\<in>set fs'. length cs' < f" using Cons.prems(5) fs p'(4) by fastforce
  from Cons.IH [OF p'(2,3) _ fs(2) this] Cons.prems(3) p'(1) fs(1) show ?case
    by (auto split: sum.split)
qed simp

end

text \<open>A message that does not end the query, and one that does.\<close>

definition says_over :: "codec_env \<Rightarrow> psrp_message \<Rightarrow> pipeline_state option" where
  "says_over K m =
     (if msg_type m = PipelineState then
        case state_from_xml K (msg_data m) of Some st \<Rightarrow> if pipeline_terminal st then Some st else None | None \<Rightarrow> None
      else None)"

lemma metadata_message_goes_on:
  assumes "says_over K m = None" "msg_type m = PipelineOutput \<longrightarrow> values_of K (msg_data m) = Inr vs"
  shows "metadata_message K m out = Inr (out @ filter_map command_from_ps_object (said K PipelineOutput [m]))"
  using assms
  by (auto simp: metadata_message_def says_over_def said_def split: message_type.split option.splits if_splits)

lemma metadata_message_ends:
  assumes "says_over K m = Some st"
  shows "metadata_message K m out =
    Inl (if st = PFailed then Inl (metadata_failure K (msg_data m)) else Inr out)"
  using assms by (auto simp: metadata_message_def says_over_def split: option.splits if_splits)

lemma filter_map_append [simp]: "filter_map f (xs @ ys) = filter_map f xs @ filter_map f ys"
  by (induction xs) (auto split: option.split)

lemma metadata_of_said:
  assumes "\<forall>x\<in>set pre. says_over K x = None
      \<and> (msg_type x = PipelineOutput \<longrightarrow> (\<exists>vs. values_of K (msg_data x) = Inr vs))"
    and "says_over K m = Some st"
  shows "metadata_of K (pre @ m # rest) out = Some (if st = PFailed
    then Inl (metadata_failure K (msg_data m))
    else Inr (out @ filter_map command_from_ps_object (said K PipelineOutput pre)))"
  using assms(1)
proof (induction pre arbitrary: out)
  case Nil
  then show ?case using metadata_message_ends [OF assms(2)] by simp
next
  case (Cons x pre)
  then obtain vs where "msg_type x = PipelineOutput \<longrightarrow> values_of K (msg_data x) = Inr vs" by auto
  from metadata_message_goes_on [OF _ this, of out] Cons show ?case
    by (simp add: said_Cons [of K PipelineOutput x pre])
qed

text \<open>
  C28: a metadata query returns what the server described: once the first terminal state arrives the
  result is, unless it is \<open>Failed\<close>, the commands described by the values of the \<open>PipelineOutput\<close>
  messages before it, in order, and after \<open>Failed\<close> an error with the server's reason.  Whose messages
  these are does not matter: the query looks at no pipeline id.
\<close>

theorem metadata_is_what_the_server_described:
  assumes "queued K p (pre @ m # rest)" "\<forall>x\<in>set (pre @ m # rest). quiet x"
    and "\<forall>x\<in>set pre. says_over K x = None
      \<and> (msg_type x = PipelineOutput \<longrightarrow> (\<exists>vs. values_of K (msg_data x) = Inr vs))"
    and "says_over K m = Some st"
    and "length fs = length (pre @ m # rest)" "\<forall>f\<in>set fs. length (inbox (link p)) < f"
    and "\<not> fail_send (link p)" "unat (next_object_id p) < 2 ^ 64 - 1"
  shows "snd (get_command_metadata (mock_env K H C gen) fresh fs patterns ct p) =
    Some (if st = PFailed then Inl (metadata_failure K (msg_data m))
      else Inr (filter_map command_from_ps_object (said K PipelineOutput pre)))"
proof -
  let ?E = "mock_env K H C gen"
  obtain p1 r where s: "send_pipeline_message ?E GetCommandMetadata fresh
      (build_get_command_metadata_body K patterns ct) p = (p1, r)"
    by fastforce
  have r: "r = Inr ()" using send_pipeline_outbox [OF s assms(8,7)] by simp
  have q: "queued K p1 (pre @ m # rest)" "inbox (link p1) = inbox (link p)"
    using send_pipeline_queued [OF s assms(1)] by auto
  have "snd (metadata_loop ?E fs [] p1) = metadata_of (codec ?E) (pre @ m # rest) []"
    by (rule mock_source.metadata_loop_takes [where cs = "inbox (link p1)"])
      (use q assms(2,5,6) in \<open>simp_all add: queued_def\<close>)
  with metadata_of_said [OF assms(3,4), of rest "[]"] s r show ?thesis
    by (simp add: get_command_metadata_def)
qed

definition described_members :: "member list" where
  "described_members = [MemS (lit ''Name'') (lit ''ls''), MemI32 (lit ''PipelineState'') (lit ''4'')]"

lemma described_read:
  "values_of (scripted_codec (document described_members)) t
     = Inr [PsObject (Ps_Object [(lit ''Name'', PsString (lit ''ls'')), (lit ''PipelineState'', PsI32 4)] [] None)]"
proof -
  have "good_members described_members" "described_members \<noteq> []"
    by (simp_all add: good_members_def described_members_def small_numbers)
  moreover have "lit ''Name'' \<noteq> lit ''PipelineState''" by (simp add: lit_def)
  then have "insert_members object_new described_members
      = Ps_Object [(lit ''Name'', PsString (lit ''ls'')), (lit ''PipelineState'', PsI32 4)] [] None"
    by (simp add: described_members_def small_numbers object_insert_def object_with_def object_new_def)
  ultimately show ?thesis by (simp add: values_of_document)
qed

definition output_for :: "uuid \<Rightarrow> psrp_message" where
  "output_for pid = \<lparr>msg_destination = Client, msg_type = PipelineOutput, msg_rpid = 7, msg_pid = pid,
     msg_data = [65]\<rparr>"

definition described_pool :: "(mock, unit) pool" where
  "described_pool = (sample_pool [])\<lparr>pending_messages := [completed_for 5, output_for 6]\<rparr>"

theorem metadata_is_what_the_server_described_witness:
  "snd (get_command_metadata (mock_env (scripted_codec (document described_members)) no_interaction_host
      shift_cipher (\<lambda>_. Inr broken_key)) 9 [1, 1] [lit ''*''] CT_ALL described_pool)
    = Some (Inr [\<lparr>cm_name = lit ''ls'', cm_namespace = None, cm_has_common_parameters = None,
        cm_command_type = None, cm_parameters = []\<rparr>])"
proof -
  let ?K = "scripted_codec (document described_members)"
  have q: "queued ?K described_pool ([output_for 6] @ completed_for 5 # [])"
    by (simp add: queued_def coming_def described_pool_def sample_pool_def fresh_pool_def mock_new_def)
  have quiet: "\<forall>x\<in>set ([output_for 6] @ completed_for 5 # []). quiet x"
    by (simp add: quiet_def completed_for_def output_for_def)
  have over: "says_over ?K (completed_for 5) = Some PCompleted"
    by (simp add: says_over_def state_from_xml_def described_read completed_for_def object_get_def lit_def
        pipeline_state_from_i32_def pipeline_terminal_def)
  have goes: "\<forall>x\<in>set [output_for 6]. says_over ?K x = None
      \<and> (msg_type x = PipelineOutput \<longrightarrow> (\<exists>vs. values_of ?K (msg_data x) = Inr vs))"
    by (simp add: says_over_def output_for_def described_read)
  have said: "filter_map command_from_ps_object (said ?K PipelineOutput [output_for 6]) =
      [\<lparr>cm_name = lit ''ls'', cm_namespace = None, cm_has_common_parameters = None,
        cm_command_type = None, cm_parameters = []\<rparr>]"
    by (simp add: said_def output_for_def described_read command_from_ps_object_def unwrap_or_default_def lit_def)
  from metadata_is_what_the_server_described [OF q quiet goes over, of "[1, 1]"] said show ?thesis
    by (simp add: described_pool_def sample_pool_def fresh_pool_def mock_new_def)
qed

section \<open>Sharing\<close>

text \<open>Only the last handle closes the pool; any other leaves it as it is and fails.\<close>

lemma shared_close_last:
  "shared_close E s = (s', r) \<Longrightarrow> handle_count s \<noteq> 1 \<Longrightarrow> shared_inner s' = shared_inner s \<and> (\<exists>e. r = Inl e)"
  "shared_close E (shared_new p) = (s', r) \<Longrightarrow>
     handle_count s' = 0 \<and> (shared_inner s', r) = pool_close E p"
  by (auto simp: shared_close_def shared_drop_def shared_new_def with_pool_def split: prod.splits if_splits)

end
