(* ===== verification/Known_Hosts.thy ===== *)
theory Known_Hosts
  imports Unicode
begin

text \<open>
  Host-key verification of the SSH transport (\<open>src/src/ssh.rs\<close>): the name a host is looked up under,
  \<open>known_hosts\<close> entries and their patterns, and the verdict on a key.

  \<open>std::net::IpAddr\<close> is modelled as far as the code uses it: parsing and printing an address.  The
  parser for \<open>known_hosts\<close> lines, the fingerprint of a key and HMAC-SHA-1 are third-party and enter
  through \<open>ssh_env\<close>, as does the file system.
\<close>

section \<open>Addresses\<close>

text \<open>\<open>read_number\<close> of the standard parser: at most \<open>limit\<close> digits, below \<open>bound\<close>.\<close>

definition digit_prefix :: "nat \<Rightarrow> ustr \<Rightarrow> ustr" where
  "digit_prefix radix s = takeWhile (\<lambda>c. to_digit radix c \<noteq> None) s"

definition digits_value :: "nat \<Rightarrow> ustr \<Rightarrow> nat" where
  "digits_value radix ds = fold (\<lambda>c acc. acc * radix + the (to_digit radix c)) ds 0"

definition read_number :: "nat \<Rightarrow> nat \<Rightarrow> bool \<Rightarrow> nat \<Rightarrow> ustr \<Rightarrow> (nat \<times> ustr) option" where
  "read_number radix limit zero_prefix bound s =
     (let ds = digit_prefix radix s in
      if ds = [] \<or> length ds > limit then None
      else if \<not> zero_prefix \<and> hd ds = 48 \<and> length ds > 1 then None
      else if digits_value radix ds \<ge> bound then None
      else Some (digits_value radix ds, drop (length ds) s))"

definition read_char :: "uchar \<Rightarrow> ustr \<Rightarrow> ustr option" where
  "read_char c s = (case s of d # rest \<Rightarrow> if d = c then Some rest else None | [] \<Rightarrow> None)"

definition read_separator :: "uchar \<Rightarrow> nat \<Rightarrow> (ustr \<Rightarrow> ('a \<times> ustr) option) \<Rightarrow> ustr \<Rightarrow> ('a \<times> ustr) option" where
  "read_separator sep i inner s =
     (if i = 0 then inner s else Option.bind (read_char sep s) inner)"

fun read_octets :: "nat \<Rightarrow> nat \<Rightarrow> ustr \<Rightarrow> (nat list \<times> ustr) option" where
  "read_octets i 0 s = Some ([], s)"
| "read_octets i (Suc n) s =
     Option.bind (read_separator 46 i (read_number 10 3 False 256) s) (\<lambda>(octet, s).
     Option.bind (read_octets (Suc i) n s) (\<lambda>(os, s). Some (octet # os, s)))"

definition read_ipv4 :: "ustr \<Rightarrow> (nat list \<times> ustr) option" where
  "read_ipv4 s = read_octets 0 4 s"

text \<open>Up to \<open>n\<close> more of \<open>limit\<close> groups, the \<open>i\<close>-th first, and whether the last two are an IPv4 address.\<close>

fun read_groups :: "nat \<Rightarrow> nat \<Rightarrow> nat \<Rightarrow> ustr \<Rightarrow> nat list \<times> bool \<times> ustr" where
  "read_groups limit i 0 s = ([], False, s)"
| "read_groups limit i (Suc n) s =
     (case (if i + 1 < limit then read_separator 58 i read_ipv4 s else None) of
        Some (octets, rest) \<Rightarrow>
          ([octets ! 0 * 256 + octets ! 1, octets ! 2 * 256 + octets ! 3], True, rest)
      | None \<Rightarrow>
          (case read_separator 58 i (read_number 16 4 True 65536) s of
             None \<Rightarrow> ([], False, s)
           | Some (g, rest) \<Rightarrow>
               (case read_groups limit (Suc i) n rest of
                  (gs, v4, rest) \<Rightarrow> (g # gs, v4, rest))))"

definition read_ipv6 :: "ustr \<Rightarrow> (nat list \<times> ustr) option" where
  "read_ipv6 s =
     (case read_groups 8 0 8 s of
        (head, v4, rest) \<Rightarrow>
          if length head = 8 then Some (head, rest)
          else if v4 then None
          else
            Option.bind (read_char 58 rest) (\<lambda>rest. Option.bind (read_char 58 rest) (\<lambda>rest.
              let limit = 8 - (length head + 1) in
              case read_groups limit 0 limit rest of
                (tail, v4, rest) \<Rightarrow> Some (head @ replicate (8 - length head - length tail) 0 @ tail, rest))))"

datatype ip_addr = V4 u32 | V6 "nat list"

definition ipv4_of_octets :: "nat list \<Rightarrow> u32" where
  "ipv4_of_octets os = of_nat (fold (\<lambda>octet acc. acc * 256 + octet) os 0)"

definition parse_ip :: "ustr \<Rightarrow> ip_addr option" where
  "parse_ip s =
     (case read_ipv4 s of
        Some (octets, []) \<Rightarrow> Some (V4 (ipv4_of_octets octets))
      | Some (octets, _ # _) \<Rightarrow> None
      | None \<Rightarrow>
          (case read_ipv6 s of
             Some (gs, []) \<Rightarrow> Some (V6 gs)
           | _ \<Rightarrow> None))"

definition octets_of :: "u32 \<Rightarrow> nat list" where
  "octets_of w = [unat w div 2 ^ 24 mod 256, unat w div 2 ^ 16 mod 256, unat w div 2 ^ 8 mod 256, unat w mod 256]"

definition show_ipv4 :: "u32 \<Rightarrow> ustr" where
  "show_ipv4 w = join_str [46] (map show_nat (octets_of w))"

text \<open>The first longest run of zero groups: where it starts and how long it is.\<close>

fun longest_zeros :: "nat \<Rightarrow> nat \<times> nat \<Rightarrow> nat \<times> nat \<Rightarrow> nat list \<Rightarrow> nat \<times> nat" where
  "longest_zeros i current longest [] = longest"
| "longest_zeros i current longest (g # gs) =
     (if g = 0 then
        let current = (if snd current = 0 then i else fst current, Suc (snd current)) in
        longest_zeros (Suc i) current (if snd current > snd longest then current else longest) gs
      else longest_zeros (Suc i) (0, 0) longest gs)"

definition show_groups :: "nat list \<Rightarrow> ustr" where
  "show_groups gs = join_str [58] (map show_hex gs)"

definition show_ipv6 :: "nat list \<Rightarrow> ustr" where
  "show_ipv6 gs =
     (if take 6 gs = [0, 0, 0, 0, 0, 0xFFFF] then
        lit ''::ffff:'' @ show_ipv4 (of_nat (gs ! 6 * 65536 + gs ! 7))
      else
        case longest_zeros 0 (0, 0) (0, 0) gs of
          (start, n) \<Rightarrow>
            if n > 1 then show_groups (take start gs) @ [58, 58] @ show_groups (drop (start + n) gs)
            else show_groups gs)"

fun show_ip :: "ip_addr \<Rightarrow> ustr" where
  "show_ip (V4 w) = show_ipv4 w"
| "show_ip (V6 gs) = show_ipv6 gs"

section \<open>The name of a host\<close>

text \<open>\<open>str::split\<close> at a character.\<close>

fun split_char :: "uchar \<Rightarrow> ustr \<Rightarrow> ustr list" where
  "split_char sep [] = [[]]"
| "split_char sep (c # cs) =
     (if c = sep then [] # split_char sep cs
      else case split_char sep cs of part # parts \<Rightarrow> (c # part) # parts | [] \<Rightarrow> [[c]])"

definition strip_prefix_ci :: "ustr \<Rightarrow> ustr option" where
  "strip_prefix_ci part =
     (case part of
        z # x # hex \<Rightarrow> if z = 48 \<and> (x = 0x78 \<or> x = 0x58) then Some hex else None
      | _ \<Rightarrow> None)"

definition digits_and_radix :: "ustr \<Rightarrow> ustr \<times> nat" where
  "digits_and_radix part =
     (case strip_prefix_ci part of
        Some hex \<Rightarrow> (hex, 16)
      | None \<Rightarrow> if length part > 1 \<and> hd part = 48 then (tl part, 8) else (part, 10))"

definition inet_part :: "ustr \<Rightarrow> u32 option" where
  "inet_part part =
     (let (digits, radix) = digits_and_radix part in
      if digits = [] \<or> (\<exists>c\<in>set digits. to_digit radix c = None) then None
      else case from_str_radix radix 0 (2 ^ 32 - 1) digits of
        Inl e \<Rightarrow> None | Inr v \<Rightarrow> Some (word_of_int v))"

fun inet_parts :: "nat \<Rightarrow> ustr list \<Rightarrow> u32 list option" where
  "inet_parts n [] = Some []"
| "inet_parts n (part # parts) =
     Option.bind (inet_part part) (\<lambda>v.
       if n + 1 > 4 then None else map_option (Cons v) (inet_parts (n + 1) parts))"

definition parse_inet_aton :: "ustr \<Rightarrow> u32 option" where
  "parse_inet_aton s =
     Option.bind (inet_parts 0 (split_char 46 s)) (\<lambda>parts.
       if parts = [] then None
       else
         let final = last parts; leading = butlast parts in
         if \<exists>p\<in>set leading. p > 0xFF then None
         else
           Option.bind (map_of [(0, 32), (1, 24), (2, 16), (3, 8)] (length leading)) (\<lambda>free_bits.
             if free_bits < 32 \<and> drop_bit free_bits final \<noteq> 0 then None
             else Some (or (fold (\<lambda>(p, shift) acc. or acc (push_bit shift p)) (zip leading [24, 16, 8]) 0) final)))"

definition strip_brackets :: "ustr \<Rightarrow> ustr" where
  "strip_brackets host =
     (if host \<noteq> [] \<and> hd host = 0x5B \<and> tl host \<noteq> [] \<and> last host = 0x5D then butlast (tl host) else host)"

definition canonical_host :: "ustr \<Rightarrow> ustr" where
  "canonical_host host =
     (case parse_ip (strip_brackets host) of
        Some ip \<Rightarrow> show_ip ip
      | None \<Rightarrow>
          (case parse_inet_aton host of
             Some w \<Rightarrow> show_ipv4 w
           | None \<Rightarrow> to_ascii_lowercase host))"

definition known_hosts_lookup_name :: "ustr \<Rightarrow> u16 \<Rightarrow> ustr" where
  "known_hosts_lookup_name host port =
     (let host = canonical_host host in
      if port = 22 then host else 0x5B # host @ [0x5D, 0x3A] @ show_nat (unat port))"

definition valid_ssh_host :: "ustr \<Rightarrow> bool" where
  "valid_ssh_host host \<longleftrightarrow> host \<noteq> [] \<and> hd host \<noteq> 45
     \<and> (\<forall>c\<in>set host. \<not> is_whitespace c \<and> \<not> is_control c
          \<and> c \<notin> set ([0x27, 0x60, 0x22, 0x24, 0x5C] @ lit '';&<>|(){},''))"

section \<open>Patterns\<close>

definition lower_byte :: "u8 \<Rightarrow> u8" where
  "lower_byte b = (if 65 \<le> b \<and> b \<le> 90 then b + 32 else b)"

text \<open>The loop of \<open>glob_match_bytes\<close>: the last star is kept with where it resumes.\<close>

definition resume_of :: "(bytes \<times> bytes) option \<Rightarrow> bytes" where
  "resume_of star = (case star of Some (resume, from) \<Rightarrow> resume | None \<Rightarrow> [])"

definition from_of :: "(bytes \<times> bytes) option \<Rightarrow> bytes" where
  "from_of star = (case star of Some (resume, from) \<Rightarrow> from | None \<Rightarrow> [])"

function glob_loop :: "bytes \<Rightarrow> bytes \<Rightarrow> (bytes \<times> bytes) option \<Rightarrow> bool" where
  "glob_loop pat [] star = (\<forall>c\<in>set pat. c = 42)"
| "glob_loop pat (byte # tgt) star =
     (case pat of
        c # rest \<Rightarrow>
          if c = 42 then glob_loop rest (byte # tgt) (Some (rest, byte # tgt))
          else if c = 63 \<or> lower_byte c = lower_byte byte then glob_loop rest tgt star
          else (case star of
                  Some (resume, from # after) \<Rightarrow> glob_loop resume after (Some (resume, after))
                | _ \<Rightarrow> False)
      | [] \<Rightarrow>
          (case star of
             Some (resume, from # after) \<Rightarrow> glob_loop resume after (Some (resume, after))
           | _ \<Rightarrow> False))"
  by pat_completeness auto

termination
  by (relation "measures [\<lambda>(pat, tgt, star). max (length pat) (length (resume_of star)),
        \<lambda>(pat, tgt, star). length (from_of star), \<lambda>(pat, tgt, star). length pat]")
    (auto simp: resume_of_def from_of_def split: option.splits)

declare glob_loop.simps(2) [simp del]

definition glob_match_bytes :: "bytes \<Rightarrow> bytes \<Rightarrow> bool" where
  "glob_match_bytes pattern target = glob_loop pattern target None"

definition glob_match :: "ustr \<Rightarrow> ustr \<Rightarrow> bool" where
  "glob_match pattern target = glob_match_bytes (as_bytes pattern) (as_bytes target)"

fun patterns_loop :: "bool \<Rightarrow> ustr list \<Rightarrow> ustr \<Rightarrow> bool" where
  "patterns_loop positive [] lookup = positive"
| "patterns_loop positive (raw # raws) lookup =
     (let (negate, pattern) = (case raw of c # rest \<Rightarrow> if c = 0x21 then (True, rest) else (False, raw) | [] \<Rightarrow> (False, raw)) in
      if \<not> glob_match pattern lookup then patterns_loop positive raws lookup
      else if negate then False
      else patterns_loop True raws lookup)"

definition host_matches_patterns :: "ustr list \<Rightarrow> ustr \<Rightarrow> bool" where
  "host_matches_patterns patterns lookup = patterns_loop False patterns lookup"

section \<open>Entries and the verdict\<close>

datatype host_patterns = Patterns "ustr list" | HashedName bytes bytes

datatype marker = Revoked | CertAuthority

record public_key =
  key_data :: bytes
  key_comment :: ustr

record kh_entry =
  kh_patterns :: host_patterns
  kh_marker :: "marker option"
  kh_key :: public_key

record ssh_env =
  known_hosts_entries :: "ustr \<Rightarrow> (ustr + kh_entry) list"
  hmac_sha1 :: "bytes \<Rightarrow> bytes \<Rightarrow> bytes"
  fingerprint_sha256 :: "public_key \<Rightarrow> bytes option"
  read_file :: "ustr \<Rightarrow> ustr + ustr"

definition constant_time_eq :: "bytes \<Rightarrow> bytes \<Rightarrow> bool" where
  "constant_time_eq a b \<longleftrightarrow> length a = length b
     \<and> fold (\<lambda>(x, y) diff. or diff (xor x y)) (zip a b) 0 = 0"

definition host_matches_hashed :: "ssh_env \<Rightarrow> bytes \<Rightarrow> bytes \<Rightarrow> ustr \<Rightarrow> bool" where
  "host_matches_hashed S salt hash_value host \<longleftrightarrow> length salt = length hash_value
     \<and> constant_time_eq (hmac_sha1 S salt (as_bytes host)) hash_value"

definition host_matches_entry :: "ssh_env \<Rightarrow> kh_entry \<Rightarrow> ustr \<Rightarrow> bool" where
  "host_matches_entry S entry lookup =
     (case kh_patterns entry of
        Patterns ps \<Rightarrow> host_matches_patterns ps lookup
      | HashedName salt hash_value \<Rightarrow> host_matches_hashed S salt hash_value lookup)"

text \<open>\<open>str::lines\<close>: a line feed ends a line, one carriage return before it is dropped.\<close>

definition drop_cr :: "ustr \<Rightarrow> ustr" where
  "drop_cr line = (if line \<noteq> [] \<and> last line = 13 then butlast line else line)"

definition text_lines :: "ustr \<Rightarrow> ustr list" where
  "text_lines s =
     (let parts = split_char 10 s in map drop_cr (butlast parts) @ (if last parts = [] then [] else [last parts]))"

definition ascii_space :: "uchar \<Rightarrow> bool" where
  "ascii_space c \<longleftrightarrow> c = 32 \<or> c = 9 \<or> c = 10 \<or> c = 12 \<or> c = 13"

fun ascii_words :: "ustr \<Rightarrow> ustr \<Rightarrow> ustr list" where
  "ascii_words word [] = (if word = [] then [] else [word])"
| "ascii_words word (c # cs) =
     (if ascii_space c then (if word = [] then [] else [word]) @ ascii_words [] cs
      else ascii_words (word @ [c]) cs)"

definition normalize_known_hosts :: "ustr \<Rightarrow> ustr" where
  "normalize_known_hosts contents =
     join_str [10] (map (\<lambda>line. join_str [32] (ascii_words [] line)) (text_lines contents))"

datatype known_hosts_verdict = VTrusted | VRevoked | VNotTrusted

fun verdict_loop :: "ssh_env \<Rightarrow> ustr \<Rightarrow> public_key \<Rightarrow> bool \<Rightarrow> (ustr + kh_entry) list \<Rightarrow> known_hosts_verdict" where
  "verdict_loop S lookup key trusted [] = (if trusted then VTrusted else VNotTrusted)"
| "verdict_loop S lookup key trusted (Inl e # entries) = verdict_loop S lookup key trusted entries"
| "verdict_loop S lookup key trusted (Inr entry # entries) =
     (if \<not> host_matches_entry S entry lookup then verdict_loop S lookup key trusted entries
      else
        let same_key = (key_data (kh_key entry) = key_data key) in
        case kh_marker entry of
          Some Revoked \<Rightarrow> if same_key then VRevoked else verdict_loop S lookup key trusted entries
        | Some CertAuthority \<Rightarrow> verdict_loop S lookup key trusted entries
        | None \<Rightarrow> verdict_loop S lookup key (trusted \<or> same_key) entries)"

definition known_hosts_verdict_of :: "ssh_env \<Rightarrow> ustr \<Rightarrow> ustr \<Rightarrow> u16 \<Rightarrow> public_key \<Rightarrow> known_hosts_verdict" where
  "known_hosts_verdict_of S contents host port key =
     verdict_loop S (known_hosts_lookup_name host port) key False
       (known_hosts_entries S (normalize_known_hosts contents))"

section \<open>The policy\<close>

datatype host_key_policy = Pinned bytes | KnownHosts ustr | AcceptAny

definition verify_against_known_hosts :: "ssh_env \<Rightarrow> ustr \<Rightarrow> ustr \<Rightarrow> u16 \<Rightarrow> public_key \<Rightarrow> ustr + unit" where
  "verify_against_known_hosts S path host port key =
     (case read_file S path of
        Inl e \<Rightarrow> Inl (lit ''cannot read known_hosts file '' @ path @ lit '': '' @ e)
      | Inr contents \<Rightarrow>
          (let site = host @ lit '':'' @ show_nat (unat port) in
           case known_hosts_verdict_of S contents host port key of
             VTrusted \<Rightarrow> Inr ()
           | VRevoked \<Rightarrow> Inl (lit ''host key for '' @ site @ lit '' explicitly revoked in '' @ path)
           | VNotTrusted \<Rightarrow> Inl (lit ''no matching entry for '' @ site @ lit '' in '' @ path
               @ [32, 0x2014, 32] @ lit ''host key not trusted'')))"

definition verify_host_key :: "ssh_env \<Rightarrow> host_key_policy \<Rightarrow> ustr \<Rightarrow> u16 \<Rightarrow> public_key \<Rightarrow> ustr + unit" where
  "verify_host_key S policy host port key =
     (case policy of
        AcceptAny \<Rightarrow> Inr ()
      | Pinned pinned \<Rightarrow>
          rbind (ok_or (fingerprint_sha256 S key) (lit ''computed fingerprint was not SHA-256'')) (\<lambda>actual.
            if constant_time_eq actual pinned then Inr ()
            else Inl (lit ''pinned SHA-256 fingerprint does not match''))
      | KnownHosts path \<Rightarrow> verify_against_known_hosts S path host port key)"

text \<open>What the server shows in the handshake, and \<open>ClientHandler::check_server_key\<close>.\<close>

datatype server_key = PublicKey public_key | Certificate ustr

fun check_server_key :: "ssh_env \<Rightarrow> host_key_policy \<Rightarrow> ustr \<Rightarrow> u16 \<Rightarrow> server_key \<Rightarrow> bool" where
  "check_server_key S policy host port (Certificate key_id) = (policy = AcceptAny)"
| "check_server_key S policy host port (PublicKey key) =
     (case verify_host_key S policy host port key of Inr u \<Rightarrow> True | Inl reason \<Rightarrow> False)"

end
