(* ===== verification/Known_Hosts_Properties.thy ===== *)
theory Known_Hosts_Properties
  imports Known_Hosts Errors
begin

text \<open>
  What host-key verification decides: the pattern language the matcher accepts, the verdict of a
  \<open>known_hosts\<close> file, and that the notations of an address are one name.
\<close>

section \<open>Patterns\<close>

text \<open>The pattern language: a star stands for any bytes, a question mark for one.\<close>

fun globs :: "bytes \<Rightarrow> bytes \<Rightarrow> bool" where
  "globs [] target = (target = [])"
| "globs (p # ps) target =
     (if p = 42 then list_ex (\<lambda>k. globs ps (drop k target)) [0..<Suc (length target)]
      else case target of
        [] \<Rightarrow> False
      | c # cs \<Rightarrow> (p = 63 \<or> lower_byte p = lower_byte c) \<and> globs ps cs)"

lemma globs_star: "globs (42 # ps) target \<longleftrightarrow> (\<exists>k \<le> length target. globs ps (drop k target))"
  by (auto simp: list_ex_iff less_Suc_eq_le simp del: upt_Suc)

declare globs.simps(2) [simp del]

lemma globs_char:
  "p \<noteq> 42 \<Longrightarrow> globs (p # ps) (c # cs) \<longleftrightarrow> (p = 63 \<or> lower_byte p = lower_byte c) \<and> globs ps cs"
  "p \<noteq> 42 \<Longrightarrow> \<not> globs (p # ps) []"
  by (simp_all add: globs.simps(2))

lemma globs_star_cases:
  "globs (42 # ps) target \<longleftrightarrow> globs ps target \<or> (\<exists>k. 1 \<le> k \<and> k \<le> length target \<and> globs ps (drop k target))"
  (is "?l \<longleftrightarrow> ?r")
proof
  assume ?l
  then obtain k where k: "k \<le> length target" "globs ps (drop k target)" by (auto simp: globs_star)
  then show ?r by (cases k) auto
next
  assume ?r
  then show ?l by (auto simp: globs_star intro: exI [of _ 0])
qed

lemma globs_star_more: "globs (42 # ps) (drop k target) \<Longrightarrow> globs (42 # ps) target"
proof -
  assume "globs (42 # ps) (drop k target)"
  then obtain j where "j \<le> length target - k" "globs ps (drop (j + k) target)"
    by (auto simp: globs_star)
  then show ?thesis
    by (cases "k \<le> length target") (auto simp: globs_star intro: exI [of _ "j + k"] exI [of _ "length target"])
qed

lemma globs_literals:
  "42 \<notin> set lits \<Longrightarrow> globs (lits @ ps) target \<Longrightarrow> length lits \<le> length target \<and> globs ps (drop (length lits) target)"
proof (induction lits arbitrary: target)
  case (Cons p lits)
  then show ?case by (cases target) (auto simp: globs_char)
qed simp

lemma globs_end: "globs ps [] \<longleftrightarrow> (\<forall>c\<in>set ps. c = 42)"
proof (induction ps)
  case (Cons p ps)
  then show ?case by (cases "p = 42") (auto simp: globs_star globs_char)
qed simp

text \<open>
  What the last star may still do: swallow at least one more byte.  Since that star the pattern has
  only consumed literals, one byte of the target for each.
\<close>

definition may_backtrack :: "(bytes \<times> bytes) option \<Rightarrow> bool" where
  "may_backtrack star = (case star of
     None \<Rightarrow> False | Some (resume, from) \<Rightarrow> \<exists>k. 1 \<le> k \<and> k \<le> length from \<and> globs resume (drop k from))"

definition since_star :: "bytes \<Rightarrow> bytes \<Rightarrow> (bytes \<times> bytes) option \<Rightarrow> bool" where
  "since_star pat tgt star = (case star of
     None \<Rightarrow> True
   | Some (resume, from) \<Rightarrow> \<exists>lits. 42 \<notin> set lits \<and> resume = lits @ pat \<and> tgt = drop (length lits) from
       \<and> length lits \<le> length from)"

lemma backtrack_star:
  assumes "since_star (42 # rest) tgt star" "may_backtrack star"
  shows "globs (42 # rest) tgt"
proof -
  obtain resume "from" lits k where s: "star = Some (resume, from)" "42 \<notin> set lits" "resume = lits @ 42 # rest"
    "tgt = drop (length lits) from" "k \<le> length from" "globs resume (drop k from)"
    using assms by (auto simp: since_star_def may_backtrack_def split: option.splits)
  then have "globs (42 # rest) (drop k tgt)"
    using globs_literals [of lits "42 # rest" "drop k from"] by (simp add: add.commute)
  then show ?thesis by (rule globs_star_more)
qed

lemma backtrack_end:
  assumes "since_star pat [] star"
  shows "\<not> may_backtrack star"
proof
  assume "may_backtrack star"
  then obtain resume "from" lits k where s: "star = Some (resume, from)" "42 \<notin> set lits" "resume = lits @ pat"
    "drop (length lits) from = []" "1 \<le> k" "k \<le> length from" "globs resume (drop k from)"
    using assms by (auto simp: since_star_def may_backtrack_def split: option.splits)
  then show False using globs_literals [of lits pat "drop k from"] by auto
qed

lemma may_backtrack_Cons:
  "may_backtrack (Some (resume, c # after)) \<longleftrightarrow> globs resume after \<or> may_backtrack (Some (resume, after))"
proof -
  have "(\<exists>k. 1 \<le> k \<and> k \<le> length (c # after) \<and> globs resume (drop k (c # after)))
      \<longleftrightarrow> (\<exists>j \<le> length after. globs resume (drop j after))"
    by (rule iffI) (auto simp: gr0_conv_Suc Suc_le_eq intro: exI [of _ "Suc _"])
  also have "\<dots> \<longleftrightarrow> globs resume after \<or> (\<exists>j. 1 \<le> j \<and> j \<le> length after \<and> globs resume (drop j after))"
    by (metis drop0 le0 less_one not_le)
  finally show ?thesis by (simp add: may_backtrack_def)
qed

lemma may_backtrack_none: "\<not> may_backtrack (Some (resume, []))" "\<not> may_backtrack None"
  by (simp_all add: may_backtrack_def)

lemma since_star_fresh: "since_star pat tgt (Some (pat, tgt))"
  by (auto simp: since_star_def intro: exI [of _ "[]"])

lemma since_star_step:
  assumes "since_star (c # rest) (b # tgt) star" "c \<noteq> 42"
  shows "since_star rest tgt star"
proof (cases star)
  case (Some rf)
  then obtain resume "from" lits where s: "rf = (resume, from)" "42 \<notin> set lits" "resume = lits @ c # rest"
    "b # tgt = drop (length lits) from" "length lits \<le> length from"
    using assms(1) by (cases rf) (auto simp: since_star_def)
  then have "tgt = drop (Suc (length lits)) from" "Suc (length lits) \<le> length from"
    by (metis drop_Suc list.sel(3) tl_drop) (metis s(4,5) Suc_leI drop_all le_neq_implies_less list.distinct(1))
  with s Some assms(2) show ?thesis
    by (auto simp: since_star_def intro!: exI [of _ "lits @ [c]"])
qed (simp add: since_star_def)

lemma glob_loop_globs:
  "since_star pat tgt star \<Longrightarrow> glob_loop pat tgt star \<longleftrightarrow> globs pat tgt \<or> may_backtrack star"
proof (induction pat tgt star rule: glob_loop.induct)
  case (1 pat star)
  then show ?case using backtrack_end by (simp add: globs_end)
next
  case (2 pat byte tgt star)
  have retry: "(case star of Some (resume, from # after) \<Rightarrow> glob_loop resume after (Some (resume, after)) | _ \<Rightarrow> False)
      \<longleftrightarrow> may_backtrack star"
    if "\<And>resume from after. star = Some (resume, from # after) \<Longrightarrow>
        glob_loop resume after (Some (resume, after)) \<longleftrightarrow> globs resume after \<or> may_backtrack (Some (resume, after))"
    using that by (auto simp: may_backtrack_none may_backtrack_Cons split: option.split list.split)
  show ?case
  proof (cases pat)
    case Nil
    have "(case star of Some (resume, from # after) \<Rightarrow> glob_loop resume after (Some (resume, after)) | _ \<Rightarrow> False)
        \<longleftrightarrow> may_backtrack star"
      by (rule retry) (use "2.IH"(1) Nil since_star_fresh in blast)
    with Nil show ?thesis by (subst glob_loop.simps) simp
  next
    case (Cons c rest)
    consider "c = 42" | "c \<noteq> 42" "c = 63 \<or> lower_byte c = lower_byte byte"
      | "c \<noteq> 42" "\<not> (c = 63 \<or> lower_byte c = lower_byte byte)" by blast
    then show ?thesis
    proof cases
      case 1
      have "glob_loop rest (byte # tgt) (Some (rest, byte # tgt))
          \<longleftrightarrow> globs rest (byte # tgt) \<or> may_backtrack (Some (rest, byte # tgt))"
        using "2.IH"(2) Cons 1 since_star_fresh by blast
      also have "\<dots> \<longleftrightarrow> globs (42 # rest) (byte # tgt)"
        by (simp add: globs_star_cases may_backtrack_def)
      also have "\<dots> \<longleftrightarrow> globs pat (byte # tgt) \<or> may_backtrack star"
        using backtrack_star [of rest "byte # tgt" star] "2.prems" Cons 1 by blast
      finally show ?thesis using Cons 1 by (subst glob_loop.simps) simp
    next
      case m: 2
      have "since_star rest tgt star" using since_star_step "2.prems" Cons m(1) by blast
      then have "glob_loop rest tgt star \<longleftrightarrow> globs rest tgt \<or> may_backtrack star"
        using "2.IH"(3) Cons m by blast
      then show ?thesis using Cons m by (subst glob_loop.simps) (simp add: globs_char)
    next
      case m: 3
      have "(case star of Some (resume, from # after) \<Rightarrow> glob_loop resume after (Some (resume, after)) | _ \<Rightarrow> False)
          \<longleftrightarrow> may_backtrack star"
        by (rule retry) (use "2.IH"(4) Cons m since_star_fresh in blast)
      with Cons m show ?thesis by (subst glob_loop.simps) (simp add: globs_char)
    qed
  qed
qed

text \<open>
  C29: the matcher, which keeps one place to go back to, accepts exactly the pattern language: it
  agrees with the definition that tries every way a star can match.
\<close>

theorem glob_match_is_the_pattern_language: "glob_match_bytes pattern target = globs pattern target"
  using glob_loop_globs [of pattern target None] by (simp add: glob_match_bytes_def since_star_def may_backtrack_none)

section \<open>Entries\<close>

definition negated :: "ustr \<Rightarrow> bool" where
  "negated raw \<longleftrightarrow> raw \<noteq> [] \<and> hd raw = 0x21"

definition pattern_of :: "ustr \<Rightarrow> ustr" where
  "pattern_of raw = (if negated raw then tl raw else raw)"

text \<open>One positive pattern matches and no negated one does.\<close>

lemma patterns_loop_iff:
  "patterns_loop positive raws lookup \<longleftrightarrow>
     (positive \<or> (\<exists>raw\<in>set raws. \<not> negated raw \<and> glob_match (pattern_of raw) lookup))
     \<and> (\<forall>raw\<in>set raws. negated raw \<longrightarrow> \<not> glob_match (pattern_of raw) lookup)"
proof (induction raws arbitrary: positive)
  case (Cons raw raws)
  have "(case raw of c # rest \<Rightarrow> if c = 0x21 then (True, rest) else (False, raw) | [] \<Rightarrow> (False, raw))
      = (negated raw, pattern_of raw)"
    by (auto simp: negated_def pattern_of_def split: list.split)
  with Cons.IH show ?case by auto
qed simp

lemma host_matches_patterns_iff:
  "host_matches_patterns raws lookup \<longleftrightarrow>
     (\<exists>raw\<in>set raws. \<not> negated raw \<and> glob_match (pattern_of raw) lookup)
     \<and> (\<forall>raw\<in>set raws. negated raw \<longrightarrow> \<not> glob_match (pattern_of raw) lookup)"
  by (simp add: host_matches_patterns_def patterns_loop_iff)

lemma xor_zero_iff: "xor a b = 0 \<longleftrightarrow> a = (b :: u8)"
proof
  assume "xor a b = 0"
  then have "xor (xor a b) b = b" by simp
  then show "a = b" by (simp add: xor.assoc)
qed simp

lemma xor_fold_zero:
  "fold (\<lambda>(x, y) diff. or diff (xor x y)) ps (d :: u8) = 0 \<longleftrightarrow> d = 0 \<and> (\<forall>(x, y)\<in>set ps. x = y)"
  by (induction ps arbitrary: d) (auto simp: or_eq_0_iff xor_zero_iff)

lemma constant_time_eq_iff: "constant_time_eq a b \<longleftrightarrow> a = b"
  by (auto simp: constant_time_eq_def xor_fold_zero list_eq_iff_zip_eq)

section \<open>The verdict\<close>

text \<open>A well-formed line for the host that lists the key, with this marker.\<close>

definition lists_key ::
    "ssh_env \<Rightarrow> ustr \<Rightarrow> public_key \<Rightarrow> marker option \<Rightarrow> (ustr + kh_entry) list \<Rightarrow> bool" where
  "lists_key S lookup key mk entries \<longleftrightarrow> (\<exists>entry. Inr entry \<in> set entries \<and> kh_marker entry = mk
     \<and> host_matches_entry S entry lookup \<and> key_data (kh_key entry) = key_data key)"

lemma lists_key_simps [simp]:
  "\<not> lists_key S lookup key mk []"
  "lists_key S lookup key mk (Inl e # entries) = lists_key S lookup key mk entries"
  "lists_key S lookup key mk (Inr entry # entries) \<longleftrightarrow> lists_key S lookup key mk entries
     \<or> (kh_marker entry = mk \<and> host_matches_entry S entry lookup \<and> key_data (kh_key entry) = key_data key)"
  by (auto simp: lists_key_def)

lemma verdict_loop_eq:
  "verdict_loop S lookup key trusted entries =
     (if lists_key S lookup key (Some Revoked) entries then VRevoked
      else if trusted \<or> lists_key S lookup key None entries then VTrusted else VNotTrusted)"
  by (induction S lookup key trusted entries rule: verdict_loop.induct)
    (auto simp: Let_def split: option.split marker.split)

definition entries_of :: "ssh_env \<Rightarrow> ustr \<Rightarrow> (ustr + kh_entry) list" where
  "entries_of S contents = known_hosts_entries S (normalize_known_hosts contents)"

text \<open>
  C30: when a server's key is accepted.  \<open>AcceptAny\<close> takes everything; a pinned fingerprint only the
  plain key that has it; a \<open>known_hosts\<close> file, if it can be read, only a plain key that an unmarked
  line for this host lists and that no \<open>@revoked\<close> line for it lists, whatever the order of the lines
  and the comments of the keys.  A certificate is never accepted by either.
\<close>

theorem host_key_accepted_iff:
  "check_server_key S policy host port shown \<longleftrightarrow>
    (case policy of
       AcceptAny \<Rightarrow> True
     | Pinned pinned \<Rightarrow> (\<exists>key. shown = PublicKey key \<and> fingerprint_sha256 S key = Some pinned)
     | KnownHosts path \<Rightarrow>
         (\<exists>key contents. shown = PublicKey key \<and> read_file S path = Inr contents
            \<and> lists_key S (known_hosts_lookup_name host port) key None (entries_of S contents)
            \<and> \<not> lists_key S (known_hosts_lookup_name host port) key (Some Revoked) (entries_of S contents)))"
proof (cases shown)
  case (Certificate key_id)
  then show ?thesis by (simp split: host_key_policy.split)
next
  case (PublicKey key)
  then show ?thesis
    by (auto simp: verify_host_key_def verify_against_known_hosts_def known_hosts_verdict_of_def
        verdict_loop_eq entries_of_def constant_time_eq_iff Let_def ok_or_def rbind_def
        split: host_key_policy.split option.splits sum.splits if_splits)
qed

section \<open>The notations of an address\<close>

lemma to_digit_dec_iff: "to_digit 10 c = (if 48 \<le> c \<and> c \<le> 57 then Some (c - 48) else None)"
  by (auto simp: to_digit_def Let_def)

lemma show_nat_dec: "c \<in> set (show_nat n) \<Longrightarrow> to_digit 10 c \<noteq> None"
  by (auto simp: to_digit_dec_iff dest: show_nat_digits)

lemma show_nat_start: "0 < n \<Longrightarrow> hd (show_nat n) \<noteq> 48"
proof (induction n rule: show_nat.induct)
  case (1 n)
  then show ?case by (cases "n < 10") (simp_all add: show_nat.simps [of n])
qed

lemma show_nat_length: "n < 10 ^ Suc k \<Longrightarrow> length (show_nat n) \<le> Suc k"
proof (induction k arbitrary: n)
  case (Suc k)
  then have "n div 10 < 10 ^ Suc k" by simp
  from Suc.IH [OF this] show ?case by (simp add: show_nat.simps [of n])
qed (simp add: show_nat.simps)

lemma digits_value_append: "digits_value r (ds @ [c]) = digits_value r ds * r + the (to_digit r c)"
  by (simp add: digits_value_def)

lemma digits_value_show_nat: "digits_value 10 (show_nat n) = n"
proof (induction n rule: show_nat.induct)
  case (1 n)
  show ?case
  proof (cases "n < 10")
    case True
    then show ?thesis by (simp add: show_nat.simps [of n] digits_value_def to_digit_dec)
  next
    case False
    then show ?thesis using "1.IH" by (simp add: show_nat.simps [of n] digits_value_append to_digit_dec)
  qed
qed

lemma digit_prefix_show_nat:
  "rest = [] \<or> to_digit 10 (hd rest) = None \<Longrightarrow> digit_prefix 10 (show_nat n @ rest) = show_nat n"
  using show_nat_dec by (cases rest) (auto simp: digit_prefix_def takeWhile_append takeWhile_eq_all_conv)

lemma read_octet:
  assumes "octet < 256" "rest = [] \<or> to_digit 10 (hd rest) = None"
  shows "read_number 10 3 False 256 (show_nat octet @ rest) = Some (octet, rest)"
proof -
  have "length (show_nat octet) \<le> 3" using show_nat_length [of octet 2] assms(1) by simp
  moreover have "\<not> (hd (show_nat octet) = 48 \<and> length (show_nat octet) > 1)"
    using show_nat_start [of octet] by (cases "octet = 0") (auto simp: show_nat.simps [of 0])
  ultimately show ?thesis
    using assms by (simp add: read_number_def Let_def digit_prefix_show_nat [OF assms(2)] digits_value_show_nat)
qed

lemma dot_no_digit: "to_digit 10 46 = None"
  by (simp add: to_digit_def)

lemma read_octets_show:
  "\<forall>x\<in>set os. x < 256 \<Longrightarrow>
     read_octets i (length os) ((if i = 0 \<or> os = [] then [] else [46]) @ join_str [46] (map show_nat os)) = Some (os, [])"
proof (induction os arbitrary: i)
  case (Cons x os)
  let ?rest = "(if os = [] then [] else [46]) @ join_str [46] (map show_nat os)"
  have join: "join_str [46] (map show_nat (x # os)) = show_nat x @ ?rest" by (cases os) simp_all
  have "?rest = [] \<or> to_digit 10 (hd ?rest) = None" by (cases os) (simp_all add: dot_no_digit)
  then have "read_number 10 3 False 256 (show_nat x @ ?rest) = Some (x, ?rest)"
    using Cons.prems by (intro read_octet) auto
  moreover have "read_octets (Suc i) (length os) ?rest = Some (os, [])"
    using Cons.IH [of "Suc i"] Cons.prems by (cases os) simp_all
  ultimately show ?case
    unfolding join by (cases "i = 0") (auto simp: read_separator_def read_char_def)
qed simp

lemma read_show_ipv4:
  assumes "os = [a, b, c, d]" "\<forall>x\<in>set os. x < 256"
  shows "read_ipv4 (join_str [46] (map show_nat os)) = Some (os, [])"
  using read_octets_show [OF assms(2), of 0] assms(1)
  by (simp add: read_ipv4_def numeral_2_eq_2 [symmetric] del: read_octets.simps join_str.simps list.map)

lemma octets_of_facts: "\<forall>x\<in>set (octets_of w). x < 256" "\<exists>a b c d. octets_of w = [a, b, c, d]"
  by (auto simp: octets_of_def)

lemma octets_sum:
  assumes "n < (2 :: nat) ^ 32"
  shows "((n div 2 ^ 24 mod 256 * 256 + n div 2 ^ 16 mod 256) * 256 + n div 2 ^ 8 mod 256) * 256 + n mod 256 = n"
proof -
  have split: "m div 256 * 256 + m mod 256 = m" for m :: nat by (rule div_mult_mod_eq)
  have up: "n div 2 ^ 16 div 256 = n div 2 ^ 24" "n div 2 ^ 8 div 256 = n div 2 ^ 16" "n div 256 = n div 2 ^ 8"
    by (simp_all add: div_mult2_eq [symmetric])
  have top: "n div 2 ^ 24 mod 256 = n div 2 ^ 24" using assms by (simp add: less_mult_imp_div_less)
  show ?thesis
    unfolding top using split [of "n div 2 ^ 16"] split [of "n div 2 ^ 8"] split [of n] unfolding up by argo
qed

lemma ipv4_of_four: "ipv4_of_octets [a, b, c, d] = of_nat (((a * 256 + b) * 256 + c) * 256 + d)"
  by (simp add: ipv4_of_octets_def)

lemma ipv4_of_octets_of: "ipv4_of_octets (octets_of w) = w"
proof -
  have "unat w < 2 ^ 32" using unsigned_less [of w] by simp
  then show ?thesis unfolding octets_of_def ipv4_of_four by (subst octets_sum) simp_all
qed

lemma parse_show_ipv4: "parse_ip (show_ipv4 w) = Some (V4 w)"
proof -
  obtain a b c d where "octets_of w = [a, b, c, d]" using octets_of_facts(2) by blast
  from read_show_ipv4 [OF this octets_of_facts(1)] show ?thesis
    by (simp add: parse_ip_def show_ipv4_def ipv4_of_octets_of)
qed

text \<open>Text with fewer than three dots and no colon is no address for the standard parser.\<close>

definition dots :: "ustr \<Rightarrow> nat" where
  "dots s = length (filter (\<lambda>c. c = 46) s)"

lemma dots_drop: "dots (drop k s) \<le> dots s"
proof -
  have "dots s = dots (take k s) + dots (drop k s)"
    unfolding dots_def by (metis append_take_drop_id filter_append length_append)
  then show ?thesis by simp
qed

lemma read_number_dots: "read_number r limit zp b s = Some (v, rest) \<Longrightarrow> dots rest \<le> dots s \<and> set rest \<subseteq> set s"
  using dots_drop [of "length (digit_prefix r s)" s] set_drop_subset [of "length (digit_prefix r s)" s]
  by (auto simp: read_number_def Let_def split: if_splits)

lemma read_octets_dots: "0 < i \<Longrightarrow> read_octets i n s = Some (os, rest) \<Longrightarrow> n + dots rest \<le> dots s"
proof (induction i n s arbitrary: os rest rule: read_octets.induct)
  case (2 i n s)
  then obtain octet s1 where r: "read_separator 46 i (read_number 10 3 False 256) s = Some (octet, s1)"
    "\<exists>os'. read_octets (Suc i) n s1 = Some (os', rest)"
    by (auto split: bind_splits)
  then obtain s2 where s: "s = 46 # s2" "read_number 10 3 False 256 s2 = Some (octet, s1)"
    using 2(2) by (auto simp: read_separator_def read_char_def split: list.splits if_splits bind_splits)
  then have "dots s1 < dots s" using read_number_dots [OF s(2)] by (simp add: dots_def)
  moreover have "n + dots rest \<le> dots s1" using "2.IH" r by force
  ultimately show ?case by simp
qed (simp add: dots_def)

lemma read_ipv4_none: "dots s < 3 \<Longrightarrow> read_ipv4 s = None"
proof (rule ccontr)
  assume few: "dots s < 3" and "read_ipv4 s \<noteq> None"
  then obtain os rest where "read_octets 0 4 s = Some (os, rest)" by (auto simp: read_ipv4_def)
  then obtain octet s1 os' where "read_number 10 3 False 256 s = Some (octet, s1)" "read_octets 1 3 s1 = Some (os', rest)"
    using read_octets.simps(2) [of 0 3 s] by (auto simp: read_separator_def split: bind_splits)
  from read_number_dots [OF this(1)] read_octets_dots [OF _ this(2)] few show False by simp
qed

lemma read_separator_none: "0 < i \<Longrightarrow> sep \<notin> set s \<Longrightarrow> read_separator sep i f s = None"
  by (cases s) (auto simp: read_separator_def read_char_def)

lemma read_groups_none: "0 < i \<Longrightarrow> 58 \<notin> set s \<Longrightarrow> read_groups limit i n s = ([], False, s)"
  by (cases n) (simp_all add: read_separator_none)

lemma parse_ip_none:
  assumes "dots s < 3" "58 \<notin> set s"
  shows "parse_ip s = None"
proof -
  have no_colon: "read_char 58 t = None" if "58 \<notin> set t" for t
    using that by (cases t) (auto simp: read_char_def)
  have groups: "read_groups 8 0 8 s =
      (case read_number 16 4 True 65536 s of
         None \<Rightarrow> ([], False, s)
       | Some (g, rest) \<Rightarrow> (case read_groups 8 (Suc 0) 7 rest of (gs, v4, rest) \<Rightarrow> (g # gs, v4, rest)))"
    using read_groups.simps(2) [of 8 0 7 s] read_ipv4_none [OF assms(1)] by (simp add: read_separator_def)
  obtain head rest where g: "read_groups 8 0 8 s = (head, False, rest)" "58 \<notin> set rest" "length head \<le> 1"
  proof (cases "read_number 16 4 True 65536 s")
    case None
    with that assms(2) groups show ?thesis by simp
  next
    case (Some r)
    obtain v t where r: "r = (v, t)" by fastforce
    have t: "58 \<notin> set t" using read_number_dots [OF Some [unfolded r]] assms(2) by blast
    with that groups Some r read_groups_none [of "Suc 0" t 8 7] show ?thesis by simp
  qed
  then have "read_ipv6 s = None" using no_colon by (simp add: read_ipv6_def)
  then show ?thesis using read_ipv4_none [OF assms(1)] by (simp add: parse_ip_def)
qed

section \<open>Numbers with and without dots\<close>

lemma split_char_none: "sep \<notin> set s \<Longrightarrow> split_char sep s = [s]"
  by (induction s) auto

lemma split_char_append: "sep \<notin> set a \<Longrightarrow> split_char sep (a @ sep # b) = a # split_char sep b"
  by (induction a) auto

lemma inet_part_show_nat:
  assumes "n < 2 ^ 32"
  shows "inet_part (show_nat n) = Some (of_nat n)"
proof -
  have "digits_and_radix (show_nat n) = (show_nat n, 10)"
  proof (cases "n = 0")
    case True
    then show ?thesis by (simp add: digits_and_radix_def strip_prefix_ci_def show_nat.simps [of 0])
  next
    case False
    then show ?thesis using show_nat_start [of n]
      by (cases "show_nat n") (auto simp: digits_and_radix_def strip_prefix_ci_def split: list.split)
  qed
  moreover have "from_str_radix 10 0 (2 ^ 32 - 1) (show_nat n) = Inr (int n)"
    using assms by (intro from_str_radix_show_nat) simp
  moreover have "\<not> (\<exists>c\<in>set (show_nat n). to_digit 10 c = None)" using show_nat_dec by blast
  ultimately show ?thesis by (simp add: inet_part_def)
qed

lemma hex_digit_lower: "d < 16 \<Longrightarrow> to_digit 16 (hex_digit_lower d) = Some d"
  by (auto simp: to_digit_def hex_digit_lower_def)

lemma parse_pos_show_hex: "int n \<le> hi \<Longrightarrow> parse_pos 16 hi 0 (show_hex n) = Inr (int n)"
proof (induction n rule: show_hex.induct)
  case (1 n)
  show ?case
  proof (cases "n < 16")
    case True
    with "1.prems" show ?thesis by (simp add: show_hex.simps [of n] hex_digit_lower)
  next
    case False
    have "int (n div 16) \<le> hi" using "1.prems" by linarith
    then have "parse_pos 16 hi 0 (show_hex (n div 16)) = Inr (int (n div 16))"
      using "1.IH" [OF False] by blast
    moreover have "int (n div 16) * 16 + int (n mod 16) = int n" by (simp add: zdiv_int zmod_int)
    ultimately show ?thesis using False "1.prems"
      by (simp add: show_hex.simps [of n] parse_pos_append hex_digit_lower)
  qed
qed

lemma show_hex_neq_Nil [simp]: "show_hex n \<noteq> []"
  by (subst show_hex.simps) simp

lemma show_hex_digit: "c \<in> set (show_hex n) \<Longrightarrow> to_digit 16 c \<noteq> None"
  using show_hex_chars [of c n] by (auto simp: to_digit_def Let_def)

lemma inet_part_show_hex:
  assumes "n < 2 ^ 32"
  shows "inet_part ([48, 0x78] @ show_hex n) = Some (of_nat n)"
proof -
  obtain c cs where h: "show_hex n = c # cs" by (cases "show_hex n") auto
  have "48 \<le> c" using show_hex_chars [of c n] h by auto
  then have "from_str_radix 16 0 (2 ^ 32 - 1) (show_hex n) = Inr (int n)"
    using parse_pos_show_hex [of n "2 ^ 32 - 1"] assms h by (auto simp: from_str_radix_def)
  moreover have "digits_and_radix ([48, 0x78] @ show_hex n) = (show_hex n, 16)"
    by (simp add: digits_and_radix_def strip_prefix_ci_def)
  moreover have "\<not> (\<exists>c\<in>set (show_hex n). to_digit 16 c = None)" using show_hex_digit by blast
  ultimately show ?thesis by (simp add: inet_part_def)
qed

lemma inet_aton_one:
  assumes "46 \<notin> set s" "inet_part s = Some w"
  shows "parse_inet_aton s = Some w"
  using assms by (simp add: parse_inet_aton_def split_char_none)

lemma or_disjoint:
  fixes a b :: nat
  assumes "a < 256" "b < 2 ^ 24"
  shows "or (push_bit 24 (of_nat a)) (of_nat b) = (of_nat (a * 2 ^ 24 + b) :: u32)"
proof -
  have low: "\<not> bit b n" if "24 \<le> n" for n
  proof -
    have "b < 2 ^ n" using assms(2) that by (meson less_le_trans one_le_numeral power_increasing)
    then show ?thesis by (simp add: bit_iff_odd)
  qed
  have "or (push_bit 24 a) b = push_bit 24 a + b"
    by (rule disjunctive_add [symmetric]) (use low in \<open>auto simp: bit_push_bit_iff not_le\<close>)
  then have "of_nat (or (push_bit 24 a) b) = (of_nat (a * 2 ^ 24 + b) :: u32)" by (simp add: push_bit_eq_mult)
  then show ?thesis by (simp add: of_nat_or_eq push_bit_of_nat)
qed

lemma inet_aton_two:
  assumes "a < 256" "b < 2 ^ 24"
  shows "parse_inet_aton (show_nat a @ 46 # show_nat b) = Some (of_nat (a * 2 ^ 24 + b))"
proof -
  have no_dot: "46 \<notin> set (show_nat n)" for n using show_nat_digits [of 46 n] by auto
  have "a < 2 ^ 32" "b < 2 ^ 32" using assms by simp_all
  then have "inet_parts 0 (split_char 46 (show_nat a @ 46 # show_nat b)) = Some [of_nat a, of_nat b]"
    using no_dot by (simp add: split_char_append split_char_none inet_part_show_nat)
  moreover have "\<not> (of_nat a :: u32) > 0xFF"
  proof -
    have "take_bit 32 a = a" using assms(1) by (intro take_bit_nat_eq_self) simp
    then have "unat (of_nat a :: u32) = a" by (simp add: unsigned_of_nat)
    then show ?thesis using assms(1) by (simp add: word_less_nat_alt)
  qed
  moreover have "drop_bit 24 (of_nat b) = (0 :: u32)"
  proof -
    have "take_bit 32 b = b" using assms(2) by (intro take_bit_nat_eq_self) simp
    then have "unat (of_nat b :: u32) = b" by (simp add: unsigned_of_nat)
    then have "unat (drop_bit 24 (of_nat b :: u32)) = 0"
      using assms(2) by (simp add: drop_bit_eq_div unat_div_distrib)
    then show ?thesis by (simp add: unat_eq_0)
  qed
  ultimately show ?thesis
    using or_disjoint [OF assms] by (simp add: parse_inet_aton_def Let_def or.commute)
qed

text \<open>A name for an address is the address, whatever its notation.\<close>

lemma canonical_by_inet_aton:
  assumes "parse_inet_aton s = Some w" "dots s < 3" "58 \<notin> set s" "s \<noteq> []" "hd s \<noteq> 0x5B"
  shows "canonical_host s = show_ipv4 w"
  using assms parse_ip_none [OF assms(2,3)] by (simp add: canonical_host_def strip_brackets_def)

lemma show_nat_plain: "dots (show_nat n) = 0" "58 \<notin> set (show_nat n)" "hd (show_nat n) \<noteq> 0x5B"
  using show_nat_digits [of 58 n] show_nat_digits [of "hd (show_nat n)" n] show_nat_digits [of 46 n]
  by (auto simp: dots_def filter_empty_conv)

lemma show_hex_plain: "dots (show_hex n) = 0" "58 \<notin> set (show_hex n)" "46 \<notin> set (show_hex n)"
  using show_hex_chars [of 58 n] show_hex_chars [of 46 n] by (auto simp: dots_def filter_empty_conv)

lemma show_ipv4_start: "hd (show_ipv4 w) \<noteq> 0x5B \<and> show_ipv4 w \<noteq> []"
proof -
  obtain a b c d where "octets_of w = [a, b, c, d]" using octets_of_facts(2) by blast
  then show ?thesis using show_nat_plain(3) [of a] by (simp add: show_ipv4_def)
qed

text \<open>
  An IPv4 address is looked up under one name whatever its notation: as a single decimal or
  hexadecimal number, as its first byte and the other three in one number, and in dotted form with
  or without brackets.  A line, a revocation above all, that names the address applies to all of them.
\<close>

lemma address_notations_are_one_name:
  "map (\<lambda>host. known_hosts_lookup_name host port)
     [show_nat (unat w), [48, 0x78] @ show_hex (unat w),
      show_nat (unat w div 2 ^ 24) @ 46 # show_nat (unat w mod 2 ^ 24),
      show_ipv4 w, [0x5B] @ show_ipv4 w @ [0x5D]]
   = replicate 5 (if port = 22 then show_ipv4 w else [0x5B] @ show_ipv4 w @ [0x5D, 0x3A] @ show_nat (unat port))"
proof -
  have w: "unat w < 2 ^ 32" using unsigned_less [of w] by simp
  have five: "5 = Suc (Suc (Suc (Suc (Suc 0))))" by simp
  have one: "canonical_host (show_nat (unat w)) = show_ipv4 w"
    using inet_aton_one [OF _ inet_part_show_nat [OF w]] show_nat_plain [of "unat w"] show_nat_digits [of 46 "unat w"]
    by (intro canonical_by_inet_aton) auto
  have hex: "canonical_host ([48, 0x78] @ show_hex (unat w)) = show_ipv4 w"
    using inet_aton_one [OF _ inet_part_show_hex [OF w]] show_hex_plain [of "unat w"]
    by (intro canonical_by_inet_aton) (auto simp: dots_def)
  let ?a = "unat w div 2 ^ 24" and ?b = "unat w mod 2 ^ 24"
  have "parse_inet_aton (show_nat ?a @ 46 # show_nat ?b) = Some (of_nat (?a * 2 ^ 24 + ?b))"
    using w by (intro inet_aton_two) (simp_all add: less_mult_imp_div_less)
  also have "?a * 2 ^ 24 + ?b = unat w" by (rule div_mult_mod_eq)
  finally have two: "canonical_host (show_nat ?a @ 46 # show_nat ?b) = show_ipv4 w"
    using show_nat_plain by (intro canonical_by_inet_aton) (auto simp: dots_def)
  have dotted: "canonical_host (show_ipv4 w) = show_ipv4 w" "canonical_host ([0x5B] @ show_ipv4 w @ [0x5D]) = show_ipv4 w"
    using show_ipv4_start [of w] by (simp_all add: canonical_host_def strip_brackets_def parse_show_ipv4)
  show ?thesis
    using one hex two dotted
    by (simp only: known_hosts_lookup_name_def list.map Let_def five replicate.simps) simp
qed

end
