(* ===== verification/Ssh.thy ===== *)
theory Ssh
  imports Known_Hosts Remote_Pools
begin

text \<open>
  The SSH transport (\<open>src/src/ssh.rs\<close>): its configuration, the handshake from the check of the host
  name to the reply of the subsystem, the channel as the pipe of an OutOfProc session, and closing.

  The SSH connection itself is the library \<open>russh\<close>: a record of the calls the code makes, over a
  connection \<open>'h\<close>.  A call gives \<open>None\<close> when it is still pending, with the connection as it is then;
  whoever waits for it is dropped, or the timer he waits under has expired (\<open>rs_expired\<close>).
\<close>

section \<open>Configuration\<close>

text \<open>Durations in nanoseconds.\<close>

type_synonym duration = nat

definition from_secs :: "nat \<Rightarrow> duration" where "from_secs s = s * 10 ^ 9"

definition ACK_TIMEOUT :: duration where "ACK_TIMEOUT = from_secs 60"

datatype ssh_auth = Password ustr | PrivateKey ustr "ustr option" | Agent

record ssh_config =
  ssh_host :: ustr
  ssh_port :: u16
  username :: ustr
  auth :: ssh_auth
  subsystem :: ustr
  connect_timeout :: duration
  ack_timeout :: duration
  policy_of :: host_key_policy

text \<open>\<open>PathBuf::push\<close> of a relative path, and the default policy for a value of \<open>HOME\<close>.\<close>

definition path_push :: "ustr \<Rightarrow> ustr \<Rightarrow> ustr" where
  "path_push path part = path @ (if path = [] \<or> last path = 47 then [] else [47]) @ part"

definition default_policy :: "ustr option \<Rightarrow> host_key_policy" where
  "default_policy home = KnownHosts (path_push (case home of Some h \<Rightarrow> h | None \<Rightarrow> []) (lit ''.ssh/known_hosts''))"

definition ssh_config_default :: "ustr option \<Rightarrow> ssh_config" where
  "ssh_config_default home =
     \<lparr>ssh_host = [], ssh_port = 22, username = [], auth = Agent, subsystem = lit ''powershell'',
      connect_timeout = from_secs 30, ack_timeout = ACK_TIMEOUT, policy_of = default_policy home\<rparr>"

definition ssh_config_new :: "ustr option \<Rightarrow> ustr \<Rightarrow> ustr \<Rightarrow> ssh_auth \<Rightarrow> ssh_config" where
  "ssh_config_new home h user a =
     (ssh_config_default home)\<lparr>ssh_host := h, username := user, auth := a\<rparr>"

definition with_port :: "u16 \<Rightarrow> ssh_config \<Rightarrow> ssh_config" where
  "with_port p c = c\<lparr>ssh_port := p\<rparr>"

definition with_subsystem :: "ustr \<Rightarrow> ssh_config \<Rightarrow> ssh_config" where
  "with_subsystem s c = c\<lparr>subsystem := s\<rparr>"

definition with_connect_timeout :: "duration \<Rightarrow> ssh_config \<Rightarrow> ssh_config" where
  "with_connect_timeout t c = c\<lparr>connect_timeout := t\<rparr>"

definition with_ack_timeout :: "duration \<Rightarrow> ssh_config \<Rightarrow> ssh_config" where
  "with_ack_timeout t c = c\<lparr>ack_timeout := t\<rparr>"

definition with_host_key_policy :: "host_key_policy \<Rightarrow> ssh_config \<Rightarrow> ssh_config" where
  "with_host_key_policy p c = c\<lparr>policy_of := p\<rparr>"

text \<open>The \<open>Debug\<close> text of an authentication method, given that of a path.\<close>

fun show_auth :: "(ustr \<Rightarrow> ustr) \<Rightarrow> ssh_auth \<Rightarrow> ustr" where
  "show_auth path_text (Password p) = lit ''Password('' @ [34] @ lit ''<redacted>'' @ [34] @ lit '')''"
| "show_auth path_text (PrivateKey path passphrase) =
     lit ''PrivateKey { path: '' @ path_text path @ lit '', passphrase: ''
     @ (case passphrase of
          None \<Rightarrow> lit ''None''
        | Some p \<Rightarrow> lit ''Some('' @ [34] @ lit ''<redacted>'' @ [34] @ lit '')'')
     @ lit '' }''"
| "show_auth path_text Agent = lit ''Agent''"

section \<open>The connection\<close>

text \<open>The messages of a channel, as far as the code tells them apart.\<close>

datatype channel_msg =
  ChData bytes | ChExtendedData bytes u32 | ChExitStatus u32 | ChEof | ChClose | ChSuccess | ChFailure | ChOther

record 'h russh =
  rs_connect :: "ustr \<Rightarrow> (server_key \<Rightarrow> bool) \<Rightarrow> 'h \<Rightarrow> 'h \<times> (ustr + unit) option"
  rs_password :: "ustr \<Rightarrow> ustr \<Rightarrow> 'h \<Rightarrow> 'h \<times> (ustr + bool) option"
  rs_load_key :: "ustr \<Rightarrow> ustr option \<Rightarrow> ustr + bytes"
  rs_publickey :: "ustr \<Rightarrow> bytes \<Rightarrow> 'h \<Rightarrow> 'h \<times> (ustr + bool) option"
  rs_open_channel :: "'h \<Rightarrow> 'h \<times> (ustr + unit) option"
  rs_subsystem :: "ustr \<Rightarrow> 'h \<Rightarrow> 'h \<times> (ustr + unit) option"
  rs_wait :: "'h \<Rightarrow> 'h \<times> channel_msg option option"
  rs_data :: "bytes \<Rightarrow> 'h \<Rightarrow> 'h \<times> (ustr + unit) option"
  rs_eof :: "'h \<Rightarrow> 'h \<times> (ustr + unit) option"
  rs_close :: "'h \<Rightarrow> 'h \<times> (ustr + unit) option"
  rs_disconnect :: "'h \<Rightarrow> 'h \<times> (ustr + unit) option"
  rs_expired :: "duration \<Rightarrow> 'h \<Rightarrow> bool"

text \<open>\<open>map_err\<close> into a protocol error, a timer around a call, and \<open>let _ =\<close>.\<close>

definition err_as :: "string \<Rightarrow> 'h \<times> (ustr + 'a) option \<Rightarrow> 'h \<times> 'a res option" where
  "err_as what r = map_prod id (map_option (map_sum (\<lambda>e. protocol (lit what @ e)) id)) r"

definition within :: "'h russh \<Rightarrow> duration \<Rightarrow> psrp_error \<Rightarrow> 'h \<times> 'a res option \<Rightarrow> 'h \<times> 'a res option" where
  "within R d late r =
     (case r of
        (h, None) \<Rightarrow> if rs_expired R d h then (h, Some (Inl late)) else (h, None)
      | (h, Some x) \<Rightarrow> (h, Some x))"

definition ignored :: "'h \<times> (ustr + 'a) option \<Rightarrow> 'h \<times> unit res option" where
  "ignored r = map_prod id (map_option (\<lambda>_. Inr ())) r"

section \<open>Connecting\<close>

definition MAX_PRE_REPLY_BYTES :: nat where "MAX_PRE_REPLY_BYTES = MAX_LINE_BYTES"

definition append_pre_reply_output :: "(uchar \<Rightarrow> bool) \<Rightarrow> bytes \<Rightarrow> bytes \<Rightarrow> bytes res" where
  "append_pre_reply_output hid pending data =
     (if usize_add (length pending) (length data) > MAX_PRE_REPLY_BYTES
      then Inl (protocol (lit ''SSH server sent unexpected output before the subsystem replied (over ''
        @ show_nat MAX_PRE_REPLY_BYTES @ lit '' bytes): '' @ quote_bytes hid (take 1024 (pending @ data))))
      else Inr (pending @ data))"

text \<open>Waiting for the reply of the subsystem, with a bound on the messages read.\<close>

fun await_subsystem ::
    "'h russh \<Rightarrow> (uchar \<Rightarrow> bool) \<Rightarrow> ustr \<Rightarrow> nat \<Rightarrow> bytes \<Rightarrow> 'h \<Rightarrow> 'h \<times> bytes res option" where
  "await_subsystem R hid name 0 pending h = (h, None)"
| "await_subsystem R hid name (Suc f) pending h =
     (case rs_wait R h of
        (h, None) \<Rightarrow> (h, None)
      | (h, Some msg) \<Rightarrow>
          (case msg of
             Some ChSuccess \<Rightarrow> (h, Some (Inr pending))
           | Some ChFailure \<Rightarrow>
               (h, Some (Inl (protocol (lit ''SSH server refused the '' @ [0x27] @ name @ [0x27] @ lit '' subsystem''))))
           | Some (ChData data) \<Rightarrow>
               (case append_pre_reply_output hid pending data of
                  Inl e \<Rightarrow> (h, Some (Inl e))
                | Inr pending \<Rightarrow> await_subsystem R hid name f pending h)
           | Some ChEof \<Rightarrow> (h, Some (Inl (protocol (lit ''SSH channel closed before the subsystem started''))))
           | Some ChClose \<Rightarrow> (h, Some (Inl (protocol (lit ''SSH channel closed before the subsystem started''))))
           | None \<Rightarrow> (h, Some (Inl (protocol (lit ''SSH channel closed before the subsystem started''))))
           | Some _ \<Rightarrow> await_subsystem R hid name f pending h))"

fun authenticate :: "'h russh \<Rightarrow> ustr \<Rightarrow> ssh_auth \<Rightarrow> 'h \<Rightarrow> 'h \<times> bool res option" where
  "authenticate R user (Password pw) h = err_as ''SSH password auth: '' (rs_password R user pw h)"
| "authenticate R user (PrivateKey path passphrase) h =
     (case rs_load_key R path passphrase of
        Inl e \<Rightarrow> (h, Some (Inl (protocol (lit ''SSH key load: '' @ e))))
      | Inr key \<Rightarrow> err_as ''SSH pubkey auth: '' (rs_publickey R user key h))"
| "authenticate R user Agent h =
     (h, Some (Inl (protocol (lit ''SSH agent auth not yet implemented '' @ [0x2014] @ lit '' use Password or PrivateKey''))))"

text \<open>The pipe: the channel, and what was read of it before the session took over.\<close>

record 'h russh_pipe =
  conn :: 'h
  pre_reply :: bytes
  exit_status :: "u32 option"

record 'h ssh_transport =
  ssh_inner :: "'h russh_pipe session"
  ssh_closed :: bool

definition invalid_host :: psrp_error where
  "invalid_host = protocol (lit ''invalid SSH host: empty, starting with '' @ [0x27, 45, 0x27]
     @ lit '', or holding whitespace, a control character or one of '' @ [0x27, 0x60, 0x22, 0x24, 0x5C]
     @ lit '';&<>|(){},'')"

definition zero_ack_timeout :: psrp_error where
  "zero_ack_timeout = protocol (lit ''invalid SSH config: ack_timeout must not be zero'')"

definition site :: "ssh_config \<Rightarrow> ustr" where
  "site c = ssh_host c @ lit '':'' @ show_nat (unat (ssh_port c))"

text \<open>The connection with its key exchange: the check of the host key is the caller's.\<close>

definition reach :: "'h russh \<Rightarrow> ssh_env \<Rightarrow> ssh_config \<Rightarrow> 'h \<Rightarrow> 'h \<times> unit res option" where
  "reach R S c h =
     within R (connect_timeout c) (protocol (lit ''SSH connect timeout to '' @ site c))
       (err_as ''SSH connect: ''
          (rs_connect R (site c) (check_server_key S (policy_of c) (ssh_host c) (ssh_port c)) h))"

definition log_in :: "'h russh \<Rightarrow> ssh_config \<Rightarrow> 'h \<Rightarrow> 'h \<times> unit res option" where
  "log_in R c h = obind (authenticate R (username c) (auth c) h) (\<lambda>success h.
     if success then (h, Some (Inr ())) else (h, Some (Inl (protocol (lit ''SSH authentication failed'')))))"

definition open_subsystem :: "'h russh \<Rightarrow> (uchar \<Rightarrow> bool) \<Rightarrow> nat \<Rightarrow> ssh_config \<Rightarrow> 'h \<Rightarrow> 'h \<times> bytes res option" where
  "open_subsystem R hid f c h =
     obind (err_as ''SSH channel open: '' (rs_open_channel R h)) (\<lambda>_ h.
     obind (err_as ''SSH subsystem request: '' (rs_subsystem R (subsystem c) h)) (\<lambda>_ h.
       within R (connect_timeout c) (protocol (lit ''SSH subsystem request timed out''))
         (await_subsystem R hid (subsystem c) f [] h)))"

definition transport_over :: "'h \<Rightarrow> bytes \<Rightarrow> 'h ssh_transport" where
  "transport_over h pending =
     \<lparr>ssh_inner = session_new \<lparr>conn = h, pre_reply = pending, exit_status = None\<rparr>, ssh_closed = False\<rparr>"

definition ssh_connect ::
    "'h russh \<Rightarrow> ssh_env \<Rightarrow> (uchar \<Rightarrow> bool) \<Rightarrow> nat \<Rightarrow> ssh_config \<Rightarrow> 'h \<Rightarrow> 'h \<times> 'h ssh_transport res option" where
  "ssh_connect R S hid f c h =
     (if \<not> valid_ssh_host (ssh_host c) then (h, Some (Inl invalid_host))
      else if ack_timeout c = 0 then (h, Some (Inl zero_ack_timeout))
      else obind (reach R S c h) (\<lambda>_ h. obind (log_in R c h) (\<lambda>_ h. obind (open_subsystem R hid f c h) (\<lambda>pending h.
        (h, Some (Inr (transport_over h pending)))))))"

section \<open>The pipe\<close>

definition LOGGED_REMOTE_CHARS :: nat where "LOGGED_REMOTE_CHARS = 1024"

definition stderr_log_text :: "bytes \<Rightarrow> ustr" where
  "stderr_log_text data =
     escape_remote_text (from_utf8_lossy (take ((LOGGED_REMOTE_CHARS + 1) * 4) data)) LOGGED_REMOTE_CHARS"

definition pipe_ended :: "u32 option \<Rightarrow> psrp_error" where
  "pipe_ended status = protocol (lit ''PowerShell closed the SSH channel''
     @ (case status of None \<Rightarrow> [] | Some st \<Rightarrow> lit '' (exit status '' @ show_nat (unat st) @ lit '')''))"

definition russh_write :: "'h russh \<Rightarrow> bytes \<Rightarrow> 'h russh_pipe \<Rightarrow> 'h russh_pipe \<times> unit res option" where
  "russh_write R bs p =
     (case err_as ''SSH send: '' (rs_data R bs (conn p)) of (h, r) \<Rightarrow> (p\<lparr>conn := h\<rparr>, r))"

text \<open>The next stdout of the channel; the bound is on the messages that are no stdout.\<close>

fun read_stdout :: "'h russh \<Rightarrow> nat \<Rightarrow> 'h russh_pipe \<Rightarrow> 'h russh_pipe \<times> bytes res option" where
  "read_stdout R 0 p = (p, None)"
| "read_stdout R (Suc f) p =
     (case rs_wait R (conn p) of
        (h, None) \<Rightarrow> (p\<lparr>conn := h\<rparr>, None)
      | (h, Some msg) \<Rightarrow>
          (let p = p\<lparr>conn := h\<rparr> in
           case msg of
             Some (ChData data) \<Rightarrow> if data \<noteq> [] then (p, Some (Inr data)) else read_stdout R f p
           | Some (ChExitStatus st) \<Rightarrow> read_stdout R f (p\<lparr>exit_status := Some st\<rparr>)
           | Some ChEof \<Rightarrow> (p, Some (Inl (pipe_ended (exit_status p))))
           | Some ChClose \<Rightarrow> (p, Some (Inl (pipe_ended (exit_status p))))
           | None \<Rightarrow> (p, Some (Inl (pipe_ended (exit_status p))))
           | Some _ \<Rightarrow> read_stdout R f p))"

definition russh_read :: "'h russh \<Rightarrow> nat \<Rightarrow> 'h russh_pipe \<Rightarrow> 'h russh_pipe \<times> bytes res option" where
  "russh_read R f p =
     (if pre_reply p \<noteq> [] then (p\<lparr>pre_reply := []\<rparr>, Some (Inr (pre_reply p))) else read_stdout R f p)"

definition shutdown :: "'h russh \<Rightarrow> 'h \<Rightarrow> 'h \<times> unit res option" where
  "shutdown R h = obind (ignored (rs_eof R h)) (\<lambda>_ h. ignored (rs_close R h))"

section \<open>The transport\<close>

text \<open>The session of a configuration: it waits for an acknowledgement as long as the configuration says.\<close>

text \<open>
  A duration as the timeout messages of the session print it; \<open>fixed3\<close> formats the seconds as a
  float with three decimals.
\<close>

definition describe_duration :: "(duration \<Rightarrow> ustr) \<Rightarrow> duration \<Rightarrow> ustr" where
  "describe_duration fixed3 d =
     (if d mod 10 ^ 9 = 0 then show_nat (d div 10 ^ 9) @ lit '' s'' else fixed3 d @ lit '' s'')"

definition russh_pipe_env ::
    "'h russh \<Rightarrow> line_env \<Rightarrow> (duration \<Rightarrow> ustr) \<Rightarrow> nat \<Rightarrow> ssh_config \<Rightarrow> 'h russh_pipe pipe_env" where
  "russh_pipe_env R L fixed3 f c =
     \<lparr>line_codec = L, pipe_write = russh_write R, pipe_read = russh_read R f,
      elapses = (\<lambda>p. rs_expired R (ack_timeout c) (conn p)), timeout_text = describe_duration fixed3 (ack_timeout c)\<rparr>"

definition on_inner :: "('h russh_pipe session \<Rightarrow> 'h russh_pipe session \<times> 'a) \<Rightarrow> 'h ssh_transport \<Rightarrow> 'h ssh_transport \<times> 'a" where
  "on_inner f t = (case f (ssh_inner t) of (s, r) \<Rightarrow> (t\<lparr>ssh_inner := s\<rparr>, r))"

definition ssh_send_fragment ::
    "'h russh_pipe pipe_env \<Rightarrow> nat \<Rightarrow> bytes \<Rightarrow> 'h ssh_transport \<Rightarrow> 'h ssh_transport \<times> unit res option" where
  "ssh_send_fragment E f bs = on_inner (oop_send_fragment E f bs)"

definition ssh_send_pipeline_fragment ::
    "'h russh_pipe pipe_env \<Rightarrow> nat \<Rightarrow> bytes \<Rightarrow> uuid \<Rightarrow> 'h ssh_transport \<Rightarrow> 'h ssh_transport \<times> unit res option" where
  "ssh_send_pipeline_fragment E f bs g = on_inner (oop_send_pipeline_fragment E f bs g)"

definition ssh_recv_chunk ::
    "'h russh_pipe pipe_env \<Rightarrow> nat \<Rightarrow> 'h ssh_transport \<Rightarrow> 'h ssh_transport \<times> bytes res option" where
  "ssh_recv_chunk E f = on_inner (oop_recv_chunk E f)"

definition ssh_signal_stop ::
    "'h russh_pipe pipe_env \<Rightarrow> nat \<Rightarrow> 'h ssh_transport \<Rightarrow> 'h ssh_transport \<times> unit res option" where
  "ssh_signal_stop E f = on_inner (oop_signal_stop E f)"

definition ssh_execute_pipeline ::
    "'h russh_pipe pipe_env \<Rightarrow> nat \<Rightarrow> bytes \<Rightarrow> uuid \<Rightarrow> 'h ssh_transport \<Rightarrow> 'h ssh_transport \<times> unit res option" where
  "ssh_execute_pipeline E f bs g = on_inner (oop_execute_pipeline E f bs g)"

text \<open>Whatever closing the session says, the channel and the connection are torn down.\<close>

definition tear_down :: "'h russh \<Rightarrow> 'h \<Rightarrow> 'h \<times> unit res option" where
  "tear_down R h = obind (shutdown R h) (\<lambda>_ h. ignored (rs_disconnect R h))"

definition on_conn :: "('h \<Rightarrow> 'h \<times> 'a) \<Rightarrow> 'h ssh_transport \<Rightarrow> 'h ssh_transport \<times> 'a" where
  "on_conn f = on_inner (\<lambda>s. case f (conn (ses_pipe s)) of
     (h, r) \<Rightarrow> (s\<lparr>ses_pipe := (ses_pipe s)\<lparr>conn := h\<rparr>\<rparr>, r))"

definition ssh_close_shell ::
    "'h russh \<Rightarrow> 'h russh_pipe pipe_env \<Rightarrow> nat \<Rightarrow> 'h ssh_transport \<Rightarrow> 'h ssh_transport \<times> unit res option" where
  "ssh_close_shell R E f t =
     (if ssh_closed t then (t, Some (Inr ()))
      else
        case on_inner (session_close E f) (t\<lparr>ssh_closed := True\<rparr>) of
          (t, None) \<Rightarrow> (t, None)
        | (t, Some closing_result) \<Rightarrow>
            obind (on_conn (tear_down R) t) (\<lambda>_ t. (t, Some closing_result)))"

definition ssh_psrp_transport ::
    "'h russh \<Rightarrow> 'h russh_pipe pipe_env \<Rightarrow> nat \<Rightarrow> 'h ssh_transport transport" where
  "ssh_psrp_transport R E f =
     (with_defaults (\<lambda>bs t. returned (ssh_send_fragment E f bs t)) (ssh_recv_chunk E f)
        (\<lambda>t. returned (ssh_signal_stop E f t)) (\<lambda>t. returned (ssh_close_shell R E f t)))
     \<lparr>send_pipeline_fragment := (\<lambda>bs g t. returned (ssh_send_pipeline_fragment E f bs g t)),
      execute_pipeline := (\<lambda>bs g t. returned (ssh_execute_pipeline E f bs g t))\<rparr>"

end
