(* ===== verification/Pipe_Simulation.thy ===== *)
theory Pipe_Simulation
  imports Session_Steps
begin

text \<open>
  When one pipe behaves like another, so does the session over it: a relation between the states of
  two pipes that reading preserves (\<open>pipe_readers\<close>) carries over to what the session receives, and
  one that writing and the timer preserve as well (\<open>pipe_simulation\<close>) to all of its operations.
\<close>

section \<open>Sessions that differ in their pipes\<close>

definition same :: "('p \<Rightarrow> 'q \<Rightarrow> bool) \<Rightarrow> 'p session \<Rightarrow> 'q session \<Rightarrow> bool" where
  "same R s t \<longleftrightarrow> R (ses_pipe s) (ses_pipe t) \<and> ses_lines t = ses_lines s \<and> inbound t = inbound s
     \<and> inbound_bytes t = inbound_bytes s \<and> max_queued_bytes t = max_queued_bytes s
     \<and> awaiting t = awaiting s \<and> write_in_progress t = write_in_progress s
     \<and> payload_in_progress t = payload_in_progress s \<and> open_command t = open_command s \<and> broken t = broken s"

definition alike :: "('s \<Rightarrow> 't \<Rightarrow> bool) \<Rightarrow> 's \<times> 'a \<Rightarrow> 't \<times> 'a \<Rightarrow> bool" where
  "alike Q a b \<longleftrightarrow> Q (fst a) (fst b) \<and> snd b = snd a"

named_theorems simulation

lemma same_fields:
  assumes "same R s t"
  shows "R (ses_pipe s) (ses_pipe t)" "ses_lines t = ses_lines s" "inbound t = inbound s"
    "inbound_bytes t = inbound_bytes s" "max_queued_bytes t = max_queued_bytes s" "awaiting t = awaiting s"
    "write_in_progress t = write_in_progress s" "payload_in_progress t = payload_in_progress s"
    "open_command t = open_command s" "broken t = broken s"
  using assms by (simp_all add: same_def)

lemma same_new: "R p q \<Longrightarrow> same R (session_new p) (session_new q)"
  by (simp add: same_def session_new_def)

lemma alikeI [simulation]: "Q s t \<Longrightarrow> alike Q (s, x) (t, x)"
  by (simp add: alike_def)

lemma alikeE:
  assumes "alike Q a b" "a = (s, x)"
  obtains t where "b = (t, x)" "Q s t"
  using assms by (cases b) (auto simp: alike_def)

lemma alike_bind [simulation]:
  assumes "alike Q a b" "\<And>x s t. Q s t \<Longrightarrow> alike Q (f x s) (g x t)"
  shows "alike Q (obind a f) (obind b g)"
  using assms by (cases b; auto simp: obind_def alike_def split: prod.split option.split sum.split)

lemma alike_failing [simulation]: "same R s t \<Longrightarrow> alike (same R) (failing e s) (failing e t)"
  by (auto simp: failing_def fail_def alike_def same_def Let_def split: option.split)

lemma alike_usable [simulation]: "same R s t \<Longrightarrow> alike (same R) (usable s) (usable t)"
  by (auto simp: usable_def same_fields split: option.split intro!: simulation)

lemma alike_ready [simulation]: "same R s t \<Longrightarrow> alike (same R) (ready s) (ready t)"
  unfolding ready_def by (rule alike_bind) (auto simp: same_fields intro!: simulation)

lemma alike_enqueue [simulation]: "same R s t \<Longrightarrow> alike (same R) (enqueue payload s) (enqueue payload t)"
  by (auto simp: enqueue_def Let_def same_fields alike_def) (simp add: same_def)

lemma alike_on_line [simulation]: "same R s t \<Longrightarrow> alike (same R) (on_line L line s) (on_line L line t)"
  by (auto simp: on_line_def acknowledged_def same_def intro!: simulation split: sum.split option.split packet.split)

lemma alike_on_lines [simulation]: "same R s t \<Longrightarrow> alike (same R) (on_lines L lines s) (on_lines L lines t)"
proof (induction lines arbitrary: s t)
  case (Cons line lines)
  from alike_on_line [OF Cons.prems, of L line] Cons.IH show ?case
    by (auto simp: alike_def split: prod.split sum.split)
qed (auto intro: simulation)

lemma alike_process [simulation]:
  assumes "same R s t"
  shows "alike (same R) (process L chunk s) (process L chunk t)"
proof -
  obtain sp lines e where p: "push (hidden L) chunk (ses_lines s) = (sp, lines, e)" by (metis prod_cases3)
  have "same R (s\<lparr>ses_lines := sp\<rparr>) (t\<lparr>ses_lines := sp\<rparr>)" using assms by (simp add: same_def)
  from alike_on_lines [OF this, of L lines] p assms show ?thesis
    by (auto simp: process_def same_fields alike_def split: prod.split sum.split)
qed

lemma alike_dequeue [simulation]: "same R s t \<Longrightarrow> alike (same R) (dequeue s) (dequeue t)"
  by (auto simp: dequeue_def alike_def same_def split: prod.split)

section \<open>Reading\<close>

locale pipe_readers =
  fixes E :: "'p pipe_env" and E' :: "'q pipe_env" and R :: "'p \<Rightarrow> 'q \<Rightarrow> bool"
  assumes codecs: "line_codec E' = line_codec E"
    and reads: "R p q \<Longrightarrow> alike R (pipe_read E p) (pipe_read E' q)"
begin

lemma alike_pump [simulation]:
  assumes "same R s t"
  shows "alike (same R) (pump E s) (pump E' t)"
  unfolding pump_def
proof (rule alike_bind [OF alike_usable [OF assms]])
  fix s :: "'p session" and t :: "'q session" assume s: "same R s t"
  obtain p r where p: "pipe_read E (ses_pipe s) = (p, r)" by fastforce
  obtain q where q: "pipe_read E' (ses_pipe t) = (q, r)" "R p q"
    using alikeE [OF reads [OF same_fields(1) [OF s]] p] .
  have st: "same R (s\<lparr>ses_pipe := p\<rparr>) (t\<lparr>ses_pipe := q\<rparr>)" using s q(2) by (simp add: same_def)
  have processed: "alike (same R)
      (case process (line_codec E) chunk (s\<lparr>ses_pipe := p\<rparr>) of
         (s, Inl e) \<Rightarrow> failing e s | (s, Inr u) \<Rightarrow> (s, Some (Inr ())))
      (case process (line_codec E) chunk (t\<lparr>ses_pipe := q\<rparr>) of
         (s, Inl e) \<Rightarrow> failing e s | (s, Inr u) \<Rightarrow> (s, Some (Inr ())))" for chunk
  proof -
    obtain s1 x where s1: "process (line_codec E) chunk (s\<lparr>ses_pipe := p\<rparr>) = (s1, x)" by fastforce
    obtain t1 where t1: "process (line_codec E) chunk (t\<lparr>ses_pipe := q\<rparr>) = (t1, x)" "same R s1 t1"
      using alikeE [OF alike_process [OF st] s1] .
    show ?thesis using s1 t1 by (auto intro: simulation split: sum.split)
  qed
  show "alike (same R)
      (case pipe_read E (ses_pipe s) of (p, None) \<Rightarrow> (s\<lparr>ses_pipe := p\<rparr>, None)
       | (p, Some (Inl e)) \<Rightarrow> failing e (s\<lparr>ses_pipe := p\<rparr>)
       | (p, Some (Inr chunk)) \<Rightarrow> (case process (line_codec E) chunk (s\<lparr>ses_pipe := p\<rparr>) of
           (s, Inl e) \<Rightarrow> failing e s | (s, Inr u) \<Rightarrow> (s, Some (Inr ()))))
      (case pipe_read E' (ses_pipe t) of (p, None) \<Rightarrow> (t\<lparr>ses_pipe := p\<rparr>, None)
       | (p, Some (Inl e)) \<Rightarrow> failing e (t\<lparr>ses_pipe := p\<rparr>)
       | (p, Some (Inr chunk)) \<Rightarrow> (case process (line_codec E') chunk (t\<lparr>ses_pipe := p\<rparr>) of
           (s, Inl e) \<Rightarrow> failing e s | (s, Inr u) \<Rightarrow> (s, Some (Inr ()))))"
    using p q st processed by (auto simp: codecs intro: simulation split: option.split sum.split)
qed

lemma alike_recv: "same R s t \<Longrightarrow> alike (same R) (session_recv E f s) (session_recv E' f t)"
proof (induction f arbitrary: s t)
  case (Suc f)
  obtain s1 x where s1: "dequeue s = (s1, x)" by fastforce
  obtain t1 where t1: "dequeue t = (t1, x)" "same R s1 t1"
    using alikeE [OF alike_dequeue [OF Suc.prems] s1] .
  have pumped: "alike (same R)
      (case pump E s of (s, None) \<Rightarrow> (s, None) | (s, Some (Inr u)) \<Rightarrow> session_recv E f s
       | (s, Some (Inl e)) \<Rightarrow> (case dequeue s of (s, Some payload) \<Rightarrow> (s, Some (Inr payload)) | (s, None) \<Rightarrow> (s, Some (Inl e))))
      (case pump E' t of (s, None) \<Rightarrow> (s, None) | (s, Some (Inr u)) \<Rightarrow> session_recv E' f s
       | (s, Some (Inl e)) \<Rightarrow> (case dequeue s of (s, Some payload) \<Rightarrow> (s, Some (Inr payload)) | (s, None) \<Rightarrow> (s, Some (Inl e))))"
    if st: "same R s t" for s t
  proof -
    obtain s2 r where s2: "pump E s = (s2, r)" by fastforce
    obtain t2 where t2: "pump E' t = (t2, r)" "same R s2 t2"
      using alikeE [OF alike_pump [OF st] s2] .
    obtain s3 y where s3: "dequeue s2 = (s3, y)" by fastforce
    obtain t3 where t3: "dequeue t2 = (t3, y)" "same R s3 t3"
      using alikeE [OF alike_dequeue [OF t2(2)] s3] .
    show ?thesis
      using s2 t2 s3 t3 Suc.IH [OF t2(2)] by (auto intro: simulation split: option.split sum.split)
  qed
  show ?case
  proof (cases x)
    case None
    with s1 t1 show ?thesis by (simp add: alike_bind [OF alike_ready [OF t1(2)] pumped])
  next
    case (Some payload)
    with s1 t1 show ?thesis by (simp add: alikeI)
  qed
qed (auto intro: simulation)

end

section \<open>Everything\<close>

locale pipe_simulation = pipe_readers +
  assumes texts: "timeout_text E' = timeout_text E"
    and timers: "R p q \<Longrightarrow> elapses E' q = elapses E p"
    and writes: "R p q \<Longrightarrow> alike R (pipe_write E bs p) (pipe_write E' bs q)"
begin

lemma alike_settle: "same R s t \<Longrightarrow> alike (same R) (settle E f s) (settle E' f t)"
proof (induction f arbitrary: s t)
  case (Suc f)
  show ?case
    by (auto simp: same_fields [OF Suc.prems] intro!: simulation alike_bind [OF alike_pump] Suc)
qed (auto simp: same_fields intro: simulation)

lemma alike_timed_out: "same R s t \<Longrightarrow> alike (same R) (timed_out E p s) (timed_out E' p t)"
  by (auto simp: timed_out_def Let_def same_fields codecs texts intro!: simulation split: prod.split)

lemma alike_bounded: "alike (same R) a b \<Longrightarrow> alike (same R) (bounded E p a) (bounded E' p b)"
  using alike_timed_out [of "fst a" "fst b" p] timers [of "ses_pipe (fst a)" "ses_pipe (fst b)"]
  by (cases a; cases b) (auto simp: bounded_def alike_def same_fields(1) split: option.split)

lemma alike_exchange:
  assumes "same R s t"
  shows "alike (same R) (exchange E f line ack s) (exchange E' f line ack t)"
  unfolding exchange_def
proof (rule alike_bind [OF alike_settle [OF assms]])
  fix s :: "'a session" and t :: "'b session" assume s: "same R s t"
  obtain p r where p: "pipe_write E line (ses_pipe s) = (p, r)" by fastforce
  obtain q where q: "pipe_write E' line (ses_pipe t) = (q, r)" "R p q"
    using alikeE [OF writes [OF same_fields(1) [OF s]] p] .
  have st: "same R (s\<lparr>awaiting := Some ack, write_in_progress := True, ses_pipe := p\<rparr>)
      (t\<lparr>awaiting := Some ack, write_in_progress := True, ses_pipe := q\<rparr>)"
    "same R (s\<lparr>awaiting := Some ack, ses_pipe := p, write_in_progress := False\<rparr>)
      (t\<lparr>awaiting := Some ack, ses_pipe := q, write_in_progress := False\<rparr>)"
    using s q(2) by (simp_all add: same_def)
  show "alike (same R)
      (let s = s\<lparr>awaiting := Some ack, write_in_progress := True\<rparr> in case pipe_write E line (ses_pipe s) of
         (p, None) \<Rightarrow> (s\<lparr>ses_pipe := p\<rparr>, None)
       | (p, Some (Inl e)) \<Rightarrow> failing e (s\<lparr>ses_pipe := p, write_in_progress := False\<rparr>)
       | (p, Some (Inr u)) \<Rightarrow> settle E f (s\<lparr>ses_pipe := p, write_in_progress := False\<rparr>))
      (let s = t\<lparr>awaiting := Some ack, write_in_progress := True\<rparr> in case pipe_write E' line (ses_pipe s) of
         (p, None) \<Rightarrow> (s\<lparr>ses_pipe := p\<rparr>, None)
       | (p, Some (Inl e)) \<Rightarrow> failing e (s\<lparr>ses_pipe := p, write_in_progress := False\<rparr>)
       | (p, Some (Inr u)) \<Rightarrow> settle E' f (s\<lparr>ses_pipe := p, write_in_progress := False\<rparr>))"
    using p q st
    by (auto simp: Let_def intro!: simulation alike_settle split: option.split sum.split)
qed

lemma alike_request: "same R s t \<Longrightarrow> alike (same R) (request E f p ack s) (request E' f p ack t)"
  unfolding request_def codecs
  by (rule alike_bind [OF alike_usable]) (auto intro: alike_bounded alike_exchange)

lemma alike_settle_bounded: "same R s t \<Longrightarrow> alike (same R) (settle_bounded E f s) (settle_bounded E' f t)"
  by (auto simp: settle_bounded_def same_fields intro!: simulation alike_bounded alike_settle split: option.split)

lemma alike_close_open: "same R s t \<Longrightarrow> alike (same R) (close_open E f s) (close_open E' f t)"
  by (auto simp: close_open_def same_fields intro!: simulation alike_request split: option.split)

lemma alike_open_for: "same R s t \<Longrightarrow> alike (same R) (open_for E f g s) (open_for E' f g t)"
  by (auto simp: open_for_def same_fields intro!: simulation alike_settle_bounded alike_close_open alike_request)

lemma alike_send_chunks: "same R s t \<Longrightarrow> alike (same R) (send_chunks E f g cs s) (send_chunks E' f g cs t)"
proof (induction cs arbitrary: s t)
  case (Cons c cs)
  show ?case by (simp add: alike_bind [OF alike_request [OF Cons.prems] Cons.IH])
qed (auto intro: simulation)

lemma alike_send: "same R s t \<Longrightarrow> alike (same R) (session_send E f g payload s) (session_send E' f g payload t)"
  unfolding session_send_def
  by (auto intro!: simulation alike_open_for alike_send_chunks) (simp_all add: same_def)

lemma alike_signal: "same R s t \<Longrightarrow> alike (same R) (session_signal E f s) (session_signal E' f t)"
  unfolding session_signal_def
  by (auto simp: same_fields intro!: simulation alike_settle_bounded alike_request split: option.split)

lemma alike_close: "same R s t \<Longrightarrow> alike (same R) (session_close E f s) (session_close E' f t)"
  unfolding session_close_def
  by (auto intro!: simulation alike_settle_bounded alike_close_open alike_request)

lemma alike_call: "same R s t \<Longrightarrow> alike (same R) (call E c s) (call E' c t)"
  using alike_send alike_recv alike_signal alike_close
  by (cases c) (auto simp: alike_def handed_def split: prod.split option.split sum.split)

lemma alike_calls: "same R s t \<Longrightarrow> alike (same R) (calls E cs s) (calls E' cs t)"
proof (induction cs arbitrary: s t)
  case (Cons c cs)
  obtain s1 x where s1: "call E c s = (s1, x)" by fastforce
  obtain t1 where t1: "call E' c t = (t1, x)" "same R s1 t1" using alikeE [OF alike_call [OF Cons.prems] s1] .
  obtain s2 y where s2: "calls E cs s1 = (s2, y)" by fastforce
  obtain t2 where t2: "calls E' cs t1 = (t2, y)" "same R s2 t2" using alikeE [OF Cons.IH [OF t1(2)] s2] .
  show ?case using s1 t1 s2 t2 by (auto intro: simulation)
qed (auto intro: simulation)

end

end
