(* ===== verification/Ssh_Properties.thy ===== *)
theory Ssh_Properties
  imports Ssh Pipe_Simulation
begin

text \<open>
  What the SSH transport promises: no credentials before the host key is accepted, what it takes to be
  connected, that the session over the channel sees the standard output of \<open>pwsh\<close> and nothing else,
  the messages of a pool over SSH, and that closing always ends and tears the connection down.
\<close>

lemma obind_Inr_iff:
  "obind r f = (h', Some (Inr y)) \<longleftrightarrow> (\<exists>h x. r = (h, Some (Inr x)) \<and> f x h = (h', Some (Inr y)))"
  by (auto simp: obind_def split: prod.split option.split sum.split)

lemma err_as_Inr_iff: "err_as what r = (h', Some (Inr x)) \<longleftrightarrow> r = (h', Some (Inr x))"
proof -
  have "map_sum f id y = Inr x \<longleftrightarrow> y = Inr x" for f and y by (cases y) auto
  then show ?thesis by (cases r) (auto simp: err_as_def)
qed

lemma within_Inr_iff: "within R d late r = (h', Some (Inr x)) \<longleftrightarrow> r = (h', Some (Inr x))"
  by (auto simp: within_def split: prod.split option.split)

lemma reach_iff:
  "reach R S c h = (h', Some (Inr ())) \<longleftrightarrow>
     rs_connect R (site c) (check_server_key S (policy_of c) (ssh_host c) (ssh_port c)) h = (h', Some (Inr ()))"
  by (simp add: reach_def within_Inr_iff err_as_Inr_iff)

section \<open>The host key comes first\<close>

lemma reach_cong:
  assumes "rs_connect R' = rs_connect R" "rs_expired R' = rs_expired R"
  shows "reach R' S (c\<lparr>username := u, auth := a, subsystem := s\<rparr>) h = reach R S c h"
  using assms by (simp add: reach_def within_def site_def split: prod.split option.split)

lemma obind_stops:
  assumes "snd r \<noteq> Some (Inr ())"
  shows "obind r f = obind r g" "snd (obind r f) \<noteq> Some (Inr x)"
  using assms by (auto simp: obind_def split: prod.split option.split sum.split)

text \<open>
  C31: no credentials reach a server whose host key the policy does not accept.  The SSH library
  completes a connection only when the check accepts the key \<open>k\<close> of the server; if it does not, then
  there is no transport, and all that happens is the same whatever the user, the credentials and the
  subsystem are and whatever the library's calls after the key exchange would do: none is made.
\<close>

theorem no_credentials_to_an_unknown_server:
  assumes "\<forall>addr check h h'. rs_connect R addr check h = (h', Some (Inr ())) \<longrightarrow> check k"
    and "\<not> check_server_key S (policy_of c) (ssh_host c) (ssh_port c) k"
    and "rs_connect R' = rs_connect R" "rs_expired R' = rs_expired R"
  shows "ssh_connect R' S hid f' (c\<lparr>username := u, auth := a, subsystem := s\<rparr>) h = ssh_connect R S hid f c h
    \<and> snd (ssh_connect R S hid f c h) \<noteq> Some (Inr t)"
proof -
  have refused: "snd (reach R S c h) \<noteq> Some (Inr ())"
    using assms(1,2) reach_iff [of R S c h] by (metis prod.collapse)
  then show ?thesis
    using obind_stops(1) [OF refused]
    by (auto simp: ssh_connect_def reach_cong [OF assms(3,4)] obind_stops(2) [OF refused])
qed

section \<open>What it takes to be connected\<close>

text \<open>Reading the messages \<open>ms\<close> from the channel takes the connection from one state to another.\<close>

inductive hears :: "'h russh \<Rightarrow> 'h \<Rightarrow> channel_msg list \<Rightarrow> 'h \<Rightarrow> bool" for R where
  hears_nothing: "hears R h [] h"
| hears_more: "rs_wait R h = (h1, Some (Some m)) \<Longrightarrow> hears R h1 ms h' \<Longrightarrow> hears R h (m # ms) h'"

inductive_simps hears_simps [simp]: "hears R h [] h'" "hears R h (m # ms) h'"

lemma hears_iff:
  "hears R h ms h' \<longleftrightarrow> (case ms of
     [] \<Rightarrow> h' = h | m # ms \<Rightarrow> \<exists>h1. rs_wait R h = (h1, Some (Some m)) \<and> hears R h1 ms h')"
  by (cases ms) auto

fun stdout :: "channel_msg \<Rightarrow> bytes" where
  "stdout (ChData data) = data"
| "stdout _ = []"

fun decides :: "channel_msg \<Rightarrow> bool" where
  "decides ChSuccess = True"
| "decides ChFailure = True"
| "decides ChEof = True"
| "decides ChClose = True"
| "decides _ = False"

lemma append_pre_reply_output_iff:
  "append_pre_reply_output hid pending data = Inr out \<longleftrightarrow>
     out = pending @ data \<and> length out \<le> MAX_PRE_REPLY_BYTES"
  by (auto simp: append_pre_reply_output_def usize_add_def MAX_PRE_REPLY_BYTES_def MAX_LINE_BYTES_def)

definition started :: "'h russh \<Rightarrow> nat \<Rightarrow> bytes \<Rightarrow> 'h \<Rightarrow> 'h \<Rightarrow> bytes \<Rightarrow> bool" where
  "started R f pending h h' out \<longleftrightarrow>
     (\<exists>ms h1. length ms < f \<and> hears R h ms h1 \<and> rs_wait R h1 = (h', Some (Some ChSuccess))
        \<and> filter decides ms = [] \<and> out = pending @ concat (map stdout ms) \<and> length out \<le> MAX_PRE_REPLY_BYTES)"

lemma started_now:
  assumes "rs_wait R h = (h1, Some (Some m))" "decides m"
  shows "started R (Suc f) pending h h' out \<longleftrightarrow>
    m = ChSuccess \<and> h' = h1 \<and> out = pending \<and> length pending \<le> MAX_PRE_REPLY_BYTES"
proof
  assume "started R (Suc f) pending h h' out"
  then obtain ms h2 where ms: "hears R h ms h2" "rs_wait R h2 = (h', Some (Some ChSuccess))"
    "filter decides ms = []" "out = pending @ concat (map stdout ms)" "length out \<le> MAX_PRE_REPLY_BYTES"
    by (auto simp: started_def)
  then have "ms = []" using assms by (cases ms) auto
  with ms assms show "m = ChSuccess \<and> h' = h1 \<and> out = pending \<and> length pending \<le> MAX_PRE_REPLY_BYTES"
    by auto
next
  assume "m = ChSuccess \<and> h' = h1 \<and> out = pending \<and> length pending \<le> MAX_PRE_REPLY_BYTES"
  with assms show "started R (Suc f) pending h h' out"
    unfolding started_def by (intro exI [of _ "[]"] exI [of _ h]) auto
qed

lemma started_later:
  assumes "rs_wait R h = (h1, Some (Some m))" "\<not> decides m"
  shows "started R (Suc f) pending h h' out \<longleftrightarrow> started R f (pending @ stdout m) h1 h' out"
proof
  assume "started R (Suc f) pending h h' out"
  then obtain ms h2 where ms: "length ms < Suc f" "hears R h ms h2" "rs_wait R h2 = (h', Some (Some ChSuccess))"
    "filter decides ms = []" "out = pending @ concat (map stdout ms)" "length out \<le> MAX_PRE_REPLY_BYTES"
    by (auto simp: started_def)
  from ms(2,3) assms obtain ms' where "ms = m # ms'" "hears R h1 ms' h2" by (cases ms) auto
  with ms assms(2) show "started R f (pending @ stdout m) h1 h' out"
    unfolding started_def by (intro exI [of _ ms'] exI [of _ h2]) auto
next
  assume "started R f (pending @ stdout m) h1 h' out"
  then obtain ms h2 where "length ms < f" "hears R h1 ms h2" "rs_wait R h2 = (h', Some (Some ChSuccess))"
    "filter decides ms = []" "out = (pending @ stdout m) @ concat (map stdout ms)" "length out \<le> MAX_PRE_REPLY_BYTES"
    by (auto simp: started_def)
  with assms show "started R (Suc f) pending h h' out"
    unfolding started_def by (intro exI [of _ "m # ms"] exI [of _ h2]) auto
qed

lemma started_stuck:
  assumes "rs_wait R h = (h1, r)" "r = None \<or> r = Some None"
  shows "\<not> started R f pending h h' out"
  using assms unfolding started_def by (subst hears_iff) (auto split: list.splits)

lemma await_subsystem_iff:
  "length pending \<le> MAX_PRE_REPLY_BYTES \<Longrightarrow>
     await_subsystem R hid name f pending h = (h', Some (Inr out)) \<longleftrightarrow> started R f pending h h' out"
proof (induction f arbitrary: pending h)
  case 0
  then show ?case by (simp add: started_def)
next
  case (Suc f)
  obtain h1 r where w: "rs_wait R h = (h1, r)" by fastforce
  show ?case
  proof (cases "r = None \<or> r = Some None")
    case True
    with w started_stuck [OF w True] show ?thesis by auto
  next
    case False
    then obtain m where m: "r = Some (Some m)" by (cases r) (auto simp: not_None_eq)
    note w = w [unfolded m]
    show ?thesis
    proof (cases "decides m")
      case True
      with w Suc.prems show ?thesis by (cases m) (auto simp: started_now [OF w True])
    next
      case False
      have step: "started R (Suc f) pending h h' out \<longleftrightarrow> started R f (pending @ stdout m) h1 h' out"
        by (rule started_later [OF w False])
      have big: "\<not> started R f (pending @ data) h1 h' out" if "length (pending @ data) > MAX_PRE_REPLY_BYTES" for data
        using that by (auto simp: started_def)
      show ?thesis
      proof (cases m)
        case (ChData data)
        show ?thesis
        proof (cases "length (pending @ data) \<le> MAX_PRE_REPLY_BYTES")
          case True
          then have "append_pre_reply_output hid pending data = Inr (pending @ data)"
            by (simp add: append_pre_reply_output_iff)
          with w ChData step Suc.IH [OF True] show ?thesis by simp
        next
          case False
          then obtain e where "append_pre_reply_output hid pending data = Inl e"
            by (cases "append_pre_reply_output hid pending data") (auto simp: append_pre_reply_output_iff)
          with w ChData step big [of data] False show ?thesis by simp
        qed
      next
        case (ChExtendedData data ext)
        with w step Suc.IH [OF Suc.prems, of h1] show ?thesis by simp
      next
        case (ChExitStatus st)
        with w step Suc.IH [OF Suc.prems, of h1] show ?thesis by simp
      next
        case ChOther
        with w step Suc.IH [OF Suc.prems, of h1] show ?thesis by simp
      qed (use False in simp_all)
    qed
  qed
qed

fun logged_in :: "'h russh \<Rightarrow> ustr \<Rightarrow> ssh_auth \<Rightarrow> 'h \<Rightarrow> 'h \<Rightarrow> bool" where
  "logged_in R user (Password pw) h h' \<longleftrightarrow> rs_password R user pw h = (h', Some (Inr True))"
| "logged_in R user (PrivateKey path passphrase) h h' \<longleftrightarrow>
     (\<exists>key. rs_load_key R path passphrase = Inr key \<and> rs_publickey R user key h = (h', Some (Inr True)))"
| "logged_in R user Agent h h' \<longleftrightarrow> False"

lemma log_in_iff: "log_in R c h = (h', Some (Inr ())) \<longleftrightarrow> logged_in R (username c) (auth c) h h'"
  by (cases "auth c")
    (auto simp: log_in_def obind_Inr_iff err_as_Inr_iff split: sum.split if_splits)

text \<open>
  Exactly when \<open>connect\<close> returns a transport, and which one: the host name is valid and the
  acknowledgement timeout not zero, the library connected under the policy's check of the host key,
  the server accepted the password or the key (the agent is never used), a channel was opened and
  the subsystem requested, and the server confirmed it before it refused or ended the channel, after
  at most one line's worth of output.  The session starts with that output and nothing else.
\<close>

lemma connected_iff:
  "ssh_connect R S hid f c h = (h', Some (Inr t)) \<longleftrightarrow>
     valid_ssh_host (ssh_host c) \<and> ack_timeout c \<noteq> 0 \<and>
     (\<exists>h1 h2 h3 h4 h5 ms.
        rs_connect R (site c) (check_server_key S (policy_of c) (ssh_host c) (ssh_port c)) h = (h1, Some (Inr ()))
      \<and> logged_in R (username c) (auth c) h1 h2
      \<and> rs_open_channel R h2 = (h3, Some (Inr ())) \<and> rs_subsystem R (subsystem c) h3 = (h4, Some (Inr ()))
      \<and> hears R h4 ms h5 \<and> length ms < f \<and> filter decides ms = [] \<and> rs_wait R h5 = (h', Some (Some ChSuccess))
      \<and> length (concat (map stdout ms)) \<le> MAX_PRE_REPLY_BYTES
      \<and> t = transport_over h' (concat (map stdout ms)))"
proof -
  have open_iff: "open_subsystem R hid f c h2 = (h', Some (Inr out)) \<longleftrightarrow>
      (\<exists>h3 h4. rs_open_channel R h2 = (h3, Some (Inr ())) \<and> rs_subsystem R (subsystem c) h3 = (h4, Some (Inr ()))
         \<and> started R f [] h4 h' out)" for h2 out
    by (auto simp: open_subsystem_def obind_Inr_iff err_as_Inr_iff within_Inr_iff await_subsystem_iff)
  show ?thesis
    unfolding ssh_connect_def
    by (auto simp: obind_Inr_iff reach_iff log_in_iff open_iff started_def; blast)
qed

section \<open>The session sees standard output\<close>

text \<open>
  A channel whose two halves are independent: what will be read from it, in order, and a connection
  \<open>'w\<close> that writing acts on and that knows whether a timer has expired.
\<close>

definition split_channel ::
    "(bytes \<Rightarrow> 'w \<Rightarrow> 'w \<times> (ustr + unit) option) \<Rightarrow> (duration \<Rightarrow> 'w \<Rightarrow> bool)
     \<Rightarrow> ('w \<times> channel_msg option list) russh \<Rightarrow> ('w \<times> channel_msg option list) russh" where
  "split_channel put late R = R
     \<lparr>rs_wait := (\<lambda>(w, ms). case ms of [] \<Rightarrow> ((w, []), None) | m # ms \<Rightarrow> ((w, ms), Some m)),
      rs_data := (\<lambda>bs (w, ms). case put bs w of (w, r) \<Rightarrow> ((w, ms), r)),
      rs_expired := (\<lambda>d (w, ms). late d w)\<rparr>"

text \<open>What a reader makes of the messages: the chunks of standard output, and where the channel ends.\<close>

fun stdout_events :: "u32 option \<Rightarrow> channel_msg option list \<Rightarrow> bytes res list" where
  "stdout_events st [] = []"
| "stdout_events st (Some (ChData data) # ms) =
     (if data = [] then stdout_events st ms else Inr data # stdout_events st ms)"
| "stdout_events st (Some (ChExitStatus status) # ms) = stdout_events (Some status) ms"
| "stdout_events st (Some ChEof # ms) = Inl (pipe_ended st) # stdout_events st ms"
| "stdout_events st (Some ChClose # ms) = Inl (pipe_ended st) # stdout_events st ms"
| "stdout_events st (None # ms) = Inl (pipe_ended st) # stdout_events st ms"
| "stdout_events st (Some (ChExtendedData data ext) # ms) = stdout_events st ms"
| "stdout_events st (Some ChSuccess # ms) = stdout_events st ms"
| "stdout_events st (Some ChFailure # ms) = stdout_events st ms"
| "stdout_events st (Some ChOther # ms) = stdout_events st ms"

definition pipe_events :: "bytes \<Rightarrow> u32 option \<Rightarrow> channel_msg option list \<Rightarrow> bytes res list" where
  "pipe_events pre st ms = (if pre = [] then [] else [Inr pre]) @ stdout_events st ms"

text \<open>The bare pipe: the events are all there is to read.\<close>

definition stdout_pipe ::
    "(bytes \<Rightarrow> 'w \<Rightarrow> 'w \<times> (ustr + unit) option) \<Rightarrow> (duration \<Rightarrow> 'w \<Rightarrow> bool)
     \<Rightarrow> line_env \<Rightarrow> (duration \<Rightarrow> ustr) \<Rightarrow> ssh_config \<Rightarrow> ('w \<times> bytes res list) pipe_env" where
  "stdout_pipe put late L fixed3 c =
     \<lparr>line_codec = L,
      pipe_write = (\<lambda>bs (w, evs). case err_as ''SSH send: '' (put bs w) of (w, r) \<Rightarrow> ((w, evs), r)),
      pipe_read = (\<lambda>(w, evs). case evs of [] \<Rightarrow> ((w, []), None) | e # evs \<Rightarrow> ((w, evs), Some e)),
      elapses = (\<lambda>(w, evs). late (ack_timeout c) w), timeout_text = describe_duration fixed3 (ack_timeout c)\<rparr>"

definition reads_as :: "nat \<Rightarrow> ('w \<times> channel_msg option list) russh_pipe \<Rightarrow> 'w \<times> bytes res list \<Rightarrow> bool" where
  "reads_as f p q \<longleftrightarrow> length (snd (conn p)) < f
     \<and> q = (fst (conn p), pipe_events (pre_reply p) (exit_status p) (snd (conn p)))"

lemma read_stdout_events:
  assumes "conn p = (w, ms)" "length ms < f"
  shows "\<exists>p'. read_stdout (split_channel put late R) f p =
      (p', case stdout_events (exit_status p) ms of [] \<Rightarrow> None | e # evs \<Rightarrow> Some e)
    \<and> fst (conn p') = w \<and> length (snd (conn p')) \<le> length ms \<and> pre_reply p' = pre_reply p
    \<and> stdout_events (exit_status p') (snd (conn p')) = tl (stdout_events (exit_status p) ms)"
  using assms
proof (induction f arbitrary: p ms)
  case (Suc f)
  show ?case
  proof (cases ms)
    case Nil
    with Suc.prems show ?thesis by (simp add: split_channel_def)
  next
    case (Cons m ms')
    let ?R = "split_channel put late R"
    have w: "rs_wait ?R (conn p) = ((w, ms'), Some m)" using Suc.prems(1) Cons by (simp add: split_channel_def)
    have skip: ?thesis
      if "read_stdout ?R (Suc f) p = read_stdout ?R f (p\<lparr>conn := (w, ms'), exit_status := st\<rparr>)"
        "stdout_events (exit_status p) ms = stdout_events st ms'" for st
    proof -
      from Suc.IH [of "p\<lparr>conn := (w, ms'), exit_status := st\<rparr>" ms'] Suc.prems(2) Cons
      obtain p' where "read_stdout ?R f (p\<lparr>conn := (w, ms'), exit_status := st\<rparr>) =
          (p', case stdout_events st ms' of [] \<Rightarrow> None | e # evs \<Rightarrow> Some e)"
        "fst (conn p') = w" "length (snd (conn p')) \<le> length ms'" "pre_reply p' = pre_reply p"
        "stdout_events (exit_status p') (snd (conn p')) = tl (stdout_events st ms')"
        by auto
      with that Cons show ?thesis by (intro exI [of _ p']) simp
    qed
    have same_status: "p\<lparr>conn := (w, ms'), exit_status := exit_status p\<rparr> = p\<lparr>conn := (w, ms')\<rparr>" by simp
    note skip_plain = skip [of "exit_status p", unfolded same_status]
    show ?thesis
    proof (cases m)
      case None
      with w Cons show ?thesis by simp
    next
      case (Some msg)
      with w Cons skip_plain skip show ?thesis
        by (cases msg) (auto simp: Let_def split: if_splits)
    qed
  qed
qed simp

lemma reads_as_read:
  assumes "reads_as f p q"
  shows "alike (reads_as f) (russh_read (split_channel put late R) f p) (pipe_read (stdout_pipe put late L dt c) q)"
proof (cases "pre_reply p = []")
  case True
  obtain w ms where p: "conn p = (w, ms)" by fastforce
  with assms have "length ms < f" by (simp add: reads_as_def)
  from read_stdout_events [OF p this] obtain p' where
    "read_stdout (split_channel put late R) f p =
      (p', case stdout_events (exit_status p) ms of [] \<Rightarrow> None | e # evs \<Rightarrow> Some e)"
    "fst (conn p') = w" "length (snd (conn p')) \<le> length ms" "pre_reply p' = pre_reply p"
    "stdout_events (exit_status p') (snd (conn p')) = tl (stdout_events (exit_status p) ms)"
    by blast
  with assms p True show ?thesis
    by (auto simp: alike_def russh_read_def stdout_pipe_def reads_as_def pipe_events_def split: list.split)
next
  case False
  with assms show ?thesis
    by (auto simp: alike_def russh_read_def stdout_pipe_def reads_as_def pipe_events_def)
qed

lemma reads_as_write:
  "reads_as f p q \<Longrightarrow>
     alike (reads_as f) (russh_write (split_channel put late R) bs p) (pipe_write (stdout_pipe put late L dt c) bs q)"
  by (auto simp: alike_def russh_write_def stdout_pipe_def split_channel_def reads_as_def err_as_def
      split: prod.split)

interpretation ssh_stdout:
  pipe_simulation "russh_pipe_env (split_channel put late R) L dt f c" "stdout_pipe put late L dt c" "reads_as f"
  for put :: "bytes \<Rightarrow> 'w \<Rightarrow> 'w \<times> (ustr + unit) option" and late R L dt f c
proof unfold_locales
  show "line_codec (stdout_pipe put late L dt c) = line_codec (russh_pipe_env (split_channel put late R) L dt f c)"
    by (simp add: stdout_pipe_def russh_pipe_env_def)
  show "timeout_text (stdout_pipe put late L dt c) = timeout_text (russh_pipe_env (split_channel put late R) L dt f c)"
    by (simp add: stdout_pipe_def russh_pipe_env_def)
  fix p :: "('w \<times> channel_msg option list) russh_pipe" and q bs assume p: "reads_as f p q"
  show "alike (reads_as f) (pipe_read (russh_pipe_env (split_channel put late R) L dt f c) p)
      (pipe_read (stdout_pipe put late L dt c) q)"
    using reads_as_read [OF p] by (simp add: russh_pipe_env_def)
  show "alike (reads_as f) (pipe_write (russh_pipe_env (split_channel put late R) L dt f c) bs p)
      (pipe_write (stdout_pipe put late L dt c) bs q)"
    using reads_as_write [OF p] by (simp add: russh_pipe_env_def)
  show "elapses (stdout_pipe put late L dt c) q = elapses (russh_pipe_env (split_channel put late R) L dt f c) p"
    using p by (cases "conn p") (simp add: stdout_pipe_def russh_pipe_env_def split_channel_def reads_as_def)
qed

text \<open>
  C32: the session over an SSH channel is the session over the bare standard output of \<open>pwsh\<close>: whatever
  messages come over the channel, error output, exit statuses and empty or unknown ones among them,
  and whatever operations run, cancelled ones included, the same payloads are received, the same bytes
  are written and the session is left in the same state as when it reads the non-empty chunks of
  standard output and the end of the channel from a pipe.
\<close>

theorem ssh_session_sees_only_stdout:
  assumes "length ms < f"
  shows "case (calls (russh_pipe_env (split_channel put late R) L dt f c) cs (ssh_inner (transport_over (w, ms) pre)),
      calls (stdout_pipe put late L dt c) cs (session_new (w, pipe_events pre None ms))) of
    ((s, got), (t, bare)) \<Rightarrow> got = bare \<and> fst (conn (ses_pipe s)) = fst (ses_pipe t)
      \<and> (inbound s, awaiting s, open_command s, write_in_progress s, payload_in_progress s, broken s)
       = (inbound t, awaiting t, open_command t, write_in_progress t, payload_in_progress t, broken t)"
proof -
  let ?E = "russh_pipe_env (split_channel put late R) L dt f c" and ?S = "stdout_pipe put late L dt c"
  have "reads_as f \<lparr>conn = (w, ms), pre_reply = pre, exit_status = None\<rparr> (w, pipe_events pre None ms)"
    using assms by (simp add: reads_as_def)
  then have start: "same (reads_as f) (ssh_inner (transport_over (w, ms) pre)) (session_new (w, pipe_events pre None ms))"
    by (simp add: transport_over_def same_new)
  obtain s got where s: "calls ?E cs (ssh_inner (transport_over (w, ms) pre)) = (s, got)" by fastforce
  obtain t where t: "calls ?S cs (session_new (w, pipe_events pre None ms)) = (t, got)" "same (reads_as f) s t"
    using alikeE [OF ssh_stdout.alike_calls [OF start] s] .
  show ?thesis
    unfolding s t(1) using same_fields [OF t(2)] by (simp add: reads_as_def)
qed

section \<open>A pool over SSH\<close>

definition ssh_pool_env ::
    "'w russh \<Rightarrow> 'w russh_pipe pipe_env \<Rightarrow> nat \<Rightarrow> codec_env \<Rightarrow> 'h ps_host \<Rightarrow> cipher \<Rightarrow> (nat \<Rightarrow> client_key res)
     \<Rightarrow> ('w ssh_transport, 'h) pool_env" where
  "ssh_pool_env R E f K H C gen =
     \<lparr>codec = K, wire = ssh_psrp_transport R E f, host = H, aes = C, generate_key = gen\<rparr>"

definition delivering :: "line_env \<Rightarrow> bytes list pipe_env" where
  "delivering L =
     \<lparr>line_codec = L, pipe_write = (\<lambda>bs p. (p, Some (Inr ()))), pipe_read = delivers,
      elapses = (\<lambda>p. False), timeout_text = []\<rparr>"

text \<open>What will be read from the channel are the chunks \<open>cs\<close>, and it does not end.\<close>

definition delivers_as :: "nat \<Rightarrow> ('w \<times> channel_msg option list) russh_pipe \<Rightarrow> bytes list \<Rightarrow> bool" where
  "delivers_as f p cs \<longleftrightarrow> reads_as f p (fst (conn p), map Inr cs)"

interpretation ssh_chunks:
  pipe_readers "russh_pipe_env (split_channel put late R) L dt f c" "delivering L" "delivers_as f"
  for put :: "bytes \<Rightarrow> 'w \<Rightarrow> 'w \<times> (ustr + unit) option" and late R L dt f c
proof unfold_locales
  fix p :: "('w \<times> channel_msg option list) russh_pipe" and cs assume p: "delivers_as f p cs"
  let ?S = "stdout_pipe put late L dt c"
  obtain p' r where r: "russh_read (split_channel put late R) f p = (p', r)" by fastforce
  from reads_as_read [of f p, OF p [unfolded delivers_as_def], of put late R L dt c] r
  have "reads_as f p' (fst (pipe_read ?S (fst (conn p), map Inr cs)))" "snd (pipe_read ?S (fst (conn p), map Inr cs)) = r"
    by (auto simp: alike_def)
  then show "alike (delivers_as f) (pipe_read (russh_pipe_env (split_channel put late R) L dt f c) p)
      (pipe_read (delivering L) cs)"
    using r by (cases cs) (auto simp: alike_def russh_pipe_env_def delivering_def delivers_def stdout_pipe_def
        delivers_as_def reads_as_def)
qed (simp add: russh_pipe_env_def delivering_def)

interpretation ssh_source:
  chunk_source "ssh_pool_env R' (russh_pipe_env (split_channel put late R) L dt f c) n K H C gen"
    "\<lambda>t xs. \<exists>s. same (delivers_as f) (ssh_inner t) s \<and> feeding L xs s \<and> length (ses_pipe s) < n"
  for R' and put :: "bytes \<Rightarrow> 'w \<Rightarrow> 'w \<times> (ustr + unit) option" and late R L dt f c n K H C gen
proof (unfold_locales, elim exE conjE)
  let ?E = "russh_pipe_env (split_channel put late R) L dt f c"
  fix t :: "('w \<times> channel_msg option list) ssh_transport" and s c1 xs
  assume same: "same (delivers_as f) (ssh_inner t) s" and s: "feeding L (c1 # xs) s" "length (ses_pipe s) < n"
  have L: "line_codec (delivering L) = L" "pipe_read (delivering L) = delivers" by (simp_all add: delivering_def)
  from recv_feeding [of "delivering L", unfolded L, OF s(1) refl s(2)] obtain s' where
    s': "session_recv (delivering L) n s = (s', Some (Inr c1))" "feeding L xs s'" "length (ses_pipe s') < n"
    using s(2) by auto
  obtain s1 x where s1: "session_recv ?E n (ssh_inner t) = (s1, x)" by fastforce
  with alikeE [OF ssh_chunks.alike_recv [OF same] s1] s' have x: "x = Some (Inr c1)" "same (delivers_as f) s1 s'"
    by fastforce+
  have "recv_chunk (wire (ssh_pool_env R' ?E n K H C gen)) t = (t\<lparr>ssh_inner := s1\<rparr>, Some (Inr c1))"
    using s1 x by (simp add: ssh_pool_env_def ssh_psrp_transport_def with_defaults_def ssh_recv_chunk_def
        on_inner_def oop_recv_chunk_def)
  then show "\<exists>t'. recv_chunk (wire (ssh_pool_env R' ?E n K H C gen)) t = (t', Some (Inr c1))
      \<and> (\<exists>s. same (delivers_as f) (ssh_inner t') s \<and> feeding L xs s \<and> length (ses_pipe s) < n)"
    using x s' by auto
qed

text \<open>
  C33: end to end over SSH: when \<open>pwsh\<close> sends messages that are for the caller, fragmented under
  distinct object ids and interleaved in any way, the bytes of the fragments cut anywhere into the
  payloads of \<open>Data\<close> lines, the bytes of the lines cut anywhere into messages of the channel, some of
  them read before the subsystem replied, and error output, exit statuses and empty or unknown
  messages in between, then repeated calls of \<open>next_message\<close> on the pool return exactly these
  messages, in the order in which they were completed.
\<close>

theorem ssh_messages_delivered_in_order:
  assumes "uuid_laws (uuids K)" "uuid_laws (line_uuids L)" "line_reader_laws (line_reader L)"
    and "\<forall>oid. filter (\<lambda>f. object_id f = oid) fs = (case M oid of
           None \<Rightarrow> [] | Some m \<Rightarrow> split_message oid (msg_encode (uuids K) m))"
    and "\<forall>oid m. M oid = Some m \<longrightarrow> valid_str (msg_data m) \<and> canonical m = m \<and> quiet m
           \<and> length (msg_encode (uuids K) m) < 2 ^ 64"
    and "concat (payloads ds) = concat (map encode_fragment fs)"
    and "\<forall>x\<in>set (payloads ds). x \<noteq> [] \<and> length x \<le> MAX_DATA_PAYLOAD" "cost (payloads ds) \<le> MAX_QUEUED_BYTES"
    and "concat cs = data_lines (line_uuids L) ds"
    and "pipe_events pre None ms = map Inr cs" "length ms < f"
  shows "ask (ssh_pool_env R' (russh_pipe_env (split_channel put late R) L dt f c) (Suc (length cs)) K H C gen)
      (Suc (length ds)) (length (filter frag_end fs)) (fresh_pool (transport_over (w, ms) pre) h mach n key)
    = map (\<lambda>f. the (M (object_id f))) (filter frag_end fs)"
proof -
  let ?E = "ssh_pool_env R' (russh_pipe_env (split_channel put late R) L dt f c) (Suc (length cs)) K H C gen"
  let ?t = "transport_over (w, ms) pre"
  let ?ms = "map (\<lambda>f. the (M (object_id f))) (filter frag_end fs)"
  have quiet: "\<forall>m\<in>set ?ms. quiet m"
    using assms(5) by (intro fragments_for_caller [OF assms(4)]) blast
  have "[] \<notin> set (payloads ds)" using assms(7) by auto
  then have coming: "coming K (fresh_pool ?t h mach n key) (payloads ds) ?ms"
    using assms(5,6) by (intro delivered [OF assms(1,4)]) auto
  have "same (delivers_as f) (ssh_inner ?t) (session_new cs)"
    using assms(10,11) by (auto simp: transport_over_def delivers_as_def reads_as_def intro: same_new)
  moreover have "feeding L (payloads ds) (session_new cs)"
    by (rule feeding_new [OF assms(2,3,7,8,9)])
  ultimately have "\<exists>s. same (delivers_as f) (ssh_inner ?t) s \<and> feeding L (payloads ds) s
      \<and> length (ses_pipe s) < Suc (length cs)"
    by (intro exI [of _ "session_new cs"]) (simp add: session_new_def)
  then have "ask ?E (Suc (length ds)) (length ?ms) (fresh_pool ?t h mach n key) = ?ms"
    using coming quiet
    by (intro ssh_source.coming_asked [where cs = "payloads ds" and rest = "[]"])
      (simp_all add: ssh_pool_env_def fresh_pool_def)
  then show ?thesis by simp
qed

section \<open>Closing\<close>

lemma obind_ended_Inr: "snd r = Some (Inr x) \<Longrightarrow> obind r f = f x (fst r)"
  by (cases r) (simp add: obind_def)

lemma ignored_returns: "snd r \<noteq> None \<Longrightarrow> snd (ignored r) = Some (Inr ())"
  by (cases r) (auto simp: ignored_def)

lemma fst_ignored [simp]: "fst (ignored r) = fst r"
  by (simp add: ignored_def)

lemma tear_down_returns:
  assumes "\<forall>h. snd (rs_eof R h) \<noteq> None \<and> snd (rs_close R h) \<noteq> None \<and> snd (rs_disconnect R h) \<noteq> None"
  shows "tear_down R h = (fst (rs_disconnect R (fst (rs_close R (fst (rs_eof R h))))), Some (Inr ()))"
proof -
  have "tear_down R h = ignored (rs_disconnect R (fst (rs_close R (fst (rs_eof R h)))))"
    using assms by (simp add: tear_down_def shutdown_def obind_ended_Inr ignored_returns)
  also have "\<dots> = (fst (ignored (rs_disconnect R (fst (rs_close R (fst (rs_eof R h)))))), Some (Inr ()))"
    using assms ignored_returns by (metis prod.collapse)
  finally show ?thesis by simp
qed

text \<open>
  C34: closing ends, and tears the connection down once: with a timer that expires and library calls
  that return, \<open>close_shell\<close> returns what closing the session gave, and whatever that was the channel
  got its end of file and its close and the connection its disconnect, in this order and last; after
  that the transport counts as closed, and closing it again does nothing.
\<close>

theorem ssh_close_tears_down:
  assumes "\<forall>d h. rs_expired R d h"
    and "\<forall>h. snd (rs_eof R h) \<noteq> None \<and> snd (rs_close R h) \<noteq> None \<and> snd (rs_disconnect R h) \<noteq> None"
    and "\<not> ssh_closed t" "E = russh_pipe_env R L dt f c"
  shows "case ssh_close_shell R E n t of (t', r) \<Rightarrow>
      r = snd (session_close E n (ssh_inner t)) \<and> r \<noteq> None
    \<and> conn (ses_pipe (ssh_inner t')) =
        fst (rs_disconnect R (fst (rs_close R (fst (rs_eof R
          (conn (ses_pipe (fst (session_close E n (ssh_inner t))))))))))
    \<and> ssh_close_shell R E n t' = (t', Some (Inr ()))"
proof -
  have "timed E" using assms(1,4) by (simp add: timed_def russh_pipe_env_def)
  then have "ended (session_close E n (ssh_inner t))" by (rule ended_close)
  then obtain s r where s: "session_close E n (ssh_inner t) = (s, Some r)"
    by (cases "session_close E n (ssh_inner t)") (auto simp: ended_def)
  then show ?thesis
    using assms(3) by (simp add: ssh_close_shell_def on_inner_def on_conn_def tear_down_returns [OF assms(2)])
qed

section \<open>Examples\<close>

text \<open>A server with a given key that logs in anybody; the connection is the log of what it was asked.\<close>

definition peer :: "server_key \<Rightarrow> (ustr list \<times> channel_msg option list) russh" where
  "peer k =
     \<lparr>rs_connect = (\<lambda>addr check (log, ms). ((log @ [lit ''connect''], ms),
        Some (if check k then Inr () else Inl (lit ''Unknown server key'')))),
      rs_password = (\<lambda>user pw (log, ms). ((log @ [lit ''password'', user, pw], ms), Some (Inr True))),
      rs_load_key = (\<lambda>path passphrase. Inl (lit ''no such file'')),
      rs_publickey = (\<lambda>user key (log, ms). ((log @ [lit ''key'', user], ms), Some (Inr True))),
      rs_open_channel = (\<lambda>(log, ms). ((log @ [lit ''channel''], ms), Some (Inr ()))),
      rs_subsystem = (\<lambda>name (log, ms). ((log @ [lit ''subsystem'', name], ms), Some (Inr ()))),
      rs_wait = (\<lambda>(log, ms). case ms of [] \<Rightarrow> ((log, []), None) | m # ms \<Rightarrow> ((log, ms), Some m)),
      rs_data = (\<lambda>bs (log, ms). ((log @ [lit ''data''], ms), Some (Inr ()))),
      rs_eof = (\<lambda>(log, ms). ((log @ [lit ''eof''], ms), Some (Inr ()))),
      rs_close = (\<lambda>(log, ms). ((log @ [lit ''close''], ms), Some (Inr ()))),
      rs_disconnect = (\<lambda>(log, ms). ((log @ [lit ''disconnect''], ms), Some (Inr ()))),
      rs_expired = (\<lambda>d h. True)\<rparr>"

definition sample_ssh_env :: ssh_env where
  "sample_ssh_env =
     \<lparr>known_hosts_entries = (\<lambda>t. []), hmac_sha1 = (\<lambda>k m. []), fingerprint_sha256 = (\<lambda>k. None),
      read_file = (\<lambda>path. Inr [])\<rparr>"

definition sample_config :: ssh_config where
  "sample_config = ssh_config_new None (lit ''win-host'') (lit ''admin'') (Password (lit ''s3cret''))"

theorem no_credentials_to_an_unknown_server_witness:
  "ssh_connect (peer (Certificate (lit ''ca''))) sample_ssh_env (\<lambda>c. False) 3
      (sample_config\<lparr>username := lit ''root'', auth := Password (lit ''hunter2''), subsystem := lit ''sftp''\<rparr>) ([], [])
    = ssh_connect (peer (Certificate (lit ''ca''))) sample_ssh_env (\<lambda>c. False) 5 sample_config ([], [])
    \<and> snd (ssh_connect (peer (Certificate (lit ''ca''))) sample_ssh_env (\<lambda>c. False) 5 sample_config ([], []))
      \<noteq> Some (Inr (transport_over ([], []) []))"
  by (rule no_credentials_to_an_unknown_server [where k = "Certificate (lit ''ca'')"])
    (auto simp: peer_def sample_config_def ssh_config_new_def ssh_config_default_def default_policy_def split: if_splits)

theorem ssh_session_sees_only_stdout_witness:
  "case (calls (russh_pipe_env (split_channel (\<lambda>bs w. (w @ [map unat bs], Some (Inr ()))) (\<lambda>d w. True) (peer (Certificate [])))
           sample_line_env (\<lambda>d. []) 4 sample_config)
           [RecvCall 2, SendCall 5 [1, 2] 3] (ssh_inner (transport_over ([], [Some (ChExtendedData [65] 1), None, Some (ChData [66])]) [])),
      calls (stdout_pipe (\<lambda>bs w. (w @ [map unat bs], Some (Inr ()))) (\<lambda>d w. True) sample_line_env (\<lambda>d. []) sample_config)
           [RecvCall 2, SendCall 5 [1, 2] 3]
           (session_new ([], pipe_events [] None [Some (ChExtendedData [65] 1), None, Some (ChData [66])]))) of
    ((s, got), (t, bare)) \<Rightarrow> got = bare \<and> fst (conn (ses_pipe s)) = fst (ses_pipe t)
      \<and> (inbound s, awaiting s, open_command s, write_in_progress s, payload_in_progress s, broken s)
       = (inbound t, awaiting t, open_command t, write_in_progress t, payload_in_progress t, broken t)"
  by (rule ssh_session_sees_only_stdout) simp

theorem ssh_close_tears_down_witness:
  "let R = peer (Certificate []);
       E = russh_pipe_env R sample_line_env (\<lambda>d. []) 3 sample_config;
       t = transport_over ([], []) []
   in case ssh_close_shell R E 3 t of (t', r) \<Rightarrow>
      r = snd (session_close E 3 (ssh_inner t)) \<and> r \<noteq> None
    \<and> conn (ses_pipe (ssh_inner t')) =
        fst (rs_disconnect R (fst (rs_close R (fst (rs_eof R
          (conn (ses_pipe (fst (session_close E 3 (ssh_inner t))))))))))
    \<and> ssh_close_shell R E 3 t' = (t', Some (Inr ()))"
  unfolding Let_def
  by (rule ssh_close_tears_down) (auto simp: peer_def transport_over_def)

theorem ssh_messages_delivered_in_order_witness:
  "let bs = encode_message 4 (msg_encode rfc_uuid (state_msg 1)) @ encode_message 9 (msg_encode rfc_uuid (state_msg 2));
       line = data_lines rfc_uuid [(Default, 0, take 20 bs), (Default, 1, drop 20 bs)];
       ms = [Some (ChExtendedData [66] 1), Some (ChData line), Some (ChExitStatus 3)]
   in ask (ssh_pool_env (peer (Certificate []))
          (russh_pipe_env (split_channel (\<lambda>bs w. (w, Some (Inr ()))) (\<lambda>d w. True) (peer (Certificate []))) sample_line_env
            (\<lambda>d. []) 4 sample_config) 2 (scripted_codec []) no_interaction_host shift_cipher (\<lambda>_. Inr broken_key)) 3 2
        (fresh_pool (transport_over ([], ms) []) ()
          \<lparr>mach_state = Opened, mach_rpid = 7, min_runspaces = 1, max_runspaces = 1\<rparr> 1 None)
      = [state_msg 1, state_msg 2]"
proof -
  let ?fs = "split_message 4 (msg_encode rfc_uuid (state_msg 1)) @ split_message 9 (msg_encode rfc_uuid (state_msg 2))"
  let ?M = "[4 \<mapsto> state_msg 1, 9 \<mapsto> state_msg 2] :: u64 \<rightharpoonup> psrp_message"
  let ?bs = "encode_message 4 (msg_encode rfc_uuid (state_msg 1)) @ encode_message 9 (msg_encode rfc_uuid (state_msg 2))"
  let ?ds = "[(Default, 0, take 20 ?bs), (Default, 1, drop 20 ?bs)] :: data list"
  let ?line = "data_lines rfc_uuid ?ds"
  let ?ms = "[Some (ChExtendedData [66] 1), Some (ChData ?line), Some (ChExitStatus 3)]"
  let ?P = "peer (Certificate [])"
  have len: "length ?bs = 124"
    using state_msg_facts(4) by (simp add: encode_message_def split_state_msg encode_fragment_def u64_to_be_def)
  have line: "?line \<noteq> []" by (simp add: as_bytes_def utf8_enc_char_def lit_def del: take_append drop_append)
  have "ask (ssh_pool_env ?P (russh_pipe_env (split_channel (\<lambda>bs w. (w, Some (Inr ()))) (\<lambda>d w. True) ?P) sample_line_env
          (\<lambda>d. []) 4 sample_config) (Suc (length [?line])) (scripted_codec []) no_interaction_host shift_cipher
          (\<lambda>_. Inr broken_key)) (Suc (length ?ds))
      (length (filter frag_end ?fs)) (fresh_pool (transport_over ([], ?ms) []) ()
        \<lparr>mach_state = Opened, mach_rpid = 7, min_runspaces = 1, max_runspaces = 1\<rparr> 1 None)
    = map (\<lambda>f. the (?M (object_id f))) (filter frag_end ?fs)"
  proof (rule ssh_messages_delivered_in_order)
    show "\<forall>oid. filter (\<lambda>f. object_id f = oid) ?fs = (case ?M oid of
        None \<Rightarrow> [] | Some m \<Rightarrow> split_message oid (msg_encode (uuids (scripted_codec [])) m))"
      by (auto simp: split_state_msg)
    show "\<forall>oid m. ?M oid = Some m \<longrightarrow> valid_str (msg_data m) \<and> canonical m = m \<and> quiet m
        \<and> length (msg_encode (uuids (scripted_codec [])) m) < 2 ^ 64"
      using state_msg_facts by (auto split: if_splits)
    show "concat (payloads ?ds) = concat (map encode_fragment ?fs)"
      by (simp add: encode_message_def del: take_append drop_append)
    show "\<forall>x\<in>set (payloads ?ds). x \<noteq> [] \<and> length x \<le> MAX_DATA_PAYLOAD" "cost (payloads ?ds) \<le> MAX_QUEUED_BYTES"
      using len by (auto simp: MAX_DATA_PAYLOAD_def MAX_QUEUED_BYTES_def queue_cost_def usize_add_def
          QUEUE_ENTRY_OVERHEAD_def simp del: take_append drop_append)
    show "pipe_events [] None ?ms = map Inr [?line]"
      using line by (simp add: pipe_events_def)
  qed (simp_all add: rfc.uuid_laws_axioms element_reader.line_reader_laws_axioms sample_line_env_def
      del: to_line.simps take_append drop_append)
  then show ?thesis
    by (simp add: split_state_msg Let_def flip: numeral_2_eq_2 numeral_3_eq_3
        del: ask.simps to_line.simps take_append drop_append)
qed

end
