(* ===== verification/Fake_Pwsh.thy ===== *)
theory Fake_Pwsh
  imports Sessions Pool_State Pipelines
begin

text \<open>
  The server that the crate tests its session against (\<open>src/src/out_of_proc/fake.rs\<close>): a \<open>pwsh -sshs\<close>
  that answers each line of the client and records as a violation every rule the client breaks.  It
  is the crate's own statement of what the server accepts.

  The state behind the two handles is one record, and a call on either is a function of it; the
  \<open>Debug\<close> texts of a set of ids and of a message type are parameters.
\<close>

section \<open>State\<close>

record fake_env =
  fk_lines :: line_env
  fk_codec :: codec_env
  ids_text :: "uuid set \<Rightarrow> ustr"
  type_text :: "message_type \<Rightarrow> ustr"

definition DEATH :: ustr where
  "DEATH = lit ''__NamedPipeError__:fake pwsh exited'' @ [13, 10] @ lit ''   at Fake()'' @ [13, 10]"

definition QUOTED :: nat where "QUOTED = 100"

type_synonym reply = "ustr \<times> bool"

datatype reaction = Reply "reply list" | Hang ustr | Die ustr

record fake =
  fk_written :: "ustr list"
  fk_violations :: "ustr list"
  fk_partial :: bytes
  fk_lines_seen :: nat
  fk_die_after :: "nat option"
  fk_hold_after :: "nat option"
  fk_chunk_size :: "nat option"
  fk_output :: "ps_value list"
  fk_run_forever :: bool
  fk_stall_writes :: bool
  fk_rpid :: uuid
  fk_open :: "uuid set"
  fk_pipeline_rpids :: "uuid \<rightharpoonup> uuid"
  fk_reassemblers :: "uuid \<rightharpoonup> reassembler"
  fk_object_id :: u64
  fk_out :: bytes
  fk_held :: "bytes option"
  fk_exited :: bool
  fk_queued :: nat
  fk_read :: nat
  fk_ack_end :: nat

definition fake_new :: fake where
  "fake_new =
     \<lparr>fk_written = [], fk_violations = [], fk_partial = [], fk_lines_seen = 0, fk_die_after = None,
      fk_hold_after = None, fk_chunk_size = None, fk_output = [], fk_run_forever = False,
      fk_stall_writes = False, fk_rpid = nil_uuid, fk_open = {}, fk_pipeline_rpids = Map.empty,
      fk_reassemblers = Map.empty, fk_object_id = 0, fk_out = [], fk_held = None, fk_exited = False,
      fk_queued = 0, fk_read = 0, fk_ack_end = 0\<rparr>"

section \<open>Writing to standard output\<close>

definition emit_bytes :: "bytes \<Rightarrow> fake \<Rightarrow> fake" where
  "emit_bytes bs F =
     (let F = F\<lparr>fk_queued := fk_queued F + length bs\<rparr> in
      case fk_held F of
        Some h \<Rightarrow> F\<lparr>fk_held := Some (h @ bs)\<rparr>
      | None \<Rightarrow> F\<lparr>fk_out := fk_out F @ bs\<rparr>)"

definition emit :: "ustr \<Rightarrow> fake \<Rightarrow> fake" where
  "emit t = emit_bytes (as_bytes t)"

definition die :: "fake \<Rightarrow> fake" where
  "die F = (emit DEATH F)\<lparr>fk_exited := True\<rparr>"

definition next_chunk :: "fake \<Rightarrow> fake \<times> bytes option" where
  "next_chunk F =
     (if fk_out F = [] then (F, None)
      else
        let n = (case fk_chunk_size F of
            Some n \<Rightarrow> min n (length (fk_out F))
          | None \<Rightarrow> (case dropWhile (\<lambda>b. b \<noteq> 10) (fk_out F) of
               [] \<Rightarrow> length (fk_out F)
             | _ # rest \<Rightarrow> length (fk_out F) - length rest))
        in (F\<lparr>fk_read := fk_read F + n, fk_out := drop n (fk_out F)\<rparr>, Some (take n (fk_out F))))"

definition at_eof :: "fake \<Rightarrow> bool" where
  "at_eof F \<longleftrightarrow> fk_exited F \<and> fk_out F = [] \<and> (case fk_held F of None \<Rightarrow> True | Some h \<Rightarrow> h = [])"

definition crlf :: "uuid_api \<Rightarrow> packet \<Rightarrow> ustr" where
  "crlf U p = rev (dropWhile (\<lambda>c. c = 10) (rev (to_line U p))) @ [13, 10]"

definition ack_reply :: "uuid_api \<Rightarrow> packet \<Rightarrow> reply" where
  "ack_reply U p = (crlf U p, True)"

text \<open>\<open>{:?}\<close> of a string.\<close>

definition debug_str :: "(uchar \<Rightarrow> bool) \<Rightarrow> ustr \<Rightarrow> ustr" where
  "debug_str hid t = 0x22 # concat (map (\<lambda>c. if c = 0x27 then [c] else escape_debug hid c) t) @ [0x22]"

definition quoted :: "fake_env \<Rightarrow> ustr \<Rightarrow> ustr" where
  "quoted E line = debug_str (hidden (fk_lines E)) (take QUOTED line)"

section \<open>Messages of the server\<close>

definition fk_message ::
    "fake_env \<Rightarrow> uuid \<Rightarrow> message_type \<Rightarrow> uuid \<Rightarrow> ustr \<Rightarrow> fake \<Rightarrow> fake \<times> reply list" where
  "fk_message E pid mt rpid data F =
     (let bs = msg_encode (uuids (fk_codec E))
            \<lparr>msg_destination = Client, msg_type = mt, msg_rpid = rpid, msg_pid = pid, msg_data = data\<rparr>;
          oid = fk_object_id F + 1
      in (F\<lparr>fk_object_id := oid\<rparr>,
          map (\<lambda>f. (crlf (line_uuids (fk_lines E)) (Data Default pid (encode_fragment f)), False))
            (split_message oid bs)))"

definition state_body :: "fake_env \<Rightarrow> string \<Rightarrow> u32 \<Rightarrow> ustr" where
  "state_body E name n = clixml_of (fk_codec E) (PsObject (object_with object_new (lit name) (PsI32 n)))"

definition fk_pool_state :: "fake_env \<Rightarrow> pool_state \<Rightarrow> fake \<Rightarrow> fake \<times> reply list" where
  "fk_pool_state E st F =
     fk_message E nil_uuid RunspacePoolState (fk_rpid F)
       (state_body E ''RunspaceState'' (word_of_int (pool_state_number st))) F"

text \<open>The discriminants of the enum.\<close>

fun pipeline_state_number :: "pipeline_state \<Rightarrow> u32" where
  "pipeline_state_number PNotStarted = 0"
| "pipeline_state_number PRunning = 1"
| "pipeline_state_number PStopping = 2"
| "pipeline_state_number PStopped = 3"
| "pipeline_state_number PCompleted = 4"
| "pipeline_state_number PFailed = 5"
| "pipeline_state_number PDisconnected = 6"
| "pipeline_state_number PUnknown = 7"

definition fk_pipeline_state :: "fake_env \<Rightarrow> uuid \<Rightarrow> uuid \<Rightarrow> pipeline_state \<Rightarrow> fake \<Rightarrow> fake \<times> reply list" where
  "fk_pipeline_state E pid rpid st =
     fk_message E pid PipelineState rpid (state_body E ''PipelineState'' (pipeline_state_number st))"

fun fk_outputs :: "fake_env \<Rightarrow> uuid \<Rightarrow> uuid \<Rightarrow> ps_value list \<Rightarrow> fake \<Rightarrow> fake \<times> reply list" where
  "fk_outputs E pid rpid [] F = (F, [])"
| "fk_outputs E pid rpid (v # vs) F =
     (case fk_message E pid PipelineOutput rpid (clixml_of (fk_codec E) v) F of
        (F, rs) \<Rightarrow> (case fk_outputs E pid rpid vs F of (F, later) \<Rightarrow> (F, rs @ later)))"

section \<open>Reacting to a line\<close>

text \<open>The messages that a payload completes.\<close>

definition fk_decode :: "fake_env \<Rightarrow> uuid \<Rightarrow> bytes \<Rightarrow> fake \<Rightarrow> fake \<times> psrp_message list" where
  "fk_decode E g payload F =
     (let r = (case fk_reassemblers F g of Some r \<Rightarrow> r | None \<Rightarrow> reassembler_new) in
      case feed r payload of
        (r, Inr done_msgs) \<Rightarrow>
          (F\<lparr>fk_reassemblers := (fk_reassemblers F)(g \<mapsto> r)\<rparr>,
           filter_map (\<lambda>bs. option_of (msg_decode (uuids (fk_codec E)) bs)) done_msgs)
      | (r, Inl e) \<Rightarrow> (F\<lparr>fk_reassemblers := (fk_reassemblers F)(g := None)\<rparr>, []))"

definition creates :: "psrp_message \<Rightarrow> bool" where
  "creates m \<longleftrightarrow> msg_type m = CreatePipeline \<or> msg_type m = GetCommandMetadata"

definition misdirected :: "fake_env \<Rightarrow> uuid \<Rightarrow> psrp_message \<Rightarrow> ustr" where
  "misdirected E g m =
     type_text E (msg_type m) @ lit '' for PID '' @ hyphenated (uuids (fk_codec E)) (msg_pid m)
     @ lit '' carried by Data on '' @ hyphenated (uuids (fk_codec E)) g"

text \<open>Replies of the pool go before the acknowledgement, those of a pipeline after it.\<close>

fun fk_messages ::
    "fake_env \<Rightarrow> uuid \<Rightarrow> psrp_message list \<Rightarrow> reply list \<Rightarrow> reply list \<Rightarrow> fake
     \<Rightarrow> fake \<times> (ustr + reply list \<times> reply list)" where
  "fk_messages E g [] before after F = (F, Inr (before, after))"
| "fk_messages E g (m # ms) before after F =
     (if creates m \<and> msg_pid m \<noteq> g then (F, Inl (misdirected E g m))
      else if msg_type m = InitRunspacePool then
        (case fk_pool_state E Opened (F\<lparr>fk_rpid := msg_rpid m\<rparr>) of
           (F, rs) \<Rightarrow> fk_messages E g ms (before @ rs) after F)
      else if creates m then
        (let F = F\<lparr>fk_pipeline_rpids := (fk_pipeline_rpids F)(g \<mapsto> msg_rpid m)\<rparr> in
         if fk_run_forever F then fk_messages E g ms before after F
         else
           case fk_outputs E g (msg_rpid m) (fk_output F) F of
             (F, outs) \<Rightarrow>
               (case fk_pipeline_state E g (msg_rpid m) PCompleted F of
                  (F, rs) \<Rightarrow> fk_messages E g ms before (after @ outs @ rs) F))
      else fk_messages E g ms before after F)"

definition fk_data :: "fake_env \<Rightarrow> uuid \<Rightarrow> bytes \<Rightarrow> fake \<Rightarrow> fake \<times> reaction" where
  "fk_data E g payload F =
     (if length payload > MAX_DATA_PAYLOAD
      then (F, Die (lit ''Data of '' @ show_nat (length payload) @ lit '' bytes, above '' @ show_nat MAX_DATA_PAYLOAD))
      else if g \<noteq> nil_uuid \<and> g \<notin> fk_open F
      then (F, Die (lit ''Data on '' @ hyphenated (line_uuids (fk_lines E)) g @ lit '' without an open Command''))
      else
        case fk_decode E g payload F of
          (F, ms) \<Rightarrow>
            (case fk_messages E g ms [] [] F of
               (F, Inl violation) \<Rightarrow> (F, Die violation)
             | (F, Inr (before, after)) \<Rightarrow>
                 (F, Reply (before @ [ack_reply (line_uuids (fk_lines E)) (DataAck g)] @ after))))"

definition react :: "fake_env \<Rightarrow> ustr \<Rightarrow> fake \<Rightarrow> fake \<times> reaction" where
  "react E line F =
     (let U = line_uuids (fk_lines E) in
      if trim line = [] then (F, Die (lit ''blank line''))
      else if trim line \<noteq> line then (F, Die (lit ''whitespace around the element: '' @ quoted E line))
      else
        case parse_line (fk_lines E) line of
          Inl e \<Rightarrow> (F, Die (lit ''malformed line ('' @ display winrm_display e @ lit '')''))
        | Inr None \<Rightarrow> (F, Die (lit ''blank line''))
        | Inr (Some p) \<Rightarrow>
            (case p of
               Signal pid \<Rightarrow>
                 if pid = nil_uuid then (F, Die (lit ''Signal on the session: '' @ quoted E line))
                 else
                   (let rpid = (case fk_pipeline_rpids F pid of Some r \<Rightarrow> r | None \<Rightarrow> fk_rpid F) in
                    case fk_pipeline_state E pid rpid PStopped F of
                      (F, rs) \<Rightarrow> (F, Reply (rs @ [ack_reply U (SignalAck pid)])))
             | Command pid \<Rightarrow>
                 if pid \<notin> fk_open F
                 then (F\<lparr>fk_open := insert pid (fk_open F)\<rparr>, Reply [ack_reply U (CommandAck pid)])
                 else (F, Die (lit ''Command for '' @ hyphenated U pid @ lit '', already open''))
             | Close pid \<Rightarrow>
                 if pid = nil_uuid then
                   if fk_open F = {} then
                     (case fk_pool_state E Closed F of
                        (F, rs) \<Rightarrow> (F, Reply (rs @ [ack_reply U (CloseAck nil_uuid)])))
                   else (F, Hang (lit ''Close of the session while commands are open: '' @ ids_text E (fk_open F)))
                 else
                   (F\<lparr>fk_open := fk_open F - {pid}, fk_reassemblers := (fk_reassemblers F)(pid := None)\<rparr>,
                    Reply [ack_reply U (CloseAck pid)])
             | Data s g payload \<Rightarrow> fk_data E g payload F
             | _ \<Rightarrow> (F, Die (lit ''acknowledgement sent to the server: '' @ quoted E line))))"

fun emit_replies :: "reply list \<Rightarrow> fake \<Rightarrow> fake" where
  "emit_replies [] F = F"
| "emit_replies ((t, acks) # rs) F =
     (let F = emit t F in emit_replies rs (if acks then F\<lparr>fk_ack_end := fk_queued F\<rparr> else F))"

definition answer :: "reply list \<Rightarrow> fake \<Rightarrow> fake" where
  "answer rs F =
     (if fk_die_after F = Some (fk_lines_seen F) then die F
      else
        emit_replies rs
          (if (case fk_hold_after F of Some n \<Rightarrow> fk_lines_seen F > n | None \<Rightarrow> False)
           then F\<lparr>fk_held := Some (case fk_held F of Some h \<Rightarrow> h | None \<Rightarrow> [])\<rparr>
           else F))"

definition violated :: "ustr \<Rightarrow> fake \<Rightarrow> fake" where
  "violated v F = F\<lparr>fk_violations := fk_violations F @ [v]\<rparr>"

definition client_line :: "fake_env \<Rightarrow> ustr \<Rightarrow> fake \<Rightarrow> fake" where
  "client_line E line F =
     (let F = F\<lparr>fk_written := fk_written F @ [line]\<rparr> in
      if fk_exited F then F
      else
        let F = F\<lparr>fk_lines_seen := fk_lines_seen F + 1\<rparr> in
        case (if fk_read F < fk_ack_end F
              then (F, Die (lit ''request written before the previous acknowledgement was read: '' @ quoted E line))
              else react E line F) of
          (F, Reply rs) \<Rightarrow> answer rs F
        | (F, Hang v) \<Rightarrow> answer [] (violated v F)
        | (F, Die v) \<Rightarrow> die (violated v F))"

text \<open>The lines that newlines end; the rest stays for later.\<close>

function client_lines :: "fake_env \<Rightarrow> bytes \<Rightarrow> fake \<Rightarrow> fake" where
  "client_lines E bs F =
     (case dropWhile (\<lambda>b. b \<noteq> 10) bs of
        [] \<Rightarrow> F\<lparr>fk_partial := bs\<rparr>
      | nl # rest \<Rightarrow>
          client_lines E rest
            (client_line E (from_utf8_lossy (takeWhile (\<lambda>b. b \<noteq> 10) bs)) (F\<lparr>fk_partial := rest\<rparr>)))"
  by pat_completeness auto
termination
  by (relation "measure (\<lambda>(E, bs, F). length bs)") (auto dest: dropWhile_tail_length)

declare client_lines.simps [simp del]

definition client_bytes :: "fake_env \<Rightarrow> bytes \<Rightarrow> fake \<Rightarrow> fake" where
  "client_bytes E bs F = client_lines E (fk_partial F @ bs) F"

section \<open>The pipe\<close>

definition fake_write :: "fake_env \<Rightarrow> bytes \<Rightarrow> fake \<Rightarrow> fake \<times> unit res option" where
  "fake_write E bs F =
     (if fk_stall_writes F then (client_bytes E (take (length bs div 2) bs) F, None)
      else (client_bytes E bs F, Some (Inr ())))"

definition fake_read :: "fake \<Rightarrow> fake \<times> bytes res option" where
  "fake_read F =
     (case next_chunk F of
        (F, Some chunk) \<Rightarrow> (F, Some (Inr chunk))
      | (F, None) \<Rightarrow>
          if at_eof F then (F, Some (Inl (protocol (lit ''fake pwsh: end of stdout'')))) else (F, None))"

definition fake_pipe :: "fake_env \<Rightarrow> (fake \<Rightarrow> bool) \<Rightarrow> ustr \<Rightarrow> fake pipe_env" where
  "fake_pipe E late t =
     \<lparr>line_codec = fk_lines E, pipe_write = fake_write E, pipe_read = fake_read, elapses = late, timeout_text = t\<rparr>"

section \<open>The handle\<close>

definition set_chunk_size :: "nat \<Rightarrow> fake \<Rightarrow> fake" where
  "set_chunk_size n F = F\<lparr>fk_chunk_size := Some (max n 1)\<rparr>"

definition set_output :: "ps_value list \<Rightarrow> fake \<Rightarrow> fake" where
  "set_output vs F = F\<lparr>fk_output := vs\<rparr>"

definition set_pipelines_run_forever :: "bool \<Rightarrow> fake \<Rightarrow> fake" where
  "set_pipelines_run_forever b F = F\<lparr>fk_run_forever := b\<rparr>"

definition hold_replies :: "bool \<Rightarrow> fake \<Rightarrow> fake" where
  "hold_replies b F =
     (if b then F\<lparr>fk_held := Some (case fk_held F of Some h \<Rightarrow> h | None \<Rightarrow> [])\<rparr>
      else
        let F = F\<lparr>fk_hold_after := None\<rparr> in
        case fk_held F of
          Some h \<Rightarrow> F\<lparr>fk_held := None, fk_out := fk_out F @ h\<rparr>
        | None \<Rightarrow> F)"

definition hold_replies_after_writes :: "nat \<Rightarrow> fake \<Rightarrow> fake" where
  "hold_replies_after_writes n F = F\<lparr>fk_hold_after := Some n\<rparr>"

definition stall_writes :: "bool \<Rightarrow> fake \<Rightarrow> fake" where
  "stall_writes b F = F\<lparr>fk_stall_writes := b\<rparr>"

definition inject_bytes :: "bytes \<Rightarrow> fake \<Rightarrow> fake" where
  "inject_bytes raw F = emit_bytes raw F"

definition inject :: "ustr \<Rightarrow> fake \<Rightarrow> fake" where
  "inject raw F = inject_bytes (as_bytes raw) F"

definition die_after_writes :: "nat \<Rightarrow> fake \<Rightarrow> fake" where
  "die_after_writes n F = F\<lparr>fk_die_after := Some n\<rparr>"

definition hang_up :: "fake \<Rightarrow> fake" where
  "hang_up F = F\<lparr>fk_exited := True\<rparr>"

end
