(* ===== verification/Fake_Properties.thy ===== *)
theory Fake_Properties
  imports Fake_Pwsh Session_Properties
begin

text \<open>
  The session against the server of the tests: whatever operations the client runs, cancelled ones
  included, and however the server cuts, holds back or stops its output, the server records no broken
  rule of the line protocol, as long as the test injects no output of its own.
\<close>

section \<open>The lines of the server\<close>

text \<open>A text that is no UTF-8 is only ever read where there is none.\<close>

lemma lossy_as_bytes: "valid_str t \<Longrightarrow> from_utf8_lossy (as_bytes t) = t"
proof (induction t)
  case Nil
  show ?case by (simp add: from_utf8_lossy_def utf8_lossy.simps)
next
  case (Cons c t)
  then have c: "scalar c" and t: "valid_str t" by (auto simp: list_all_iff)
  have bytes: "map unat (as_bytes (c # t)) = utf8_enc_char c @ map unat (as_bytes t)"
    using map_unat_as_bytes [of "c # t"] map_unat_as_bytes [OF t] Cons.prems by simp
  have "utf8_char (utf8_enc_char c @ map unat (as_bytes t)) = Inr (c, length (utf8_enc_char c))"
    using utf8_char_enc [OF c] by simp
  then show ?case
    using Cons.IH [OF t] unfolding from_utf8_lossy_def bytes by (subst utf8_lossy.simps) simp
qed

lemma crlf_text: "crlf U p = packet_text U p @ [13, 10]"
proof -
  obtain t c where t: "packet_text U p = t @ [c]" using packet_text_ends(1) [of U p] by (metis rev_exhaust)
  then have "c = 62" using packet_text_ends(3) [of U p] by simp
  with t show ?thesis by (simp add: crlf_def to_line_text)
qed

definition crlf_stream :: "uuid_api \<Rightarrow> packet list \<Rightarrow> bytes" where
  "crlf_stream U ps = concat (map (\<lambda>p. as_bytes (crlf U p)) ps)"

lemma crlf_stream_simps [simp]:
  "crlf_stream U [] = []" "crlf_stream U (p # ps) = as_bytes (crlf U p) @ crlf_stream U ps"
  "crlf_stream U (ps @ qs) = crlf_stream U ps @ crlf_stream U qs"
  by (simp_all add: crlf_stream_def)

definition printable :: "ustr \<Rightarrow> bool" where
  "printable t \<longleftrightarrow> t \<noteq> [] \<and> (\<forall>c\<in>set t. 32 \<le> c \<and> c < 127)"

lemma printable_packet: "uuid_laws U \<Longrightarrow> printable (packet_text U p)"
  using packet_text_chars [of U p] packet_text_ends(1) [of U p] by (fastforce simp: printable_def)

lemma printable_valid: "printable t \<Longrightarrow> valid_str t"
  by (auto simp: printable_def list_all_iff intro!: scalar_ascii)

lemma printable_bytes:
  assumes "printable t"
  shows "10 \<notin> set (as_bytes t)" "as_bytes (t @ [13, 10]) = as_bytes t @ [13, 10]"
proof -
  have bytes: "as_bytes t = map of_nat t" using assms by (intro as_bytes_ascii) (auto simp: printable_def)
  have "(of_nat c :: u8) \<noteq> 10" if "c \<in> set t" for c
  proof -
    have "32 \<le> c" "c < 127" using that assms by (auto simp: printable_def)
    then have "(of_nat c :: u8) = w \<Longrightarrow> c = unat w" for w by auto
    from this [of 10] \<open>32 \<le> c\<close> show ?thesis by auto
  qed
  then show "10 \<notin> set (as_bytes t)" by (force simp: bytes)
  show "as_bytes (t @ [13, 10]) = as_bytes t @ [13, 10]"
    by (simp add: as_bytes_append) (simp add: as_bytes_def utf8_enc_char_def)
qed

lemma end_line_crlf:
  assumes "printable t" "ls_buf sp @ head = as_bytes t @ [13]" "end_line hid head sp = (sp', Inr line)"
  shows "line = t"
proof -
  have t: "t \<noteq> []" "hd t < 127" using assms(1) hd_in_set [of t] by (auto simp: printable_def)
  then have "hd t \<noteq> BOM_CHAR" by (auto simp: BOM_CHAR_def)
  moreover have "strip_cr (as_bytes t @ [13]) = as_bytes t" by (simp add: strip_cr_def)
  ultimately have "finish_line hid (as_bytes t @ [13]) sp1 = (sp2, Inr line) \<Longrightarrow> line = t" for sp1 sp2
    using printable_valid [OF assms(1)] t
    by (auto simp: finish_line_def Let_def split: if_splits list.splits)
  with assms(2,3) show ?thesis
    by (auto simp: end_line_def split: if_splits)
qed

text \<open>What the splitter makes of the start of such a stream.\<close>

lemma split_at_newline:
  "a @ 10 # b = a' @ 10 # b' \<Longrightarrow> 10 \<notin> set a \<Longrightarrow> (10 :: u8) \<notin> set a' \<Longrightarrow> a = a' \<and> b = b'"
  by (metis until_newline(1,2) list.inject)

lemma push_stream:
  assumes "uuid_laws U" "ls_buf sp @ bs @ rest = crlf_stream U ps" "10 \<notin> set (ls_buf sp)"
    and "push hid bs sp = (sp', ts, None)"
  shows "\<exists>qs ps'. ps = qs @ ps' \<and> ts = map (packet_text U) qs \<and> 10 \<notin> set (ls_buf sp')
    \<and> ls_buf sp' @ rest = crlf_stream U ps'"
  using assms(2-)
proof (induction bs arbitrary: sp ps ts rule: newline_induct)
  case (rest bs)
  then have "ts = []" "ls_buf sp' = ls_buf sp @ bs" by (auto simp: push_def push_rest split: if_splits)
  with rest show ?case by (intro exI [of _ "[]"] exI [of _ ps]) simp
next
  case (line head tail)
  obtain p ps1 where ps: "ps = p # ps1"
    using line.prems(1) by (cases ps) auto
  have pr: "printable (packet_text U p)" by (rule printable_packet [OF assms(1)])
  have "(ls_buf sp @ head) @ 10 # (tail @ rest) = (as_bytes (packet_text U p) @ [13]) @ 10 # crlf_stream U ps1"
    using line.prems(1) ps printable_bytes(2) [OF pr] by (simp add: crlf_text)
  moreover have "10 \<notin> set (ls_buf sp @ head)" "10 \<notin> set (as_bytes (packet_text U p) @ [13])"
    using line.hyps(1) line.prems(2) printable_bytes(1) [OF pr] by auto
  ultimately have cut: "ls_buf sp @ head = as_bytes (packet_text U p) @ [13]" "tail @ rest = crlf_stream U ps1"
    using split_at_newline by blast+
  obtain sp1 l where e: "end_line hid head sp = (sp1, Inr l)"
    using line.prems(3) line.hyps(1) by (auto simp: push_def push_line split: prod.splits sum.splits)
  have l: "l = packet_text U p" by (rule end_line_crlf [OF pr cut(1) e])
  have buf: "ls_buf sp1 = []" by (rule end_line_buf [OF e])
  obtain later where later: "push hid tail sp1 = (sp', later, None)" "ts = l # later"
    using line.prems(3) line.hyps(1) e push_acc [of hid "[l]" tail sp1]
    by (auto simp: push_def [of hid "_ @ 10 # _"] push_line split: prod.splits)
  from line.IH [of sp1 ps1 later] cut(2) buf later(1) obtain qs ps' where
    "ps1 = qs @ ps'" "later = map (packet_text U) qs" "10 \<notin> set (ls_buf sp')" "ls_buf sp' @ rest = crlf_stream U ps'"
    by auto
  with ps l later(2) show ?case by (intro exI [of _ "p # qs"] exI [of _ ps']) simp
qed

section \<open>What the client makes of them\<close>

text \<open>The command that is open once the request in flight is answered, and the answers to come.\<close>

definition settled_command :: "'p session \<Rightarrow> uuid option" where
  "settled_command s =
     (case awaiting s of None \<Rightarrow> open_command s | Some a \<Rightarrow> ack_effect a (open_command s))"

definition due :: "'p session \<Rightarrow> packet list" where
  "due s = (case awaiting s of None \<Rightarrow> [] | Some a \<Rightarrow> [a])"

lemma on_lines_due:
  assumes "uuid_laws (line_uuids L)" "line_reader_laws (line_reader L)"
  shows "on_lines L (map (packet_text (line_uuids L)) qs) s = (s', Inr u) \<Longrightarrow> \<forall>q\<in>set qs. worded q \<Longrightarrow>
    filter is_ack (qs @ ps) = due s \<Longrightarrow> filter is_ack ps = due s' \<and> settled_command s' = settled_command s"
proof (induction qs arbitrary: s)
  case (Cons q qs)
  have q: "parse_line L (packet_text (line_uuids L) q) = Inr (Some q)"
    using parse_line_text [OF assms] Cons.prems(2) by simp
  obtain s1 where s1: "on_line L (packet_text (line_uuids L) q) s = (s1, Inr ())"
    "on_lines L (map (packet_text (line_uuids L)) qs) s1 = (s', Inr u)"
    using Cons.prems(1) by (auto split: prod.splits sum.splits)
  have "filter is_ack (qs @ ps) = due s1 \<and> settled_command s1 = settled_command s"
  proof (cases "is_ack q")
    case True
    with Cons.prems(3) have "awaiting s = Some q" "filter is_ack (qs @ ps) = []"
      by (auto simp: due_def split: option.splits)
    then show ?thesis
      using s1(1) q True
      by (auto simp: on_line_def due_def settled_command_def acknowledged_effect is_ack_def split: packet.splits)
  next
    case False
    then have "awaiting s1 = awaiting s \<and> open_command s1 = open_command s"
      using s1(1) q by (auto simp: on_line_def enqueue_def Let_def is_ack_def split: packet.splits if_splits)
    with Cons.prems(3) False show ?thesis by (auto simp: due_def settled_command_def split: option.split)
  qed
  with Cons.IH [OF s1(2)] Cons.prems(2) show ?case by auto
qed simp

lemma process_due:
  assumes "uuid_laws (line_uuids L)" "line_reader_laws (line_reader L)"
    and "process L chunk s = (s', Inr u)" "ls_buf (ses_lines s) @ chunk @ rest = crlf_stream (line_uuids L) ps"
    and "10 \<notin> set (ls_buf (ses_lines s))" "\<forall>p\<in>set ps. worded p" "filter is_ack ps = due s"
  shows "\<exists>qs ps'. ps = qs @ ps' \<and> ls_buf (ses_lines s') @ rest = crlf_stream (line_uuids L) ps'
    \<and> 10 \<notin> set (ls_buf (ses_lines s')) \<and> filter is_ack ps' = due s' \<and> settled_command s' = settled_command s"
proof -
  obtain sp ts e where p: "push (hidden L) chunk (ses_lines s) = (sp, ts, e)" by (metis prod_cases3)
  obtain s1 x where l: "on_lines L ts (s\<lparr>ses_lines := sp\<rparr>) = (s1, x)" by fastforce
  have e: "e = None" "x = Inr u" "s1 = s'"
    using assms(3) p l by (auto simp: process_def split: sum.splits option.splits)
  obtain qs ps' where qs: "ps = qs @ ps'" "ts = map (packet_text (line_uuids L)) qs" "10 \<notin> set (ls_buf sp)"
    "ls_buf sp @ rest = crlf_stream (line_uuids L) ps'"
    using push_stream [OF assms(1,4,5), of "hidden L" sp ts] p e(1) by auto
  have match: "filter is_ack (qs @ ps') = due (s\<lparr>ses_lines := sp\<rparr>)" using assms(7) qs(1) by (simp add: due_def)
  have worded: "\<forall>q\<in>set qs. worded q" using assms(6) qs(1) by simp
  have "settled_command (s\<lparr>ses_lines := sp\<rparr>) = settled_command s"
    by (auto simp: settled_command_def split: option.split)
  then have "filter is_ack ps' = due s' \<and> settled_command s' = settled_command s"
    using on_lines_due [OF assms(1,2) l [unfolded qs(2) e(2)] worded match] e(3) by simp
  moreover have "ses_lines s' = sp"
    using on_lines_splitter [OF l] e(3) by simp
  ultimately show ?thesis using qs by auto
qed

section \<open>What the server answers\<close>

definition unread :: "fake \<Rightarrow> bytes" where
  "unread F = fk_out F @ (case fk_held F of Some h \<Rightarrow> h | None \<Rightarrow> [])"

text \<open>What reacting to a line leaves alone.\<close>

definition books :: "fake \<Rightarrow> ustr list \<times> bytes \<times> bytes \<times> bytes option \<times> bool \<times> nat \<times> nat \<times> nat" where
  "books F = (fk_violations F, fk_partial F, fk_out F, fk_held F, fk_exited F, fk_queued F, fk_read F, fk_ack_end F)"

definition replies_of :: "uuid_api \<Rightarrow> packet list \<Rightarrow> reply list" where
  "replies_of U ps = map (\<lambda>p. (crlf U p, is_ack p)) ps"

definition data_replies :: "uuid_api \<Rightarrow> reply list \<Rightarrow> bool" where
  "data_replies U rs \<longleftrightarrow> (\<exists>ps. rs = replies_of U ps \<and> (\<forall>p\<in>set ps. worded p) \<and> filter is_ack ps = [])"

lemma data_replies_Nil [simp]: "data_replies U []"
  unfolding data_replies_def by (rule exI [of _ "[]"]) (simp add: replies_of_def)

lemma data_replies_append:
  assumes "data_replies U rs" "data_replies U rs'"
  shows "data_replies U (rs @ rs')"
proof -
  obtain ps qs where "rs = replies_of U ps" "rs' = replies_of U qs" "\<forall>p\<in>set (ps @ qs). worded p"
    "filter is_ack (ps @ qs) = []"
    using assms by (auto simp: data_replies_def)
  then show ?thesis unfolding data_replies_def by (intro exI [of _ "ps @ qs"]) (simp add: replies_of_def)
qed

lemma fk_message_says:
  assumes "fk_message E pid mt rpid data F = (F', rs)"
  shows "books F' = books F \<and> fk_open F' = fk_open F \<and> data_replies (line_uuids (fk_lines E)) rs"
proof -
  have "encode_fragment f \<noteq> []" for f by (simp add: encode_fragment_def)
  then have "data_replies U (map (\<lambda>f. (crlf U (Data Default pid (encode_fragment f)), False)) fs)" for U fs
    unfolding data_replies_def
    by (intro exI [of _ "map (\<lambda>f. Data Default pid (encode_fragment f)) fs"])
      (auto simp: replies_of_def worded_def is_ack_def)
  with assms show ?thesis by (auto simp: fk_message_def Let_def books_def)
qed

lemma fk_outputs_says:
  "fk_outputs E pid rpid vs F = (F', rs) \<Longrightarrow>
     books F' = books F \<and> fk_open F' = fk_open F \<and> data_replies (line_uuids (fk_lines E)) rs"
proof (induction vs arbitrary: F rs)
  case (Cons v vs)
  then show ?case
    by (auto split: prod.splits dest!: fk_message_says intro: data_replies_append)
qed simp

lemma fk_messages_says:
  "fk_messages E g ms before after F = (F', r) \<Longrightarrow>
     data_replies (line_uuids (fk_lines E)) before \<Longrightarrow> data_replies (line_uuids (fk_lines E)) after \<Longrightarrow>
     books F' = books F \<and> fk_open F' = fk_open F \<and>
     (case r of
        Inl v \<Rightarrow> \<exists>m. creates m \<and> msg_pid m \<noteq> g \<and> v = misdirected E g m
      | Inr (b, a) \<Rightarrow> data_replies (line_uuids (fk_lines E)) b \<and> data_replies (line_uuids (fk_lines E)) a)"
proof (induction ms arbitrary: before after F)
  case (Cons m ms)
  let ?U = "line_uuids (fk_lines E)"
  consider "creates m \<and> msg_pid m \<noteq> g" | "\<not> (creates m \<and> msg_pid m \<noteq> g)" "msg_type m = InitRunspacePool"
    | "\<not> (creates m \<and> msg_pid m \<noteq> g)" "msg_type m \<noteq> InitRunspacePool" "creates m" "\<not> fk_run_forever F"
    | "\<not> (creates m \<and> msg_pid m \<noteq> g)" "msg_type m \<noteq> InitRunspacePool" "\<not> creates m \<or> fk_run_forever F" by blast
  then show ?case
  proof cases
    case 1
    with Cons.prems show ?thesis by auto
  next
    case 2
    obtain F1 rs where st: "fk_pool_state E Opened (F\<lparr>fk_rpid := msg_rpid m\<rparr>) = (F1, rs)" by fastforce
    from fk_message_says [OF st [unfolded fk_pool_state_def]]
    have F1: "books F1 = books F" "fk_open F1 = fk_open F" "data_replies ?U rs" by (simp_all add: books_def)
    have "fk_messages E g ms (before @ rs) after F1 = (F', r)" using Cons.prems(1) 2 st by simp
    from Cons.IH [OF this data_replies_append [OF Cons.prems(2) F1(3)] Cons.prems(3)] F1 show ?thesis by simp
  next
    case 3
    let ?F = "F\<lparr>fk_pipeline_rpids := (fk_pipeline_rpids F)(g \<mapsto> msg_rpid m)\<rparr>"
    obtain F1 outs where o: "fk_outputs E g (msg_rpid m) (fk_output F) ?F = (F1, outs)" by fastforce
    obtain F2 rs where st: "fk_pipeline_state E g (msg_rpid m) PCompleted F1 = (F2, rs)" by fastforce
    have F2: "books F2 = books F" "fk_open F2 = fk_open F" "data_replies ?U (outs @ rs)"
      using fk_outputs_says [OF o] fk_message_says [OF st [unfolded fk_pipeline_state_def]]
      by (simp_all add: books_def data_replies_append)
    have "fk_messages E g ms before (after @ outs @ rs) F2 = (F', r)"
      using Cons.prems(1) 3 o st by (simp add: Let_def)
    from Cons.IH [OF this Cons.prems(2) data_replies_append [OF Cons.prems(3) F2(3)]] F2 show ?thesis by simp
  next
    case 4
    let ?F = "if creates m then F\<lparr>fk_pipeline_rpids := (fk_pipeline_rpids F)(g \<mapsto> msg_rpid m)\<rparr> else F"
    have F1: "books ?F = books F" "fk_open ?F = fk_open F" by (simp_all add: books_def)
    have "fk_messages E g ms before after ?F = (F', r)" using Cons.prems(1) 4 by (auto simp: Let_def)
    from Cons.IH [OF this Cons.prems(2,3)] F1 show ?thesis by simp
  qed
qed auto

text \<open>An answer to a request: its acknowledgement, among lines of data.\<close>

definition acks_once :: "uuid_api \<Rightarrow> packet \<Rightarrow> reply list \<Rightarrow> bool" where
  "acks_once U a rs \<longleftrightarrow> (\<exists>ps. rs = replies_of U ps \<and> (\<forall>p\<in>set ps. worded p) \<and> filter is_ack ps = [a])"

lemma acks_onceI:
  assumes "data_replies U b" "data_replies U c" "is_ack a"
  shows "acks_once U a (b @ [ack_reply U a] @ c)"
proof -
  obtain ps qs where b: "b = replies_of U ps" "c = replies_of U qs" "\<forall>p\<in>set ps. worded p" "\<forall>p\<in>set qs. worded p"
    "filter is_ack ps = []" "filter is_ack qs = []"
    using assms(1,2) by (auto simp: data_replies_def)
  have "worded a" using assms(3) by (auto simp: worded_def is_ack_def split: packet.splits)
  then show ?thesis
    unfolding acks_once_def
    using b assms(3) by (intro exI [of _ "ps @ [a] @ qs"]) (auto simp: replies_of_def ack_reply_def)
qed

text \<open>Reacting to a request that is permitted: one acknowledgement, and the books stay as they are.\<close>

definition well_reacted :: "fake_env \<Rightarrow> packet \<Rightarrow> uuid option \<Rightarrow> fake \<Rightarrow> fake \<times> reaction \<Rightarrow> bool" where
  "well_reacted E p oc F r \<longleftrightarrow> books (fst r) = books F \<and>
     (case snd r of
        Reply rs \<Rightarrow> acks_once (line_uuids (fk_lines E)) (ack_of p) rs
          \<and> fk_open (fst r) = set_option (ack_effect (ack_of p) oc)
      | Hang v \<Rightarrow> False
      | Die v \<Rightarrow> \<exists>g m. creates m \<and> msg_pid m \<noteq> g \<and> v = misdirected E g m)"

lemma fk_decode_books: "fk_decode E g payload F = (F', ms) \<Longrightarrow> books F' = books F \<and> fk_open F' = fk_open F"
  by (auto simp: fk_decode_def Let_def books_def split: prod.splits sum.splits)

lemma fk_data_well:
  assumes "permitted (Data s g payload) oc" "fk_open F = set_option oc"
  shows "well_reacted E (Data s g payload) oc F (fk_data E g payload F)"
proof -
  let ?U = "line_uuids (fk_lines E)"
  have ok: "length payload \<le> MAX_DATA_PAYLOAD" "g = nil_uuid \<or> g \<in> fk_open F"
    using assms by (auto simp: permitted_def)
  obtain F1 ms where d: "fk_decode E g payload F = (F1, ms)" by fastforce
  obtain F2 r where m: "fk_messages E g ms [] [] F1 = (F2, r)" by fastforce
  have books: "books F2 = books F" "fk_open F2 = set_option oc"
    using fk_decode_books [OF d] fk_messages_says [OF m] assms(2) by simp_all
  show ?thesis
  proof (cases r)
    case (Inl v)
    with fk_messages_says [OF m] ok d m books show ?thesis
      by (auto simp: fk_data_def well_reacted_def)
  next
    case (Inr q)
    obtain b a where q: "q = (b, a)" by fastforce
    have "data_replies ?U b" "data_replies ?U a" using fk_messages_says [OF m] Inr q by simp_all
    then have "acks_once ?U (DataAck g) (b @ [ack_reply ?U (DataAck g)] @ a)"
      by (rule acks_onceI) (simp add: is_ack_def)
    with ok d m Inr q books show ?thesis
      by (auto simp: fk_data_def well_reacted_def ack_effect_def)
  qed
qed

lemma react_well:
  assumes "uuid_laws (line_uuids (fk_lines E))" "line_reader_laws (line_reader (fk_lines E))"
    and "permitted p oc" "fk_open F = set_option oc" "oc \<noteq> Some nil_uuid"
  shows "well_reacted E p oc F (react E (packet_text (line_uuids (fk_lines E)) p) F)"
proof -
  let ?U = "line_uuids (fk_lines E)" and ?t = "packet_text (line_uuids (fk_lines E)) p"
  have worded: "worded p" using assms(3) by (auto simp: permitted_def worded_def split: packet.splits)
  have t: "trim ?t = ?t" "?t \<noteq> []"
    using packet_text_ends [of ?U p] by (auto intro!: trim_same simp: is_whitespace_def)
  note parse = parse_line_text [OF assms(1,2) worded]
  have one: "acks_once ?U a [ack_reply ?U a]" if "is_ack a" for a
    using acks_onceI [of ?U "[]" "[]" a] that by simp
  show ?thesis
  proof (cases p)
    case (Data s g payload)
    with t parse fk_data_well [of s g payload oc F E] assms(3,4) show ?thesis by (simp add: react_def Let_def)
  next
    case (Command g)
    with assms(3,4) have "oc = None" "fk_open F = {}" by (auto simp: permitted_def)
    with Command t parse one show ?thesis
      by (simp add: react_def Let_def well_reacted_def books_def ack_effect_def is_ack_def)
  next
    case (Signal g)
    then have g: "oc = Some g" "g \<noteq> nil_uuid" using assms(3,5) by (auto simp: permitted_def)
    let ?rpid = "case fk_pipeline_rpids F g of Some r \<Rightarrow> r | None \<Rightarrow> fk_rpid F"
    obtain F1 rs where st: "fk_pipeline_state E g ?rpid PStopped F = (F1, rs)" by fastforce
    from fk_message_says [OF st [unfolded fk_pipeline_state_def]]
    have F1: "books F1 = books F" "fk_open F1 = fk_open F" "data_replies ?U rs" by simp_all
    have "acks_once ?U (SignalAck g) (rs @ [ack_reply ?U (SignalAck g)])"
      using acks_onceI [OF F1(3) data_replies_Nil, of "SignalAck g"] by (simp add: is_ack_def)
    with Signal g t parse st F1 assms(4) show ?thesis
      by (simp add: react_def Let_def well_reacted_def ack_effect_def)
  next
    case (Close g)
    show ?thesis
    proof (cases "g = nil_uuid")
      case True
      with Close assms(3,4) have none: "oc = None" "fk_open F = {}" by (auto simp: permitted_def)
      obtain F1 rs where st: "fk_pool_state E Closed F = (F1, rs)" by fastforce
      from fk_message_says [OF st [unfolded fk_pool_state_def]]
      have F1: "books F1 = books F" "fk_open F1 = fk_open F" "data_replies ?U rs" by simp_all
      have "acks_once ?U (CloseAck nil_uuid) (rs @ [ack_reply ?U (CloseAck nil_uuid)])"
        using acks_onceI [OF F1(3) data_replies_Nil, of "CloseAck nil_uuid"] by (simp add: is_ack_def)
      with Close True none t parse st F1 show ?thesis
        by (simp add: react_def Let_def well_reacted_def ack_effect_def)
    next
      case False
      with Close assms(3) have "oc = Some g" by (auto simp: permitted_def)
      with Close False t parse one assms(4) show ?thesis
        by (simp add: react_def Let_def well_reacted_def books_def ack_effect_def is_ack_def)
    qed
  qed (use assms(3) in \<open>auto simp: permitted_def\<close>)
qed

section \<open>In step\<close>

text \<open>The packets after the last acknowledgement.\<close>

fun after_ack :: "packet list \<Rightarrow> packet list" where
  "after_ack [] = []"
| "after_ack (p # ps) = (if filter is_ack (p # ps) = [] then p # ps else after_ack ps)"

lemma after_ack_none: "filter is_ack ps = [] \<Longrightarrow> after_ack ps = ps"
  by (cases ps) simp_all

lemma after_ack_drop: "length (crlf_stream U (after_ack ps)) \<le> length (crlf_stream U (after_ack (qs @ ps)))"
proof (induction qs)
  case (Cons q qs)
  show ?case
  proof (cases "filter is_ack ((q # qs) @ ps) = []")
    case True
    moreover from True have "filter is_ack ps = []" by (auto split: if_splits)
    ultimately have "after_ack ps = ps" "after_ack ((q # qs) @ ps) = (q # qs) @ ps" using after_ack_none by blast+
    then show ?thesis by simp
  qed (use Cons.IH in simp)
qed simp

lemma after_ack_append: "filter is_ack ps = [] \<Longrightarrow> filter is_ack qs \<noteq> [] \<Longrightarrow> after_ack (ps @ qs) = after_ack qs"
  by (induction ps) (auto split: if_splits)

definition kept_apart :: "fake \<Rightarrow> ustr list \<times> bytes \<times> bool \<times> nat \<times> uuid set" where
  "kept_apart F = (fk_violations F, fk_partial F, fk_exited F, fk_read F, fk_open F)"

lemma emit_effect:
  "unread (emit t F) = unread F @ as_bytes t" "fk_queued (emit t F) = fk_queued F + length (as_bytes t)"
  "fk_ack_end (emit t F) = fk_ack_end F" "kept_apart (emit t F) = kept_apart F"
  by (auto simp: emit_def emit_bytes_def Let_def unread_def kept_apart_def split: option.split)

lemma emit_replies_effect:
  assumes "F' = emit_replies (replies_of U ps) F"
  shows "unread F' = unread F @ crlf_stream U ps \<and> fk_queued F' = fk_queued F + length (crlf_stream U ps)
    \<and> kept_apart F' = kept_apart F
    \<and> (if filter is_ack ps = [] then fk_ack_end F' = fk_ack_end F
       else fk_ack_end F' + length (crlf_stream U (after_ack ps)) = fk_queued F')"
  using assms
proof (induction ps arbitrary: F)
  case Nil
  then show ?case by (simp add: replies_of_def)
next
  case (Cons p ps)
  let ?F = "let F = emit (crlf U p) F in if is_ack p then F\<lparr>fk_ack_end := fk_queued F\<rparr> else F"
  have F': "F' = emit_replies (replies_of U ps) ?F" using Cons.prems by (simp add: replies_of_def Let_def)
  have one: "unread ?F = unread F @ as_bytes (crlf U p)" "fk_queued ?F = fk_queued F + length (as_bytes (crlf U p))"
    "kept_apart ?F = kept_apart F" "fk_ack_end ?F = (if is_ack p then fk_queued ?F else fk_ack_end F)"
    using emit_effect [of "crlf U p" F] by (auto simp: Let_def unread_def kept_apart_def)
  note Cons.IH [OF F', unfolded one]
  then show ?case
    by (cases "filter is_ack ps = []") (auto simp: after_ack_none)
qed

definition in_step :: "fake_env \<Rightarrow> fake session \<Rightarrow> bool" where
  "in_step E s \<longleftrightarrow>
     (let F = ses_pipe s; U = line_uuids (fk_lines E); buf = ls_buf (ses_lines s) in
      (\<exists>ps. (\<forall>p\<in>set ps. worded p) \<and> buf @ unread F = crlf_stream U ps \<and> filter is_ack ps = due s
         \<and> fk_ack_end F + length (crlf_stream U (after_ack ps)) \<le> fk_queued F)
      \<and> 10 \<notin> set buf \<and> fk_queued F = fk_read F + length (unread F) \<and> fk_partial F = []
      \<and> fk_open F = set_option (settled_command s))"

definition blameless :: "fake_env \<Rightarrow> fake \<Rightarrow> bool" where
  "blameless E F \<longleftrightarrow> (\<forall>v\<in>set (fk_violations F). \<exists>g m. creates m \<and> msg_pid m \<noteq> g \<and> v = misdirected E g m)"

definition in_order :: "fake_env \<Rightarrow> fake session \<Rightarrow> bool" where
  "in_order E s \<longleftrightarrow> blameless E (ses_pipe s) \<and> command_named s
     \<and> (live s \<and> \<not> fk_exited (ses_pipe s) \<longrightarrow> in_step E s)"

text \<open>When nothing is awaited, every acknowledgement has been read.\<close>

lemma in_step_read:
  assumes "in_step E s" "awaiting s = None"
  shows "\<not> fk_read (ses_pipe s) < fk_ack_end (ses_pipe s)"
proof -
  let ?F = "ses_pipe s" and ?U = "line_uuids (fk_lines E)"
  obtain ps where ps: "ls_buf (ses_lines s) @ unread ?F = crlf_stream ?U ps" "filter is_ack ps = []"
    "fk_ack_end ?F + length (crlf_stream ?U (after_ack ps)) \<le> fk_queued ?F" "fk_queued ?F = fk_read ?F + length (unread ?F)"
    using assms by (auto simp: in_step_def Let_def due_def)
  have "length (crlf_stream ?U ps) \<ge> length (unread ?F)" using arg_cong [OF ps(1), of length] by simp
  with ps(3,4) after_ack_none [OF ps(2)] show ?thesis by simp
qed

section \<open>Every step keeps in step\<close>

lemma client_lines_rest: "10 \<notin> set b \<Longrightarrow> client_lines E b F = F\<lparr>fk_partial := b\<rparr>"
  by (subst client_lines.simps) (simp only: until_newline(3) list.case not_False_eq_True)

lemma client_lines_one:
  assumes "10 \<notin> set b"
  shows "client_lines E (b @ [10]) F = (client_line E (from_utf8_lossy b) (F\<lparr>fk_partial := []\<rparr>))\<lparr>fk_partial := []\<rparr>"
proof -
  show "client_lines E (b @ [10]) F = (client_line E (from_utf8_lossy b) (F\<lparr>fk_partial := []\<rparr>))\<lparr>fk_partial := []\<rparr>"
    by (subst client_lines.simps)
      (simp only: until_newline(1,2) [OF assms] list.case client_lines_rest list.set empty_iff not_False_eq_True)
qed

lemma client_request:
  assumes laws: "uuid_laws (line_uuids (fk_lines E))" "line_reader_laws (line_reader (fk_lines E))"
    and s: "in_step E s" "blameless E (ses_pipe s)" "command_named s" "\<not> fk_exited (ses_pipe s)"
    and p: "awaiting s = None" "permitted p (open_command s)"
    and F': "F' = client_lines E (as_bytes (to_line (line_uuids (fk_lines E)) p)) (ses_pipe s)"
  shows "blameless E F'"
    "\<not> fk_exited F' \<Longrightarrow> in_step E (s\<lparr>awaiting := Some (ack_of p), ses_pipe := F'\<rparr>)"
proof -
  let ?U = "line_uuids (fk_lines E)" and ?F = "ses_pipe s"
  let ?t = "packet_text ?U p"
  have pr: "printable ?t" by (rule printable_packet [OF laws(1)])
  have nl: "as_bytes (to_line ?U p) = as_bytes ?t @ [10]"
    by (simp add: to_line_text) (simp add: as_bytes_def utf8_enc_char_def)
  define F0 where "F0 = ?F\<lparr>fk_partial := [], fk_written := fk_written ?F @ [?t], fk_lines_seen := fk_lines_seen ?F + 1\<rparr>"
  have F0: "books F0 = books ?F" "fk_open F0 = fk_open ?F" using s(1) by (simp_all add: F0_def books_def in_step_def Let_def)
  obtain F1 r where react: "react E ?t F0 = (F1, r)" by fastforce
  have "fk_open F0 = set_option (open_command s)"
    using s(1) p(1) F0(2) by (simp add: in_step_def Let_def settled_command_def)
  moreover have "open_command s \<noteq> Some nil_uuid" using s(3) by (simp add: command_named_def)
  ultimately have well: "well_reacted E p (open_command s) F0 (F1, r)"
    using react_well [OF laws p(2)] react by metis
  have read: "\<not> fk_read ?F < fk_ack_end ?F" by (rule in_step_read [OF s(1) p(1)])
  have line: "F' = (case r of Reply rs \<Rightarrow> answer rs F1 | Hang v \<Rightarrow> answer [] (violated v F1) | Die v \<Rightarrow> die (violated v F1))
      \<lparr>fk_partial := []\<rparr>"
    unfolding F' nl client_lines_one [OF printable_bytes(1) [OF pr]] lossy_as_bytes [OF printable_valid [OF pr]]
    using s(4) read react by (simp add: client_line_def F0_def Let_def)
  have F1: "fk_violations F1 = fk_violations ?F" "fk_exited F1 = fk_exited ?F" "unread F1 = unread ?F"
    "fk_queued F1 = fk_queued ?F" "fk_read F1 = fk_read ?F" "fk_ack_end F1 = fk_ack_end ?F"
    using well F0(1) by (auto simp: well_reacted_def books_def unread_def)
  have die: "kept_apart (die F) = (fk_violations F, fk_partial F, True, fk_read F, fk_open F)" for F
    using emit_effect(4) [of DEATH F] by (simp add: die_def kept_apart_def)
  show "blameless E F'"
  proof (cases r)
    case (Reply rs)
    then obtain ps where rs: "rs = replies_of ?U ps" using well by (auto simp: well_reacted_def acks_once_def)
    have "fk_violations (emit_replies rs F) = fk_violations F" for F
      using emit_replies_effect [of _ ?U ps F] rs by (simp add: kept_apart_def)
    then have "fk_violations (answer rs F1) = fk_violations F1"
      using die [of F1] by (simp add: answer_def kept_apart_def)
    then show ?thesis using s(2) line Reply F1(1) by (simp add: blameless_def)
  next
    case (Hang v)
    with well show ?thesis by (simp add: well_reacted_def)
  next
    case (Die v)
    then have "\<exists>g m. creates m \<and> msg_pid m \<noteq> g \<and> v = misdirected E g m" using well by (simp add: well_reacted_def)
    then show ?thesis
      using s(2) line Die F1(1) die [of "violated v F1"] by (auto simp: blameless_def kept_apart_def violated_def)
  qed
  assume alive: "\<not> fk_exited F'"
  then obtain rs where r: "r = Reply rs"
    using well line die by (cases r) (auto simp: well_reacted_def kept_apart_def)
  then obtain ps where ps: "rs = replies_of ?U ps" "\<forall>p\<in>set ps. worded p" "filter is_ack ps = [ack_of p]"
    using well by (auto simp: well_reacted_def acks_once_def)
  have opened: "fk_open F1 = set_option (ack_effect (ack_of p) (open_command s))"
    using well r by (simp add: well_reacted_def)
  have no_death: "fk_die_after F1 \<noteq> Some (fk_lines_seen F1)"
    using alive line r die [of F1] by (auto simp: answer_def kept_apart_def)
  define F2 where "F2 = (if (case fk_hold_after F1 of Some n \<Rightarrow> fk_lines_seen F1 > n | None \<Rightarrow> False)
      then F1\<lparr>fk_held := Some (case fk_held F1 of Some h \<Rightarrow> h | None \<Rightarrow> [])\<rparr> else F1)"
  have F2: "unread F2 = unread F1" "fk_queued F2 = fk_queued F1" "fk_ack_end F2 = fk_ack_end F1" "kept_apart F2 = kept_apart F1"
    "fk_read F2 = fk_read F1" "fk_open F2 = fk_open F1"
    by (auto simp: F2_def unread_def kept_apart_def split: option.split)
  have F'2: "F' = (emit_replies (replies_of ?U ps) F2)\<lparr>fk_partial := []\<rparr>"
    using line r no_death ps(1) by (simp add: answer_def F2_def)
  note sent = emit_replies_effect [of _ ?U ps F2, OF refl, unfolded F2 F1 kept_apart_def]
  obtain qs where qs: "\<forall>p\<in>set qs. worded p" "ls_buf (ses_lines s) @ unread ?F = crlf_stream ?U qs" "filter is_ack qs = []"
    "fk_queued ?F = fk_read ?F + length (unread ?F)" "10 \<notin> set (ls_buf (ses_lines s))"
    using s(1) p(1) by (auto simp: in_step_def Let_def due_def)
  show "in_step E (s\<lparr>awaiting := Some (ack_of p), ses_pipe := F'\<rparr>)"
    unfolding in_step_def Let_def
  proof (intro conjI exI [of _ "qs @ ps"])
    show "\<forall>p\<in>set (qs @ ps). worded p" using qs(1) ps(2) by auto
    show "ls_buf (ses_lines (s\<lparr>awaiting := Some (ack_of p), ses_pipe := F'\<rparr>)) @
        unread (ses_pipe (s\<lparr>awaiting := Some (ack_of p), ses_pipe := F'\<rparr>)) = crlf_stream ?U (qs @ ps)"
      using sent qs(2) F'2 by (simp add: unread_def)
    show "filter is_ack (qs @ ps) = due (s\<lparr>awaiting := Some (ack_of p), ses_pipe := F'\<rparr>)"
      using qs(3) ps(3) by (simp add: due_def)
    show "fk_ack_end (ses_pipe (s\<lparr>awaiting := Some (ack_of p), ses_pipe := F'\<rparr>)) +
        length (crlf_stream ?U (after_ack (qs @ ps))) \<le> fk_queued (ses_pipe (s\<lparr>awaiting := Some (ack_of p), ses_pipe := F'\<rparr>))"
      using sent ps(3) F'2 after_ack_append [OF qs(3), of ps] by simp
    show "10 \<notin> set (ls_buf (ses_lines (s\<lparr>awaiting := Some (ack_of p), ses_pipe := F'\<rparr>)))" using qs(5) by simp
    show "fk_queued (ses_pipe (s\<lparr>awaiting := Some (ack_of p), ses_pipe := F'\<rparr>)) =
        fk_read (ses_pipe (s\<lparr>awaiting := Some (ack_of p), ses_pipe := F'\<rparr>)) +
        length (unread (ses_pipe (s\<lparr>awaiting := Some (ack_of p), ses_pipe := F'\<rparr>)))"
      using sent F'2 qs(4) by (simp add: unread_def)
    show "fk_partial (ses_pipe (s\<lparr>awaiting := Some (ack_of p), ses_pipe := F'\<rparr>)) = []" by (simp add: F'2)
    show "fk_open (ses_pipe (s\<lparr>awaiting := Some (ack_of p), ses_pipe := F'\<rparr>)) =
        set_option (settled_command (s\<lparr>awaiting := Some (ack_of p), ses_pipe := F'\<rparr>))"
      using sent F'2 opened by (simp add: settled_command_def)
  qed
qed

lemma fake_read_chunk:
  assumes "fake_read F = (F', Some (Inr chunk))"
  shows "unread F = chunk @ unread F' \<and> fk_read F' = fk_read F + length chunk \<and> fk_violations F' = fk_violations F
    \<and> fk_partial F' = fk_partial F \<and> fk_exited F' = fk_exited F \<and> fk_queued F' = fk_queued F
    \<and> fk_ack_end F' = fk_ack_end F \<and> fk_open F' = fk_open F"
proof -
  obtain n where n: "n \<le> length (fk_out F)" "F' = F\<lparr>fk_read := fk_read F + n, fk_out := drop n (fk_out F)\<rparr>"
    "chunk = take n (fk_out F)"
  proof -
    let ?n = "case fk_chunk_size F of
            Some n \<Rightarrow> min n (length (fk_out F))
          | None \<Rightarrow> (case dropWhile (\<lambda>b. b \<noteq> 10) (fk_out F) of
               [] \<Rightarrow> length (fk_out F)
             | _ # rest \<Rightarrow> length (fk_out F) - length rest)"
    have "?n \<le> length (fk_out F)" by (auto split: option.split list.split)
    moreover have "F' = F\<lparr>fk_read := fk_read F + ?n, fk_out := drop ?n (fk_out F)\<rparr> \<and> chunk = take ?n (fk_out F)"
      using assms by (auto simp: fake_read_def next_chunk_def Let_def split: if_splits)
    ultimately show ?thesis using that by blast
  qed
  then show ?thesis by (simp add: unread_def flip: append_assoc)
qed

lemma fake_read_other:
  "fake_read F = (F', r) \<Longrightarrow> (\<And>chunk. r \<noteq> Some (Inr chunk)) \<Longrightarrow> F' = F"
  by (auto simp: fake_read_def next_chunk_def Let_def split: if_splits)

lemma in_order_same:
  "in_order E s \<Longrightarrow> ses_pipe s' = ses_pipe s \<Longrightarrow> ses_lines s' = ses_lines s \<Longrightarrow> awaiting s' = awaiting s \<Longrightarrow>
     open_command s' = open_command s \<Longrightarrow> (live s' \<Longrightarrow> live s) \<Longrightarrow> in_order E s'"
  by (auto simp: in_order_def in_step_def Let_def due_def settled_command_def command_named_def
      split: option.splits)

lemma in_order_heard:
  assumes laws: "uuid_laws (line_uuids (fk_lines E))" "line_reader_laws (line_reader (fk_lines E))"
    and "in_order E s" "live s" "fake_read (ses_pipe s) = (p, Some (Inr chunk))"
    and process: "process (fk_lines E) chunk (s\<lparr>ses_pipe := p\<rparr>) = (s', Inr u)"
  shows "in_order E s'"
proof -
  let ?U = "line_uuids (fk_lines E)" and ?F = "ses_pipe s"
  note read = fake_read_chunk [OF assms(5)]
  have frame: "ses_pipe s' = p" "live s' = live s" using process_frame [OF process] by (simp_all add: same_frame_def live_def)
  have named: "command_named s'"
    using answered_named [OF process_answered [OF process]] assms(3) by (simp add: in_order_def command_named_def)
  have "in_step E s'" if alive: "\<not> fk_exited p"
  proof -
    have s: "in_step E s" using assms(3,4) alive read by (simp add: in_order_def)
    then obtain ps where ps: "\<forall>p\<in>set ps. worded p" "ls_buf (ses_lines s) @ unread ?F = crlf_stream ?U ps"
      "filter is_ack ps = due s" "fk_ack_end ?F + length (crlf_stream ?U (after_ack ps)) \<le> fk_queued ?F"
      by (auto simp: in_step_def Let_def)
    have rest: "10 \<notin> set (ls_buf (ses_lines s))" "fk_queued ?F = fk_read ?F + length (unread ?F)" "fk_partial ?F = []"
      "fk_open ?F = set_option (settled_command s)"
      using s by (simp_all add: in_step_def Let_def)
    let ?s = "s\<lparr>ses_pipe := p\<rparr>"
    have same: "due ?s = due s" "settled_command ?s = settled_command s"
      by (auto simp: due_def settled_command_def split: option.split)
    obtain qs ps' where qs: "ps = qs @ ps'" "ls_buf (ses_lines s') @ unread p = crlf_stream ?U ps'"
      "10 \<notin> set (ls_buf (ses_lines s'))" "filter is_ack ps' = due s'" "settled_command s' = settled_command s"
      using process_due [OF laws process, of "unread p" ps] ps rest(1) read same by auto
    have "fk_ack_end p + length (crlf_stream ?U (after_ack ps')) \<le> fk_queued p"
      using ps(4) qs(1) read after_ack_drop [of ?U ps' qs] by simp
    moreover have "fk_queued p = fk_read p + length (unread p)" "fk_partial p = []"
      using rest read by simp_all
    moreover have "fk_open p = set_option (settled_command s')" using rest(4) read qs(5) by simp
    moreover have "\<forall>p\<in>set ps'. worded p" using ps(1) qs(1) by simp
    ultimately show ?thesis using qs frame by (auto simp: in_step_def Let_def)
  qed
  then show ?thesis using assms(3) read frame named by (auto simp: in_order_def blameless_def)
qed

lemma in_order_step:
  assumes laws: "uuid_laws (line_uuids (fk_lines E))" "line_reader_laws (line_reader (fk_lines E))"
    and step: "session_step (fake_pipe E late t) s tr s'" and order: "in_order E s"
  shows "in_order E s'"
proof -
  have named: "command_named s'" using step_named [OF step] order by (simp add: in_order_def)
  have codec: "line_codec (fake_pipe E late t) = fk_lines E" "pipe_read (fake_pipe E late t) = fake_read"
    "pipe_write (fake_pipe E late t) = fake_write E"
    by (simp_all add: fake_pipe_def)
  have pure: "as_bytes (to_line (line_uuids (fk_lines E)) p) = as_bytes (packet_text (line_uuids (fk_lines E)) p) @ [10]" for p
    by (simp add: to_line_text) (simp add: as_bytes_def utf8_enc_char_def)
  have dead: "fk_exited (client_lines E bs F) \<and> fk_violations (client_lines E bs F) = fk_violations F"
    if "fk_exited F" for bs F
    using that
  proof (induction E bs F rule: client_lines.induct)
    case (1 E bs F)
    have "client_line E line (F\<lparr>fk_partial := b\<rparr>) = F\<lparr>fk_partial := b, fk_written := fk_written F @ [line]\<rparr>" for line b
      using 1(2) by (simp add: client_line_def Let_def)
    with 1 show ?case by (subst (1 2) client_lines.simps) (auto split: list.split)
  qed
  have half: "take (length (b @ [10]) div 2) (b @ [10 :: u8]) = take (length (b @ [10]) div 2) b" for b by simp
  have stalled: "fk_violations (client_bytes E (take (length bs div 2) bs) (ses_pipe s)) = fk_violations (ses_pipe s)"
    if "bs = as_bytes (to_line (line_uuids (fk_lines E)) p)" "live s" for bs p
  proof (cases "fk_exited (ses_pipe s)")
    case True
    then show ?thesis using dead by (simp add: client_bytes_def)
  next
    case False
    then have "fk_partial (ses_pipe s) = []" using order that(2) by (simp add: in_order_def in_step_def Let_def)
    moreover have "10 \<notin> set (take (length bs div 2) bs)"
      using printable_bytes(1) [OF printable_packet [OF laws(1)], of p] half that(1) pure by (metis in_set_takeD)
    ultimately show ?thesis by (simp add: client_bytes_def client_lines_rest)
  qed
  from step show ?thesis
  proof cases
    case (Fail r)
    then show ?thesis using order by (auto intro: in_order_same simp: live_def)
  next
    case (Payload b)
    then show ?thesis using order by (auto intro: in_order_same simp: live_def)
  next
    case (Take x)
    then have "ses_pipe s' = ses_pipe s" "ses_lines s' = ses_lines s" "awaiting s' = awaiting s"
      "open_command s' = open_command s" "live s' = live s"
      by (auto simp: dequeue_def live_def split: prod.splits)
    then show ?thesis using order by (auto intro: in_order_same)
  next
    case (Wait p)
    then have "p = ses_pipe s" using fake_read_other [of "ses_pipe s" p None] by (simp add: codec)
    with Wait order show ?thesis by (auto intro: in_order_same simp: live_def)
  next
    case (Ended p e r)
    then have "p = ses_pipe s" using fake_read_other [of "ses_pipe s" p "Some (Inl e)"] by (simp add: codec)
    with Ended order show ?thesis by (auto intro: in_order_same simp: live_def)
  next
    case (Read p chunk u)
    then show ?thesis using in_order_heard [OF laws order] by (auto simp: codec live_def)
  next
    case (Reject p chunk s1 e r)
    then have "ses_pipe s' = p" "\<not> live s'" using process_frame [OF Reject(6)] by (simp_all add: same_frame_def live_def)
    with Reject named order fake_read_chunk [of "ses_pipe s" p chunk] show ?thesis
      by (simp add: in_order_def blameless_def codec)
  next
    case (Write p q u)
    have not_stalled: "\<not> fk_stall_writes (ses_pipe s)" using Write by (auto simp: codec fake_write_def split: if_splits)
    then have q: "q = client_lines E (fk_partial (ses_pipe s) @ as_bytes (to_line (line_uuids (fk_lines E)) p)) (ses_pipe s)"
      using Write by (auto simp: codec fake_write_def client_bytes_def)
    show ?thesis
    proof (cases "fk_exited (ses_pipe s)")
      case True
      then show ?thesis using dead [OF True] q Write named order by (simp add: in_order_def blameless_def)
    next
      case False
      have s: "in_step E s" using order Write False by (simp add: in_order_def live_def)
      then have "fk_partial (ses_pipe s) = []" by (simp add: in_step_def Let_def)
      with q have q: "q = client_lines E (as_bytes (to_line (line_uuids (fk_lines E)) p)) (ses_pipe s)" by simp
      have "blameless E (ses_pipe s)" "command_named s" using order by (simp_all add: in_order_def)
      from client_request [OF laws s this False _ _ q] Write named show ?thesis by (simp add: in_order_def)
    qed
  next
    case (Refused p q e r)
    then show ?thesis by (auto simp: codec fake_write_def split: if_splits)
  next
    case (Abandoned p q)
    then have q: "q = client_bytes E (take (length (line_of (fake_pipe E late t) p) div 2) (line_of (fake_pipe E late t) p)) (ses_pipe s)"
      by (auto simp: codec fake_write_def split: if_splits)
    have "fk_violations q = fk_violations (ses_pipe s)"
      unfolding q using Abandoned by (intro stalled [of _ p]) (simp_all add: codec live_def)
    with Abandoned named order show ?thesis by (simp add: in_order_def blameless_def live_def)
  qed
qed

section \<open>Scenarios\<close>

text \<open>
  What a test does: the client calls the session, or the test turns a knob of the server.  Output of the
  test's own making (\<open>inject\<close>, \<open>inject_bytes\<close>) is left out.
\<close>

datatype fake_setting =
    ChunkSize nat | Output "ps_value list" | RunForever bool | HoldReplies bool | HoldAfter nat
  | StallWrites bool | DieAfter nat | HangUp

fun configure :: "fake_setting \<Rightarrow> fake \<Rightarrow> fake" where
  "configure (ChunkSize n) = set_chunk_size n"
| "configure (Output vs) = set_output vs"
| "configure (RunForever b) = set_pipelines_run_forever b"
| "configure (HoldReplies b) = hold_replies b"
| "configure (HoldAfter n) = hold_replies_after_writes n"
| "configure (StallWrites b) = stall_writes b"
| "configure (DieAfter n) = die_after_writes n"
| "configure HangUp = hang_up"

datatype test_event = Calls session_call | Configures fake_setting

fun play :: "fake pipe_env \<Rightarrow> test_event list \<Rightarrow> fake session \<Rightarrow> fake session" where
  "play P [] s = s"
| "play P (Calls c # es) s = play P es (fst (call P c s))"
| "play P (Configures k # es) s = play P es (s\<lparr>ses_pipe := configure k (ses_pipe s)\<rparr>)"

definition lawful :: "fake_env \<Rightarrow> bool" where
  "lawful E \<longleftrightarrow> uuid_laws (line_uuids (fk_lines E)) \<and> line_reader_laws (line_reader (fk_lines E))"

interpretation fake_order: session_invariant "fake_pipe E late t" "\<lambda>_ s. lawful E \<longrightarrow> in_order E s" for E late t
  by unfold_locales (auto simp: lawful_def intro: in_order_step)

text \<open>A knob touches neither the stream the client reads nor what the server has recorded.\<close>

lemma configure_keeps:
  "fk_violations (configure k F) = fk_violations F \<and> (\<not> fk_exited (configure k F) \<longrightarrow>
     unread (configure k F) = unread F \<and> kept_apart (configure k F) = kept_apart F
     \<and> fk_queued (configure k F) = fk_queued F \<and> fk_ack_end (configure k F) = fk_ack_end F)"
  by (cases k)
    (auto simp: set_chunk_size_def set_output_def set_pipelines_run_forever_def hold_replies_def
      hold_replies_after_writes_def stall_writes_def die_after_writes_def hang_up_def unread_def kept_apart_def Let_def
      split: option.split)

lemma in_order_configured:
  assumes "in_order E s"
  shows "in_order E (s\<lparr>ses_pipe := configure k (ses_pipe s)\<rparr>)"
proof -
  let ?s = "s\<lparr>ses_pipe := configure k (ses_pipe s)\<rparr>"
  have same: "due ?s = due s" "settled_command ?s = settled_command s" "live ?s = live s" "command_named ?s = command_named s"
    by (auto simp: due_def settled_command_def live_def command_named_def split: option.split)
  show ?thesis
    using assms configure_keeps [of k "ses_pipe s"] same
    by (auto simp: in_order_def in_step_def blameless_def kept_apart_def Let_def)
qed

lemma play_in_order:
  "lawful E \<Longrightarrow> in_order E s \<Longrightarrow> in_order E (play (fake_pipe E late t) es s)"
proof (induction es arbitrary: s)
  case (Cons e es)
  have "in_order E (fst (call (fake_pipe E late t) c s))" for c
    using fake_order.run_kept [OF call_run] Cons.prems by (simp add: in_order_def)
  with Cons in_order_configured show ?case by (cases e) auto
qed simp

lemma new_in_order: "in_order E (session_new fake_new)"
proof -
  have "in_step E (session_new fake_new)"
    unfolding in_step_def Let_def
    by (intro conjI exI [of _ "[]"])
      (auto simp: session_new_def fake_new_def unread_def due_def settled_command_def splitter_new_def)
  then show ?thesis by (simp add: in_order_def blameless_def new_named) (simp add: session_new_def fake_new_def)
qed

text \<open>
  C27: whatever a program does with a session - sends, receives, signals, closes, each of them possibly
  cut short by a time limit or a dropped future - and however the server cuts up, holds back or stops its
  own answers, the server never records a broken rule of the line protocol: no line is malformed, too long,
  out of turn, for a command that is not open, or written before the last acknowledgement was read.
  The one thing left to the caller is to send the message that creates a pipeline to that pipeline's
  own command.  Not among the events are the bytes a test may \<open>inject\<close> into the server's output: with an
  acknowledgement that comes before the server has acted, the client writes out of turn.
\<close>

theorem server_records_no_broken_rule:
  assumes "uuid_laws (line_uuids (fk_lines E))" "line_reader_laws (line_reader (fk_lines E))"
  shows "list_all (\<lambda>v. \<exists>g m. creates m \<and> msg_pid m \<noteq> g \<and> v = misdirected E g m)
    (fk_violations (ses_pipe (play (fake_pipe E late t) es (session_new fake_new))))"
  using play_in_order [of E "session_new fake_new"] assms new_in_order
  by (simp add: in_order_def blameless_def lawful_def list_all_iff)

text \<open>A payload on a new command, read byte by byte; a write that stalls; and a session that then gives up.\<close>

definition sample_fake_env :: fake_env where
  "sample_fake_env =
     \<lparr>fk_lines = sample_line_env, fk_codec = scripted_codec [], ids_text = (\<lambda>g. []), type_text = (\<lambda>t. [])\<rparr>"

definition sample_events :: "test_event list" where
  "sample_events =
     [Configures (ChunkSize 7), Calls (SendCall 5 [1, 2, 3] 99), Configures (StallWrites True), Calls (SignalCall 9),
      Configures (StallWrites False), Calls (CloseCall 9)]"

theorem server_records_no_broken_rule_witness:
  "list_all (\<lambda>v. \<exists>g m. creates m \<and> msg_pid m \<noteq> g \<and> v = misdirected sample_fake_env g m)
     (fk_violations (ses_pipe (play (fake_pipe sample_fake_env (\<lambda>F. True) []) sample_events (session_new fake_new))))"
  by (rule server_records_no_broken_rule)
    (simp_all add: sample_fake_env_def sample_line_env_def rfc.uuid_laws_axioms element_reader.line_reader_laws_axioms)

end
