(* ===== verification/Xml_Trees.thy ===== *)
theory Xml_Trees
  imports Decode Packet_Properties
begin

text \<open>
  The XML that the CLIXML encoder writes, as trees: elements with attributes in double quotes, which are
  empty, hold one text or hold elements.  \<open>document_reader_laws\<close> states what the crate relies
  on of its XML reader for such a document; a reader built on \<open>element_reader\<close> is an instance.
\<close>

section \<open>Trees\<close>

datatype xml =
    Leaf ustr "(ustr \<times> ustr) list"
  | Text ustr "(ustr \<times> ustr) list" ustr
  | Node ustr "(ustr \<times> ustr) list" "xml list"

definition render_attrs :: "(ustr \<times> ustr) list \<Rightarrow> ustr" where
  "render_attrs as = concat (map (\<lambda>(n, v). 32 # n @ [61, 34] @ xml_escape v @ [34]) as)"

fun render :: "xml \<Rightarrow> ustr" where
  "render (Leaf tag as) = 60 # tag @ render_attrs as @ [47, 62]"
| "render (Text tag as t) = 60 # tag @ render_attrs as @ 62 # xml_escape t @ [60, 47] @ tag @ [62]"
| "render (Node tag as xs) = 60 # tag @ render_attrs as @ 62 # concat (map render xs) @ [60, 47] @ tag @ [62]"

text \<open>The events of a text: runs without markup characters, and an entity for each of these.\<close>

definition markup :: "uchar \<Rightarrow> bool" where
  "markup c \<longleftrightarrow> c \<in> {0x3C, 0x3E, 0x26, 0x22, 0x27}"

definition entity_name :: "uchar \<Rightarrow> ustr" where
  "entity_name c = butlast (tl (xml_char c))"

function text_events :: "ustr \<Rightarrow> events" where
  "text_events [] = []"
| "text_events (c # cs) =
     (if markup c then XGeneralRef (entity_name c) (Inr None) (Some [c]) # text_events cs
      else XText (takeWhile (\<lambda>d. \<not> markup d) (c # cs)) # text_events (dropWhile (\<lambda>d. \<not> markup d) (c # cs)))"
  by pat_completeness auto
termination
  by (relation "measure length") (auto simp: le_imp_less_Suc length_dropWhile_le)

declare text_events.simps(2) [simp del]

definition read_attr :: "ustr \<times> ustr \<Rightarrow> attr" where
  "read_attr a = (fst a, Inr (snd a))"

fun xml_events :: "xml \<Rightarrow> events" where
  "xml_events (Leaf tag as) = [XEmpty tag (map read_attr as)]"
| "xml_events (Text tag as t) = XStart tag (map read_attr as) # text_events t @ [XEnd tag]"
| "xml_events (Node tag as xs) = XStart tag (map read_attr as) # concat (map xml_events xs) @ [XEnd tag]"

text \<open>
  Names are letters and digits; an attribute value holds no control character, a text none but tabs and
  newlines, so that a reader has nothing to normalize.
\<close>

definition attr_ok :: "ustr \<times> ustr \<Rightarrow> bool" where
  "attr_ok a \<longleftrightarrow> plain_name (fst a) \<and> (\<forall>c\<in>set (snd a). scalar c \<and> 32 \<le> c)"

definition attrs_well_formed :: "(ustr \<times> ustr) list \<Rightarrow> bool" where
  "attrs_well_formed as \<longleftrightarrow> distinct (map fst as) \<and> (\<forall>a\<in>set as. attr_ok a)"

fun well_formed :: "xml \<Rightarrow> bool" where
  "well_formed (Leaf tag as) \<longleftrightarrow> plain_name tag \<and> attrs_well_formed as"
| "well_formed (Text tag as t) \<longleftrightarrow> plain_name tag \<and> attrs_well_formed as
     \<and> (\<forall>c\<in>set t. scalar c \<and> (32 \<le> c \<or> c = 9 \<or> c = 10))"
| "well_formed (Node tag as xs) \<longleftrightarrow> plain_name tag \<and> attrs_well_formed as \<and> (\<forall>x\<in>set xs. well_formed x)"

locale document_reader_laws =
  fixes R :: xml_reader
  assumes reads_document: "well_formed x \<Longrightarrow> R (render x) = xml_events x"

section \<open>A reader\<close>

text \<open>\<open>element_reader\<close> with the entities resolved.\<close>

function split_entities :: "ustr \<Rightarrow> events" where
  "split_entities [] = []"
| "split_entities (c # cs) =
     (if c = 0x26 then
        (case entity cs of
           Some (d, rest) \<Rightarrow> XGeneralRef (take (length cs - length rest - 1) cs) (Inr None) (Some [d]) # split_entities rest
         | None \<Rightarrow> [XFail (lit ''unknown entity'')])
      else XText (takeWhile (\<lambda>d. d \<noteq> 0x26) (c # cs)) # split_entities (dropWhile (\<lambda>d. d \<noteq> 0x26) (c # cs)))"
  by pat_completeness auto
termination
  by (relation "measure length") (auto simp: le_imp_less_Suc length_dropWhile_le dest: entity_shorter)

declare split_entities.simps(2) [simp del]

fun attr_events :: "line_attr list \<Rightarrow> attr list" where
  "attr_events [] = []"
| "attr_events (Inl e # as) = ([], Inl e) # attr_events as"
| "attr_events (Inr (n, v) # as) = (n, map_sum id xml_unescape v) # attr_events as"

fun doc_events :: "line_event \<Rightarrow> events" where
  "doc_events (LStart tag as) = [XStart tag (attr_events as)]"
| "doc_events (LEmpty tag as) = [XEmpty tag (attr_events as)]"
| "doc_events (LEnd tag) = [XEnd tag]"
| "doc_events (LText t) = split_entities t"
| "doc_events LOther = [XOther]"
| "doc_events (LFail e) = [XFail e]"

definition document_reader :: xml_reader where
  "document_reader xml = concat (map doc_events (element_reader xml))"

lemma xml_char_markup:
  "\<not> markup c \<Longrightarrow> xml_char c = [c]"
  "markup c \<Longrightarrow> xml_char c = 0x26 # entity_name c @ [0x3B] \<and> entity (entity_name c @ 0x3B # t) = Some (c, t)"
proof -
  show "\<not> markup c \<Longrightarrow> xml_char c = [c]" by (simp add: markup_def xml_char_def)
  assume "markup c"
  then consider "c = 0x26" | "c = 0x3C" | "c = 0x3E" | "c = 0x22" | "c = 0x27"
    by (auto simp: markup_def)
  then show "xml_char c = 0x26 # entity_name c @ [0x3B] \<and> entity (entity_name c @ 0x3B # t) = Some (c, t)"
    by cases (simp_all add: xml_char_def entity_name_def entity_def predefined_entities_def strip_prefix_def lit_def)
qed

lemma xml_escape_run: "\<forall>c\<in>set s. \<not> markup c \<Longrightarrow> xml_escape s = s"
  by (induction s) (auto simp: xml_escape_def xml_char_markup)

lemma take_run:
  "t = [] \<or> \<not> P (hd t) \<Longrightarrow> \<forall>x\<in>set s. P x \<Longrightarrow> takeWhile P (s @ t) = s"
  "t = [] \<or> \<not> P (hd t) \<Longrightarrow> \<forall>x\<in>set s. P x \<Longrightarrow> dropWhile P (s @ t) = t"
  by (cases t; simp add: takeWhile_append dropWhile_append)+

lemma escape_starts: "s = [] \<or> markup (hd s) \<Longrightarrow> xml_escape s = [] \<or> \<not> hd (xml_escape s) \<noteq> 0x26"
proof (cases s)
  case (Cons d ds)
  moreover assume "s = [] \<or> markup (hd s)"
  ultimately show ?thesis using xml_char_markup(2) [of d "[]"] by (auto simp: xml_escape_def)
qed (simp add: xml_escape_def)

lemma split_entities_escape: "split_entities (xml_escape t) = text_events t"
proof (induction t rule: text_events.induct)
  case (2 c cs)
  show ?case
  proof (cases "markup c")
    case True
    then show ?thesis
      using xml_char_markup(2) [OF True, of "xml_escape cs"] 2(1) [OF True]
      by (auto simp: xml_escape_def text_events.simps(2) split_entities.simps(2))
  next
    case False
    let ?run = "takeWhile (\<lambda>d. \<not> markup d) (c # cs)" and ?rest = "dropWhile (\<lambda>d. \<not> markup d) (c # cs)"
    have run: "\<forall>d\<in>set ?run. \<not> markup d" by (blast dest: set_takeWhileD)
    have amp: "\<not> markup d \<Longrightarrow> d \<noteq> 0x26" for d by (auto simp: markup_def)
    with run have plain: "\<forall>d\<in>set ?run. d \<noteq> 0x26" by blast
    have "xml_escape (c # cs) = xml_escape ?run @ xml_escape ?rest"
      by (simp only: takeWhile_dropWhile_id flip: xml_escape_append)
    then have whole: "xml_escape (c # cs) = ?run @ xml_escape ?rest" by (simp only: xml_escape_run [OF run])
    have "?rest = [] \<or> markup (hd ?rest)" using hd_dropWhile [of "\<lambda>d. \<not> markup d" "c # cs"] by blast
    note pieces = take_run [OF escape_starts [OF this] plain]
    have "?run = c # takeWhile (\<lambda>d. \<not> markup d) cs" using False by simp
    then obtain ds where ds: "?run @ xml_escape ?rest = c # ds" by simp
    have "split_entities (c # ds) = XText (takeWhile (\<lambda>d. d \<noteq> 0x26) (c # ds))
        # split_entities (dropWhile (\<lambda>d. d \<noteq> 0x26) (c # ds))"
      using amp [OF False] by (simp only: split_entities.simps(2) if_False)
    then have "split_entities (xml_escape (c # cs)) = XText ?run # split_entities (xml_escape ?rest)"
      by (simp only: pieces whole flip: ds)
    then show ?thesis using 2(2) [OF False] False by (simp add: text_events.simps(2))
  qed
qed (simp add: xml_escape_def)

text \<open>Attributes in double quotes.\<close>

definition raw_attrs :: "(ustr \<times> ustr) list \<Rightarrow> line_attr list" where
  "raw_attrs as = map (\<lambda>a. Inr (fst a, Inr (xml_escape (snd a)))) as"

lemma xml_escape_chars: "c \<in> set (xml_escape s) \<Longrightarrow> c \<notin> {0x3C, 0x3E, 0x22, 0x27}"
proof -
  assume "c \<in> set (xml_escape s)"
  then obtain d where d: "c \<in> set (xml_char d)" by (auto simp: xml_escape_def)
  then show ?thesis by (auto simp: xml_char_def lit_def split: if_splits)
qed

lemma read_quoted:
  assumes "plain_name n" "34 \<notin> set v"
  shows "read_attrs (32 # n @ [61, 34] @ v @ 34 # rest) = Inr (n, Inr v) # read_attrs rest"
proof -
  obtain c cs where n: "n = c # cs" "c \<noteq> 32" using assms(1) by (cases n) (auto simp: plain_name_def)
  have "takeWhile (\<lambda>c. c \<noteq> 61) (n @ 61 # 34 # v @ 34 # rest) = n"
    using assms(1) by (intro takeWhile_until) (auto simp: plain_name_def)
  moreover have "takeWhile (\<lambda>c. c \<noteq> 34) (v @ 34 # rest) = v" using assms(2) by (intro takeWhile_until) auto
  ultimately show ?thesis by (subst read_attrs.simps) (simp add: n Let_def)
qed

lemma read_raw: "attrs_well_formed as \<Longrightarrow> read_attrs (render_attrs as) = raw_attrs as"
proof (induction as)
  case Nil
  show ?case by (subst read_attrs.simps) (simp add: render_attrs_def raw_attrs_def)
next
  case (Cons a as)
  have "34 \<notin> set (xml_escape (snd a))" using xml_escape_chars [of 34 "snd a"] by auto
  then have "read_attrs (render_attrs (a # as)) = Inr (fst a, Inr (xml_escape (snd a))) # read_attrs (render_attrs as)"
    using read_quoted [of "fst a" "xml_escape (snd a)" "render_attrs as"] Cons.prems
    by (simp add: render_attrs_def attrs_well_formed_def attr_ok_def split_beta)
  with Cons show ?case by (simp add: attrs_well_formed_def raw_attrs_def)
qed

lemma read_rendered: "attrs_well_formed as \<Longrightarrow> checked_names [] (read_attrs (render_attrs as)) = raw_attrs as"
  using checked_distinct [of as "[]" "\<lambda>a. Inr (xml_escape (snd a))" "[]"]
  by (simp add: read_raw attrs_well_formed_def raw_attrs_def)

lemma attr_events_raw: "attr_events (raw_attrs as) = map read_attr as"
  by (induction as) (simp_all add: raw_attrs_def read_attr_def xml_unescape_escape)

lemma render_attrs_chars: "attrs_well_formed as \<Longrightarrow> c \<in> set (render_attrs as) \<Longrightarrow> c \<noteq> 62 \<and> c \<noteq> 60"
proof (induction as)
  case (Cons a as)
  have "plain_name (fst a)" using Cons.prems(1) by (simp add: attrs_well_formed_def attr_ok_def)
  from plain_name_chars [OF this, of c] xml_escape_chars [of c "snd a"] Cons show ?case
    by (cases a) (auto simp: render_attrs_def attrs_well_formed_def)
qed (simp add: render_attrs_def)

lemma render_attrs_start: "rest = [] \<or> name_end (hd rest) \<Longrightarrow> render_attrs as @ rest = [] \<or> name_end (hd (render_attrs as @ rest))"
  by (cases as) (auto simp: render_attrs_def name_end_def split_beta)

lemma render_attrs_last: "render_attrs as \<noteq> [] \<Longrightarrow> last (render_attrs as) = 34"
  by (induction as rule: rev_induct) (auto simp: render_attrs_def split_beta)

section \<open>Tags\<close>

lemma reads_start:
  assumes "plain_name tag" "attrs_well_formed as"
  shows "element_reader (60 # tag @ render_attrs as @ 62 # rest) = LStart tag (raw_attrs as) # element_reader rest"
proof -
  let ?inside = "tag @ render_attrs as"
  have "\<forall>c\<in>set ?inside. c \<noteq> 62" using plain_name_chars [OF assms(1)] render_attrs_chars [OF assms(2)] by auto
  moreover have "takeWhile (\<lambda>c. \<not> name_end c) ?inside = tag" "hd ?inside \<noteq> 47" "tag \<noteq> []"
    using tag_name [OF assms(1)] render_attrs_start [of "[]" as] by auto
  moreover have "last ?inside \<noteq> 47"
    using render_attrs_last [of as] plain_name_chars [OF assms(1), of "last tag"] \<open>tag \<noteq> []\<close> by (auto simp: last_append)
  ultimately show ?thesis
    using element_reader_tag [of ?inside rest] read_rendered [OF assms(2)] by (simp add: Let_def)
qed

lemma reads_leaf:
  assumes "plain_name tag" "attrs_well_formed as"
  shows "element_reader (60 # tag @ render_attrs as @ 47 # 62 # rest) = LEmpty tag (raw_attrs as) # element_reader rest"
proof -
  let ?inside = "tag @ render_attrs as @ [47]"
  have "\<forall>c\<in>set ?inside. c \<noteq> 62" using plain_name_chars [OF assms(1)] render_attrs_chars [OF assms(2)] by auto
  moreover have "takeWhile (\<lambda>c. \<not> name_end c) ?inside = tag" "hd ?inside \<noteq> 47"
    using tag_name [OF assms(1) render_attrs_start [of "[47]" as]] by (simp_all add: name_end_def)
  moreover have "butlast ?inside = tag @ render_attrs as" by (simp add: butlast_append)
  ultimately show ?thesis
    using element_reader_tag [of ?inside rest] read_rendered [OF assms(2)] by (simp add: Let_def)
qed

lemma reads_end: "plain_name tag \<Longrightarrow> element_reader (60 # 47 # tag @ 62 # rest) = LEnd tag # element_reader rest"
  using element_reader_tag [of "47 # tag" rest] plain_name_chars [of tag] by (auto simp: Let_def)

lemma reads_text: "60 \<notin> set t \<Longrightarrow> t \<noteq> [] \<Longrightarrow> element_reader (t @ 60 # rest) = LText t # element_reader (60 # rest)"
proof -
  assume t: "60 \<notin> set t" "t \<noteq> []"
  then have "takeWhile (\<lambda>c. c \<noteq> 60) (t @ 60 # rest) = t" "dropWhile (\<lambda>c. c \<noteq> 60) (t @ 60 # rest) = 60 # rest"
    by (auto intro!: takeWhile_until)
  with t show ?thesis by (cases t) (auto simp: element_reader.simps(2))
qed

lemma reads_content:
  "concat (map doc_events (element_reader (xml_escape t @ 60 # rest))) = text_events t @ concat (map doc_events (element_reader (60 # rest)))"
proof (cases "t = []")
  case False
  then have "xml_escape t \<noteq> []" by (cases t) (auto simp: xml_escape_def xml_char_def lit_def)
  moreover have "60 \<notin> set (xml_escape t)" using xml_escape_chars [of 60 t] by auto
  ultimately show ?thesis by (simp add: reads_text split_entities_escape)
qed (simp add: xml_escape_def)

lemma document_reader_render:
  "well_formed x \<Longrightarrow> document_reader (render x @ rest) = xml_events x @ document_reader rest"
proof (induction x arbitrary: rest)
  case (Leaf tag as)
  then show ?case by (simp add: document_reader_def reads_leaf attr_events_raw)
next
  case (Text tag as t)
  then show ?case by (simp add: document_reader_def reads_start reads_content reads_end attr_events_raw)
next
  case (Node tag as xs)
  have "document_reader (concat (map render ys) @ rest) = concat (map xml_events ys) @ document_reader rest"
    if "set ys \<subseteq> set xs" for ys rest
    using that Node by (induction ys) auto
  from this [of xs] Node.prems show ?case
    by (simp add: document_reader_def reads_start reads_end attr_events_raw)
qed

interpretation document_reader: document_reader_laws document_reader
  using document_reader_render [of _ "[]"]
  by unfold_locales (simp add: document_reader_def)

end
