(* ===== verification/Carried_Values.thy ===== *)
theory Carried_Values
  imports Decode_Types Xml_Trees
begin

text \<open>
  What a CLIXML document carries of a value: the reference that \<open>Clixml_Roundtrip\<close> compares the
  encoder and the decoder with.  Also the interface to the number formatting of the standard
  library, and what becomes of each scalar.
\<close>

section \<open>Values of the Rust type\<close>

text \<open>The texts of a \<open>PsValue\<close> are Rust strings and the keys of an \<open>IndexMap\<close> are distinct.\<close>

lemma size_member: "p \<in> set props \<Longrightarrow> size (snd p) < size_list (size_prod (\<lambda>_. 0) size) props"
  by (induction props) auto

lemma size_entry:
  "kv \<in> set es \<Longrightarrow> size (fst kv) < size_list (size_prod size size) es \<and> size (snd kv) < size_list (size_prod size size) es"
  by (induction es) auto

lemmas value_sizes [termination_simp] = less_SucI [OF size_member] less_SucI [OF size_entry [THEN conjunct1]]
  less_SucI [OF size_entry [THEN conjunct2]]

fun rust_value :: "ps_value \<Rightarrow> bool" where
  "rust_value (PsList vs) \<longleftrightarrow> (\<forall>v\<in>set vs. rust_value v)"
| "rust_value (PsDict es) \<longleftrightarrow> (\<forall>kv\<in>set es. rust_value (fst kv) \<and> rust_value (snd kv))"
| "rust_value (PsObject (Ps_Object props names ts)) \<longleftrightarrow>
     distinct (map fst props) \<and> (\<forall>p\<in>set props. valid_str (fst p) \<and> rust_value (snd p))
     \<and> list_all valid_str names \<and> (case ts of Some t \<Rightarrow> valid_str t | None \<Rightarrow> True)"
| "rust_value v \<longleftrightarrow> scalar_value v"

section \<open>What a document carries\<close>

text \<open>A \<open>[char]\<close> is one UTF-16 unit, the text of a \<open><D>\<close> is trimmed, and there is one NaN.\<close>

definition NAN :: u64 where "NAN = 0x7FF8000000000000"

fun carried_scalar :: "float_api \<Rightarrow> ps_value \<Rightarrow> ps_value" where
  "carried_scalar F (PsChar c) = PsChar (if c < 65536 then c else REPLACEMENT)"
| "carried_scalar F (PsDecimal s) = PsDecimal (trim s)"
| "carried_scalar F (PsDouble v) = PsDouble (if is_nan v then NAN else v)"
| "carried_scalar F (PsF32 v) = PsF32 (if is_nan (f64_of_f32 F v) then f32_of_f64 F NAN else v)"
| "carried_scalar F v = v"

text \<open>
  The property \<open>_value\<close> goes into the element of the object itself, where a \<open>Null\<close> is lost; \<open>w\<close> is what
  the document carries of \<open>v\<close>.
\<close>

fun exposed :: "ps_value \<Rightarrow> ps_value \<Rightarrow> (ustr \<times> ps_value) list" where
  "exposed PsNull w = []"
| "exposed (PsList vs) w = (case w of PsObject obj \<Rightarrow> properties obj | _ \<Rightarrow> [])"
| "exposed (PsDict es) w = (case w of PsObject obj \<Rightarrow> properties obj | _ \<Rightarrow> [])"
| "exposed v w = [(VALUE_KEY, w)]"

definition wrapped :: "ps_value \<Rightarrow> ps_value" where
  "wrapped v = PsObject (Ps_Object [(VALUE_KEY, v)] [] None)"

text \<open>
  A list or a dictionary comes back as the \<open>_value\<close> of an object; an object loses its \<open>ToString\<close>
  text, and its \<open>_value\<close> if it has other properties.
\<close>

fun carried :: "float_api \<Rightarrow> ps_value \<Rightarrow> ps_value" where
  "carried F (PsList vs) = wrapped (PsList (map (\<lambda>v. carried F v) vs))"
| "carried F (PsDict es) = wrapped (PsDict (map (\<lambda>kv. (carried F (fst kv), carried F (snd kv))) es))"
| "carried F (PsObject (Ps_Object props names ts)) =
     (let others = concat (map (\<lambda>p. if fst p = VALUE_KEY then [] else [(fst p, carried F (snd p))]) props);
          val = concat (map (\<lambda>p. if fst p = VALUE_KEY then exposed (snd p) (carried F (snd p)) else []) props)
      in PsObject (Ps_Object (if others = [] then val else others) names None))"
| "carried F v = carried_scalar F v"

section \<open>Nesting\<close>

definition deepest :: "nat list \<Rightarrow> nat" where
  "deepest ns = foldr max ns 0"

lemma deepest_le [simp]: "deepest ns \<le> n \<longleftrightarrow> (\<forall>m\<in>set ns. m \<le> n)"
  by (induction ns) (auto simp: deepest_def)

fun container :: "ps_value \<Rightarrow> bool" where
  "container (PsList vs) = True"
| "container (PsDict es) = True"
| "container v = False"

text \<open>
  How deeply the elements of a document are nested: what the decoder's depth guard counts.  A
  list or a dictionary is one element with its object.
\<close>

fun element_levels :: "ps_value \<Rightarrow> nat" where
  "element_levels PsNull = 0"
| "element_levels (PsList vs) = Suc (deepest (map (\<lambda>v. element_levels v) vs))"
| "element_levels (PsDict es) =
     Suc (deepest (map (\<lambda>kv. max (element_levels (fst kv)) (element_levels (snd kv))) es))"
| "element_levels (PsObject (Ps_Object props names ts)) =
     Suc (max (if ts = None then 0 else 1)
       (deepest (map (\<lambda>p. if fst p = VALUE_KEY \<and> container (snd p)
          then element_levels (snd p) - 1 else element_levels (snd p)) props)))"
| "element_levels v = 1"

section \<open>Floating point numbers\<close>

text \<open>
  What the crate relies on: a finite number is printed in digits, a sign and a point and parses
  back to itself, and a number that was widened and is no NaN comes back when it is narrowed.
\<close>

definition float_char :: "uchar \<Rightarrow> bool" where
  "float_char c \<longleftrightarrow> c = 45 \<or> c = 46 \<or> (48 \<le> c \<and> c \<le> 57)"

locale float_laws =
  fixes F :: float_api
  assumes parse_format: "\<not> is_nan v \<Longrightarrow> \<not> is_infinite v \<Longrightarrow> parse_f64 F (format_f64 F v) = Inr v"
    and format_chars: "\<not> is_nan v \<Longrightarrow> \<not> is_infinite v \<Longrightarrow> c \<in> set (format_f64 F v) \<Longrightarrow> float_char c"
    and narrow_widen: "\<not> is_nan (f64_of_f32 F w) \<Longrightarrow> f32_of_f64 F (f64_of_f32 F w) = w"

lemma bits_float_format:
  "parse_f64 bits_float (format_f64 bits_float v) = Inr v"
  "c \<in> set (format_f64 bits_float v) \<Longrightarrow> float_char c"
proof -
  have "int (unat v) \<le> 18446744073709551615" using unsigned_less [of v, where 'a = int] by simp
  then show "parse_f64 bits_float (format_f64 bits_float v) = Inr v"
    by (simp add: bits_float_def from_str_radix_show_nat)
qed (auto simp: bits_float_def float_char_def dest: show_nat_digits)

lemma narrow_widened: "ucast (ucast (w :: u32) :: u64) = w"
  by (rule bit_word_eqI) (simp add: bit_ucast_iff)

interpretation bits_float: float_laws bits_float
  by unfold_locales (simp_all add: bits_float_format, simp add: bits_float_def narrow_widened)

lemma top_bit: "bit (v :: u64) 63 \<longleftrightarrow> \<not> v < 0x8000000000000000"
proof -
  have "bit v 63 \<longleftrightarrow> bit (unat v) 63" by (simp add: bit_unsigned_iff)
  also have "\<dots> \<longleftrightarrow> odd (unat v div 2 ^ 63)" by (rule bit_iff_odd)
  also have "\<dots> \<longleftrightarrow> \<not> unat v < 2 ^ 63"
  proof (cases "unat v < 2 ^ 63")
    case False
    have "unat v < 2 ^ 64" using unsigned_less [of v, where 'a = nat] by simp
    with False have "unat v div 2 ^ 63 = 1" by (intro div_nat_eqI) simp_all
    with False show ?thesis by simp
  qed simp
  also have "\<dots> \<longleftrightarrow> \<not> v < 0x8000000000000000" by (simp add: word_less_nat_alt)
  finally show ?thesis .
qed

lemma and_exp: "v AND 2 ^ n = (if bit v n then 2 ^ n else (0 :: 'a::len word))"
  by (rule bit_eqI) (auto simp: bit_and_iff bit_exp_iff)

lemma infinite_bits:
  assumes "is_infinite v"
  shows "v = (if is_sign_positive v then 0x7FF0000000000000 else 0xFFF0000000000000)"
proof -
  have "0x7FF0000000000000 OR 0x000FFFFFFFFFFFFF OR 0x8000000000000000 = (- 1 :: u64)" by simp
  then have "v = v AND (0x7FF0000000000000 OR 0x000FFFFFFFFFFFFF OR 0x8000000000000000)" by (simp only: and.right_neutral)
  then have "v = (v AND 0x7FF0000000000000) OR (v AND 0x000FFFFFFFFFFFFF) OR (v AND 0x8000000000000000)"
    by (simp only: bit.conj_disj_distrib)
  moreover have "v AND 0x8000000000000000 = (if is_sign_positive v then 0 else 0x8000000000000000)"
    using and_exp [of v 63] by (simp add: top_bit is_sign_positive_def)
  ultimately show ?thesis using assms by (simp add: is_infinite_def f64_exponent_def f64_mantissa_def split: if_splits)
qed

section \<open>Texts\<close>

text \<open>A text without white space, markup and escapes is written as it is.\<close>

definition bare_char :: "uchar \<Rightarrow> bool" where
  "bare_char c \<longleftrightarrow> 32 < c \<and> c < 127 \<and> \<not> markup c \<and> c \<noteq> UNDERSCORE"

lemma escape_bare: "\<forall>c\<in>set t. bare_char c \<Longrightarrow> escape t = t"
  by (induction t) (auto simp: escape_def escape_char_def bare_char_def markup_def)

lemma trim_bare: "\<forall>c\<in>set t. bare_char c \<Longrightarrow> trim t = t"
  by (rule trim_no_ws) (auto simp: bare_char_def is_whitespace_def)

lemma valid_bare: "\<forall>c\<in>set t. bare_char c \<Longrightarrow> valid_str t"
  by (auto simp: bare_char_def list_all_iff scalar_def)

lemma bare_chars:
  "48 \<le> c \<Longrightarrow> c \<le> 57 \<Longrightarrow> bare_char c" "float_char c \<Longrightarrow> bare_char c" "uuid_char c \<Longrightarrow> bare_char c"
  "plain_char c \<Longrightarrow> bare_char c"
  by (auto simp: bare_char_def float_char_def uuid_char_def plain_char_def markup_def UNDERSCORE_def)

lemma bare_show_int: "c \<in> set (show_int i) \<Longrightarrow> bare_char c"
  using show_int_chars [of c i] bare_chars(2) [of c] by (auto simp: float_char_def)

lemma bare_show_nat: "c \<in> set (show_nat n) \<Longrightarrow> bare_char c"
  using show_nat_digits [of c n] bare_chars(1) [of c] by auto

lemma format_float_read:
  assumes "float_laws F"
  shows "parse_float F (format_float F v) = Inr (if is_nan v then NAN else v)"
    and "c \<in> set (format_float F v) \<Longrightarrow> bare_char c"
proof -
  have each: "float_char c \<or> c \<in> set (lit ''NaN'') \<or> c \<in> set (lit ''-Infinity'')" if "c \<in> set (format_float F v)" for c
    using that float_laws.format_chars [OF assms, of v c]
    by (auto simp: format_float_def lit_def split: if_splits)
  then show "bare_char c" if "c \<in> set (format_float F v)"
    using each [OF that] bare_chars(2) [of c] by (auto simp: lit_def bare_char_def markup_def UNDERSCORE_def)
  show "parse_float F (format_float F v) = Inr (if is_nan v then NAN else v)"
  proof (cases "is_nan v \<or> is_infinite v")
    case True
    then show ?thesis using infinite_bits [of v]
      by (auto simp: format_float_def parse_float_def NAN_def is_nan_def is_infinite_def split: if_splits)
  next
    case False
    then have chars: "\<forall>c\<in>set (format_f64 F v). float_char c" using float_laws.format_chars [OF assms] by blast
    have "format_f64 F v \<notin> {lit ''NaN'', lit ''Infinity'', lit ''-Infinity''}"
    proof
      assume "format_f64 F v \<in> {lit ''NaN'', lit ''Infinity'', lit ''-Infinity''}"
      then have "78 \<in> set (format_f64 F v) \<or> 73 \<in> set (format_f64 F v)" by (auto simp: lit_def)
      then show False using chars by (auto simp: float_char_def)
    qed
    then show ?thesis using False float_laws.parse_format [OF assms, of v]
      by (simp add: format_float_def parse_float_def)
  qed
qed

section \<open>Scalars\<close>

text \<open>The tag of a scalar selects the parser that makes of its text what the document carries.\<close>

lemma parse_int_text_show: "lo \<le> i \<Longrightarrow> i \<le> hi \<Longrightarrow> parse_int_text lo hi closing (show_int i) = Inr i"
  by (simp add: parse_int_text_def from_str_radix_show_int)

lemma parse_nat_text_show: "int n \<le> hi \<Longrightarrow> parse_int_text lo hi closing (show_nat n) = Inr (int n)"
  by (simp add: parse_int_text_def from_str_radix_show_nat)

definition reads_back :: "uuid_api \<Rightarrow> float_api \<Rightarrow> ustr \<Rightarrow> ustr \<Rightarrow> ps_value \<Rightarrow> bool" where
  "reads_back U F tag body w \<longleftrightarrow>
     (\<exists>t parser. body = escape t \<and> valid_str t \<and> map_of (scalar_parsers U F) tag = Some parser \<and> parser t = Inr w)"

lemma reads_back_bare:
  "\<forall>c\<in>set t. bare_char c \<Longrightarrow> map_of (scalar_parsers U F) tag = Some parser \<Longrightarrow> parser t = Inr w \<Longrightarrow> reads_back U F tag t w"
  unfolding reads_back_def by (metis escape_bare valid_bare)

lemma reads_back_text:
  "valid_str t \<Longrightarrow> map_of (scalar_parsers U F) tag = Some parser \<Longrightarrow> parser t = Inr w \<Longrightarrow> reads_back U F tag (escape t) w"
  unfolding reads_back_def by blast

lemma reads_back_int:
  fixes w :: "'a::len word"
  assumes "map_of (scalar_parsers U F) tag =
      Some (\<lambda>t. map_sum id (\<lambda>i. C (word_of_int i)) (parse_int_text (- (2 ^ (LENGTH('a) - 1))) (2 ^ (LENGTH('a) - 1) - 1) tag t))"
  shows "reads_back U F tag (show_sword w) (C w)"
proof (rule reads_back_bare [OF _ assms])
  have "sint w < 2 ^ (LENGTH('a) - 1)" "- (2 ^ (LENGTH('a) - 1)) \<le> sint w"
    using sint_lt [of w] sint_ge [of w] by simp_all
  then show "map_sum id (\<lambda>i. C (word_of_int i)) (parse_int_text (- (2 ^ (LENGTH('a) - 1))) (2 ^ (LENGTH('a) - 1) - 1) tag (show_sword w))
      = Inr (C w)"
    by (simp add: parse_int_text_show)
qed (simp add: bare_show_int)

lemma reads_back_nat:
  fixes w :: "'a::len word"
  assumes "map_of (scalar_parsers U F) tag =
      Some (\<lambda>t. map_sum id (\<lambda>i. C (word_of_int i)) (parse_int_text 0 (2 ^ LENGTH('a) - 1) tag t))"
  shows "reads_back U F tag (show_word w) (C w)"
proof (rule reads_back_bare [OF _ assms])
  have "int (unat w) \<le> 2 ^ LENGTH('a) - 1" using unsigned_less [of w, where 'a = int] by simp
  then show "map_sum id (\<lambda>i. C (word_of_int i)) (parse_int_text 0 (2 ^ LENGTH('a) - 1) tag (show_word w)) = Inr (C w)"
    by (simp add: parse_nat_text_show)
qed (simp add: bare_show_nat)

lemma scalar_tags:
  "arm_of U F v = Scalar tag body c \<Longrightarrow> c \<longleftrightarrow> v = PsNull"
  by (cases v) auto

lemma scalar_reads_back:
  assumes "uuid_laws U" "float_laws F" "scalar_value v" "v \<noteq> PsNull" "arm_of U F v = Scalar tag body False"
  shows "reads_back U F tag body (carried F v)"
proof -
  note lookup = scalar_parsers_def
  have floats: "trim (format_float F d) = format_float F d" "\<forall>c\<in>set (format_float F d). bare_char c" for d
    using trim_bare [of "format_float F d"] format_float_read(2) [OF assms(2), of _ d] by auto
  show ?thesis
  proof (cases v)
    case (PsBool b)
    have bare: "\<forall>c\<in>set (lit ''true''). bare_char c" "\<forall>c\<in>set (lit ''false''). bare_char c"
      by (simp_all add: lit_def bare_char_def markup_def UNDERSCORE_def)
    have "parse_bool_text (lit ''true'') = Inr True" "parse_bool_text (lit ''false'') = Inr False"
      using bare [THEN trim_bare] by (simp_all add: parse_bool_text_def) (simp_all add: lit_def ascii_lower_def)
    with PsBool assms(5) bare show ?thesis
      by (cases b) (auto intro!: reads_back_bare simp: lookup)
  next
    case (PsI8 w)
    then show ?thesis using assms(5) by (auto intro!: reads_back_int simp: lookup)
  next
    case (PsI16 w)
    then show ?thesis using assms(5) by (auto intro!: reads_back_int simp: lookup)
  next
    case (PsI32 w)
    then show ?thesis using assms(5) by (auto intro!: reads_back_int simp: lookup)
  next
    case (PsI64 w)
    then show ?thesis using assms(5) by (auto intro!: reads_back_int simp: lookup)
  next
    case (PsU8 w)
    then show ?thesis using assms(5) by (auto intro!: reads_back_nat simp: lookup)
  next
    case (PsU16 w)
    then show ?thesis using assms(5) by (auto intro!: reads_back_nat simp: lookup)
  next
    case (PsU32 w)
    then show ?thesis using assms(5) by (auto intro!: reads_back_nat simp: lookup)
  next
    case (PsU64 w)
    then show ?thesis using assms(5) by (auto intro!: reads_back_nat simp: lookup)
  next
    case (PsDouble d)
    then show ?thesis using assms(5) floats [of d] format_float_read(1) [OF assms(2), of d]
      by (auto intro!: reads_back_bare simp: lookup float_text_def)
  next
    case (PsF32 w)
    then show ?thesis
      using assms(5) floats [of "f64_of_f32 F w"] format_float_read(1) [OF assms(2), of "f64_of_f32 F w"]
        float_laws.narrow_widen [OF assms(2), of w]
      by (auto intro!: reads_back_bare simp: lookup float_text_def)
  next
    case (PsChar c)
    let ?c = "if c < 65536 then c else 65533"
    have "scalar ?c" "int ?c \<le> 4294967295" using assms(3) PsChar by (auto simp: scalar_def)
    then show ?thesis using PsChar assms(5) bare_show_nat
      by (auto intro!: reads_back_bare simp: lookup parse_nat_text_show char_from_u32_def REPLACEMENT_def)
  next
    case (PsBytes bs)
    have bare: "\<forall>c\<in>set (base64_encode bs). bare_char c" using base64_encode_plain bare_chars(4) by blast
    from trim_bare [OF this] PsBytes assms(5) bare show ?thesis
      by (auto intro!: reads_back_bare simp: lookup ok_or_def)
  next
    case (PsGuid g)
    have bare: "\<forall>c\<in>set (hyphenated U g). bare_char c"
      using uuid_laws.hyphenated_chars [OF assms(1)] bare_chars(3) by blast
    from trim_bare [OF this] PsGuid assms(5) bare uuid_laws.parse_hyphenated [OF assms(1), of g] show ?thesis
      by (auto intro!: reads_back_bare simp: lookup)
  qed (use assms(3-5) in \<open>auto intro!: reads_back_text simp: lookup\<close>)
qed

end
