(* ===== verification/Clixml_Roundtrip.thy ===== *)
theory Clixml_Roundtrip
  imports Carried_Values
begin

text \<open>
  The CLIXML round trip: what the decoder makes of the document of any value is what the document
  carries of it (\<open>carried\<close>).  The encoder's text is shown to be the rendering of an XML tree, and
  \<open>denotes\<close> says what a tree means to the decoder wherever it stands: in a list, an entry, a member
  set, an object or on its own.
\<close>

section \<open>Steps of the decoder\<close>

text \<open>Between elements the decoder's state changes in nothing but the type names it has seen.\<close>

definition same_but_names :: "dec_state \<Rightarrow> dec_state \<Rightarrow> bool" where
  "same_but_names st st' \<longleftrightarrow> (\<exists>known. st' = st\<lparr>known_names := known\<rparr>)"

lemma same_but_names_refl [intro]: "same_but_names st st"
  by (cases st) (auto simp: same_but_names_def intro: exI [of _ "known_names st"])

lemma same_but_names_trans: "same_but_names a b \<Longrightarrow> same_but_names b c \<Longrightarrow> same_but_names a c"
  by (auto simp: same_but_names_def)

lemma same_but_names_fields: "same_but_names st st' \<Longrightarrow> depth st' = depth st \<and> referenced st' = referenced st"
  by (auto simp: same_but_names_def)

lemma same_keep_names: "same_but_names st (keep_names rid names st)"
  by (auto simp: keep_names_def same_but_names_def split: option.split intro: exI [of _ "known_names st"])

text \<open>Where the decoder stands: \<open>l\<close> levels are left, and the document has no references.\<close>

definition at_level :: "nat \<Rightarrow> dec_state \<Rightarrow> bool" where
  "at_level l st \<longleftrightarrow> depth st + l = MAX_NESTING_DEPTH \<and> referenced st = []"

lemma at_level_same: "at_level l st \<Longrightarrow> same_but_names st st' \<Longrightarrow> at_level l st'"
  using same_but_names_fields [of st st'] by (simp add: at_level_def)

text \<open>A parser gives \<open>x\<close>, leaves \<open>evs\<close> and changes nothing but the names.\<close>

definition gives :: "('a \<times> events \<times> dec_state) dec \<Rightarrow> 'a \<Rightarrow> events \<Rightarrow> dec_state \<Rightarrow> bool" where
  "gives r x evs st \<longleftrightarrow> (\<exists>st'. r = Done (x, evs, st') \<and> same_but_names st st')"

lemma gives_Done [intro]: "same_but_names st st' \<Longrightarrow> gives (Done (x, evs, st')) x evs st"
  by (auto simp: gives_def)

lemma gives_same: "gives r x evs st' \<Longrightarrow> same_but_names st st' \<Longrightarrow> gives r x evs st"
  by (auto simp: gives_def intro: same_but_names_trans)

lemma gives_bind:
  "gives r x evs st \<Longrightarrow> (\<And>st'. same_but_names st st' \<Longrightarrow> gives (f (x, evs, st')) y rest st') \<Longrightarrow> gives (dbind r f) y rest st"
  by (auto simp: gives_def) (metis same_but_names_trans)

section \<open>What a tree denotes\<close>

definition reserved_tags :: "ustr list" where
  "reserved_tags = [lit ''MS'', lit ''Props'', lit ''TN'', lit ''TNRef'', lit ''LST'', lit ''IE'', lit ''QUE'', lit ''STK'',
     lit ''DCT'', lit ''En'']"

definition name_attrs :: "ustr option \<Rightarrow> (ustr \<times> ustr) list" where
  "name_attrs name = (case name of Some n \<Rightarrow> [(lit ''N'', pwsh_escape True n)] | None \<Rightarrow> [])"

fun unreferenced :: "xml \<Rightarrow> bool" where
  "unreferenced (Leaf tag as) \<longleftrightarrow> tag \<noteq> lit ''Ref''"
| "unreferenced (Text tag as t) \<longleftrightarrow> tag \<noteq> lit ''Ref''"
| "unreferenced (Node tag as xs) \<longleftrightarrow> tag \<noteq> lit ''Ref'' \<and> (\<forall>x\<in>set xs. unreferenced x)"

text \<open>\<open>x\<close>, an element with the name \<open>name\<close>, is read as \<open>w\<close> where \<open>d\<close> levels are left.\<close>

definition denotes :: "uuid_api \<Rightarrow> float_api \<Rightarrow> xml \<Rightarrow> ustr option \<Rightarrow> ps_value \<Rightarrow> nat \<Rightarrow> bool" where
  "denotes U F x name w d \<longleftrightarrow> well_formed x \<and> unreferenced x \<and>
     ((\<exists>as. x = Leaf (lit ''Nil'') as \<and> name_attr (map read_attr as) = Inr name \<and> w = PsNull)
      \<or> (\<exists>tag as evs. xml_events x = XStart tag as # evs \<and> tag \<notin> set reserved_tags \<and> name_attr as = Inr name
           \<and> (\<forall>l rest st. d \<le> l \<longrightarrow> at_level l st \<longrightarrow>
                gives (parse_element U F l tag as (evs @ rest) st) (Some w) rest st)))"

lemma denotes_mono: "denotes U F x name w d \<Longrightarrow> d \<le> d' \<Longrightarrow> denotes U F x name w d'"
  unfolding denotes_def by (blast intro: order_trans)

lemma denotes_ok: "denotes U F x name w d \<Longrightarrow> well_formed x \<and> unreferenced x"
  by (simp add: denotes_def)

text \<open>The two ways in which a tree can start.\<close>

lemma denotes_cases:
  assumes "denotes U F x name w d"
  obtains (Nil) as where "x = Leaf (lit ''Nil'') as" "name_attr (map read_attr as) = Inr name" "w = PsNull"
  | (Element) tag as evs where "xml_events x = XStart tag as # evs" "tag \<notin> set reserved_tags" "name_attr as = Inr name"
      "\<And>l rest st. d \<le> l \<Longrightarrow> at_level l st \<Longrightarrow> gives (parse_element U F l tag as (evs @ rest) st) (Some w) rest st"
  using assms unfolding denotes_def by blast

lemma parse_empty_nil: "parse_empty (lit ''Nil'') as st = Inr (Some PsNull, st)"
  by (simp add: parse_empty_def)

section \<open>Lists, entries and members\<close>

abbreviation all_events :: "xml list \<Rightarrow> events" where
  "all_events xs \<equiv> concat (map xml_events xs)"

lemma parse_list_items:
  assumes "list_all2 (\<lambda>x w. denotes U F x None w d) xs ws" "d \<le> l"
  shows "length (all_events xs @ XEnd closing # rest) < f \<Longrightarrow> at_level l st \<Longrightarrow>
    gives (parse_list (parse_element U F l) f items closing (all_events xs @ XEnd closing # rest) st) (items @ ws) rest st"
  using assms(1)
proof (induction arbitrary: f items st rule: list_all2_induct)
  case Nil
  then show ?case by (cases f) auto
next
  case (Cons x xs w ws)
  obtain g where f: "f = Suc g" using Cons.prems(1) by (cases f) auto
  let ?more = "all_events xs @ XEnd closing # rest"
  have go: "gives (parse_list (parse_element U F l) g (items @ [w]) closing ?more st') (items @ w # ws) rest st'"
    if "same_but_names st st'" "length ?more < g" for st'
    using Cons.IH [of g st' "items @ [w]"] that at_level_same [OF Cons.prems(2)] by simp
  from Cons.hyps(1) show ?case
  proof (cases rule: denotes_cases)
    case (Nil as)
    then show ?thesis using go [of st] Cons.prems f by (auto simp: parse_empty_nil)
  next
    case (Element tag as evs)
    have "gives (parse_element U F l tag as (evs @ ?more) st) (Some w) ?more st"
      by (rule Element(4) [OF assms(2) Cons.prems(2)])
    then show ?thesis
      using go Cons.prems f Element(1) by (auto intro!: gives_bind)
  qed
qed

definition entry_denotes :: "uuid_api \<Rightarrow> float_api \<Rightarrow> nat \<Rightarrow> xml \<Rightarrow> ps_value \<times> ps_value \<Rightarrow> bool" where
  "entry_denotes U F d x kv \<longleftrightarrow> (\<exists>xk xv. x = Node (lit ''En'') [] [xk, xv]
     \<and> denotes U F xk (Some (lit ''Key'')) (fst kv) d \<and> denotes U F xv (Some (lit ''Value'')) (snd kv) d)"

lemma dict_entry_step:
  assumes "denotes U F x (Some name) w d" "d \<le> l" "at_level l st" "length (xml_events x @ evs) < Suc f"
    and "\<And>st'. same_but_names st st' \<Longrightarrow> length evs < f \<Longrightarrow>
      gives (parse_dict_entry (parse_element U F l) f (set_entry name w kv) evs st') kv' rest st'"
  shows "gives (parse_dict_entry (parse_element U F l) (Suc f) kv (xml_events x @ evs) st) kv' rest st"
  using assms(1)
proof (cases rule: denotes_cases)
  case (Nil as)
  then show ?thesis using assms(4,5) by (auto simp: parse_empty_nil unwrap_or_default_def)
next
  case (Element tag as evs')
  have "gives (parse_element U F l tag as (evs' @ evs) st) (Some w) evs st" by (rule Element(4) [OF assms(2,3)])
  then show ?thesis
    using assms(4,5) Element(1,3) by (auto intro!: gives_bind simp: unwrap_or_default_def)
qed

lemma parse_dict_entries:
  assumes "list_all2 (entry_denotes U F d) xs es" "d \<le> l"
  shows "length (all_events xs @ XEnd (lit ''DCT'') # rest) < f \<Longrightarrow> at_level l st \<Longrightarrow>
    gives (parse_dict (parse_element U F l) f entries (all_events xs @ XEnd (lit ''DCT'') # rest) st) (entries @ es) rest st"
  using assms(1)
proof (induction arbitrary: f entries st rule: list_all2_induct)
  case Nil
  then show ?case by (cases f) auto
next
  case (Cons x xs kv es)
  obtain g where f: "f = Suc g" using Cons.prems(1) by (cases f) auto
  obtain xk xv where x: "x = Node (lit ''En'') [] [xk, xv]" "denotes U F xk (Some (lit ''Key'')) (fst kv) d"
    "denotes U F xv (Some (lit ''Value'')) (snd kv) d"
    using Cons.hyps(1) by (auto simp: entry_denotes_def)
  let ?more = "all_events xs @ XEnd (lit ''DCT'') # rest"
  have len: "length (xml_events xk @ xml_events xv @ XEnd (lit ''En'') # ?more) < g"
    using Cons.prems(1) f x(1) by simp
  obtain h where g: "g = Suc (Suc h)" "length (XEnd (lit ''En'') # ?more) < h"
  proof -
    have "xml_events xk \<noteq> []" "xml_events xv \<noteq> []" by (cases xk; simp) (cases xv; simp)
    then have "Suc (Suc (length (XEnd (lit ''En'') # ?more))) < g"
      using len by (cases "xml_events xk"; cases "xml_events xv") auto
    then show thesis using that [of "g - 2"] by simp
  qed
  have kv: "set_entry (lit ''Value'') (snd kv) (set_entry (lit ''Key'') (fst kv) (PsNull, PsNull)) = kv"
    by (simp add: set_entry_def)
  have entry: "gives (parse_dict_entry (parse_element U F l) g (PsNull, PsNull)
      (xml_events xk @ xml_events xv @ XEnd (lit ''En'') # ?more) st) kv ?more st"
    unfolding g(1)
  proof (rule dict_entry_step [OF x(2) assms(2) Cons.prems(2)])
    fix st1 assume st1: "same_but_names st st1"
    show "gives (parse_dict_entry (parse_element U F l) (Suc h) (set_entry (lit ''Key'') (fst kv) (PsNull, PsNull))
        (xml_events xv @ XEnd (lit ''En'') # ?more) st1) kv ?more st1"
      if "length (xml_events xv @ XEnd (lit ''En'') # ?more) < Suc h"
    proof (rule dict_entry_step [OF x(3) assms(2) at_level_same [OF Cons.prems(2) st1] that])
      fix st2
      show "gives (parse_dict_entry (parse_element U F l) h
          (set_entry (lit ''Value'') (snd kv) (set_entry (lit ''Key'') (fst kv) (PsNull, PsNull)))
          (XEnd (lit ''En'') # ?more) st2) kv ?more st2"
        unfolding kv using g(2) by (cases h) auto
    qed
  qed (use len g in simp)
  have go: "gives (parse_dict (parse_element U F l) g (entries @ [kv]) ?more st') (entries @ kv # es) rest st'"
    if "same_but_names st st'" for st'
    using Cons.IH [of g st' "entries @ [kv]"] that len at_level_same [OF Cons.prems(2)] by simp
  show ?case
    using entry go by (auto simp: f x(1) intro!: gives_bind)
qed

definition member_denotes :: "uuid_api \<Rightarrow> float_api \<Rightarrow> nat \<Rightarrow> xml \<Rightarrow> ustr \<times> ps_value \<Rightarrow> bool" where
  "member_denotes U F d x p \<longleftrightarrow> denotes U F x (Some (fst p)) (snd p) d"

lemma object_insert_new:
  "n \<notin> fst ` set (properties obj) \<Longrightarrow>
     object_insert n v obj = Ps_Object (properties obj @ [(n, v)]) (type_names obj) (to_string obj)"
  by (simp add: object_insert_def object_with_def imap_insert_new)

lemma parse_members:
  assumes "list_all2 (member_denotes U F d) xs ps" "d \<le> l"
  shows "length (all_events xs @ XEnd closing # rest) < f \<Longrightarrow> at_level l st \<Longrightarrow>
    distinct (map fst (properties obj @ ps)) \<Longrightarrow>
    gives (parse_member_set (parse_element U F l) f obj closing (all_events xs @ XEnd closing # rest) st)
      (Ps_Object (properties obj @ ps) (type_names obj) (to_string obj)) rest st"
  using assms(1)
proof (induction arbitrary: f obj st rule: list_all2_induct)
  case Nil
  then show ?case by (cases f; cases obj) auto
next
  case (Cons x xs p ps)
  obtain g where f: "f = Suc g" using Cons.prems(1) by (cases f) auto
  let ?more = "all_events xs @ XEnd closing # rest" and ?obj = "object_insert (fst p) (snd p) obj"
  have obj: "?obj = Ps_Object (properties obj @ [p]) (type_names obj) (to_string obj)"
    using Cons.prems(3) by (subst object_insert_new) auto
  have go: "gives (parse_member_set (parse_element U F l) g ?obj closing ?more st')
      (Ps_Object (properties obj @ p # ps) (type_names obj) (to_string obj)) rest st'"
    if "same_but_names st st'" "length ?more < g" for st'
    using Cons.IH [of g st' ?obj] that at_level_same [OF Cons.prems(2)] Cons.prems(3) by (simp add: obj)
  from Cons.hyps(1) have "denotes U F x (Some (fst p)) (snd p) d" by (simp add: member_denotes_def)
  then show ?case
  proof (cases rule: denotes_cases)
    case (Nil as)
    then show ?thesis using go [of st] Cons.prems(1) f by auto
  next
    case (Element tag as evs)
    have "gives (parse_element U F l tag as (evs @ ?more) st) (Some (snd p)) ?more st"
      by (rule Element(4) [OF assms(2) Cons.prems(2)])
    then show ?thesis
      using go Cons.prems(1) f Element(1,3) by (auto intro!: gives_bind simp: unwrap_or_default_def)
  qed
qed

section \<open>Object bodies\<close>

text \<open>The type names of an object.\<close>

definition type_name_trees :: "u32 \<Rightarrow> ustr list \<Rightarrow> xml list" where
  "type_name_trees i names =
     (if names = [] then []
      else [Node (lit ''TN'') [(lit ''RefId'', show_word i)] (map (\<lambda>t. Text (lit ''T'') [] (pwsh_escape False t)) names)])"

lemma read_text_events:
  "read_text_loop closing out (text_events t @ XEnd closing # rest) = Inr (decode_pwsh_escapes (out @ t), rest)"
proof (induction t arbitrary: out rule: text_events.induct)
  case (2 c cs)
  show ?case
  proof (cases "markup c")
    case True
    then show ?thesis using 2(1) [OF True, of "out @ [c]"] by (simp add: text_events.simps(2))
  next
    case False
    then show ?thesis
      using 2(2) [OF False, of "out @ takeWhile (\<lambda>d. \<not> markup d) (c # cs)"]
      by (simp add: text_events.simps(2) del: takeWhile.simps dropWhile.simps)
  qed
qed simp

lemma read_escaped: "read_text closing (text_events (pwsh_escape False t) @ XEnd closing # rest) = Inr (t, rest)"
  using read_text_events [of closing "[]" "pwsh_escape False t" rest] by (simp add: read_text_def decode_pwsh_escape)

lemma read_type_names:
  "parse_type_names_loop out (all_events (map (\<lambda>t. Text (lit ''T'') [] (pwsh_escape False t)) names) @ XEnd (lit ''TN'') # rest)
    = Inr (out @ names, rest)"
  by (induction names arbitrary: out) (simp_all add: read_escaped)

lemma body_type_names:
  assumes "at_level l st" "length (all_events (type_name_trees i names) @ evs) < f" "type_names obj = []"
    and "\<And>st' f'. same_but_names st st' \<Longrightarrow> length evs < f' \<Longrightarrow>
      gives (parse_obj_body (parse_element U F l) f' (with_type_names obj names) embedded evs st') x rest st'"
  shows "gives (parse_obj_body (parse_element U F l) f obj embedded (all_events (type_name_trees i names) @ evs) st) x rest st"
proof (cases "names = []")
  case True
  moreover have "with_type_names obj [] = obj" using assms(3) by (cases obj) (simp add: with_type_names_def)
  ultimately show ?thesis using assms(2) assms(4) [of st f] by (auto simp: type_name_trees_def)
next
  case False
  obtain g where f: "f = Suc g" using assms(2) by (cases f) auto
  have rid: "ref_id_attr [(lit ''RefId'', Inr t)] = Inr (Some t)" for t by (simp add: ref_id_attr_def attr_value_def)
  let ?st = "keep_names (Some (show_word i)) names st"
  have "length evs < g" using assms(2) False by (simp add: type_name_trees_def f)
  then have "gives (parse_obj_body (parse_element U F l) g (with_type_names obj names) embedded evs ?st) x rest ?st"
    by (intro assms(4) same_keep_names)
  then show ?thesis
    using False read_type_names [of "[]" names evs] gives_same [OF _ same_keep_names]
    by (simp add: type_name_trees_def f rid read_attr_def parse_type_names_def)
qed

text \<open>The \<open>ToString\<close> text, which the decoder skips.\<close>

definition to_string_trees :: "ustr option \<Rightarrow> xml list" where
  "to_string_trees ts =
     (case ts of Some t \<Rightarrow> [Text (lit ''ToString'') [] (pwsh_escape False t)] | None \<Rightarrow> [])"

lemma skip_text: "skip_loop (Suc 0) (text_events t @ XEnd tag # rest) = Inr rest"
  by (induction t rule: text_events.induct) (simp_all add: text_events.simps(2))

lemma skips_to_string:
  "1 \<le> l \<Longrightarrow> at_level l st \<Longrightarrow>
    gives (parse_element U F l (lit ''ToString'') [] (text_events t @ XEnd (lit ''ToString'') # rest) st) None rest st"
proof -
  assume l: "1 \<le> l" "at_level l st"
  then obtain m where m: "l = Suc m" by (cases l) auto
  have "st\<lparr>depth := depth st\<rparr> = st" by (cases st) simp
  with l m show ?thesis
    by (simp add: at_level_def parse_element_inner_def scalar_parsers_def skip_to_end_def skip_text gives_def)
      (auto intro: same_but_names_refl)
qed

lemma body_to_string:
  assumes "at_level l st" "length (all_events (to_string_trees ts) @ evs) < f" "ts \<noteq> None \<longrightarrow> 1 \<le> l"
    and "\<And>st' f'. same_but_names st st' \<Longrightarrow> length evs < f' \<Longrightarrow>
      gives (parse_obj_body (parse_element U F l) f' obj None evs st') x rest st'"
  shows "gives (parse_obj_body (parse_element U F l) f obj None (all_events (to_string_trees ts) @ evs) st) x rest st"
proof (cases ts)
  case None
  then show ?thesis using assms(2) assms(4) [of st f] by (auto simp: to_string_trees_def)
next
  case (Some t)
  obtain g where f: "f = Suc g" using assms(2) by (cases f) auto
  have "length evs < g" using assms(2) Some by (simp add: to_string_trees_def f)
  with skips_to_string [OF _ assms(1), where U = U and F = F and t = "pwsh_escape False t" and rest = evs] assms(3,4) Some show ?thesis
    by (auto simp: to_string_trees_def f list_tags_def intro!: gives_bind)
qed

text \<open>What the property \<open>_value\<close> becomes inside the element of its object.\<close>

definition embeds :: "uuid_api \<Rightarrow> float_api \<Rightarrow> nat \<Rightarrow> xml list \<Rightarrow> ps_value option \<Rightarrow> bool" where
  "embeds U F d xs e \<longleftrightarrow> (\<forall>x\<in>set xs. well_formed x \<and> unreferenced x)
     \<and> (xs = [] \<and> e = None
      \<or> (\<exists>as. xs = [Leaf (lit ''Nil'') as]) \<and> e = None
      \<or> (\<exists>ys ws. xs = [Node (lit ''LST'') [] ys] \<and> list_all2 (\<lambda>x w. denotes U F x None w d) ys ws \<and> e = Some (PsList ws))
      \<or> (\<exists>ys es. xs = [Node (lit ''DCT'') [] ys] \<and> list_all2 (entry_denotes U F d) ys es \<and> e = Some (PsDict es))
      \<or> (\<exists>x w. xs = [x] \<and> denotes U F x None w d \<and> (\<forall>as. x \<noteq> Leaf (lit ''Nil'') as) \<and> e = Some w))"

lemma body_embedded:
  assumes "at_level l st" "length (all_events xs @ evs) < f" "embeds U F d xs e" "d \<le> l"
    and go: "\<And>st' f'. same_but_names st st' \<Longrightarrow> length evs < f' \<Longrightarrow>
      gives (parse_obj_body (parse_element U F l) f' obj e evs st') x rest st'"
  shows "gives (parse_obj_body (parse_element U F l) f obj None (all_events xs @ evs) st) x rest st"
proof -
  obtain g where f: "f = Suc g" using assms(2) by (cases f) auto
  have xs: "length evs < g" if "xs = [y]" for y
  proof -
    have "xml_events y \<noteq> []" by (cases y) simp_all
    then show ?thesis using assms(2) that f by (cases "xml_events y") auto
  qed
  consider "xs = []" "e = None" | as where "xs = [Leaf (lit ''Nil'') as]" "e = None"
    | ys ws where "xs = [Node (lit ''LST'') [] ys]" "list_all2 (\<lambda>x w. denotes U F x None w d) ys ws" "e = Some (PsList ws)"
    | ys es where "xs = [Node (lit ''DCT'') [] ys]" "list_all2 (entry_denotes U F d) ys es" "e = Some (PsDict es)"
    | y w where "xs = [y]" "denotes U F y None w d" "\<forall>as. y \<noteq> Leaf (lit ''Nil'') as" "e = Some w"
    using assms(3) unfolding embeds_def by blast
  then show ?thesis
  proof cases
    case 1
    then show ?thesis using go [of st f] assms(2) by auto
  next
    case 2
    then show ?thesis using go [of st g] xs f by auto
  next
    case 3
    have "gives (parse_list (parse_element U F l) g [] (lit ''LST'') (all_events ys @ XEnd (lit ''LST'') # evs) st) ws evs st"
      using parse_list_items [OF 3(2) assms(4), of "lit ''LST''" evs g st "[]"] assms(1,2) 3(1) f by simp
    then show ?thesis using go xs [OF 3(1)] 3 f by (auto simp: list_tags_def intro!: gives_bind)
  next
    case 4
    have "gives (parse_dict (parse_element U F l) g [] (all_events ys @ XEnd (lit ''DCT'') # evs) st) es evs st"
      using parse_dict_entries [OF 4(2) assms(4), of evs g st "[]"] assms(1,2) 4(1) f by simp
    then show ?thesis using go xs [OF 4(1)] 4 f by (auto simp: list_tags_def intro!: gives_bind)
  next
    case 5
    from 5(2) show ?thesis
    proof (cases rule: denotes_cases)
      case (Element tag as evs')
      have "gives (parse_element U F l tag as (evs' @ evs) st) (Some w) evs st" by (rule Element(4) [OF assms(4,1)])
      then show ?thesis
        using go xs [OF 5(1)] 5 f Element(1,2) by (auto simp: list_tags_def reserved_tags_def intro!: gives_bind)
    qed (use 5(3) in simp)
  qed
qed

definition member_trees :: "xml list \<Rightarrow> xml list" where
  "member_trees xs = (if xs = [] then [] else [Node (lit ''MS'') [] xs])"

lemma body_members:
  assumes "at_level l st" "length (all_events (member_trees xs) @ XEnd (lit ''Obj'') # rest) < f"
    and "list_all2 (member_denotes U F d) xs ps" "d \<le> l" "distinct (map fst ps)" "properties obj = []"
  shows "gives (parse_obj_body (parse_element U F l) f obj e (all_events (member_trees xs) @ XEnd (lit ''Obj'') # rest) st)
    (expose_embedded e (Ps_Object ps (type_names obj) (to_string obj))) rest st"
proof -
  obtain g where f: "f = Suc g" using assms(2) by (cases f) auto
  show ?thesis
  proof (cases "xs = []")
    case True
    then have "obj = Ps_Object ps (type_names obj) (to_string obj)" using assms(3,6) by (cases obj) simp
    then show ?thesis using True by (auto simp: member_trees_def f)
  next
    case False
    let ?obj = "Ps_Object ps (type_names obj) (to_string obj)"
    have "gives (parse_member_set (parse_element U F l) g obj (lit ''MS'')
        (all_events xs @ XEnd (lit ''MS'') # XEnd (lit ''Obj'') # rest) st) ?obj (XEnd (lit ''Obj'') # rest) st"
      using parse_members [OF assms(3,4), of "lit ''MS''" "XEnd (lit ''Obj'') # rest" g st obj] assms(1,2,5,6) False f
      by (simp add: member_trees_def)
    moreover obtain h where "g = Suc h" using assms(2) False f by (cases g) (auto simp: member_trees_def)
    ultimately show ?thesis using False by (auto simp: member_trees_def f intro!: gives_bind gives_Done same_but_names_refl)
  qed
qed

section \<open>Objects\<close>

text \<open>The properties an object has in the end.\<close>

definition shown :: "(ustr \<times> ps_value) list \<Rightarrow> ps_value option \<Rightarrow> (ustr \<times> ps_value) list" where
  "shown ps e = (if ps = [] then (case e of Some w \<Rightarrow> [(VALUE_KEY, w)] | None \<Rightarrow> []) else ps)"

lemma expose_shown: "expose_embedded e (Ps_Object ps names ts) = Ps_Object (shown ps e) names ts"
  by (simp add: expose_embedded_def shown_def object_insert_def object_with_def split: option.split)

definition object_tree :: "ustr option \<Rightarrow> u32 \<Rightarrow> xml list \<Rightarrow> xml" where
  "object_tree name i xs = Node (lit ''Obj'') (name_attrs name @ [(lit ''RefId'', show_word i)]) xs"

lemma name_attr_read:
  "name_attr (map read_attr (name_attrs name @ as)) = Inr name" if "lit ''N'' \<notin> fst ` set as"
proof -
  have "find_map (\<lambda>(k, v). if k = lit ''N'' then Some v else None) (map read_attr as) = None"
    using that by (induction as) (auto simp: read_attr_def)
  then show ?thesis
    by (auto simp: name_attr_def attr_value_def name_attrs_def read_attr_def decode_pwsh_escape split: option.split)
qed

lemma object_body:
  assumes "at_level l st" "d \<le> l" "ts \<noteq> None \<longrightarrow> 1 \<le> l"
    and "embeds U F d vs e" "list_all2 (member_denotes U F d) xs ps" "distinct (map fst ps)"
    and "evs = all_events (type_name_trees j names @ to_string_trees ts @ vs @ member_trees xs) @ XEnd (lit ''Obj'') # rest"
  shows "gives (parse_obj_body (parse_element U F l) (Suc (length evs)) object_new None evs st)
    (Ps_Object (shown ps e) names None) rest st"
proof -
  let ?obj = "with_type_names object_new names" and ?tail_evs = "all_events (member_trees xs) @ XEnd (lit ''Obj'') # rest"
  have obj: "properties ?obj = []" "type_names ?obj = names" "to_string ?obj = None" "type_names object_new = []"
    by (simp_all add: with_type_names_def object_new_def)
  have members: "gives (parse_obj_body (parse_element U F l) f ?obj e ?tail_evs st1) (Ps_Object (shown ps e) names None) rest st1"
    if "same_but_names st st1" "length ?tail_evs < f" for st1 f
    using body_members [OF at_level_same [OF assms(1) that(1)] that(2) assms(5,2,6) obj(1), of e] obj
    by (simp add: expose_shown)
  have embedded: "gives (parse_obj_body (parse_element U F l) f ?obj None (all_events vs @ ?tail_evs) st1)
      (Ps_Object (shown ps e) names None) rest st1"
    if "same_but_names st st1" "length (all_events vs @ ?tail_evs) < f" for st1 f
    by (rule body_embedded [OF at_level_same [OF assms(1) that(1)] that(2) assms(4,2)])
      (rule members [OF same_but_names_trans [OF that(1)]])
  have strings: "gives (parse_obj_body (parse_element U F l) f ?obj None (all_events (to_string_trees ts) @ all_events vs @ ?tail_evs) st1)
      (Ps_Object (shown ps e) names None) rest st1"
    if "same_but_names st st1" "length (all_events (to_string_trees ts) @ all_events vs @ ?tail_evs) < f" for st1 f
    by (rule body_to_string [OF at_level_same [OF assms(1) that(1)] that(2) assms(3)])
      (rule embedded [OF same_but_names_trans [OF that(1)]])
  have "gives (parse_obj_body (parse_element U F l) (Suc (length evs)) object_new None
      (all_events (type_name_trees j names) @ all_events (to_string_trees ts) @ all_events vs @ ?tail_evs) st)
      (Ps_Object (shown ps e) names None) rest st"
    by (rule body_type_names [OF assms(1)]) (use assms(7) obj(4) strings in simp_all)
  then show ?thesis by (simp add: assms(7))
qed

lemma pwsh_escape_chars:
  "valid_str s \<Longrightarrow> c \<in> set (pwsh_escape a s) \<Longrightarrow> scalar c \<and> (32 \<le> c \<or> \<not> a \<and> (c = 9 \<or> c = 10))"
proof (induction s)
  case (Cons d s)
  let ?p = "case s of [] \<Rightarrow> None | e # _ \<Rightarrow> Some e"
  have "c \<in> set (pwsh_char a d ?p) \<Longrightarrow> scalar c \<and> (32 \<le> c \<or> \<not> a \<and> (c = 9 \<or> c = 10))"
  proof (cases "pwsh_char a d ?p = [d]")
    case True
    moreover assume "c \<in> set (pwsh_char a d ?p)"
    ultimately have "c = d" by simp
    then have plain: "pwsh_char a c ?p = [c]" using True by simp
    have "length (pwsh_unit c) = 7" by (rule length_pwsh_unit)
    then have "pwsh_unit c \<noteq> [c]" by auto
    then have "32 \<le> c \<or> \<not> a \<and> (c = 9 \<or> c = 10)"
      using plain unfolding pwsh_char_def by (metis not_less)
    with \<open>c = d\<close> Cons.prems(1) show ?thesis by simp
  next
    case False
    moreover assume "c \<in> set (pwsh_char a d ?p)"
    ultimately have "c \<in> set (pwsh_unit d)" by (cases rule: pwsh_char_cases [of d a ?p]) auto
    with pwsh_unit_chars [of c d] pwsh_unit_ascii [of c d] show ?thesis by (auto simp: scalar_def)
  qed
  with Cons show ?case by auto
qed simp

definition name_ok :: "ustr option \<Rightarrow> bool" where
  "name_ok name \<longleftrightarrow> (case name of Some n \<Rightarrow> valid_str n | None \<Rightarrow> True)"

lemma plain_names [simp]:
  "plain_name (lit ''N'')" "plain_name (lit ''RefId'')" "plain_name (lit ''Obj'')" "plain_name (lit ''TN'')"
  "plain_name (lit ''T'')" "plain_name (lit ''ToString'')" "plain_name (lit ''MS'')" "plain_name (lit ''LST'')"
  "plain_name (lit ''DCT'')" "plain_name (lit ''En'')" "plain_name (lit ''Nil'')"
  by (simp_all add: plain_name_def lit_def)

lemma name_attrs_well_formed: "name_ok name \<Longrightarrow> attrs_well_formed (name_attrs name)"
  by (auto simp: attrs_well_formed_def name_attrs_def attr_ok_def name_ok_def split: option.split dest: pwsh_escape_chars)

lemma ref_attr_ok: "attr_ok (lit ''RefId'', show_nat n)"
  by (auto simp: attr_ok_def scalar_def dest!: show_nat_digits)

lemma object_attrs_well_formed: "name_ok name \<Longrightarrow> attrs_well_formed (name_attrs name @ [(lit ''RefId'', show_nat n)])"
  using name_attrs_well_formed [of name] ref_attr_ok [of n]
  by (auto simp: attrs_well_formed_def name_attrs_def split: option.split)

lemma escaped_well_formed:
  "plain_name tag \<Longrightarrow> name_ok name \<Longrightarrow> valid_str t \<Longrightarrow> well_formed (Text tag (name_attrs name) (pwsh_escape False t))"
  using name_attrs_well_formed [of name] by (auto dest: pwsh_escape_chars)

lemma no_attrs [simp]: "attrs_well_formed []" "attrs_well_formed [(lit ''RefId'', show_nat n)]"
  using ref_attr_ok [of n] by (simp_all add: attrs_well_formed_def)

lemma names_trees_ok:
  assumes "list_all valid_str names" "x \<in> set (type_name_trees i names)"
  shows "well_formed x \<and> unreferenced x"
proof -
  have "well_formed (Text (lit ''T'') [] (pwsh_escape False t))" if "t \<in> set names" for t
    using escaped_well_formed [of "lit ''T''" None t] that assms(1) by (simp add: name_ok_def name_attrs_def list_all_iff)
  then show ?thesis using assms(2) by (auto simp: type_name_trees_def split: if_splits)
qed

lemma string_trees_ok:
  assumes "name_ok ts" "x \<in> set (to_string_trees ts)"
  shows "well_formed x \<and> unreferenced x"
proof (cases ts)
  case (Some t)
  then show ?thesis using escaped_well_formed [of "lit ''ToString''" None t] assms
    by (simp add: to_string_trees_def name_ok_def name_attrs_def)
qed (use assms(2) in \<open>simp add: to_string_trees_def\<close>)

lemma object_denotes:
  assumes "embeds U F d vs e" "list_all2 (member_denotes U F d) xs ps" "distinct (map fst ps)" "ts \<noteq> None \<longrightarrow> 1 \<le> d"
    and "name_ok name" "list_all valid_str names" "name_ok ts"
  shows "denotes U F (object_tree name i (type_name_trees j names @ to_string_trees ts @ vs @ member_trees xs)) name
    (PsObject (Ps_Object (shown ps e) names None)) (Suc d)"
proof -
  let ?xs = "type_name_trees j names @ to_string_trees ts @ vs @ member_trees xs"
  have "well_formed x \<and> unreferenced x" if "x \<in> set xs" for x
    using assms(2) that by (auto simp: list_all2_conv_all_nth in_set_conv_nth member_denotes_def denotes_def)
  then have parts: "well_formed x \<and> unreferenced x" if "x \<in> set ?xs" for x
    using that assms(1) names_trees_ok [OF assms(6), of x j] string_trees_ok [OF assms(7), of x]
    by (auto simp: member_trees_def embeds_def split: if_splits)
  have read: "gives (parse_element U F l (lit ''Obj'') (map read_attr (name_attrs name @ [(lit ''RefId'', show_word i)]))
      ((all_events ?xs @ [XEnd (lit ''Obj'')]) @ rest) st) (Some (PsObject (Ps_Object (shown ps e) names None))) rest st"
    if lev: "Suc d \<le> l" "at_level l st" for l rest st
  proof -
    obtain m where m: "l = Suc m" "d \<le> m" using lev(1) by (cases l) auto
    let ?st = "st\<lparr>depth := Suc (depth st)\<rparr>"
    obtain evs where evs: "evs = all_events ?xs @ XEnd (lit ''Obj'') # rest" by blast
    have st: "at_level m ?st" "depth st < MAX_NESTING_DEPTH" using lev(2) m(1) by (simp_all add: at_level_def)
    have "ts \<noteq> None \<longrightarrow> 1 \<le> m" using assms(4) m(2) by linarith
    have "gives (parse_obj_body (parse_element U F m) (Suc (length evs)) object_new None evs ?st)
        (Ps_Object (shown ps e) names None) rest ?st"
      by (rule object_body [OF st(1) m(2) \<open>ts \<noteq> None \<longrightarrow> 1 \<le> m\<close> assms(1-3) evs])
    then obtain known where body: "parse_obj_body (parse_element U F m) (Suc (length evs)) object_new None evs ?st
        = Done (Ps_Object (shown ps e) names None, rest, ?st\<lparr>known_names := known\<rparr>)"
      unfolding gives_def same_but_names_def by blast
    have rid: "ref_id_attr (map read_attr (name_attrs name @ [(lit ''RefId'', show_word i)])) = Inr (Some (show_word i))"
      by (simp add: ref_id_attr_def attr_value_def name_attrs_def read_attr_def split: option.split)
    have keep: "keep_ref (Some (show_word i)) v (?st\<lparr>known_names := known\<rparr>) = Inr (?st\<lparr>known_names := known\<rparr>)" for v
      using lev(2) by (simp add: keep_ref_def at_level_def)
    have table: "map_of (scalar_parsers U F) (lit ''Obj'') = None" by (rule tag_facts)
    have restored: "?st\<lparr>known_names := known, depth := depth st\<rparr> = st\<lparr>known_names := known\<rparr>" by (cases st) simp
    have "parse_element U F l (lit ''Obj'') (map read_attr (name_attrs name @ [(lit ''RefId'', show_word i)])) evs st
        = Done (Some (PsObject (Ps_Object (shown ps e) names None)), rest, st\<lparr>known_names := known\<rparr>)"
      using st(2) restored by (simp add: m(1) parse_element_inner_def table rid body keep del: map_append)
    then have "gives (parse_element U F l (lit ''Obj'') (map read_attr (name_attrs name @ [(lit ''RefId'', show_word i)])) evs st)
        (Some (PsObject (Ps_Object (shown ps e) names None))) rest st"
      by (auto simp: gives_def same_but_names_def)
    then show ?thesis by (simp add: evs)
  qed
  have "name_attr (map read_attr (name_attrs name @ [(lit ''RefId'', show_word i)])) = Inr name"
    by (rule name_attr_read) simp
  moreover have "well_formed (object_tree name i ?xs)" "unreferenced (object_tree name i ?xs)"
    using parts object_attrs_well_formed [OF assms(5), of "unat i"] by (auto simp: object_tree_def)
  moreover have "xml_events (object_tree name i ?xs) =
      XStart (lit ''Obj'') (map read_attr (name_attrs name @ [(lit ''RefId'', show_word i)])) # (all_events ?xs @ [XEnd (lit ''Obj'')])"
    by (simp add: object_tree_def)
  moreover have "lit ''Obj'' \<notin> set reserved_tags" by (simp add: reserved_tags_def)
  ultimately show ?thesis unfolding denotes_def using read by blast
qed

section \<open>Scalars\<close>

lemma scalar_denotes:
  assumes "reads_back U F tag body w" "plain_name tag" "tag \<notin> set reserved_tags" "tag \<noteq> lit ''Ref''" "name_ok name"
  shows "\<exists>t. body = escape t \<and> denotes U F (Text tag (name_attrs name) (pwsh_escape False t)) name w 1"
proof -
  obtain t parser where t: "body = escape t" "valid_str t" "map_of (scalar_parsers U F) tag = Some parser" "parser t = Inr w"
    using assms(1) by (auto simp: reads_back_def)
  have "gives (parse_element U F l tag as (text_events (pwsh_escape False t) @ XEnd tag # rest) st) (Some w) rest st"
    if lev: "1 \<le> l" "at_level l st" for l rest st as
  proof -
    obtain m where m: "l = Suc m" using lev(1) by (cases l) auto
    have "st\<lparr>depth := depth st\<rparr> = st" by (cases st) simp
    then show ?thesis
      using lev(2) by (auto simp: m at_level_def parse_element_inner_def t(3,4) read_escaped)
  qed
  then have "denotes U F (Text tag (name_attrs name) (pwsh_escape False t)) name w 1"
    using escaped_well_formed [OF assms(2,5) t(2)] assms(3,4) name_attr_read [of "[]" name]
    unfolding denotes_def by auto
  with t(1) show ?thesis by blast
qed

text \<open>A written value: its text is that of a tree that denotes what the document carries of it.\<close>

definition written :: "uuid_api \<Rightarrow> float_api \<Rightarrow> ps_value \<Rightarrow> bool" where
  "written U F v \<longleftrightarrow> (\<forall>name n. name_ok name \<longrightarrow> (\<exists>x n'. write_value U F v name n = (render x, n')
     \<and> denotes U F x name (carried F v) (element_levels v) \<and> (v \<noteq> PsNull \<longrightarrow> (\<forall>as. x \<noteq> Leaf (lit ''Nil'') as))))"

lemma write_simple_render:
  "write_simple tag body name True = render (Leaf tag (name_attrs name))"
  "write_simple tag (escape t) name False = render (Text tag (name_attrs name) (pwsh_escape False t))"
  by (simp_all add: write_simple_def name_attrs_def render_attrs_def escape_def escape_attr_def escape_inner_layers
      split: option.split) (simp_all add: lit_def)

lemma scalar_levels: "scalar_value v \<Longrightarrow> v \<noteq> PsNull \<Longrightarrow> element_levels v = 1"
  by (cases v) auto

lemma scalar_arm:
  "scalar_value v \<Longrightarrow> \<exists>tag body. arm_of U F v = Scalar tag body (v = PsNull) \<and> plain_name tag \<and> tag \<notin> set reserved_tags
     \<and> tag \<noteq> lit ''Ref''"
  by (cases v) (simp_all add: plain_name_def reserved_tags_def, simp_all add: lit_def)

lemma scalar_written:
  assumes "uuid_laws U" "float_laws F" "scalar_value v"
  shows "written U F v"
  unfolding written_def
proof (intro allI impI)
  fix name n assume name: "name_ok name"
  obtain tag body where arm: "arm_of U F v = Scalar tag body (v = PsNull)" "plain_name tag" "tag \<notin> set reserved_tags"
    "tag \<noteq> lit ''Ref''"
    using scalar_arm [OF assms(3)] by blast
  show "\<exists>x n'. write_value U F v name n = (render x, n') \<and> denotes U F x name (carried F v) (element_levels v)
      \<and> (v \<noteq> PsNull \<longrightarrow> (\<forall>as. x \<noteq> Leaf (lit ''Nil'') as))"
  proof (cases "v = PsNull")
    case True
    have "denotes U F (Leaf (lit ''Nil'') (name_attrs name)) name PsNull 0"
      using name_attrs_well_formed [OF name] name_attr_read [of "[]" name] by (auto simp: denotes_def)
    then show ?thesis using True arm(1) by (auto simp: write_simple_render simp del: render.simps)
  next
    case False
    then have "reads_back U F tag body (carried F v)" using scalar_reads_back [OF assms False] arm(1) by simp
    from scalar_denotes [OF this arm(2-4) name] obtain t where
      "body = escape t" "denotes U F (Text tag (name_attrs name) (pwsh_escape False t)) name (carried F v) 1"
      by blast
    then show ?thesis
      using False arm(1) scalar_levels [OF assms(3) False] by (auto simp: write_simple_render simp del: render.simps)
  qed
qed

section \<open>Values\<close>

declare write_value.simps [simp del]

lemma written_name:
  assumes "written U F v" "element_levels v \<le> d" "name_ok name"
  shows "\<exists>x n'. write_value U F v name n = (render x, n') \<and> denotes U F x name (carried F v) d
    \<and> (v \<noteq> PsNull \<longrightarrow> (\<forall>as. x \<noteq> Leaf (lit ''Nil'') as))"
  using assms denotes_mono unfolding written_def by meson

abbreviation render_all :: "xml list \<Rightarrow> ustr" where
  "render_all xs \<equiv> concat (map render xs)"

lemma items_written:
  assumes "\<forall>v\<in>set vs. written U F v \<and> element_levels v \<le> d"
  shows "\<exists>xs n'. write_items U F vs n = (render_all xs, n')
    \<and> list_all2 (\<lambda>x w. denotes U F x None w d) xs (map (carried F) vs)"
  using assms
proof (induction vs arbitrary: n)
  case (Cons v vs)
  obtain x n1 where x: "write_value U F v None n = (render x, n1)" "denotes U F x None (carried F v) d"
    using written_name [of U F v d None n] Cons.prems by (auto simp: name_ok_def)
  obtain xs n2 where "write_items U F vs n1 = (render_all xs, n2)"
    "list_all2 (\<lambda>x w. denotes U F x None w d) xs (map (carried F) vs)"
    using Cons.IH [of n1] Cons.prems by auto
  with x show ?case by (auto intro!: exI [of _ "x # xs"])
qed (auto intro: exI [of _ "[]"])

lemma entries_written:
  assumes "\<forall>kv\<in>set es. written U F (fst kv) \<and> written U F (snd kv)
    \<and> element_levels (fst kv) \<le> d \<and> element_levels (snd kv) \<le> d"
  shows "\<exists>xs n'. write_entries U F es n = (render_all xs, n')
    \<and> list_all2 (entry_denotes U F d) xs (map (\<lambda>kv. (carried F (fst kv), carried F (snd kv))) es)"
  using assms
proof (induction es arbitrary: n)
  case (Cons kv es)
  obtain k v where kv: "kv = (k, v)" by (cases kv)
  have ok: "name_ok (Some (lit ''Key''))" "name_ok (Some (lit ''Value''))" by (simp_all add: name_ok_def)
  obtain xk n1 where k: "write_value U F k (Some (lit ''Key'')) n = (render xk, n1)"
    "denotes U F xk (Some (lit ''Key'')) (carried F k) d"
    using written_name [OF _ _ ok(1), of U F k d n] Cons.prems kv by auto
  obtain xv n2 where v: "write_value U F v (Some (lit ''Value'')) n1 = (render xv, n2)"
    "denotes U F xv (Some (lit ''Value'')) (carried F v) d"
    using written_name [OF _ _ ok(2), of U F v d n1] Cons.prems kv by auto
  obtain xs n3 where xs: "write_entries U F es n2 = (render_all xs, n3)"
    "list_all2 (entry_denotes U F d) xs (map (\<lambda>kv. (carried F (fst kv), carried F (snd kv))) es)"
    using Cons.IH [of n2] Cons.prems by auto
  let ?x = "Node (lit ''En'') [] [xk, xv]"
  have "render ?x = lit ''<En>'' @ render xk @ render xv @ lit ''</En>''"
    by (simp add: render_attrs_def lit_def)
  then have "write_entries U F (kv # es) n = (render_all (?x # xs), n3)"
    using k(1) v(1) xs(1) by (simp add: kv)
  moreover have "entry_denotes U F d ?x (carried F k, carried F v)" using k(2) v(2) by (simp add: entry_denotes_def)
  ultimately show ?case using xs(2) kv by (metis (no_types, lifting) fst_conv snd_conv list.map(2) list_all2_Cons)
qed (auto intro: exI [of _ "[]"])

definition carried_members :: "float_api \<Rightarrow> (ustr \<times> ps_value) list \<Rightarrow> (ustr \<times> ps_value) list" where
  "carried_members F props = concat (map (\<lambda>p. if fst p = VALUE_KEY then [] else [(fst p, carried F (snd p))]) props)"

definition carried_value :: "float_api \<Rightarrow> (ustr \<times> ps_value) list \<Rightarrow> (ustr \<times> ps_value) list" where
  "carried_value F props = concat (map (\<lambda>p. if fst p = VALUE_KEY then exposed (snd p) (carried F (snd p)) else []) props)"

lemma members_written:
  assumes "\<forall>p\<in>set props. valid_str (fst p) \<and> (fst p \<noteq> VALUE_KEY \<longrightarrow> written U F (snd p) \<and> element_levels (snd p) \<le> d)"
  shows "\<exists>xs n'. write_members U F props n = (render_all xs, n') \<and> list_all2 (member_denotes U F d) xs (carried_members F props)"
  using assms
proof (induction props arbitrary: n)
  case (Cons p props)
  obtain k v where p: "p = (k, v)" by (cases p)
  show ?case
  proof (cases "k = VALUE_KEY")
    case True
    then show ?thesis using Cons p by (simp add: carried_members_def)
  next
    case False
    then obtain x n1 where x: "write_value U F v (Some k) n = (render x, n1)" "denotes U F x (Some k) (carried F v) d"
      using written_name [of U F v d "Some k" n] Cons.prems p by (auto simp: name_ok_def)
    obtain xs n2 where "write_members U F props n1 = (render_all xs, n2)"
      "list_all2 (member_denotes U F d) xs (carried_members F props)"
      using Cons.IH [of n1] Cons.prems by auto
    moreover have "member_denotes U F d x (k, carried F v)" using x(2) by (simp add: member_denotes_def)
    ultimately show ?thesis
      using x(1) False p by (auto intro!: exI [of _ "x # xs"] simp: carried_members_def)
  qed
qed (auto intro: exI [of _ "[]"] simp: carried_members_def)

lemma list_all2_left: "list_all2 P xs ys \<Longrightarrow> (\<And>x y. P x y \<Longrightarrow> Q x) \<Longrightarrow> \<forall>x\<in>set xs. Q x"
  by (induction rule: list_all2_induct) auto

lemma entry_ok: "entry_denotes U F d x kv \<Longrightarrow> well_formed x \<and> unreferenced x"
  by (auto simp: entry_denotes_def denotes_ok)

text \<open>The property \<open>_value\<close>.\<close>

lemma value_embeds:
  assumes "written U F v" "\<not> container v \<longrightarrow> element_levels v \<le> d"
    and items: "\<And>vs. v = PsList vs \<Longrightarrow> \<forall>u\<in>set vs. written U F u \<and> element_levels u \<le> d"
    and entries: "\<And>es. v = PsDict es \<Longrightarrow> \<forall>kv\<in>set es. written U F (fst kv) \<and> written U F (snd kv)
      \<and> element_levels (fst kv) \<le> d \<and> element_levels (snd kv) \<le> d"
  shows "\<exists>xs n' e. write_value_prop U F [(VALUE_KEY, v)] n = (render_all xs, n') \<and> embeds U F d xs e
    \<and> shown [] e = exposed v (carried F v)"
proof -
  have tags: "render (Node (lit ''LST'') [] xs) = lit ''<LST>'' @ render_all xs @ lit ''</LST>''"
    "render (Node (lit ''DCT'') [] xs) = lit ''<DCT>'' @ render_all xs @ lit ''</DCT>''" for xs
    by (simp_all add: render_attrs_def lit_def)
  consider (Nil) "v = PsNull" | (List) vs where "v = PsList vs" | (Dict) es where "v = PsDict es"
    | (Other) "v \<noteq> PsNull" "\<not> container v" by (cases v) auto
  then show ?thesis
  proof cases
    case Nil
    let ?x = "Leaf (lit ''Nil'') []"
    have "write_value U F PsNull None n = (render ?x, n)"
      using write_simple_render(1) [of "lit ''Nil''" "[]" None] by (simp add: write_value.simps name_attrs_def)
    moreover have "embeds U F d [?x] None" by (simp add: embeds_def)
    ultimately show ?thesis using Nil
      by (auto intro!: exI [of _ "[?x]"] exI [of _ "None :: ps_value option"] simp: shown_def simp del: render.simps)
  next
    case List
    obtain ys n' where ys: "write_items U F vs n = (render_all ys, n')"
      "list_all2 (\<lambda>x w. denotes U F x None w d) ys (map (carried F) vs)"
      using items_written [OF items [OF List], of n] by blast
    let ?x = "Node (lit ''LST'') [] ys" and ?w = "PsList (map (carried F) vs)"
    have "well_formed ?x \<and> unreferenced ?x"
      using list_all2_left [OF ys(2), of "\<lambda>x. well_formed x \<and> unreferenced x"] denotes_ok by auto
    then have "embeds U F d [?x] (Some ?w)" using ys(2) by (simp add: embeds_def)
    then show ?thesis using List ys(1)
      by (auto intro!: exI [of _ "[?x]"] exI [of _ "Some ?w"] simp: tags shown_def wrapped_def simp del: render.simps)
  next
    case Dict
    obtain ys n' where ys: "write_entries U F es n = (render_all ys, n')"
      "list_all2 (entry_denotes U F d) ys (map (\<lambda>kv. (carried F (fst kv), carried F (snd kv))) es)"
      using entries_written [OF entries [OF Dict], of n] by blast
    let ?x = "Node (lit ''DCT'') [] ys" and ?w = "PsDict (map (\<lambda>kv. (carried F (fst kv), carried F (snd kv))) es)"
    have "well_formed ?x \<and> unreferenced ?x"
      using list_all2_left [OF ys(2), of "\<lambda>x. well_formed x \<and> unreferenced x"] entry_ok by auto
    then have "embeds U F d [?x] (Some ?w)" using ys(2) by (simp add: embeds_def)
    then show ?thesis using Dict ys(1)
      by (auto intro!: exI [of _ "[?x]"] exI [of _ "Some ?w"] simp: tags shown_def wrapped_def simp del: render.simps)
  next
    case Other
    obtain x n' where x: "write_value U F v None n = (render x, n')" "denotes U F x None (carried F v) d"
      "\<forall>as. x \<noteq> Leaf (lit ''Nil'') as"
      using written_name [OF assms(1), of d None n] assms(2) Other by (auto simp: name_ok_def)
    have "embeds U F d [x] (Some (carried F v))" using x(2,3) by (auto simp: embeds_def denotes_def)
    moreover have "exposed v (carried F v) = [(VALUE_KEY, carried F v)]" using Other by (cases v) simp_all
    moreover have "write_value_prop U F [(VALUE_KEY, v)] n = write_value U F v None n"
      using Other by (cases "arm_of U F v") (auto simp: arm_of_iffs)
    ultimately show ?thesis using x(1)
      by (auto intro!: exI [of _ "[x]"] exI [of _ "Some (carried F v)"] simp: shown_def)
  qed
qed

definition embeddable :: "uuid_api \<Rightarrow> float_api \<Rightarrow> nat \<Rightarrow> ps_value \<Rightarrow> bool" where
  "embeddable U F d v \<longleftrightarrow> (\<forall>n. \<exists>xs n' e. write_value_prop U F [(VALUE_KEY, v)] n = (render_all xs, n')
     \<and> embeds U F d xs e \<and> shown [] e = exposed v (carried F v))"

lemma value_prop_none:
  "VALUE_KEY \<notin> fst ` set props \<Longrightarrow> write_value_prop U F props n = ([], n) \<and> carried_value F props = []"
  by (induction props) (auto simp: carried_value_def)

lemma value_prop_written:
  assumes "distinct (map fst props)" "\<forall>p\<in>set props. fst p = VALUE_KEY \<longrightarrow> embeddable U F d (snd p)"
  shows "\<exists>xs n' e. write_value_prop U F props n = (render_all xs, n') \<and> embeds U F d xs e
    \<and> shown [] e = carried_value F props"
proof (cases "VALUE_KEY \<in> fst ` set props")
  case False
  have "embeds U F d [] None" by (simp add: embeds_def)
  then show ?thesis using value_prop_none [OF False]
    by (auto intro!: exI [of _ "[]"] exI [of _ "None :: ps_value option"] simp: shown_def)
next
  case True
  with assms show ?thesis
  proof (induction props)
    case (Cons p props)
    show ?case
    proof (cases "fst p = VALUE_KEY")
      case True
      then have "VALUE_KEY \<notin> fst ` set props" using Cons.prems(1) by auto
      then have "write_value_prop U F (p # props) n = write_value_prop U F [(VALUE_KEY, snd p)] n"
        "carried_value F (p # props) = exposed (snd p) (carried F (snd p))"
        using value_prop_none [of props] True by (cases p; auto simp: carried_value_def)+
      then show ?thesis using Cons.prems(2) True by (simp add: embeddable_def)
    next
      case False
      then show ?thesis using Cons by (cases p) (auto simp: carried_value_def)
    qed
  qed simp
qed

section \<open>Objects are written as trees\<close>

lemma ref_attr_plain: "xml_escape (show_nat n) = show_nat n"
  by (rule xml_escape_run) (auto simp: markup_def dest: show_nat_digits)

lemma open_obj_render:
  "open_obj name n = (60 # lit ''Obj'' @ render_attrs (name_attrs name @ [(lit ''RefId'', show_word n)]) @ [62], snd (next_ref_id n))"
  by (simp add: open_obj_def next_ref_id_def render_attrs_def name_attrs_def ref_attr_plain escape_attr_def
      escape_inner_layers split: option.split) (simp add: lit_def)

lemma object_tree_render:
  "fst (open_obj name i) @ render_all xs @ lit ''</Obj>'' = render (object_tree name i xs)"
  by (simp add: open_obj_render object_tree_def) (simp add: lit_def)

lemma type_names_render: "\<exists>n'. write_type_names names n = (render_all (type_name_trees n names), n')"
proof (cases "names = []")
  case False
  have "concat (map (\<lambda>tn. lit ''<T>'' @ escape tn @ lit ''</T>'') names)
      = render_all (map (\<lambda>t. Text (lit ''T'') [] (pwsh_escape False t)) names)"
    by (induction names) (simp_all add: render_attrs_def escape_def escape_inner_layers, simp_all add: lit_def)
  with False show ?thesis
    by (simp add: write_type_names_def type_name_trees_def next_ref_id_def render_attrs_def ref_attr_plain)
      (simp add: lit_def)
qed (simp add: write_type_names_def type_name_trees_def)

lemma to_string_render: "write_to_string ts = render_all (to_string_trees ts)"
  by (simp add: write_to_string_def to_string_trees_def render_attrs_def escape_def escape_inner_layers split: option.split)
    (simp add: lit_def)

lemma other_props_carried: "other_props props = [] \<longleftrightarrow> carried_members F props = []"
  by (induction props) (auto simp: other_props_def carried_members_def)

lemma carried_members_distinct: "distinct (map fst props) \<Longrightarrow> distinct (map fst (carried_members F props))"
proof -
  have "fst ` set (carried_members F props) \<subseteq> fst ` set props" for props by (force simp: carried_members_def)
  then show "distinct (map fst props) \<Longrightarrow> distinct (map fst (carried_members F props))"
    by (induction props) (auto simp: carried_members_def)
qed

lemma carried_object:
  "carried F (PsObject (Ps_Object props names ts))
    = PsObject (Ps_Object (if carried_members F props = [] then carried_value F props else carried_members F props) names None)"
  by (simp add: carried_members_def carried_value_def Let_def)

declare carried.simps(3) [simp del]

lemma object_written:
  assumes "rust_value (PsObject (Ps_Object props names ts))"
    and "\<forall>p\<in>set props. fst p \<noteq> VALUE_KEY \<longrightarrow> written U F (snd p) \<and> element_levels (snd p) \<le> d"
    and "\<forall>p\<in>set props. fst p = VALUE_KEY \<longrightarrow> embeddable U F d (snd p)"
    and "Suc d = element_levels (PsObject (Ps_Object props names ts))" "ts \<noteq> None \<longrightarrow> 1 \<le> d"
  shows "written U F (PsObject (Ps_Object props names ts))"
  unfolding written_def
proof (intro allI impI)
  fix name n assume name: "name_ok name"
  let ?n1 = "snd (next_ref_id n)"
  obtain n2 where tns: "write_type_names names ?n1 = (render_all (type_name_trees ?n1 names), n2)"
    using type_names_render by blast
  have keys: "distinct (map fst props)" using assms(1) by simp
  obtain vs n3 e where vs: "write_value_prop U F props n2 = (render_all vs, n3)" "embeds U F d vs e"
    "shown [] e = carried_value F props"
    using value_prop_written [OF keys assms(3), of n2] by blast
  obtain xs n4 where xs: "write_members U F props n3 = (render_all xs, n4)"
    "list_all2 (member_denotes U F d) xs (carried_members F props)"
    using members_written [of props U F d n3] assms(1,2) by auto
  have none: "other_props props = [] \<longleftrightarrow> xs = []"
    using list_all2_lengthD [OF xs(2)] by (auto simp: other_props_carried [of props F])
  let ?x = "object_tree name n (type_name_trees ?n1 names @ to_string_trees ts @ vs @ member_trees xs)"
  have members: "(if other_props props = [] then [] else lit ''<MS>'' @ render_all xs @ lit ''</MS>'') = render_all (member_trees xs)"
    by (simp add: none member_trees_def render_attrs_def) (simp add: lit_def)
  have "write_value U F (PsObject (Ps_Object props names ts)) name n = (fst (open_obj name n)
      @ render_all (type_name_trees ?n1 names @ to_string_trees ts @ vs @ member_trees xs) @ lit ''</Obj>'', n4)"
    using members by (simp add: write_value.simps tns vs(1) xs(1) to_string_render open_obj_render)
  then have whole: "write_value U F (PsObject (Ps_Object props names ts)) name n = (render ?x, n4)"
    by (simp only: object_tree_render)
  have "denotes U F ?x name (PsObject (Ps_Object (shown (carried_members F props) e) names None)) (Suc d)"
    using assms(1) by (intro object_denotes vs(2) xs(2) carried_members_distinct keys assms(5) name) (simp_all add: name_ok_def)
  moreover have "shown (carried_members F props) e = (if carried_members F props = [] then carried_value F props else carried_members F props)"
    using vs(3) by (simp add: shown_def)
  ultimately have "denotes U F ?x name (carried F (PsObject (Ps_Object props names ts)))
      (element_levels (PsObject (Ps_Object props names ts)))"
    by (simp add: carried_object assms(4))
  with whole show "\<exists>x n'. write_value U F (PsObject (Ps_Object props names ts)) name n = (render x, n')
      \<and> denotes U F x name (carried F (PsObject (Ps_Object props names ts))) (element_levels (PsObject (Ps_Object props names ts)))
      \<and> (PsObject (Ps_Object props names ts) \<noteq> PsNull \<longrightarrow> (\<forall>as. x \<noteq> Leaf (lit ''Nil'') as))"
    by (auto simp: object_tree_def simp del: render.simps)
qed

text \<open>A list or a dictionary is written as an object with nothing else.\<close>

lemma container_written:
  assumes "\<And>name n. \<exists>x n'. write_value U F v name n = (fst (open_obj name n) @ render x @ lit ''</Obj>'', n')
      \<and> embeds U F d [x] (Some w)"
    and "carried F v = wrapped w" "element_levels v = Suc d" "v \<noteq> PsNull"
  shows "written U F v"
  unfolding written_def
proof (intro allI impI)
  fix name n assume name: "name_ok name"
  obtain x n' where x: "write_value U F v name n = (fst (open_obj name n) @ render x @ lit ''</Obj>'', n')"
    "embeds U F d [x] (Some w)"
    using assms(1) by blast
  have "denotes U F (object_tree name n (type_name_trees 0 [] @ to_string_trees None @ [x] @ member_trees [])) name
      (PsObject (Ps_Object (shown [] (Some w)) [] None)) (Suc d)"
    using name by (intro object_denotes x(2)) (simp_all add: name_ok_def)
  then have "denotes U F (object_tree name n [x]) name (carried F v) (element_levels v)"
    by (simp add: type_name_trees_def to_string_trees_def member_trees_def shown_def assms(2,3) wrapped_def)
  moreover have "write_value U F v name n = (render (object_tree name n [x]), n')"
    using x(1) object_tree_render [of name n "[x]"] by simp
  ultimately show "\<exists>x n'. write_value U F v name n = (render x, n') \<and> denotes U F x name (carried F v) (element_levels v)
      \<and> (v \<noteq> PsNull \<longrightarrow> (\<forall>as. x \<noteq> Leaf (lit ''Nil'') as))"
    by (auto simp: object_tree_def simp del: render.simps)
qed

lemma list_written:
  assumes "\<forall>v\<in>set vs. written U F v \<and> element_levels v \<le> d" "element_levels (PsList vs) = Suc d"
  shows "written U F (PsList vs)"
proof (rule container_written [where d = d and w = "PsList (map (carried F) vs)"])
  fix name n
  obtain ys n' where ys: "write_items U F vs (snd (next_ref_id n)) = (render_all ys, n')"
    "list_all2 (\<lambda>x w. denotes U F x None w d) ys (map (carried F) vs)"
    using items_written [OF assms(1)] by blast
  let ?x = "Node (lit ''LST'') [] ys"
  have "embeds U F d [?x] (Some (PsList (map (carried F) vs)))"
    using ys(2) list_all2_left [OF ys(2), of "\<lambda>x. well_formed x \<and> unreferenced x"] denotes_ok by (auto simp: embeds_def)
  moreover have "write_value U F (PsList vs) name n = (fst (open_obj name n) @ render ?x @ lit ''</Obj>'', n')"
    by (simp add: write_value.simps ys(1) open_obj_render render_attrs_def) (simp add: lit_def)
  ultimately show "\<exists>x n'. write_value U F (PsList vs) name n = (fst (open_obj name n) @ render x @ lit ''</Obj>'', n')
      \<and> embeds U F d [x] (Some (PsList (map (carried F) vs)))" by blast
qed (use assms(2) in simp_all)

lemma dict_written:
  assumes "\<forall>kv\<in>set es. written U F (fst kv) \<and> written U F (snd kv) \<and> element_levels (fst kv) \<le> d
      \<and> element_levels (snd kv) \<le> d" "element_levels (PsDict es) = Suc d"
  shows "written U F (PsDict es)"
proof (rule container_written [where d = d and w = "PsDict (map (\<lambda>kv. (carried F (fst kv), carried F (snd kv))) es)"])
  fix name n
  let ?w = "PsDict (map (\<lambda>kv. (carried F (fst kv), carried F (snd kv))) es)"
  obtain ys n' where ys: "write_entries U F es (snd (next_ref_id n)) = (render_all ys, n')"
    "list_all2 (entry_denotes U F d) ys (map (\<lambda>kv. (carried F (fst kv), carried F (snd kv))) es)"
    using entries_written [OF assms(1)] by blast
  let ?x = "Node (lit ''DCT'') [] ys"
  have "embeds U F d [?x] (Some ?w)"
    using ys(2) list_all2_left [OF ys(2), of "\<lambda>x. well_formed x \<and> unreferenced x"] entry_ok by (auto simp: embeds_def)
  moreover have "write_value U F (PsDict es) name n = (fst (open_obj name n) @ render ?x @ lit ''</Obj>'', n')"
    by (simp add: write_value.simps ys(1) open_obj_render render_attrs_def) (simp add: lit_def)
  ultimately show "\<exists>x n'. write_value U F (PsDict es) name n = (fst (open_obj name n) @ render x @ lit ''</Obj>'', n')
      \<and> embeds U F d [x] (Some ?w)" by blast
qed (use assms(2) in simp_all)

text \<open>Every value of the Rust type is written, and can stand as the \<open>_value\<close> of an object.\<close>

definition value_written :: "uuid_api \<Rightarrow> float_api \<Rightarrow> ps_value \<Rightarrow> bool" where
  "value_written U F v \<longleftrightarrow> written U F v
     \<and> (\<forall>d. (if container v then element_levels v - 1 else element_levels v) \<le> d \<longrightarrow> embeddable U F d v)"

lemma plain_value_written:
  assumes "written U F v" "\<not> container v"
  shows "value_written U F v"
proof -
  have "embeddable U F d v" if "element_levels v \<le> d" for d
    unfolding embeddable_def using assms(2) that by (intro allI value_embeds [OF assms(1)]) auto
  with assms show ?thesis by (simp add: value_written_def)
qed

lemma rust_value_written:
  assumes "uuid_laws U" "float_laws F"
  shows "rust_value v \<Longrightarrow> value_written U F v"
proof (induction v rule: rust_value.induct)
  case (1 vs)
  let ?d = "deepest (map element_levels vs)"
  have items: "written U F v" if "v \<in> set vs" for v using 1 that by (auto simp: value_written_def)
  have levels: "element_levels v \<le> ?d" if "v \<in> set vs" for v
    using deepest_le [of "map element_levels vs" ?d] that by simp
  have whole: "written U F (PsList vs)" by (rule list_written [of _ _ _ ?d]) (use items levels in auto)
  have "embeddable U F d (PsList vs)" if "?d \<le> d" for d
    unfolding embeddable_def
    by (intro allI value_embeds [OF whole]) (use items levels that in \<open>auto intro: order_trans\<close>)
  with whole show ?case by (simp add: value_written_def)
next
  case (2 es)
  let ?d = "deepest (map (\<lambda>kv. max (element_levels (fst kv)) (element_levels (snd kv))) es)"
  have items: "written U F (fst kv) \<and> written U F (snd kv)" if "kv \<in> set es" for kv
    using 2 that by (auto simp: value_written_def)
  have levels: "element_levels (fst kv) \<le> ?d \<and> element_levels (snd kv) \<le> ?d" if "kv \<in> set es" for kv
    using deepest_le [of "map (\<lambda>kv. max (element_levels (fst kv)) (element_levels (snd kv))) es" ?d] that by simp
  have whole: "written U F (PsDict es)" by (rule dict_written [of _ _ _ ?d]) (use items levels in auto)
  have "embeddable U F d (PsDict es)" if "?d \<le> d" for d
    unfolding embeddable_def
    by (intro allI value_embeds [OF whole]) (use items levels that in \<open>auto intro: order_trans\<close>)
  with whole show ?case by (simp add: value_written_def)
next
  case (3 props names ts)
  let ?own = "\<lambda>p. if fst p = VALUE_KEY \<and> container (snd p) then element_levels (snd p) - 1 else element_levels (snd p)"
  let ?d = "max (if ts = None then 0 else 1) (deepest (map ?own props))"
  have props: "value_written U F (snd p)" if "p \<in> set props" for p using 3 that by auto
  have levels: "?own p \<le> ?d" if "p \<in> set props" for p
    using deepest_le [of "map ?own props" "deepest (map ?own props)"] that by (simp add: le_max_iff_disj)
  have "written U F (PsObject (Ps_Object props names ts))"
  proof (rule object_written [of _ _ _ _ _ ?d])
    show "\<forall>p\<in>set props. fst p \<noteq> VALUE_KEY \<longrightarrow> written U F (snd p) \<and> element_levels (snd p) \<le> ?d"
      using props levels by (fastforce simp: value_written_def)
    show "\<forall>p\<in>set props. fst p = VALUE_KEY \<longrightarrow> embeddable U F ?d (snd p)"
      using props levels by (fastforce simp: value_written_def)
  qed (use 3(2) in \<open>simp_all\<close>)
  then show ?case by (intro plain_value_written) simp_all
qed (simp_all add: plain_value_written scalar_written assms del: scalar_value.simps)

section \<open>Documents\<close>

lemma render_start: "\<exists>t. render x = 60 # t"
  by (cases x) simp_all

lemma read_whole: "trim_start (dropWhile (\<lambda>c. c = BOM_CHAR) (render x)) = render x"
  using render_start [of x] by (auto simp: trim_start_def is_whitespace_def BOM_CHAR_def)

lemma text_unreferenced: "referenced_ids (text_events t @ evs) = referenced_ids evs"
  by (induction t rule: text_events.induct)
    (simp_all add: text_events.simps(2) ref_target_def del: takeWhile.simps dropWhile.simps)

lemma tree_unreferenced: "unreferenced x \<Longrightarrow> referenced_ids (xml_events x @ evs) = referenced_ids evs"
proof (induction x arbitrary: evs)
  case (Node tag as xs)
  have "referenced_ids (all_events ys @ evs) = referenced_ids evs" if "set ys \<subseteq> set xs" for ys evs
    using that Node by (induction ys) auto
  from this [of xs "XEnd tag # evs"] Node.prems show ?case by (simp add: ref_target_def)
qed (use text_unreferenced in \<open>simp_all add: ref_target_def\<close>)

lemma parse_tree:
  assumes "denotes U F x name w d" "d \<le> l" "at_level l st"
  shows "parse_siblings (parse_element U F l) (Suc (length (xml_events x))) [] (xml_events x) st = Done [w]"
  using assms(1)
proof (cases rule: denotes_cases)
  case (Element tag as evs)
  from Element(4) [OF assms(2,3), of "[]"] obtain st' where
    "parse_element U F l tag as evs st = Done (Some w, [], st')"
    by (auto simp: gives_def)
  then show ?thesis using Element(1) by simp
qed (simp add: parse_empty_nil)

lemma document_carries:
  assumes "uuid_laws U" "float_laws F" "document_reader_laws reader"
    and "rust_value v" "element_levels v \<le> MAX_NESTING_DEPTH"
  shows "parse_clixml U F reader (to_clixml U F v) = Inr [carried F v]"
proof -
  have "written U F v" using rust_value_written [OF assms(1,2,4)] by (simp add: value_written_def)
  then obtain x n where x: "write_value U F v None 0 = (render x, n)" "denotes U F x None (carried F v) (element_levels v)"
    using written_name [OF _ order_refl, of U F v None 0] by (auto simp: name_ok_def)
  have evs: "reader (render x) = xml_events x"
    using document_reader_laws.reads_document [OF assms(3)] denotes_ok [OF x(2)] by blast
  have "referenced_ids (xml_events x) = []"
    using tree_unreferenced [of x "[]"] denotes_ok [OF x(2)] by (simp add: ref_target_def)
  then have "at_level MAX_NESTING_DEPTH (initial_state (utf8_len (render x)) (xml_events x))"
    by (simp add: at_level_def initial_state_def)
  from parse_tree [OF x(2) assms(5) this] show ?thesis
    by (simp add: parse_clixml_def parse_clixml_dec_def to_clixml_def x(1) read_whole evs Let_def)
qed

end
