(* ===== verification/Codec_Settles.thy ===== *)
theory Codec_Settles
  imports Clixml_Roundtrip
begin

text \<open>
  A value that went through a document once is not changed by the next one, as the fuzz target
  \<open>src/fuzz/fuzz_targets/clixml_encode_decode.rs\<close> demands of the codec: what a document carries is
  again a value of the Rust type, no deeper, and carries itself.
\<close>

section \<open>What is carried, once more\<close>

lemma carried_shape:
  "\<not> container (carried F v)" "carried F v = PsNull \<longleftrightarrow> v = PsNull"
  by (cases v rule: rust_value.cases; simp add: wrapped_def carried_object)+

text \<open>The property \<open>_value\<close> is carried as one property of that name, or not at all.\<close>

lemma exposed_cases:
  obtains (None) "exposed v (carried F v) = []"
  | (Container) w where "exposed v (carried F v) = [(VALUE_KEY, w)]" "container v" "container w" "carried F v = wrapped w"
  | (Plain) "exposed v (carried F v) = [(VALUE_KEY, carried F v)]" "\<not> container v" "v \<noteq> PsNull"
proof (cases "v = PsNull")
  case False
  then show ?thesis
  proof (cases "container v")
    case True
    then show ?thesis using Container by (cases v) (simp_all add: wrapped_def)
  next
    case plain: False
    then have "exposed v (carried F v) = [(VALUE_KEY, carried F v)]" using False by (cases v) simp_all
    then show ?thesis using Plain plain False by blast
  qed
qed (use None in simp)

lemma carried_value_cases:
  assumes "distinct (map fst props)"
  obtains (None) "carried_value F props = []"
  | (Some) v where "(VALUE_KEY, v) \<in> set props" "carried_value F props = exposed v (carried F v)"
  using assms
proof (induction props arbitrary: thesis)
  case (Cons p props)
  show ?case
  proof (cases "fst p = VALUE_KEY")
    case True
    then have "carried_value F props = []" using Cons.prems(3) value_prop_none [of props] by fastforce
    then have "carried_value F (p # props) = exposed (snd p) (carried F (snd p))" using True by (simp add: carried_value_def)
    then show ?thesis using Cons.prems(2) [of "snd p"] True by (cases p) simp
  next
    case False
    then have "carried_value F (p # props) = carried_value F props" by (simp add: carried_value_def)
    then show ?thesis using Cons by auto
  qed
qed (simp add: carried_value_def)

lemma carried_members_again:
  "\<forall>p\<in>set props. carried F (carried F (snd p)) = carried F (snd p) \<Longrightarrow>
     carried_members F (carried_members F props) = carried_members F props"
  by (induction props) (auto simp: carried_members_def)

lemma carried_wrapped:
  "carried F (wrapped w) = PsObject (Ps_Object (exposed w (carried F w)) [] None)"
  by (simp add: wrapped_def carried_object carried_members_def carried_value_def)

lemma exposed_again:
  assumes "carried F (carried F v) = carried F v"
  shows "carried_value F (exposed v (carried F v)) = exposed v (carried F v)"
    and "carried_members F (exposed v (carried F v)) = []"
proof -
  show "carried_value F (exposed v (carried F v)) = exposed v (carried F v)"
  proof (cases rule: exposed_cases [of v F])
    case (Container w)
    then show ?thesis using assms by (simp add: carried_value_def carried_wrapped) (simp add: wrapped_def)
  next
    case Plain
    have "exposed (carried F v) u = [(VALUE_KEY, u)]" for u
      using carried_shape [of F v] Plain(3) by (cases "carried F v") simp_all
    then show ?thesis using Plain assms by (simp add: carried_value_def)
  qed (simp add: carried_value_def)
  show "carried_members F (exposed v (carried F v)) = []"
    by (cases rule: exposed_cases [of v F]) (simp_all add: carried_members_def)
qed

lemma carried_append:
  "carried_value F (xs @ ys) = carried_value F xs @ carried_value F ys"
  "carried_members F (xs @ ys) = carried_members F xs @ carried_members F ys"
  by (simp_all add: carried_value_def carried_members_def)

lemma carried_value_again:
  "\<forall>p\<in>set props. carried F (carried F (snd p)) = carried F (snd p) \<Longrightarrow>
     carried_value F (carried_value F props) = carried_value F props \<and> carried_members F (carried_value F props) = []"
proof (induction props)
  case (Cons p props)
  have "carried_value F (p # props) =
      (if fst p = VALUE_KEY then exposed (snd p) (carried F (snd p)) else []) @ carried_value F props"
    by (simp add: carried_value_def)
  moreover have "carried_value F [] = []" "carried_members F [] = []" by (simp_all add: carried_value_def carried_members_def)
  ultimately show ?case using Cons exposed_again [of F "snd p"] by (simp add: carried_append)
qed (simp add: carried_value_def carried_members_def)

lemma trim_again: "trim (trim s) = trim s"
proof -
  let ?ws = is_whitespace
  have drop: "xs = [] \<or> \<not> ?ws (hd xs) \<Longrightarrow> dropWhile ?ws xs = xs" for xs by (cases xs) auto
  define u where "u = dropWhile ?ws s"
  define v where "v = rev (dropWhile ?ws (rev u))"
  have u: "u = [] \<or> \<not> ?ws (hd u)" unfolding u_def using hd_dropWhile by blast
  have "u = v @ rev (takeWhile ?ws (rev u))" unfolding v_def by (metis rev_append rev_rev_ident takeWhile_dropWhile_id)
  then have "v = [] \<or> \<not> ?ws (hd v)" using u by (metis append_is_Nil_conv hd_append2)
  moreover have "rev v = [] \<or> \<not> ?ws (hd (rev v))" unfolding v_def using hd_dropWhile by (metis rev_rev_ident)
  moreover have "trim s = v" by (simp add: trim_def u_def v_def)
  ultimately show ?thesis by (simp add: trim_def drop)
qed

lemma carried_again: "carried F (carried F v) = carried F v"
proof (induction v rule: rust_value.induct)
  case (1 vs)
  then show ?case by (simp add: carried_wrapped) (simp add: wrapped_def)
next
  case (2 es)
  then show ?case by (simp add: carried_wrapped) (simp add: wrapped_def)
next
  case (3 props names ts)
  then have "\<forall>p\<in>set props. carried F (carried F (snd p)) = carried F (snd p)" by auto
  from carried_members_again [OF this] carried_value_again [OF this] show ?case by (simp add: carried_object)
qed (auto simp: trim_again REPLACEMENT_def NAN_def is_nan_def f64_exponent_def f64_mantissa_def)

section \<open>It is a value of the Rust type, no deeper\<close>

lemma carried_scalar_value: "scalar_value v \<Longrightarrow> scalar_value (carried F v)"
proof (cases v)
  case (PsDecimal s)
  moreover assume "scalar_value v"
  ultimately show ?thesis using valid_trim [of s] by simp
qed (auto simp: REPLACEMENT_def scalar_def)

lemma deepest_ge: "x \<in> set xs \<Longrightarrow> f x \<le> deepest (map f xs)"
  using deepest_le [of "map f xs" "deepest (map f xs)"] by auto

lemma valid_value_key: "valid_str VALUE_KEY"
  by (simp add: VALUE_KEY_def)

lemma deepest_mono: "\<forall>x\<in>set xs. f x \<le> g x \<Longrightarrow> deepest (map f xs) \<le> deepest (map g xs)"
  by (auto intro: order_trans [OF _ deepest_ge])

definition own_levels :: "ustr \<times> ps_value \<Rightarrow> nat" where
  "own_levels p = (if fst p = VALUE_KEY \<and> container (snd p) then element_levels (snd p) - 1 else element_levels (snd p))"

lemma object_levels:
  "element_levels (PsObject (Ps_Object props names ts)) = Suc (max (if ts = None then 0 else 1) (deepest (map own_levels props)))"
  by (simp add: own_levels_def [abs_def])

lemma wrapped_levels: "container w \<Longrightarrow> element_levels (wrapped w) = Suc (element_levels w - 1)"
  by (simp add: wrapped_def deepest_def)

text \<open>One carried property.\<close>

lemma carried_property:
  assumes "distinct (map fst props)" "q \<in> set (carried_members F props) \<or> q \<in> set (carried_value F props)"
    and each: "\<forall>p\<in>set props. valid_str (fst p) \<and> rust_value (carried F (snd p))
      \<and> element_levels (carried F (snd p)) \<le> element_levels (snd p)"
  shows "valid_str (fst q) \<and> rust_value (snd q) \<and> own_levels q \<le> deepest (map own_levels props)"
proof -
  have "valid_str (fst q) \<and> rust_value (snd q) \<and> (\<exists>p\<in>set props. own_levels q \<le> own_levels p)"
    using assms(2)
  proof
    assume "q \<in> set (carried_members F props)"
    then obtain p where "p \<in> set props" "fst p \<noteq> VALUE_KEY" "q = (fst p, carried F (snd p))"
      by (auto simp: carried_members_def split: if_splits)
    with each show ?thesis by (auto simp: own_levels_def)
  next
    assume q: "q \<in> set (carried_value F props)"
    show ?thesis
    proof (cases rule: carried_value_cases [OF assms(1), of F])
      case 1
      with q show ?thesis by simp
    next
      case (2 v)
      then have v: "rust_value (carried F v)" "element_levels (carried F v) \<le> element_levels v" using each by force+
      show ?thesis
      proof (cases rule: exposed_cases [of v F])
        case (Container w)
        then have "q = (VALUE_KEY, w)" "own_levels q \<le> own_levels (VALUE_KEY, v)" "rust_value w"
          using q 2(2) v wrapped_levels [of w] by (auto simp: own_levels_def wrapped_def)
        with 2(1) valid_value_key show ?thesis by auto
      next
        case Plain
        then have "q = (VALUE_KEY, carried F v)" "own_levels q \<le> own_levels (VALUE_KEY, v)"
          using q 2(2) v carried_shape(1) [of F v] by (auto simp: own_levels_def)
        with 2(1) valid_value_key v show ?thesis by auto
      qed (use q 2(2) in simp)
    qed
  qed
  then show ?thesis by (auto intro: order_trans [OF _ deepest_ge])
qed

lemma carried_value_distinct: "distinct (map fst props) \<Longrightarrow> distinct (map fst (carried_value F props))"
proof -
  assume keys: "distinct (map fst props)"
  show "distinct (map fst (carried_value F props))"
  proof (cases rule: carried_value_cases [OF keys, of F])
    case (2 v)
    then show ?thesis by (cases rule: exposed_cases [of v F]) simp_all
  qed simp
qed

lemma carried_ok:
  "rust_value v \<Longrightarrow> rust_value (carried F v) \<and> element_levels (carried F v) \<le> element_levels v"
proof (induction v rule: rust_value.induct)
  case (1 vs)
  then have "deepest (map (element_levels \<circ> carried F) vs) \<le> deepest (map element_levels vs)"
    by (intro deepest_mono) auto
  with 1 show ?case by (auto simp: wrapped_levels simp flip: comp_def) (auto simp: wrapped_def valid_value_key)
next
  case (2 es)
  let ?f = "\<lambda>kv. max (element_levels (fst kv)) (element_levels (snd kv))"
  have "deepest (map (\<lambda>kv. ?f (carried F (fst kv), carried F (snd kv))) es) \<le> deepest (map ?f es)"
    using 2 by (intro deepest_mono) (auto intro: le_max_iff_disj [THEN iffD2])
  with 2 show ?case by (auto simp: wrapped_levels comp_def) (auto simp: wrapped_def valid_value_key)
next
  case (3 props names ts)
  let ?qs = "if carried_members F props = [] then carried_value F props else carried_members F props"
  have keys: "distinct (map fst props)" using 3(2) by simp
  have "\<forall>p\<in>set props. valid_str (fst p) \<and> rust_value (carried F (snd p))
      \<and> element_levels (carried F (snd p)) \<le> element_levels (snd p)"
    using 3 by auto
  from carried_property [OF keys _ this] have
    "valid_str (fst q) \<and> rust_value (snd q) \<and> own_levels q \<le> deepest (map own_levels props)" if "q \<in> set ?qs" for q
    using that by (metis (full_types))
  moreover have "distinct (map fst ?qs)"
    using carried_members_distinct [OF keys] carried_value_distinct [OF keys] by simp
  ultimately show ?case
    using 3(2) by (auto simp: carried_object object_levels le_max_iff_disj simp del: element_levels.simps)
qed (auto simp: valid_trim REPLACEMENT_def scalar_def)

section \<open>The codec\<close>

lemma carried_document_carries:
  assumes "uuid_laws U" "float_laws F" "document_reader_laws reader"
    and "rust_value v" "element_levels v \<le> MAX_NESTING_DEPTH"
  shows "parse_clixml U F reader (to_clixml U F (carried F v)) = Inr [carried F v]"
proof -
  have "rust_value (carried F v)" "element_levels (carried F v) \<le> MAX_NESTING_DEPTH"
    using carried_ok [OF assms(4), of F] assms(5) by simp_all
  then show ?thesis using document_carries [OF assms(1-3), of "carried F v"] by (simp add: carried_again)
qed

text \<open>
  C4: the CLIXML round trip.  What the decoder reads from the document that the encoder writes of a
  value is exactly the one value \<open>carried F v\<close>: the value itself, but for what the format cannot say
  (a list or a dictionary comes back as the \<open>_value\<close> of an object, an object loses its \<open>ToString\<close>
  text, a \<open>[char]\<close> is one UTF-16 unit, there is one NaN).  It holds for every value whose elements
  are nested within the decoder's depth limit, whatever its strings and keys hold: control
  characters, text that looks like an escape and characters beyond the BMP included.
\<close>

theorem clixml_roundtrip:
  assumes "uuid_laws U" "float_laws F" "document_reader_laws reader"
    and "rust_value v" "element_levels v \<le> MAX_NESTING_DEPTH"
  shows "parse_clixml U F reader (to_clixml U F v) = Inr [carried F v]"
  by (rule document_carries [OF assms])

theorem clixml_roundtrip_witness:
  "parse_clixml rfc_uuid bits_float document_reader (to_clixml rfc_uuid bits_float
      (PsDict [(PsString (lit ''_x0041_''), PsList [PsI32 (- 1), PsDecimal (lit '' 1.5'')])]))
    = Inr [wrapped (PsDict [(PsString (lit ''_x0041_''), wrapped (PsList [PsI32 (- 1), PsDecimal (lit ''1.5'')]))])]"
proof -
  have "trim (lit '' 1.5'') = lit ''1.5''" by (simp add: trim_def lit_def is_whitespace_def)
  then show ?thesis
    using clixml_roundtrip [OF rfc.uuid_laws_axioms bits_float.float_laws_axioms document_reader.document_reader_laws_axioms,
        of "PsDict [(PsString (lit ''_x0041_''), PsList [PsI32 (- 1), PsDecimal (lit '' 1.5'')])]"]
    by (simp add: MAX_NESTING_DEPTH_def deepest_def)
qed

text \<open>
  C5: the codec settles after one hop.  Whatever value was encoded, if the decoder read one value
  from the document, then encoding that value and decoding it again gives it back unchanged, so a
  value on a long-lived pipeline is not altered by further hops (the assertion of the fuzz target
  \<open>clixml_encode_decode\<close>, with plain equality).
\<close>

theorem codec_settles:
  assumes "uuid_laws U" "float_laws F" "document_reader_laws reader"
    and "rust_value v" "element_levels v \<le> MAX_NESTING_DEPTH"
    and "parse_clixml U F reader (to_clixml U F v) = Inr (first # others)"
  shows "parse_clixml U F reader (to_clixml U F first) = Inr [first]"
proof -
  have "first = carried F v" using document_carries [OF assms(1-5)] assms(6) by simp
  then show ?thesis using carried_document_carries [OF assms(1-5)] by simp
qed

theorem codec_settles_witness:
  "parse_clixml rfc_uuid bits_float document_reader (to_clixml rfc_uuid bits_float (wrapped (PsList [PsChar 65533])))
    = Inr [wrapped (PsList [PsChar 65533])]"
proof -
  note laws = rfc.uuid_laws_axioms bits_float.float_laws_axioms document_reader.document_reader_laws_axioms
  have v: "rust_value (PsList [PsChar 128512])" "element_levels (PsList [PsChar 128512]) \<le> MAX_NESTING_DEPTH"
    by (simp_all add: scalar_def MAX_NESTING_DEPTH_def deepest_def)
  have "parse_clixml rfc_uuid bits_float document_reader (to_clixml rfc_uuid bits_float (PsList [PsChar 128512]))
      = Inr (wrapped (PsList [PsChar 65533]) # [])"
    using document_carries [OF laws v] by (simp add: REPLACEMENT_def)
  from codec_settles [OF laws v this] show ?thesis .
qed

end
