(* ===== verification/Decode_Levels.thy ===== *)
theory Decode_Levels
  imports Codec_Settles
begin

text \<open>
  How deeply the elements of a decoded value's own document are nested: one level more than the depth
  guard admits, since an empty text may be read from a self-closed element, which the guard does not
  count.  Below that a decoded value can be encoded and decoded again.
\<close>

section \<open>Levels and heights\<close>

lemma levels_height: "element_levels v \<le> Suc (height v)"
proof (induction v rule: rust_value.induct)
  case (1 vs)
  have "height v \<le> height_items vs" if "v \<in> set vs" for v using height_items_le_iff [of vs "height_items vs"] that by blast
  with 1 show ?case by (fastforce intro: order_trans)
next
  case (2 es)
  have "height k \<le> height_entries es \<and> height v \<le> height_entries es" if "(k, v) \<in> set es" for k v
    using height_entries_le_iff [of es "height_entries es"] that by blast
  with 2 show ?case by (fastforce intro: order_trans)
next
  case (3 props names ts)
  have "own_levels p \<le> Suc (height_props props)" if "p \<in> set props" for p
  proof -
    have "height (snd p) \<le> height_props props"
      using height_props_le_iff [of props "height_props props"] that by (cases p) auto
    moreover have "element_levels (snd p) \<le> Suc (height (snd p))" using 3 that by blast
    ultimately show ?thesis by (auto simp: own_levels_def)
  qed
  then show ?case unfolding object_levels by auto
qed simp_all

definition opt_levels :: "nat \<Rightarrow> ps_value option \<Rightarrow> bool" where
  "opt_levels n v \<longleftrightarrow> (case v of Some w \<Rightarrow> element_levels w \<le> n | None \<Rightarrow> True)"

definition pair_levels :: "nat \<Rightarrow> ps_value \<times> ps_value \<Rightarrow> bool" where
  "pair_levels n kv \<longleftrightarrow> element_levels (fst kv) \<le> n \<and> element_levels (snd kv) \<le> n"

text \<open>An object while its members are collected; the value embedded in it.\<close>

definition body_levels :: "nat \<Rightarrow> ps_object \<Rightarrow> bool" where
  "body_levels n obj \<longleftrightarrow> to_string obj = None \<and> list_all (\<lambda>p. own_levels p \<le> n) (properties obj)"

definition embedded_levels :: "nat \<Rightarrow> ps_value option \<Rightarrow> bool" where
  "embedded_levels n v \<longleftrightarrow> (case v of Some w \<Rightarrow> own_levels (VALUE_KEY, w) \<le> n | None \<Rightarrow> True)"

lemma own_le_levels: "element_levels w \<le> n \<Longrightarrow> own_levels (name, w) \<le> n"
  by (auto simp: own_levels_def)

lemma body_levels_insert: "body_levels n obj \<Longrightarrow> own_levels (name, w) \<le> n \<Longrightarrow> body_levels n (object_insert name w obj)"
proof -
  have "list_all (\<lambda>p. own_levels p \<le> n) m \<Longrightarrow> own_levels (name, w) \<le> n \<Longrightarrow>
      list_all (\<lambda>p. own_levels p \<le> n) (imap_insert name w m)" for m
    by (induction m) auto
  then show "body_levels n obj \<Longrightarrow> own_levels (name, w) \<le> n \<Longrightarrow> body_levels n (object_insert name w obj)"
    by (simp add: body_levels_def object_insert_def object_with_def)
qed

lemma body_levels_simps [simp]:
  "body_levels n object_new" "body_levels n (with_type_names obj names) = body_levels n obj"
  "body_levels n (use_type_names rid st obj) = body_levels n obj"
  by (auto simp: body_levels_def object_new_def with_type_names_def use_type_names_def split: option.split)

lemma body_object: "body_levels n obj \<Longrightarrow> element_levels (PsObject obj) \<le> Suc n"
  by (cases obj) (auto simp: body_levels_def object_levels list_all_iff simp del: element_levels.simps)

lemma expose_levels: "body_levels n obj \<Longrightarrow> embedded_levels n e \<Longrightarrow> body_levels n (expose_embedded e obj)"
  by (auto simp: expose_embedded_def embedded_levels_def body_levels_insert split: option.split)

section \<open>The contract of a parser\<close>

definition stays :: "('a \<Rightarrow> bool) \<Rightarrow> nat \<Rightarrow> ('a \<times> events \<times> dec_state) dec \<Rightarrow> bool" where
  "stays P d r \<longleftrightarrow> (\<forall>x evs st. r = Done (x, evs, st) \<longrightarrow> P x \<and> depth st = d)"

lemma stays_simps [simp]:
  "stays P d Out_Of_Fuel" "stays P d (Failed e)" "stays P d (Done (x, evs, st)) \<longleftrightarrow> P x \<and> depth st = d"
  by (auto simp: stays_def)

lemma stays_bind:
  assumes "stays P d m" "\<And>x evs st. P x \<Longrightarrow> depth st = d \<Longrightarrow> stays Q d' (f (x, evs, st))"
  shows "stays Q d' (dbind m f)"
proof (cases m)
  case (Done r)
  obtain x evs st where "r = (x, evs, st)" by (cases r)
  with assms Done show ?thesis by simp
qed simp_all

lemma stays_lift: "(\<And>x. r = Inr x \<Longrightarrow> stays Q d (f x)) \<Longrightarrow> stays Q d (dbind (dlift r) f)"
  by (cases r) auto

lemma keep_ref_depth: "keep_ref rid v st = Inr st' \<Longrightarrow> depth st' = depth st"
  using keep_ref_step [of rid v st st'] by (simp add: st_step_def)

lemma resolve_levels:
  assumes "resolve_ref attrs st n = Inr (v, st')" "depth st + l = MAX_NESTING_DEPTH"
  shows "element_levels v \<le> Suc l \<and> depth st' = depth st"
  using resolve_ref_InrD [OF assms(1)] levels_height [of v] assms(2) by (auto simp: st_step_def)

lemma empty_levels:
  assumes "parse_empty tag attrs st = Inr (v, st')" "depth st + l = MAX_NESTING_DEPTH"
  shows "opt_levels (Suc l) v \<and> depth st' = depth st"
  using assms resolve_levels [of attrs st 1 _ st' l]
  by (auto simp: parse_empty_def rbind_Inr_iff opt_levels_def split: if_splits)

lemma stays_empty:
  assumes "depth st + l = MAX_NESTING_DEPTH"
    "\<And>v st'. opt_levels (Suc l) v \<Longrightarrow> depth st' = depth st \<Longrightarrow> stays Q d (f (v, st'))"
  shows "stays Q d (dbind (dlift (parse_empty tag attrs st)) f)"
  using assms empty_levels [OF _ assms(1)] by (intro stays_lift) fastforce

lemma scalar_parser_levels:
  assumes "map_of (scalar_parsers U F) tag = Some parser" "parser t = Inr v"
  shows "element_levels v \<le> 1"
  using map_of_SomeD [OF assms(1)] assms(2)
  unfolding scalar_parsers_def by (auto simp: map_sum_Inr_iff ok_or_def split: sum.splits option.splits)

lemma set_entry_levels: "pair_levels n kv \<Longrightarrow> element_levels v \<le> n \<Longrightarrow> pair_levels n (set_entry name v kv)"
  by (simp add: pair_levels_def set_entry_def)

section \<open>The loops\<close>

locale levelled_elements =
  fixes elem :: element_parser and l :: nat
  assumes elem_levels: "depth st + l = MAX_NESTING_DEPTH \<Longrightarrow> stays (opt_levels (Suc l)) (depth st) (elem tag attrs evs st)"
begin

lemma member_set_levels:
  "body_levels (Suc l) obj \<Longrightarrow> depth st + l = MAX_NESTING_DEPTH \<Longrightarrow>
     stays (body_levels (Suc l)) (depth st) (parse_member_set elem f obj closing evs st)"
proof (induction f arbitrary: obj evs st)
  case (Suc f)
  have null: "own_levels (n, PsNull) \<le> Suc l" for n by (simp add: own_levels_def)
  have IH: "stays (body_levels (Suc l)) (depth st) (parse_member_set elem f obj' closing evs' st')"
    if "body_levels (Suc l) obj'" "depth st' = depth st" for obj' evs' st'
    using Suc.IH [of obj' st' evs'] that Suc.prems(2) by simp
  show ?case
    using Suc.prems
    by (cases evs)
      (auto intro!: IH stays_lift stays_empty [OF Suc.prems(2)] stays_bind [OF elem_levels [OF Suc.prems(2)]]
        body_levels_insert own_le_levels null simp: opt_levels_def split: xml_event.split option.split)
qed simp

lemma list_levels:
  "list_all (\<lambda>v. element_levels v \<le> Suc l) items \<Longrightarrow> depth st + l = MAX_NESTING_DEPTH \<Longrightarrow>
     stays (list_all (\<lambda>v. element_levels v \<le> Suc l)) (depth st) (parse_list elem f items closing evs st)"
proof (induction f arbitrary: items evs st)
  case (Suc f)
  have IH: "stays (list_all (\<lambda>v. element_levels v \<le> Suc l)) (depth st) (parse_list elem f items' closing evs' st')"
    if "list_all (\<lambda>v. element_levels v \<le> Suc l) items'" "depth st' = depth st" for items' evs' st'
    using Suc.IH [of items' st' evs'] that Suc.prems(2) by simp
  show ?case
    using Suc.prems
    by (cases evs)
      (auto intro!: IH stays_empty [OF Suc.prems(2)] stays_bind [OF elem_levels [OF Suc.prems(2)]]
        simp: opt_levels_def split: xml_event.split option.split)
qed simp

lemma dict_entry_levels:
  "pair_levels (Suc l) kv \<Longrightarrow> depth st + l = MAX_NESTING_DEPTH \<Longrightarrow>
     stays (pair_levels (Suc l)) (depth st) (parse_dict_entry elem f kv evs st)"
proof (induction f arbitrary: kv evs st)
  case (Suc f)
  have IH: "stays (pair_levels (Suc l)) (depth st) (parse_dict_entry elem f kv' evs' st')"
    if "pair_levels (Suc l) kv'" "depth st' = depth st" for kv' evs' st'
    using Suc.IH [of kv' st' evs'] that Suc.prems(2) by simp
  show ?case
    using Suc.prems
    by (cases evs)
      (auto intro!: IH set_entry_levels stays_lift stays_empty [OF Suc.prems(2)]
        stays_bind [OF elem_levels [OF Suc.prems(2)]] simp: opt_levels_def split: xml_event.split option.split)
qed simp

lemma dict_levels:
  "list_all (pair_levels (Suc l)) entries \<Longrightarrow> depth st + l = MAX_NESTING_DEPTH \<Longrightarrow>
     stays (list_all (pair_levels (Suc l))) (depth st) (parse_dict elem f entries evs st)"
proof (induction f arbitrary: entries evs st)
  case (Suc f)
  have null: "pair_levels (Suc l) (PsNull, PsNull)" by (simp add: pair_levels_def)
  have IH: "stays (list_all (pair_levels (Suc l))) (depth st) (parse_dict elem f entries' evs' st')"
    if "list_all (pair_levels (Suc l)) entries'" "depth st' = depth st" for entries' evs' st'
    using Suc.IH [of entries' st' evs'] that Suc.prems(2) by simp
  show ?case
    using Suc.prems
    by (cases evs)
      (auto intro!: IH stays_bind [OF dict_entry_levels [OF null Suc.prems(2)]] split: xml_event.split)
qed simp

lemma embedded_containers:
  "list_all (\<lambda>v. element_levels v \<le> n) vs \<Longrightarrow> embedded_levels n (Some (PsList vs))"
  "list_all (pair_levels n) es \<Longrightarrow> embedded_levels n (Some (PsDict es))"
  by (auto simp: embedded_levels_def own_levels_def list_all_iff pair_levels_def)

lemma obj_body_levels:
  "body_levels (Suc l) obj \<Longrightarrow> embedded_levels (Suc l) e \<Longrightarrow> depth st + l = MAX_NESTING_DEPTH \<Longrightarrow>
     stays (body_levels (Suc l)) (depth st) (parse_obj_body elem f obj e evs st)"
proof (induction f arbitrary: obj e evs st)
  case (Suc f)
  have IH: "stays (body_levels (Suc l)) (depth st) (parse_obj_body elem f obj' e' evs' st')"
    if "body_levels (Suc l) obj'" "embedded_levels (Suc l) e'" "depth st' = depth st" for obj' e' evs' st'
    using Suc.IH [of obj' e' st' evs'] that Suc.prems(3) by simp
  have first: "embedded_levels (Suc l) (case e of Some w \<Rightarrow> Some w | None \<Rightarrow> v)" if "opt_levels (Suc l) v" for v
    using that Suc.prems(2) by (auto simp: embedded_levels_def opt_levels_def own_le_levels split: option.splits)
  have names: "depth (keep_names rid names st) = depth st" for rid names by (simp add: keep_names_def split: option.split)
  note inside = stays_bind [OF member_set_levels] stays_bind [OF list_levels] stays_bind [OF dict_levels] stays_bind [OF elem_levels]
  show ?case
  proof (cases evs)
    case (Cons ev evs')
    then show ?thesis
      using Suc.prems
      by (cases ev) (auto intro!: IH first inside stays_lift expose_levels embedded_containers simp: names)
  qed simp
qed simp

lemma inner_levels:
  assumes "depth st + l = MAX_NESTING_DEPTH"
  shows "stays (opt_levels (Suc (Suc l))) (depth st) (parse_element_inner U F elem tag attrs evs st)"
proof (cases "map_of (scalar_parsers U F) tag")
  case None
  have none: "embedded_levels (Suc l) None" by (simp add: embedded_levels_def)
  show ?thesis
    using assms None resolve_levels [OF _ assms]
    by (fastforce simp: parse_element_inner_def opt_levels_def
        intro!: stays_lift stays_bind [OF obj_body_levels [OF _ none assms]] dest: body_object keep_ref_depth)
next
  case (Some parser)
  then show ?thesis
    using scalar_parser_levels [OF Some]
    by (fastforce simp: parse_element_inner_def opt_levels_def intro!: stays_lift)
qed

end

interpretation levelled_element: levelled_elements "parse_element U F l" l for U F l
proof unfold_locales
  show "stays (opt_levels (Suc l)) (depth st) (parse_element U F l tag attrs evs st)"
    if "depth st + l = MAX_NESTING_DEPTH" for st tag attrs evs
    using that
  proof (induction l arbitrary: tag attrs evs st)
    case (Suc m)
    then have "levelled_elements (parse_element U F m) m" by unfold_locales
    moreover have "depth (st\<lparr>depth := depth st + 1\<rparr>) + m = MAX_NESTING_DEPTH" using Suc.prems by simp
    ultimately have "stays (opt_levels (Suc (Suc m))) (depth (st\<lparr>depth := depth st + 1\<rparr>))
        (parse_element_inner U F (parse_element U F m) tag attrs evs (st\<lparr>depth := depth st + 1\<rparr>))"
      by (rule levelled_elements.inner_levels)
    then show ?case by (auto intro!: stays_bind)
  qed simp
qed

lemma siblings_levels:
  assumes "depth st + l = MAX_NESTING_DEPTH" "list_all (\<lambda>v. element_levels v \<le> Suc l) vs"
    "parse_siblings (parse_element U F l) f vs evs st = Done vs'"
  shows "list_all (\<lambda>v. element_levels v \<le> Suc l) vs'"
  using assms
proof (induction f arbitrary: vs evs st)
  case (Suc f)
  have go: "list_all (\<lambda>v. element_levels v \<le> Suc l) vs'"
    if "opt_levels (Suc l) v" "depth st' = depth st"
      "parse_siblings (parse_element U F l) f (case v of Some v \<Rightarrow> vs @ [v] | None \<Rightarrow> vs) evs' st' = Done vs'" for v evs' st'
    using Suc.IH [OF _ _ that(3)] Suc.prems that(1,2) by (auto simp: opt_levels_def split: option.splits)
  show ?case
  proof (cases evs)
    case (Cons ev evs')
    show ?thesis
    proof (cases ev)
      case (XStart tag attrs)
      then show ?thesis using go Suc.prems(3) Cons levelled_element.elem_levels [OF Suc.prems(1), of U F tag attrs evs']
        by (cases "parse_element U F l tag attrs evs' st") auto
    next
      case (XEmpty tag attrs)
      then show ?thesis using go Suc.prems(3) Cons empty_levels [OF _ Suc.prems(1), of tag attrs]
        by (cases "parse_empty tag attrs st") auto
    qed (use Suc Cons in auto)
  qed (use Suc in simp)
qed simp

lemma decoded_levels:
  assumes "parse_clixml U F reader xml = Inr vs"
  shows "list_all (\<lambda>v. element_levels v \<le> Suc MAX_NESTING_DEPTH) vs"
proof (cases "parse_clixml_dec U F reader xml")
  case Out_Of_Fuel
  with parse_clixml_dec_runs [of U F reader xml] show ?thesis by simp
next
  case (Done ws)
  then show ?thesis using assms
    by (auto simp: parse_clixml_def parse_clixml_dec_def Let_def initial_state_def dest!: siblings_levels [rotated 2])
qed (use assms in \<open>simp add: parse_clixml_def\<close>)

lemma decoded_rust_value: "decoded v \<Longrightarrow> rust_value v"
proof (induction rule: decoded.induct)
  case (Scalar v)
  then show ?case by (cases v) auto
qed (auto simp: valid_value_key)

lemma decoded_again:
  assumes "uuid_laws U" "float_laws F" "document_reader_laws reader"
    and "\<And>t. list_all event_ok (reader t)" "parse_clixml U F reader xml = Inr vs" "v \<in> set vs"
  shows "element_levels v \<le> Suc MAX_NESTING_DEPTH
    \<and> (element_levels v \<le> MAX_NESTING_DEPTH \<longrightarrow> parse_clixml U F reader (to_clixml U F v) = Inr [carried F v])"
proof -
  have "decoded v" using decoded_list [OF assms(4,5)] assms(6) by (simp add: list_all_iff)
  then have "rust_value v" by (rule decoded_rust_value)
  moreover have "element_levels v \<le> Suc MAX_NESTING_DEPTH"
    using decoded_levels [OF assms(5)] assms(6) by (simp add: list_all_iff)
  ultimately show ?thesis using document_carries [OF assms(1-3)] by blast
qed

text \<open>
  C9: what was decoded can be sent back.  Every value that the decoder makes of any document is one the
  encoder can express: its own document is nested at most one level deeper than the decoder admits,
  and below that it is decoded again, as exactly one value.
\<close>

theorem decoded_values_can_be_sent_back:
  assumes "uuid_laws U" "float_laws F" "document_reader_laws reader"
    and "\<And>t. list_all event_ok (reader t)" "parse_clixml U F reader xml = Inr vs" "v \<in> set vs"
  shows "element_levels v \<le> Suc MAX_NESTING_DEPTH
    \<and> (element_levels v \<le> MAX_NESTING_DEPTH \<longrightarrow> parse_clixml U F reader (to_clixml U F v) = Inr [carried F v])"
  by (rule decoded_again [OF assms])

text \<open>A reader of Rust strings: \<open>document_reader\<close>, which gives up on events no Rust string can hold.\<close>

definition strict_reader :: xml_reader where
  "strict_reader t = (if list_all event_ok (document_reader t) then document_reader t else [])"

lemma text_events_ok: "valid_str t \<Longrightarrow> list_all event_ok (text_events t)"
proof (induction t rule: text_events.induct)
  case (2 c cs)
  show ?case
  proof (cases "markup c")
    case True
    then show ?thesis using 2(1,3) by (simp add: text_events.simps(2))
  next
    case False
    have "valid_str (takeWhile (\<lambda>d. \<not> markup d) (c # cs))" "valid_str (dropWhile (\<lambda>d. \<not> markup d) (c # cs))"
      using 2(3) set_takeWhileD [of _ "\<lambda>d. \<not> markup d" "c # cs"] set_dropWhileD [of _ "\<lambda>d. \<not> markup d" "c # cs"]
      unfolding list_all_iff by blast+
    with False 2(2) show ?thesis
      by (simp add: text_events.simps(2) del: takeWhile.simps dropWhile.simps)
  qed
qed simp

lemma attrs_events_ok: "attrs_well_formed as \<Longrightarrow> attrs_ok (map read_attr as)"
  by (auto simp: attrs_well_formed_def attr_ok_def attrs_ok_def read_attr_def list_all_iff)

lemma document_events_ok: "well_formed x \<Longrightarrow> list_all event_ok (xml_events x)"
proof (induction x)
  case (Text tag as t)
  then show ?case using text_events_ok [of t] attrs_events_ok by (simp add: list_all_iff)
next
  case (Node tag as xs)
  then show ?case using attrs_events_ok by (auto simp: list_all_iff)
qed (simp add: attrs_events_ok)

interpretation strict_reader: document_reader_laws strict_reader
  by unfold_locales (simp add: strict_reader_def document_reader.reads_document document_events_ok)

lemma strict_events_ok: "list_all event_ok (strict_reader t)"
  by (simp add: strict_reader_def)

theorem decoded_values_can_be_sent_back_witness:
  "parse_clixml rfc_uuid bits_float strict_reader (to_clixml rfc_uuid bits_float (wrapped (PsList [PsNull])))
    = Inr [wrapped (PsList [PsNull])]"
proof -
  note laws = rfc.uuid_laws_axioms bits_float.float_laws_axioms strict_reader.document_reader_laws_axioms
  have "parse_clixml rfc_uuid bits_float strict_reader (to_clixml rfc_uuid bits_float (PsList [PsNull]))
      = Inr [wrapped (PsList [PsNull])]"
    using document_carries [OF laws, of "PsList [PsNull]"] by (simp add: MAX_NESTING_DEPTH_def deepest_def)
  from decoded_values_can_be_sent_back [OF laws strict_events_ok this, of "wrapped (PsList [PsNull])"] show ?thesis
    by (simp add: carried_wrapped wrapped_levels MAX_NESTING_DEPTH_def deepest_def) (simp add: wrapped_def)
qed

section \<open>The one level more\<close>

text \<open>\<open>n\<close> objects inside each other around an empty string, and the document of it that says \<open><S/>\<close>.\<close>

primrec nested_text :: "nat \<Rightarrow> ps_value" where
  "nested_text 0 = PsString []"
| "nested_text (Suc n) = PsObject (Ps_Object [(lit ''a'', nested_text n)] [] None)"

primrec short_document :: "nat \<Rightarrow> ustr option \<Rightarrow> xml" where
  "short_document 0 name = Leaf (lit ''S'') (name_attrs name)"
| "short_document (Suc n) name = object_tree name 0 (member_trees [short_document n (Some (lit ''a''))])"

lemma name_a_ok: "name_ok None" "name_ok (Some (lit ''a''))"
  by (simp_all add: name_ok_def)

lemma short_member_tree:
  "well_formed (Node (lit ''MS'') [] [Leaf (lit ''S'') (name_attrs (Some (lit ''a'')))])"
  "unreferenced (Node (lit ''MS'') [] [Leaf (lit ''S'') (name_attrs (Some (lit ''a'')))])"
  using name_attrs_well_formed [OF name_a_ok(2)] by (simp_all add: plain_name_def) (simp_all add: lit_def)

lemma short_body:
  "parse_obj_body elem (Suc (Suc (Suc (Suc (Suc f))))) object_new None
     (XStart (lit ''MS'') [] # XEmpty (lit ''S'') (map read_attr (name_attrs (Some (lit ''a'')))) # XEnd (lit ''MS'')
       # XEnd (lit ''Obj'') # rest) st
   = Done (Ps_Object [(lit ''a'', PsString [])] [] None, rest, st)"
  using name_attr_read [of "[]" "Some (lit ''a'')"]
  by (simp add: parse_empty_def object_new_def object_insert_def object_with_def unwrap_or_default_def expose_embedded_def)

lemma object_element:
  assumes "at_level (Suc l) st"
    and "parse_obj_body (parse_element U F l) (Suc (length evs)) object_new None evs (st\<lparr>depth := Suc (depth st)\<rparr>)
      = Done (obj, rest, st\<lparr>depth := Suc (depth st)\<rparr>)"
  shows "parse_element U F (Suc l) (lit ''Obj'') (map read_attr (name_attrs name @ [(lit ''RefId'', show_word i)])) evs st
    = Done (Some (PsObject obj), rest, st)"
proof -
  have "ref_id_attr (map read_attr (name_attrs name @ [(lit ''RefId'', show_word i)])) = Inr (Some (show_word i))"
    by (simp add: ref_id_attr_def attr_value_def name_attrs_def read_attr_def split: option.split)
  moreover have "keep_ref (Some (show_word i)) v (st\<lparr>depth := Suc (depth st)\<rparr>) = Inr (st\<lparr>depth := Suc (depth st)\<rparr>)" for v
    using assms(1) by (simp add: keep_ref_def at_level_def)
  moreover have "depth st < MAX_NESTING_DEPTH" "st\<lparr>depth := depth st\<rparr> = st"
    using assms(1) by (simp_all add: at_level_def) 
  ultimately show ?thesis using assms(2) tag_facts by (simp add: parse_element_inner_def del: map_append)
qed

lemma short_document_denotes:
  "name_ok name \<Longrightarrow> denotes U F (short_document (Suc n) name) name (nested_text (Suc n)) (Suc n)"
proof (induction n arbitrary: name)
  case 0
  let ?x = "Node (lit ''MS'') [] [Leaf (lit ''S'') (name_attrs (Some (lit ''a'')))]"
  have x: "short_document (Suc 0) name = object_tree name 0 [?x]" by (simp add: member_trees_def)
  have "gives (parse_element U F l (lit ''Obj'') (map read_attr (name_attrs name @ [(lit ''RefId'', show_word 0)]))
      ((xml_events ?x @ [XEnd (lit ''Obj'')]) @ rest) st) (Some (nested_text (Suc 0))) rest st"
    if lev: "Suc 0 \<le> l" "at_level l st" for l rest st
  proof -
    obtain m where m: "l = Suc m" using lev(1) by (cases l) auto
    have "length ((xml_events ?x @ [XEnd (lit ''Obj'')]) @ rest) = Suc (Suc (Suc (Suc (length rest))))" by simp
    then have "parse_element U F (Suc m) (lit ''Obj'') (map read_attr (name_attrs name @ [(lit ''RefId'', show_word 0)]))
        ((xml_events ?x @ [XEnd (lit ''Obj'')]) @ rest) st
      = Done (Some (PsObject (Ps_Object [(lit ''a'', PsString [])] [] None)), rest, st)"
      using lev(2) m by (intro object_element) (simp_all add: short_body del: parse_obj_body.simps name_attrs_def)
    then show ?thesis unfolding m by (auto simp: gives_def same_but_names_refl)
  qed
  moreover have "name_attr (map read_attr (name_attrs name @ [(lit ''RefId'', show_word 0)])) = Inr name"
    by (rule name_attr_read) simp
  moreover have "well_formed (object_tree name 0 [?x])" "unreferenced (object_tree name 0 [?x])"
    using short_member_tree object_attrs_well_formed [OF 0, of "unat (0 :: u32)"]
    by (simp_all add: object_tree_def)
  ultimately show ?case
    unfolding x denotes_def by (auto simp: object_tree_def reserved_tags_def)
next
  case (Suc n)
  have "list_all2 (member_denotes U F (Suc n)) [short_document (Suc n) (Some (lit ''a''))] [(lit ''a'', nested_text (Suc n))]"
    using Suc.IH [OF name_a_ok(2)] by (simp add: member_denotes_def del: short_document.simps nested_text.simps)
  moreover have "embeds U F (Suc n) [] None" by (simp add: embeds_def)
  ultimately show ?case
    using object_denotes [of U F "Suc n" "[]" None "[short_document (Suc n) (Some (lit ''a''))]" "[(lit ''a'', nested_text (Suc n))]" None name "[]" 0 0]
      Suc.prems
    by (simp add: type_name_trees_def to_string_trees_def shown_def name_a_ok short_document.simps(2) [of "Suc n"]
        nested_text.simps(2) [of "Suc n"] del: short_document.simps nested_text.simps)
qed

text \<open>A tree that opens more elements inside each other than are left.\<close>

definition too_deep :: "uuid_api \<Rightarrow> float_api \<Rightarrow> nat \<Rightarrow> xml \<Rightarrow> bool" where
  "too_deep U F d x \<longleftrightarrow> well_formed x \<and> unreferenced x \<and>
     (\<exists>tag as evs name. xml_events x = XStart tag as # evs \<and> name_attr as = Inr name
        \<and> (\<forall>l rest st. l \<le> d \<longrightarrow> at_level l st \<longrightarrow> parse_element U F l tag as (evs @ rest) st = Failed depth_error))"

lemma object_too_deep:
  assumes "too_deep U F d x" "name_ok name"
  shows "too_deep U F (Suc d) (object_tree name i [Node (lit ''MS'') [] [x]])"
proof -
  obtain tag as evs n where x: "xml_events x = XStart tag as # evs" "name_attr as = Inr n"
      "\<And>l rest st. l \<le> d \<Longrightarrow> at_level l st \<Longrightarrow> parse_element U F l tag as (evs @ rest) st = Failed depth_error"
    and ok: "well_formed x" "unreferenced x"
    using assms(1) unfolding too_deep_def by blast
  let ?as = "map read_attr (name_attrs name @ [(lit ''RefId'', show_word i)])"
    and ?evs = "XStart (lit ''MS'') [] # XStart tag as # evs @ [XEnd (lit ''MS''), XEnd (lit ''Obj'')]"
  have "parse_element U F l (lit ''Obj'') ?as (?evs @ rest) st = Failed depth_error"
    if "l \<le> Suc d" "at_level l st" for l rest st
  proof (cases l)
    case (Suc m)
    let ?st = "st\<lparr>depth := Suc (depth st)\<rparr>"
    have "at_level m ?st" "depth st < MAX_NESTING_DEPTH" using that(2) Suc by (simp_all add: at_level_def)
    moreover from this have "parse_element U F m tag as (evs @ [XEnd (lit ''MS''), XEnd (lit ''Obj'')] @ rest) ?st
        = Failed depth_error"
      using x(3) that(1) Suc by simp
    moreover have "ref_id_attr ?as = Inr (Some (show_word i))"
      by (simp add: ref_id_attr_def attr_value_def name_attrs_def read_attr_def split: option.split)
    ultimately show ?thesis
      using x(2) tag_facts by (simp add: Suc parse_element_inner_def del: map_append)
  qed simp
  moreover have "name_attr ?as = Inr name" by (rule name_attr_read) simp
  ultimately show ?thesis
    using ok object_attrs_well_formed [OF assms(2), of "unat i"] unfolding too_deep_def
    by (auto simp: object_tree_def x(1))
qed

lemma nested_text_written:
  "name_ok name \<Longrightarrow> \<exists>x k'. write_value U F (nested_text n) name k = (render x, k') \<and> too_deep U F n x"
proof (induction n arbitrary: name k)
  case 0
  let ?x = "Text (lit ''S'') (name_attrs name) (pwsh_escape False [])"
  have "write_value U F (nested_text 0) name k = (render ?x, k)"
    using write_simple_render(2) [of "lit ''S''" "[]" name]
    by (simp add: write_value.simps escape_def del: render.simps)
  moreover have "too_deep U F 0 ?x"
    using escaped_well_formed [of "lit ''S''" name "[]"] 0 name_attr_read [of "[]" name]
    by (simp add: too_deep_def plain_name_def) (simp add: lit_def)
  ultimately show ?case by blast
next
  case (Suc n)
  let ?k = "snd (next_ref_id k)"
  obtain x k' where x: "write_value U F (nested_text n) (Some (lit ''a'')) ?k = (render x, k')" "too_deep U F n x"
    using Suc.IH [OF name_a_ok(2)] by blast
  have "lit ''a'' \<noteq> VALUE_KEY" by (simp add: VALUE_KEY_def)
  then have "write_value U F (nested_text (Suc n)) name k
      = (fst (open_obj name k) @ render_all [Node (lit ''MS'') [] [x]] @ lit ''</Obj>'', k')"
    by (subst write_value.simps, simp add: x(1) write_type_names_def write_to_string_def other_props_def open_obj_render render_attrs_def)
      (simp add: lit_def)
  then have "write_value U F (nested_text (Suc n)) name k = (render (object_tree name k [Node (lit ''MS'') [] [x]]), k')"
    by (simp only: object_tree_render)
  then show ?case using object_too_deep [OF x(2) Suc.prems] by blast
qed

lemma tree_read:
  assumes "document_reader_laws reader" "well_formed x" "unreferenced x"
  shows "parse_clixml U F reader (render x) = (case parse_siblings (parse_element U F MAX_NESTING_DEPTH) (Suc (length (xml_events x)))
      [] (xml_events x) (initial_state (utf8_len (render x)) (xml_events x)) of
      Done vs \<Rightarrow> Inr vs | Failed e \<Rightarrow> Inl e | Out_Of_Fuel \<Rightarrow> Inr [])
    \<and> at_level MAX_NESTING_DEPTH (initial_state (utf8_len (render x)) (xml_events x))"
proof -
  have "referenced_ids (xml_events x) = []"
    using tree_unreferenced [of x "[]"] assms(3) by (simp add: ref_target_def)
  then show ?thesis
    using document_reader_laws.reads_document [OF assms(1,2)]
    by (simp add: parse_clixml_def parse_clixml_dec_def read_whole Let_def at_level_def initial_state_def)
qed

text \<open>
  The level that the depth guard does not count: a document of 64 objects inside each other around
  a self-closed string is decoded; the document the encoder writes for the value it holds, which says
  \<open><S></S>\<close>, is refused as nested too deeply.
\<close>

lemma one_level_more:
  assumes "document_reader_laws reader"
  shows "parse_clixml U F reader (render (short_document 64 None)) = Inr [nested_text 64]
    \<and> parse_clixml U F reader (to_clixml U F (nested_text 64)) = Inl depth_error"
proof -
  let ?x = "short_document (Suc 63) None"
  have x: "denotes U F ?x None (nested_text (Suc 63)) (Suc 63)" by (rule short_document_denotes [OF name_a_ok(1)])
  have "Suc 63 \<le> MAX_NESTING_DEPTH" by (simp add: MAX_NESTING_DEPTH_def)
  then have read: "parse_clixml U F reader (render ?x) = Inr [nested_text (Suc 63)]"
    using tree_read [OF assms, of ?x U F] denotes_ok [OF x] parse_tree [OF x]
    by (simp del: short_document.simps nested_text.simps)
  obtain y k where y: "write_value U F (nested_text 64) None 0 = (render y, k)" "too_deep U F 64 y"
    using nested_text_written [OF name_a_ok(1)] by blast
  obtain tag as evs where evs: "xml_events y = XStart tag as # evs"
      "\<And>l rest st. l \<le> 64 \<Longrightarrow> at_level l st \<Longrightarrow> parse_element U F l tag as (evs @ rest) st = Failed depth_error"
    using y(2) unfolding too_deep_def by blast
  have "at_level MAX_NESTING_DEPTH st \<Longrightarrow> parse_element U F MAX_NESTING_DEPTH tag as evs st = Failed depth_error" for st
    using evs(2) [of MAX_NESTING_DEPTH st "[]"] by (simp add: MAX_NESTING_DEPTH_def)
  then have "parse_clixml U F reader (to_clixml U F (nested_text 64)) = Inl depth_error"
    using tree_read [OF assms, of y U F] y evs(1) by (simp add: to_clixml_def too_deep_def)
  moreover have "Suc 63 = 64" by simp
  ultimately show ?thesis using read by metis
qed

end
