(* ===== verification/Blocking.thy ===== *)
theory Blocking
  imports Pipelines Ssh
begin

text \<open>
  The synchronous wrapper (\<open>src/src/blocking.rs\<close>): each call opens a pool, runs a script or a pipeline
  in it and closes it.  The tokio runtime is what \<open>build\<close> gives, its cell (a \<open>OnceLock\<close>) is passed
  and returned; \<open>raced\<close> is the runtime another first call has stored meanwhile, if any.

  A call returns the pool it leaves (\<open>None\<close> when no pool was opened) and its result, where \<open>None\<close>
  says that it has not returned yet.
\<close>

definition blocking_runtime :: "(ustr + 'rt) \<Rightarrow> 'rt option \<Rightarrow> 'rt option \<Rightarrow> 'rt option \<times> 'rt res" where
  "blocking_runtime build raced cell =
     (case cell of
        Some rt \<Rightarrow> (cell, Inr rt)
      | None \<Rightarrow>
          (case build of
             Inl e \<Rightarrow> (cell, Inl (protocol (lit ''failed to build the blocking Tokio runtime: '' @ e)))
           | Inr rt \<Rightarrow>
               (let cell = (case raced of Some other \<Rightarrow> Some other | None \<Rightarrow> Some rt)
                in (cell, ok_or cell (protocol (lit ''the blocking Tokio runtime was not stored''))))))"

text \<open>\<open>block_on\<close>: nothing runs without a runtime.\<close>

definition block_on :: "'rt res \<Rightarrow> 'p option \<times> 'a res option \<Rightarrow> 'p option \<times> 'a res option" where
  "block_on rt r = (case rt of Inl e \<Rightarrow> (None, Some (Inl e)) | Inr _ \<Rightarrow> r)"

text \<open>Run \<open>body\<close> in an opened pool, then close the pool, whatever came of it.\<close>

definition run_and_close ::
    "('t, 'h) pool_env \<Rightarrow> (('t, 'h) pool \<Rightarrow> ('t, 'h) pool \<times> 'a res option) \<Rightarrow> ('t, 'h) pool res option
     \<Rightarrow> ('t, 'h) pool option \<times> 'a res option" where
  "run_and_close E body opening =
     (case opening of
        None \<Rightarrow> (None, None)
      | Some (Inl e) \<Rightarrow> (None, Some (Inl e))
      | Some (Inr p) \<Rightarrow>
          (case body p of
             (p, None) \<Rightarrow> (Some p, None)
           | (p, Some result) \<Rightarrow> (Some (fst (pool_close E p)), Some result)))"

text \<open>
  The pool of a WinRM call: the creation fragments travel in the request that creates the shell.
  \<open>open_shell\<close> is the client's \<open>open_psrp_shell\<close>, \<open>rpid\<close> the fresh pool id.
\<close>

definition open_winrm_pool ::
    "('w winrm_transport, 'h) pool_env \<Rightarrow> 'w shell_api \<Rightarrow> (ustr \<Rightarrow> ustr \<Rightarrow> winrm_error + 'w) \<Rightarrow> nat
     \<Rightarrow> uuid \<Rightarrow> ustr \<Rightarrow> 'h \<Rightarrow> ('w winrm_transport, 'h) pool res option" where
  "open_winrm_pool E A open_shell f rpid server h =
     (case build_creation_fragments (codec E) rpid 1 1 of
        Inl e \<Rightarrow> Some (Inl e)
      | Inr (rpid, creation) \<Rightarrow>
          (case winrm_open A open_shell server creation of
             Inl e \<Rightarrow> Some (Inl e)
           | Inr t \<Rightarrow> open_from_transport E f t rpid 1 1 h))"

definition blocking_run_script where
  "blocking_run_script rt E A open_shell f rpid server h dbg fresh fs script =
     block_on rt (run_and_close E (pool_run_script E dbg fresh fs script) (open_winrm_pool E A open_shell f rpid server h))"

definition blocking_run_pipeline where
  "blocking_run_pipeline rt E A open_shell f rpid server h dbg fresh fs pl =
     block_on rt (run_and_close E (run_all_streams E dbg fresh fs pl) (open_winrm_pool E A open_shell f rpid server h))"

text \<open>Over SSH the pool opens by messages; \<open>c\<close> is the connection that \<open>ssh_connect\<close> works on.\<close>

definition blocking_run_script_ssh where
  "blocking_run_script_ssh rt E R S hid f config c rpid h dbg fresh fs script =
     block_on rt (run_and_close E (pool_run_script E dbg fresh fs script)
       (case ssh_connect R S hid f config c of
          (c, None) \<Rightarrow> None
        | (c, Some (Inl e)) \<Rightarrow> Some (Inl e)
        | (c, Some (Inr t)) \<Rightarrow> open_with_transport E f rpid t h))"

end
