(* ===== verification/Blocking_Properties.thy ===== *)
theory Blocking_Properties
  imports Blocking Pipeline_Properties
begin

text \<open>A blocking call: the runtime it shares, its equivalence with the asynchronous calls, its cleanup.\<close>

text \<open>A stored runtime stays, and the call gets the stored one even when it lost a race.\<close>

lemma blocking_runtime_is_stored:
  "case blocking_runtime build raced cell of
     (cell', Inr rt) \<Rightarrow> cell' = Some rt \<and> blocking_runtime build' raced' cell' = (cell', Inr rt)
   | (cell', Inl e) \<Rightarrow> cell' = None"
  by (auto simp: blocking_runtime_def Let_def split: option.splits sum.splits)

lemma script_is_a_pipeline:
  "blocking_run_script rt E A open_shell f rpid server h dbg fresh fs script =
     map_prod id (map_option (map_sum id res_output))
       (blocking_run_pipeline rt E A open_shell f rpid server h dbg fresh fs (pipeline_new script))"
  by (auto simp: blocking_run_script_def blocking_run_pipeline_def block_on_def run_and_close_def
      pool_run_script_def run_def split_beta split: option.splits sum.splits)

section \<open>Cleanup\<close>

lemma signal_stop_same: "same_machine p q \<Longrightarrow> same_machine p (fst (signal_transport_stop E q))"
  by (auto simp: signal_transport_stop_def split: prod.split sum.split)

lemma run_loop_same: "same_machine p q \<Longrightarrow> same_machine p (fst (run_loop E dbg pid rpid ts sg r q))"
proof (induction ts arbitrary: sg r q)
  case (Cons t ts)
  obtain q1 x where first: "(if \<not> sg \<and> already t then signal_transport_stop E q else (q, Inr ())) = (q1, x)"
    by fastforce
  have q1: "same_machine p q1"
    using signal_stop_same [OF Cons.prems, of E] Cons.prems first by (auto split: if_splits)
  obtain q2 y where pulled: "next_message E (pumped t) q1 = (q2, y)" by fastforce
  have q2: "same_machine p q2" using next_message_same [OF q1, of E "pumped t"] pulled by simp
  obtain q3 z where stop: "signal_transport_stop E q2 = (q3, z)" by fastforce
  have q3: "same_machine p q3" using signal_stop_same [OF q2, of E] stop by simp
  show ?case
    using Cons.IH [OF q2] Cons.IH [OF q3] q1 q2 q3
    by (auto simp: first pulled stop Let_def split: sum.split option.split outcome.split)
qed simp

lemma run_all_same: "same_machine p (fst (run_all_streams E dbg fresh fs pl p))"
proof -
  obtain q x where sent: "send_pipeline_message E CreatePipeline (pid_of fresh pl) (create_pipeline_xml (codec E) pl) p = (q, x)"
    by fastforce
  have "same_machine p q" using send_same(2) [of p E CreatePipeline "pid_of fresh pl" "create_pipeline_xml (codec E) pl"] sent by simp
  then show ?thesis
    by (auto simp: run_all_streams_def run_all_streams_with_cancel_def Let_def sent run_loop_same split: sum.split)
qed

lemma opened_not_closed:
  assumes "open_winrm_pool E A open_shell f rpid server h = Some (Inr p)"
  shows "\<not> pool_closed p"
proof -
  obtain rpid' t where "open_from_transport E f t rpid' 1 1 h = Some (Inr p)"
    using assms by (auto simp: open_winrm_pool_def split: sum.splits)
  then obtain m u where "drain_until_opened (without_host E) f (fresh_pool t h m 3 None) = (p, Some (Inr u))"
    by (auto simp: open_from_transport_def open_from_transport_with_host_def split: sum.splits prod.splits option.splits)
  from drain_machine [OF this] show ?thesis by (simp add: fresh_pool_def)
qed

lemma close_takes_the_shell:
  assumes "wire E = winrm_psrp_transport A show_uuid n" "\<not> pool_closed p"
  shows "pool_closed (fst (pool_close E p)) \<and> wt_shell (link (fst (pool_close E p))) = None
    \<and> parked (link (fst (pool_close E p))) = None"
proof -
  let ?m = "machine_close (pool_machine p)"
  obtain q x where sent: "execute_actions E (snd ?m) (p\<lparr>pool_closed := True, pool_machine := fst ?m\<rparr>) = (q, x)" by fastforce
  have "same_machine (p\<lparr>pool_closed := True, pool_machine := fst ?m\<rparr>) q"
    using execute_actions_same [of "p\<lparr>pool_closed := True, pool_machine := fst ?m\<rparr>"
        "p\<lparr>pool_closed := True, pool_machine := fst ?m\<rparr>" E "snd ?m"] sent by simp
  then have "pool_closed q" by (simp add: same_machine_def)
  moreover have "close_shell (wire E) = winrm_close_shell A"
    by (simp add: assms(1) winrm_psrp_transport_def with_defaults_def)
  ultimately show ?thesis
    using assms(2) sent
    by (auto simp: pool_close_def Let_def winrm_close_shell_def take_shell_def split_beta split: sum.split option.split)
qed

section \<open>The shell of a call\<close>

text \<open>\<open>shell_run A w0 w\<close>: calls on the shell \<open>w0\<close>, short of closing it, have led to \<open>w\<close>.\<close>

inductive shell_run :: "'w shell_api \<Rightarrow> 'w \<Rightarrow> 'w \<Rightarrow> bool" for A w0 where
  run_new: "shell_run A w0 w0"
| run_start: "shell_run A w0 w \<Longrightarrow> sh_start_command A w = (w', r) \<Longrightarrow> shell_run A w0 w'"
| run_execute: "shell_run A w0 w \<Longrightarrow> sh_start_command_with_id A args cmd w = (w', r) \<Longrightarrow> shell_run A w0 w'"
| run_send: "shell_run A w0 w \<Longrightarrow> sh_send_input A cmd bs w = (w', r') \<Longrightarrow> shell_run A w0 w'"
| run_receive: "shell_run A w0 w \<Longrightarrow> sh_receive_next A cmd w = (w', p) \<Longrightarrow> shell_run A w0 w'"
| run_signal: "shell_run A w0 w \<Longrightarrow> sh_signal_ctrl_c A cmd w = (w', r') \<Longrightarrow> shell_run A w0 w'"

text \<open>The transport still has the shell it was opened with, or has closed it, once.\<close>

definition in_hand :: "'w shell_api \<Rightarrow> 'w \<Rightarrow> 'w winrm_transport \<Rightarrow> bool" where
  "in_hand A w0 t \<longleftrightarrow>
     (case wt_shell t of
        Some w \<Rightarrow> shell_run A w0 w \<and> wt_ended t = []
      | None \<Rightarrow> \<exists>w. shell_run A w0 w \<and> wt_ended t = [fst (sh_close A w)])"

lemma on_shell_in_hand:
  assumes "on_shell act after t = (t', r)" "in_hand A w0 t"
    and "\<And>w w' r. shell_run A w0 w \<Longrightarrow> act w = (w', r) \<Longrightarrow> shell_run A w0 w'"
    and "\<And>x t. wt_shell (after x t) = wt_shell t \<and> wt_ended (after x t) = wt_ended t"
  shows "in_hand A w0 t'"
  using assms by (auto simp: on_shell_def in_hand_def split: option.splits prod.splits sum.splits)

lemma send_in_hand: "winrm_send_fragment A bs t = (t', r) \<Longrightarrow> in_hand A w0 t \<Longrightarrow> in_hand A w0 t'"
  unfolding winrm_send_fragment_def by (erule on_shell_in_hand) (auto intro: run_send)

lemma execute_in_hand: "winrm_execute_pipeline A show_uuid bs pid t = (t', r) \<Longrightarrow> in_hand A w0 t \<Longrightarrow> in_hand A w0 t'"
  unfolding winrm_execute_pipeline_def by (erule on_shell_in_hand) (auto intro: run_execute simp: new_command_def)

lemma signal_in_hand: "winrm_signal_stop A t = (t', r) \<Longrightarrow> in_hand A w0 t \<Longrightarrow> in_hand A w0 t'"
  unfolding winrm_signal_stop_def by (erule on_shell_in_hand) (auto intro: run_signal)

lemma drive_in_hand: "drive A w t = (t', r) \<Longrightarrow> wt_shell t = Some w \<Longrightarrow> in_hand A w0 t \<Longrightarrow> in_hand A w0 t'"
  by (auto simp: drive_def in_hand_def Let_def split: prod.splits option.splits intro: run_receive)

lemma in_hand_done [simp]: "in_hand A w0 (t\<lparr>wt_done := d\<rparr>) = in_hand A w0 t"
  by (simp add: in_hand_def split: option.split)

lemma recv_in_hand: "recv_loop A f n t = (t', r) \<Longrightarrow> in_hand A w0 t \<Longrightarrow> in_hand A w0 t'"
proof (induction f arbitrary: n t)
  case (Suc f)
  show ?case
  proof (cases "wt_shell t")
    case (Some w)
    obtain t1 p where d: "drive A w t = (t1, p)" by fastforce
    note hand = drive_in_hand [OF d Some Suc.prems(2)]
    with Suc.prems(1) Some d show ?thesis
      by (auto split: option.splits prod.splits sum.splits recv_step.splits dest!: Suc.IH)
  qed (use Suc.prems in auto)
qed simp

lemma close_in_hand: "winrm_close_shell A t = (t', r) \<Longrightarrow> in_hand A w0 t \<Longrightarrow> in_hand A w0 t'"
  by (cases "wt_shell t") (auto simp: winrm_close_shell_def take_shell_def in_hand_def split_beta)

lemma winrm_transport_simps [simp]:
  "send_fragment (winrm_psrp_transport A show_uuid n) = winrm_send_fragment A"
  "send_pipeline_fragment (winrm_psrp_transport A show_uuid n) = (\<lambda>bs _. winrm_send_fragment A bs)"
  "execute_pipeline (winrm_psrp_transport A show_uuid n) = winrm_execute_pipeline A show_uuid"
  "recv_chunk (winrm_psrp_transport A show_uuid n) = winrm_recv_chunk A n"
  "signal_stop (winrm_psrp_transport A show_uuid n) = winrm_signal_stop A"
  "close_shell (winrm_psrp_transport A show_uuid n) = winrm_close_shell A"
  by (simp_all add: winrm_psrp_transport_def with_defaults_def)

interpretation over_winrm: pool_traffic "E\<lparr>wire := winrm_psrp_transport A show_uuid n\<rparr>" "\<lambda>_ _. True" "\<lambda>_. True"
    "\<lambda>_. True" "\<lambda>t _ _. in_hand A w0 t"
  for E A show_uuid n w0
  by unfold_locales
    (auto simp: winrm_recv_chunk_def intro: send_in_hand execute_in_hand close_in_hand recv_in_hand)

lemma in_hand_I: "over_winrm.I A w0 p = in_hand A w0 (link p)"
  by (simp add: over_winrm.I_def)

lemma signal_stop_in_hand:
  assumes "signal_transport_stop (E\<lparr>wire := winrm_psrp_transport A show_uuid n\<rparr>) p = (p', r)" "in_hand A w0 (link p)"
  shows "in_hand A w0 (link p')"
  using assms by (auto simp: signal_transport_stop_def intro: signal_in_hand split: prod.splits)

lemma run_loop_in_hand:
  "run_loop (E\<lparr>wire := winrm_psrp_transport A show_uuid n\<rparr>) dbg pid rpid ts sg r p = (p', x) \<Longrightarrow> in_hand A w0 (link p)
    \<Longrightarrow> in_hand A w0 (link p')"
proof (induction ts arbitrary: sg r p)
  case (Cons t ts)
  let ?E = "E\<lparr>wire := winrm_psrp_transport A show_uuid n\<rparr>"
  obtain p1 a where first: "(if \<not> sg \<and> already t then signal_transport_stop ?E p else (p, Inr ())) = (p1, a)" by fastforce
  then have p1: "in_hand A w0 (link p1)" using Cons.prems(2) signal_stop_in_hand by (auto split: if_splits)
  obtain p2 b where pulled: "next_message ?E (pumped t) p1 = (p2, b)" by fastforce
  with p1 have p2: "in_hand A w0 (link p2)" using over_winrm.next_message_I in_hand_I by metis
  obtain p3 d where stopped: "signal_transport_stop ?E p2 = (p3, d)" by fastforce
  with p2 have p3: "in_hand A w0 (link p3)" using signal_stop_in_hand by metis
  show ?case
    using Cons.prems(1) p1 p2 p3 Cons.IH [OF _ p2] Cons.IH [OF _ p3]
    by (auto simp: first pulled stopped Let_def split: sum.splits option.splits outcome.splits if_splits)
qed simp

lemma run_all_in_hand:
  assumes "run_all_streams (E\<lparr>wire := winrm_psrp_transport A show_uuid n\<rparr>) dbg fresh fs pl p = (p', x)" "in_hand A w0 (link p)"
  shows "in_hand A w0 (link p')"
proof -
  let ?E = "E\<lparr>wire := winrm_psrp_transport A show_uuid n\<rparr>"
  obtain q y where sent: "send_pipeline_message ?E CreatePipeline (pid_of fresh pl) (create_pipeline_xml (codec E) pl) p = (q, y)"
    by fastforce
  have "in_hand A w0 (link q)" using over_winrm.send_pipeline_I [OF sent] assms(2) by (simp add: in_hand_I)
  with assms run_loop_in_hand show ?thesis
    by (auto simp: run_all_streams_def run_all_streams_with_cancel_def Let_def sent split: sum.splits if_splits)
qed

lemma opened_in_hand:
  assumes "open_winrm_pool (E\<lparr>wire := winrm_psrp_transport A show_uuid n\<rparr>) A open_shell f rpid server h = Some (Inr p)"
  shows "\<exists>creation w0. open_shell server creation = Inr w0 \<and> in_hand A w0 (link p)"
proof -
  let ?E = "E\<lparr>wire := winrm_psrp_transport A show_uuid n\<rparr>"
  obtain rpid' creation t where made: "winrm_open A open_shell server creation = Inr t"
    "open_from_transport ?E f t rpid' 1 1 h = Some (Inr p)"
    using assms by (auto simp: open_winrm_pool_def split: sum.splits)
  then obtain w0 where w0: "open_shell server (base64_encode creation) = Inr w0" "t = winrm_attached A w0"
    by (auto simp: winrm_open_def split: sum.splits)
  obtain m u where drained: "drain_until_opened (without_host ?E) f (fresh_pool t h m 3 None) = (p, Some (Inr u))"
    using made(2) by (auto simp: open_from_transport_def open_from_transport_with_host_def split: sum.splits prod.splits option.splits)
  have "in_hand A w0 (link (fresh_pool t h m 3 None))"
    by (simp add: w0(2) fresh_pool_def winrm_attached_def in_hand_def run_new)
  moreover have "without_host ?E = (without_host E)\<lparr>wire := winrm_psrp_transport A show_uuid n\<rparr>"
    by (simp add: without_host_def)
  ultimately have "in_hand A w0 (link p)"
    using over_winrm.drain_I drained in_hand_I by metis
  with w0(1) show ?thesis by blast
qed

text \<open>
  C35: a blocking call closes the shell it opened.  Whatever the script did (completed, failed, broke the
  connection), when a call that had opened its pool returns, the pool is closed, no Receive is left in flight,
  and the shell that opening gave it, as the calls since have left it, was closed, exactly once.  (A call
  that does not get as far as an opened pool returns an error; a shell it has created by then is not closed.)
\<close>

theorem blocking_call_closes_its_shell:
  "let E' = E\<lparr>wire := winrm_psrp_transport A show_uuid n\<rparr> in
   case blocking_run_pipeline rt E' A open_shell f rpid server h dbg fresh fs pl of
     (Some p, Some r) \<Rightarrow> pool_closed p \<and> wt_shell (link p) = None \<and> parked (link p) = None
       \<and> (\<exists>creation w0 w. open_shell server creation = Inr w0 \<and> shell_run A w0 w
            \<and> wt_ended (link p) = [fst (sh_close A w)])
   | (None, Some r) \<Rightarrow> \<exists>e. r = Inl e
   | (_, None) \<Rightarrow> True"
proof -
  let ?E = "E\<lparr>wire := winrm_psrp_transport A show_uuid n\<rparr>"
  note defs = blocking_run_pipeline_def block_on_def run_and_close_def Let_def
  show ?thesis
  proof (cases "open_winrm_pool ?E A open_shell f rpid server h")
    case (Some attempt)
    then show ?thesis
    proof (cases attempt)
      case (Inr p)
      obtain q x where run: "run_all_streams ?E dbg fresh fs pl p = (q, x)" by fastforce
      obtain p' y where closed: "pool_close ?E q = (p', y)" by fastforce
      have "\<not> pool_closed p" using Some Inr by (intro opened_not_closed) simp
      then have "\<not> pool_closed q"
        using run_all_same [of p ?E dbg fresh fs pl] run by (simp add: same_machine_def)
      then have gone: "pool_closed p' \<and> wt_shell (link p') = None \<and> parked (link p') = None"
        using close_takes_the_shell [of ?E A show_uuid n q] closed by simp
      obtain creation w0 where opened: "open_shell server creation = Inr w0" "in_hand A w0 (link p)"
        using opened_in_hand Some Inr by metis
      have "in_hand A w0 (link q)" by (rule run_all_in_hand [OF run opened(2)])
      then have "in_hand A w0 (link p')" using over_winrm.close_I [OF closed] by (simp add: in_hand_I)
      with gone opened(1) have "\<exists>creation w0 w. open_shell server creation = Inr w0 \<and> shell_run A w0 w
          \<and> wt_ended (link p') = [fst (sh_close A w)]" by (auto simp: in_hand_def)
      with gone Some Inr run closed show ?thesis
        by (auto simp: defs split: sum.split option.split)
    qed (simp add: defs split: sum.split)
  qed (simp add: defs split: sum.split)
qed

end
