(* ===== verification/Run_Messages.thy ===== *)
theory Run_Messages
  imports Pipeline_Properties
begin

text \<open>
  What a run makes of everything the server sends meanwhile: the messages of its own pipeline, those of
  others, and the host calls, which the pool answers for all of them.
\<close>

section \<open>What answering leaves alone\<close>

text \<open>
  Between \<open>p\<close> and \<open>p'\<close> at most one message was sent: what the server has sent is still to come, and a
  response may have been parked only while there is no session key.
\<close>

definition answered_from :: "(mock, 'h) pool \<Rightarrow> (mock, 'h) pool \<Rightarrow> bool" where
  "answered_from p p' \<longleftrightarrow> session_key p' = session_key p
     \<and> (deferred_host_responses p' = deferred_host_responses p \<or> session_key p = None)
     \<and> pending_messages p' = pending_messages p \<and> reasm p' = reasm p
     \<and> inbox (link p') = inbox (link p) \<and> fail_recv (link p') = fail_recv (link p) \<and> \<not> fail_send (link p')
     \<and> unat (next_object_id p') \<le> Suc (unat (next_object_id p))"

lemma answered_from_queued: "answered_from p p' \<Longrightarrow> queued K p ms \<Longrightarrow> queued K p' ms"
  by (auto simp: answered_from_def queued_def coming_def)

lemma answered_from_updates [simp]:
  "answered_from (p\<lparr>host_state := h\<rparr>) p' = answered_from p p'"
  "answered_from (p\<lparr>keys_made := n\<rparr>) p' = answered_from p p'"
  "answered_from p (p'\<lparr>pending_client_key := ck\<rparr>) = answered_from p p'"
  "session_key p = None \<Longrightarrow> answered_from p (p'\<lparr>deferred_host_responses := ds\<rparr>) = answered_from p p'"
  by (auto simp: answered_from_def)

lemma post_receives:
  "post E call msg p = (p', r) \<Longrightarrow> call = mock_send \<or> call = (\<lambda>bs. mock_send_pipeline bs pid)
    \<Longrightarrow> fail_recv (link p') = fail_recv (link p)"
  by (auto simp: post_def Let_def mock_send_def mock_send_pipeline_def split: prod.splits sum.splits if_splits)

lemma one_more_id: "n' = n + 1 \<Longrightarrow> unat n' \<le> Suc (unat n)" for n :: u64
  by (simp add: unat_word_ariths(1))

lemma send_answered:
  assumes "send_pipeline_message (mock_env K H C gen) mt pid body p = (p', r)"
    "unat (next_object_id p) < 2 ^ 64 - 1" "\<not> fail_send (link p)"
  shows "r = Inr () \<and> answered_from p p'"
proof -
  have "fail_recv (link p') = fail_recv (link p)"
    using assms(1) post_receives [of "mock_env K H C gen" mock_send _ p p' r pid]
      post_receives [of "mock_env K H C gen" "\<lambda>bs. mock_send_pipeline bs pid" _ p p' r pid]
    by (cases "mt = CreatePipeline") (auto simp: send_pipeline_message_def)
  with send_pipeline_outbox [OF assms] one_more_id show ?thesis by (auto simp: answered_from_def)
qed

lemma send_psrp_answered:
  assumes "send_psrp_message (mock_env K H C gen) mt body p = (p', r)"
    "unat (next_object_id p) < 2 ^ 64 - 1" "\<not> fail_send (link p)"
  shows "r = Inr () \<and> answered_from p p'"
proof -
  have "fail_recv (link p') = fail_recv (link p)"
    using assms(1) post_receives [of "mock_env K H C gen" mock_send _ p p' r]
    by (auto simp: send_psrp_message_def)
  with send_psrp_outbox [OF assms] one_more_id show ?thesis by (auto simp: answered_from_def)
qed

lemma exchange_answered:
  assumes "start_exchange_unless_pending (mock_env K H C gen) p = (p', r)" "\<exists>ck. gen (keys_made p) = Inr ck"
    "unat (next_object_id p) < 2 ^ 64 - 1" "\<not> fail_send (link p)"
  shows "r = Inr () \<and> answered_from p p'"
proof (cases "pending_client_key p")
  case None
  obtain ck where ck: "gen (keys_made p) = Inr ck" using assms(2) by blast
  obtain p1 x where s: "send_psrp_message (mock_env K H C gen) PublicKey (clixml_of K (PsObject
      (object_with object_new (lit ''PublicKey'') (PsString (public_blob_base64 ck)))))
      (p\<lparr>keys_made := Suc (keys_made p)\<rparr>) = (p1, x)" by fastforce
  from send_psrp_answered [OF s] assms(3,4) have "x = Inr ()" "answered_from p p1" by simp_all
  with assms(1) None ck s show ?thesis
    by (auto simp: start_exchange_unless_pending_def fresh_key_def start_exchange_def)
qed (use assms in \<open>auto simp: start_exchange_unless_pending_def answered_from_def\<close>)

lemma answer_answered:
  assumes "answer_host_call (mock_env K H C gen) msg ci mi v p = (p', r)" "\<exists>ck. gen (keys_made p) = Inr ck"
    "unat (next_object_id p) < 2 ^ 64 - 1" "\<not> fail_send (link p)"
  shows "r = Inr () \<and> answered_from p p'"
proof (cases "contains_secure_string v \<and> session_key p = None")
  case True
  obtain p1 x where s: "start_exchange_unless_pending (mock_env K H C gen) p = (p1, x)" by fastforce
  from exchange_answered [OF s assms(2-4)] True assms(1) s show ?thesis
    by (auto simp: answer_host_call_def ensure_key_exchange_started_def)
next
  case False
  with assms(1) show ?thesis
    using send_answered [OF _ assms(3,4)]
    by (auto simp: answer_host_call_def Let_def split: if_splits option.splits)
qed

lemma host_call_answered_from:
  assumes "handle_host_call (mock_env K H C gen) msg p = (p', r)" "parse_host_call K (msg_data msg) = Inr call"
    "\<exists>ck. gen (keys_made p) = Inr ck" "unat (next_object_id p) < 2 ^ 64 - 1" "\<not> fail_send (link p)"
  shows "r = Inr () \<and> answered_from p p'"
proof -
  obtain h x where d: "dispatch_host_call H (host_method_from_i64 (hc_mi call)) (hc_mp call) (host_state p) = (h, x)"
    by fastforce
  show ?thesis
  proof (cases x)
    case (Inl e)
    with assms(1,2) d have "send_pipeline_message (mock_env K H C gen) (response_type_of (msg_type msg)) (msg_pid msg)
        (build_host_response_error_body K (hc_ci call) (hc_mi call) (display winrm_display e))
        (p\<lparr>host_state := h\<rparr>) = (p', r)" by (simp add: handle_host_call_def)
    from send_answered [OF this] assms(4,5) show ?thesis by simp
  next
    case (Inr y)
    show ?thesis
    proof (cases y)
      case None
      with assms d Inr show ?thesis by (auto simp: handle_host_call_def answered_from_def)
    next
      case (Some v)
      with assms(1,2) d Inr have "answer_host_call (mock_env K H C gen) msg (hc_ci call) (hc_mi call) v
          (p\<lparr>host_state := h\<rparr>) = (p', r)" by (simp add: handle_host_call_def)
      from answer_answered [OF this] assms(3-5) show ?thesis by simp
    qed
  qed
qed

section \<open>One turn of the pump\<close>

definition is_host_call :: "psrp_message \<Rightarrow> bool" where
  "is_host_call m \<longleftrightarrow> msg_type m = RunspacePoolHostCall \<or> msg_type m = PipelineHostCall"

definition readable_call :: "codec_env \<Rightarrow> psrp_message \<Rightarrow> bool" where
  "readable_call K m \<longleftrightarrow> is_host_call m \<and> (\<exists>call. parse_host_call K (msg_data m) = Inr call)"

text \<open>With messages to come, \<open>p\<close> has room for an object id for each of them.\<close>

definition ready_for :: "codec_env \<Rightarrow> (mock, 'h) pool \<Rightarrow> psrp_message list \<Rightarrow> bool" where
  "ready_for K p ms \<longleftrightarrow> queued K p ms \<and> \<not> fail_send (link p) \<and> unat (next_object_id p) + length ms < 2 ^ 64 - 1"

lemma buffered_last:
  assumes "ready_for K p (m # ms)" "pending_messages p \<noteq> []"
  shows "last (pending_messages p) = m" "ready_for K (p\<lparr>pending_messages := butlast (pending_messages p)\<rparr>) ms"
    "next_message (mock_env K H C gen) (Suc f) p =
      (case take_message (mock_env K H C gen) m (p\<lparr>pending_messages := butlast (pending_messages p)\<rparr>) of
         (p, Inl e) \<Rightarrow> (p, Some (Inl e))
       | (p, Inr (Some msg)) \<Rightarrow> (p, Some (Inr msg))
       | (p, Inr None) \<Rightarrow> next_message (mock_env K H C gen) f p)"
proof -
  obtain q x where pend: "pending_messages p = q @ [x]" using assms(2) by (metis rev_exhaust)
  have c: "coming K p (inbox (link p)) (m # ms)" using assms(1) by (simp add: ready_for_def queued_def)
  with pend have x: "x = m" by (auto simp: coming_def)
  with pend show "last (pending_messages p) = m" by simp
  show "ready_for K (p\<lparr>pending_messages := butlast (pending_messages p)\<rparr>) ms"
    using assms(1) pend x by (auto simp: ready_for_def queued_def coming_def)
  show "next_message (mock_env K H C gen) (Suc f) p =
      (case take_message (mock_env K H C gen) m (p\<lparr>pending_messages := butlast (pending_messages p)\<rparr>) of
         (p, Inl e) \<Rightarrow> (p, Some (Inl e))
       | (p, Inr (Some msg)) \<Rightarrow> (p, Some (Inr msg))
       | (p, Inr None) \<Rightarrow> next_message (mock_env K H C gen) f p)"
    using pend x coming_flush [OF c] by simp
qed

lemma answered_from_ready:
  "answered_from p p' \<Longrightarrow> ready_for K p ms \<Longrightarrow> unat (next_object_id p) + Suc (length ms) < 2 ^ 64 - 1 \<Longrightarrow> ready_for K p' ms"
  using answered_from_queued [of p p' K ms] by (auto simp: ready_for_def answered_from_def)

lemma chunk_read:
  assumes "ready_for K p (m # ms)" "pending_messages p = []"
  obtains p' where "next_message (mock_env K H C gen) (Suc f) p = next_message (mock_env K H C gen) f p'"
    "ready_for K p' (m # ms)" "Suc (length (inbox (link p'))) = length (inbox (link p))"
proof -
  have c: "coming K p (inbox (link p)) (m # ms)" "fail_recv (link p) = None"
    using assms(1) by (simp_all add: ready_for_def queued_def)
  from mock_source.coming_read [of K H C gen p "inbox (link p)" m ms] c assms(2)
  obtain b bs p' where p': "inbox (link p) = b # bs" "read_chunk (mock_env K H C gen) p = (p', Some (Inr None))"
    "coming K p' bs (m # ms)" "fail_recv (link p') = None" "inbox (link p') = bs" by auto
  have "next_object_id p' = next_object_id p \<and> fail_send (link p') = fail_send (link p)"
    using p'(2) by (auto simp: read_chunk_def Let_def mock_recv_def split: option.splits list.splits
        prod.splits sum.splits if_splits)
  with assms(1) p' have "ready_for K p' (m # ms)" by (simp add: ready_for_def queued_def)
  moreover have "next_message (mock_env K H C gen) (Suc f) p = next_message (mock_env K H C gen) f p'"
    using assms(2) p'(2) coming_flush [OF c(1)] by simp
  ultimately show thesis using that p'(1,5) by simp
qed

text \<open>
  The pump answers the readable host calls and hands on the first message that is none; a host call that
  cannot be read ends the call with the error of reading it.
\<close>

lemma pumped:
  assumes "ready_for K p ms" "ms \<noteq> []" "\<not> is_host_call (last ms)" "\<forall>m\<in>set ms. msg_type m \<noteq> EncryptedSessionKey"
    "length (inbox (link p)) + length ms \<le> f" "\<forall>i. \<exists>ck. gen i = Inr ck"
  obtains
    (handed) calls m rest p' where "ms = calls @ m # rest" "list_all (readable_call K) calls" "\<not> is_host_call m"
      "next_message (mock_env K H C gen) f p = (p', Some (Inr m))" "ready_for K p' rest"
      "length (inbox (link p')) \<le> length (inbox (link p))"
  | (unreadable) calls m rest p' e where "ms = calls @ m # rest" "list_all (readable_call K) calls" "is_host_call m"
      "parse_host_call K (msg_data m) = Inl e" "next_message (mock_env K H C gen) f p = (p', Some (Inl e))"
proof -
  let ?E = "mock_env K H C gen"
  have "(\<exists>calls m rest p'. ms = calls @ m # rest \<and> list_all (readable_call K) calls \<and> \<not> is_host_call m
      \<and> next_message ?E f p = (p', Some (Inr m)) \<and> ready_for K p' rest \<and> length (inbox (link p')) \<le> length (inbox (link p)))
    \<or> (\<exists>calls m rest p' e. ms = calls @ m # rest \<and> list_all (readable_call K) calls \<and> is_host_call m
      \<and> parse_host_call K (msg_data m) = Inl e \<and> next_message ?E f p = (p', Some (Inl e)))"
    using assms(1-5)
  proof (induction f arbitrary: p ms)
    case (Suc f)
    obtain m ms' where ms: "ms = m # ms'" using Suc.prems(2) by (cases ms) auto
    show ?case
    proof (cases "pending_messages p = []")
      case True
      obtain p1 where p1: "next_message ?E (Suc f) p = next_message ?E f p1" "ready_for K p1 ms"
        "Suc (length (inbox (link p1))) = length (inbox (link p))"
        using chunk_read [OF Suc.prems(1) [unfolded ms] True] ms by blast
      have "length (inbox (link p1)) + length ms \<le> f" using Suc.prems(5) p1(3) by linarith
      from Suc.IH [OF p1(2) Suc.prems(2-4) this] p1(3) show ?thesis
        unfolding p1(1) by (elim disjE) (fastforce, blast)
    next
      case False
      let ?p = "p\<lparr>pending_messages := butlast (pending_messages p)\<rparr>"
      note step = buffered_last [OF Suc.prems(1) [unfolded ms] False]
      have room: "unat (next_object_id ?p) < 2 ^ 64 - 1" "unat (next_object_id ?p) + Suc (length ms') < 2 ^ 64 - 1"
        "\<not> fail_send (link ?p)" "\<exists>ck. gen (keys_made ?p) = Inr ck"
        using Suc.prems(1) ms assms(6) by (simp_all add: ready_for_def)
      show ?thesis
      proof (cases "is_host_call m")
        case True
        obtain p1 r where h: "handle_host_call ?E m ?p = (p1, r)" by fastforce
        show ?thesis
        proof (cases "parse_host_call K (msg_data m)")
          case (Inl e)
          then have "next_message ?E (Suc f) p = (?p, Some (Inl e))"
            using True by (simp add: step(3) take_message_def is_host_call_def handle_host_call_def del: next_message.simps)
          with Inl True ms show ?thesis
            by (intro disjI2 exI [of _ "[]"] exI [of _ m] exI [of _ ms']) auto
        next
          case (Inr call)
          from host_call_answered_from [OF h Inr room(4,1,3)] have p1: "r = Inr ()" "answered_from ?p p1" by simp_all
          have next1: "next_message ?E (Suc f) p = next_message ?E f p1"
            using True h p1(1) by (simp add: step(3) take_message_def is_host_call_def del: next_message.simps)
          have ready: "ready_for K p1 ms'" by (rule answered_from_ready [OF p1(2) step(2) room(2)])
          have ms': "ms' \<noteq> []" using Suc.prems(3) True ms by auto
          have same: "inbox (link p1) = inbox (link p)" using p1(2) by (simp add: answered_from_def)
          have "readable_call K m" using True Inr by (simp add: readable_call_def)
          moreover note Suc.IH [OF ready ms', unfolded same]
          ultimately show ?thesis
            using Suc.prems(3-5) ms ms' unfolding next1
            by (elim meta_impE disjE) (simp_all, (metis append_Cons list.pred_inject(2))+)
        qed
      next
        case False
        obtain p1 where p1: "take_message ?E m ?p = (p1, Inr (Some m))" "answered_from ?p p1"
        proof (cases "msg_type m = PublicKeyRequest")
          case True
          obtain p1 r where s: "start_exchange_unless_pending ?E ?p = (p1, r)" by fastforce
          from exchange_answered [OF s room(4,1,3)] that [of p1] s True show ?thesis
            by (simp add: take_message_def)
        next
          case other: False
          have "answered_from ?p ?p" using room(3) by (simp add: answered_from_def)
          with that [of ?p] other False Suc.prems(4) ms show ?thesis
            by (simp add: take_message_def is_host_call_def)
        qed
        have "next_message ?E (Suc f) p = (p1, Some (Inr m))" by (simp add: step(3) p1(1) del: next_message.simps)
        moreover have "ready_for K p1 ms'" by (rule answered_from_ready [OF p1(2) step(2) room(2)])
        moreover have "inbox (link p1) = inbox (link p)" using p1(2) by (simp add: answered_from_def)
        ultimately show ?thesis
          using False ms by (intro disjI1 exI [of _ "[]"] exI [of _ m] exI [of _ ms'] exI [of _ p1]) simp
      qed
    qed
  qed simp
  then show thesis using handed unreadable by blast
qed

section \<open>The run\<close>

text \<open>
  The reference: take the messages one by one until one of them settles the run.  A host call, whichever
  pipeline it is for, is answered and changes nothing, unless it cannot be read; any other message counts
  only if it is the pipeline's own.
\<close>

fun run_outcome ::
    "codec_env \<Rightarrow> (ps_value \<Rightarrow> ustr) \<Rightarrow> bool \<Rightarrow> uuid \<Rightarrow> uuid \<Rightarrow> psrp_message list \<Rightarrow> pipeline_result
     \<Rightarrow> pipeline_result res option" where
  "run_outcome K dbg sg pid rpid [] r = None"
| "run_outcome K dbg sg pid rpid (m # ms) r =
     (if is_host_call m then
        case parse_host_call K (msg_data m) of
          Inl e \<Rightarrow> Some (Inl e)
        | Inr call \<Rightarrow> run_outcome K dbg sg pid rpid ms r
      else if own pid rpid m then
        case pipeline_message K dbg sg m r of
          Continue r' \<Rightarrow> run_outcome K dbg sg pid rpid ms r'
        | Return x \<Rightarrow> Some x
      else run_outcome K dbg sg pid rpid ms r)"

lemma run_outcome_calls:
  "list_all (readable_call K) calls \<Longrightarrow> run_outcome K dbg sg pid rpid (calls @ ms) r = run_outcome K dbg sg pid rpid ms r"
  by (induction calls) (auto simp: readable_call_def)

lemma parse_host_call_not_stopped: "parse_host_call K t \<noteq> Inl Stopped"
  using values_of_not_stopped [of K t]
  by (auto simp: parse_host_call_def rbind_def ok_or_def protocol_def split: sum.splits list.splits ps_value.splits option.splits)

lemma readable_calls_only: "list_all (readable_call K) calls \<Longrightarrow> filter (\<lambda>m. \<not> is_host_call m) calls = []"
  by (induction calls) (auto simp: readable_call_def)

lemma run_loop_outcome:
  assumes "ready_for K p ms" "ms = [] \<or> \<not> is_host_call (last ms)" "\<forall>m\<in>set ms. msg_type m \<noteq> EncryptedSessionKey"
    "length ts = length (filter (\<lambda>m. \<not> is_host_call m) ms)"
    "\<forall>t\<in>set ts. already t = c \<and> \<not> fires t \<and> length (inbox (link p)) + length ms \<le> pumped t"
    "\<forall>i. \<exists>ck. gen i = Inr ck"
  shows "snd (run_loop (mock_env K H C gen) dbg pid rpid ts sg r p) = run_outcome K dbg (sg \<or> c) pid rpid ms r"
  using assms(1-5)
proof (induction ts arbitrary: p ms sg r)
  case Nil
  then have "ms = []" by (cases ms rule: rev_cases) auto
  then show ?case by simp
next
  case (Cons t ts)
  let ?E = "mock_env K H C gen"
  have ms: "ms \<noteq> []" "\<not> is_host_call (last ms)" using Cons.prems(2,4) by auto
  have t: "already t = c" "\<not> fires t" "length (inbox (link p)) + length ms \<le> pumped t" using Cons.prems(5) by auto
  let ?p = "if \<not> sg \<and> c then p\<lparr>link := (link p)\<lparr>mock_stopped := True\<rparr>\<rparr> else p"
  have go: "(if \<not> sg \<and> already t then signal_transport_stop ?E p else (p, Inr ())) = (?p, Inr ())"
    using t(1) by (simp add: signal_transport_stop_def mock_stop_def)
  have ready: "ready_for K ?p ms" "length (inbox (link ?p)) + length ms \<le> pumped t"
    using Cons.prems(1) t(3) by (auto simp: ready_for_def queued_stop)
  from ready(1) ms Cons.prems(3) ready(2) assms(6) show ?case
  proof (cases rule: pumped [where H = H and C = C and gen = gen])
    case (handed calls m rest p1)
    have "length ts = length (filter (\<lambda>m. \<not> is_host_call m) rest)"
      using Cons.prems(4) handed(1,3) readable_calls_only [OF handed(2)] by simp
    moreover have "\<forall>t\<in>set ts. already t = c \<and> \<not> fires t \<and> length (inbox (link p1)) + length rest \<le> pumped t"
      using Cons.prems(5) handed(1,6) by (fastforce split: if_splits)
    moreover have "rest = [] \<or> \<not> is_host_call (last rest)" using ms(2) handed(1) by auto
    moreover have "\<forall>m\<in>set rest. msg_type m \<noteq> EncryptedSessionKey" using Cons.prems(3) handed(1) by simp
    ultimately have IH: "snd (run_loop ?E dbg pid rpid ts (sg \<or> c) r' p1) = run_outcome K dbg (sg \<or> c) pid rpid rest r'" for r'
      using Cons.IH [OF handed(5), of "sg \<or> c" r'] by simp
    have "run_outcome K dbg (sg \<or> c) pid rpid ms r = run_outcome K dbg (sg \<or> c) pid rpid (m # rest) r"
      unfolding handed(1) by (rule run_outcome_calls [OF handed(2)])
    then show ?thesis
      unfolding run_loop.simps go
      using handed(3,4) t(1) IH by (auto simp: own_def [of _ _ m] split: outcome.splits)
  next
    case (unreadable calls m rest p1 e)
    have "run_outcome K dbg (sg \<or> c) pid rpid ms r = Some (Inl e)"
      unfolding unreadable(1) using unreadable(3,4) by (simp add: run_outcome_calls [OF unreadable(2)])
    moreover have "e \<noteq> Stopped" using unreadable(4) parse_host_call_not_stopped by metis
    ultimately show ?thesis
      unfolding run_loop.simps go using unreadable(5) t(1) by simp
  qed
qed

lemma run_all_outcome:
  assumes "queued K p ms" "\<forall>m\<in>set ms. msg_type m \<noteq> EncryptedSessionKey" "ms = [] \<or> \<not> is_host_call (last ms)"
    and "length ts = length (filter (\<lambda>m. \<not> is_host_call m) ms)"
    and "\<forall>t\<in>set ts. already t = c \<and> \<not> fires t \<and> length (inbox (link p)) + length ms \<le> pumped t"
    and "\<forall>i. \<exists>ck. gen i = Inr ck"
    and "pl_commands pl \<noteq> []" "\<not> fail_send (link p)" "unat (next_object_id p) + Suc (length ms) < 2 ^ 64 - 1"
    and "run_all_streams_with_cancel (mock_env K H C gen) dbg fresh ts pl p = (p', result)"
  shows "result = run_outcome K dbg c (pid_of fresh pl) (pool_rpid p) ms running_result"
proof -
  let ?E = "mock_env K H C gen"
  obtain p1 r where s: "send_pipeline_message ?E CreatePipeline (pid_of fresh pl) (create_pipeline_xml K pl) p = (p1, r)"
    by fastforce
  from send_answered [OF s] assms(8,9) have p1: "r = Inr ()" "answered_from p p1" by simp_all
  have "ready_for K p ms" using assms(1,8,9) by (simp add: ready_for_def)
  with answered_from_ready [OF p1(2)] assms(9) have ready: "ready_for K p1 ms" by simp
  have "inbox (link p1) = inbox (link p)" using p1(2) by (simp add: answered_from_def)
  with run_loop_outcome [OF ready assms(3,2,4) _ assms(6), of c H C dbg "pid_of fresh pl" "pool_rpid p" False running_result] assms(5)
  have "snd (run_loop ?E dbg (pid_of fresh pl) (pool_rpid p) ts False running_result p1)
      = run_outcome K dbg c (pid_of fresh pl) (pool_rpid p) ms running_result" by simp
  then show ?thesis
    using assms(7,10) s p1(1) by (auto simp: run_all_streams_with_cancel_def Let_def)
qed

text \<open>
  C17: a run makes of what the server sends what the reference makes of it.  When messages are on their
  way to a pool, in whatever chunks, the run sends the pipeline, then takes them one by one.  Host calls are
  answered by the pool, for any pipeline, and change nothing for the run, but one that cannot be read fails it,
  even if it is another pipeline's.  Every other message of another pipeline or another pool changes nothing,
  whatever it says; the first of the pipeline's own that settles the run decides its result, and without one
  the run has not returned.  With the token cancelled before (\<open>c\<close>) the only difference is how a stop is
  reported.  Not covered are messages that bring a session key (\<open>EncryptedSessionKey\<close>), failing sends and a
  failing generation of client keys; and the last message is not a host call, since each turn of the loop ends
  with a message that is none.
\<close>

theorem run_takes_own_messages:
  assumes "queued K p ms" "\<forall>m\<in>set ms. msg_type m \<noteq> EncryptedSessionKey" "ms = [] \<or> \<not> is_host_call (last ms)"
    and "length ts = length (filter (\<lambda>m. \<not> is_host_call m) ms)"
    and "\<forall>t\<in>set ts. already t = c \<and> \<not> fires t \<and> length (inbox (link p)) + length ms \<le> pumped t"
    and "\<forall>i. \<exists>ck. gen i = Inr ck"
    and "pl_commands pl \<noteq> []" "\<not> fail_send (link p)" "unat (next_object_id p) + Suc (length ms) < 2 ^ 64 - 1"
    and "run_all_streams_with_cancel (mock_env K H C gen) dbg fresh ts pl p = (p', result)"
  shows "result = run_outcome K dbg c (pid_of fresh pl) (pool_rpid p) ms running_result"
  by (rule run_all_outcome [OF assms])

section \<open>Examples\<close>

text \<open>
  A pool that has got a state message of another pipeline, a host call of another pipeline, which is the same
  document and so cannot be read, and a state message of its own; and the same without the host call.
\<close>

definition call_for :: "uuid \<Rightarrow> psrp_message" where
  "call_for pid = (completed_for pid)\<lparr>msg_type := PipelineHostCall\<rparr>"

definition called_pool :: "psrp_message list \<Rightarrow> (mock, unit) pool" where
  "called_pool ms = (sample_pool [])\<lparr>pending_messages := rev ms\<rparr>"

definition state_codec :: codec_env where
  "state_codec = scripted_codec (document completed_members)"

lemma called_pool_queued:
  "queued state_codec (called_pool ms) ms" "\<not> fail_send (link (called_pool ms))"
  "next_object_id (called_pool ms) = 1" "pool_rpid (called_pool ms) = 7" "inbox (link (called_pool ms)) = []"
  by (simp_all add: queued_def coming_def called_pool_def sample_pool_def fresh_pool_def mock_new_def pool_rpid_def)

lemma call_unreadable: "\<exists>e. parse_host_call state_codec t = Inl e"
proof -
  have "good_members completed_members" "completed_members \<noteq> []"
    by (simp_all add: good_members_def completed_members_def small_numbers)
  moreover have "insert_members object_new completed_members = Ps_Object [(lit ''PipelineState'', PsI32 4)] [] None"
    by (simp add: completed_members_def small_numbers object_insert_def object_with_def object_new_def)
  ultimately show ?thesis
    by (simp add: state_codec_def parse_host_call_def values_of_document object_get_def ok_or_def)
qed

definition called_run :: "psrp_message list \<Rightarrow> (mock, unit) pool \<times> pipeline_result res option" where
  "called_run ms = run_all_streams_with_cancel (mock_env state_codec no_interaction_host shift_cipher (\<lambda>_. Inr broken_key))
     (\<lambda>_. []) 0 [Turn False False 3, Turn False False 3] forced (called_pool ms)"

theorem run_takes_own_messages_witness:
  "snd (called_run [completed_for 6, completed_for 5]) = Some (Inr (running_result\<lparr>res_state := PCompleted\<rparr>))
   \<and> (\<exists>e. snd (called_run [completed_for 6, call_for 6, completed_for 5]) = Some (Inl e))"
proof -
  have run: "snd (called_run ms) = run_outcome state_codec (\<lambda>_. []) False 5 7 ms running_result"
    if "ms = [completed_for 6, completed_for 5] \<or> ms = [completed_for 6, call_for 6, completed_for 5]" for ms
  proof -
    obtain p' x where r: "called_run ms = (p', x)" by fastforce
    from run_takes_own_messages [OF called_pool_queued(1) _ _ _ _ _ _ called_pool_queued(2) _ r [unfolded called_run_def], of False]
      that r show ?thesis
      by (auto simp: called_pool_queued is_host_call_def call_for_def completed_for_def)
  qed
  have kinds: "\<not> is_host_call (completed_for pid)" "is_host_call (call_for pid)" "own 5 7 (completed_for 5)"
    "\<not> own 5 7 (completed_for 6)" for pid
    by (simp_all add: is_host_call_def call_for_def completed_for_def own_def)
  have "pipeline_message state_codec (\<lambda>_. []) False (completed_for 5) running_result
      = Return (Inr (running_result\<lparr>res_state := PCompleted\<rparr>))"
    by (simp add: pipeline_message_def completed_for_def completed_read state_codec_def pipeline_terminal_def)
  with run kinds call_unreadable [of "msg_data (call_for 6)"] show ?thesis by auto
qed

end
