(* ===== verification/Fuzz_Values.thy ===== *)
theory Fuzz_Values
  imports Codec_Settles Pool
begin

text \<open>
  The value generators of the fuzz targets and their comparison (\<open>src/fuzz/src/lib.rs\<close>).  The
  \<open>Unstructured\<close> input of the \<open>arbitrary\<close> crate is a record of functions on a state \<open>'u\<close>;
  \<open>unstructured_laws\<close> says that what it gives is of the Rust type asked for.
\<close>

section \<open>The input\<close>

record 'u unstructured =
  u_is_empty :: "'u \<Rightarrow> bool"
  u_range :: "nat \<Rightarrow> nat \<Rightarrow> 'u \<Rightarrow> 'u \<times> (unit + nat)"
  u_bool :: "'u \<Rightarrow> 'u \<times> (unit + bool)"
  u_bits :: "nat \<Rightarrow> 'u \<Rightarrow> 'u \<times> (unit + nat)"
  u_char :: "'u \<Rightarrow> 'u \<times> (unit + uchar)"
  u_string :: "'u \<Rightarrow> 'u \<times> (unit + ustr)"
  u_vec :: "'u \<Rightarrow> 'u \<times> (unit + bytes)"

locale unstructured_laws =
  fixes A :: "'u unstructured"
  assumes range_bounds: "u_range A lo hi u = (u', Inr n) \<Longrightarrow> lo \<le> hi \<Longrightarrow> lo \<le> n \<and> n \<le> hi"
    and char_scalar: "u_char A u = (u', Inr c) \<Longrightarrow> scalar c"
    and string_valid: "u_string A u = (u', Inr s) \<Longrightarrow> valid_str s"

text \<open>An input that always answers the least possible, and one that answers from a list.\<close>

definition listed :: "nat list unstructured" where
  "listed = \<lparr>u_is_empty = (\<lambda>u. u = []),
     u_range = (\<lambda>lo hi u. (tl u, Inr (if u = [] then lo else lo + hd u mod Suc (hi - lo)))),
     u_bool = (\<lambda>u. (tl u, Inr (u \<noteq> [] \<and> odd (hd u)))), u_bits = (\<lambda>n u. (tl u, Inr (if u = [] then 0 else hd u mod 2 ^ n))),
     u_char = (\<lambda>u. (tl u, Inr (if u = [] then 0 else hd u mod 55296))),
     u_string = (\<lambda>u. (tl u, Inr (if u = [] then [] else [hd u mod 55296]))),
     u_vec = (\<lambda>u. (tl u, Inr (if u = [] then [] else [word_of_nat (hd u)])))\<rparr>"

interpretation listed: unstructured_laws listed
proof
  show "lo \<le> n \<and> n \<le> hi" if "u_range listed lo hi u = (u', Inr n)" "lo \<le> hi" for lo hi n and u u' :: "nat list"
  proof -
    obtain r where r: "r = hd u mod Suc (hi - lo)" by blast
    then have "r < Suc (hi - lo)" by simp
    moreover have "n = (if u = [] then lo else lo + r)" using that(1) r by (auto simp: listed_def)
    ultimately show ?thesis using that(2) by (auto split: if_splits)
  qed
qed (auto simp: listed_def scalar_def split: if_splits)

section \<open>Generators\<close>

definition MAX_DEPTH :: nat where "MAX_DEPTH = 6"

definition SAFE_CHARS :: ustr where
  "SAFE_CHARS = lit ''abcdefghijklmnopqrstuvwxyzABCDEFGHIJKLMNOPQRSTUVWXYZ0123456789 .-/:+<>&'' @ [0x22, 0x27]
     @ lit ''_x'' @ [9, 10, 13]"

text \<open>Repeat a generator and collect what it gives.\<close>

fun repeated :: "nat \<Rightarrow> ('u \<Rightarrow> 'u \<times> (unit + 'a)) \<Rightarrow> 'u \<Rightarrow> 'u \<times> (unit + 'a list)" where
  "repeated 0 gen u = (u, Inr [])"
| "repeated (Suc n) gen u = sbind (gen u) (\<lambda>x u. sbind (repeated n gen u) (\<lambda>xs u. (u, Inr (x # xs))))"

definition given :: "('a \<Rightarrow> 'b) \<Rightarrow> 'u \<times> (unit + 'a) \<Rightarrow> 'u \<times> (unit + 'b)" where
  "given f r = map_prod id (map_sum id f) r"

definition gen_string :: "'u unstructured \<Rightarrow> bool \<Rightarrow> 'u \<Rightarrow> 'u \<times> (unit + ustr)" where
  "gen_string A safe u =
     (if \<not> safe then u_string A u
      else sbind (u_range A 0 16 u) (\<lambda>len. repeated len (\<lambda>u.
        sbind (u_range A 0 3 u) (\<lambda>n u.
          if n = 0 then u_char A u
          else given (\<lambda>idx. SAFE_CHARS ! idx) (u_range A 0 (length SAFE_CHARS - 1) u)))))"

definition gen_char :: "'u unstructured \<Rightarrow> bool \<Rightarrow> 'u \<Rightarrow> 'u \<times> (unit + uchar)" where
  "gen_char A safe u =
     (if \<not> safe then u_char A u
      else given (\<lambda>n. if n < 0xD800 then n else n + 0x800) (u_range A 0 (0xFFFF - 0x800) u))"

definition gen_decimal :: "'u unstructured \<Rightarrow> bool \<Rightarrow> 'u \<Rightarrow> 'u \<times> (unit + ustr)" where
  "gen_decimal A safe u = given (\<lambda>s. if safe then trim s else s) (gen_string A safe u)"

text \<open>The scalars, by the number drawn; \<open>22\<close> is the last.\<close>

definition gen_scalar :: "'u unstructured \<Rightarrow> bool \<Rightarrow> nat \<Rightarrow> 'u \<Rightarrow> 'u \<times> (unit + ps_value)" where
  "gen_scalar A safe n u =
     (if n = 0 then (u, Inr PsNull)
      else if n = 1 then given PsBool (u_bool A u)
      else if n = 2 then given (\<lambda>w. PsI8 (word_of_nat w)) (u_bits A 8 u)
      else if n = 3 then given (\<lambda>w. PsU8 (word_of_nat w)) (u_bits A 8 u)
      else if n = 4 then given (\<lambda>w. PsI16 (word_of_nat w)) (u_bits A 16 u)
      else if n = 5 then given (\<lambda>w. PsU16 (word_of_nat w)) (u_bits A 16 u)
      else if n = 6 then given (\<lambda>w. PsI32 (word_of_nat w)) (u_bits A 32 u)
      else if n = 7 then given (\<lambda>w. PsU32 (word_of_nat w)) (u_bits A 32 u)
      else if n = 8 then given (\<lambda>w. PsI64 (word_of_nat w)) (u_bits A 64 u)
      else if n = 9 then given (\<lambda>w. PsU64 (word_of_nat w)) (u_bits A 64 u)
      else if n = 10 then given (\<lambda>w. PsF32 (word_of_nat w)) (u_bits A 32 u)
      else if n = 11 then given (\<lambda>w. PsDouble (word_of_nat w)) (u_bits A 64 u)
      else if n = 12 then given PsDecimal (gen_decimal A safe u)
      else if n = 13 then given PsChar (gen_char A safe u)
      else if n = 14 then given PsString (gen_string A safe u)
      else if n = 15 then given PsBytes (u_vec A u)
      else if n = 16 then given PsDateTime (gen_string A safe u)
      else if n = 17 then given PsDuration (gen_string A safe u)
      else if n = 18 then given (\<lambda>w. PsGuid (word_of_nat w)) (u_bits A 128 u)
      else if n = 19 then given PsVersion (gen_string A safe u)
      else if n = 20 then given PsUri (gen_string A safe u)
      else if n = 21 then given PsXml (gen_string A safe u)
      else given PsScriptBlock (gen_string A safe u))"

text \<open>One property of an object: its name, then its value from \<open>gen\<close>.\<close>

definition gen_property ::
    "'u unstructured \<Rightarrow> bool \<Rightarrow> ('u \<Rightarrow> 'u \<times> (unit + ps_value)) \<Rightarrow> 'u \<Rightarrow> 'u \<times> (unit + ustr \<times> ps_value)" where
  "gen_property A safe gen u =
     sbind (gen_string A safe u) (\<lambda>name u.
       given (Pair (if safe \<and> name = VALUE_KEY then name @ [120] else name)) (gen u))"

definition gen_object ::
    "'u unstructured \<Rightarrow> bool \<Rightarrow> ('u \<Rightarrow> 'u \<times> (unit + ps_value)) \<Rightarrow> 'u \<Rightarrow> 'u \<times> (unit + ps_object)" where
  "gen_object A safe gen u =
     sbind (u_range A 0 2 u) (\<lambda>tn u.
     sbind (repeated tn (gen_string A safe) u) (\<lambda>names u.
     sbind (u_range A 0 4 u) (\<lambda>n u.
     sbind (repeated n (gen_property A safe gen) u) (\<lambda>props u.
     sbind (if safe then (u, Inr False) else u_bool A u) (\<lambda>shown u.
     sbind (if shown then given Some (gen_string A safe u) else (u, Inr None)) (\<lambda>ts u.
       (u, Inr (Ps_Object (foldl (\<lambda>ps p. imap_insert (fst p) (snd p) ps) [] props) names ts))))))))"

text \<open>\<open>gen_value\<close> within \<open>d\<close> levels of containers; below them only scalars are drawn.\<close>

primrec gen_value :: "nat \<Rightarrow> 'u unstructured \<Rightarrow> bool \<Rightarrow> 'u \<Rightarrow> 'u \<times> (unit + ps_value)" where
  "gen_value 0 A safe u = sbind (u_range A 0 22 u) (\<lambda>n. gen_scalar A safe n)"
| "gen_value (Suc d) A safe u =
     sbind (u_range A 0 (if u_is_empty A u then 22 else 25) u) (\<lambda>n u.
       if n \<le> 22 then gen_scalar A safe n u
       else if n = 23 then
         sbind (u_range A 0 4 u) (\<lambda>k u. given PsList (repeated k (gen_value d A safe) u))
       else if n = 24 then
         sbind (u_range A 0 3 u) (\<lambda>k u. given PsDict (repeated k (\<lambda>u.
           sbind (gen_value d A safe u) (\<lambda>key u. given (Pair key) (gen_value d A safe u))) u))
       else given PsObject (gen_object A safe (gen_value d A safe) u))"

definition arb_value :: "'u unstructured \<Rightarrow> 'u \<Rightarrow> 'u \<times> (unit + ps_value)" where
  "arb_value A u = gen_value MAX_DEPTH A False u"

definition safe_value :: "'u unstructured \<Rightarrow> 'u \<Rightarrow> 'u \<times> (unit + ps_value)" where
  "safe_value A u = gen_value MAX_DEPTH A True u"

section \<open>Round-trip semantics\<close>

fun normalize :: "ps_value \<Rightarrow> ps_value" where
  "normalize (PsList vs) = wrapped (PsList (map (\<lambda>v. normalize v) vs))"
| "normalize (PsDict es) = wrapped (PsDict (map (\<lambda>kv. (normalize (fst kv), normalize (snd kv))) es))"
| "normalize (PsObject (Ps_Object props names ts)) =
     PsObject (Ps_Object (map (\<lambda>p. (fst p, normalize (snd p))) props) names None)"
| "normalize v = v"

text \<open>Floats are compared as numbers: no NaN equals anything, and the two zeros are equal.\<close>

definition is_nan32 :: "u32 \<Rightarrow> bool" where
  "is_nan32 w \<longleftrightarrow> w AND 0x7F800000 = 0x7F800000 \<and> w AND 0x007FFFFF \<noteq> 0"

definition eq_f64 :: "u64 \<Rightarrow> u64 \<Rightarrow> bool" where
  "eq_f64 x y \<longleftrightarrow> \<not> is_nan x \<and> \<not> is_nan y \<and> (x = y \<or> (push_bit 1 x = 0 \<and> push_bit 1 y = 0))"

definition eq_f32 :: "u32 \<Rightarrow> u32 \<Rightarrow> bool" where
  "eq_f32 x y \<longleftrightarrow> \<not> is_nan32 x \<and> \<not> is_nan32 y \<and> (x = y \<or> (push_bit 1 x = 0 \<and> push_bit 1 y = 0))"

function eq_lossy :: "ps_value \<Rightarrow> ps_value \<Rightarrow> bool" where
  "eq_lossy v w =
     (case v of
        PsDouble x \<Rightarrow> (case w of PsDouble y \<Rightarrow> eq_f64 x y \<or> is_nan x \<and> is_nan y | _ \<Rightarrow> False)
      | PsF32 x \<Rightarrow> (case w of PsF32 y \<Rightarrow> eq_f32 x y \<or> is_nan32 x \<and> is_nan32 y | _ \<Rightarrow> False)
      | PsList xs \<Rightarrow> (case w of
          PsList ys \<Rightarrow> length xs = length ys \<and> list_all (\<lambda>(p, q). eq_lossy p q) (zip xs ys) | _ \<Rightarrow> False)
      | PsDict xs \<Rightarrow> (case w of
          PsDict ys \<Rightarrow> length xs = length ys
            \<and> list_all (\<lambda>(p, q). eq_lossy (fst p) (fst q) \<and> eq_lossy (snd p) (snd q)) (zip xs ys) | _ \<Rightarrow> False)
      | PsObject x \<Rightarrow> (case w of
          PsObject y \<Rightarrow> type_names x = type_names y \<and> length (properties x) = length (properties y)
            \<and> list_all (\<lambda>(p, q). fst p = fst q \<and> eq_lossy (snd p) (snd q)) (zip (properties x) (properties y)) | _ \<Rightarrow> False)
      | _ \<Rightarrow> v = w)"
  by pat_completeness auto

lemma zipped_sizes:
  "(v, w) \<in> set (zip vs ws) \<Longrightarrow> size v \<le> size_list size vs"
  "((k, v), q) \<in> set (zip es ds) \<Longrightarrow> size k \<le> size_list (size_prod size size) es \<and> size v \<le> size_list (size_prod size size) es"
  "(p, q) \<in> set (zip (properties x) qs) \<Longrightarrow> size (snd p) \<le> size x"
proof -
  show "(v, w) \<in> set (zip vs ws) \<Longrightarrow> size v \<le> size_list size vs"
    by (rule size_list_estimation' [OF _ order_refl]) (rule set_zip_leftD)
  show "((k, v), q) \<in> set (zip es ds) \<Longrightarrow> size k \<le> size_list (size_prod size size) es \<and> size v \<le> size_list (size_prod size size) es"
    by (drule set_zip_leftD, drule size_entry) simp
  show "(p, q) \<in> set (zip (properties x) qs) \<Longrightarrow> size (snd p) \<le> size x"
    by (drule set_zip_leftD, drule size_member) (cases x; simp)
qed

termination eq_lossy
  by (relation "measure (\<lambda>(v, w). size v)") (auto simp: less_Suc_eq_le dest: zipped_sizes)

declare eq_lossy.simps [simp del]

end
