(* ===== verification/Fuzz_Codec.thy ===== *)
theory Fuzz_Codec
  imports Fuzz_Values
begin

text \<open>
  The two fuzz targets that send generated values through the CLIXML codec, each the conjunction of
  its assertions, and the proof that no input makes one of them fail.
\<close>

section \<open>The targets\<close>

text \<open>\<open>clixml_roundtrip.rs\<close>: a safe value comes back as \<open>normalize\<close> says.\<close>

definition fuzz_clixml_roundtrip ::
    "uuid_api \<Rightarrow> float_api \<Rightarrow> xml_reader \<Rightarrow> 'u unstructured \<Rightarrow> 'u \<Rightarrow> bool" where
  "fuzz_clixml_roundtrip U F reader A u =
     (case safe_value A u of
        (_, Inl _) \<Rightarrow> True
      | (_, Inr v) \<Rightarrow>
          (case parse_clixml U F reader (to_clixml U F v) of
             Inl e \<Rightarrow> False
           | Inr vs \<Rightarrow> length vs = 1 \<and> eq_lossy (normalize v) (vs ! 0)))"

text \<open>\<open>clixml_encode_decode.rs\<close>: the codec reaches a fixed point on any value.\<close>

definition fuzz_clixml_encode_decode ::
    "uuid_api \<Rightarrow> float_api \<Rightarrow> xml_reader \<Rightarrow> 'u unstructured \<Rightarrow> 'u \<Rightarrow> bool" where
  "fuzz_clixml_encode_decode U F reader A u =
     (case arb_value A u of
        (_, Inl _) \<Rightarrow> True
      | (_, Inr v) \<Rightarrow>
          (case parse_clixml U F reader (to_clixml U F v) of
             Inr (first # _) \<Rightarrow>
               (case parse_clixml U F reader (to_clixml U F first) of
                  Inr (second # _) \<Rightarrow> eq_lossy first second
                | _ \<Rightarrow> False)
           | _ \<Rightarrow> True))"

section \<open>What the generators give\<close>

fun survives :: "ps_value \<Rightarrow> bool" where
  "survives (PsList vs) \<longleftrightarrow> (\<forall>v\<in>set vs. survives v)"
| "survives (PsDict es) \<longleftrightarrow> (\<forall>kv\<in>set es. survives (fst kv) \<and> survives (snd kv))"
| "survives (PsObject (Ps_Object props names ts)) \<longleftrightarrow>
     ts = None \<and> (\<forall>p\<in>set props. fst p \<noteq> VALUE_KEY \<and> survives (snd p))"
| "survives (PsChar c) \<longleftrightarrow> c < 65536"
| "survives (PsDecimal s) \<longleftrightarrow> trim s = s"
| "survives v \<longleftrightarrow> True"

lemma sbind_Inr_iff: "sbind r f = (u', Inr y) \<longleftrightarrow> (\<exists>u1 x. r = (u1, Inr x) \<and> f x u1 = (u', Inr y))"
  by (auto simp: sbind_def split: prod.split sum.split)

lemma given_Inr_iff: "given f r = (u', Inr y) \<longleftrightarrow> (\<exists>x. r = (u', Inr x) \<and> y = f x)"
  by (cases r) (auto simp: given_def map_sum_Inr_iff)

lemma repeated_all:
  assumes "repeated n gen u = (u', Inr xs)" "\<And>u u' x. gen u = (u', Inr x) \<Longrightarrow> P x"
  shows "\<forall>x\<in>set xs. P x"
  using assms(1) by (induction n arbitrary: u xs) (auto simp: sbind_Inr_iff intro: assms(2))

lemma imap_insert_set: "set (imap_insert k v m) \<subseteq> insert (k, v) (set m)"
  by (induction k v m rule: imap_insert.induct) auto

lemma imap_insert_keys: "distinct (map fst m) \<Longrightarrow> distinct (map fst (imap_insert k v m))"
proof (induction m)
  case (Cons p m)
  then show ?case using imap_insert_set [of k v m] by (cases p) force
qed simp

lemma inserted_keeps:
  assumes "distinct (map fst m)"
  shows "distinct (map fst (foldl (\<lambda>ps p. imap_insert (fst p) (snd p) ps) m props))
    \<and> set (foldl (\<lambda>ps p. imap_insert (fst p) (snd p) ps) m props) \<subseteq> set m \<union> set props"
  using assms
proof (induction props arbitrary: m)
  case (Cons p props)
  from Cons.IH [OF imap_insert_keys [OF Cons.prems]] show ?case using imap_insert_set [of "fst p" "snd p" m] by fastforce
qed simp

definition generated :: "bool \<Rightarrow> nat \<Rightarrow> ps_value \<Rightarrow> bool" where
  "generated safe d v \<longleftrightarrow> rust_value v \<and> element_levels v \<le> Suc d \<and> (safe \<longrightarrow> survives v)"

context unstructured_laws
begin

lemma safe_chars: "idx < length SAFE_CHARS \<Longrightarrow> scalar (SAFE_CHARS ! idx)"
proof -
  have "list_all scalar SAFE_CHARS" by (simp add: SAFE_CHARS_def lit_def scalar_def)
  then show "idx < length SAFE_CHARS \<Longrightarrow> scalar (SAFE_CHARS ! idx)" by (simp add: list_all_length)
qed

lemma gen_string_valid:
  assumes "gen_string A safe u = (u', Inr s)"
  shows "valid_str s"
proof (cases safe)
  case True
  have "scalar c" if "sbind (u_range A 0 3 u) (\<lambda>n u. if n = 0 then u_char A u
      else given ((!) SAFE_CHARS) (u_range A 0 (length SAFE_CHARS - 1) u)) = (u', Inr c)" for u u' c
  proof -
    have "idx < length SAFE_CHARS" if "u_range A 0 (length SAFE_CHARS - 1) v = (v', Inr idx)" for v v' idx
      using range_bounds [OF that] by (simp add: SAFE_CHARS_def)
    then show ?thesis using that char_scalar safe_chars
      by (auto simp: sbind_Inr_iff given_Inr_iff split: if_splits)
  qed
  with assms True show ?thesis
    by (auto simp: gen_string_def sbind_Inr_iff list_all_iff dest!: repeated_all [where P = scalar])
qed (use assms string_valid in \<open>simp add: gen_string_def\<close>)

lemma gen_char_scalar: "gen_char A safe u = (u', Inr c) \<Longrightarrow> scalar c \<and> (safe \<longrightarrow> c < 65536)"
  using range_bounds [of 0 "0xFFFF - 0x800" u u'] char_scalar
  by (auto simp: gen_char_def given_Inr_iff scalar_def split: if_splits)

lemma gen_decimal_trimmed: "gen_decimal A safe u = (u', Inr s) \<Longrightarrow> valid_str s \<and> (safe \<longrightarrow> trim s = s)"
  by (auto simp: gen_decimal_def given_Inr_iff trim_again dest!: gen_string_valid intro: valid_trim)

lemma gen_scalar_generated: "gen_scalar A safe n u = (u', Inr v) \<Longrightarrow> generated safe d v"
  by (auto simp: gen_scalar_def generated_def given_Inr_iff split: if_splits
      dest!: gen_string_valid gen_char_scalar gen_decimal_trimmed)

lemma gen_property_generated:
  assumes "gen_property A safe gen u = (u', Inr p)" "\<And>u u' v. gen u = (u', Inr v) \<Longrightarrow> generated safe d v"
  shows "valid_str (fst p) \<and> (safe \<longrightarrow> fst p \<noteq> VALUE_KEY) \<and> generated safe d (snd p)"
proof -
  have "scalar 120" by (simp add: scalar_def)
  then show ?thesis
    using assms by (auto simp: gen_property_def sbind_Inr_iff given_Inr_iff split: if_splits dest!: gen_string_valid)
qed

lemma gen_object_generated:
  assumes "gen_object A safe gen u = (u', Inr obj)" "\<And>u u' v. gen u = (u', Inr v) \<Longrightarrow> generated safe d v"
  shows "generated safe (Suc d) (PsObject obj)"
proof -
  obtain n u1 u2 props k u3 u4 names ts where parts: "repeated n (gen_property A safe gen) u1 = (u2, Inr props)"
    "repeated k (gen_string A safe) u3 = (u4, Inr names)"
    and ts: "case ts of Some t \<Rightarrow> valid_str t | None \<Rightarrow> True" "safe \<longrightarrow> ts = None"
    and obj: "obj = Ps_Object (foldl (\<lambda>ps p. imap_insert (fst p) (snd p) ps) [] props) names ts"
    using assms(1)
    by (fastforce simp: gen_object_def sbind_Inr_iff given_Inr_iff split: if_splits dest: gen_string_valid)
  have names: "list_all valid_str names"
    using repeated_all [OF parts(2), of valid_str] gen_string_valid by (auto simp: list_all_iff)
  let ?ps = "foldl (\<lambda>ps p. imap_insert (fst p) (snd p) ps) [] props"
  have keys: "distinct (map fst ?ps)" and kept: "set ?ps \<subseteq> set props" using inserted_keeps [of "[]" props] by simp_all
  have each: "\<forall>p\<in>set props. valid_str (fst p) \<and> (safe \<longrightarrow> fst p \<noteq> VALUE_KEY) \<and> generated safe d (snd p)"
    by (rule repeated_all [OF parts(1)]) (rule gen_property_generated [OF _ assms(2)])
  then have "own_levels p \<le> Suc d" if "p \<in> set ?ps" for p
    using kept that by (fastforce simp: own_levels_def generated_def)
  then have "element_levels (PsObject obj) \<le> Suc (Suc d)"
    unfolding obj object_levels by (auto simp: le_max_iff_disj)
  moreover have "rust_value (PsObject obj)"
    using keys kept each names ts(1) by (auto simp: obj generated_def subset_iff)
  moreover have "survives (PsObject obj)" if safe
    using kept each ts(2) that by (auto simp: obj generated_def subset_iff)
  ultimately show ?thesis by (simp add: generated_def)
qed

lemma gen_value_generated: "gen_value d A safe u = (u', Inr v) \<Longrightarrow> generated safe d v"
proof (induction d arbitrary: u u' v)
  case 0
  then show ?case by (auto simp: sbind_Inr_iff dest: gen_scalar_generated)
next
  case (Suc d)
  obtain n u1 where n: "(if n \<le> 22 then gen_scalar A safe n u1
       else if n = 23 then
         sbind (u_range A 0 4 u1) (\<lambda>k u. given PsList (repeated k (gen_value d A safe) u))
       else if n = 24 then
         sbind (u_range A 0 3 u1) (\<lambda>k u. given PsDict (repeated k (\<lambda>u.
           sbind (gen_value d A safe u) (\<lambda>key u. given (Pair key) (gen_value d A safe u))) u))
       else given PsObject (gen_object A safe (gen_value d A safe) u1)) = (u', Inr v)"
    using Suc.prems by (auto simp: sbind_Inr_iff)
  consider "n \<le> 22" | "n = 23" | "n = 24" | "24 < n" by linarith
  then show ?case
  proof cases
    case 1
    with n show ?thesis by (auto dest: gen_scalar_generated)
  next
    case 2
    then obtain k u2 vs where vs: "repeated k (gen_value d A safe) u2 = (u', Inr vs)" "v = PsList vs"
      using n by (auto simp: sbind_Inr_iff given_Inr_iff)
    have "\<forall>v\<in>set vs. generated safe d v" by (rule repeated_all [OF vs(1)]) (rule Suc.IH)
    then show ?thesis by (auto simp: vs(2) generated_def)
  next
    case 3
    let ?gen = "\<lambda>u. sbind (gen_value d A safe u) (\<lambda>key u. given (Pair key) (gen_value d A safe u))"
    obtain k u2 es where es: "repeated k ?gen u2 = (u', Inr es)" "v = PsDict es"
      using 3 n by (auto simp: sbind_Inr_iff given_Inr_iff)
    have "\<forall>e\<in>set es. generated safe d (fst e) \<and> generated safe d (snd e)"
      by (rule repeated_all [OF es(1)]) (auto simp: sbind_Inr_iff given_Inr_iff dest: Suc.IH)
    then show ?thesis by (auto simp: es(2) generated_def)
  next
    case 4
    with n obtain obj where obj: "gen_object A safe (gen_value d A safe) u1 = (u', Inr obj)" "v = PsObject obj"
      by (auto simp: given_Inr_iff)
    show ?thesis unfolding obj(2) by (rule gen_object_generated [OF obj(1) Suc.IH])
  qed
qed

end

section \<open>What survives\<close>

text \<open>
  What the crate relies on of the conversions between the float types: widening makes a NaN of a NaN
  and of nothing else, and a NaN is narrowed to a NaN.
\<close>

locale float_nan_laws = float_laws F for F :: float_api +
  assumes nan_widens: "is_nan (f64_of_f32 F w) \<longleftrightarrow> is_nan32 w"
    and nan_narrows: "is_nan v \<Longrightarrow> is_nan32 (f32_of_f64 F v)"

text \<open>\<open>bits_float\<close> with NaNs.\<close>

definition nan_float :: float_api where
  "nan_float = bits_float\<lparr>f64_of_f32 := (\<lambda>w. if is_nan32 w then NAN else ucast w),
     f32_of_f64 := (\<lambda>v. if is_nan v then 0x7FC00000 else ucast v)\<rparr>"

lemma widened_no_nan: "\<not> is_nan (ucast (w :: u32))"
proof -
  have "bit (0x7FF0000000000000 :: u64) 62" by simp
  moreover have "\<not> bit (ucast w :: u64) 62" by (auto simp: bit_ucast_iff dest: bit_imp_le_length)
  ultimately have "ucast w AND 0x7FF0000000000000 \<noteq> (0x7FF0000000000000 :: u64)" by (metis bit_and_iff)
  then show ?thesis by (simp add: is_nan_def f64_exponent_def)
qed

interpretation nan_float: float_nan_laws nan_float
proof
  fix v :: u64 and w :: u32 and c
  have same: "parse_f64 nan_float = parse_f64 bits_float" "format_f64 nan_float = format_f64 bits_float"
    by (simp_all add: nan_float_def)
  show "parse_f64 nan_float (format_f64 nan_float v) = Inr v" "c \<in> set (format_f64 nan_float v) \<Longrightarrow> float_char c"
    using bits_float_format same by simp_all
  have nan: "is_nan NAN" by (simp add: NAN_def is_nan_def f64_exponent_def f64_mantissa_def)
  show "f32_of_f64 nan_float (f64_of_f32 nan_float w) = w" if "\<not> is_nan (f64_of_f32 nan_float w)"
    using that nan widened_no_nan [of w] by (simp add: nan_float_def narrow_widened split: if_splits)
  show "is_nan (f64_of_f32 nan_float w) \<longleftrightarrow> is_nan32 w"
    using nan widened_no_nan [of w] by (simp add: nan_float_def)
  have "is_nan32 0x7FC00000" by (simp add: is_nan32_def)
  then show "is_nan32 (f32_of_f64 nan_float v)" if "is_nan v" using that by (simp add: nan_float_def)
qed

lemma eq_lossy_simps:
  "eq_lossy (PsList xs) (PsList ys) \<longleftrightarrow> length xs = length ys \<and> list_all (\<lambda>(p, q). eq_lossy p q) (zip xs ys)"
  "eq_lossy (PsDict es) (PsDict ds) \<longleftrightarrow> length es = length ds
     \<and> list_all (\<lambda>(p, q). eq_lossy (fst p) (fst q) \<and> eq_lossy (snd p) (snd q)) (zip es ds)"
  "eq_lossy (PsObject (Ps_Object ps ns ts)) (PsObject (Ps_Object qs ms us)) \<longleftrightarrow> ns = ms \<and> length ps = length qs
     \<and> list_all (\<lambda>(p, q). fst p = fst q \<and> eq_lossy (snd p) (snd q)) (zip ps qs)"
  "eq_lossy (PsDouble x) (PsDouble y) \<longleftrightarrow> eq_f64 x y \<or> is_nan x \<and> is_nan y"
  "eq_lossy (PsF32 a) (PsF32 b) \<longleftrightarrow> eq_f32 a b \<or> is_nan32 a \<and> is_nan32 b"
  by (subst eq_lossy.simps; simp)+

lemma eq_lossy_scalar:
  "scalar_value v \<Longrightarrow> \<forall>x. v \<noteq> PsDouble x \<Longrightarrow> \<forall>x. v \<noteq> PsF32 x \<Longrightarrow> eq_lossy v v"
  by (cases v) (simp_all add: eq_lossy.simps)

lemma eq_lossy_wrapped: "eq_lossy (wrapped v) (wrapped w) \<longleftrightarrow> eq_lossy v w"
  by (simp add: wrapped_def eq_lossy_simps)

lemma list_all_zip_map: "list_all P (zip (map f xs) (map g xs)) \<longleftrightarrow> (\<forall>x\<in>set xs. P (f x, g x))"
  by (induction xs) auto

lemma carried_without_value:
  assumes "\<forall>p\<in>set props. fst p \<noteq> VALUE_KEY"
  shows "carried F (PsObject (Ps_Object props names ts))
    = PsObject (Ps_Object (map (\<lambda>p. (fst p, carried F (snd p))) props) names None)"
proof -
  have "carried_members F props = map (\<lambda>p. (fst p, carried F (snd p))) props" "carried_value F props = []"
    using assms by (induction props) (auto simp: carried_members_def carried_value_def)
  moreover have "carried_value F [] = []" by (simp add: carried_value_def)
  ultimately show ?thesis by (simp add: carried_object)
qed

context float_nan_laws
begin

lemma scalar_survives:
  assumes "scalar_value v" "survives v"
  shows "eq_lossy v (carried F v)"
proof (cases v)
  case (PsDouble x)
  have "is_nan NAN" by (simp add: NAN_def is_nan_def f64_exponent_def f64_mantissa_def)
  with PsDouble show ?thesis by (simp add: eq_lossy_simps eq_f64_def)
next
  case (PsF32 x)
  have "is_nan NAN" by (simp add: NAN_def is_nan_def f64_exponent_def f64_mantissa_def)
  with PsF32 show ?thesis by (simp add: eq_lossy_simps eq_f32_def nan_widens nan_narrows)
qed (use assms eq_lossy_scalar [of v] in auto)

lemma normalize_is_carried: "rust_value v \<Longrightarrow> survives v \<Longrightarrow> eq_lossy (normalize v) (carried F v)"
proof (induction v rule: rust_value.induct)
  case (1 vs)
  then show ?case by (simp add: eq_lossy_wrapped eq_lossy_simps list_all_zip_map)
next
  case (2 es)
  then show ?case by (simp add: eq_lossy_wrapped eq_lossy_simps list_all_zip_map)
next
  case (3 props names ts)
  then show ?case by (simp add: carried_without_value eq_lossy_simps list_all_zip_map)
qed (use scalar_survives in \<open>simp_all del: carried.simps\<close>)

end

text \<open>Any value equals itself.\<close>

lemma eq_lossy_refl: "eq_lossy v v"
proof (induction v rule: rust_value.induct)
  case (1 vs)
  then show ?case using list_all_zip_map [of "\<lambda>(p, q). eq_lossy p q" id vs id] by (simp add: eq_lossy_simps)
next
  case (2 es)
  then show ?case
    using list_all_zip_map [of "\<lambda>(p, q). eq_lossy (fst p) (fst q) \<and> eq_lossy (snd p) (snd q)" id es id]
    by (simp add: eq_lossy_simps)
next
  case (3 props names ts)
  then show ?case
    using list_all_zip_map [of "\<lambda>(p, q). fst p = fst q \<and> eq_lossy (snd p) (snd q)" id props id]
    by (simp add: eq_lossy_simps)
qed (auto simp: eq_lossy.simps eq_f64_def eq_f32_def)

section \<open>No input makes them fail\<close>

lemma drawn_value:
  assumes "unstructured_laws A" "gen_value MAX_DEPTH A safe u = (u', Inr v)"
  shows "rust_value v \<and> element_levels v \<le> MAX_NESTING_DEPTH \<and> (safe \<longrightarrow> survives v)"
  using unstructured_laws.gen_value_generated [OF assms] by (auto simp: generated_def MAX_DEPTH_def MAX_NESTING_DEPTH_def)

text \<open>
  No input makes the fuzz target \<open>clixml_roundtrip\<close> fail.  Whatever bytes the fuzzer draws, the
  document of the generated safe value is accepted, holds one value, and that value is what
  \<open>normalize\<close> predicts, up to NaN payloads.
\<close>

lemma fuzz_clixml_roundtrip_never_fails:
  assumes "uuid_laws U" "float_nan_laws F" "document_reader_laws reader" "unstructured_laws A"
  shows "fuzz_clixml_roundtrip U F reader A u"
proof -
  obtain u' r where r: "safe_value A u = (u', r)" by fastforce
  show ?thesis
  proof (cases r)
    case (Inr v)
    have v: "rust_value v" "element_levels v \<le> MAX_NESTING_DEPTH" "survives v"
      using drawn_value [OF assms(4)] r Inr by (auto simp: safe_value_def)
    show ?thesis
      using document_carries [OF assms(1) float_nan_laws.axioms(1) [OF assms(2)] assms(3) v(1,2)]
        float_nan_laws.normalize_is_carried [OF assms(2) v(1,3)] r Inr
      by (simp add: fuzz_clixml_roundtrip_def)
  qed (use r in \<open>simp add: fuzz_clixml_roundtrip_def\<close>)
qed

lemma fuzz_clixml_roundtrip_never_fails_witness:
  "fuzz_clixml_roundtrip rfc_uuid nan_float document_reader listed [25, 1, 3, 1, 7, 2, 1, 2, 23, 2, 10, 5, 14, 3]"
  by (rule fuzz_clixml_roundtrip_never_fails [OF rfc.uuid_laws_axioms nan_float.float_nan_laws_axioms
        document_reader.document_reader_laws_axioms listed.unstructured_laws_axioms])

text \<open>The same for the target \<open>clixml_encode_decode\<close>, which draws any value.\<close>

lemma fuzz_clixml_encode_decode_never_fails:
  assumes "uuid_laws U" "float_laws F" "document_reader_laws reader" "unstructured_laws A"
  shows "fuzz_clixml_encode_decode U F reader A u"
proof -
  obtain u' r where r: "arb_value A u = (u', r)" by fastforce
  show ?thesis
  proof (cases r)
    case (Inr v)
    have v: "rust_value v" "element_levels v \<le> MAX_NESTING_DEPTH"
      using drawn_value [OF assms(4)] r Inr by (auto simp: arb_value_def)
    show ?thesis
      using document_carries [OF assms(1-3) v] carried_document_carries [OF assms(1-3) v] eq_lossy_refl r Inr
      by (simp add: fuzz_clixml_encode_decode_def)
  qed (use r in \<open>simp add: fuzz_clixml_encode_decode_def\<close>)
qed

end
