(* ===== verification/Fuzz_Wire.thy ===== *)
theory Fuzz_Wire
  imports Messages Fragments Packet_Properties
begin

text \<open>
  The fuzz targets of the wire formats (\<open>src/fuzz/fuzz_targets/\<close>): messages, fragments and the lines
  of the out-of-process protocol.  Each target is the conjunction of its assertions on one input,
  with an early return as \<open>True\<close>, and each is proved to hold on every input.
\<close>

section \<open>Messages\<close>

text \<open>\<open>starts_with('\u{feff}')\<close>; \<open>strip_prefix('\u{feff}').unwrap_or(..)\<close> is \<open>drop_bom\<close>.\<close>

definition starts_with_bom :: "ustr \<Rightarrow> bool" where
  "starts_with_bom s \<longleftrightarrow> take 1 s = [BOM_CHAR]"

text \<open>
  \<open>message_roundtrip.rs\<close>.  The two identifiers are given as such, not by their sixteen bytes:
  \<open>Uuid::from_bytes\<close> names every identifier once.
\<close>

definition fuzz_message_roundtrip :: "uuid_api \<Rightarrow> bool \<Rightarrow> u32 \<Rightarrow> uuid \<Rightarrow> uuid \<Rightarrow> ustr \<Rightarrow> bool" where
  "fuzz_message_roundtrip U to_srv mtype rpid pid body =
     (let msg = \<lparr>msg_destination = (if to_srv then Server else Client), msg_type = mt_from_u32 mtype,
                 msg_rpid = rpid, msg_pid = pid, msg_data = body\<rparr>
      in case msg_decode U (msg_encode U msg) of
           Inl e \<Rightarrow> False
         | Inr got \<Rightarrow>
             msg_destination msg = msg_destination got \<and> msg_rpid msg = msg_rpid got \<and> msg_pid msg = msg_pid got
             \<and> drop_bom (msg_data msg) = msg_data got
             \<and> (if starts_with_bom (msg_data got) then True
                else case msg_decode U (msg_encode U got) of
                       Inl e \<Rightarrow> False
                     | Inr again \<Rightarrow> msg_data got = msg_data again \<and> msg_encode U got = msg_encode U again)
             \<and> mt_to_u32 (msg_type msg) = mt_to_u32 (msg_type got))"

text \<open>\<open>message_decode.rs\<close>.\<close>

definition fuzz_message_decode :: "uuid_api \<Rightarrow> bytes \<Rightarrow> bool" where
  "fuzz_message_decode U input =
     (case msg_decode U input of
        Inl e \<Rightarrow> True
      | Inr msg \<Rightarrow>
          let re = msg_encode U msg in
          case msg_decode U re of
            Inl e \<Rightarrow> False
          | Inr again \<Rightarrow>
              msg_destination msg = msg_destination again \<and> msg_type msg = msg_type again
              \<and> msg_rpid msg = msg_rpid again \<and> msg_pid msg = msg_pid again
              \<and> drop_bom (msg_data msg) = msg_data again
              \<and> (if starts_with_bom (msg_data msg) then True
                 else msg_data msg = msg_data again \<and> re = msg_encode U again))"

lemma drop_bom_other: "\<not> starts_with_bom s \<Longrightarrow> drop_bom s = s"
  by (cases s) (auto simp: starts_with_bom_def)

lemma canonical_type: "mt_from_u32 (mt_to_u32 (msg_type (canonical m))) = msg_type (canonical m)"
  by (simp add: canonical_def)

text \<open>What the decoder accepts is a message whose body is text and whose type has its code's name.\<close>

lemma body_InrD:
  "(case from_utf8 bs of Inl e \<Rightarrow> Inl (f e) | Inr t \<Rightarrow> Inr (g t)) = Inr m \<Longrightarrow> \<exists>t. valid_str t \<and> m = g t"
  by (auto dest: from_utf8_valid split: sum.splits)

lemma decoded_message:
  assumes "msg_decode U bs = Inr m"
  shows "valid_str (msg_data m) \<and> mt_from_u32 (mt_to_u32 (msg_type m)) = msg_type m"
  using assms by (auto simp: msg_decode_def Let_def rbind_Inr_iff dest!: body_InrD split: option.splits)

lemma fuzz_message_roundtrip_never_fails:
  assumes "uuid_laws U" "valid_str body"
  shows "fuzz_message_roundtrip U to_srv mtype rpid pid body"
proof -
  note codec = uuid_laws.msg_decode_encode [OF assms(1)]
  show ?thesis
    using assms(2) valid_drop_bom [OF assms(2)]
    by (auto simp: fuzz_message_roundtrip_def codec canonical_def drop_bom_other)
qed

lemma fuzz_message_decode_never_fails:
  assumes "uuid_laws U"
  shows "fuzz_message_decode U input"
proof (cases "msg_decode U input")
  case (Inr m)
  have type: "mt_from_u32 (mt_to_u32 (msg_type m)) = msg_type m" using decoded_message [OF Inr] by blast
  then have "canonical m = m" if "\<not> starts_with_bom (msg_data m)"
    using that by (cases m) (simp add: canonical_def drop_bom_other)
  then show ?thesis
    using decoded_message [OF Inr] type drop_bom_other [of "msg_data m"] Inr
    by (auto simp: fuzz_message_decode_def uuid_laws.msg_decode_encode [OF assms] Let_def)
      (simp_all add: canonical_def)
qed (simp add: fuzz_message_decode_def)

section \<open>Fragments\<close>

text \<open>\<open>psrp_fuzz::wire\<close>: one message as the fragments that carry it.\<close>

definition wire_message :: "uuid_api \<Rightarrow> u64 \<Rightarrow> destination \<Rightarrow> message_type \<Rightarrow> uuid \<Rightarrow> uuid \<Rightarrow> ustr \<Rightarrow> bytes" where
  "wire_message U oid dest mt rpid pid body =
     encode_message oid (msg_encode U
       \<lparr>msg_destination = dest, msg_type = mt, msg_rpid = rpid, msg_pid = pid, msg_data = body\<rparr>)"

definition client_message :: "uuid_api \<Rightarrow> u64 \<Rightarrow> message_type \<Rightarrow> ustr \<Rightarrow> bytes" where
  "client_message U oid mt body = wire_message U oid Client mt 0 0 body"

text \<open>\<open>fragment_roundtrip.rs\<close>: the payload of a length, the messages, and the target.\<close>

definition pattern_payload :: "nat \<Rightarrow> bytes" where
  "pattern_payload len = map (\<lambda>b. of_nat (b mod 251)) [0..<len]"

definition fuzz_lengths :: "u32 list \<Rightarrow> u16 list \<Rightarrow> bool \<Rightarrow> (u32 \<times> nat) list" where
  "fuzz_lengths ids lens oversized =
     take 8 (zip ids (map (\<lambda>l. unat l mod 4096 + (if oversized then MAX_FRAGMENT_PAYLOAD else 0)) lens))"

definition fuzz_fragment_roundtrip :: "u32 list \<Rightarrow> u16 list \<Rightarrow> u16 \<Rightarrow> bool \<Rightarrow> bool" where
  "fuzz_fragment_roundtrip ids lens chunk oversized =
     (let msgs = map (\<lambda>(oid, len). (ucast oid :: u64, pattern_payload len)) (fuzz_lengths ids lens oversized) in
      if msgs = [] then True
      else case feed_chunks reassembler_new (chunks (max 1 (unat chunk)) (concat (map (case_prod encode_message) msgs))) of
             (r, Inl e) \<Rightarrow> False
           | (r, Inr got) \<Rightarrow> got = map snd msgs \<and> is_idle r)"

text \<open>\<open>fragment_reassembler.rs\<close>: the first byte is the chunk size.\<close>

definition fuzz_fragment_reassembler :: "bytes \<Rightarrow> bool" where
  "fuzz_fragment_reassembler input =
     (case input of
        [] \<Rightarrow> True
      | first # body \<Rightarrow>
          (case feed reassembler_new body of
             (whole, Inl e) \<Rightarrow> True
           | (whole, Inr whole_messages) \<Rightarrow>
               (case feed_chunks reassembler_new (chunks (max 1 (unat first)) body) of
                  (chunked, Inl e) \<Rightarrow> False
                | (chunked, Inr chunked_messages) \<Rightarrow>
                    whole_messages = chunked_messages \<and> is_idle whole = is_idle chunked)))"

lemma message_of_object:
  assumes "well_split oid pl fs"
  shows "filter (\<lambda>f. object_id f = oid') fs = (if oid' = oid then fs else [])" "filter frag_end fs = [last fs]"
proof -
  have ids: "\<forall>f\<in>set fs. object_id f = oid" using assms unfolding well_split_def by (metis in_set_conv_nth)
  then show "filter (\<lambda>f. object_id f = oid') fs = (if oid' = oid then fs else [])" by simp
  have ne: "fs \<noteq> []" using assms by (simp add: well_split_def)
  have "\<not> frag_end f" if f: "f \<in> set (butlast fs)" for f
  proof -
    obtain i where "i < length fs - 1" "f = fs ! i" using f by (auto simp: in_set_conv_nth nth_butlast)
    then show ?thesis using assms unfolding well_split_def by fastforce
  qed
  moreover have "frag_end (last fs)"
    using assms ne unfolding well_split_def by (simp add: last_conv_nth)
  ultimately have "filter frag_end (butlast fs @ [last fs]) = [last fs]" by (simp add: filter_empty_conv)
  then show "filter frag_end fs = [last fs]" using ne by simp
qed

text \<open>A message that arrives when nothing is on the way comes out, and nothing is left.\<close>

lemma feed_message:
  assumes "is_idle r" "length pl < 2 ^ 64"
  shows "\<exists>r'. feed r (encode_message oid pl) = (r', Inr [pl]) \<and> is_idle r'"
proof -
  let ?fs = "split_message oid pl"
  have ws: "well_split oid pl ?fs" by (rule split_message_well_split [OF assms(2)])
  have "last ?fs \<in> set ?fs" using ws by (simp add: well_split_def)
  then have oid: "object_id (last ?fs) = oid" using ws unfolding well_split_def by (metis in_set_conv_nth)
  have "\<exists>r'. feed_chunks r [encode_message oid pl]
      = (r', Inr (map (\<lambda>f. the ((Map.empty(oid \<mapsto> pl)) (object_id f))) (filter frag_end ?fs))) \<and> is_idle r'"
    by (rule feed_interleaved [OF assms(1)]) (use assms(2) message_of_object [OF ws] in \<open>auto simp: encode_message_def\<close>)
  then show ?thesis
    using message_of_object(2) [OF ws] oid by (auto simp: map_sum_append split: prod.splits sum.splits)
qed

text \<open>What the builder gives is read as the one message it was given.\<close>

lemma client_message_read:
  assumes "uuid_laws U" "valid_str body" "is_idle r" "utf8_len body + HEADER_LEN < 2 ^ 64"
  shows "\<exists>r' bs. feed r (client_message U oid mt body) = (r', Inr [bs]) \<and> is_idle r'
    \<and> msg_decode U bs = Inr (canonical \<lparr>msg_destination = Client, msg_type = mt, msg_rpid = 0, msg_pid = 0, msg_data = body\<rparr>)"
  using feed_message [OF assms(3), of "msg_encode U \<lparr>msg_destination = Client, msg_type = mt, msg_rpid = 0, msg_pid = 0, msg_data = body\<rparr>" oid]
    assms(4) uuid_laws.msg_decode_encode [OF assms(1)] assms(2)
  by (auto simp: client_message_def wire_message_def uuid_laws.length_msg_encode [OF assms(1)] utf8_len_def add.commute)

lemma feed_nothing: "is_idle r \<Longrightarrow> feed r [] = (r, Inr [])"
proof -
  assume "is_idle r"
  then have "feed_loop r [] = (r, Inr [])"
    by (subst feed_loop.simps) (simp add: decode_one_def split_first_chunk_def is_idle_def)
  then show ?thesis by (simp add: feed_def)
qed

lemma feed_messages:
  assumes "is_idle r" "\<forall>m\<in>set ms. length (snd m) < 2 ^ 64"
  shows "\<exists>r'. feed r (concat (map (case_prod encode_message) ms)) = (r', Inr (map snd ms)) \<and> is_idle r'"
  using assms
proof (induction ms arbitrary: r)
  case Nil
  then show ?case using feed_nothing [OF Nil(1)] by auto
next
  case (Cons m ms)
  obtain oid pl where m: "m = (oid, pl)" by (cases m)
  obtain r1 where r1: "feed r (encode_message oid pl) = (r1, Inr [pl])" "is_idle r1"
    using feed_message [OF Cons.prems(1)] Cons.prems(2) m by fastforce
  obtain r2 where "feed r1 (concat (map (case_prod encode_message) ms)) = (r2, Inr (map snd ms))" "is_idle r2"
    using Cons.IH [OF r1(2)] Cons.prems(2) by auto
  then show ?case using r1 by (simp add: m feed_append)
qed

lemma encode_message_nonempty: "encode_message oid pl \<noteq> []"
  by (cases "split_message oid pl")
    (auto simp: encode_message_def encode_fragment_def split_message_def chunks.simps [of _ pl] MAX_FRAGMENT_PAYLOAD_def
      split: if_splits)

lemma fuzz_fragment_roundtrip_never_fails: "fuzz_fragment_roundtrip ids lens chunk oversized"
proof -
  let ?msgs = "map (\<lambda>(oid, len). (ucast oid :: u64, pattern_payload len)) (fuzz_lengths ids lens oversized)"
  let ?stream = "concat (map (case_prod encode_message) ?msgs)" and ?n = "max 1 (unat chunk)"
  show ?thesis
  proof (cases "?msgs = []")
    case False
    have "unat l mod 4096 + 32768 < 2 ^ 64" for l :: u16 by (simp add: less_le_trans [of _ "4096 + 32768"])
    then have "\<forall>m\<in>set ?msgs. length (snd m) < 2 ^ 64"
      by (auto simp: fuzz_lengths_def pattern_payload_def MAX_FRAGMENT_PAYLOAD_def
          dest!: in_set_takeD set_zip_rightD intro: less_le_trans)
    then obtain r where r: "feed reassembler_new ?stream = (r, Inr (map snd ?msgs))" "is_idle r"
      using feed_messages [OF new_is_idle] by blast
    have "?stream \<noteq> []" using False encode_message_nonempty by (cases ?msgs) auto
    then have ne: "chunks ?n ?stream \<noteq> []" using chunks_eq_Nil_iff [of ?n ?stream] by linarith
    have "concat (chunks ?n ?stream) = ?stream" by (rule concat_chunks) simp
    then have "feed_chunks reassembler_new (chunks ?n ?stream) = (r, Inr (map snd ?msgs))"
      using feed_chunks_concat(2) [OF ne, of reassembler_new "map snd ?msgs"] r(1) by simp
    then show ?thesis using r(2) by (simp add: fuzz_fragment_roundtrip_def Let_def)
  qed (simp add: fuzz_fragment_roundtrip_def)
qed

lemma fuzz_fragment_reassembler_never_fails: "fuzz_fragment_reassembler input"
proof (cases input)
  case (Cons first body)
  let ?n = "max 1 (unat first)"
  have all: "concat (chunks ?n body) = body" by (rule concat_chunks) simp
  show ?thesis
  proof (cases "body = []")
    case True
    then show ?thesis by (simp add: fuzz_fragment_reassembler_def Cons feed_nothing [OF new_is_idle])
  next
    case False
    then have "chunks ?n body \<noteq> []" using chunks_eq_Nil_iff [of ?n body] by linarith
    from feed_chunks_concat(2) [OF this, of reassembler_new] all show ?thesis
      by (auto simp: fuzz_fragment_reassembler_def Cons split: prod.split sum.split)
  qed
qed (simp add: fuzz_fragment_reassembler_def)

section \<open>Lines of the out-of-process protocol\<close>

text \<open>\<open>internal::out_of_proc::reencode\<close> and \<open>split\<close>.\<close>

definition reencode :: "line_env \<Rightarrow> ustr \<Rightarrow> ustr option" where
  "reencode L line =
     (case parse_line L line of
        Inr (Some packet) \<Rightarrow> Some (butlast (to_line (line_uuids L) packet))
      | _ \<Rightarrow> None)"

fun split_pieces :: "(uchar \<Rightarrow> bool) \<Rightarrow> ustr list \<Rightarrow> bytes list \<Rightarrow> line_splitter \<Rightarrow> ustr list option" where
  "split_pieces hid lines [] sp = Some lines"
| "split_pieces hid lines (c # cs) sp =
     (case push hid c sp of
        (sp, now, Some e) \<Rightarrow> None
      | (sp, now, None) \<Rightarrow> split_pieces hid (lines @ now) cs sp)"

text \<open>\<open>out_of_proc_lines.rs\<close>.\<close>

definition fuzz_out_of_proc_lines :: "line_env \<Rightarrow> bytes \<Rightarrow> bool" where
  "fuzz_out_of_proc_lines L input =
     (case input of
        [] \<Rightarrow> True
      | first # body \<Rightarrow>
          let whole = split_pieces (hidden L) [] [body] splitter_new;
              chunked = split_pieces (hidden L) [] (chunks (max 1 (unat first)) body) splitter_new
          in whole = chunked
             \<and> (case whole of
                  None \<Rightarrow> True
                | Some lines \<Rightarrow>
                    list_all (\<lambda>line. utf8_len line \<le> MAX_LINE_BYTES
                      \<and> (case reencode L line of None \<Rightarrow> True | Some encoded \<Rightarrow> reencode L encoded = Some encoded)) lines))"

lemma split_pieces_pushes:
  "split_pieces hid lines cs sp
     = (case snd (pushes hid cs sp) of (later, None) \<Rightarrow> Some (lines @ later) | (_, Some e) \<Rightarrow> None)"
  by (induction cs arbitrary: lines sp) (auto split: prod.splits option.splits)

lemma finish_line_length:
  assumes "finish_line hid line sp = (sp', Inr t)"
  shows "utf8_len t \<le> MAX_LINE_BYTES"
proof -
  obtain u where u: "from_utf8 (strip_cr line) = Inr u" "length line \<le> MAX_LINE_BYTES"
    "t = (if seen_first_line sp then u else case u of c # rest \<Rightarrow> if c = BOM_CHAR then rest else u | [] \<Rightarrow> u)"
    using assms by (auto simp: finish_line_def Let_def split: if_splits sum.splits)
  have "length (strip_cr line) \<le> length line" by (simp add: strip_cr_def)
  then have "utf8_len u \<le> MAX_LINE_BYTES"
    using as_bytes_from_utf8 [OF u(1)] u(2) by (simp add: utf8_len_def)
  moreover have "utf8_len t \<le> utf8_len u"
    unfolding u(3) by (auto simp: utf8_len_def as_bytes_def split: list.split)
  ultimately show ?thesis by linarith
qed

lemma push_loop_lengths:
  "list_all (\<lambda>t. utf8_len t \<le> MAX_LINE_BYTES) lines \<Longrightarrow> push_loop hid lines bs sp = (sp', lines', e) \<Longrightarrow>
     list_all (\<lambda>t. utf8_len t \<le> MAX_LINE_BYTES) lines'"
proof (induction hid lines bs sp rule: push_loop.induct)
  case (1 hid lines rest sp)
  have line: "utf8_len t \<le> MAX_LINE_BYTES" if "end_line hid head sp = (sp1, Inr t)" for head sp1 t
    using that by (auto simp: end_line_def split: if_splits dest: finish_line_length)
  show ?case
    using 1(2,3) line
    by (auto simp: push_loop.simps [of hid lines rest] split: list.splits prod.splits sum.splits if_splits intro!: 1(1))
qed

lemma pushes_lengths:
  "pushes hid cs sp = (sp', lines, e) \<Longrightarrow> list_all (\<lambda>t. utf8_len t \<le> MAX_LINE_BYTES) lines"
proof (induction cs arbitrary: sp lines)
  case (Cons c cs)
  obtain sp1 now e1 where c: "push hid c sp = (sp1, now, e1)" by (cases "push hid c sp")
  then have "list_all (\<lambda>t. utf8_len t \<le> MAX_LINE_BYTES) now"
    using push_loop_lengths [of "[]" hid c sp] by (simp add: push_def)
  then show ?case using Cons c by (auto split: option.splits prod.splits)
qed simp

lemma parsed_is_worded: "parse_line L t = Inr (Some p) \<Longrightarrow> worded p"
  using parsed_payload [of L t] by (auto simp: worded_def split: packet.split)

lemma reencode_fixed:
  assumes "uuid_laws (line_uuids L)" "line_reader_laws (line_reader L)" "reencode L line = Some encoded"
  shows "reencode L encoded = Some encoded"
proof -
  obtain p where p: "parse_line L line = Inr (Some p)" "encoded = packet_text (line_uuids L) p"
    using assms(3) by (auto simp: reencode_def to_line_text split: sum.splits option.splits)
  then show ?thesis
    using parse_line_text [OF assms(1,2) parsed_is_worded [OF p(1)]] by (simp add: reencode_def to_line_text)
qed

lemma fuzz_out_of_proc_lines_never_fails:
  assumes "uuid_laws (line_uuids L)" "line_reader_laws (line_reader L)"
  shows "fuzz_out_of_proc_lines L input"
proof (cases input)
  case (Cons first body)
  let ?cs = "chunks (max 1 (unat first)) body"
  have "concat [body] = concat ?cs" by (simp add: concat_chunks)
  from splitter_ignores_chunk_boundaries [OF this, of "hidden L"]
  have "split_pieces (hidden L) [] [body] splitter_new = split_pieces (hidden L) [] ?cs splitter_new"
    by (simp add: split_pieces_pushes del: pushes.simps)
  moreover have "list_all (\<lambda>t. utf8_len t \<le> MAX_LINE_BYTES) lines"
    if "split_pieces (hidden L) [] [body] splitter_new = Some lines" for lines
    using that pushes_lengths [of "hidden L" "[body]" splitter_new]
    by (cases "pushes (hidden L) [body] splitter_new")
      (auto simp: split_pieces_pushes simp del: pushes.simps split: option.splits)
  ultimately show ?thesis
    using reencode_fixed [OF assms]
    by (auto simp: fuzz_out_of_proc_lines_def Cons Let_def list_all_iff simp del: split_pieces.simps split: option.split)
qed (simp add: fuzz_out_of_proc_lines_def)

section \<open>Property\<close>

text \<open>
  C37: the fuzz targets of the wire formats hold on every input: a message survives encoding and
  decoding, whatever decodes is a fixed point from then on, fragmented messages come back in order
  whatever the pieces they arrive in, an arbitrary stream is reassembled alike in one piece and in
  many, and lines are cut and re-encoded the same way however they arrive.
\<close>

theorem wire_targets_never_fail:
  assumes "uuid_laws (line_uuids L)" "line_reader_laws (line_reader L)" "valid_str body"
  shows "fuzz_message_roundtrip (line_uuids L) to_srv mtype rpid pid body \<and> fuzz_message_decode (line_uuids L) input
    \<and> fuzz_fragment_roundtrip ids lens chunk oversized \<and> fuzz_fragment_reassembler input
    \<and> fuzz_out_of_proc_lines L input"
  using fuzz_message_roundtrip_never_fails [OF assms(1,3)] fuzz_message_decode_never_fails [OF assms(1)]
    fuzz_fragment_roundtrip_never_fails fuzz_fragment_reassembler_never_fails
    fuzz_out_of_proc_lines_never_fails [OF assms(1,2)]
  by blast

theorem wire_targets_never_fail_witness:
  "fuzz_message_roundtrip rfc_uuid True 0x00010002 3 4 (BOM_CHAR # lit ''<S/>'')
    \<and> fuzz_fragment_roundtrip [5, 5] [0, 7] 3 True \<and> fuzz_out_of_proc_lines sample_line_env [2, 60, 65, 10]"
proof -
  have "uuid_laws (line_uuids sample_line_env)" "line_reader_laws (line_reader sample_line_env)"
    by (simp_all add: sample_line_env_def rfc.uuid_laws_axioms element_reader.line_reader_laws_axioms)
  moreover have "valid_str (BOM_CHAR # lit ''<S/>'')" by (simp add: BOM_CHAR_def scalar_def)
  ultimately show ?thesis
    using wire_targets_never_fail [of sample_line_env] by (metis line_env.select_convs(1) sample_line_env_def)
qed

end
