(* ===== verification/Fuzz_Base64.thy ===== *)
theory Fuzz_Base64
  imports Base64
begin

text \<open>
  The fuzz target of the base64 codec (\<open>src/fuzz/fuzz_targets/codecs.rs\<close>), which has a decoder of its
  own: it works on the characters in groups of four, where the crate's decoder shifts bytes through an
  accumulator.  The two are proved to accept the same texts and to give the same bytes.
\<close>

section \<open>The target\<close>

text \<open>\<open>codecs.rs\<close>: the second decoder, on groups of four characters.\<close>

definition reference_value :: "uchar \<Rightarrow> u32 option" where
  "reference_value c =
     (if c \<in> set ALPHABET then Some (of_nat (length (takeWhile (\<lambda>a. a \<noteq> c) ALPHABET))) else None)"

fun reference_number :: "u32 \<Rightarrow> ustr \<Rightarrow> u32 option" where
  "reference_number n [] = Some n"
| "reference_number n (c # cs) =
     (case reference_value c of None \<Rightarrow> None | Some v \<Rightarrow> reference_number (push_bit 6 n OR v) cs)"

fun reference_groups :: "bytes \<Rightarrow> ustr list \<Rightarrow> bytes option" where
  "reference_groups out [] = Some out"
| "reference_groups out (g # gs) =
     (let pad = length (filter (\<lambda>c. c = 61) g) in
      if 2 < pad \<or> (0 < pad \<and> gs \<noteq> []) \<or> 61 \<in> set (take (4 - pad) g) then None
      else case reference_number 0 (take (4 - pad) g) of
             None \<Rightarrow> None
           | Some n \<Rightarrow>
               let n = push_bit (6 * pad) n
               in reference_groups (out @ take (3 - pad) [ucast (drop_bit 16 n), ucast (drop_bit 8 n), ucast n]) gs)"

definition reference_decode :: "ustr \<Rightarrow> bytes option" where
  "reference_decode text =
     (let symbols = filter (\<lambda>c. c \<notin> {32, 9, 13, 10}) text in
      if length symbols mod 4 \<noteq> 0 then None else reference_groups [] (chunks 4 symbols))"

definition fuzz_codecs :: "ustr \<Rightarrow> bytes \<Rightarrow> bool" where
  "fuzz_codecs text bs \<longleftrightarrow>
     base64_decode text = reference_decode text
     \<and> (case base64_decode text of
          None \<Rightarrow> True
        | Some decoded \<Rightarrow> base64_decode (base64_encode decoded) = Some decoded)
     \<and> base64_decode (base64_encode bs) = Some bs"

section \<open>The two base64 decoders agree\<close>

lemma alphabet_places: "list_all (\<lambda>n. length (takeWhile (\<lambda>a. a \<noteq> ALPHABET ! n) ALPHABET) = n) [0..<64]"
  by code_simp

lemma no_symbols: "list_all (\<lambda>c. c \<in> set ALPHABET \<or> base64_symbol (of_nat c) = None) [0..<128]"
  by code_simp

lemma unat_byte: "unat (v :: u32) < 256 \<Longrightarrow> unat (ucast v :: u8) = unat v"
  by (simp add: unsigned_ucast_eq unsigned_take_bit_eq take_bit_nat_eq_self)

lemma symbol_value:
  assumes "c < 128"
  shows "base64_symbol (of_nat c) = map_option ucast (reference_value c) \<and> (\<forall>v. reference_value c = Some v \<longrightarrow> v < 64)"
proof (cases "c \<in> set ALPHABET")
  case True
  then obtain n where n: "n < 64" "c = ALPHABET ! n" by (auto simp: in_set_conv_nth length_ALPHABET)
  have "length (takeWhile (\<lambda>a. a \<noteq> c) ALPHABET) = n"
    using alphabet_places n by (simp add: list_all_iff)
  then have "reference_value c = Some (of_nat n)" using True by (simp add: reference_value_def)
  moreover have "ucast (of_nat n :: u32) = (of_nat n :: u8)" "(of_nat n :: u32) < 64"
    using n(1) unat_byte [of "of_nat n"] by (simp_all add: word_unat_eq_iff word_less_nat_alt unat_of_nat)
  ultimately show ?thesis using base64_symbol_nth [OF n(1)] n(2) by simp
next
  case False
  then have "base64_symbol (of_nat c) = None" using no_symbols assms unfolding list_all_iff by auto
  then show ?thesis using False by (simp add: reference_value_def)
qed

lemma skipped_value: "c < 128 \<Longrightarrow> base64_skipped (of_nat c) \<longleftrightarrow> c \<in> {32, 9, 13, 10}"
  by (auto simp: base64_skipped_def word_unat_eq_iff unat_of_nat)

lemma value_mask:
  assumes "v < 64"
  shows "v AND 0x3F = v \<and> ucast (ucast v :: u8) = (v :: u32)"
proof -
  have v: "unat v < 64" using assms by (simp add: word_less_nat_alt)
  then have "unat (take_bit 6 v) = unat v" by (simp add: unsigned_take_bit_eq take_bit_nat_eq_self)
  then have "v AND 0x3F = v" by (simp add: word_unat_eq_iff take_bit_eq_mask mask_eq_exp_minus_1)
  moreover have "unat (ucast (ucast v :: u8) :: u32) = unat v" using v unat_byte [of v] by (simp add: unsigned_ucast_eq [of "ucast v :: u8"] take_bit_nat_eq_self)
  ultimately show ?thesis by (simp add: word_unat_eq_iff)
qed

abbreviation number_of :: "u32 \<Rightarrow> u32 \<Rightarrow> u32 \<Rightarrow> u32 \<Rightarrow> u32" where
  "number_of a b c d \<equiv> push_bit 6 (push_bit 6 (push_bit 6 a OR b) OR c) OR d"

lemma number_bytes:
  fixes acc x0 x1 x2 x3 :: u32
  defines "a \<equiv> x0 AND 0x3F" and "b \<equiv> x1 AND 0x3F" and "c \<equiv> x2 AND 0x3F" and "d \<equiv> x3 AND 0x3F"
  shows "(ucast (drop_bit 4 (push_bit 6 (push_bit 6 acc OR a) OR b)) :: u8) = ucast (drop_bit 16 (number_of a b c d))"
    "(ucast (drop_bit 2 (push_bit 6 (push_bit 6 acc OR b) OR c)) :: u8) = ucast (drop_bit 8 (number_of a b c d))"
    "(ucast (push_bit 6 (push_bit 6 acc OR c) OR d) :: u8) = ucast (number_of a b c d)"
  unfolding assms
  by (rule bit_word_eqI, drule small_cases [OF less_le_trans], simp,
      elim disjE; simp add: bit_simps)+

text \<open>Four characters that are no padding, and the last groups with padding.\<close>

lemma symbol_None: "c < 128 \<Longrightarrow> base64_symbol (of_nat c) = None \<longleftrightarrow> reference_value c = None"
  by (simp add: symbol_value)

lemma symbol_Some:
  assumes "c < 128" "reference_value c = Some w"
  shows "\<exists>x. base64_symbol (of_nat c) = Some (ucast (x AND 0x3F :: u32)) \<and> w = x AND 0x3F
    \<and> ucast (ucast (x AND 0x3F :: u32) :: u8) = x AND 0x3F"
  using symbol_value [OF assms(1)] assms(2) value_mask [of w] by (intro exI [of _ w]) simp

lemma pad_no_symbol [simp]: "reference_value 61 = None" "base64_symbol 61 = None"
  by code_simp+

lemma loop_group:
  assumes "c0 < 128" "c1 < 128" "c2 < 128" "c3 < 128" "reference_number 0 [c0, c1, c2, c3] = Some n"
  shows "\<exists>acc'. base64_loop acc 0 out (of_nat c0 # of_nat c1 # of_nat c2 # of_nat c3 # bs)
    = base64_loop acc' 0 (out @ [ucast (drop_bit 16 n), ucast (drop_bit 8 n), ucast n]) bs"
proof -
  obtain w0 w1 w2 w3 where w: "reference_value c0 = Some w0" "reference_value c1 = Some w1"
    "reference_value c2 = Some w2" "reference_value c3 = Some w3" and n: "n = number_of w0 w1 w2 w3"
    using assms(5) by (auto split: option.splits)
  obtain x0 where x0: "base64_symbol (of_nat c0) = Some (ucast (x0 AND 0x3F :: u32))" "w0 = x0 AND 0x3F"
      "ucast (ucast (x0 AND 0x3F :: u32) :: u8) = x0 AND 0x3F" using symbol_Some [OF assms(1) w(1)] by blast
  obtain x1 where x1: "base64_symbol (of_nat c1) = Some (ucast (x1 AND 0x3F :: u32))" "w1 = x1 AND 0x3F"
      "ucast (ucast (x1 AND 0x3F :: u32) :: u8) = x1 AND 0x3F" using symbol_Some [OF assms(2) w(2)] by blast
  obtain x2 where x2: "base64_symbol (of_nat c2) = Some (ucast (x2 AND 0x3F :: u32))" "w2 = x2 AND 0x3F"
      "ucast (ucast (x2 AND 0x3F :: u32) :: u8) = x2 AND 0x3F" using symbol_Some [OF assms(3) w(3)] by blast
  obtain x3 where x3: "base64_symbol (of_nat c3) = Some (ucast (x3 AND 0x3F :: u32))" "w3 = x3 AND 0x3F"
      "ucast (ucast (x3 AND 0x3F :: u32) :: u8) = x3 AND 0x3F" using symbol_Some [OF assms(4) w(4)] by blast
  show ?thesis
    using number_bytes(1) [of acc x0 x1 x2 x3] number_bytes(2) [of "push_bit 6 acc OR (x0 AND 0x3F)" x1 x2 x0 x3]
      number_bytes(3) [of "push_bit 6 (push_bit 6 acc OR (x0 AND 0x3F)) OR (x1 AND 0x3F)" x2 x3 x0 x1]
    by (simp add: Let_def x0(1,3) x1(1,3) x2(1,3) x3(1,3) n x0(2) x1(2) x2(2) x3(2)) blast
qed

text \<open>The symbols as bytes, from the last four back.\<close>

definition padded :: "bytes \<Rightarrow> nat" where
  "padded bs = length (takeWhile (\<lambda>b. b = 61) (rev bs))"

definition decode_symbols :: "u32 \<Rightarrow> bytes \<Rightarrow> bytes \<Rightarrow> bytes option" where
  "decode_symbols acc out bs =
     (if 2 < padded bs then None else base64_loop acc 0 out (take (length bs - padded bs) bs))"

lemma of_nat_pad: "c < 128 \<Longrightarrow> (of_nat c :: u8) = 61 \<longleftrightarrow> c = 61"
  by (auto simp: word_unat_eq_iff unat_of_nat)

lemma padded_append: "4 \<le> length bs \<Longrightarrow> padded bs \<le> 2 \<Longrightarrow> padded (as @ bs) = padded bs"
  "2 < padded bs \<Longrightarrow> 2 < padded (as @ bs)"
proof -
  show "padded (as @ bs) = padded bs" if "4 \<le> length bs" "padded bs \<le> 2"
  proof -
    have "\<exists>b\<in>set (rev bs). b \<noteq> 61"
    proof (rule ccontr)
      assume "\<not> (\<exists>b\<in>set (rev bs). b \<noteq> 61)"
      then have "takeWhile (\<lambda>b. b = 61) (rev bs) = rev bs" by (simp add: takeWhile_eq_all_conv)
      with that show False by (simp add: padded_def)
    qed
    then show ?thesis by (auto simp: padded_def takeWhile_append1)
  qed
  show "2 < padded (as @ bs)" if "2 < padded bs"
  proof (cases "\<exists>b\<in>set (rev bs). b \<noteq> 61")
    case True
    then show ?thesis using that by (auto simp: padded_def takeWhile_append1)
  next
    case False
    then have "takeWhile (\<lambda>b. b = 61) (rev bs @ rev as) = rev bs @ takeWhile (\<lambda>b. b = 61) (rev as)"
      by (intro takeWhile_append2) blast
    moreover have "takeWhile (\<lambda>b. b = 61) (rev bs) = rev bs" using False by (simp add: takeWhile_eq_all_conv)
    ultimately show ?thesis
      using that length_takeWhile_le [of "\<lambda>b. b = 61" "rev bs"] by (simp add: padded_def)
  qed
qed

lemma reference_number_None: "reference_number n cs = None \<longleftrightarrow> (\<exists>c\<in>set cs. reference_value c = None)"
  by (induction cs arbitrary: n) (auto split: option.split)

lemma loop_None:
  assumes "\<forall>c\<in>set cs. c < 128" "\<exists>c\<in>set cs. reference_value c = None"
  shows "base64_loop acc bits out (map of_nat cs @ bs) = None"
  using assms symbol_None unfolding base64_loop_None_iff by fastforce

lemma three_symbols:
  assumes "c0 < 128" "c1 < 128" "c2 < 128" "reference_number 0 [c0, c1, c2] = Some n"
  shows "base64_loop acc 0 out [of_nat c0, of_nat c1, of_nat c2]
    = Some (out @ [ucast (drop_bit 16 (push_bit 6 n)), ucast (drop_bit 8 (push_bit 6 n))])"
proof -
  obtain w0 w1 w2 where w: "reference_value c0 = Some w0" "reference_value c1 = Some w1"
    "reference_value c2 = Some w2" and n: "push_bit 6 n = number_of w0 w1 w2 0"
    using assms(4) by (auto split: option.splits)
  obtain x0 where x0: "base64_symbol (of_nat c0) = Some (ucast (x0 AND 0x3F :: u32))" "w0 = x0 AND 0x3F"
      "ucast (ucast (x0 AND 0x3F :: u32) :: u8) = x0 AND 0x3F" using symbol_Some [OF assms(1) w(1)] by blast
  obtain x1 where x1: "base64_symbol (of_nat c1) = Some (ucast (x1 AND 0x3F :: u32))" "w1 = x1 AND 0x3F"
      "ucast (ucast (x1 AND 0x3F :: u32) :: u8) = x1 AND 0x3F" using symbol_Some [OF assms(2) w(2)] by blast
  obtain x2 where x2: "base64_symbol (of_nat c2) = Some (ucast (x2 AND 0x3F :: u32))" "w2 = x2 AND 0x3F"
      "ucast (ucast (x2 AND 0x3F :: u32) :: u8) = x2 AND 0x3F" using symbol_Some [OF assms(3) w(3)] by blast
  show ?thesis
    using number_bytes(1) [of acc x0 x1 x2 0] number_bytes(2) [of "push_bit 6 acc OR (x0 AND 0x3F)" x1 x2 x0 0]
    by (simp add: Let_def x0(1,3) x1(1,3) x2(1,3) n x0(2) x1(2) x2(2))
qed

lemma two_symbols:
  assumes "c0 < 128" "c1 < 128" "reference_number 0 [c0, c1] = Some n"
  shows "base64_loop acc 0 out [of_nat c0, of_nat c1] = Some (out @ [ucast (drop_bit 16 (push_bit 12 n))])"
proof -
  obtain w0 w1 where w: "reference_value c0 = Some w0" "reference_value c1 = Some w1"
    and n: "push_bit 12 n = number_of w0 w1 0 0"
    using assms(3) by (auto split: option.splits)
  obtain x0 where x0: "base64_symbol (of_nat c0) = Some (ucast (x0 AND 0x3F :: u32))" "w0 = x0 AND 0x3F"
      "ucast (ucast (x0 AND 0x3F :: u32) :: u8) = x0 AND 0x3F" using symbol_Some [OF assms(1) w(1)] by blast
  obtain x1 where x1: "base64_symbol (of_nat c1) = Some (ucast (x1 AND 0x3F :: u32))" "w1 = x1 AND 0x3F"
      "ucast (ucast (x1 AND 0x3F :: u32) :: u8) = x1 AND 0x3F" using symbol_Some [OF assms(2) w(2)] by blast
  show ?thesis
    using number_bytes(1) [of acc x0 x1 0 0]
    by (simp add: Let_def x0(1,3) x1(1,3) n x0(2) x1(2))
qed

text \<open>The last group, then all groups.\<close>

lemma last_group:
  assumes "c0 < 128" "c1 < 128" "c2 < 128" "c3 < 128"
  shows "decode_symbols acc out (map of_nat [c0, c1, c2, c3]) = reference_groups out [[c0, c1, c2, c3]]"
proof -
  note pads = of_nat_pad [OF assms(1)] of_nat_pad [OF assms(2)] of_nat_pad [OF assms(3)] of_nat_pad [OF assms(4)]
  have none: "base64_loop acc 0 out (map of_nat cs) = None"
    if "set cs \<subseteq> {c0, c1, c2, c3}" "\<exists>c\<in>set cs. reference_value c = None" for cs
    using loop_None [of cs acc 0 out "[]"] that assms by auto
  consider (four) "c3 \<noteq> 61" | (three) "c3 = 61" "c2 \<noteq> 61" | (two) "c3 = 61" "c2 = 61" "c1 \<noteq> 61"
    | (bad) "c3 = 61" "c2 = 61" "c1 = 61" by blast
  then show ?thesis
  proof cases
    case four
    have whole: "decode_symbols acc out (map of_nat [c0, c1, c2, c3]) = base64_loop acc 0 out (map of_nat [c0, c1, c2, c3])"
      using four pads by (simp add: decode_symbols_def padded_def del: base64_loop.simps)
    show ?thesis
    proof (cases "reference_number 0 [c0, c1, c2, c3]")
      case None
      then have "base64_loop acc 0 out (map of_nat [c0, c1, c2, c3]) = None"
        by (intro none) (simp_all only: reference_number_None, auto)
      then show ?thesis using None four unfolding whole by (auto simp del: base64_loop.simps reference_number.simps)
    next
      case (Some n)
      then have "c0 \<noteq> 61" "c1 \<noteq> 61" "c2 \<noteq> 61" by (auto split: option.splits)
      then show ?thesis using loop_group [OF assms Some, of acc out "[]"] four Some unfolding whole by auto
    qed
  next
    case three
    have whole: "decode_symbols acc out (map of_nat [c0, c1, c2, c3]) = base64_loop acc 0 out (map of_nat [c0, c1, c2])"
      using three pads by (simp add: decode_symbols_def padded_def del: base64_loop.simps)
    show ?thesis
    proof (cases "reference_number 0 [c0, c1, c2]")
      case None
      then have "base64_loop acc 0 out (map of_nat [c0, c1, c2]) = None"
        by (intro none) (simp_all only: reference_number_None, auto)
      then show ?thesis using None three unfolding whole by (auto simp del: base64_loop.simps reference_number.simps)
    next
      case (Some n)
      then have "c0 \<noteq> 61" "c1 \<noteq> 61" by (auto split: option.splits)
      then show ?thesis using three_symbols [OF assms(1-3) Some, of acc out] three Some unfolding whole
        by (simp add: Let_def del: base64_loop.simps reference_number.simps)
    qed
  next
    case two
    have whole: "decode_symbols acc out (map of_nat [c0, c1, c2, c3]) = base64_loop acc 0 out (map of_nat [c0, c1])"
      using two pads by (simp add: decode_symbols_def padded_def del: base64_loop.simps)
    show ?thesis
    proof (cases "reference_number 0 [c0, c1]")
      case None
      then have "base64_loop acc 0 out (map of_nat [c0, c1]) = None"
        by (intro none) (simp_all only: reference_number_None, auto)
      then show ?thesis using None two unfolding whole by (auto simp del: base64_loop.simps reference_number.simps)
    next
      case (Some n)
      then have "c0 \<noteq> 61" by (auto split: option.splits)
      then show ?thesis using two_symbols [OF assms(1,2) Some, of acc out] two Some unfolding whole
        by (simp add: Let_def del: base64_loop.simps reference_number.simps)
    qed
  next
    case bad
    then show ?thesis using pads by (simp add: decode_symbols_def padded_def)
  qed
qed

lemma four_more:
  assumes "length cs = 4 * Suc n"
  obtains c0 c1 c2 c3 rest where "cs = [c0, c1, c2, c3] @ rest" "length rest = 4 * n"
    "chunks 4 cs = [c0, c1, c2, c3] # chunks 4 rest"
proof (rule that [of "cs ! 0" "cs ! 1" "cs ! 2" "cs ! 3" "drop 4 cs"])
  show whole: "cs = [cs ! 0, cs ! 1, cs ! 2, cs ! 3] @ drop 4 cs"
    using assms by (simp add: Cons_nth_drop_Suc numeral_eq_Suc)
  show "length (drop 4 cs) = 4 * n" using assms by simp
  have "take 4 cs = [cs ! 0, cs ! 1, cs ! 2, cs ! 3]" by (subst whole) simp
  moreover have "chunks 4 cs = take 4 cs # chunks 4 (drop 4 cs)" using assms by (subst chunks.simps) auto
  ultimately show "chunks 4 cs = [cs ! 0, cs ! 1, cs ! 2, cs ! 3] # chunks 4 (drop 4 cs)" by simp
qed

lemma groups_agree:
  "length cs = 4 * n \<Longrightarrow> \<forall>c\<in>set cs. c < 128 \<Longrightarrow>
     decode_symbols acc out (map of_nat cs) = reference_groups out (chunks 4 cs)"
proof (induction n arbitrary: cs acc out)
  case 0
  then show ?case by (simp add: decode_symbols_def padded_def)
next
  case (Suc n)
  obtain c0 c1 c2 c3 rest where cs: "cs = [c0, c1, c2, c3] @ rest" "length rest = 4 * n"
    and groups: "chunks 4 cs = [c0, c1, c2, c3] # chunks 4 rest"
    using four_more [OF Suc.prems(1)] by blast
  have small: "c0 < 128" "c1 < 128" "c2 < 128" "c3 < 128" "\<forall>c\<in>set rest. c < 128" using Suc.prems(2) cs(1) by auto
  show ?case
  proof (cases "rest = []")
    case True
    then show ?thesis using last_group [OF small(1-4)] groups cs(1) by simp
  next
    case False
    let ?bs = "map of_nat rest :: bytes"
    have four: "4 \<le> length ?bs" "chunks 4 rest \<noteq> []"
      using False cs(2) chunks_eq_Nil_iff [of 4 rest] by (cases n; simp)+
    have IH: "decode_symbols acc out ?bs = reference_groups out (chunks 4 rest)" for acc out
      by (rule Suc.IH [OF cs(2) small(5)])
    show ?thesis
    proof (cases "padded ?bs \<le> 2")
      case True
      let ?head = "map of_nat [c0, c1, c2, c3]" and ?tail = "take (length ?bs - padded ?bs) ?bs"
      have "padded (?head @ ?bs) = padded ?bs" by (rule padded_append(1) [OF four(1) True])
      moreover have "length (?head @ ?bs) - padded ?bs = 4 + (length ?bs - padded ?bs)" using True four(1) by simp
      moreover have "map of_nat cs = ?head @ ?bs" by (simp add: cs(1))
      ultimately have whole: "decode_symbols acc out (map of_nat cs) = base64_loop acc 0 out (?head @ ?tail)"
        using True unfolding decode_symbols_def by (simp only: take_append) simp
      have tail: "base64_loop a 0 b ?tail = reference_groups b (chunks 4 rest)" for a b
        using IH [of a b] True by (simp add: decode_symbols_def)
      show ?thesis
      proof (cases "reference_number 0 [c0, c1, c2, c3]")
        case None
        then have "base64_loop acc 0 out (?head @ ?tail) = None"
          using small by (intro loop_None) (simp_all only: reference_number_None, auto)
        moreover have "reference_groups out ([c0, c1, c2, c3] # chunks 4 rest) = None"
          using None four(2)
          by (cases "61 \<in> {c0, c1, c2, c3}") (auto simp: Let_def simp del: reference_number.simps)
        ultimately show ?thesis unfolding whole groups by simp
      next
        case (Some m)
        then have "c0 \<noteq> 61" "c1 \<noteq> 61" "c2 \<noteq> 61" "c3 \<noteq> 61" by (auto split: option.splits)
        then show ?thesis
          using loop_group [OF small(1-4) Some, of acc out ?tail] Some tail unfolding whole groups
          by (auto simp: Let_def simp del: base64_loop.simps reference_number.simps)
      qed
    next
      case False
      then have "2 < padded (map of_nat [c0, c1, c2, c3] @ ?bs)" by (intro padded_append(2)) simp
      then have "decode_symbols acc out (map of_nat cs) = None" by (simp add: decode_symbols_def cs(1))
      moreover have "reference_groups b (chunks 4 rest) = None" for b
        using IH [of _ b] False by (simp add: decode_symbols_def)
      ultimately show ?thesis using groups by (auto simp: Let_def split: option.split)
    qed
  qed
qed

text \<open>A text with a character that is no symbol is refused by both.\<close>

lemma reference_refuses:
  "length cs = 4 * n \<Longrightarrow> c \<in> set cs \<Longrightarrow> c \<noteq> 61 \<Longrightarrow> reference_value c = None \<Longrightarrow> reference_groups out (chunks 4 cs) = None"
proof (induction n arbitrary: cs out)
  case (Suc n)
  obtain c0 c1 c2 c3 rest where cs: "cs = [c0, c1, c2, c3] @ rest" "length rest = 4 * n"
    and groups: "chunks 4 cs = [c0, c1, c2, c3] # chunks 4 rest"
    using four_more [OF Suc.prems(1)] by blast
  show ?case
  proof (cases "c \<in> set rest")
    case True
    then show ?thesis using Suc.IH [OF cs(2) True Suc.prems(3,4)] groups by (auto simp: Let_def split: option.split)
  next
    case False
    then have "c = c0 \<or> c = c1 \<or> c = c2 \<or> c = c3" using Suc.prems(2) cs(1) by auto
    then show ?thesis using Suc.prems(3,4) unfolding groups
      by (auto simp: Let_def numeral_eq_Suc split: option.split)
  qed
qed simp

lemma take_before_end: "take (length xs - length (takeWhile P (rev xs))) xs = rev (dropWhile P (rev xs))"
proof -
  have "rev (rev xs) = rev (dropWhile P (rev xs)) @ rev (takeWhile P (rev xs))"
    by (subst rev_append [symmetric]) simp
  then have "xs = rev (dropWhile P (rev xs)) @ rev (takeWhile P (rev xs))" by simp
  moreover from this have "length xs = length (rev (dropWhile P (rev xs))) + length (takeWhile P (rev xs))"
    by (metis length_append length_rev)
  ultimately show ?thesis by (metis add_diff_cancel_right' append_eq_conv_conj)
qed

lemma in_dropWhile: "x \<in> set xs \<Longrightarrow> \<not> P x \<Longrightarrow> x \<in> set (dropWhile P xs)"
  by (induction xs) auto

lemma decode_refuses:
  assumes "b \<in> set (as_bytes s)" "128 \<le> b"
  shows "base64_decode s = None"
proof -
  have b: "\<not> base64_skipped b" "b \<noteq> 61" "base64_symbol b = None"
    using assms(2) by (auto simp: base64_skipped_def base64_symbol_def word_le_nat_alt)
  then have "b \<in> set (symbols_of s)" using assms(1) by (simp add: symbols_of_def)
  then have "b \<in> set (dropWhile (\<lambda>b. b = 61) (rev (symbols_of s)))" using b(2) by (intro in_dropWhile) simp_all
  then have "b \<in> set (take (length (symbols_of s) - padding_of s) (symbols_of s))"
    by (simp add: padding_of_def take_before_end)
  then show ?thesis using b(3) unfolding base64_decode_iff well_formed_base64_def by blast
qed

lemma wide_char:
  assumes "scalar c" "128 \<le> c"
  shows "\<exists>b\<in>set (as_bytes [c]). 128 \<le> b"
  using assms by (auto simp: as_bytes_def utf8_enc_char_def scalar_def word_le_nat_alt unat_of_nat)

text \<open>The decoders on any text.\<close>

lemma decode_by_symbols:
  "length (symbols_of s) mod 4 = 0 \<Longrightarrow> base64_decode s = decode_symbols 0 [] (symbols_of s)"
  by (simp add: base64_decode_symbols decode_symbols_def padded_def padding_of_def)

lemma decoders_agree:
  assumes "valid_str s"
  shows "base64_decode s = reference_decode s"
proof (cases "\<forall>c\<in>set s. c < 128")
  case True
  let ?cs = "filter (\<lambda>c. c \<notin> {32, 9, 13, 10}) s"
  have "as_bytes s = map of_nat s" using True by (intro as_bytes_ascii) blast
  then have "symbols_of s = filter (\<lambda>b. \<not> base64_skipped b) (map of_nat s)" by (simp add: symbols_of_def)
  also have "\<dots> = map of_nat (filter (\<lambda>c. \<not> base64_skipped (of_nat c)) s)" by (simp add: filter_map comp_def)
  also have "filter (\<lambda>c. \<not> base64_skipped (of_nat c)) s = ?cs"
    using True skipped_value by (intro filter_cong) simp_all
  finally have symbols: "symbols_of s = map of_nat ?cs" .
  show ?thesis
  proof (cases "length ?cs mod 4 = 0")
    case four: True
    then obtain n where "length ?cs = 4 * n" by (auto elim: dvdE)
    then have "decode_symbols 0 [] (map of_nat ?cs) = reference_groups [] (chunks 4 ?cs)"
      using True by (intro groups_agree) auto
    moreover have "base64_decode s = decode_symbols 0 [] (map of_nat ?cs)"
      using four decode_by_symbols [of s] unfolding symbols by simp
    ultimately show ?thesis using four by (simp add: reference_decode_def Let_def)
  next
    case False
    then have "length (symbols_of s) mod 4 \<noteq> 0" by (simp add: symbols)
    with False show ?thesis by (simp add: base64_decode_symbols reference_decode_def Let_def)
  qed
next
  case False
  then obtain c where c: "c \<in> set s" "128 \<le> c" by auto
  have "scalar c" using assms c(1) by (simp add: list_all_iff)
  then obtain b where "b \<in> set (as_bytes s)" "128 \<le> b"
    using wide_char [OF _ c(2)] c(1) by (auto simp: as_bytes_def)
  then have none: "base64_decode s = None" by (rule decode_refuses)
  have "c \<notin> set ALPHABET"
    using c(2) base64_symbol_nth by (fastforce simp: in_set_conv_nth length_ALPHABET)
  then have "reference_value c = None" by (simp add: reference_value_def)
  moreover have "c \<in> set (filter (\<lambda>c. c \<notin> {32, 9, 13, 10}) s)" "c \<noteq> 61" using c by auto
  ultimately have "reference_decode s = None"
    using reference_refuses [of "filter (\<lambda>c. c \<notin> {32, 9, 13, 10}) s" _ c "[]"]
    by (auto simp: reference_decode_def Let_def elim: dvdE)
  with none show ?thesis by simp
qed

section \<open>Property\<close>

text \<open>
  C36: the crate's base64 decoder and the second reading of .NET's \<open>Convert.FromBase64String\<close> accept the
  same texts and give the same bytes, and the fuzz target, which also checks that what is encoded is
  decoded again, holds on every input.
\<close>

theorem base64_decoders_agree:
  assumes "valid_str s"
  shows "base64_decode s = reference_decode s \<and> fuzz_codecs s bs"
  using decoders_agree [OF assms] by (simp add: fuzz_codecs_def split: option.split)

theorem base64_decoders_agree_witness:
  "base64_decode (lit ''QU I='' @ [10]) = reference_decode (lit ''QU I='' @ [10]) \<and> fuzz_codecs (lit ''QU I='' @ [10]) [7]"
proof -
  have "valid_str (lit ''QU I='' @ [10])" by (simp add: lit_def scalar_def)
  then show ?thesis by (rule base64_decoders_agree)
qed

end
