(* ===== verification/Fuzz_States.thy ===== *)
theory Fuzz_States
  imports Decode_Levels Metadata Pipeline_Properties
begin

text \<open>
  The fuzz targets above the wire (\<open>src/fuzz/fuzz_targets/\<close>): the state machine of the runspace pool, the
  typed records and failure texts, the host calls, the two readings of a pipeline's state, and the
  re-encoding of decoded documents.  Three hold on every input.  Two have an input on which their own
  assertion fails, which is given.
\<close>

section \<open>The runspace pool\<close>

text \<open>\<open>runspace_state_machine.rs\<close>.\<close>

datatype fuzz_action =
    Step_Open | Step_Connect | Step_Close | Step_Mark_Closed
  | Server_State u32 | Server_Message u32 ustr

definition state_message :: "codec_env \<Rightarrow> u32 \<Rightarrow> psrp_message" where
  "state_message K code =
     \<lparr>msg_destination = Client, msg_type = RunspacePoolState, msg_rpid = 0, msg_pid = 0,
      msg_data = clixml_of K (PsObject (object_with object_new (lit ''RunspaceState'') (PsI32 code)))\<rparr>"

text \<open>One step: the machine afterwards, and whether \<open>close\<close> gave something to send.\<close>

definition fuzz_step :: "codec_env \<Rightarrow> fuzz_action \<Rightarrow> machine \<Rightarrow> machine \<times> bool" where
  "fuzz_step K step m =
     (case step of
        Step_Open \<Rightarrow> (fst (machine_open K m), False)
      | Step_Connect \<Rightarrow> (fst (machine_connect m), False)
      | Step_Close \<Rightarrow> (case machine_close m of (m, acts) \<Rightarrow> (m, acts \<noteq> []))
      | Step_Mark_Closed \<Rightarrow> (mark_closed m, False)
      | Server_State code \<Rightarrow> (fst (on_message K (state_message K code) m), False)
      | Server_Message mtype body \<Rightarrow>
          (fst (on_message K \<lparr>msg_destination = Client, msg_type = mt_from_u32 mtype, msg_rpid = 0, msg_pid = 0,
                  msg_data = body\<rparr> m), False))"

fun fuzz_steps :: "codec_env \<Rightarrow> bool \<Rightarrow> bool \<Rightarrow> bool \<Rightarrow> fuzz_action list \<Rightarrow> machine \<Rightarrow> bool" where
  "fuzz_steps K ever_closed ever_broken close_issued [] m = True"
| "fuzz_steps K ever_closed ever_broken close_issued (step # steps) m =
     (let (m, issued) = fuzz_step K step m;
          close_issued = (close_issued \<or> issued);
          st = mach_state m
      in is_opened m = (st = Opened)
         \<and> (if ever_closed \<or> ever_broken \<or> close_issued then st \<noteq> Opened else True)
         \<and> mach_rpid m = 0
         \<and> fuzz_steps K (ever_closed \<or> st = Closed) (ever_broken \<or> st = Broken) close_issued steps m)"

definition fuzz_runspace_state_machine :: "codec_env \<Rightarrow> u32 \<Rightarrow> u32 \<Rightarrow> fuzz_action list \<Rightarrow> bool" where
  "fuzz_runspace_state_machine K mn mx steps =
     (case machine_new 0 mn mx of
        Inl e \<Rightarrow> True
      | Inr m \<Rightarrow>
          1 \<le> sint (min_runspaces m) \<and> sint (min_runspaces m) \<le> sint (max_runspaces m)
          \<and> fuzz_steps K False False False (take 64 steps) m)"

lemma fuzz_step_is_a_step:
  assumes "fuzz_step K step m = (m', issued)"
  shows "machine_step K m m'" "issued \<Longrightarrow> ending (mach_state m')"
proof -
  show "machine_step K m m'"
    using assms by (cases step)
      (auto simp: fuzz_step_def split: prod.splits intro: machine_step.intros prod.collapse [symmetric])
  show "ending (mach_state m')" if "issued"
    using assms that by (cases step) (auto simp: fuzz_step_def machine_close_def ending_def split: if_splits)
qed

lemma fuzz_steps_hold:
  "mach_rpid m = 0 \<Longrightarrow> (ever_closed \<or> ever_broken \<or> close_issued \<Longrightarrow> ending (mach_state m)) \<Longrightarrow>
     fuzz_steps K ever_closed ever_broken close_issued steps m"
proof (induction steps arbitrary: ever_closed ever_broken close_issued m)
  case (Cons step steps)
  obtain m' issued where s: "fuzz_step K step m = (m', issued)" by (cases "fuzz_step K step m")
  note one = fuzz_step_is_a_step [OF s]
  have over: "ending (mach_state m')" if "ever_closed \<or> ever_broken \<or> close_issued \<or> issued"
    using that one(2) ending_step [OF one(1)] Cons.prems(2) by blast
  have "mach_rpid m' = 0" using step_fields [OF one(1)] Cons.prems(1) by simp
  moreover have "fuzz_steps K (ever_closed \<or> mach_state m' = Closed) (ever_broken \<or> mach_state m' = Broken)
      (close_issued \<or> issued) steps m'"
    using over calculation by (intro Cons.IH) (auto simp: ending_def)
  moreover have "mach_state m' \<noteq> Opened" if "ever_closed \<or> ever_broken \<or> close_issued \<or> issued"
    using over [OF that] by (auto simp: ending_def)
  ultimately show ?case using s by (auto simp: is_opened_def Let_def)
qed simp

lemma fuzz_runspace_state_machine_never_fails: "fuzz_runspace_state_machine K mn mx steps"
  by (auto simp: fuzz_runspace_state_machine_def machine_new_def intro!: fuzz_steps_hold split: sum.split)

section \<open>Typed records\<close>

text \<open>\<open>records_decode.rs\<close>; the records other than errors are read and dropped.\<close>

definition fuzz_records_decode :: "codec_env \<Rightarrow> (ps_value \<Rightarrow> ustr) \<Rightarrow> bytes \<Rightarrow> bool" where
  "fuzz_records_decode K dbg input =
     (case from_utf8 input of
        Inl e \<Rightarrow> True
      | Inr text \<Rightarrow>
          (case values_of K text of
             Inl e \<Rightarrow> True
           | Inr vs \<Rightarrow>
               list_all (\<lambda>v. (error_from_ps_object v \<noteq> None) = (error_from_ps_object v \<noteq> None)) vs
               \<and> list_all (\<lambda>message. list_all (\<lambda>c. \<not> is_control c) message)
                   [describe_errors dbg vs, failure_message K dbg text vs]))"

lemma describe_errors_as_failure: "describe_errors dbg errors = failure_message (scripted_codec []) dbg [] errors"
proof -
  have "terminal_state_reason (scripted_codec []) [] = None"
    by (simp add: terminal_state_reason_def values_of_def parse_clixml_def parse_clixml_dec_def Let_def)
  then show ?thesis by (simp add: describe_errors_def failure_message_def split: prod.split)
qed

lemma fuzz_records_decode_never_fails: "fuzz_records_decode K dbg input"
proof -
  have "\<not> is_control c" if "c \<in> set (failure_message K dbg t errors)" for K t errors c
    using failure_message_is_quoted [of K dbg t errors] that by (auto simp: rewrites_output_def)
  then show ?thesis
    by (simp add: fuzz_records_decode_def describe_errors_as_failure list_all_iff split: sum.split)
qed

section \<open>Host calls\<close>

text \<open>\<open>host_dispatch.rs\<close>, with the crate's recording host; \<open>W\<close> shows the errors of \<open>winrm_rs\<close>.\<close>

definition decodes :: "codec_env \<Rightarrow> ustr \<Rightarrow> bool" where
  "decodes K body = (case values_of K body of Inl e \<Rightarrow> False | Inr vs \<Rightarrow> True)"

definition fuzz_host_dispatch ::
    "codec_env \<Rightarrow> (winrm_error \<Rightarrow> ustr) \<Rightarrow> u64 \<Rightarrow> ps_value list \<Rightarrow> u64 \<Rightarrow> bool" where
  "fuzz_host_dispatch K W method_id mp call_id =
     (let mi = host_method_from_i64 method_id;
          h = \<lparr>buf_lines = [], buf_warnings = [], buf_errors = [], buf_verbose = [], buf_debug = []\<rparr>
      in case snd (dispatch_host_call buffered_host mi mp h) of
           Inr (Some v) \<Rightarrow> decodes K (build_host_response_body K call_id method_id v)
         | Inr None \<Rightarrow> is_void mi
         | Inl e \<Rightarrow> decodes K (build_host_response_error_body K call_id method_id (display W e)))"

lemma buffered_answers:
  "is_void mi \<and> snd (dispatch_host_call buffered_host mi mp h) = Inr None
    \<or> (\<exists>kind. snd (dispatch_host_call buffered_host mi mp h) = Inl (default_rejection kind))"
  by (cases mi) (auto simp: dispatch_host_call_def is_void_def buffered_host_def no_interaction_host_def rbind_def)

section \<open>Decoded documents\<close>

text \<open>\<open>clixml_decoder.rs\<close>.\<close>

definition fuzz_clixml_decoder :: "codec_env \<Rightarrow> bytes \<Rightarrow> bool" where
  "fuzz_clixml_decoder K input =
     (case from_utf8 input of
        Inl e \<Rightarrow> True
      | Inr text \<Rightarrow>
          (case values_of K text of
             Inl e \<Rightarrow> True
           | Inr vs \<Rightarrow>
               list_all (\<lambda>v. case values_of K (clixml_of K v) of Inl e \<Rightarrow> False | Inr again \<Rightarrow> length again = 1) vs))"

lemma short_document_text: "valid_str (render (short_document n None))" "valid_str (render (short_document n (Some (lit ''a''))))"
  by (induction n)
    (simp_all add: object_tree_def member_trees_def render_attrs_def name_attrs_def pwsh_char_def scalar_def
      xml_escape_def xml_char_def lit_def show_nat.simps [of 0])

section \<open>The state of a pipeline\<close>

text \<open>\<open>metadata_decode.rs\<close>: the two readings of a state, when both give one.\<close>

definition fuzz_metadata_decode :: "codec_env \<Rightarrow> bytes \<Rightarrow> bool" where
  "fuzz_metadata_decode K input =
     (case from_utf8 input of
        Inl e \<Rightarrow> True
      | Inr text \<Rightarrow>
          (case (extract_pipeline_state K text, state_from_xml K text) of
             (Inr a, Some b) \<Rightarrow> a = b
           | _ \<Rightarrow> True))"

lemma one_state: "state_code_of v = Some st \<Longrightarrow> metadata_state_of v = Some st"
  by (cases v) (auto split: option.splits ps_value.splits)

definition document_codec :: codec_env where
  "document_codec = \<lparr>uuids = rfc_uuid, floats = bits_float, xml = document_reader\<rparr>"

definition two_states :: ustr where
  "two_states =
     lit ''<Obj><MS><I64 N=\"PipelineState\">1</I64></MS></Obj><Obj><MS><I32 N=\"PipelineState\">4</I32></MS></Obj>''"

text \<open>Two objects in a row.\<close>

lemma object_read:
  assumes "good_members ms" "depth st = 0"
  shows "parse_element U F MAX_NESTING_DEPTH (lit ''Obj'') [] (tl (document ms) @ rest) st
    = Done (Some (PsObject (insert_members object_new ms)), rest, st)"
proof -
  let ?evs = "concat (map member_events ms) @ XEnd (lit ''MS'') # XEnd (lit ''Obj'') # rest"
  have d: "depth (st\<lparr>depth := 1\<rparr>) < MAX_NESTING_DEPTH" by (simp add: MAX_NESTING_DEPTH_def)
  have "length ms < length ?evs + 1" using length_members [of ms] by simp
  note set_ok = member_set_members [OF assms(1) d this, of U F 62 object_new "XEnd (lit ''Obj'') # rest"]
  have "st\<lparr>depth := 0\<rparr> = st" using assms(2) by (cases st) simp
  then show ?thesis
    using assms(2) set_ok
    by (simp add: parse_element.simps(2) [of U F 63, simplified] MAX_NESTING_DEPTH_def document_def
        parse_element_inner_def scalar_lookup ref_id_attr_def attr_value_def expose_embedded_def keep_ref_def)
qed

lemma next_object:
  assumes "good_members ms" "depth st = 0"
  shows "parse_siblings (parse_element U F MAX_NESTING_DEPTH) (Suc f) vs (document ms @ rest) st
    = parse_siblings (parse_element U F MAX_NESTING_DEPTH) f (vs @ [PsObject (insert_members object_new ms)]) rest st"
proof -
  have start: "document ms @ rest = XStart (lit ''Obj'') [] # tl (document ms) @ rest" by (simp add: document_def)
  show ?thesis unfolding start by (simp add: object_read [OF assms])
qed

definition two_members :: "member list list" where
  "two_members = [[MemI64 (lit ''PipelineState'') (lit ''1'')], [MemI32 (lit ''PipelineState'') (lit ''4'')]]"

lemma two_states_read: "document_reader two_states = concat (map document two_members)"
  by code_simp

lemma two_states_text: "trim_start (dropWhile (\<lambda>c. c = BOM_CHAR) two_states) = two_states" "valid_str two_states"
  by (simp_all add: two_states_def trim_start_def is_whitespace_def BOM_CHAR_def) (simp add: lit_def is_whitespace_def)

lemma two_states_values:
  "values_of document_codec two_states
    = Inr [PsObject (Ps_Object [(lit ''PipelineState'', PsI64 1)] [] None),
           PsObject (Ps_Object [(lit ''PipelineState'', PsI32 4)] [] None)]"
proof -
  have good: "good_members [MemI64 (lit ''PipelineState'') (lit ''1'')]" "good_members [MemI32 (lit ''PipelineState'') (lit ''4'')]"
    by (simp_all add: good_members_def small_numbers)
  have objects: "insert_members object_new [MemI64 (lit ''PipelineState'') (lit ''1'')] = Ps_Object [(lit ''PipelineState'', PsI64 1)] [] None"
    "insert_members object_new [MemI32 (lit ''PipelineState'') (lit ''4'')] = Ps_Object [(lit ''PipelineState'', PsI32 4)] [] None"
    by (simp_all add: small_numbers object_new_def object_insert_def object_with_def)
  let ?st = "initial_state (utf8_len two_states) (concat (map document two_members))"
  have "depth ?st = 0" by (simp add: initial_state_def)
  note read = next_object [OF good(1) this, of rfc_uuid bits_float _ "[]" "document [MemI32 (lit ''PipelineState'') (lit ''4'')]"]
    next_object [OF good(2) this, of rfc_uuid bits_float _ _ "[]", simplified append_Nil2]
  have "parse_siblings (parse_element rfc_uuid bits_float MAX_NESTING_DEPTH) (Suc (Suc (Suc f))) []
      (concat (map document two_members)) ?st
    = Done [PsObject (Ps_Object [(lit ''PipelineState'', PsI64 1)] [] None),
           PsObject (Ps_Object [(lit ''PipelineState'', PsI32 4)] [] None)]" for f
    using read by (simp add: two_members_def objects del: insert_members.simps)
  moreover obtain f where "length (concat (map document two_members)) = Suc (Suc f)"
    by (simp add: two_members_def document_def)
  ultimately show ?thesis
    by (simp add: values_of_def parse_clixml_def parse_clixml_dec_def two_states_text Let_def document_codec_def two_states_read)
qed

lemma two_states_differ: "\<not> fuzz_metadata_decode document_codec (as_bytes two_states)"
  by (simp add: fuzz_metadata_decode_def two_states_text two_states_values extract_pipeline_state_def
      state_from_xml_def object_get_def pipeline_state_from_i32_def try_i32_def i32_of_def)

text \<open>The answer to a host call is a document the codec reads.\<close>

lemma valid_show_int [simp]: "valid_str (show_int i)"
  by (auto simp: show_int_def list_all_iff scalar_def dest!: show_nat_digits)

lemma response_decodes:
  assumes "uuid_laws (uuids K)" "float_laws (floats K)" "document_reader_laws (xml K)" "valid_str message"
  shows "decodes K (build_host_response_error_body K ci mi message)"
proof -
  let ?v = "PsObject (object_with (object_with (object_with object_new
       (lit ''ci'') (PsI64 ci)) (lit ''mi'') (PsI64 mi))
       (lit ''me'') (PsObject (with_type_names
          (object_with object_new (lit ''Message'') (PsString message)) [lit ''System.Exception''])))"
  have "rust_value ?v" "element_levels ?v \<le> MAX_NESTING_DEPTH"
    using assms(4) by (simp_all add: object_new_def object_with_def with_type_names_def MAX_NESTING_DEPTH_def deepest_def)
  from document_carries [OF assms(1-3) this] show ?thesis
    by (simp add: decodes_def values_of_def build_host_response_error_body_def clixml_of_def)
qed

lemma valid_rejection: "valid_str (display W (default_rejection kind))"
  by (cases kind) (simp_all add: default_rejection_def protocol_def scalar_def)

lemma fuzz_host_dispatch_never_fails:
  assumes "uuid_laws (uuids K)" "float_laws (floats K)" "document_reader_laws (xml K)"
  shows "fuzz_host_dispatch K W method_id mp call_id"
  using buffered_answers [of "host_method_from_i64 method_id" mp
      "\<lparr>buf_lines = [], buf_warnings = [], buf_errors = [], buf_verbose = [], buf_debug = []\<rparr>"]
    response_decodes [OF assms valid_rejection]
  by (auto simp: fuzz_host_dispatch_def Let_def)

section \<open>Properties\<close>

text \<open>
  C38: the fuzz targets of the pool's state machine, of the typed records and of the host calls hold on every
  input: whatever the client calls and the server sends, a pool that is closed, broken or closing is
  never open again; no text built from what a server wrote carries a control character; and the answer
  to every host call is a document that is read back.
\<close>

theorem state_targets_never_fail:
  assumes "uuid_laws (uuids K)" "float_laws (floats K)" "document_reader_laws (xml K)"
  shows "fuzz_runspace_state_machine K mn mx steps \<and> fuzz_records_decode K dbg input
    \<and> fuzz_host_dispatch K W method_id mp call_id"
  using fuzz_runspace_state_machine_never_fails fuzz_records_decode_never_fails fuzz_host_dispatch_never_fails [OF assms]
  by blast

theorem state_targets_never_fail_witness:
  "fuzz_runspace_state_machine document_codec 1 2 [Step_Open, Server_State 2, Step_Close, Server_State 2]
    \<and> fuzz_records_decode document_codec (\<lambda>_. []) (as_bytes two_states)
    \<and> fuzz_host_dispatch document_codec winrm_display 51 [] 7"
  by (rule state_targets_never_fail)
    (simp_all add: document_codec_def rfc.uuid_laws_axioms bits_float.float_laws_axioms document_reader.document_reader_laws_axioms)

text \<open>
  C39: a decoded document passes the fuzz target of the decoder, which encodes each value and decodes it again, when
  the values' own documents stay within the depth limit; the target fails on a document of 64 objects inside each
  other around a self-closed string, which is decoded although its value's own document is one level too deep.
\<close>

theorem clixml_decoder_target:
  assumes "uuid_laws (uuids K)" "float_laws (floats K)" "document_reader_laws (xml K)" "\<And>t. list_all event_ok (xml K t)"
    and "from_utf8 input = Inr text" "values_of K text = Inr vs" "list_all (\<lambda>v. element_levels v \<le> MAX_NESTING_DEPTH) vs"
  shows "fuzz_clixml_decoder K input \<and> \<not> fuzz_clixml_decoder K (as_bytes (render (short_document 64 None)))"
proof -
  have "values_of K (clixml_of K v) = Inr [carried (floats K) v]" if "v \<in> set vs" for v
    using decoded_again [OF assms(1-4) assms(6) [unfolded values_of_def] that] assms(7) that
    by (simp add: values_of_def clixml_of_def list_all_iff)
  moreover have "values_of K (render (short_document 64 None)) = Inr [nested_text 64]"
    "values_of K (clixml_of K (nested_text 64)) = Inl depth_error"
    using one_level_more [OF assms(3), of "uuids K" "floats K"] by (simp_all add: values_of_def clixml_of_def)
  moreover have "from_utf8 (as_bytes (render (short_document 64 None))) = Inr (render (short_document 64 None))"
    by (rule from_utf8_as_bytes [OF short_document_text(1)])
  ultimately show ?thesis using assms(5,6) by (simp add: fuzz_clixml_decoder_def list_all_iff)
qed

theorem clixml_decoder_target_witness:
  "\<not> fuzz_clixml_decoder \<lparr>uuids = rfc_uuid, floats = bits_float, xml = strict_reader\<rparr>
     (as_bytes (render (short_document 64 None)))"
proof -
  let ?K = "\<lparr>uuids = rfc_uuid, floats = bits_float, xml = strict_reader\<rparr>"
  have "values_of ?K (to_clixml rfc_uuid bits_float (PsList [PsNull])) = Inr [wrapped (PsList [PsNull])]"
    using document_carries [OF rfc.uuid_laws_axioms bits_float.float_laws_axioms
        strict_reader.document_reader_laws_axioms, of "PsList [PsNull]"]
    by (simp add: MAX_NESTING_DEPTH_def deepest_def values_of_def)
  moreover have "from_utf8 (as_bytes (to_clixml rfc_uuid bits_float (PsList [PsNull])))
      = Inr (to_clixml rfc_uuid bits_float (PsList [PsNull]))" by code_simp
  moreover have "element_levels (wrapped (PsList [PsNull])) \<le> MAX_NESTING_DEPTH"
    by (simp add: wrapped_levels MAX_NESTING_DEPTH_def deepest_def)
  ultimately show ?thesis
    using clixml_decoder_target [of ?K "as_bytes (to_clixml rfc_uuid bits_float (PsList [PsNull]))"
        "to_clixml rfc_uuid bits_float (PsList [PsNull])" "[wrapped (PsList [PsNull])]"]
      strict_events_ok rfc.uuid_laws_axioms bits_float.float_laws_axioms strict_reader.document_reader_laws_axioms
    by simp
qed

text \<open>
  C40: the two readings of a pipeline's state agree on a document of one value, which is what a server sends; on one
  with two values they need not, against what the fuzz target asserts: where the first object holds its
  state as a 64-bit number and the second as a 32-bit one, each is read by one of them.
\<close>

theorem pipeline_state_readings:
  assumes "values_of K text = Inr [v]" "extract_pipeline_state K text = Inr st"
  shows "state_from_xml K text = Some st \<and> \<not> fuzz_metadata_decode document_codec (as_bytes two_states)"
  using assms one_state [of v st] two_states_differ
  by (auto simp: extract_pipeline_state_def state_from_xml_def rbind_def ok_or_def split: option.splits)

theorem pipeline_state_readings_witness:
  "state_from_xml (scripted_codec (document completed_members)) [] = Some PCompleted"
proof -
  have "good_members completed_members" "completed_members \<noteq> []"
    by (simp_all add: good_members_def completed_members_def small_numbers)
  from values_of_document [OF this] completed_read show ?thesis
    using pipeline_state_readings [of "scripted_codec (document completed_members)"] by blast
qed

end
