(* ===== verification/Spec2Isabelle.thy ===== *)
theory Spec2Isabelle
  imports Fragments Messages Base64 Escapes Values Encode Decode Decode_Limits Records Pool_State
    Crypto Host Transport Pool Pool_Laws
    Documents Pool_Properties Message_Order Pool_Lifecycle Decode_Errors Decode_Types Pipelines Pipeline_Properties
    Packets Packet_Properties Sessions Session_Steps Session_Properties Remote_Pools
    Metadata Metadata_Properties Known_Hosts Known_Hosts_Properties
    Ssh Pipe_Simulation Ssh_Properties Fake_Pwsh Fake_Properties
    Xml_Trees Carried_Values Clixml_Roundtrip Codec_Settles Decode_Levels
    Blocking Blocking_Properties Run_Messages
    Fuzz_Values Fuzz_Codec Fuzz_Wire Fuzz_Base64 Fuzz_States
begin

text \<open>
  A verification development of the Rust crate \<open>psrp-rs\<close>, a client for the PowerShell Remoting
  Protocol (MS-PSRP).  The source files named below are under \<open>src/src/\<close>, the fuzz targets under
  \<open>src/fuzz/\<close>.

  \<^bold>\<open>The program.\<close>  A caller opens a \<^emph>\<open>runspace pool\<close> on a server over a \<^emph>\<open>transport\<close> and runs
  \<^emph>\<open>pipelines\<close> in it.  A value on its way to the server is encoded as CLIXML (an XML format), becomes
  the body of a PSRP message, is cut into fragments under a fresh object id, and is sent over WinRM or,
  through an SSH channel, as lines of the out-of-process protocol, where each line is acknowledged
  before the next is written.  The way back is the reverse: chunks of bytes, lines, fragments, messages,
  values.  The pool pumps the messages: it answers the host calls of the server, exchanges a session
  key under which secure strings travel, follows the server through a state machine and hands what is
  left to the pipelines.  Everything read may come from a hostile server.

  \<^bold>\<open>The language.\<close>  \<open>Prelude\<close>, \<open>Text_Codecs\<close> and \<open>Unicode\<close> model what the crate uses of Rust and of its
  standard library: machine integers as words, \<open>String\<close> as a list of Unicode scalar values, byte
  slices as lists, \<open>Result\<close> as a sum with the error on the left, printing and parsing of numbers,
  UTF-8 and UTF-16 with the error positions of the standard library.  State is passed and returned,
  and where the code has changed it before an error it is returned changed with the error.

  \<^bold>\<open>Components, from the bottom to the top.\<close>

  \<^item> \<open>Errors\<close> (\<open>error.rs\<close>): the error type with its \<open>Display\<close> texts and the quoting of remote text.

  \<^item> \<open>Uuids\<close>: the interface of the \<open>uuid\<close> crate (\<open>uuid_laws\<close>), with the layout of RFC 4122 as
    its instance.

  \<^item> \<open>Fragments\<close> (\<open>fragment.rs\<close>): header, splitter and reassembler.  The reassembler refines a machine
    that keeps the fragments of each object, and restores any interleaving of messages from any chunks.

  \<^item> \<open>Messages\<close> (\<open>message.rs\<close>): message codes, header and body; the codec is a bijection with what it
    accepts.

  \<^item> \<open>Base64\<close> and \<open>Escapes\<close> (\<open>clixml/encode.rs\<close>, \<open>clixml/decode.rs\<close>): the base64 codec and the two layers of
    text escapes, with their round trips.

  \<^item> \<open>Values\<close> (\<open>clixml/mod.rs\<close>): \<open>PsValue\<close>, \<open>PsObject\<close> and the accessors; \<open>IndexMap\<close> is an association
    list that satisfies the locale \<open>ordered_map\<close>.

  \<^item> \<open>Encode\<close> (\<open>clixml/encode.rs\<close>), \<open>Xml_Events\<close> and \<open>Decode\<close> (\<open>clixml/decode.rs\<close>): the encoder, and the
    decoder over the events of the third-party XML reader.

  \<^item> \<open>Records\<close> (\<open>records.rs\<close>): the typed records a decoded object is read as.

  \<^item> \<open>Pool_State\<close> (\<open>runspace/state.rs\<close>): states, transitions and opening messages, with the step
    relation \<open>machine_step\<close> that the operations implement.

  \<^item> \<open>Crypto\<close> (\<open>crypto.rs\<close>), \<open>Host\<close> (\<open>host.rs\<close>), \<open>Transport\<close> (\<open>transport.rs\<close>: the trait, the mock and the WinRM
    transport with its parked Receive).

  \<^item> \<open>Pool\<close> (\<open>runspace/pool.rs\<close>): sending, the message pump, host calls, the key exchange, opening, closing,
    disconnecting and reconnecting.

  \<^item> \<open>Pipelines\<close> (\<open>pipeline.rs\<close>): builders, the two receive loops, the handle, failure texts.
    \<open>Metadata\<close> (\<open>metadata.rs\<close>, \<open>shared.rs\<close>): the \<open>Get-Command\<close> query and shared pools.
    \<open>Blocking\<close> (\<open>blocking.rs\<close>): the synchronous calls.

  \<^item> \<open>Packets\<close> (\<open>out_of_proc/packet.rs\<close>) and \<open>Sessions\<close> (\<open>out_of_proc/session.rs\<close>, \<open>out_of_proc/transport.rs\<close>):
    the lines and the session engine that has one request in flight.  \<open>Fake_Pwsh\<close>
    (\<open>out_of_proc/fake.rs\<close>): the server the crate tests the session against.

  \<^item> \<open>Known_Hosts\<close> and \<open>Ssh\<close> (\<open>ssh.rs\<close>): the verdict on a host key, connecting, the channel as the pipe of
    a session, closing.

  \<^item> \<open>Fuzz_Values\<close> (\<open>src/fuzz/src/lib.rs\<close>), \<open>Fuzz_Codec\<close>, \<open>Fuzz_Wire\<close>, \<open>Fuzz_Base64\<close>, \<open>Fuzz_States\<close>
    (\<open>src/fuzz/fuzz_targets/\<close>): the generators of the fuzz targets, and each target as the conjunction of
    its assertions on one input.

  \<^bold>\<open>What is proved.\<close>

  \<^item> The codec.  \<open>Decode_Limits\<close>, \<open>Decode_Errors\<close> and \<open>Decode_Types\<close> verify the decoder on every event
    stream: it ends, its values are bounded in height and well typed, its errors are quoted.  Each verifies the
    loops once, against a locale that is the contract of the parser for inner elements, and interprets it on
    \<open>parse_element\<close>, level by level.  \<open>Xml_Trees\<close>, \<open>Carried_Values\<close> and \<open>Clixml_Roundtrip\<close> show that the
    encoder writes the rendering of a tree and that decoding it gives what CLIXML carries of the value
    (\<open>carried\<close>); \<open>Codec_Settles\<close> that one hop is enough, and \<open>Decode_Levels\<close> what becomes of a decoded
    value that is sent back.  \<open>Documents\<close> evaluates the small documents of the examples.

  \<^item> The pool.  \<open>Pool_Laws\<close> has the steps a holder of a pool can take and the locale \<open>pool_traffic\<close>, which
    carries an invariant of what was sent, and of the session key in force, through all of them, and the
    history of a pool, in which every answer is sealed under the key in force; \<open>Pool_Properties\<close> (object
    ids, secure strings), \<open>Message_Order\<close> (from bytes to messages), \<open>Pool_Lifecycle\<close>.
    \<open>Pipeline_Properties\<close>, \<open>Run_Messages\<close> (with the host calls that arrive during a run) and
    \<open>Metadata_Properties\<close> compare each receive loop with a reference on the list of messages;
    \<open>Blocking_Properties\<close> shows that a blocking call closes the shell it opened.

  \<^item> The session.  \<open>Session_Steps\<close> shows that every operation is a run of small steps, whatever the pipe
    does, and \<open>Session_Properties\<close> proves invariants of the steps (bounded queue, stop-and-wait, nothing lost,
    failed for good).  \<open>Packet_Properties\<close> has the line codec, \<open>Fake_Properties\<close> the session against the
    server of the tests (without bytes that a test injects), \<open>Remote_Pools\<close> that requests end and a pool over a session,
    \<open>Pipe_Simulation\<close> that sessions over similar pipes agree, and \<open>Ssh_Properties\<close> and
    \<open>Known_Hosts_Properties\<close> the SSH side: no credentials before the host key is accepted.

  \<^item> The fuzz targets.  Targets of the codec (\<open>Fuzz_Codec\<close>), of the wire formats and of the state machine never
    fail; base64 agrees with the targets' own decoder; for two targets an input on
    which their assertion fails is given (\<open>clixml_decoder_target\<close>, \<open>pipeline_state_readings\<close>).

  \<^bold>\<open>Loops, fuel and waiting.\<close>  Recursion that consumes its input has a measure (\<open>split_loop\<close>,
  \<open>feed_loop\<close>, \<open>push_loop\<close>, \<open>decode_loop\<close>, \<open>glob_loop\<close>, \<open>write_value\<close>).  The loops of the decoder have one unit of
  fuel for each event and one more, enough by \<open>parse_clixml_total\<close>, and its
  recursion has the 64 levels of \<open>MAX_NESTING_DEPTH\<close>, which is the code's own guard.  A loop that waits for
  the server (\<open>next_message\<close>, \<open>recv_loop\<close>, \<open>settle\<close>, \<open>read_stdout\<close>) has a bound on its turns, and a loop that can
  be cancelled (\<open>run_loop\<close>, \<open>drain_loop\<close>) a list of turns that says when the token fires; \<open>None\<close> says that the call has not
  returned yet, which a server that keeps silent can always achieve.  Where a call must return, this is
  proved: \<open>recv_chunk_bounded_and_lossless\<close>, \<open>session_requests_end\<close>, \<open>ssh_close_tears_down\<close>.  A future
  dropped while it waits is the same \<open>None\<close>, with the state as the drop leaves it.

  \<^bold>\<open>Parameters.\<close>  Code outside the repository enters as arguments, with what the crate relies on as
  locales or premises that are met by concrete instances: the \<open>uuid\<close> crate (\<open>uuid_laws\<close>), the XML
  reader of \<open>quick_xml\<close> (\<open>line_reader_laws\<close>, \<open>document_reader_laws\<close>), the formatting of finite floats
  (\<open>float_laws\<close>), RSA and AES (\<open>client_key\<close>, \<open>cipher\<close>), the shell of \<open>winrm_rs\<close> (\<open>shell_api\<close>), the connection of
  \<open>russh\<close>, the parsers, fingerprints and hashes of \<open>known_hosts\<close> (\<open>ssh_env\<close>), the \<open>Unstructured\<close> input of \<open>arbitrary\<close>
  (\<open>unstructured_laws\<close>), and the derived \<open>Debug\<close> texts.  Floating point numbers are their bit patterns.
  The shell of \<open>winrm_rs\<close> is consumed by closing it; the model keeps what closing left of it in a field of its
  own (\<open>wt_ended\<close>), to state that it was closed.

  \<^bold>\<open>Not modelled.\<close>  The third-party crates above.  Key generation and the zeroing of key memory, which are calls of
  \<open>rsa\<close>, \<open>rand\<close> and \<open>zeroize\<close> without a result the crate computes.  Log output, hand-written \<open>Debug\<close> texts and the
  warnings of \<open>Drop\<close>.  The waiting for a mutex: calls through a shared handle are one after
  another.  Allocation failures, and stack use beyond the nesting guard.  Accessors that only return a field.
  The unit tests, the integration tests and the benchmarks, the generator
  of the fuzz corpus (it writes files), the crate roots.  Of the fuzz targets, \<open>pool_receive\<close> and \<open>psrp_stream\<close>, which assert
  nothing but that no call panics (the model's operations are total functions), \<open>crypto_secure_string\<close>, whose assertion that a
  wrong key is noticed holds of the cipher only with a probability, and \<open>known_hosts_match\<close>, which tests the
  third-party parser.
\<close>

end
